(* ===== verification/Prelude.thy ===== *)
theory Prelude
  imports Complex_Main "HOL-Library.Word" "HOL-Library.Multiset" "HOL-Library.Product_Lexorder"
    "HOL-Library.List_Lexorder" "HOL-Library.Char_ord"
begin

text \<open>
  What the components share: the results of fallible code, JavaScript numbers and
  untyped values, the insertion-ordered \<open>Map\<close> of JavaScript with the laws its
  clients rely on (a locale and its interpretation), and generic lemmas on lists.
\<close>

section \<open>Fact collections\<close>

named_theorems map_laws \<open>laws of the insertion-ordered map\<close>
named_theorems inv_defs \<open>definitions of the component invariants\<close>

section \<open>Results of fallible code\<close>

text \<open>
  A function of the source that may throw returns \<open>'e + 'a\<close>: \<open>Inl\<close> is the thrown
  value, \<open>Inr\<close> the returned one. \<open>try_bind\<close> is the sequential composition that
  stops at the first error, \<open>map_try\<close> is an array \<open>map\<close> whose callback may throw.
\<close>

definition try_bind :: "'e + 'a \<Rightarrow> ('a \<Rightarrow> 'e + 'b) \<Rightarrow> 'e + 'b" where
  "try_bind r f = (case r of Inl e \<Rightarrow> Inl e | Inr a \<Rightarrow> f a)"

lemma try_bind_simps [simp]:
  "try_bind (Inl e) f = Inl e"
  "try_bind (Inr a) f = f a"
  by (simp_all add: try_bind_def)

lemma try_bind_Inr_iff: "try_bind r f = Inr b \<longleftrightarrow> (\<exists>a. r = Inr a \<and> f a = Inr b)"
  by (cases r) auto

fun map_try :: "('a \<Rightarrow> 'e + 'b) \<Rightarrow> 'a list \<Rightarrow> 'e + 'b list" where
  "map_try f [] = Inr []"
| "map_try f (x # xs) =
     (case f x of
        Inl e \<Rightarrow> Inl e
      | Inr y \<Rightarrow> (case map_try f xs of Inl e \<Rightarrow> Inl e | Inr ys \<Rightarrow> Inr (y # ys)))"

lemma map_try_Inr: "map_try f xs = Inr ys \<longleftrightarrow> list_all2 (\<lambda>x y. f x = Inr y) xs ys"
proof (induction xs arbitrary: ys)
  case Nil
  then show ?case by auto
next
  case (Cons x xs)
  then show ?case
    by (cases ys; cases "f x"; cases "map_try f xs") auto
qed

lemma map_try_length: "map_try f xs = Inr ys \<Longrightarrow> length ys = length xs"
  by (simp add: map_try_Inr list_all2_lengthD)

lemma map_try_nth: "map_try f xs = Inr ys \<Longrightarrow> i < length xs \<Longrightarrow> f (xs ! i) = Inr (ys ! i)"
  by (auto simp: map_try_Inr list_all2_conv_all_nth)

lemma map_try_set: "map_try f xs = Inr ys \<Longrightarrow> y \<in> set ys \<Longrightarrow> \<exists>x\<in>set xs. f x = Inr y"
  by (fastforce simp: map_try_Inr list_all2_conv_all_nth in_set_conv_nth)

section \<open>JavaScript numbers and untyped values\<close>

text \<open>
  A JavaScript number is an IEEE double: a finite rational, an infinity or NaN.
  \<open>unknown\<close> values (parsed JSON, tool arguments) are \<open>jsval\<close>; an object is the list
  of its own properties in order, a missing property reads as \<open>JUndefined\<close>.
\<close>

datatype jsnumber = Finite rat | Infinite bool | NotANumber

datatype jsval =
    JUndefined
  | JNull
  | JBool bool
  | JNum jsnumber
  | JStr string
  | JArr "jsval list"
  | JObj "(string \<times> jsval) list"

definition is_integer :: "jsnumber \<Rightarrow> bool" where
  "is_integer n = (case n of Finite q \<Rightarrow> snd (quotient_of q) = 1 | _ \<Rightarrow> False)"

definition js_int :: "jsnumber \<Rightarrow> int" where
  "js_int n = (case n of Finite q \<Rightarrow> fst (quotient_of q) | _ \<Rightarrow> 0)"

definition js_prop :: "(string \<times> jsval) list \<Rightarrow> string \<Rightarrow> jsval" where
  "js_prop fields k = (case map_of fields k of None \<Rightarrow> JUndefined | Some v \<Rightarrow> v)"

lemma quotient_of_of_int [simp]: "quotient_of (rat_of_int z) = (z, 1)"
  by (simp add: of_int_rat quotient_of_Fract)

lemma is_integer_of_int [simp]: "is_integer (Finite (of_int z))"
  by (simp add: is_integer_def)

lemma js_int_of_int [simp]: "js_int (Finite (of_int z)) = z"
  by (simp add: js_int_def)

section \<open>Strings\<close>

text \<open>
  Texts that are not edited by position are \<open>string\<close>s: their characters stand for the first
  256 code points. Digits, white space (\<open>trim\<close>) and decimal output as JavaScript has them.
\<close>

fun show_nat :: "nat \<Rightarrow> string" where
  "show_nat n = (if n < 10 then [char_of (48 + n)] else show_nat (n div 10) @ [char_of (48 + n mod 10)])"

declare show_nat.simps [simp del]

definition show_int :: "int \<Rightarrow> string" where
  "show_int n = (if n < 0 then ''-'' @ show_nat (nat (- n)) else show_nat (nat n))"

definition is_digit :: "char \<Rightarrow> bool" where
  "is_digit c = (48 \<le> (of_char c :: nat) \<and> (of_char c :: nat) \<le> 57)"

definition digits_value :: "string \<Rightarrow> int" where
  "digits_value ds = foldl (\<lambda>n c. n * 10 + (of_char c - 48)) 0 ds"

definition is_js_space :: "char \<Rightarrow> bool" where
  "is_js_space c = ((of_char c :: nat) \<in> {9, 10, 11, 12, 13, 32, 160})"

definition trim_string :: "string \<Rightarrow> string" where
  "trim_string s = rev (dropWhile is_js_space (rev (dropWhile is_js_space s)))"

text \<open>\<open>Buffer.byteLength(s, "utf8")\<close> for these code points.\<close>

definition byte_length :: "string \<Rightarrow> nat" where
  "byte_length s = sum_list (map (\<lambda>c. if (of_char c :: nat) < 128 then 1 else 2) s)"

text \<open>\<open>Array.prototype.sort\<close> with a comparator: stable.\<close>

fun js_insert :: "('a \<Rightarrow> 'a \<Rightarrow> int) \<Rightarrow> 'a \<Rightarrow> 'a list \<Rightarrow> 'a list" where
  "js_insert cmp x [] = [x]"
| "js_insert cmp x (y # ys) = (if cmp x y \<le> 0 then x # y # ys else y # js_insert cmp x ys)"

fun js_sort :: "('a \<Rightarrow> 'a \<Rightarrow> int) \<Rightarrow> 'a list \<Rightarrow> 'a list" where
  "js_sort cmp [] = []"
| "js_sort cmp (x # xs) = js_insert cmp x (js_sort cmp xs)"

lemma mset_js_insert [simp]: "mset (js_insert cmp x xs) = add_mset x (mset xs)"
  by (induction xs) auto

lemma mset_js_sort [simp]: "mset (js_sort cmp xs) = mset xs"
  by (induction xs) auto

lemma set_js_sort [simp]: "set (js_sort cmp xs) = set xs"
  by (metis mset_js_sort set_mset_mset)

lemma sorted_js_insert:
  assumes "\<And>y. y \<in> set ys \<Longrightarrow> cmp x y \<le> 0 \<Longrightarrow> P x y" and "\<And>y. y \<in> set ys \<Longrightarrow> \<not> cmp x y \<le> 0 \<Longrightarrow> P y x"
    and "transp P" and "sorted_wrt P ys"
  shows "sorted_wrt P (js_insert cmp x ys)"
  using assms(1,2,4)
proof (induction ys)
  case Nil
  then show ?case by simp
next
  case (Cons y ys)
  show ?case
  proof (cases "cmp x y \<le> 0")
    case True
    then have "P x y"
      using Cons.prems by simp
    then show ?thesis
      using True Cons.prems(3) assms(3) by (auto dest: transpD)
  next
    case False
    have "set (js_insert cmp x ys) = insert x (set ys)"
      by (metis mset_js_insert set_mset_add_mset_insert set_mset_mset)
    then show ?thesis
      using False Cons by simp
  qed
qed

lemma sorted_js_sort:
  assumes "\<And>x y. x \<in> set xs \<Longrightarrow> y \<in> set xs \<Longrightarrow> cmp x y \<le> 0 \<Longrightarrow> P x y"
    and "\<And>x y. x \<in> set xs \<Longrightarrow> y \<in> set xs \<Longrightarrow> \<not> cmp x y \<le> 0 \<Longrightarrow> P y x" and "transp P"
  shows "sorted_wrt P (js_sort cmp xs)"
  using assms(1,2)
proof (induction xs)
  case Nil
  then show ?case by simp
next
  case (Cons x xs)
  then show ?case
    using assms(3) by (auto intro!: sorted_js_insert)
qed

section \<open>The insertion-ordered map\<close>

text \<open>
  A JavaScript \<open>Map\<close> iterates over its entries in the order of first insertion:
  \<open>set\<close> on a present key replaces the value in place, on a new key appends it.
\<close>

type_synonym ('k, 'v) jsmap = "('k \<times> 'v) list"

definition jm_get :: "('k, 'v) jsmap \<Rightarrow> 'k \<Rightarrow> 'v option" where
  "jm_get m k = map_of m k"

definition jm_has :: "('k, 'v) jsmap \<Rightarrow> 'k \<Rightarrow> bool" where
  "jm_has m k = (map_of m k \<noteq> None)"

fun jm_set :: "'k \<Rightarrow> 'v \<Rightarrow> ('k, 'v) jsmap \<Rightarrow> ('k, 'v) jsmap" where
  "jm_set k v [] = [(k, v)]"
| "jm_set k v ((k', v') # m) = (if k' = k then (k, v) # m else (k', v') # jm_set k v m)"

definition jm_delete :: "'k \<Rightarrow> ('k, 'v) jsmap \<Rightarrow> ('k, 'v) jsmap" where
  "jm_delete k m = filter (\<lambda>e. fst e \<noteq> k) m"

definition jm_keys :: "('k, 'v) jsmap \<Rightarrow> 'k list" where
  "jm_keys m = map fst m"

definition jm_values :: "('k, 'v) jsmap \<Rightarrow> 'v list" where
  "jm_values m = map snd m"

definition jm_ok :: "('k, 'v) jsmap \<Rightarrow> bool" where
  "jm_ok m = distinct (map fst m)"


subsection \<open>The interface its clients use\<close>

text \<open>
  The laws of an ordered key/value store, as the classes of the source use their \<open>Map\<close>
  fields: what a lookup returns after an operation, that keys stay unique, and how the
  number of entries changes. \<open>ok\<close> is the representation invariant.
\<close>

locale ordered_map =
  fixes ok :: "'m \<Rightarrow> bool"
    and get :: "'m \<Rightarrow> 'k \<Rightarrow> 'v option"
    and put :: "'k \<Rightarrow> 'v \<Rightarrow> 'm \<Rightarrow> 'm"
    and del :: "'k \<Rightarrow> 'm \<Rightarrow> 'm"
    and keys :: "'m \<Rightarrow> 'k list"
    and emp :: 'm
  assumes ok_emp: "ok emp"
    and ok_put: "ok m \<Longrightarrow> ok (put k v m)"
    and ok_del: "ok m \<Longrightarrow> ok (del k m)"
    and get_emp: "get emp k = None"
    and get_put: "get (put k v m) k' = (if k' = k then Some v else get m k')"
    and get_del: "get (del k m) k' = (if k' = k then None else get m k')"
    and keys_get: "k \<in> set (keys m) \<longleftrightarrow> get m k \<noteq> None"
    and distinct_keys: "ok m \<Longrightarrow> distinct (keys m)"
begin

lemma card_keys: "ok m \<Longrightarrow> length (keys m) = card {k. get m k \<noteq> None}"
proof -
  assume "ok m"
  then have "length (keys m) = card (set (keys m))"
    by (simp add: distinct_keys distinct_card)
  moreover have "set (keys m) = {k. get m k \<noteq> None}"
    using keys_get by auto
  ultimately show ?thesis by simp
qed

lemma set_keys: "set (keys m) = {k. get m k \<noteq> None}"
  using keys_get by auto

lemma put_size:
  assumes "ok m"
  shows "length (keys (put k v m)) = length (keys m) + (if get m k = None then 1 else 0)"
proof -
  have dom: "{k'. get (put k v m) k' \<noteq> None} = insert k {k'. get m k' \<noteq> None}"
    by (auto simp: get_put)
  have "finite {k'. get m k' \<noteq> None}"
    using set_keys [of m] by (metis finite_set)
  then show ?thesis
    unfolding card_keys [OF assms] card_keys [OF ok_put [OF assms]] dom
    by (simp only: card_insert_if) auto
qed

lemma del_size:
  assumes "ok m"
  shows "length (keys (del k m)) = length (keys m) - (if get m k = None then 0 else 1)"
proof -
  have dom: "{k'. get (del k m) k' \<noteq> None} = {k'. get m k' \<noteq> None} - {k}"
    by (auto simp: get_del)
  have "finite {k'. get m k' \<noteq> None}"
    using set_keys [of m] by (metis finite_set)
  then show ?thesis
    unfolding card_keys [OF assms] card_keys [OF ok_del [OF assms]] dom
    by (simp only: card_Diff_singleton_if) auto
qed

end

lemma jm_get_set: "jm_get (jm_set k v m) k' = (if k' = k then Some v else jm_get m k')"
  by (induction k v m rule: jm_set.induct) (auto simp: jm_get_def)

lemma jm_get_delete: "jm_get (jm_delete k m) k' = (if k' = k then None else jm_get m k')"
  by (induction m) (auto simp: jm_get_def jm_delete_def)

lemma set_jm_set_keys: "set (map fst (jm_set k v m)) = insert k (set (map fst m))"
  by (induction k v m rule: jm_set.induct) auto

lemma jm_ok_set: "jm_ok m \<Longrightarrow> jm_ok (jm_set k v m)"
proof (induction k v m rule: jm_set.induct)
  case (1 k v)
  then show ?case by (simp add: jm_ok_def)
next
  case (2 k v k' v' m)
  then show ?case
    using set_jm_set_keys [of k v m] by (auto simp: jm_ok_def)
qed

lemma jm_ok_delete: "jm_ok m \<Longrightarrow> jm_ok (jm_delete k m)"
  by (simp add: jm_ok_def jm_delete_def distinct_map_filter)

interpretation jm: ordered_map
  jm_ok jm_get jm_set jm_delete jm_keys "[] :: ('k \<times> 'v) list"
proof unfold_locales
  show "k \<in> set (jm_keys m) \<longleftrightarrow> jm_get m k \<noteq> None" for k and m :: "('k \<times> 'v) list"
    by (auto simp: jm_keys_def jm_get_def map_of_eq_None_iff)
  show "distinct (jm_keys m)" if "jm_ok m" for m :: "('k \<times> 'v) list"
    using that by (simp add: jm_ok_def jm_keys_def)
qed (simp_all add: jm_ok_set jm_ok_delete jm_get_set jm_get_delete,
     simp_all add: jm_ok_def jm_get_def)

declare jm_get_set [map_laws] jm_get_delete [map_laws] jm.get_emp [map_laws]
  jm_ok_set [map_laws] jm_ok_delete [map_laws] jm.ok_emp [map_laws]

lemma jm_has_get: "jm_has m k \<longleftrightarrow> jm_get m k \<noteq> None"
  by (simp add: jm_has_def jm_get_def)

lemma jm_get_in: "jm_get m k = Some v \<Longrightarrow> (k, v) \<in> set m"
  by (simp add: jm_get_def map_of_SomeD)

lemma jm_in_get: "jm_ok m \<Longrightarrow> (k, v) \<in> set m \<Longrightarrow> jm_get m k = Some v"
  by (simp add: jm_get_def jm_ok_def)

lemma length_jm_set:
  "jm_ok m \<Longrightarrow> length (jm_set k v m) = length m + (if jm_get m k = None then 1 else 0)"
  using jm.put_size [of m k v] by (simp add: jm_keys_def)

lemma length_jm_delete:
  "jm_ok m \<Longrightarrow> length (jm_delete k m) = length m - (if jm_get m k = None then 0 else 1)"
  using jm.del_size [of m k] by (simp add: jm_keys_def)

lemma set_jm_set_subset: "set (jm_set k v m) \<subseteq> insert (k, v) (set m)"
  by (induction k v m rule: jm_set.induct) auto

lemma set_jm_delete: "set (jm_delete k m) = {e \<in> set m. fst e \<noteq> k}"
  by (auto simp: jm_delete_def)

lemma jm_set_replace: "jm_get m k \<noteq> None \<Longrightarrow> jm_keys (jm_set k v m) = jm_keys m"
  by (induction k v m rule: jm_set.induct) (auto simp: jm_get_def jm_keys_def split: if_splits)

lemma jm_set_append: "jm_get m k = None \<Longrightarrow> jm_set k v m = m @ [(k, v)]"
  by (induction k v m rule: jm_set.induct) (auto simp: jm_get_def split: if_splits)

lemma jm_get_filter_keys: "jm_get (filter (\<lambda>e. p (fst e)) m) k = (if p k then jm_get m k else None)"
  by (induction m) (auto simp: jm_get_def)

lemma sum_jm_set:
  fixes m :: "('k, 'v :: comm_monoid_add) jsmap"
  shows "sum_list (map snd (jm_set k v m)) + (case jm_get m k of None \<Rightarrow> 0 | Some u \<Rightarrow> u) = sum_list (map snd m) + v"
proof (induction k v m rule: jm_set.induct)
  case (1 k v)
  then show ?case by (simp add: jm_get_def)
next
  case (2 k v k' v' m)
  then show ?case
    by (cases "k' = k") (simp_all add: jm_get_def ac_simps)
qed

section \<open>Lists\<close>

definition js_slice :: "nat \<Rightarrow> nat \<Rightarrow> 'a list \<Rightarrow> 'a list" where
  "js_slice a b xs = take (b - a) (drop a xs)"

lemma js_slice_self [simp]: "js_slice a a xs = []"
  by (simp add: js_slice_def)

lemma length_js_slice: "b \<le> length xs \<Longrightarrow> length (js_slice a b xs) = b - a"
  by (simp add: js_slice_def)

lemma js_slice_append_drop: "a \<le> b \<Longrightarrow> js_slice a b xs @ drop b xs = drop a xs"
  by (metis append_take_drop_id drop_drop le_add_diff_inverse2 js_slice_def)

lemma take_slice: "a \<le> b \<Longrightarrow> take a xs @ js_slice a b xs = take b xs"
  by (metis le_add_diff_inverse js_slice_def take_add)

text \<open>Adding to a JavaScript \<open>Set\<close>, which is the list of its elements in the order of insertion.\<close>

definition set_add :: "'a \<Rightarrow> 'a list \<Rightarrow> 'a list" where
  "set_add x xs = (if x \<in> set xs then xs else xs @ [x])"

lemma set_set_add [simp]: "set (set_add x xs) = insert x (set xs)"
  by (auto simp: set_add_def)

lemma distinct_set_add [simp]: "distinct (set_add x xs) = distinct xs"
  by (auto simp: set_add_def)

lemma set_add_not_Nil [simp]: "set_add x xs \<noteq> []"
  by (auto simp: set_add_def)

text \<open>\<open>find_index\<close> is JavaScript's \<open>findIndex\<close>, with \<open>None\<close> for \<open>-1\<close>.\<close>

fun find_index :: "('a \<Rightarrow> bool) \<Rightarrow> 'a list \<Rightarrow> nat option" where
  "find_index p [] = None"
| "find_index p (x # xs) = (if p x then Some 0 else map_option Suc (find_index p xs))"

lemma find_index_Some:
  "find_index p xs = Some i \<Longrightarrow> i < length xs \<and> p (xs ! i) \<and> (\<forall>j<i. \<not> p (xs ! j))"
proof (induction xs arbitrary: i)
  case Nil
  then show ?case by simp
next
  case (Cons x xs)
  then show ?case
    by (cases i) (auto split: if_splits simp: less_Suc_eq_0_disj)
qed

lemma find_index_None: "find_index p xs = None \<longleftrightarrow> (\<forall>x\<in>set xs. \<not> p x)"
  by (induction xs) auto

lemma find_Some_iff_first:
  "List.find p xs = Some x \<Longrightarrow> x \<in> set xs \<and> p x"
  by (induction xs) (auto split: if_splits)

lemma filter_not_taken:
  "distinct ts \<Longrightarrow> filter (\<lambda>i. i \<notin> set (take k ts)) ts = drop k ts"
proof -
  assume "distinct ts"
  then have "distinct (take k ts @ drop k ts)"
    by simp
  then have "set (take k ts) \<inter> set (drop k ts) = {}"
    unfolding distinct_append by blast
  then have "filter (\<lambda>i. i \<notin> set (take k ts)) (take k ts @ drop k ts) = drop k ts"
    by (subst filter_append) (auto intro!: filter_True)
  then show ?thesis
    by simp
qed

lemma distinct_map_sort_key: "distinct (map f (sort_key g xs)) \<longleftrightarrow> distinct (map f xs)"
  by (metis distinct_map distinct_sort set_sort)

end
