(* ===== verification/Text_Edits.thy ===== *)
theory Text_Edits
  imports Prelude
begin

text \<open>
  The pure half of \<open>extensions/dev-tools/workspace-edit.ts\<close>: the line table of a text
  (\<open>getLineBounds\<close>), the translation of LSP positions to offsets (\<open>positionOffset\<close>)
  and the application of a file's text edits (\<open>applyTextEdits\<close>). A text is a sequence
  of UTF-16 code units, as JavaScript strings are. The main result is that an accepted
  edit list has exactly the left-to-right reading of LSP, whatever order it came in.
\<close>

section \<open>Texts, positions, edits\<close>

type_synonym jstext = "16 word list"

abbreviation CR :: "16 word" where "CR \<equiv> 13"
abbreviation LF :: "16 word" where "LF \<equiv> 10"

record lsp_position =
  pos_line :: nat
  pos_character :: nat

record lsp_range =
  range_start :: lsp_position
  range_end :: lsp_position

record lsp_text_edit =
  edit_range :: lsp_range
  new_text :: jstext

record line_bounds =
  lb_start :: nat
  lb_end :: nat

text \<open>
  The errors of this half, one constructor per \<open>throw\<close>; a position's label is the index
  of its edit and whether it is the end position.
\<close>

datatype text_edit_error =
    Line_out_of_bounds nat bool nat
  | Character_out_of_bounds nat bool nat
  | Reversed_range nat
  | Overlapping_edits

section \<open>Line table\<close>

text \<open>The loop of \<open>getLineBounds\<close>: \<open>index\<close> runs over the text, \<open>start\<close> is the current line's.\<close>

function line_loop :: "jstext \<Rightarrow> nat \<Rightarrow> nat \<Rightarrow> line_bounds list" where
  "line_loop content index start =
     (if index < length content then
        (if content ! index = CR then
           (let index' = (if index + 1 < length content \<and> content ! (index + 1) = LF
                          then index + 1 else index)
            in \<lparr>lb_start = start, lb_end = index\<rparr> # line_loop content (index' + 1) (index' + 1))
         else if content ! index = LF then
           \<lparr>lb_start = start, lb_end = index\<rparr> # line_loop content (index + 1) (index + 1)
         else line_loop content (index + 1) start)
      else [\<lparr>lb_start = start, lb_end = length content\<rparr>])"
  by pat_completeness auto
termination
  by (relation "measure (\<lambda>(content, index, start). length content - index)")
     (auto simp: Let_def split: if_splits)

declare line_loop.simps [simp del]

definition getLineBounds :: "jstext \<Rightarrow> line_bounds list" where
  "getLineBounds content = line_loop content 0 0"

section \<open>Positions and edits\<close>

definition positionOffset ::
  "line_bounds list \<Rightarrow> lsp_position \<Rightarrow> nat \<times> bool \<Rightarrow> text_edit_error + nat" where
  "positionOffset lines p label =
     (if pos_line p < length lines then
        let l = lines ! pos_line p in
        if pos_character p > lb_end l - lb_start l
        then Inl (Character_out_of_bounds (fst label) (snd label) (pos_character p))
        else Inr (lb_start l + pos_character p)
      else Inl (Line_out_of_bounds (fst label) (snd label) (pos_line p)))"

record resolved_edit =
  re_start :: nat
  re_end :: nat
  re_text :: jstext
  re_index :: nat

text \<open>The callback of \<open>file.edits.map\<close>: both positions, then the reversed-range check.\<close>

definition resolve_edit ::
  "line_bounds list \<Rightarrow> nat \<times> lsp_text_edit \<Rightarrow> text_edit_error + resolved_edit" where
  "resolve_edit lines ie =
     (let (index, edit) = ie in
      try_bind (positionOffset lines (range_start (edit_range edit)) (index, False)) (\<lambda>start.
      try_bind (positionOffset lines (range_end (edit_range edit)) (index, True)) (\<lambda>end'.
        if end' < start then Inl (Reversed_range index)
        else Inr \<lparr>re_start = start, re_end = end', re_text = new_text edit, re_index = index\<rparr>)))"

text \<open>The loop over \<open>ascending\<close>: each edit may not start before its predecessor's end.\<close>

fun overlap_check :: "resolved_edit list \<Rightarrow> bool" where
  "overlap_check (a # b # es) = (re_start b < re_end a \<or> overlap_check (b # es))"
| "overlap_check _ = False"

definition ascending :: "resolved_edit list \<Rightarrow> resolved_edit list" where
  "ascending es = sort_key (\<lambda>e. (re_start e, - int (re_end e), re_index e)) es"

definition descending :: "resolved_edit list \<Rightarrow> resolved_edit list" where
  "descending es = sort_key (\<lambda>e. (- int (re_start e), - int (re_index e))) es"

text \<open>The reduction step \<open>updated.js_slice(0, start) + newText + updated.js_slice(end)\<close>.\<close>

definition apply_one :: "jstext \<Rightarrow> resolved_edit \<Rightarrow> jstext" where
  "apply_one updated e = take (re_start e) updated @ re_text e @ drop (re_end e) updated"

definition resolve_edits ::
  "jstext \<Rightarrow> lsp_text_edit list \<Rightarrow> text_edit_error + resolved_edit list" where
  "resolve_edits content edits =
     map_try (resolve_edit (getLineBounds content)) (enumerate 0 edits)"

definition applyTextEdits :: "jstext \<Rightarrow> lsp_text_edit list \<Rightarrow> text_edit_error + jstext" where
  "applyTextEdits content edits =
     try_bind (resolve_edits content edits) (\<lambda>es.
       if overlap_check (ascending es) then Inl Overlapping_edits
       else Inr (foldl apply_one content (descending es)))"

section \<open>The line table against the lines of a text\<close>

text \<open>
  Reference definition: the lines of a text, split at \<open>\r\n\<close>, \<open>\r\<close> and \<open>\n\<close>.
  \<open>acc\<close> is the current line so far.
\<close>

fun split_lines :: "jstext \<Rightarrow> jstext \<Rightarrow> jstext list" where
  "split_lines acc [] = [acc]"
| "split_lines acc [c] = (if c = CR \<or> c = LF then [acc, []] else [acc @ [c]])"
| "split_lines acc (c # d # ds) =
     (if c = CR \<and> d = LF then acc # split_lines [] ds
      else if c = CR \<or> c = LF then acc # split_lines [] (d # ds)
      else split_lines (acc @ [c]) (d # ds))"

lemma split_lines_plain:
  "c \<noteq> CR \<Longrightarrow> c \<noteq> LF \<Longrightarrow> split_lines acc (c # cs) = split_lines (acc @ [c]) cs"
  by (cases cs) auto

lemma split_lines_LF: "split_lines acc (LF # cs) = acc # split_lines [] cs"
  by (cases cs) auto

lemma split_lines_CR:
  "split_lines acc (CR # cs)
     = acc # split_lines [] (if cs \<noteq> [] \<and> hd cs = LF then tl cs else cs)"
  by (cases cs) auto

definition bound_text :: "jstext \<Rightarrow> line_bounds \<Rightarrow> jstext" where
  "bound_text content b = js_slice (lb_start b) (lb_end b) content"


lemma bound_text_make [simp]:
  "bound_text content \<lparr>lb_start = a, lb_end = b\<rparr> = js_slice a b content"
  by (simp add: bound_text_def)

lemma bound_text_extend:
  "start \<le> index \<Longrightarrow> index < length content \<Longrightarrow>
   js_slice start (Suc index) content = js_slice start index content @ [content ! index]"
  by (simp add: js_slice_def Suc_diff_le take_Suc_conv_app_nth)

lemma line_loop_split:
  "start \<le> index \<Longrightarrow> index \<le> length content \<Longrightarrow>
   map (bound_text content) (line_loop content index start)
     = split_lines (js_slice start index content) (drop index content)"
proof (induction content index start rule: line_loop.induct)
  case (1 content index start)
  show ?case
  proof (cases "index < length content")
    case False
    with "1.prems" show ?thesis
      by (subst line_loop.simps) (simp add: js_slice_def)
  next
    case True
    then have d: "drop index content = content ! index # drop (Suc index) content"
      by (simp add: Cons_nth_drop_Suc)
    let ?i = "if index + 1 < length content \<and> content ! (index + 1) = LF
      then index + 1 else index"
    have tail: "(if drop (Suc index) content \<noteq> [] \<and> hd (drop (Suc index) content) = LF
        then tl (drop (Suc index) content) else drop (Suc index) content)
      = drop (?i + 1) content"
      by (auto simp: hd_drop_conv_nth tl_drop drop_Suc nth_tl)
    have i: "?i + 1 \<le> length content" using True by auto
    consider (cr) "content ! index = CR" | (lf) "content ! index = LF"
      | (plain) "content ! index \<noteq> CR" "content ! index \<noteq> LF"
      by blast
    then show ?thesis
    proof cases
      case cr
      have "map (bound_text content) (line_loop content (?i + 1) (?i + 1))
          = split_lines (js_slice (?i + 1) (?i + 1) content) (drop (?i + 1) content)"
        using "1.IH"(1) [OF True cr refl] i by simp
      then show ?thesis
        unfolding d cr split_lines_CR tail
        by (subst line_loop.simps) (simp add: True cr Let_def)
    next
      case lf
      then show ?thesis
        using "1.IH"(2) [OF True _ lf] "1.prems" True
        by (subst line_loop.simps) (simp add: d split_lines_LF)
    next
      case plain
      then show ?thesis
        using "1.IH"(3) [OF True plain] "1.prems" True
        by (subst line_loop.simps) (simp add: d split_lines_plain bound_text_extend)
    qed
  qed
qed

text \<open>The line table is right: the bounds it lists cut the text into exactly its lines,
  split at every \<open>\r\n\<close>, \<open>\r\<close> and \<open>\n\<close>, the terminators left out.\<close>

theorem getLineBounds_lines:
  "map (bound_text content) (getLineBounds content) = split_lines [] content"
  using line_loop_split [of 0 0 content] by (simp add: getLineBounds_def js_slice_def)

lemma line_loop_bounds:
  "start \<le> index \<Longrightarrow> index \<le> length content \<Longrightarrow> b \<in> set (line_loop content index start) \<Longrightarrow>
   start \<le> lb_start b \<and> lb_start b \<le> lb_end b \<and> lb_end b \<le> length content"
proof (induction content index start rule: line_loop.induct)
  case (1 content index start)
  from "1.prems"(3) show ?case
    unfolding line_loop.simps [of content index start]
    using "1.IH" "1.prems"(1,2)
    by (fastforce simp: Let_def split: if_splits)
qed

lemma getLineBounds_bounds:
  "b \<in> set (getLineBounds content) \<Longrightarrow> lb_start b \<le> lb_end b \<and> lb_end b \<le> length content"
  using line_loop_bounds [of 0 0 content b] by (simp add: getLineBounds_def)

text \<open>Each line ends strictly before every later line begins: the terminator is in neither.\<close>

lemma line_loop_ordered:
  "start \<le> index \<Longrightarrow> index \<le> length content \<Longrightarrow>
   sorted_wrt (\<lambda>a b. lb_end a < lb_start b) (line_loop content index start)"
proof (induction content index start rule: line_loop.induct)
  case (1 content index start)
  show ?case
    unfolding line_loop.simps [of content index start]
    using "1.IH" "1.prems"
    by (auto simp: Let_def dest!: line_loop_bounds [rotated 2] split: if_splits)
qed

section \<open>Positions\<close>

lemma positionOffset_bound:
  assumes "positionOffset (getLineBounds content) p label = Inr off"
  shows "off \<le> length content"
proof -
  let ?lines = "getLineBounds content"
  have l: "pos_line p < length ?lines" and
    off: "off = lb_start (?lines ! pos_line p) + pos_character p"
    "pos_character p \<le> lb_end (?lines ! pos_line p) - lb_start (?lines ! pos_line p)"
    using assms by (auto simp: positionOffset_def Let_def split: if_splits)
  have "?lines ! pos_line p \<in> set ?lines" using l by simp
  then show ?thesis using off by (auto dest!: getLineBounds_bounds)
qed

text \<open>Offsets follow the lexicographic order of positions, so distinct positions never collide.\<close>

lemma positionOffset_less:
  assumes p: "positionOffset (getLineBounds content) p lp = Inr a"
    and q: "positionOffset (getLineBounds content) q lq = Inr b"
    and less: "pos_line p < pos_line q \<or>
      (pos_line p = pos_line q \<and> pos_character p < pos_character q)"
  shows "a < b"
proof -
  let ?lines = "getLineBounds content"
  have p': "pos_line p < length ?lines" "a = lb_start (?lines ! pos_line p) + pos_character p"
    "pos_character p \<le> lb_end (?lines ! pos_line p) - lb_start (?lines ! pos_line p)"
    using p by (auto simp: positionOffset_def Let_def split: if_splits)
  have q': "pos_line q < length ?lines" "b = lb_start (?lines ! pos_line q) + pos_character q"
    using q by (auto simp: positionOffset_def Let_def split: if_splits)
  have "?lines ! pos_line p \<in> set ?lines" using p'(1) by simp
  then have "lb_start (?lines ! pos_line p) \<le> lb_end (?lines ! pos_line p)"
    using getLineBounds_bounds by blast
  then have a: "a \<le> lb_end (?lines ! pos_line p)"
    using p'(2,3) by linarith
  from less show ?thesis
  proof
    assume "pos_line p < pos_line q"
    then have "lb_end (?lines ! pos_line p) < lb_start (?lines ! pos_line q)"
      using line_loop_ordered [of 0 0 content] p'(1) q'(1)
      by (auto simp: getLineBounds_def sorted_wrt_iff_nth_less)
    with a q'(2) show ?thesis by simp
  qed (use p' q' in auto)
qed

section \<open>Applying edits: the left-to-right reading\<close>

text \<open>
  The specification: walk through the original text once, copying what lies between the
  edits and putting each new text in place of its range.
\<close>

fun splice :: "jstext \<Rightarrow> nat \<Rightarrow> resolved_edit list \<Rightarrow> jstext" where
  "splice content pos [] = drop pos content"
| "splice content pos (e # es) =
     js_slice pos (re_start e) content @ re_text e @ splice content (re_end e) es"

definition wf_edit :: "jstext \<Rightarrow> resolved_edit \<Rightarrow> bool" where
  "wf_edit content e = (re_start e \<le> re_end e \<and> re_end e \<le> length content)"

fun edit_chain :: "jstext \<Rightarrow> nat \<Rightarrow> resolved_edit list \<Rightarrow> bool" where
  "edit_chain content pos [] = (pos \<le> length content)"
| "edit_chain content pos (e # es) =
     (pos \<le> re_start e \<and> wf_edit content e \<and> edit_chain content (re_end e) es)"

lemma edit_chain_pos: "edit_chain content pos es \<Longrightarrow> pos \<le> length content"
  by (cases es) (auto simp: wf_edit_def)

lemma foldl_apply_splice:
  "edit_chain content pos es \<Longrightarrow>
   foldl apply_one content (rev es) = take pos content @ splice content pos es"
proof (induction es arbitrary: pos)
  case Nil
  then show ?case by simp
next
  case (Cons e es)
  then have c: "pos \<le> re_start e" "re_start e \<le> re_end e" "re_end e \<le> length content"
    "edit_chain content (re_end e) es"
    by (auto simp: wf_edit_def)
  have "foldl apply_one content (rev (e # es))
      = apply_one (take (re_end e) content @ splice content (re_end e) es) e"
    using Cons.IH [OF c(4)] by simp
  also have "\<dots> = take (re_start e) content @ re_text e @ splice content (re_end e) es"
    using c by (simp add: apply_one_def min_def)
  also have "\<dots> = take pos content @ splice content pos (e # es)"
    using take_slice [OF c(1), of content] by simp
  finally show ?case .
qed

lemma overlap_check_chain:
  "\<forall>e\<in>set es. wf_edit content e \<Longrightarrow> \<not> overlap_check es \<Longrightarrow>
   (es \<noteq> [] \<Longrightarrow> pos \<le> re_start (hd es)) \<Longrightarrow> pos \<le> length content \<Longrightarrow> edit_chain content pos es"
  by (induction es arbitrary: pos rule: overlap_check.induct) (auto simp: wf_edit_def)

lemma edit_chain_disjoint:
  "edit_chain content pos es \<Longrightarrow>
   sorted_wrt (\<lambda>a b. re_end a \<le> re_start b) es \<and> (\<forall>e\<in>set es. pos \<le> re_start e)"
proof (induction es arbitrary: pos)
  case (Cons e es)
  then show ?case by (fastforce simp: wf_edit_def)
qed simp


lemma resolve_edit_wf:
  "resolve_edit (getLineBounds content) ie = Inr e \<Longrightarrow> wf_edit content e \<and> re_index e = fst ie"
  by (cases ie)
    (auto simp: resolve_edit_def try_bind_Inr_iff wf_edit_def dest: positionOffset_bound
      split: if_splits)

lemma resolve_edits_props:
  assumes "resolve_edits content edits = Inr es"
  shows "\<forall>e\<in>set es. wf_edit content e" and "map re_index es = [0..<length edits]"
proof -
  let ?ies = "enumerate 0 edits"
  have len: "length es = length edits"
    using assms by (auto simp: resolve_edits_def dest: map_try_length)
  have nth: "resolve_edit (getLineBounds content) (?ies ! i) = Inr (es ! i)" if "i < length es" for i
    using assms that len by (auto simp: resolve_edits_def intro: map_try_nth)
  show "\<forall>e\<in>set es. wf_edit content e"
    using nth resolve_edit_wf by (metis in_set_conv_nth)
  show "map re_index es = [0..<length edits]"
    using nth [THEN resolve_edit_wf] len by (auto intro!: nth_equalityI simp: nth_enumerate_eq)
qed

lemma resolve_edits_distinct:
  "resolve_edits content edits = Inr es \<Longrightarrow> distinct (map re_index es)"
  by (simp add: resolve_edits_props(2))

text \<open>
  Among disjoint edits the two sort orders of the code are each other's reverse, so the
  right-to-left application sees the edits exactly as the overlap check did.
\<close>

lemma descending_ascending:
  assumes wf: "\<forall>e\<in>set es. wf_edit content e" and dist: "distinct (map re_index es)"
    and disj: "\<not> overlap_check (ascending es)"
  shows "descending es = rev (ascending es)"
proof -
  let ?asc = "ascending es"
  let ?key = "\<lambda>e. (re_start e, - int (re_end e), re_index e)"
  let ?dkey = "\<lambda>e. (- int (re_start e), - int (re_index e))"
  have set: "set ?asc = set es" by (simp add: ascending_def)
  have "edit_chain content 0 ?asc"
    by (rule overlap_check_chain) (use wf disj set in auto)
  then have pair: "sorted_wrt (\<lambda>a b. re_end a \<le> re_start b) ?asc"
    using edit_chain_disjoint by blast
  have keys: "sorted_wrt (\<lambda>a b. ?key a \<le> ?key b) ?asc"
    using sorted_sort_key [of ?key es] by (simp add: ascending_def sorted_map)
  have "sorted_wrt (\<lambda>a b. ?dkey b \<le> ?dkey a) ?asc"
    unfolding sorted_wrt_iff_nth_less
  proof (intro allI impI)
    fix i j assume ij: "i < j" "j < length ?asc"
    let ?a = "?asc ! i" and ?b = "?asc ! j"
    have "re_end ?a \<le> re_start ?b" "?key ?a \<le> ?key ?b"
      using pair keys ij by (auto simp: sorted_wrt_iff_nth_less)
    moreover have "wf_edit content ?a" "wf_edit content ?b"
      using wf set ij by (metis nth_mem order_less_trans)+
    ultimately show "?dkey ?b \<le> ?dkey ?a"
      by (auto simp: wf_edit_def less_eq_prod_def)
  qed
  then have "sorted (map ?dkey (rev ?asc))"
    by (simp add: sorted_map rev_map sorted_wrt_rev)
  moreover have "inj_on ?dkey (set es)"
    using dist by (auto simp: inj_on_def distinct_map)
  moreover have "mset (rev ?asc) = mset es"
    by (simp add: ascending_def)
  ultimately show ?thesis
    unfolding descending_def by (intro sort_key_inj_key_eq) auto
qed

lemma applyTextEdits_splice:
  assumes "applyTextEdits content edits = Inr result"
  obtains es where "resolve_edits content edits = Inr es"
    and "sorted_wrt (\<lambda>a b. re_end a \<le> re_start b) (ascending es)"
    and "result = splice content 0 (ascending es)"
proof -
  obtain es where es: "resolve_edits content edits = Inr es"
    and disj: "\<not> overlap_check (ascending es)"
    and res: "result = foldl apply_one content (descending es)"
    using assms by (auto simp: applyTextEdits_def try_bind_Inr_iff split: if_splits)
  have wf: "\<forall>e\<in>set es. wf_edit content e" by (rule resolve_edits_props(1) [OF es])
  have chain: "edit_chain content 0 (ascending es)"
    by (rule overlap_check_chain) (use wf disj in \<open>auto simp: ascending_def\<close>)
  have "result = splice content 0 (ascending es)"
    unfolding res descending_ascending [OF wf resolve_edits_distinct [OF es] disj]
    using foldl_apply_splice [OF chain] by simp
  then show ?thesis
    using that es edit_chain_disjoint [OF chain] by blast
qed


text \<open>When two edits of one file can both be applied: the test the code's check amounts to.\<close>

definition compatible :: "resolved_edit \<Rightarrow> resolved_edit \<Rightarrow> bool" where
  "compatible a b =
     (if re_start a = re_start b then re_end a = re_start a \<and> re_end b = re_start b
      else if re_start a < re_start b then re_end a \<le> re_start b
      else re_end b \<le> re_start a)"

lemma compatible_if:
  "re_end a \<le> re_start b \<Longrightarrow> wf_edit c a \<Longrightarrow> wf_edit c b \<Longrightarrow>
   re_start a < re_start b \<or> re_start a = re_start b \<and> re_end b \<le> re_end a \<Longrightarrow>
   compatible a b \<and> compatible b a"
  by (simp add: compatible_def wf_edit_def) linarith

lemma overlap_check_nth:
  "overlap_check es \<longleftrightarrow> (\<exists>i. Suc i < length es \<and> re_start (es ! Suc i) < re_end (es ! i))"
proof (induction es rule: overlap_check.induct)
  case (1 a b es)
  let ?p = "\<lambda>es i. Suc i < length es \<and> re_start (es ! Suc i) < re_end (es ! i)"
  have "(\<exists>i. ?p (a # b # es) i) \<longleftrightarrow> ?p (a # b # es) 0 \<or> (\<exists>i. ?p (a # b # es) (Suc i))"
    by (metis not0_implies_Suc)
  then show ?case using "1.IH" by simp
qed auto

lemma ascending_pairs:
  assumes "i < j" "j < length (ascending es)"
  shows "re_start (ascending es ! i) < re_start (ascending es ! j) \<or>
    re_start (ascending es ! i) = re_start (ascending es ! j) \<and>
    re_end (ascending es ! j) \<le> re_end (ascending es ! i)"
proof -
  let ?key = "\<lambda>e. (re_start e, - int (re_end e), re_index e)"
  have "sorted_wrt (\<lambda>a b. ?key a \<le> ?key b) (ascending es)"
    using sorted_sort_key [of ?key es] by (simp add: ascending_def sorted_map)
  then have "?key (ascending es ! i) \<le> ?key (ascending es ! j)"
    using assms by (simp add: sorted_wrt_iff_nth_less)
  then show ?thesis by (auto simp: less_eq_prod_def)
qed

lemma ascending_distinct:
  assumes "distinct (map re_index es)"
  shows "distinct (map re_index (ascending es))"
proof -
  have "mset (map re_index (ascending es)) = mset (map re_index es)"
    by (simp add: ascending_def)
  then show ?thesis using assms by (metis mset_eq_imp_distinct_iff)
qed

lemma overlap_check_compatible:
  assumes wf: "\<forall>e\<in>set es. wf_edit content e" and dist: "distinct (map re_index es)"
  shows "\<not> overlap_check (ascending es) \<longleftrightarrow>
    (\<forall>a\<in>set es. \<forall>b\<in>set es. re_index a \<noteq> re_index b \<longrightarrow> compatible a b)"
proof -
  let ?asc = "ascending es"
  have set: "set ?asc = set es" by (simp add: ascending_def)
  have wfn: "wf_edit content (?asc ! i)" if "i < length ?asc" for i
    using that wf set nth_mem by metis
  show ?thesis
  proof
    assume disj: "\<not> overlap_check ?asc"
    have "edit_chain content 0 ?asc"
      by (rule overlap_check_chain) (use wf disj set in auto)
    then have pair: "sorted_wrt (\<lambda>a b. re_end a \<le> re_start b) ?asc"
      using edit_chain_disjoint by blast
    have less: "compatible (?asc ! i) (?asc ! j) \<and> compatible (?asc ! j) (?asc ! i)"
      if "i < j" "j < length ?asc" for i j
    proof (rule compatible_if)
      show "re_end (?asc ! i) \<le> re_start (?asc ! j)"
        using pair that unfolding sorted_wrt_iff_nth_less by blast
    qed (use ascending_pairs [OF that] wfn [of i] wfn [of j] that in auto)
    show "\<forall>a\<in>set es. \<forall>b\<in>set es. re_index a \<noteq> re_index b \<longrightarrow> compatible a b"
    proof (intro ballI impI)
      fix a b assume "a \<in> set es" "b \<in> set es" and ne: "re_index a \<noteq> re_index b"
      then obtain i j where ij: "i < length ?asc" "?asc ! i = a" "j < length ?asc" "?asc ! j = b"
        unfolding set [symmetric] by (auto simp: in_set_conv_nth)
      with ne have "i < j \<or> j < i" by (metis linorder_neqE_nat)
      with ij less show "compatible a b" by blast
    qed
  next
    assume comp: "\<forall>a\<in>set es. \<forall>b\<in>set es. re_index a \<noteq> re_index b \<longrightarrow> compatible a b"
    show "\<not> overlap_check ?asc"
    proof
      assume "overlap_check ?asc"
      then obtain i where i: "Suc i < length ?asc" "re_start (?asc ! Suc i) < re_end (?asc ! i)"
        by (auto simp: overlap_check_nth)
      have "re_index (?asc ! i) \<noteq> re_index (?asc ! Suc i)"
        using ascending_distinct [OF dist] i(1) by (auto simp: distinct_conv_nth)
      then have "compatible (?asc ! i) (?asc ! Suc i)"
        using comp set i(1) by (metis Suc_lessD nth_mem)
      then show False
        using ascending_pairs [of i "Suc i" es] i by (auto simp: compatible_def split: if_splits)
    qed
  qed
qed

lemma applyTextEdits_accepts:
  "(\<exists>result. applyTextEdits content edits = Inr result) \<longleftrightarrow>
   (\<exists>es. resolve_edits content edits = Inr es \<and>
     (\<forall>a\<in>set es. \<forall>b\<in>set es. re_index a \<noteq> re_index b \<longrightarrow> compatible a b))"
proof (cases "resolve_edits content edits")
  case (Inl e)
  then show ?thesis by (simp add: applyTextEdits_def)
next
  case (Inr es)
  then show ?thesis
    using overlap_check_compatible [OF resolve_edits_props(1) [OF Inr] resolve_edits_distinct [OF Inr]]
    by (auto simp: applyTextEdits_def)
qed


section \<open>Properties\<close>

text \<open>An accepted edit list has the left-to-right reading of LSP, in whatever order it came:
  the result is the original text walked once, each edit's range replaced by its new text, the
  edits taken by position and, at one position, in the order of the array.\<close>

theorem apply_left_to_right:
  assumes "applyTextEdits content edits = Inr result"
  shows "\<exists>es. resolve_edits content edits = Inr es \<and> mset (ascending es) = mset es \<and>
    sorted_wrt (\<lambda>a b. re_end a \<le> re_start b) (ascending es) \<and>
    result = splice content 0 (ascending es)"
proof -
  obtain es where "resolve_edits content edits = Inr es"
    "sorted_wrt (\<lambda>a b. re_end a \<le> re_start b) (ascending es)"
    "result = splice content 0 (ascending es)"
    by (rule applyTextEdits_splice [OF assms])
  moreover have "mset (ascending es) = mset es" by (simp add: ascending_def)
  ultimately show ?thesis by blast
qed

text \<open>The edits of a file are accepted exactly when every position resolves and any two of
  them are compatible: disjoint ranges, or insertions at one point.\<close>

theorem apply_accepts_compatible:
  "(\<exists>result. applyTextEdits content edits = Inr result) \<longleftrightarrow>
   (\<exists>es. resolve_edits content edits = Inr es \<and>
     (\<forall>a\<in>set es. \<forall>b\<in>set es. re_index a \<noteq> re_index b \<longrightarrow> compatible a b))"
  by (rule applyTextEdits_accepts)

text \<open>An insertion at the very start of a replaced range is always rejected as an overlap,
  although the two edits share no character and LSP allows insertions before a replacement
  that starts at the same position.\<close>

theorem insert_at_replacement_rejected:
  assumes es: "resolve_edits content edits = Inr es" and ab: "a \<in> set es" "b \<in> set es"
    and start: "re_start a = re_start b" and ins: "re_end a = re_start a" and rep: "re_start b < re_end b"
  shows "applyTextEdits content edits = Inl Overlapping_edits"
proof -
  have "a \<noteq> b" using start ins rep by auto
  then have "re_index a \<noteq> re_index b"
    using resolve_edits_distinct [OF es] ab by (auto simp: distinct_map dest: inj_onD)
  moreover have "\<not> compatible a b" using start ins rep by (simp add: compatible_def)
  ultimately have "overlap_check (ascending es)"
    using overlap_check_compatible [OF resolve_edits_props(1) [OF es] resolve_edits_distinct [OF es]] ab
    by blast
  then show ?thesis by (simp add: applyTextEdits_def es)
qed

subsection \<open>Witnesses\<close>

definition edit_at :: "nat \<Rightarrow> nat \<Rightarrow> nat \<Rightarrow> jstext \<Rightarrow> lsp_text_edit" where
  "edit_at l c c' t = \<lparr>edit_range = \<lparr>range_start = \<lparr>pos_line = l, pos_character = c\<rparr>,
     range_end = \<lparr>pos_line = l, pos_character = c'\<rparr>\<rparr>, new_text = t\<rparr>"

text \<open>Text \<open>a\nb\<close>: the second line is edited before the first in the array.\<close>

lemma demo_apply:
  "applyTextEdits [97, 10, 98] [edit_at 1 0 1 [120], edit_at 0 1 1 [121]]
     = Inr [97, 121, 10, 120]"
  by code_simp

theorem apply_left_to_right_witness:
  "\<exists>es. [97, 121, 10, 120] = splice [97, 10, 98] 0 (ascending es)"
  using apply_left_to_right [OF demo_apply] by blast

theorem apply_accepts_compatible_witness:
  "\<exists>es. resolve_edits [97, 10, 98] [edit_at 1 0 1 [120], edit_at 0 1 1 [121]] = Inr es \<and>
     (\<forall>a\<in>set es. \<forall>b\<in>set es. re_index a \<noteq> re_index b \<longrightarrow> compatible a b)"
  using demo_apply apply_accepts_compatible by blast

theorem insert_at_replacement_rejected_witness:
  "applyTextEdits [97, 98] [edit_at 0 0 0 [120], edit_at 0 0 1 [121]] = Inl Overlapping_edits"
proof -
  have "resolve_edits [97, 98] [edit_at 0 0 0 [120], edit_at 0 0 1 [121]] = Inr
      [\<lparr>re_start = 0, re_end = 0, re_text = [120], re_index = 0\<rparr>,
       \<lparr>re_start = 0, re_end = 1, re_text = [121], re_index = 1\<rparr>]"
    by code_simp
  from insert_at_replacement_rejected [OF this, of
      "\<lparr>re_start = 0, re_end = 0, re_text = [120], re_index = 0\<rparr>"
      "\<lparr>re_start = 0, re_end = 1, re_text = [121], re_index = 1\<rparr>"]
  show ?thesis by simp
qed

end
