(* ===== verification/Js_Strings.thy ===== *)
theory Js_Strings
  imports Prelude
begin

text \<open>
  The string operations of JavaScript that several components use, on strings over the first 256
  code points: splitting and joining, prefixes and suffixes, searching, lower case, the bytes of
  \<open>Buffer\<close> in UTF-8 and their base64url form.
\<close>

section \<open>Splitting, joining and searching\<close>

text \<open>\<open>split\<close> at a character; \<open>acc\<close> is the part read so far.\<close>

fun split_on :: "char \<Rightarrow> string \<Rightarrow> string \<Rightarrow> string list" where
  "split_on sep acc [] = [acc]"
| "split_on sep acc (c # cs) =
     (if c = sep then acc # split_on sep [] cs else split_on sep (acc @ [c]) cs)"

fun join_with :: "string \<Rightarrow> string list \<Rightarrow> string" where
  "join_with sep [] = ''''"
| "join_with sep [c] = c"
| "join_with sep (c # d # cs) = c @ sep @ join_with sep (d # cs)"

definition starts_with :: "'a list \<Rightarrow> 'a list \<Rightarrow> bool" where
  "starts_with w s = (take (length w) s = w)"

definition ends_with :: "string \<Rightarrow> string \<Rightarrow> bool" where
  "ends_with w s = (length w \<le> length s \<and> drop (length s - length w) s = w)"

text \<open>\<open>includes\<close>, and \<open>indexOf\<close> (of strings and of buffers) with \<open>None\<close> for \<open>-1\<close>.\<close>

fun str_includes :: "string \<Rightarrow> string \<Rightarrow> bool" where
  "str_includes [] p = (p = [])"
| "str_includes (c # cs) p = (take (length p) (c # cs) = p \<or> str_includes cs p)"

fun index_of :: "'a list \<Rightarrow> 'a list \<Rightarrow> nat option" where
  "index_of p [] = (if p = [] then Some 0 else None)"
| "index_of p (c # cs) = (if starts_with p (c # cs) then Some 0 else map_option Suc (index_of p cs))"

definition lower_char :: "char \<Rightarrow> char" where
  "lower_char c =
     (let n = (of_char c :: nat) in
      if (65 \<le> n \<and> n \<le> 90) \<or> (192 \<le> n \<and> n \<le> 222 \<and> n \<noteq> 215) then char_of (n + 32) else c)"

definition toLowerCase :: "string \<Rightarrow> string" where
  "toLowerCase s = map lower_char s"

definition trim_end :: "string \<Rightarrow> string" where
  "trim_end s = rev (dropWhile is_js_space (rev s))"

text \<open>A string that counts as true: there, and not empty.\<close>

definition truthy :: "string option \<Rightarrow> bool" where
  "truthy t = (t \<noteq> None \<and> t \<noteq> Some '''')"

text \<open>\<open>split(/\s+/).filter(Boolean)\<close>\<close>

fun words_from :: "string \<Rightarrow> string \<Rightarrow> string list" where
  "words_from acc [] = (if acc = '''' then [] else [acc])"
| "words_from acc (c # cs) =
     (if is_js_space c then (if acc = '''' then words_from '''' cs else acc # words_from '''' cs) else words_from (acc @ [c]) cs)"

definition js_words :: "string \<Rightarrow> string list" where
  "js_words s = words_from '''' s"

text \<open>What \<open>.*\<close> matches.\<close>

definition no_terminator :: "string \<Rightarrow> bool" where
  "no_terminator s = (CHR 0x0A \<notin> set s \<and> CHR 0x0D \<notin> set s)"

definition is_control :: "char \<Rightarrow> bool" where
  "is_control c = ((of_char c :: nat) < 32 \<or> (of_char c :: nat) = 127)"

definition isSafeInteger :: "jsnumber \<Rightarrow> bool" where
  "isSafeInteger n = (is_integer n \<and> \<bar>js_int n\<bar> \<le> 9007199254740991)"

lemma starts_with_iff: "starts_with w s \<longleftrightarrow> (\<exists>t. s = w @ t)"
  unfolding starts_with_def by (metis append_eq_conv_conj append_take_drop_id)

lemma ends_with_iff: "ends_with w s \<longleftrightarrow> (\<exists>t. s = t @ w)"
proof
  assume "ends_with w s"
  then have "s = take (length s - length w) s @ w"
    unfolding ends_with_def by (metis append_take_drop_id)
  then show "\<exists>t. s = t @ w" by blast
qed (auto simp: ends_with_def)

lemma split_on_plain: "sep \<notin> set n \<Longrightarrow> split_on sep acc n = [acc @ n]"
  by (induction n arbitrary: acc) auto

lemma split_on_next: "sep \<notin> set l \<Longrightarrow> split_on sep acc (l @ sep # s) = (acc @ l) # split_on sep [] s"
  by (induction l arbitrary: acc) auto

lemma split_on_nonempty [simp]: "split_on sep acc s \<noteq> []"
  by (induction s arbitrary: acc) auto

lemma split_join:
  "ls \<noteq> [] \<Longrightarrow> list_all (\<lambda>l. sep \<notin> set l) ls \<Longrightarrow> split_on sep [] (join_with [sep] ls) = ls"
  by (induction "[sep]" ls rule: join_with.induct) (simp_all add: split_on_plain split_on_next)

lemma split_parts: "sep \<notin> set acc \<Longrightarrow> list_all (\<lambda>l. sep \<notin> set l) (split_on sep acc s)"
  by (induction s arbitrary: acc) auto

lemma join_split: "join_with [sep] (split_on sep acc s) = acc @ s"
proof (induction s arbitrary: acc)
  case (Cons c s)
  show ?case
  proof (cases "c = sep")
    case True
    obtain p ps where "split_on sep [] s = p # ps"
      using split_on_nonempty [of sep "[]" s] by (cases "split_on sep [] s") simp_all
    then show ?thesis
      using True Cons.IH [of "[]"] by simp
  next
    case False
    then show ?thesis
      by (simp add: Cons.IH)
  qed
qed simp

lemma join_with_snoc: "join_with sep (q @ [n]) = (if q = [] then n else join_with sep q @ sep @ n)"
  by (induction sep q rule: join_with.induct) auto

lemma index_of_Some: "index_of p s = Some i \<Longrightarrow> \<exists>t. s = take i s @ p @ t \<and> i + length p \<le> length s"
proof (induction p s arbitrary: i rule: index_of.induct)
  case (1 p)
  then show ?case by (auto split: if_splits)
next
  case (2 p c cs)
  show ?case
  proof (cases "starts_with p (c # cs)")
    case True
    then obtain t where t: "c # cs = p @ t"
      by (auto simp: starts_with_iff)
    then have "length p \<le> Suc (length cs)"
      by (metis length_Cons length_append le_add1)
    moreover have "i = 0"
      using 2(2) True by simp
    ultimately show ?thesis
      using t by auto
  next
    case False
    then obtain j where j: "index_of p cs = Some j" "i = Suc j"
      using 2(2) by auto
    then show ?thesis
      using 2(1) [OF False j(1)] by auto
  qed
qed

lemma index_of_None: "index_of p s = None \<longleftrightarrow> (\<nexists>a b. s = a @ p @ b)"
proof (induction p s rule: index_of.induct)
  case (1 p)
  then show ?case by auto
next
  case (2 p c cs)
  show ?case
  proof (cases "starts_with p (c # cs)")
    case True
    then show ?thesis
      by (auto simp: starts_with_iff intro: exI [of _ "[]"])
  next
    case False
    then have "(\<exists>a b. c # cs = a @ p @ b) \<longleftrightarrow> (\<exists>a b. cs = a @ p @ b)"
      by (auto simp: starts_with_iff Cons_eq_append_conv)
    then show ?thesis
      using 2 False by simp
  qed
qed

section \<open>UTF-8\<close>

lemma byte_length_append [simp]: "byte_length (a @ b) = byte_length a + byte_length b"
  by (simp add: byte_length_def)

lemma byte_length_Nil [simp]: "byte_length '''' = 0"
  by (simp add: byte_length_def)

text \<open>
  The bytes of a string, and back; bytes that encode no string over these code points give \<open>None\<close>.
\<close>

fun utf8_encode :: "string \<Rightarrow> nat list" where
  "utf8_encode [] = []"
| "utf8_encode (c # cs) =
     (let n = of_char c in (if n < 128 then [n] else [192 + n div 64, 128 + n mod 64]) @ utf8_encode cs)"

fun utf8_decode :: "nat list \<Rightarrow> string option" where
  "utf8_decode [] = Some []"
| "utf8_decode [b] = (if b < 128 then Some [char_of b] else None)"
| "utf8_decode (b # d # bs) =
     (if b < 128 then map_option (Cons (char_of b)) (utf8_decode (d # bs))
      else if (b = 194 \<or> b = 195) \<and> 128 \<le> d \<and> d < 192
        then map_option (Cons (char_of ((b - 192) * 64 + (d - 128)))) (utf8_decode bs)
      else None)"

lemma utf8_roundtrip: "utf8_decode (utf8_encode s) = Some s"
proof (induction s)
  case (Cons c s)
  have n: "(of_char c :: nat) < 256"
    by simp
  show ?case
  proof (cases "(of_char c :: nat) < 128")
    case True
    then show ?thesis
      using Cons by (cases "utf8_encode s") simp_all
  next
    case False
    let ?n = "of_char c :: nat"
    have "?n div 64 < 4"
      using n by (simp add: less_mult_imp_div_less)
    moreover have "2 \<le> ?n div 64"
      using False by (simp add: less_eq_div_iff_mult_less_eq)
    ultimately have "?n div 64 = 2 \<or> ?n div 64 = 3"
      by linarith
    moreover have "?n div 64 * 64 + ?n mod 64 = ?n"
      by simp
    ultimately show ?thesis
      using Cons False by (auto simp: Let_def)
  qed
qed simp

lemma length_utf8: "length (utf8_encode s) = byte_length s"
  by (induction s) (simp_all add: byte_length_def Let_def)

lemma utf8_bytes: "b \<in> set (utf8_encode s) \<Longrightarrow> b < 256"
proof (induction s)
  case (Cons c s)
  have "(of_char c :: nat) div 64 < 4" "(of_char c :: nat) mod 64 < 64"
    by (simp_all add: less_mult_imp_div_less)
  then show ?case
    using Cons by (auto simp: Let_def split: if_splits)
qed simp

section \<open>base64url\<close>

definition b64_alphabet :: string where
  "b64_alphabet = ''ABCDEFGHIJKLMNOPQRSTUVWXYZabcdefghijklmnopqrstuvwxyz0123456789-_''"

definition b64_char :: "nat \<Rightarrow> char" where
  "b64_char n = b64_alphabet ! n"

text \<open>Decoding also takes the two characters of the standard alphabet and skips all others.\<close>

definition b64_value :: "char \<Rightarrow> nat option" where
  "b64_value c =
     (if c = CHR ''+'' then Some 62 else if c = CHR ''/'' then Some 63 else find_index (\<lambda>d. d = c) b64_alphabet)"

fun base64url_encode :: "nat list \<Rightarrow> string" where
  "base64url_encode [] = []"
| "base64url_encode [a] = [b64_char (a div 4), b64_char (a mod 4 * 16)]"
| "base64url_encode [a, b] = [b64_char (a div 4), b64_char (a mod 4 * 16 + b div 16), b64_char (b mod 16 * 4)]"
| "base64url_encode (a # b # c # bs) =
     [b64_char (a div 4), b64_char (a mod 4 * 16 + b div 16), b64_char (b mod 16 * 4 + c div 64), b64_char (c mod 64)] @
     base64url_encode bs"

fun b64_bytes :: "nat list \<Rightarrow> nat list" where
  "b64_bytes (a # b # c # d # r) = [a * 4 + b div 16, b mod 16 * 16 + c div 4, c mod 4 * 64 + d] @ b64_bytes r"
| "b64_bytes [a, b, c] = [a * 4 + b div 16, b mod 16 * 16 + c div 4]"
| "b64_bytes [a, b] = [a * 4 + b div 16]"
| "b64_bytes _ = []"

definition base64url_decode :: "string \<Rightarrow> nat list" where
  "base64url_decode s = b64_bytes (List.map_filter b64_value s)"

lemma b64_value_char: "n < 64 \<Longrightarrow> b64_value (b64_char n) = Some n"
proof -
  have "list_all (\<lambda>n. b64_value (b64_char n) = Some n) [0..<64]"
    by code_simp
  then show "n < 64 \<Longrightarrow> b64_value (b64_char n) = Some n"
    by (simp add: list_all_iff)
qed

lemma base64url_roundtrip:
  "list_all (\<lambda>b. b < 256) bs \<Longrightarrow> base64url_decode (base64url_encode bs) = bs"
proof (induction bs rule: base64url_encode.induct)
  case (2 a)
  then have "a div 4 < 64" "a mod 4 * 16 < 64"
    by auto
  then show ?case
    by (simp add: base64url_decode_def map_filter_simps b64_value_char)
next
  case (3 a b)
  then have "a div 4 < 64" "a mod 4 * 16 + b div 16 < 64" "b mod 16 * 4 < 64" "b div 16 < 16"
    by auto
  then show ?case
    by (simp add: base64url_decode_def map_filter_simps b64_value_char)
next
  case (4 a b c bs)
  then have "a div 4 < 64" "a mod 4 * 16 + b div 16 < 64" "b mod 16 * 4 + c div 64 < 64" "c mod 64 < 64" "b div 16 < 16"
      "c div 64 < 4"
    by auto
  then show ?case
    using 4 by (simp add: base64url_decode_def map_filter_simps b64_value_char)
qed (simp add: base64url_decode_def map_filter_simps)

text \<open>\<open>Buffer.from(s).toString("base64url")\<close>, and back.\<close>

definition to_base64url :: "string \<Rightarrow> string" where
  "to_base64url s = base64url_encode (utf8_encode s)"

definition from_base64url :: "string \<Rightarrow> string option" where
  "from_base64url s = utf8_decode (base64url_decode s)"

lemma from_to_base64url [simp]: "from_base64url (to_base64url s) = Some s"
  using utf8_bytes by (simp add: from_base64url_def to_base64url_def base64url_roundtrip utf8_roundtrip list_all_iff)

end
