(* ===== verification/File_System.thy ===== *)
theory File_System
  imports Text_Edits Js_Strings
begin

text \<open>
  The part of Node's \<open>fs/promises\<close> that the components use: a file system is a map from
  paths to contents. Every call may fail for reasons of its own (disk, permissions), which
  \<open>faulty\<close> decides call by call: call number \<open>n\<close> fails without effect when
  \<open>faulty w n\<close>. \<open>uuid\<close> stands for \<open>randomUUID\<close>: its \<open>n\<close>-th result.
\<close>

section \<open>Paths\<close>

type_synonym fspath = "string list"

text \<open>POSIX paths: an absolute path is the list of its components.\<close>

definition is_absolute :: "string \<Rightarrow> bool" where
  "is_absolute p = (p \<noteq> [] \<and> hd p = CHR ''/'')"

fun normalize_components :: "fspath \<Rightarrow> string list \<Rightarrow> fspath" where
  "normalize_components acc [] = acc"
| "normalize_components acc (c # cs) =
     (if c = [] \<or> c = ''.'' then normalize_components acc cs
      else if c = ''..'' then normalize_components (butlast acc) cs
      else normalize_components (acc @ [c]) cs)"

text \<open>\<open>path.resolve(p)\<close> in a process whose working directory is \<open>cwd\<close>.\<close>

definition resolve_path :: "fspath \<Rightarrow> string \<Rightarrow> fspath" where
  "resolve_path cwd p =
     normalize_components (if is_absolute p then [] else cwd) (split_on (CHR ''/'') [] p)"

fun common_prefix :: "'a list \<Rightarrow> 'a list \<Rightarrow> nat" where
  "common_prefix (x # xs) (y # ys) = (if x = y then Suc (common_prefix xs ys) else 0)"
| "common_prefix _ _ = 0"

text \<open>\<open>path.relative(from, to)\<close> of two absolute paths, as components.\<close>

definition relative_path :: "fspath \<Rightarrow> fspath \<Rightarrow> string list" where
  "relative_path a b =
     (let k = common_prefix a b in replicate (length a - k) ''..'' @ drop k b)"

section \<open>File system calls\<close>

datatype io_error = EIO | ENOENT | EEXIST

record world =
  files :: "fspath \<rightharpoonup> jstext"
  calls :: nat
  faulty :: "nat \<Rightarrow> bool"
  uuid :: "nat \<Rightarrow> string"
  uuids_used :: nat

type_synonym 'a fs_result = "(io_error + 'a) \<times> world"

definition tick :: "world \<Rightarrow> world" where
  "tick w = w\<lparr>calls := Suc (calls w)\<rparr>"

definition fs_fault :: "world \<Rightarrow> bool" where
  "fs_fault w = faulty w (calls w)"

definition fs_read :: "fspath \<Rightarrow> world \<Rightarrow> jstext fs_result" where
  "fs_read p w =
     (if fs_fault w then Inl EIO
      else case files w p of None \<Rightarrow> Inl ENOENT | Some c \<Rightarrow> Inr c, tick w)"

definition fs_stat :: "fspath \<Rightarrow> world \<Rightarrow> unit fs_result" where
  "fs_stat p w =
     (if fs_fault w then Inl EIO
      else if files w p = None then Inl ENOENT else Inr (), tick w)"

definition fs_open_new :: "fspath \<Rightarrow> world \<Rightarrow> unit fs_result" where
  "fs_open_new p w =
     (if fs_fault w then (Inl EIO, tick w)
      else if files w p \<noteq> None then (Inl EEXIST, tick w)
      else (Inr (), (tick w)\<lparr>files := (files w)(p \<mapsto> [])\<rparr>))"

definition fs_write :: "fspath \<Rightarrow> jstext \<Rightarrow> world \<Rightarrow> unit fs_result" where
  "fs_write p c w =
     (if fs_fault w then (Inl EIO, tick w)
      else (Inr (), (tick w)\<lparr>files := (files w)(p \<mapsto> c)\<rparr>))"

text \<open>A call on an open handle with no effect on contents: \<open>chmod\<close>, \<open>sync\<close>, \<open>close\<close>.\<close>

definition fs_handle :: "world \<Rightarrow> unit fs_result" where
  "fs_handle w = (if fs_fault w then Inl EIO else Inr (), tick w)"

definition fs_rename :: "fspath \<Rightarrow> fspath \<Rightarrow> world \<Rightarrow> unit fs_result" where
  "fs_rename a b w =
     (if fs_fault w then (Inl EIO, tick w)
      else case files w a of
        None \<Rightarrow> (Inl ENOENT, tick w)
      | Some c \<Rightarrow> (Inr (), (tick w)\<lparr>files := (files w)(a := None, b \<mapsto> c)\<rparr>))"

definition fs_rm_force :: "fspath \<Rightarrow> world \<Rightarrow> unit fs_result" where
  "fs_rm_force p w =
     (if fs_fault w then (Inl EIO, tick w)
      else (Inr (), (tick w)\<lparr>files := (files w)(p := None)\<rparr>))"

definition fs_uuid :: "world \<Rightarrow> string \<times> world" where
  "fs_uuid w = (uuid w (uuids_used w), w\<lparr>uuids_used := Suc (uuids_used w)\<rparr>)"

lemma files_tick [simp]: "files (tick w) = files w" "uuid (tick w) = uuid w"
  "uuids_used (tick w) = uuids_used w"
  by (simp_all add: tick_def)

lemmas fs_defs = fs_read_def fs_stat_def fs_open_new_def fs_write_def fs_handle_def
  fs_rename_def fs_rm_force_def

section \<open>The interface of atomic replacement\<close>

text \<open>
  What a replace-with-rollback protocol needs of a file store: a call that fails changes
  nothing, a rename moves one content and touches no other path, a forced removal empties
  one path.
\<close>

locale file_store =
  fixes look :: "'w \<Rightarrow> 'p \<Rightarrow> 'c option"
    and ren :: "'p \<Rightarrow> 'p \<Rightarrow> 'w \<Rightarrow> ('e + unit) \<times> 'w"
    and rm :: "'p \<Rightarrow> 'w \<Rightarrow> ('e + unit) \<times> 'w"
  assumes ren_fail: "ren a b w = (Inl e, w') \<Longrightarrow> look w' = look w"
    and ren_ok: "ren a b w = (Inr u, w') \<Longrightarrow>
      \<exists>c. look w a = Some c \<and> look w' = (look w)(a := None, b := Some c)"
    and rm_fail: "rm a w = (Inl e, w') \<Longrightarrow> look w' = look w"
    and rm_ok: "rm a w = (Inr u, w') \<Longrightarrow> look w' = (look w)(a := None)"
begin

lemma ren_frame: "ren a b w = (r, w') \<Longrightarrow> p \<noteq> a \<Longrightarrow> p \<noteq> b \<Longrightarrow> look w' p = look w p"
  by (cases r) (auto dest!: ren_fail ren_ok)

lemma rm_frame: "rm a w = (r, w') \<Longrightarrow> p \<noteq> a \<Longrightarrow> look w' p = look w p"
  by (cases r) (auto dest!: rm_fail rm_ok)

lemma ren_moved:
  "ren a b w = (Inr u, w') \<Longrightarrow> a \<noteq> b \<Longrightarrow>
   look w a \<noteq> None \<and> look w' b = look w a \<and> look w' a = None"
  by (auto dest!: ren_ok)

lemma ren_keeps_source: "ren a b w = (Inl e, w') \<Longrightarrow> look w' a = look w a"
  by (simp add: ren_fail)

text \<open>One step of a rollback: drop what is at \<open>b\<close> and move the backup \<open>a\<close> there.\<close>

lemma restore_step:
  assumes "rm b w = (r1, w1)" and "r1 = Inr u \<Longrightarrow> ren a b w1 = (r2, w2)" and "a \<noteq> b"
    and "r1 = Inr u" and "look w a = Some c"
  shows "look w2 b = Some c \<or> look w2 a = Some c"
proof -
  have w1: "look w1 = (look w)(b := None)" using assms(1,4) by (simp add: rm_ok)
  show ?thesis
  proof (cases r2)
    case (Inl e)
    then show ?thesis using assms(2-5) w1 by (auto dest: ren_fail)
  next
    case (Inr v)
    then show ?thesis using assms(2-5) w1 ren_moved [of a b w1 v w2] by auto
  qed
qed

end

interpretation fs: file_store files fs_rename fs_rm_force
  by unfold_locales
    (auto simp: fs_rename_def fs_rm_force_def split: if_splits option.splits)

section \<open>Containment of paths\<close>

text \<open>\<open>pathContains\<close> of \<open>workspace-edit.ts\<close>: on absolute paths \<open>relative\<close> is never absolute.\<close>

definition pathContains :: "fspath \<Rightarrow> fspath \<Rightarrow> bool" where
  "pathContains base target =
     (let child = relative_path base target in
      child = [] \<or> (child \<noteq> [''..''] \<and> \<not> (length child > 1 \<and> hd child = ''..'')))"

lemma common_prefix_full: "common_prefix a b = length a \<longleftrightarrow> take (length a) b = a"
  by (induction a b rule: common_prefix.induct) auto

lemma common_prefix_le: "common_prefix a b \<le> length a \<and> common_prefix a b \<le> length b"
  by (induction a b rule: common_prefix.induct) auto

lemma normalize_no_dotdot:
  "''..'' \<notin> set acc \<Longrightarrow> ''..'' \<notin> set (normalize_components acc cs)"
  by (induction acc cs rule: normalize_components.induct) (auto dest: in_set_butlastD)

lemma pathContains_iff:
  assumes "''..'' \<notin> set target"
  shows "pathContains base target \<longleftrightarrow> (\<exists>rest. target = base @ rest)"
proof -
  let ?k = "common_prefix base target"
  have "pathContains base target \<longleftrightarrow> ?k = length base"
  proof
    assume "?k = length base"
    then have "set (relative_path base target) \<subseteq> set target"
      by (auto simp: relative_path_def dest: in_set_dropD)
    with assms have "''..'' \<notin> set (relative_path base target)" by auto
    then show "pathContains base target"
      by (auto simp: pathContains_def Let_def) (metis hd_in_set list.size(3) not_less_zero)
  next
    assume c: "pathContains base target"
    show "?k = length base"
    proof (rule ccontr)
      assume "?k \<noteq> length base"
      then obtain n where n: "length base - ?k = Suc n"
        using common_prefix_le [of base target] by (metis diff_is_0_eq le_antisym not0_implies_Suc)
      then show False
        using c by (auto simp: pathContains_def relative_path_def Let_def)
    qed
  qed
  then show ?thesis
    by (auto simp: common_prefix_full) (metis append_take_drop_id)
qed


lemma resolve_no_dotdot: "''..'' \<notin> set cwd \<Longrightarrow> ''..'' \<notin> set (resolve_path cwd p)"
  by (simp add: resolve_path_def normalize_no_dotdot)

text \<open>The containment test is the prefix order on resolved paths: for a root and any path
  resolved against the working directory, the code's reading of \<open>relative\<close> accepts exactly the
  root and what lies below it.\<close>

theorem path_contains_prefix:
  assumes "''..'' \<notin> set cwd"
  shows "pathContains base (resolve_path cwd p) \<longleftrightarrow> (\<exists>rest. resolve_path cwd p = base @ rest)"
  by (rule pathContains_iff [OF resolve_no_dotdot [OF assms]])

theorem path_contains_prefix_witness:
  "\<not> pathContains [''r'', ''a''] (resolve_path [''r''] ''a/../ab'')"
proof -
  have "resolve_path [''r''] ''a/../ab'' = [''r'', ''ab'']" by code_simp
  then show ?thesis
    using path_contains_prefix [of "[''r'']" "[''r'', ''a'']" "''a/../ab''"] by simp
qed

end
