(* ===== verification/Workspace_Parse.thy ===== *)
theory Workspace_Parse
  imports File_System
begin

text \<open>
  The parser of \<open>extensions/dev-tools/workspace-edit.ts\<close>: \<open>parsePosition\<close>,
  \<open>parseTextEdit\<close>, \<open>filePathFromUri\<close> and \<open>parseWorkspaceEdit\<close>, which turn an
  untyped LSP \<open>WorkspaceEdit\<close> into the edits of each file, and what its results promise.
  Node's URL parser is a parameter.
\<close>

section \<open>Labels, errors, results\<close>

text \<open>Where in the value an error lies: the labels the source builds as strings.\<close>

datatype label =
    L_changes string
  | L_document nat
  | L_edits label
  | L_item label nat
  | L_range label
  | L_range_start label
  | L_range_end label

datatype ws_error =
    Expected_object label
  | Expected_line label
  | Expected_character label
  | Expected_new_text label
  | Expected_array label
  | Expected_uri label
  | Bad_version label
  | Unsupported_operation label string
  | Edit_not_object
  | Both_forms
  | Changes_not_object
  | Document_changes_not_array
  | Uri_invalid string
  | Uri_scheme string
  | Uri_unconvertible string
  | Conflicting_versions string
  | No_write_scope
  | Relative_root
  | Outside_roots string
  | Resolves_outside string
  | Version_mismatch string
  | Changed_after_edit string
  | Duplicate_target
  | Text_edit string text_edit_error
  | Changed_while_staged string
  | Rollback_incomplete
  | Io_failure io_error

text \<open>What \<open>new URL(uri)\<close> and \<open>fileURLToPath\<close> make of a URI.\<close>

datatype uri_outcome = Not_a_url | Other_scheme | Not_convertible | File_path string

datatype doc_version = V_undefined | V_null | V_number int

record file_edits =
  fe_path :: string
  fe_edits :: "lsp_text_edit list"
  fe_version :: doc_version

definition utf16 :: "string \<Rightarrow> jstext" where
  "utf16 s = map (\<lambda>c. word_of_nat (of_char c)) s"

section \<open>Positions and text edits\<close>

definition natural_number :: "jsval \<Rightarrow> nat option" where
  "natural_number v =
     (case v of
        JNum n \<Rightarrow> if is_integer n \<and> 0 \<le> js_int n then Some (nat (js_int n)) else None
      | _ \<Rightarrow> None)"

definition parsePosition :: "jsval \<Rightarrow> label \<Rightarrow> ws_error + lsp_position" where
  "parsePosition v label =
     (case v of
        JObj ps \<Rightarrow>
          (case natural_number (js_prop ps ''line'') of
             None \<Rightarrow> Inl (Expected_line label)
           | Some l \<Rightarrow>
               (case natural_number (js_prop ps ''character'') of
                  None \<Rightarrow> Inl (Expected_character label)
                | Some c \<Rightarrow> Inr \<lparr>pos_line = l, pos_character = c\<rparr>))
      | _ \<Rightarrow> Inl (Expected_object label))"

definition parseTextEdit :: "jsval \<Rightarrow> label \<Rightarrow> ws_error + lsp_text_edit" where
  "parseTextEdit v label =
     (case v of
        JObj ps \<Rightarrow>
          (case js_prop ps ''newText'' of
             JStr t \<Rightarrow>
               (case js_prop ps ''range'' of
                  JObj rf \<Rightarrow>
                    try_bind (parsePosition (js_prop rf ''start'') (L_range_start label)) (\<lambda>s.
                    try_bind (parsePosition (js_prop rf ''end'') (L_range_end label)) (\<lambda>e.
                      Inr \<lparr>edit_range = \<lparr>range_start = s, range_end = e\<rparr>, new_text = utf16 t\<rparr>))
                | _ \<Rightarrow> Inl (Expected_object (L_range label)))
           | _ \<Rightarrow> Inl (Expected_new_text label))
      | _ \<Rightarrow> Inl (Expected_object label))"

definition filePathFromUri :: "(string \<Rightarrow> uri_outcome) \<Rightarrow> string \<Rightarrow> ws_error + string" where
  "filePathFromUri url uri =
     (case url uri of
        Not_a_url \<Rightarrow> Inl (Uri_invalid uri)
      | Other_scheme \<Rightarrow> Inl (Uri_scheme uri)
      | Not_convertible \<Rightarrow> Inl (Uri_unconvertible uri)
      | File_path p \<Rightarrow> Inr p)"

section \<open>Collecting the edits per file\<close>

definition nullish :: "doc_version \<Rightarrow> doc_version \<Rightarrow> doc_version" where
  "nullish a b = (case a of V_number n \<Rightarrow> V_number n | _ \<Rightarrow> b)"

definition existing_version :: "file_edits option \<Rightarrow> doc_version" where
  "existing_version x = (case x of None \<Rightarrow> V_undefined | Some f \<Rightarrow> fe_version f)"

definition existing_edits :: "file_edits option \<Rightarrow> lsp_text_edit list" where
  "existing_edits x = (case x of None \<Rightarrow> [] | Some f \<Rightarrow> fe_edits f)"

text \<open>The closure \<open>addEdits\<close>, with the map \<open>files\<close> it updates passed and returned.\<close>

definition addEdits ::
  "(string \<Rightarrow> uri_outcome) \<Rightarrow> string \<Rightarrow> jsval \<Rightarrow> label \<Rightarrow> doc_version \<Rightarrow>
   (string, file_edits) jsmap \<Rightarrow> ws_error + (string, file_edits) jsmap" where
  "addEdits url uri rawEdits label expected fs =
     (case rawEdits of
        JArr items \<Rightarrow>
          try_bind (filePathFromUri url uri) (\<lambda>path.
          try_bind (map_try (\<lambda>(i, e). parseTextEdit e (L_item label i)) (enumerate 0 items)) (\<lambda>edits.
            if edits = [] then Inr fs
            else
              let existing = jm_get fs path in
              if existing_version existing \<noteq> V_undefined \<and> expected \<noteq> V_undefined
                \<and> existing_version existing \<noteq> expected
              then Inl (Conflicting_versions path)
              else Inr (jm_set path
                \<lparr>fe_path = path, fe_edits = existing_edits existing @ edits,
                 fe_version = nullish (existing_version existing) expected\<rparr> fs)))
      | _ \<Rightarrow> Inl (Expected_array label))"

fun fold_try :: "('x \<Rightarrow> 's \<Rightarrow> 'e + 's) \<Rightarrow> 'x list \<Rightarrow> 's \<Rightarrow> 'e + 's" where
  "fold_try f [] s = Inr s"
| "fold_try f (x # xs) s = try_bind (f x s) (fold_try f xs)"

definition parse_version :: "jsval \<Rightarrow> label \<Rightarrow> ws_error + doc_version" where
  "parse_version v label =
     (case v of
        JUndefined \<Rightarrow> Inr V_undefined
      | JNull \<Rightarrow> Inr V_null
      | _ \<Rightarrow> (case natural_number v of
                Some n \<Rightarrow> Inr (V_number (int n)) | None \<Rightarrow> Inl (Bad_version label)))"

text \<open>The callback of \<open>documentChanges.forEach\<close>.\<close>

definition document_change ::
  "(string \<Rightarrow> uri_outcome) \<Rightarrow> nat \<times> jsval \<Rightarrow> (string, file_edits) jsmap \<Rightarrow>
   ws_error + (string, file_edits) jsmap" where
  "document_change url = (\<lambda>(index, change) fs.
     let label = L_document index in
     case change of
       JObj cf \<Rightarrow>
         (case js_prop cf ''kind'' of
            JStr kind \<Rightarrow> Inl (Unsupported_operation label kind)
          | _ \<Rightarrow>
              (case js_prop cf ''textDocument'' of
                 JObj tf \<Rightarrow>
                   (case js_prop tf ''uri'' of
                      JStr uri \<Rightarrow>
                        try_bind (parse_version (js_prop tf ''version'') label) (\<lambda>version.
                          addEdits url uri (js_prop cf ''edits'') (L_edits label) version fs)
                    | _ \<Rightarrow> Inl (Expected_uri label))
               | _ \<Rightarrow> Inl (Expected_uri label)))
     | _ \<Rightarrow> Inl (Expected_object label))"

definition parseWorkspaceEdit ::
  "(string \<Rightarrow> uri_outcome) \<Rightarrow> jsval \<Rightarrow> ws_error + file_edits list" where
  "parseWorkspaceEdit url v =
     (case v of
        JObj ps \<Rightarrow>
          let changes = js_prop ps ''changes'';
              documentChanges = js_prop ps ''documentChanges'' in
          if changes \<noteq> JUndefined \<and> documentChanges \<noteq> JUndefined then Inl Both_forms
          else
            try_bind
              (if changes \<noteq> JUndefined then
                 (case changes of
                    JObj entries \<Rightarrow>
                      fold_try (\<lambda>(uri, edits). addEdits url uri edits (L_changes uri) V_undefined)
                        entries []
                  | _ \<Rightarrow> Inl Changes_not_object)
               else Inr [])
              (\<lambda>fs. try_bind
                (if documentChanges \<noteq> JUndefined then
                   (case documentChanges of
                      JArr items \<Rightarrow> fold_try (document_change url) (enumerate 0 items) fs
                    | _ \<Rightarrow> Inl Document_changes_not_array)
                 else Inr fs)
                (\<lambda>fs. Inr (jm_values fs)))
      | _ \<Rightarrow> Inl Edit_not_object)"

section \<open>What a value says\<close>

text \<open>
  What an untyped value says, read without the parser: the edit an object describes, and the entries
  of the value in their order, each with its URI, the objects of its edits and its version.
\<close>

definition properties_of :: "jsval \<Rightarrow> (string \<times> jsval) list" where
  "properties_of v = (case v of JObj ps \<Rightarrow> ps | _ \<Rightarrow> [])"

definition items_of :: "jsval \<Rightarrow> jsval list" where
  "items_of v = (case v of JArr xs \<Rightarrow> xs | _ \<Rightarrow> [])"

definition text_of :: "jsval \<Rightarrow> string" where
  "text_of v = (case v of JStr s \<Rightarrow> s | _ \<Rightarrow> '''')"

definition object_position :: "jsval \<Rightarrow> lsp_position \<Rightarrow> bool" where
  "object_position v p \<longleftrightarrow>
     (\<exists>ps. v = JObj ps \<and> js_prop ps ''line'' = JNum (Finite (of_nat (pos_line p))) \<and>
        js_prop ps ''character'' = JNum (Finite (of_nat (pos_character p))))"

definition object_edit :: "jsval \<Rightarrow> lsp_text_edit \<Rightarrow> bool" where
  "object_edit v t \<longleftrightarrow>
     (\<exists>ps rf s. v = JObj ps \<and> js_prop ps ''newText'' = JStr s \<and> new_text t = utf16 s \<and> js_prop ps ''range'' = JObj rf \<and>
        object_position (js_prop rf ''start'') (range_start (edit_range t)) \<and>
        object_position (js_prop rf ''end'') (range_end (edit_range t)))"

type_synonym edit_entry = "string \<times> jsval list \<times> jsval"

definition document_entry :: "jsval \<Rightarrow> edit_entry" where
  "document_entry change =
     (let cf = properties_of change; tf = properties_of (js_prop cf ''textDocument'')
      in (text_of (js_prop tf ''uri''), items_of (js_prop cf ''edits''), js_prop tf ''version''))"

definition edit_entries :: "jsval \<Rightarrow> edit_entry list" where
  "edit_entries v =
     map (\<lambda>(uri, edits). (uri, items_of edits, JUndefined)) (properties_of (js_prop (properties_of v) ''changes'')) @
     map document_entry (items_of (js_prop (properties_of v) ''documentChanges''))"

text \<open>The entries with edits for a file, and the file that they make.\<close>

definition entries_for :: "(string \<Rightarrow> uri_outcome) \<Rightarrow> string \<Rightarrow> edit_entry list \<Rightarrow> edit_entry list" where
  "entries_for url p es = filter (\<lambda>(uri, items, version). url uri = File_path p \<and> items \<noteq> []) es"

definition made_of :: "edit_entry list \<Rightarrow> file_edits \<Rightarrow> bool" where
  "made_of own f \<longleftrightarrow> own \<noteq> [] \<and> list_all2 object_edit (concat (map (\<lambda>(_, items, _). items) own)) (fe_edits f) \<and>
     (\<forall>n. fe_version f = V_number n \<longleftrightarrow> (\<exists>k uri items. n = int k \<and> (uri, items, JNum (Finite (of_nat k))) \<in> set own))"

section \<open>The parser reads what a value says\<close>

lemma natural_number_iff: "natural_number v = Some n \<longleftrightarrow> v = JNum (Finite (of_nat n))"
proof
  assume n: "natural_number v = Some n"
  then obtain q where q: "v = JNum (Finite q)" "snd (quotient_of q) = 1" "0 \<le> fst (quotient_of q)" "n = nat (fst (quotient_of q))"
    by (auto simp: natural_number_def is_integer_def js_int_def split: jsval.splits jsnumber.splits if_splits)
  have "q = of_int (fst (quotient_of q)) / of_int (snd (quotient_of q))"
    by (rule quotient_of_div) simp
  then have "q = of_nat n"
    using q(2-4) by simp
  then show "v = JNum (Finite (of_nat n))"
    using q(1) by simp
next
  assume "v = JNum (Finite (of_nat n))"
  then show "natural_number v = Some n"
    using is_integer_of_int [of "int n"] js_int_of_int [of "int n"] by (simp add: natural_number_def)
qed

lemma parsePosition_Inr: "parsePosition v label = Inr p \<Longrightarrow> object_position v p"
  by (auto simp: parsePosition_def object_position_def natural_number_iff split: jsval.splits option.splits)

lemma parseTextEdit_Inr: "parseTextEdit v label = Inr t \<Longrightarrow> object_edit v t"
  by (fastforce simp: parseTextEdit_def object_edit_def try_bind_Inr_iff dest: parsePosition_Inr split: jsval.splits)

lemma parse_edits:
  assumes "map_try (\<lambda>(i, e). parseTextEdit e (label i)) (enumerate k items) = Inr edits"
  shows "list_all2 object_edit items edits"
  using assms
proof (induction items arbitrary: k edits)
  case (Cons x xs)
  then show ?case
    by (auto simp: dest: parseTextEdit_Inr split: sum.splits)
qed simp

lemma filePathFromUri_Inr: "filePathFromUri url uri = Inr p \<longleftrightarrow> url uri = File_path p"
  by (auto simp: filePathFromUri_def split: uri_outcome.splits)

text \<open>
  The invariant of \<open>files\<close>: it holds exactly the files that entries with edits are for, each under its
  own path and made of all the entries for it so far.
\<close>

definition gathered :: "(string \<Rightarrow> uri_outcome) \<Rightarrow> edit_entry list \<Rightarrow> (string, file_edits) jsmap \<Rightarrow> bool" where
  "gathered url es fs \<longleftrightarrow> jm_ok fs \<and> (\<forall>(p, f)\<in>set fs. fe_path f = p \<and> made_of (entries_for url p es) f) \<and>
     (\<forall>(uri, items, version)\<in>set es. \<exists>p. url uri = File_path p \<and> (items \<noteq> [] \<longrightarrow> jm_get fs p \<noteq> None))"

definition version_read :: "jsval \<Rightarrow> doc_version \<Rightarrow> bool" where
  "version_read v d \<longleftrightarrow> (\<forall>n. d = V_number n \<longleftrightarrow> (\<exists>k. n = int k \<and> v = JNum (Finite (of_nat k))))"

lemma entries_for_snoc: "entries_for url p (es @ [(uri, items, v)]) =
    entries_for url p es @ (if url uri = File_path p \<and> items \<noteq> [] then [(uri, items, v)] else [])"
  by (simp add: entries_for_def)

lemma made_of_snoc:
  assumes existing: "case x of None \<Rightarrow> own = [] | Some f \<Rightarrow> made_of own f"
    and "items \<noteq> []" "list_all2 object_edit items edits" and v: "version_read v expected"
    and agree: "\<not> (existing_version x \<noteq> V_undefined \<and> expected \<noteq> V_undefined \<and> existing_version x \<noteq> expected)"
  shows "made_of (own @ [(uri, items, v)])
    \<lparr>fe_path = p, fe_edits = existing_edits x @ edits, fe_version = nullish (existing_version x) expected\<rparr>"
proof -
  have "list_all2 object_edit (concat (map (\<lambda>(_, items, _). items) own)) (existing_edits x)"
    using existing by (cases x) (simp_all add: existing_edits_def made_of_def)
  then have edits: "list_all2 object_edit (concat (map (\<lambda>(_, items, _). items) (own @ [(uri, items, v)]))) (existing_edits x @ edits)"
    using assms(3) by (simp add: list_all2_appendI)
  have old: "existing_version x = V_number n \<longleftrightarrow> (\<exists>k uri items. n = int k \<and> (uri, items, JNum (Finite (of_nat k))) \<in> set own)" for n
    using existing by (cases x) (simp_all add: existing_version_def made_of_def)
  have "nullish (existing_version x) expected = V_number n \<longleftrightarrow> existing_version x = V_number n \<or> expected = V_number n" for n
    using agree by (cases "existing_version x"; cases expected) (auto simp: nullish_def)
  then have "nullish (existing_version x) expected = V_number n \<longleftrightarrow>
      (\<exists>k u is. n = int k \<and> (u, is, JNum (Finite (of_nat k))) \<in> set (own @ [(uri, items, v)]))" for n
    unfolding old using v unfolding version_read_def set_append list.set by auto
  then show ?thesis
    using edits by (simp add: made_of_def)
qed

lemma addEdits_gathered:
  assumes add: "addEdits url uri raw label expected fs = Inr fs'" and g: "gathered url es fs" and v: "version_read v expected"
  shows "gathered url (es @ [(uri, items_of raw, v)]) fs'"
proof -
  obtain items path edits where raw: "raw = JArr items" and path: "url uri = File_path path"
    and edits: "list_all2 object_edit items edits" and fs': "if edits = [] then fs' = fs
      else \<not> (existing_version (jm_get fs path) \<noteq> V_undefined \<and> expected \<noteq> V_undefined \<and> existing_version (jm_get fs path) \<noteq> expected) \<and>
        fs' = jm_set path \<lparr>fe_path = path, fe_edits = existing_edits (jm_get fs path) @ edits,
          fe_version = nullish (existing_version (jm_get fs path)) expected\<rparr> fs"
    using add by (auto simp: addEdits_def try_bind_Inr_iff filePathFromUri_Inr Let_def split: jsval.splits if_splits dest!: parse_edits)
  have items: "items_of raw = items"
    by (simp add: raw items_of_def)
  have ok: "jm_ok fs" and each: "(p, f) \<in> set fs \<Longrightarrow> fe_path f = p \<and> made_of (entries_for url p es) f"
    and all: "(u, is, w) \<in> set es \<Longrightarrow> \<exists>p. url u = File_path p \<and> (is \<noteq> [] \<longrightarrow> jm_get fs p \<noteq> None)" for p f u "is" w
    using g by (auto simp: gathered_def)
  show ?thesis
  proof (cases "edits = []")
    case True
    then have "items = []" "fs' = fs"
      using edits fs' by simp_all
    then show ?thesis
      using g path by (auto simp: gathered_def items entries_for_snoc)
  next
    case False
    then have nonempty: "items \<noteq> []"
      using edits by auto
    let ?new = "\<lparr>fe_path = path, fe_edits = existing_edits (jm_get fs path) @ edits,
          fe_version = nullish (existing_version (jm_get fs path)) expected\<rparr>"
    have set: "fs' = jm_set path ?new fs"
      and agree: "\<not> (existing_version (jm_get fs path) \<noteq> V_undefined \<and> expected \<noteq> V_undefined \<and> existing_version (jm_get fs path) \<noteq> expected)"
      using fs' False by simp_all
    have ok': "jm_ok fs'"
      unfolding set by (rule jm_ok_set [OF ok])
    have "case jm_get fs path of None \<Rightarrow> entries_for url path es = [] | Some f \<Rightarrow> made_of (entries_for url path es) f"
    proof (cases "jm_get fs path")
      case None
      have "entries_for url path es = []"
        using all None by (fastforce simp: entries_for_def filter_empty_conv)
      then show ?thesis
        by (simp add: None)
    next
      case (Some f)
      then show ?thesis
        using each [OF jm_get_in [OF Some]] by simp
    qed
    then have new: "made_of (entries_for url path (es @ [(uri, items, v)])) ?new"
      using made_of_snoc [OF _ nonempty edits v agree] by (simp add: entries_for_snoc path nonempty)
    have "fe_path f = p \<and> made_of (entries_for url p (es @ [(uri, items, v)])) f" if pf: "(p, f) \<in> set fs'" for p f
    proof (cases "p = path")
      case True
      then have "f = ?new"
        using jm_in_get [OF ok' pf] by (simp add: set jm_get_set)
      then show ?thesis
        using new True by simp
    next
      case False
      then have "(p, f) \<in> set fs"
        using pf set_jm_set_subset [of path ?new fs] by (auto simp: set)
      then show ?thesis
        using each False path by (simp add: entries_for_snoc)
    qed
    moreover have "\<exists>p. url u = File_path p \<and> (is \<noteq> [] \<longrightarrow> jm_get fs' p \<noteq> None)"
      if "(u, is, w) \<in> set (es @ [(uri, items, v)])" for u "is" w
    proof (cases "(u, is, w) \<in> set es")
      case True
      then obtain p where "url u = File_path p" "is \<noteq> [] \<longrightarrow> jm_get fs p \<noteq> None"
        using all by blast
      then show ?thesis
        by (intro exI [of _ p]) (simp add: set jm_get_set)
    next
      case False
      then have "url u = File_path path"
        using that path by simp
      then show ?thesis
        by (intro exI [of _ path]) (simp add: set jm_get_set)
    qed
    ultimately show ?thesis
      using ok' unfolding gathered_def items by blast
  qed
qed

lemma parse_version_read: "parse_version v label = Inr d \<Longrightarrow> version_read v d"
  by (auto simp: parse_version_def version_read_def natural_number_iff split: jsval.splits option.splits)

lemma document_change_gathered:
  assumes "document_change url (i, change) fs = Inr fs'" and "gathered url es fs"
  shows "gathered url (es @ [document_entry change]) fs'"
proof -
  obtain cf tf uri version where c: "change = JObj cf" "js_prop cf ''textDocument'' = JObj tf" "js_prop tf ''uri'' = JStr uri"
    "parse_version (js_prop tf ''version'') (L_document i) = Inr version"
    "addEdits url uri (js_prop cf ''edits'') (L_edits (L_document i)) version fs = Inr fs'"
    using assms(1) by (auto simp: document_change_def Let_def try_bind_Inr_iff split: jsval.splits)
  have "document_entry change = (uri, items_of (js_prop cf ''edits''), js_prop tf ''version'')"
    by (simp add: document_entry_def c(1-3) properties_of_def text_of_def Let_def)
  then show ?thesis
    using addEdits_gathered [OF c(5) assms(2) parse_version_read [OF c(4)]] by simp
qed

lemma fold_gathered:
  assumes "\<And>x es s s'. f x s = Inr s' \<Longrightarrow> gathered url es s \<Longrightarrow> gathered url (es @ [h x]) s'"
  shows "fold_try f xs s = Inr s' \<Longrightarrow> gathered url es s \<Longrightarrow> gathered url (es @ map h xs) s'"
proof (induction xs arbitrary: s es)
  case (Cons x xs)
  then obtain t where "f x s = Inr t" "fold_try f xs t = Inr s'"
    by (auto simp: try_bind_Inr_iff)
  then show ?case
    using Cons.IH [of t "es @ [h x]"] assms [of x s t es] Cons.prems(2) by simp
qed simp

lemma parse_gathered:
  assumes "parseWorkspaceEdit url v = Inr fes"
  obtains fs where "fes = jm_values fs" and "gathered url (edit_entries v) fs"
proof -
  have nil: "gathered url [] []"
    by (simp add: gathered_def jm_ok_def)
  obtain ps where v: "v = JObj ps"
    using assms by (auto simp: parseWorkspaceEdit_def split: jsval.splits)
  let ?c = "js_prop ps ''changes''" and ?d = "js_prop ps ''documentChanges''"
  obtain fs fs' where fs: "(if ?c \<noteq> JUndefined then
      (case ?c of JObj entries \<Rightarrow> fold_try (\<lambda>(uri, edits). addEdits url uri edits (L_changes uri) V_undefined) entries []
       | _ \<Rightarrow> Inl Changes_not_object) else Inr []) = Inr fs"
    and fs': "(if ?d \<noteq> JUndefined then
      (case ?d of JArr items \<Rightarrow> fold_try (document_change url) (enumerate 0 items) fs
       | _ \<Rightarrow> Inl Document_changes_not_array) else Inr fs) = Inr fs'" and fes: "fes = jm_values fs'"
    using assms by (auto simp: parseWorkspaceEdit_def v Let_def try_bind_Inr_iff split: if_split_asm)
  let ?entry = "\<lambda>(uri, edits). (uri, items_of edits, JUndefined)"
  have changes: "gathered url (map ?entry (properties_of ?c)) fs"
  proof (cases "?c = JUndefined")
    case True
    then show ?thesis
      using fs nil by (simp add: properties_of_def)
  next
    case False
    then obtain es where es: "?c = JObj es"
      and run: "fold_try (\<lambda>(uri, edits). addEdits url uri edits (L_changes uri) V_undefined) es [] = Inr fs"
      using fs by (auto split: jsval.splits)
    have "gathered url ([] @ map ?entry es) fs"
      by (rule fold_gathered [OF _ run nil]) (auto intro!: addEdits_gathered simp: version_read_def)
    then show ?thesis
      by (simp add: es properties_of_def)
  qed
  have "gathered url (map ?entry (properties_of ?c) @ map document_entry (items_of ?d)) fs'"
  proof (cases "?d = JUndefined")
    case True
    then show ?thesis
      using fs' changes by (simp add: items_of_def)
  next
    case False
    then obtain ds where ds: "?d = JArr ds" and run: "fold_try (document_change url) (enumerate 0 ds) fs = Inr fs'"
      using fs' by (auto split: jsval.splits)
    have "gathered url (map ?entry (properties_of ?c) @ map (\<lambda>(i, d). document_entry d) (enumerate 0 ds)) fs'"
      by (rule fold_gathered [OF _ run changes]) (auto intro: document_change_gathered)
    moreover have "map (\<lambda>(i, d). document_entry d) (enumerate 0 ds) = map document_entry ds"
      by (rule nth_equalityI) (simp_all add: nth_enumerate_eq)
    ultimately show ?thesis
      by (simp add: ds items_of_def)
  qed
  then have "gathered url (edit_entries v) fs'"
    by (simp add: edit_entries_def v properties_of_def)
  then show ?thesis
    using that fes by blast
qed

section \<open>Properties\<close>

text \<open>C22: A parsed edit is what the value says. The files are, each once, those that some entry with edits
  is for, by what its URI denotes; the edits of a file are those of all the entries for it, in the order
  of the value, each with the range and the text of its object; its expected version is the number that
  an entry for it carries, if one does; and every entry's URI denotes a file.\<close>

theorem parsed_edit_well_formed:
  assumes "parseWorkspaceEdit url v = Inr fes"
  shows "distinct (map fe_path fes) \<and>
    (\<forall>f\<in>set fes. made_of (entries_for url (fe_path f) (edit_entries v)) f) \<and>
    (\<forall>(uri, items, version)\<in>set (edit_entries v).
       \<exists>p. url uri = File_path p \<and> (items \<noteq> [] \<longrightarrow> (\<exists>f\<in>set fes. fe_path f = p)))"
proof -
  obtain fs where fes: "fes = jm_values fs" and g: "gathered url (edit_entries v) fs"
    using parse_gathered [OF assms] by blast
  have each: "fe_path f = p \<and> made_of (entries_for url p (edit_entries v)) f" if "(p, f) \<in> set fs" for p f
    using g that by (auto simp: gathered_def)
  have found: "\<exists>f\<in>set fes. fe_path f = p" if "jm_get fs p \<noteq> None" for p
  proof -
    obtain f where "(p, f) \<in> set fs"
      using \<open>jm_get fs p \<noteq> None\<close> jm_get_in by fast
    then have "f \<in> set fes" "fe_path f = p"
      unfolding fes jm_values_def set_map using each by (metis image_eqI snd_conv, blast)
    then show ?thesis
      by blast
  qed
  have "map fe_path fes = map fst fs"
    using each by (auto simp: fes jm_values_def)
  then have "distinct (map fe_path fes)"
    using g by (simp add: gathered_def jm_ok_def)
  moreover have "made_of (entries_for url (fe_path f) (edit_entries v)) f" if "f \<in> set fes" for f
    using that each by (auto simp: fes jm_values_def)
  moreover have "\<exists>p. url uri = File_path p \<and> (items \<noteq> [] \<longrightarrow> (\<exists>f\<in>set fes. fe_path f = p))"
    if "(uri, items, version) \<in> set (edit_entries v)" for uri items version
  proof -
    obtain p where "url uri = File_path p" "items \<noteq> [] \<longrightarrow> jm_get fs p \<noteq> None"
      using g \<open>(uri, items, version) \<in> set (edit_entries v)\<close> unfolding gathered_def by blast
    then show ?thesis
      using found by (intro exI [of _ p]) simp
  qed
  ultimately show ?thesis
    by (intro conjI ballI) auto
qed

definition demo_value :: jsval where
  "demo_value =
     (let pos = JObj [(''line'', JNum (Finite 0)), (''character'', JNum (Finite 0))] in
      JObj [(''changes'', JObj [(''/a'', JArr [JObj [(''newText'', JStr ''x''),
        (''range'', JObj [(''start'', pos), (''end'', pos)])]])])])"

theorem parsed_edit_well_formed_witness:
  "\<exists>f. parseWorkspaceEdit File_path demo_value = Inr [f] \<and> fe_path f = ''/a'' \<and>
     made_of (entries_for File_path ''/a'' (edit_entries demo_value)) f"
proof -
  let ?pos = "\<lparr>pos_line = 0, pos_character = 0\<rparr>"
  have "parseWorkspaceEdit File_path demo_value = Inr [\<lparr>fe_path = ''/a'', fe_edits =
      [\<lparr>edit_range = \<lparr>range_start = ?pos, range_end = ?pos\<rparr>, new_text = utf16 ''x''\<rparr>],
      fe_version = V_undefined\<rparr>]"
    by code_simp
  with parsed_edit_well_formed [OF this] show ?thesis by simp
qed

end
