(* ===== verification/Workspace_Edit.thy ===== *)
theory Workspace_Edit
  imports Workspace_Parse
begin

text \<open>
  The effectful half of \<open>extensions/dev-tools/workspace-edit.ts\<close>: authorization of the
  targets (\<open>authorizeWorkspaceTargets\<close>), staging, the two-rename commit with rollback
  (\<open>stageWorkspaceFile\<close>, \<open>replaceWorkspaceFiles\<close>) and the whole operation
  (\<open>applyWorkspaceEditEffect\<close>). Calls the source starts together with \<open>Promise.all\<close> act
  on distinct paths and are run here in array order. The theorems: the files are replaced
  all or none, and no original content is ever lost, whichever file system call fails.
\<close>

section \<open>Options and prepared files\<close>

record document_snapshot =
  snap_version :: int
  snap_content :: jstext

type_synonym snapshot_fn = "string \<Rightarrow> document_snapshot option"

text \<open>
  \<open>authorize_target\<close> and \<open>get_snapshot\<close> are the optional callbacks; an authorization
  without a \<open>getDocumentSnapshot\<close> counts as none, since nothing else of it is read.
\<close>

record apply_options =
  allowed_roots :: "string list"
  authorize_target :: "(string \<Rightarrow> fspath \<Rightarrow> ws_error + snapshot_fn option) option"
  get_snapshot :: "snapshot_fn option"

text \<open>What the operation reads of the process: working directory, \<open>realpath\<close>, URLs.\<close>

record environment =
  env_cwd :: fspath
  env_realpath :: "string \<Rightarrow> io_error + fspath"
  env_url :: "string \<Rightarrow> uri_outcome"
  env_pid :: string

record authorized_file =
  au_file :: file_edits
  au_write :: fspath
  au_snapshot :: "snapshot_fn option"

record prepared_file =
  pf_absolute :: string
  pf_write :: fspath
  pf_content :: jstext
  pf_updated :: jstext
  pf_edits :: nat

record staged_file = prepared_file +
  sf_staged :: fspath
  sf_backup :: fspath

definition io_lift :: "io_error + 'a \<Rightarrow> ws_error + 'a" where
  "io_lift r = (case r of Inl e \<Rightarrow> Inl (Io_failure e) | Inr a \<Rightarrow> Inr a)"

definition path_string :: "fspath \<Rightarrow> string" where
  "path_string p = (if p = [] then ''/'' else concat (map (\<lambda>c. CHR ''/'' # c) p))"

section \<open>Authorization\<close>

definition authorize_one ::
  "environment \<Rightarrow> apply_options \<Rightarrow> fspath list \<Rightarrow> fspath list \<Rightarrow> file_edits \<Rightarrow>
   ws_error + authorized_file" where
  "authorize_one env opts lexicalRoots realRoots file =
     (if \<not> list_ex (\<lambda>r. pathContains r (resolve_path (env_cwd env) (fe_path file))) lexicalRoots
      then Inl (Outside_roots (fe_path file))
      else try_bind (io_lift (env_realpath env (fe_path file))) (\<lambda>writePath.
        if \<not> list_ex (\<lambda>r. pathContains r writePath) realRoots
        then Inl (Resolves_outside (fe_path file))
        else try_bind
          (case authorize_target opts of None \<Rightarrow> Inr None | Some f \<Rightarrow> f (fe_path file) writePath)
          (\<lambda>snap. Inr \<lparr>au_file = file, au_write = writePath, au_snapshot = snap\<rparr>)))"

definition authorizeWorkspaceTargets ::
  "environment \<Rightarrow> apply_options \<Rightarrow> file_edits list \<Rightarrow> ws_error + authorized_file list" where
  "authorizeWorkspaceTargets env opts fs =
     (if allowed_roots opts = [] then Inl No_write_scope
      else if list_ex (\<lambda>r. \<not> is_absolute r) (allowed_roots opts) then Inl Relative_root
      else
        let lexicalRoots = map (resolve_path (env_cwd env)) (allowed_roots opts) in
        try_bind (map_try (\<lambda>r. io_lift (env_realpath env (path_string r))) lexicalRoots)
          (\<lambda>realRoots. map_try (authorize_one env opts lexicalRoots realRoots) fs))"

section \<open>Staging\<close>

definition temporary_name :: "environment \<Rightarrow> fspath \<Rightarrow> string \<Rightarrow> string \<Rightarrow> fspath" where
  "temporary_name env p role u =
     butlast p @ [''.'' @ last p @ ''.pi-dev-tools-'' @ role @ ''-'' @ env_pid env @ ''-'' @ u]"

definition siblingTemporaryPath :: "environment \<Rightarrow> fspath \<Rightarrow> string \<Rightarrow> world \<Rightarrow> fspath \<times> world" where
  "siblingTemporaryPath env p role w =
     (let (u, w') = fs_uuid w in
      (temporary_name env p role u, w'))"

text \<open>The \<open>try\<close> block of \<open>stageWorkspaceFile\<close>: write, chmod, sync, close.\<close>

definition stage_body :: "fspath \<Rightarrow> jstext \<Rightarrow> world \<Rightarrow> unit fs_result" where
  "stage_body p c w =
     (case fs_write p c w of (Inl e, w) \<Rightarrow> (Inl e, w) | (Inr _, w) \<Rightarrow>
      (case fs_handle w of (Inl e, w) \<Rightarrow> (Inl e, w) | (Inr _, w) \<Rightarrow>
       (case fs_handle w of (Inl e, w) \<Rightarrow> (Inl e, w) | (Inr _, w) \<Rightarrow> fs_handle w)))"

definition stageWorkspaceFile ::
  "environment \<Rightarrow> prepared_file \<Rightarrow> world \<Rightarrow> (ws_error + staged_file) \<times> world" where
  "stageWorkspaceFile env u w =
     (let (staged, w) = siblingTemporaryPath env (pf_write u) ''staged'' w;
          (backup, w) = siblingTemporaryPath env (pf_write u) ''backup'' w in
      case fs_stat (pf_write u) w of (Inl e, w) \<Rightarrow> (Inl (Io_failure e), w) | (Inr _, w) \<Rightarrow>
      (case fs_open_new staged w of (Inl e, w) \<Rightarrow> (Inl (Io_failure e), w) | (Inr _, w) \<Rightarrow>
       (case stage_body staged (pf_updated u) w of
          (Inl e, w) \<Rightarrow>
            let (_, w) = fs_handle w; (_, w) = fs_rm_force staged w in (Inl (Io_failure e), w)
        | (Inr _, w) \<Rightarrow>
            (Inr \<lparr>pf_absolute = pf_absolute u, pf_write = pf_write u, pf_content = pf_content u,
                  pf_updated = pf_updated u, pf_edits = pf_edits u,
                  sf_staged = staged, sf_backup = backup\<rparr>, w))))"

text \<open>The staging loop: what was staged so far, and the error that ended it, if one did.\<close>

fun stage_all ::
  "environment \<Rightarrow> prepared_file list \<Rightarrow> staged_file list \<Rightarrow> world \<Rightarrow>
   staged_file list \<times> ws_error option \<times> world" where
  "stage_all env [] staged w = (staged, None, w)"
| "stage_all env (u # us) staged w =
     (case stageWorkspaceFile env u w of
        (Inl e, w) \<Rightarrow> (staged, Some e, w)
      | (Inr s, w) \<Rightarrow> stage_all env us (staged @ [s]) w)"

fun read_all :: "staged_file list \<Rightarrow> world \<Rightarrow> (io_error + jstext list) \<times> world" where
  "read_all [] w = (Inr [], w)"
| "read_all (s # ss) w =
     (case fs_read (pf_write s) w of
        (Inl e, w) \<Rightarrow> (Inl e, w)
      | (Inr c, w) \<Rightarrow>
          (case read_all ss w of (Inl e, w) \<Rightarrow> (Inl e, w) | (Inr cs, w) \<Rightarrow> (Inr (c # cs), w)))"

fun first_changed :: "(jstext \<times> staged_file) list \<Rightarrow> ws_error option" where
  "first_changed [] = None"
| "first_changed ((c, s) # xs) =
     (if c \<noteq> pf_content s then Some (Changed_while_staged (pf_absolute s)) else first_changed xs)"

text \<open>\<open>Promise.allSettled\<close> over forced removals: failures are ignored.\<close>

fun rm_all :: "fspath list \<Rightarrow> world \<Rightarrow> world" where
  "rm_all [] w = w"
| "rm_all (p # ps) w = rm_all ps (snd (fs_rm_force p w))"

section \<open>Commit and rollback\<close>

fun commit_loop ::
  "staged_file list \<Rightarrow> staged_file list \<Rightarrow> world \<Rightarrow>
   (io_error + unit) \<times> staged_file list \<times> world" where
  "commit_loop [] backedUp w = (Inr (), backedUp, w)"
| "commit_loop (u # us) backedUp w =
     (case fs_rename (pf_write u) (sf_backup u) w of
        (Inl e, w) \<Rightarrow> (Inl e, backedUp, w)
      | (Inr _, w) \<Rightarrow>
          (case fs_rename (sf_staged u) (pf_write u) w of
             (Inl e, w) \<Rightarrow> (Inl e, backedUp @ [u], w)
           | (Inr _, w) \<Rightarrow> commit_loop us (backedUp @ [u]) w))"

text \<open>The rollback of one file, and of all of them; the flag says that one was rejected.\<close>

definition restore_one :: "staged_file \<Rightarrow> world \<Rightarrow> bool \<times> world" where
  "restore_one u w =
     (case fs_rm_force (pf_write u) w of
        (Inl e, w) \<Rightarrow> (True, w)
      | (Inr _, w) \<Rightarrow>
          (case fs_rename (sf_backup u) (pf_write u) w of
             (Inl e, w) \<Rightarrow> (True, w) | (Inr _, w) \<Rightarrow> (False, w)))"

fun rollback :: "staged_file list \<Rightarrow> world \<Rightarrow> bool \<times> world" where
  "rollback [] w = (False, w)"
| "rollback (u # us) w =
     (let (bad, w) = restore_one u w; (bads, w) = rollback us w in (bad \<or> bads, w))"

definition commit_phase :: "staged_file list \<Rightarrow> world \<Rightarrow> (ws_error + unit) \<times> world" where
  "commit_phase staged w =
     (case commit_loop staged [] w of
        (Inl e, backedUp, w) \<Rightarrow>
          let (incomplete, w) = rollback (rev backedUp) w;
              w = rm_all (map sf_staged staged) w in
          (Inl (if incomplete then Rollback_incomplete else Io_failure e), w)
      | (Inr _, backedUp, w) \<Rightarrow> (Inr (), rm_all (map sf_backup backedUp) w))"

definition replaceWorkspaceFiles ::
  "environment \<Rightarrow> prepared_file list \<Rightarrow> world \<Rightarrow> (ws_error + unit) \<times> world" where
  "replaceWorkspaceFiles env updates w =
     (case stage_all env updates [] w of
        (staged, Some e, w) \<Rightarrow> (Inl e, rm_all (map sf_staged staged) w)
      | (staged, None, w) \<Rightarrow>
          (case read_all staged w of
             (Inl e, w) \<Rightarrow> (Inl (Io_failure e), rm_all (map sf_staged staged) w)
           | (Inr currentContents, w) \<Rightarrow>
               (case first_changed (zip currentContents staged) of
                  Some e \<Rightarrow> (Inl e, rm_all (map sf_staged staged) w)
                | None \<Rightarrow> commit_phase staged w)))"

section \<open>The whole operation\<close>

fun read_sources ::
  "apply_options \<Rightarrow> authorized_file list \<Rightarrow> world \<Rightarrow>
   (ws_error + (authorized_file \<times> jstext) list) \<times> world" where
  "read_sources opts [] w = (Inr [], w)"
| "read_sources opts (f # fs) w =
     (case fs_read (au_write f) w of
        (Inl e, w) \<Rightarrow> (Inl (Io_failure e), w)
      | (Inr content, w) \<Rightarrow>
          let path = fe_path (au_file f);
              snapshot = (case (case au_snapshot f of None \<Rightarrow> None | Some g \<Rightarrow> g path) of
                            Some s \<Rightarrow> Some s
                          | None \<Rightarrow> (case get_snapshot opts of None \<Rightarrow> None | Some g \<Rightarrow> g path));
              checked = (case fe_version (au_file f) of
                  V_number n \<Rightarrow>
                    (case snapshot of
                       None \<Rightarrow> Inl (Version_mismatch path)
                     | Some s \<Rightarrow>
                         if snap_version s \<noteq> n then Inl (Version_mismatch path)
                         else if snap_content s \<noteq> content then Inl (Changed_after_edit path)
                         else Inr ())
                | _ \<Rightarrow> Inr ())
          in case checked of
               Inl e \<Rightarrow> (Inl e, w)
             | Inr _ \<Rightarrow>
                 (case read_sources opts fs w of
                    (Inl e, w) \<Rightarrow> (Inl e, w)
                  | (Inr rest, w) \<Rightarrow> (Inr ((f, content) # rest), w)))"

definition prepare_file :: "authorized_file \<times> jstext \<Rightarrow> ws_error + prepared_file" where
  "prepare_file = (\<lambda>(f, content).
     case applyTextEdits content (fe_edits (au_file f)) of
       Inl e \<Rightarrow> Inl (Text_edit (fe_path (au_file f)) e)
     | Inr updated \<Rightarrow>
         Inr \<lparr>pf_absolute = fe_path (au_file f), pf_write = au_write f, pf_content = content,
              pf_updated = updated, pf_edits = length (fe_edits (au_file f))\<rparr>)"

record applied_edit =
  applied_files :: "(string \<times> nat) list"
  total_edits :: nat

text \<open>The \<open>try\<close> block up to the replacement: what is to be written, or the first error.\<close>

definition prepareWorkspaceEdit ::
  "environment \<Rightarrow> apply_options \<Rightarrow> jsval \<Rightarrow> world \<Rightarrow> (ws_error + prepared_file list) \<times> world" where
  "prepareWorkspaceEdit env opts v w =
     (case try_bind (parseWorkspaceEdit (env_url env) v) (authorizeWorkspaceTargets env opts) of
        Inl e \<Rightarrow> (Inl e, w)
      | Inr authorized \<Rightarrow>
          (case read_sources opts authorized w of
             (Inl e, w) \<Rightarrow> (Inl e, w)
           | (Inr sources, w) \<Rightarrow>
               (if \<not> distinct (map (\<lambda>(f, _). au_write f) sources) then Inl Duplicate_target
                else map_try prepare_file sources, w)))"

definition applyWorkspaceEdit ::
  "environment \<Rightarrow> apply_options \<Rightarrow> jsval \<Rightarrow> world \<Rightarrow> (ws_error + applied_edit) \<times> world" where
  "applyWorkspaceEdit env opts v w =
     (case prepareWorkspaceEdit env opts v w of
        (Inl e, w) \<Rightarrow> (Inl e, w)
      | (Inr updates, w) \<Rightarrow>
          (case replaceWorkspaceFiles env updates w of
             (Inl e, w) \<Rightarrow> (Inl e, w)
           | (Inr _, w) \<Rightarrow>
               (Inr \<lparr>applied_files = map (\<lambda>u. (pf_absolute u, pf_edits u)) updates,
                     total_edits = sum_list (map pf_edits updates)\<rparr>, w)))"

section \<open>Paths an operation touches\<close>

definition sf_paths :: "staged_file \<Rightarrow> fspath list" where
  "sf_paths s = [pf_write s, sf_staged s, sf_backup s]"

definition separate :: "staged_file list \<Rightarrow> bool" where
  "separate ss = distinct (concat (map sf_paths ss))"

definition touched :: "staged_file list \<Rightarrow> fspath set" where
  "touched ss = set (concat (map sf_paths ss))"

definition apart :: "staged_file \<Rightarrow> staged_file list \<Rightarrow> bool" where
  "apart s ss = (\<forall>t\<in>set ss. \<forall>p\<in>set (sf_paths s). p \<notin> set (sf_paths t))"

lemma touched_simps [simp]:
  "touched [] = {}"
  "touched (s # ss) = insert (pf_write s) (insert (sf_staged s) (insert (sf_backup s) (touched ss)))"
  by (simp_all add: touched_def sf_paths_def)

lemma separate_Nil [simp]: "separate []"
  by (simp add: separate_def)

lemma separate_Cons:
  "separate (s # ss) \<longleftrightarrow> distinct (sf_paths s) \<and> apart s ss \<and> separate ss"
  by (auto simp: separate_def apart_def)

lemma apart_touched:
  "apart s ss \<Longrightarrow> pf_write s \<notin> touched ss \<and> sf_staged s \<notin> touched ss \<and> sf_backup s \<notin> touched ss"
  by (auto simp: apart_def touched_def sf_paths_def)

lemma apart_member:
  assumes "apart s ss" and "t \<in> set ss"
  shows "pf_write t \<notin> set (sf_paths s)" "sf_staged t \<notin> set (sf_paths s)"
    "sf_backup t \<notin> set (sf_paths s)"
  using assms by (auto simp: apart_def sf_paths_def)

lemma sf_paths_distinct:
  "distinct (sf_paths s) \<longleftrightarrow>
   pf_write s \<noteq> sf_staged s \<and> pf_write s \<noteq> sf_backup s \<and> sf_staged s \<noteq> sf_backup s"
  by (auto simp: sf_paths_def)

lemma sf_paths_member: "p \<in> set (sf_paths s) \<longleftrightarrow> p = pf_write s \<or> p = sf_staged s \<or> p = sf_backup s"
  by (simp add: sf_paths_def)

lemma rm_all_frame: "p \<notin> set ps \<Longrightarrow> files (rm_all ps w) p = files w p"
proof (induction ps arbitrary: w)
  case (Cons q ps)
  then show ?case
    using fs.rm_frame [of q w "fst (fs_rm_force q w)" "snd (fs_rm_force q w)" p] by simp
qed simp

section \<open>The commit loop\<close>

lemma commit_loop_frame:
  "commit_loop us bu w = (r, bu', w') \<Longrightarrow> p \<notin> touched us \<Longrightarrow> files w' p = files w p"
proof (induction us arbitrary: bu w)
  case (Cons u us)
  then show ?case
    by (auto split: prod.splits sum.splits dest!: fs.ren_frame [where p = p])
qed simp

text \<open>The two renames of one file: its path holds the new content, its backup the old one.\<close>

lemma swap_in:
  assumes r1: "fs_rename (pf_write u) (sf_backup u) w = (Inr x1, w1)"
    and r2: "fs_rename (sf_staged u) (pf_write u) w1 = (r2, w2)"
    and d: "distinct (sf_paths u)"
  shows "files w (pf_write u) \<noteq> None" "files w2 (sf_backup u) = files w (pf_write u)"
    and "r2 = Inr x2 \<Longrightarrow> files w2 (pf_write u) = files w (sf_staged u)"
    and "p \<notin> set (sf_paths u) \<Longrightarrow> files w2 p = files w p"
proof -
  have ne: "pf_write u \<noteq> sf_backup u" "sf_staged u \<noteq> pf_write u" "sf_staged u \<noteq> sf_backup u"
    using d by (auto simp: sf_paths_distinct)
  show "files w (pf_write u) \<noteq> None" using fs.ren_moved [OF r1 ne(1)] by simp
  show "files w2 (sf_backup u) = files w (pf_write u)"
    using fs.ren_moved [OF r1 ne(1)] fs.ren_frame [OF r2] ne by metis
  show "files w2 (pf_write u) = files w (sf_staged u)" if "r2 = Inr x2"
    using fs.ren_moved [of _ _ w1 x2 w2] r2 that ne fs.ren_frame [OF r1] by metis
  show "files w2 p = files w p" if "p \<notin> set (sf_paths u)"
    using that fs.ren_frame [OF r1] fs.ren_frame [OF r2] by (simp add: sf_paths_member)
qed

lemma commit_loop_ok:
  "commit_loop us bu w = (Inr x, bu', w') \<Longrightarrow> separate us \<Longrightarrow>
   \<forall>u\<in>set us. files w (sf_staged u) = Some (pf_updated u) \<Longrightarrow>
   bu' = bu @ us \<and> (\<forall>u\<in>set us. files w' (pf_write u) = Some (pf_updated u))"
proof (induction us arbitrary: bu w)
  case (Cons u us)
  obtain w1 w2 where r1: "fs_rename (pf_write u) (sf_backup u) w = (Inr (), w1)"
    and r2: "fs_rename (sf_staged u) (pf_write u) w1 = (Inr (), w2)"
    and rest: "commit_loop us (bu @ [u]) w2 = (Inr x, bu', w')"
    using Cons.prems(1) by (auto split: prod.splits sum.splits)
  have sep: "separate us" "distinct (sf_paths u)" "apart u us"
    using Cons.prems(2) by (auto simp: separate_Cons)
  have "files w2 (pf_write u) = Some (pf_updated u)"
    using swap_in(3) [OF r1 r2 sep(2)] Cons.prems(3) by simp
  then have u: "files w' (pf_write u) = Some (pf_updated u)"
    using commit_loop_frame [OF rest] apart_touched [OF sep(3)] by simp
  have "\<forall>v\<in>set us. files w2 (sf_staged v) = Some (pf_updated v)"
    using Cons.prems(3) swap_in(4) [OF r1 r2 sep(2)] apart_member(2) [OF sep(3)] by simp
  then show ?case using Cons.IH [OF rest sep(1)] u by simp
qed simp

lemma commit_loop_err:
  "commit_loop us bu w = (Inl e, bu', w') \<Longrightarrow> separate us \<Longrightarrow>
   \<exists>donel restl. us = donel @ restl \<and> bu' = bu @ donel \<and>
     (\<forall>u\<in>set donel. files w (pf_write u) \<noteq> None \<and>
        files w' (sf_backup u) = files w (pf_write u)) \<and>
     (\<forall>u\<in>set restl. files w' (pf_write u) = files w (pf_write u))"
proof (induction us arbitrary: bu w)
  case (Cons u us)
  have sep: "separate us" "distinct (sf_paths u)" "apart u us"
    using Cons.prems(2) by (auto simp: separate_Cons)
  obtain r1 w1 where r1: "fs_rename (pf_write u) (sf_backup u) w = (r1, w1)" by fastforce
  show ?case
  proof (cases r1)
    case (Inl e1)
    then have "bu' = bu" "files w' = files w"
      using Cons.prems(1) r1 fs.ren_fail by auto
    then show ?thesis by (intro exI [of _ "[]"] exI [of _ "u # us"]) simp
  next
    case (Inr x1)
    obtain r2 w2 where r2: "fs_rename (sf_staged u) (pf_write u) w1 = (r2, w2)" by fastforce
    note swap = swap_in [OF r1 [unfolded Inr] r2 sep(2)]
    have frame: "files w2 (pf_write v) = files w (pf_write v)" if "v \<in> set us" for v
      using swap(4) apart_member(1) [OF sep(3) that] by simp
    show ?thesis
    proof (cases r2)
      case (Inl e2)
      then have "bu' = bu @ [u]" "w' = w2"
        using Cons.prems(1) r1 r2 \<open>r1 = Inr x1\<close> by auto
      then show ?thesis
        using swap(1,2) frame by (intro exI [of _ "[u]"] exI [of _ us]) simp
    next
      case (Inr x2)
      then have rest: "commit_loop us (bu @ [u]) w2 = (Inl e, bu', w')"
        using Cons.prems(1) r1 r2 \<open>r1 = Inr x1\<close> by simp
      obtain donel restl where ba: "us = donel @ restl" "bu' = (bu @ [u]) @ donel"
        "\<forall>u\<in>set donel. files w2 (pf_write u) \<noteq> None \<and>
           files w' (sf_backup u) = files w2 (pf_write u)"
        "\<forall>u\<in>set restl. files w' (pf_write u) = files w2 (pf_write u)"
        using Cons.IH [OF rest sep(1)] by blast
      have "files w' (sf_backup u) = files w (pf_write u)"
        using commit_loop_frame [OF rest] apart_touched [OF sep(3)] swap(2) by simp
      then show ?thesis
        using ba swap(1) frame by (intro exI [of _ "u # donel"] exI [of _ restl]) auto
    qed
  qed
qed simp

section \<open>Rollback\<close>

lemma restore_one_props:
  assumes "restore_one u w = (bad, w')" and "pf_write u \<noteq> sf_backup u"
  shows "p \<noteq> pf_write u \<Longrightarrow> p \<noteq> sf_backup u \<Longrightarrow> files w' p = files w p"
    and "files w (sf_backup u) = Some c \<Longrightarrow>
      (\<not> bad \<longrightarrow> files w' (pf_write u) = Some c) \<and>
      (files w' (pf_write u) = Some c \<or> files w' (sf_backup u) = Some c)"
  using assms
  by (auto simp: restore_one_def split: prod.splits sum.splits
      dest!: fs.rm_fail fs.rm_ok fs.ren_fail fs.ren_ok)

lemma rollback_props:
  "rollback us w = (bad, w') \<Longrightarrow> separate us \<Longrightarrow>
   (\<forall>p. p \<notin> touched us \<longrightarrow> files w' p = files w p) \<and>
   (\<forall>u\<in>set us. \<forall>c. files w (sf_backup u) = Some c \<longrightarrow>
      (\<not> bad \<longrightarrow> files w' (pf_write u) = Some c) \<and>
      (files w' (pf_write u) = Some c \<or> files w' (sf_backup u) = Some c))"
proof (induction us arbitrary: w bad)
  case (Cons u us)
  have sep: "separate us" "distinct (sf_paths u)" "apart u us"
    using Cons.prems(2) by (auto simp: separate_Cons)
  obtain b1 w1 b2 where r: "restore_one u w = (b1, w1)" "rollback us w1 = (b2, w')"
    "bad = (b1 \<or> b2)"
    using Cons.prems(1) by (auto simp: Let_def split: prod.splits)
  have ne: "pf_write u \<noteq> sf_backup u" using sep(2) by (simp add: sf_paths_distinct)
  note one = restore_one_props [OF r(1) ne]
  note IH = Cons.IH [OF r(2) sep(1)]
  have out: "files w' (pf_write u) = files w1 (pf_write u)"
    "files w' (sf_backup u) = files w1 (sf_backup u)"
    using IH apart_touched [OF sep(3)] by auto
  have inn: "files w1 (sf_backup v) = files w (sf_backup v)" if "v \<in> set us" for v
    using one(1) apart_member(3) [OF sep(3) that] by (simp add: sf_paths_member)
  show ?case
  proof (intro conjI ballI allI impI)
    fix p assume "p \<notin> touched (u # us)"
    then show "files w' p = files w p" using IH one(1) by simp
  next
    fix v c assume v: "v \<in> set (u # us)" and c: "files w (sf_backup v) = Some c"
    show "files w' (pf_write v) = Some c" if "\<not> bad"
      using v c that IH one(2) out inn r(3) by auto
    show "files w' (pf_write v) = Some c \<or> files w' (sf_backup v) = Some c"
      using v c IH one(2) out inn by auto
  qed
qed simp


section \<open>The commit phase: all or none, nothing lost\<close>

lemma separate_rev: "separate us \<Longrightarrow> separate (rev us)"
proof -
  have "mset (concat (map sf_paths (rev us))) = mset (concat (map sf_paths us))"
    by (simp add: mset_concat flip: rev_map)
  then show "separate us \<Longrightarrow> separate (rev us)"
    unfolding separate_def by (metis mset_eq_imp_distinct_iff)
qed

lemma separate_append: "separate (us @ vs) \<Longrightarrow> separate us \<and> separate vs \<and> touched us \<inter> touched vs = {}"
  by (auto simp: separate_def touched_def)

lemma touched_append [simp]: "touched (us @ vs) = touched us \<union> touched vs"
  by (simp add: touched_def)

lemma touched_rev [simp]: "touched (rev us) = touched us"
  by (simp add: touched_def rev_map)

lemma sf_in_touched:
  "u \<in> set us \<Longrightarrow> pf_write u \<in> touched us \<and> sf_staged u \<in> touched us \<and> sf_backup u \<in> touched us"
  by (auto simp: touched_def sf_paths_def)

lemma write_not_staged:
  "separate us \<Longrightarrow> u \<in> set us \<Longrightarrow>
   pf_write u \<notin> set (map sf_staged us) \<and> pf_write u \<notin> set (map sf_backup us) \<and>
   sf_backup u \<notin> set (map sf_staged us)"
proof (induction us)
  case (Cons v us)
  then have sep: "separate us" "distinct (sf_paths v)" "apart v us"
    by (auto simp: separate_Cons)
  show ?case
  proof (cases "u = v")
    case True
    then show ?thesis
      using sep(2,3) by (auto simp: apart_def sf_paths_def)
  next
    case False
    then have u: "u \<in> set us" using Cons.prems(2) by simp
    then show ?thesis
      using Cons.IH [OF sep(1)] apart_member [OF sep(3) u] by (auto simp: sf_paths_member)
  qed
qed simp

lemma commit_phase_ok:
  assumes "commit_phase staged w = (Inr x, w')" and sep: "separate staged"
    and st: "\<forall>u\<in>set staged. files w (sf_staged u) = Some (pf_updated u)"
  shows "\<forall>u\<in>set staged. files w' (pf_write u) = Some (pf_updated u)"
    and "p \<notin> touched staged \<Longrightarrow> files w' p = files w p"
proof -
  obtain y bu w1 where loop: "commit_loop staged [] w = (Inr y, bu, w1)"
    and w': "w' = rm_all (map sf_backup bu) w1"
    using assms(1) by (auto simp: commit_phase_def Let_def split: prod.splits sum.splits)
  have bu: "bu = staged" and new: "\<forall>u\<in>set staged. files w1 (pf_write u) = Some (pf_updated u)"
    using commit_loop_ok [OF loop sep st] by auto
  show "\<forall>u\<in>set staged. files w' (pf_write u) = Some (pf_updated u)"
    using new write_not_staged [OF sep] by (simp add: w' bu rm_all_frame)
  show "files w' p = files w p" if "p \<notin> touched staged"
  proof -
    have "p \<notin> set (map sf_backup staged)" using that sf_in_touched by auto
    then show ?thesis
      using commit_loop_frame [OF loop that] by (simp add: w' bu rm_all_frame)
  qed
qed

lemma commit_phase_err:
  assumes "commit_phase staged w = (Inl e, w')" and sep: "separate staged"
  shows "e \<noteq> Rollback_incomplete \<Longrightarrow> u \<in> set staged \<Longrightarrow> files w' (pf_write u) = files w (pf_write u)"
    and "u \<in> set staged \<Longrightarrow>
      files w' (pf_write u) = files w (pf_write u) \<or> files w' (sf_backup u) = files w (pf_write u)"
    and "p \<notin> touched staged \<Longrightarrow> files w' p = files w p"
proof -
  obtain e1 bu w1 bad w2 where loop: "commit_loop staged [] w = (Inl e1, bu, w1)"
    and rb: "rollback (rev bu) w1 = (bad, w2)"
    and w': "w' = rm_all (map sf_staged staged) w2"
    and e: "e = (if bad then Rollback_incomplete else Io_failure e1)"
    using assms(1) by (auto simp: commit_phase_def Let_def split: prod.splits sum.splits)
  obtain donel restl where ba: "staged = donel @ restl" "bu = donel"
    "\<forall>u\<in>set donel. files w (pf_write u) \<noteq> None \<and> files w1 (sf_backup u) = files w (pf_write u)"
    "\<forall>u\<in>set restl. files w1 (pf_write u) = files w (pf_write u)"
    using commit_loop_err [OF loop sep] by auto
  have sep': "separate (rev donel)" "touched donel \<inter> touched restl = {}"
    using separate_append [of donel restl] sep separate_rev [of donel] ba(1) by simp_all
  have "rollback (rev donel) w1 = (bad, w2)" using rb ba(2) by simp
  note undo = rollback_props [OF this sep'(1), unfolded set_rev touched_rev]
  have st: "files w' q = files w2 q" if "q \<notin> set (map sf_staged staged)" for q
    using that by (simp add: w' rm_all_frame)
  have keep: "files w' (pf_write u) = files w2 (pf_write u)"
    "files w' (sf_backup u) = files w2 (sf_backup u)" if "u \<in> set staged" for u
    using st write_not_staged [OF sep that] by auto
  have restl: "files w2 (pf_write u) = files w (pf_write u)" if "u \<in> set restl" for u
    using undo ba(4) that sf_in_touched [OF that] sep'(2) by fastforce
  have donel: "(\<not> bad \<longrightarrow> files w2 (pf_write u) = files w (pf_write u)) \<and>
      (files w2 (pf_write u) = files w (pf_write u) \<or> files w2 (sf_backup u) = files w (pf_write u))"
    if "u \<in> set donel" for u
  proof -
    obtain c where "files w (pf_write u) = Some c" "files w1 (sf_backup u) = Some c"
      using ba(3) \<open>u \<in> set donel\<close> by fastforce
    then show ?thesis using undo \<open>u \<in> set donel\<close> by auto
  qed
  show "files w' (pf_write u) = files w (pf_write u)"
    if "e \<noteq> Rollback_incomplete" "u \<in> set staged"
    using that keep [OF that(2)] donel restl e ba(1) by (auto split: if_splits)
  show "files w' (pf_write u) = files w (pf_write u) \<or> files w' (sf_backup u) = files w (pf_write u)"
    if "u \<in> set staged"
    using that keep [OF that] donel restl ba(1) by auto
  show "files w' p = files w p" if "p \<notin> touched staged"
  proof -
    have "p \<notin> set (map sf_staged staged)" using that sf_in_touched by auto
    then show ?thesis
      using st undo commit_loop_frame [OF loop that] that ba(1) by auto
  qed
qed

section \<open>Staging\<close>

text \<open>The temporary names an operation draws, from the \<open>n\<close>-th random identifier on.\<close>

fun temporary_names :: "environment \<Rightarrow> (nat \<Rightarrow> string) \<Rightarrow> nat \<Rightarrow> prepared_file list \<Rightarrow> fspath list" where
  "temporary_names env ids n [] = []"
| "temporary_names env ids n (u # us) =
     temporary_name env (pf_write u) ''staged'' (ids n)
     # temporary_name env (pf_write u) ''backup'' (ids (Suc n))
     # temporary_names env ids (Suc (Suc n)) us"

lemma fs_uuid_keeps [simp]:
  "uuid (snd (fs_stat p w)) = uuid w" "uuids_used (snd (fs_stat p w)) = uuids_used w"
  "uuid (snd (fs_open_new p w)) = uuid w" "uuids_used (snd (fs_open_new p w)) = uuids_used w"
  "uuid (snd (fs_write p c w)) = uuid w" "uuids_used (snd (fs_write p c w)) = uuids_used w"
  "uuid (snd (fs_handle w)) = uuid w" "uuids_used (snd (fs_handle w)) = uuids_used w"
  by (simp_all add: fs_defs)

lemma fs_files_keeps:
  "files (snd (fs_stat p w)) = files w"
  "files (snd (fs_handle w)) = files w"
  "files (snd (fs_read p w)) = files w"
  by (simp_all add: fs_defs)

lemma stage_body_props:
  assumes "stage_body p c w = (r, w')"
  shows "uuid w' = uuid w \<and> uuids_used w' = uuids_used w"
    and "q \<noteq> p \<Longrightarrow> files w' q = files w q"
    and "r = Inr () \<Longrightarrow> files w' p = Some c"
  using assms by (auto simp: stage_body_def fs_defs split: if_splits)

lemma stageWorkspaceFile_props:
  assumes "stageWorkspaceFile env u w = (r, w')"
  defines "s \<equiv> temporary_name env (pf_write u) ''staged'' (uuid w (uuids_used w))"
    and "b \<equiv> temporary_name env (pf_write u) ''backup'' (uuid w (Suc (uuids_used w)))"
  shows "q \<noteq> s \<Longrightarrow> files w' q = files w q"
    and "r = Inr t \<Longrightarrow> uuid w' = uuid w \<and> uuids_used w' = Suc (Suc (uuids_used w)) \<and>
      sf_staged t = s \<and> sf_backup t = b \<and> files w' s = Some (pf_updated u) \<and>
      prepared_file.truncate t = u"
proof -
  let ?w = "w\<lparr>uuids_used := Suc (Suc (uuids_used w))\<rparr>"
  have names: "siblingTemporaryPath env (pf_write u) ''staged'' w = (s, w\<lparr>uuids_used := Suc (uuids_used w)\<rparr>)"
    "siblingTemporaryPath env (pf_write u) ''backup'' (w\<lparr>uuids_used := Suc (uuids_used w)\<rparr>) = (b, ?w)"
    by (simp_all add: siblingTemporaryPath_def fs_uuid_def s_def b_def)
  have eq: "stageWorkspaceFile env u w =
     (case fs_stat (pf_write u) ?w of (Inl e, w) \<Rightarrow> (Inl (Io_failure e), w) | (Inr _, w) \<Rightarrow>
      (case fs_open_new s w of (Inl e, w) \<Rightarrow> (Inl (Io_failure e), w) | (Inr _, w) \<Rightarrow>
       (case stage_body s (pf_updated u) w of
          (Inl e, w) \<Rightarrow>
            let (_, w) = fs_handle w; (_, w) = fs_rm_force s w in (Inl (Io_failure e), w)
        | (Inr _, w) \<Rightarrow>
            (Inr \<lparr>pf_absolute = pf_absolute u, pf_write = pf_write u, pf_content = pf_content u,
                  pf_updated = pf_updated u, pf_edits = pf_edits u,
                  sf_staged = s, sf_backup = b\<rparr>, w))))"
    by (simp add: stageWorkspaceFile_def names)
  obtain r1 w1 where st: "fs_stat (pf_write u) ?w = (r1, w1)" by fastforce
  obtain r2 w2 where op: "fs_open_new s w1 = (r2, w2)" by fastforce
  obtain r3 w3 where bd: "stage_body s (pf_updated u) w2 = (r3, w3)" by fastforce
  have w1: "files w1 = files w" "uuid w1 = uuid w" "uuids_used w1 = Suc (Suc (uuids_used w))"
    using st by (auto simp: fs_stat_def)
  have w2: "q \<noteq> s \<Longrightarrow> files w2 q = files w1 q" "uuid w2 = uuid w1" "uuids_used w2 = uuids_used w1" for q
    using op by (auto simp: fs_open_new_def split: if_splits)
  note w3 = stage_body_props [OF bd]
  show "files w' q = files w q" if "q \<noteq> s"
    using assms(1) that w1 w2(1) w3(2)
    by (auto simp: eq st op bd fs_handle_def Let_def split: sum.splits prod.splits
        dest!: fs.rm_frame [where p = q])
  show "uuid w' = uuid w \<and> uuids_used w' = Suc (Suc (uuids_used w)) \<and>
      sf_staged t = s \<and> sf_backup t = b \<and> files w' s = Some (pf_updated u) \<and>
      prepared_file.truncate t = u" if "r = Inr t"
    using assms(1) that w1 w2 w3
    by (auto simp: eq st op bd Let_def prepared_file.truncate_def split: sum.splits prod.splits)
qed


lemma truncate_sel [simp]:
  "pf_write (prepared_file.truncate t) = pf_write t"
  "pf_content (prepared_file.truncate t) = pf_content t"
  "pf_updated (prepared_file.truncate t) = pf_updated t"
  by (simp_all add: prepared_file.truncate_def)

lemma stage_all_props:
  "stage_all env us staged0 w = (staged, err, w') \<Longrightarrow> distinct (temporary_names env (uuid w) (uuids_used w) us) \<Longrightarrow>
   \<exists>new. staged = staged0 @ new \<and>
     set (concat (map (\<lambda>t. [sf_staged t, sf_backup t]) new))
       \<subseteq> set (temporary_names env (uuid w) (uuids_used w) us) \<and>
     (\<forall>q. q \<notin> set (temporary_names env (uuid w) (uuids_used w) us) \<longrightarrow> files w' q = files w q) \<and>
     (err = None \<longrightarrow> map prepared_file.truncate new = us \<and>
        concat (map (\<lambda>t. [sf_staged t, sf_backup t]) new)
          = temporary_names env (uuid w) (uuids_used w) us \<and>
        (\<forall>t\<in>set new. files w' (sf_staged t) = Some (pf_updated t)))"
proof (induction us arbitrary: staged0 w)
  case (Cons u us)
  let ?s = "temporary_name env (pf_write u) ''staged'' (uuid w (uuids_used w))"
  let ?b = "temporary_name env (pf_write u) ''backup'' (uuid w (Suc (uuids_used w)))"
  obtain r w1 where one: "stageWorkspaceFile env u w = (r, w1)" by fastforce
  note props = stageWorkspaceFile_props [OF one]
  show ?case
  proof (cases r)
    case (Inl e)
    then have "staged = staged0" "err = Some e" "w' = w1" using Cons.prems(1) one by auto
    then show ?thesis using props(1) by (intro exI [of _ "[]"]) auto
  next
    case (Inr t)
    note t = props(2) [OF Inr]
    let ?names = "temporary_names env (uuid w1) (uuids_used w1) us"
    have names: "temporary_names env (uuid w) (uuids_used w) (u # us) = ?s # ?b # ?names"
      using t by simp
    have rest: "stage_all env us (staged0 @ [t]) w1 = (staged, err, w')"
      using Cons.prems(1) one Inr by simp
    have d: "distinct ?names" "?s \<notin> set ?names" using Cons.prems(2) names by auto
    obtain new where new: "staged = (staged0 @ [t]) @ new"
      "set (concat (map (\<lambda>t. [sf_staged t, sf_backup t]) new)) \<subseteq> set ?names"
      "\<forall>q. q \<notin> set ?names \<longrightarrow> files w' q = files w1 q"
      "err = None \<longrightarrow> map prepared_file.truncate new = us \<and>
        concat (map (\<lambda>t. [sf_staged t, sf_backup t]) new) = ?names \<and>
        (\<forall>t\<in>set new. files w' (sf_staged t) = Some (pf_updated t))"
      using Cons.IH [OF rest d(1)] by (elim exE conjE) (rule that; assumption)
    have tu: "pf_updated t = pf_updated u" "sf_staged t = ?s" "sf_backup t = ?b"
      using t truncate_sel(3) [of t] by simp_all
    have "files w' (sf_staged t) = Some (pf_updated t)"
      using new(3) d(2) t tu by simp
    then have "err = None \<longrightarrow> map prepared_file.truncate (t # new) = u # us \<and>
        concat (map (\<lambda>t. [sf_staged t, sf_backup t]) (t # new)) = ?s # ?b # ?names \<and>
        (\<forall>t\<in>set (t # new). files w' (sf_staged t) = Some (pf_updated t))"
      using new(4) t tu by auto
    moreover have "\<forall>q. q \<notin> set (?s # ?b # ?names) \<longrightarrow> files w' q = files w q"
      using new(3) props(1) by simp
    moreover have "set (concat (map (\<lambda>t. [sf_staged t, sf_backup t]) (t # new))) \<subseteq> set (?s # ?b # ?names)"
      using new(2) tu by auto
    moreover have "staged = staged0 @ t # new" using new(1) by simp
    ultimately show ?thesis
      unfolding names by - (rule exI [of _ "t # new"], intro conjI; assumption)
  qed
qed simp

lemma stage_all_error:
  "stage_all env us staged0 w = (staged, err, w') \<Longrightarrow> err \<noteq> Some Rollback_incomplete"
proof (induction us arbitrary: staged0 w)
  case (Cons u us)
  obtain r w1 where one: "stageWorkspaceFile env u w = (r, w1)" by fastforce
  then have "r \<noteq> Inl Rollback_incomplete"
    by (auto simp: stageWorkspaceFile_def Let_def split: prod.splits sum.splits)
  then show ?case using Cons one by (auto split: sum.splits)
qed simp

lemma read_all_props:
  "read_all ss w = (r, w') \<Longrightarrow> files w' = files w \<and>
   (\<forall>cs. r = Inr cs \<longrightarrow> length cs = length ss \<and> (\<forall>i<length ss. files w (pf_write (ss ! i)) = Some (cs ! i)))"
proof (induction ss arbitrary: w r w')
  case (Cons s ss)
  obtain r1 w1 where r1: "fs_read (pf_write s) w = (r1, w1)" by fastforce
  have w1: "files w1 = files w" "r1 = Inr c \<Longrightarrow> files w (pf_write s) = Some c" for c
    using r1 by (auto simp: fs_read_def split: if_splits option.splits)
  show ?case
  proof (cases r1)
    case (Inl e)
    then show ?thesis using Cons.prems r1 w1 by auto
  next
    case (Inr c)
    obtain r2 w2 where r2: "read_all ss w1 = (r2, w2)" by fastforce
    then show ?thesis
      using Cons.prems r1 w1 Inr Cons.IH [OF r2]
      by (auto simp: nth_Cons split: sum.splits nat.splits)
  qed
qed simp

lemma first_changed_None: "first_changed xs = None \<longleftrightarrow> (\<forall>(c, s)\<in>set xs. c = pf_content s)"
  by (induction xs rule: first_changed.induct) auto

lemma separate_by_names:
  assumes "distinct (map pf_write ss @ concat (map (\<lambda>t. [sf_staged t, sf_backup t]) ss))"
  shows "separate ss"
proof -
  have "mset (concat (map sf_paths ss))
      = mset (map pf_write ss @ concat (map (\<lambda>t. [sf_staged t, sf_backup t]) ss))"
    by (induction ss) (simp_all add: sf_paths_def)
  from mset_eq_imp_distinct_iff [OF this] assms show ?thesis
    unfolding separate_def by (rule iffD2)
qed

text \<open>
  What the caller sees of \<open>replaceWorkspaceFiles\<close>. The hypothesis on names is what
  \<open>randomUUID\<close> provides: the temporary names are distinct and none is a target.
\<close>

definition fresh_names :: "environment \<Rightarrow> prepared_file list \<Rightarrow> world \<Rightarrow> bool" where
  "fresh_names env updates w =
     distinct (map pf_write updates @ temporary_names env (uuid w) (uuids_used w) updates)"

lemma map_truncate_write: "map prepared_file.truncate ss = us \<Longrightarrow> map pf_write ss = map pf_write us"
  by (auto simp: o_def)

lemma first_changed_error: "first_changed xs \<noteq> Some Rollback_incomplete"
  by (induction xs rule: first_changed.induct) auto

text \<open>
  A run either ends before the commit phase, having touched temporary names only, or enters
  it with every file staged and every target still holding the content that was edited.
\<close>

definition ended_early :: "prepared_file list \<Rightarrow> fspath list \<Rightarrow> world \<Rightarrow> ws_error + unit \<Rightarrow> world \<Rightarrow> bool" where
  "ended_early updates names w r w' \<longleftrightarrow>
     (\<exists>e. r = Inl e \<and> e \<noteq> Rollback_incomplete) \<and> (\<forall>q. q \<notin> set names \<longrightarrow> files w' q = files w q)"

definition ready_to_commit ::
  "prepared_file list \<Rightarrow> fspath list \<Rightarrow> world \<Rightarrow> staged_file list \<Rightarrow> world \<Rightarrow> bool" where
  "ready_to_commit updates names w staged v \<longleftrightarrow>
     separate staged \<and> touched staged = set (map pf_write updates) \<union> set names \<and>
     (\<forall>q. q \<notin> set names \<longrightarrow> files v q = files w q) \<and>
     (\<forall>t\<in>set staged. files v (sf_staged t) = Some (pf_updated t)) \<and>
     (\<forall>i<length updates. \<exists>t\<in>set staged. pf_write t = pf_write (updates ! i) \<and> pf_updated t = pf_updated (updates ! i) \<and>
        sf_backup t = names ! Suc (2 * i) \<and> files v (pf_write (updates ! i)) = Some (pf_content (updates ! i)))"

text \<open>The backup name of the \<open>i\<close>-th file.\<close>

definition backup_name :: "environment \<Rightarrow> (nat \<Rightarrow> string) \<Rightarrow> nat \<Rightarrow> prepared_file list \<Rightarrow> nat \<Rightarrow> fspath" where
  "backup_name env ids n us i = temporary_name env (pf_write (us ! i)) ''backup'' (ids (Suc (n + 2 * i)))"

lemma temporary_names_backup:
  "i < length us \<Longrightarrow> temporary_names env ids n us ! Suc (2 * i) = backup_name env ids n us i"
proof (induction us arbitrary: i n)
  case (Cons u us)
  then show ?case
    by (cases i) (simp_all add: backup_name_def)
qed simp

lemma length_temporary_names [simp]: "length (temporary_names env ids n us) = 2 * length us"
  by (induction us arbitrary: n) simp_all

lemma nth_backups: "i < length ss \<Longrightarrow> concat (map (\<lambda>t. [sf_staged t, sf_backup t]) ss) ! Suc (2 * i) = sf_backup (ss ! i)"
proof (induction ss arbitrary: i)
  case (Cons s ss)
  then show ?case
    by (cases i) simp_all
qed simp

lemma read_unchanged:
  assumes rd: "read_all ss w = (Inr cs, w')" and fc: "first_changed (zip cs ss) = None"
    and t: "t \<in> set ss"
  shows "files w (pf_write t) = Some (pf_content t)"
proof -
  obtain i where i: "i < length ss" "ss ! i = t" using t by (auto simp: in_set_conv_nth)
  have c: "length cs = length ss" "files w (pf_write t) = Some (cs ! i)"
    using read_all_props [OF rd] i by auto
  then have "(cs ! i, t) \<in> set (zip cs ss)"
    using i by (metis in_set_zip fst_conv snd_conv)
  then show ?thesis using fc c by (auto simp: first_changed_None)
qed

lemma staged_ready:
  assumes tr: "map prepared_file.truncate staged = updates"
    and nm: "concat (map (\<lambda>t. [sf_staged t, sf_backup t]) staged) = names"
    and fresh: "distinct (map pf_write updates @ names)"
    and frame: "\<forall>q. q \<notin> set names \<longrightarrow> files v q = files w q"
    and st: "\<forall>t\<in>set staged. files v (sf_staged t) = Some (pf_updated t)"
    and same: "\<And>t. t \<in> set staged \<Longrightarrow> files v (pf_write t) = Some (pf_content t)"
  shows "ready_to_commit updates names w staged v"
proof -
  have sep: "separate staged"
    by (rule separate_by_names) (use fresh in \<open>simp only: nm map_truncate_write [OF tr]\<close>)
  have touch: "touched staged = set (map pf_write updates) \<union> set names"
    unfolding nm [symmetric] map_truncate_write [OF tr, symmetric]
    by (auto simp: touched_def sf_paths_def)
  have "\<exists>t\<in>set staged. pf_write t = pf_write (updates ! i) \<and> pf_updated t = pf_updated (updates ! i) \<and>
      sf_backup t = names ! Suc (2 * i) \<and> files v (pf_write (updates ! i)) = Some (pf_content (updates ! i))"
    if i: "i < length updates" for i
  proof (rule bexI [of _ "staged ! i"])
    have len: "length staged = length updates"
      using tr by (metis length_map)
    then show t: "staged ! i \<in> set staged"
      using i by simp
    have u: "prepared_file.truncate (staged ! i) = updates ! i"
      using tr i len by (metis nth_map)
    have "sf_backup (staged ! i) = names ! Suc (2 * i)"
      using nth_backups [of i staged] i len nm by simp
    then show "pf_write (staged ! i) = pf_write (updates ! i) \<and> pf_updated (staged ! i) = pf_updated (updates ! i) \<and>
      sf_backup (staged ! i) = names ! Suc (2 * i) \<and> files v (pf_write (updates ! i)) = Some (pf_content (updates ! i))"
      using same [OF t] u by (metis truncate_sel)
  qed
  with sep touch frame st show ?thesis by (simp add: ready_to_commit_def)
qed

lemma replace_cases:
  assumes run: "replaceWorkspaceFiles env updates w = (r, w')" and fresh: "fresh_names env updates w"
  defines "names \<equiv> temporary_names env (uuid w) (uuids_used w) updates"
  obtains (early) "ended_early updates names w r w'"
    | (commit) staged v where "ready_to_commit updates names w staged v" "commit_phase staged v = (r, w')"
proof -
  obtain staged err w1 where st: "stage_all env updates [] w = (staged, err, w1)"
    by (metis prod_cases3)
  have d: "distinct (temporary_names env (uuid w) (uuids_used w) updates)"
    using fresh by (simp add: fresh_names_def)
  note sp = stage_all_props [OF st d, folded names_def, simplified]
  have out: "files (rm_all (map sf_staged staged) v) q = files w q"
    if "q \<notin> set names" "files v = files w1" for q v
  proof -
    have "q \<notin> set (map sf_staged staged)" using sp that(1) by auto
    then show ?thesis using sp that by (simp add: rm_all_frame)
  qed
  obtain rr w2 where ra: "read_all staged w1 = (rr, w2)" by fastforce
  have w2: "files w2 = files w1" using read_all_props [OF ra] by simp
  note errs = stage_all_error [OF st] first_changed_error
  show ?thesis
  proof (cases "\<exists>cs. err = None \<and> rr = Inr cs \<and> first_changed (zip cs staged) = None")
    case True
    then obtain cs where cs: "err = None" "rr = Inr cs" "first_changed (zip cs staged) = None"
      by blast
    have "ready_to_commit updates names w staged w2"
    proof (rule staged_ready)
      show "distinct (map pf_write updates @ names)"
        using fresh by (simp add: fresh_names_def names_def)
      show "files w2 (pf_write t) = Some (pf_content t)" if "t \<in> set staged" for t
        using read_unchanged [OF ra [unfolded cs(2)] cs(3) that] w2 by simp
    qed (use sp cs(1) w2 in simp_all)
    moreover have "commit_phase staged w2 = (r, w')"
      using run st ra cs by (simp add: replaceWorkspaceFiles_def)
    ultimately show ?thesis by (rule commit)
  next
    case False
    have "ended_early updates names w r w'"
      using run st ra False out [of _ w1] out [of _ w2] w2 errs
      by (auto simp: replaceWorkspaceFiles_def ended_early_def split: option.splits sum.splits)
    then show ?thesis by (rule early)
  qed
qed

section \<open>What callers see of a replacement\<close>

lemma replace_success:
  assumes "replaceWorkspaceFiles env updates w = (Inr x, w')" and "fresh_names env updates w"
    and "i < length updates"
  shows "files w' (pf_write (updates ! i)) = Some (pf_updated (updates ! i))"
  using assms(1,2)
proof (cases rule: replace_cases)
  case (commit staged v)
  then show ?thesis
    using commit_phase_ok(1) [OF commit(2)] commit(1) assms(3)
    unfolding ready_to_commit_def by metis
qed (simp add: ended_early_def)

lemma replace_failure:
  assumes "replaceWorkspaceFiles env updates w = (Inl e, w')" and "fresh_names env updates w"
    and i: "i < length updates"
  shows "e \<noteq> Rollback_incomplete \<Longrightarrow> files w' (pf_write (updates ! i)) = files w (pf_write (updates ! i))"
    and "files w' (pf_write (updates ! i)) = files w (pf_write (updates ! i)) \<or>
      files w' (backup_name env (uuid w) (uuids_used w) updates i) = files w (pf_write (updates ! i))"
proof -
  let ?u = "updates ! i" and ?names = "temporary_names env (uuid w) (uuids_used w) updates"
  have n: "pf_write ?u \<notin> set ?names"
    using assms(2) nth_mem [OF i] by (auto simp: fresh_names_def)
  have "(e \<noteq> Rollback_incomplete \<longrightarrow> files w' (pf_write ?u) = files w (pf_write ?u)) \<and>
    (files w' (pf_write ?u) = files w (pf_write ?u) \<or>
      files w' (backup_name env (uuid w) (uuids_used w) updates i) = files w (pf_write ?u))"
    using assms(1,2)
  proof (cases rule: replace_cases)
    case (commit staged v)
    then obtain t where t: "t \<in> set staged" "pf_write t = pf_write ?u" "sf_backup t = ?names ! Suc (2 * i)"
      and v: "files v (pf_write ?u) = files w (pf_write ?u)" and sep: "separate staged"
      using i n unfolding ready_to_commit_def by blast
    show ?thesis
      using commit_phase_err(1) [OF commit(2) sep _ t(1)] commit_phase_err(2) [OF commit(2) sep t(1)] t v
        temporary_names_backup [OF i]
      by auto
  qed (use n in \<open>simp add: ended_early_def\<close>)
  then show "e \<noteq> Rollback_incomplete \<Longrightarrow> files w' (pf_write ?u) = files w (pf_write ?u)"
    and "files w' (pf_write ?u) = files w (pf_write ?u) \<or>
      files w' (backup_name env (uuid w) (uuids_used w) updates i) = files w (pf_write ?u)"
    by blast+
qed

lemma replace_frame:
  assumes "replaceWorkspaceFiles env updates w = (r, w')" and "fresh_names env updates w"
    and "p \<notin> set (map pf_write updates)"
    and "p \<notin> set (temporary_names env (uuid w) (uuids_used w) updates)"
  shows "files w' p = files w p"
  using assms(1,2)
proof (cases rule: replace_cases)
  case (commit staged v)
  then have "p \<notin> touched staged" "files v p = files w p" "separate staged"
    "\<forall>t\<in>set staged. files v (sf_staged t) = Some (pf_updated t)"
    using assms(3,4) by (auto simp: ready_to_commit_def)
  then show ?thesis
    using commit(2) commit_phase_ok(2) commit_phase_err(3) by (cases r) metis+
qed (use assms(4) in \<open>simp add: ended_early_def\<close>)


section \<open>The whole operation\<close>

text \<open>The files an edit is about to write, and the temporary names it will draw for them.\<close>

definition planned :: "environment \<Rightarrow> apply_options \<Rightarrow> jsval \<Rightarrow> world \<Rightarrow> prepared_file list" where
  "planned env opts v w =
     (case prepareWorkspaceEdit env opts v w of (Inr us, _) \<Rightarrow> us | (Inl _, _) \<Rightarrow> [])"

definition planned_names :: "environment \<Rightarrow> apply_options \<Rightarrow> jsval \<Rightarrow> world \<Rightarrow> fspath list" where
  "planned_names env opts v w =
     temporary_names env (uuid w) (uuids_used w) (planned env opts v w)"

definition fresh_plan :: "environment \<Rightarrow> apply_options \<Rightarrow> jsval \<Rightarrow> world \<Rightarrow> bool" where
  "fresh_plan env opts v w =
     distinct (map pf_write (planned env opts v w) @ planned_names env opts v w)"

lemma read_sources_props:
  "read_sources opts fs w = (r, w') \<Longrightarrow>
   files w' = files w \<and> uuid w' = uuid w \<and> uuids_used w' = uuids_used w \<and> r \<noteq> Inl Rollback_incomplete \<and>
   (\<forall>ss. r = Inr ss \<longrightarrow> map fst ss = fs \<and> (\<forall>(f, c)\<in>set ss. files w (au_write f) = Some c))"
proof (induction fs arbitrary: w r w')
  case (Cons f fs)
  obtain r1 w1 where r1: "fs_read (au_write f) w = (r1, w1)" by fastforce
  have w1: "files w1 = files w" "uuid w1 = uuid w" "uuids_used w1 = uuids_used w"
    and c: "r1 = Inr c \<Longrightarrow> files w (au_write f) = Some c" for c
    using r1 by (auto simp: fs_read_def split: if_splits option.splits)
  obtain r2 w2 where r2: "read_sources opts fs w1 = (r2, w2)" by fastforce
  show ?case
    using Cons.prems r1 r2 w1 c Cons.IH [OF r2]
    by (auto simp: Let_def split: sum.splits option.splits doc_version.splits if_splits)
qed simp

lemma prepare_file_Inr:
  "prepare_file fc = Inr u \<Longrightarrow>
   pf_write u = au_write (fst fc) \<and> pf_content u = snd fc \<and>
   pf_absolute u = fe_path (au_file (fst fc)) \<and> pf_edits u = length (fe_edits (au_file (fst fc))) \<and>
   applyTextEdits (snd fc) (fe_edits (au_file (fst fc))) = Inr (pf_updated u)"
  by (cases fc) (auto simp: prepare_file_def split: sum.splits)

definition inside_roots :: "environment \<Rightarrow> apply_options \<Rightarrow> fspath \<Rightarrow> bool" where
  "inside_roots env opts p \<longleftrightarrow>
     (\<exists>r\<in>set (allowed_roots opts). \<exists>real.
        env_realpath env (path_string (resolve_path (env_cwd env) r)) = Inr real \<and> pathContains real p)"

lemma io_lift_Inr [simp]: "io_lift r = Inr a \<longleftrightarrow> r = Inr a"
  by (cases r) (auto simp: io_lift_def)

lemma authorize_inside:
  assumes "authorizeWorkspaceTargets env opts fs = Inr aus" and "au \<in> set aus"
  shows "inside_roots env opts (au_write au)"
proof -
  let ?lex = "map (resolve_path (env_cwd env)) (allowed_roots opts)"
  obtain reals where reals: "map_try (\<lambda>r. io_lift (env_realpath env (path_string r))) ?lex = Inr reals"
    and aus: "map_try (authorize_one env opts ?lex reals) fs = Inr aus"
    using assms(1)
    by (auto simp: authorizeWorkspaceTargets_def Let_def try_bind_Inr_iff split: if_splits)
  obtain f where "authorize_one env opts ?lex reals f = Inr au"
    using map_try_set [OF aus assms(2)] by blast
  then obtain real where "real \<in> set reals" "pathContains real (au_write au)"
    by (auto simp: authorize_one_def try_bind_Inr_iff list_ex_iff split: if_splits)
  moreover from this(1) have "\<exists>r\<in>set ?lex. env_realpath env (path_string r) = Inr real"
    using map_try_set [OF reals] by simp
  ultimately show ?thesis by (auto simp: inside_roots_def)
qed

lemma prepare_props:
  assumes "prepareWorkspaceEdit env opts v w = (r, w')"
  shows "files w' = files w" "uuid w' = uuid w" "uuids_used w' = uuids_used w"
    and "r = Inr us \<Longrightarrow> u \<in> set us \<Longrightarrow> files w (pf_write u) = Some (pf_content u) \<and>
      (\<exists>edits. applyTextEdits (pf_content u) edits = Inr (pf_updated u)) \<and>
      inside_roots env opts (pf_write u)"
proof -
  have "files w' = files w \<and> uuid w' = uuid w \<and> uuids_used w' = uuids_used w"
    using assms by (auto simp: prepareWorkspaceEdit_def split: sum.splits prod.splits
        dest: read_sources_props)
  then show "files w' = files w" "uuid w' = uuid w" "uuids_used w' = uuids_used w" by auto
  assume r: "r = Inr us" and u: "u \<in> set us"
  obtain aus ss where aus: "try_bind (parseWorkspaceEdit (env_url env) v)
      (authorizeWorkspaceTargets env opts) = Inr aus"
    and ss: "read_sources opts aus w = (Inr ss, w')" and us: "map_try prepare_file ss = Inr us"
    using assms r by (auto simp: prepareWorkspaceEdit_def split: sum.splits prod.splits if_splits)
  obtain fc where fc: "fc \<in> set ss" "prepare_file fc = Inr u"
    using map_try_set [OF us u] by blast
  have "fst fc \<in> set aus" "files w (au_write (fst fc)) = Some (snd fc)"
    using read_sources_props [OF ss] fc(1) by auto
  then show "files w (pf_write u) = Some (pf_content u) \<and>
      (\<exists>edits. applyTextEdits (pf_content u) edits = Inr (pf_updated u)) \<and>
      inside_roots env opts (pf_write u)"
    using prepare_file_Inr [OF fc(2)] aus authorize_inside
    by (auto simp: try_bind_Inr_iff)
qed




lemma apply_cases:
  assumes "applyWorkspaceEdit env opts v w = (r, w')" and "fresh_plan env opts v w"
  obtains (rejected) e where "r = Inl e" "files w' = files w" "planned env opts v w = []"
    | (ran) w1 rr where "prepareWorkspaceEdit env opts v w = (Inr (planned env opts v w), w1)"
      "replaceWorkspaceFiles env (planned env opts v w) w1 = (rr, w')"
      "fresh_names env (planned env opts v w) w1" "files w1 = files w"
      "temporary_names env (uuid w1) (uuids_used w1) (planned env opts v w) = planned_names env opts v w"
      "(\<exists>e. r = Inl e \<and> rr = Inl e) \<or> (\<exists>a x. r = Inr a \<and> rr = Inr x)"
proof -
  obtain pr w1 where p: "prepareWorkspaceEdit env opts v w = (pr, w1)" by fastforce
  note pp = prepare_props [OF p]
  show ?thesis
  proof (cases pr)
    case (Inl e)
    then show ?thesis
      using rejected assms(1) p pp by (auto simp: applyWorkspaceEdit_def planned_def)
  next
    case (Inr us)
    obtain rr w2 where rp: "replaceWorkspaceFiles env us w1 = (rr, w2)" by fastforce
    have us: "planned env opts v w = us" by (simp add: planned_def p Inr)
    then have names: "temporary_names env (uuid w1) (uuids_used w1) us = planned_names env opts v w"
      using pp by (simp add: planned_names_def)
    have fresh: "fresh_names env us w1"
      using assms(2) us names by (simp add: fresh_plan_def fresh_names_def)
    show ?thesis
      using ran [of w1 rr] assms(1) p Inr rp us names fresh pp(1)
      by (auto simp: applyWorkspaceEdit_def split: sum.splits)
  qed
qed


section \<open>Properties\<close>

text \<open>C1: A workspace edit that fails (with any error but the report of an incomplete
  rollback) has changed no file: whichever file system call failed, every path other than the
  operation's own temporary names holds what it held before.\<close>

theorem edit_all_or_none:
  assumes err: "fst (applyWorkspaceEdit env opts v w) = Inl e" and "e \<noteq> Rollback_incomplete"
    and fresh: "fresh_plan env opts v w" and p: "p \<notin> set (planned_names env opts v w)"
  shows "files (snd (applyWorkspaceEdit env opts v w)) p = files w p"
proof -
  obtain r w' where run: "applyWorkspaceEdit env opts v w = (r, w')" by fastforce
  from run fresh show ?thesis
  proof (cases rule: apply_cases)
    case (ran w1 rr)
    then have "rr = Inl e" using err run by auto
    then show ?thesis
      using replace_failure(1) [of env _ w1 e w'] replace_frame [OF ran(2,3), of p] ran p assms(2) run
      by (cases "p \<in> set (map pf_write (planned env opts v w))") (auto simp: in_set_conv_nth)
  qed (use run in simp)
qed


text \<open>C9: No original content is ever lost: whatever calls fail and however a workspace edit ends, every
  target still holds what it held when the operation started, or that file's own backup name does, or
  the operation has succeeded and the target holds the edited text.\<close>

theorem edit_nothing_lost:
  assumes fresh: "fresh_plan env opts v w" and i: "i < length (planned env opts v w)"
  defines "u \<equiv> planned env opts v w ! i" and "final \<equiv> applyWorkspaceEdit env opts v w"
  shows "files w (pf_write u) = Some (pf_content u) \<and>
    (files (snd final) (pf_write u) = Some (pf_content u) \<or>
     files (snd final) (backup_name env (uuid w) (uuids_used w) (planned env opts v w) i) = Some (pf_content u) \<or>
     (\<exists>a. fst final = Inr a) \<and> files (snd final) (pf_write u) = Some (pf_updated u))"
proof -
  obtain r w' where run: "applyWorkspaceEdit env opts v w = (r, w')" by fastforce
  from run fresh show ?thesis
  proof (cases rule: apply_cases)
    case (ran w1 rr)
    have old: "files w (pf_write u) = Some (pf_content u)"
      using prepare_props(4) [OF ran(1) refl, of u] i by (simp add: u_def)
    have ids: "uuid w1 = uuid w" "uuids_used w1 = uuids_used w"
      using prepare_props(2,3) [OF ran(1)] by simp_all
    from ran(6) show ?thesis
    proof (elim disjE exE conjE)
      fix e
      assume "rr = Inl e"
      then show ?thesis
        using replace_failure(2) [of env _ w1 e w', OF _ ran(3) i] ran(2,4) old run ids by (auto simp: final_def u_def)
    next
      fix a x
      assume "r = Inr a" "rr = Inr x"
      then show ?thesis
        using replace_success [of env _ w1 x w', OF _ ran(3) i] ran(2) old run by (auto simp: final_def u_def)
    qed
  qed (use i in simp)
qed

text \<open>Every path a workspace edit changes, its temporary names apart, lies inside one of
  the allowed roots after symbolic links are resolved.\<close>

theorem edit_confined:
  assumes fresh: "fresh_plan env opts v w" and p: "p \<notin> set (planned_names env opts v w)"
    and changed: "files (snd (applyWorkspaceEdit env opts v w)) p \<noteq> files w p"
  shows "inside_roots env opts p"
proof -
  obtain r w' where run: "applyWorkspaceEdit env opts v w = (r, w')" by fastforce
  from run fresh show ?thesis
  proof (cases rule: apply_cases)
    case (ran w1 rr)
    then have "p \<in> set (map pf_write (planned env opts v w))"
      using replace_frame [OF ran(2,3), of p] p changed run by auto
    then show ?thesis using prepare_props(4) [OF ran(1) refl] by auto
  qed (use changed run in simp)
qed

subsection \<open>Witnesses\<close>

definition demo_env :: environment where
  "demo_env = \<lparr>env_cwd = [], env_realpath = (\<lambda>s. Inr (resolve_path [] s)),
     env_url = (\<lambda>u. if take 7 u = ''file://'' then File_path (drop 7 u) else Not_a_url),
     env_pid = ''1''\<rparr>"

definition demo_opts :: apply_options where
  "demo_opts = \<lparr>allowed_roots = [''/r''], authorize_target = None, get_snapshot = None\<rparr>"

definition demo_position :: "rat \<Rightarrow> rat \<Rightarrow> jsval" where
  "demo_position l c = JObj [(''line'', JNum (Finite l)), (''character'', JNum (Finite c))]"

definition demo_edit :: jsval where
  "demo_edit = JObj [(''changes'', JObj [(''file:///r/a'', JArr [JObj
     [(''range'', JObj [(''start'', demo_position 0 1), (''end'', demo_position 0 2)]),
      (''newText'', JStr ''ey'')]])])]"

definition demo_world :: "nat list \<Rightarrow> world" where
  "demo_world bad = \<lparr>files = [[''r'', ''a''] \<mapsto> utf16 ''hi''], calls = 0,
     faulty = (\<lambda>n. n \<in> set bad), uuid = (\<lambda>n. replicate n CHR ''x''), uuids_used = 0\<rparr>"

lemmas demo_defs = demo_env_def demo_opts_def demo_position_def demo_edit_def demo_world_def


text \<open>Call 9 is the rename of the staged file into place; call 11 the rollback's rename.\<close>

lemma demo_names: "[''r'', ''a''] \<notin> set (planned_names demo_env demo_opts demo_edit (demo_world bad))"
  if "bad \<in> {[], [9], [9, 11]}"
proof -
  have "[''r'', ''a''] \<notin> set (planned_names demo_env demo_opts demo_edit (demo_world []))"
    "[''r'', ''a''] \<notin> set (planned_names demo_env demo_opts demo_edit (demo_world [9]))"
    "[''r'', ''a''] \<notin> set (planned_names demo_env demo_opts demo_edit (demo_world [9, 11]))"
    by code_simp+
  with that show ?thesis by auto
qed

lemma demo_fresh:
  "fresh_plan demo_env demo_opts demo_edit (demo_world [])"
  "fresh_plan demo_env demo_opts demo_edit (demo_world [9])"
  "fresh_plan demo_env demo_opts demo_edit (demo_world [9, 11])"
  by code_simp+

definition demo_file :: prepared_file where
  "demo_file = \<lparr>pf_absolute = ''/r/a'', pf_write = [''r'', ''a''], pf_content = utf16 ''hi'',
     pf_updated = utf16 ''hey'', pf_edits = 1\<rparr>"

theorem edit_all_or_none_witness:
  "files (snd (applyWorkspaceEdit demo_env demo_opts demo_edit (demo_world [9]))) [''r'', ''a'']
     = Some (utf16 ''hi'')"
proof -
  have "fst (applyWorkspaceEdit demo_env demo_opts demo_edit (demo_world [9])) = Inl (Io_failure EIO)"
    by code_simp
  from edit_all_or_none [OF this _ demo_fresh(2) demo_names] show ?thesis
    by (simp add: demo_world_def)
qed


theorem edit_nothing_lost_witness:
  "files (snd (applyWorkspaceEdit demo_env demo_opts demo_edit (demo_world [9, 11]))) [''r'', ''a''] = Some (utf16 ''hi'') \<or>
   files (snd (applyWorkspaceEdit demo_env demo_opts demo_edit (demo_world [9, 11])))
     [''r'', ''.a.pi-dev-tools-backup-1-x''] = Some (utf16 ''hi'')"
proof -
  have failed: "fst (applyWorkspaceEdit demo_env demo_opts demo_edit (demo_world [9, 11])) = Inl Rollback_incomplete"
    and plan: "planned demo_env demo_opts demo_edit (demo_world [9, 11]) = [demo_file]"
    and backup: "backup_name demo_env (uuid (demo_world [9, 11])) (uuids_used (demo_world [9, 11])) [demo_file] 0 =
      [''r'', ''.a.pi-dev-tools-backup-1-x'']"
    by code_simp+
  have "0 < length (planned demo_env demo_opts demo_edit (demo_world [9, 11]))"
    by (simp add: plan)
  from edit_nothing_lost [OF demo_fresh(3) this] show ?thesis
    by (simp add: plan failed backup) (simp add: demo_file_def)
qed

theorem edit_confined_witness: "inside_roots demo_env demo_opts [''r'', ''a'']"
proof -
  have "files (snd (applyWorkspaceEdit demo_env demo_opts demo_edit (demo_world []))) [''r'', ''a'']
      = Some (utf16 ''hey'')"
    by code_simp
  then have "files (snd (applyWorkspaceEdit demo_env demo_opts demo_edit (demo_world []))) [''r'', ''a'']
      \<noteq> files (demo_world []) [''r'', ''a'']"
    by (simp add: demo_world_def utf16_def)
  from edit_confined [OF demo_fresh(1) demo_names this] show ?thesis by simp
qed

end
