(* ===== verification/Documents.thy ===== *)
theory Documents
  imports Prelude
begin

text \<open>
  \<open>DocumentManager\<close> of \<open>extensions/dev-tools/document-manager.ts\<close>: which files are open in
  the language server, under which project root, at which version, and which to evict.
  Paths and contents are strings; Node's path functions, the backend's callbacks and the
  file system are parameters, and the two that depend on the disk (\<open>probe\<close> for the project
  root, \<open>read\<close> for contents) are given anew to each call. The results: the maps of the class
  agree with each other after every operation, the notifications keep the server's copy of
  every open document equal to the manager's, and eviction removes the least recently used.
\<close>

section \<open>State\<close>

record open_document =
  od_uri :: string
  od_path :: string
  od_root :: string
  od_language :: string
  od_version :: nat
  od_content :: string
  od_access :: nat

record doc_manager =
  openDocs :: "(string, open_document) jsmap"
  rootCache :: "(string, string) jsmap"
  projectFiles :: "(string, string list) jsmap"
  accessCounter :: nat

text \<open>\<open>resolve\<close>, \<open>dirname\<close>, \<open>pathToUri\<close> and the backend's \<open>resolveLanguageId\<close>.\<close>

record doc_env =
  de_resolve :: "string \<Rightarrow> string"
  de_dirname :: "string \<Rightarrow> string"
  de_uri :: "string \<Rightarrow> string"
  de_language :: "string \<Rightarrow> string"

datatype notification =
    Did_open string string nat string
  | Did_change string nat string
  | Did_close string

definition empty_manager :: doc_manager where
  "empty_manager = \<lparr>openDocs = [], rootCache = [], projectFiles = [], accessCounter = 0\<rparr>"

section \<open>Operations\<close>

text \<open>A cached root that is the empty string is falsy, so it is looked up again.\<close>

definition getProjectRoot ::
  "doc_env \<Rightarrow> (string \<Rightarrow> string option) \<Rightarrow> string \<Rightarrow> doc_manager \<Rightarrow> string \<times> doc_manager" where
  "getProjectRoot env probe p s =
     (let abs = de_resolve env p;
          base = (case probe abs of Some r \<Rightarrow> r | None \<Rightarrow> de_dirname env abs) in
      case jm_get (rootCache s) abs of
        Some r \<Rightarrow> if r \<noteq> '''' then (r, s) else (base, s\<lparr>rootCache := jm_set abs base (rootCache s)\<rparr>)
      | None \<Rightarrow> (base, s\<lparr>rootCache := jm_set abs base (rootCache s)\<rparr>))"

definition register_project :: "string \<Rightarrow> string \<Rightarrow> doc_manager \<Rightarrow> doc_manager" where
  "register_project p uri s =
     (let files = (case jm_get (projectFiles s) p of None \<Rightarrow> [] | Some us \<Rightarrow> us) in
      s\<lparr>projectFiles := jm_set p (set_add uri files) (projectFiles s)\<rparr>)"

text \<open>The result of the private \<open>open\<close>: the notification, whether the root is new, the root.\<close>

definition open_doc ::
  "doc_env \<Rightarrow> (string \<Rightarrow> string option) \<Rightarrow> (string \<Rightarrow> string option) \<Rightarrow> string \<Rightarrow> doc_manager \<Rightarrow>
   (notification \<times> bool \<times> string) option \<times> doc_manager" where
  "open_doc env probe read p s =
     (let abs = de_resolve env p in
      case read abs of
        None \<Rightarrow> (None, s)
      | Some content \<Rightarrow>
          let uri = de_uri env abs;
              (base, s) = getProjectRoot env probe abs s;
              language = de_language env abs;
              isNewRoot = (jm_get (projectFiles s) base = None);
              existing = jm_get (openDocs s) uri;
              s = register_project base uri s;
              n = Suc (accessCounter s) in
          case existing of
            None \<Rightarrow>
              (Some (Did_open uri language 1 content, isNewRoot, base),
               s\<lparr>accessCounter := n,
                 openDocs := jm_set uri \<lparr>od_uri = uri, od_path = abs, od_root = base,
                   od_language = language, od_version = 1, od_content = content, od_access = n\<rparr>
                   (openDocs s)\<rparr>)
          | Some d \<Rightarrow>
              if od_content d = content
              then (None, s\<lparr>accessCounter := n, openDocs := jm_set uri (d\<lparr>od_access := n\<rparr>) (openDocs s)\<rparr>)
              else (Some (Did_change uri (Suc (od_version d)) content, False, base),
                    s\<lparr>accessCounter := n,
                      openDocs := jm_set uri (d\<lparr>od_access := n, od_version := Suc (od_version d),
                        od_content := content\<rparr>) (openDocs s)\<rparr>))"

record ensured =
  en_uri :: string
  en_root :: string
  en_notification :: "notification option"
  en_new_root :: bool

definition ensure_doc ::
  "doc_env \<Rightarrow> (string \<Rightarrow> string option) \<Rightarrow> (string \<Rightarrow> string option) \<Rightarrow> string \<Rightarrow> doc_manager \<Rightarrow>
   ensured \<times> doc_manager" where
  "ensure_doc env probe read p s =
     (let abs = de_resolve env p; uri = de_uri env abs in
      case open_doc env probe read abs s of
        (None, s) \<Rightarrow>
          let (base, s) = getProjectRoot env probe abs s in
          (\<lparr>en_uri = uri, en_root = base, en_notification = None, en_new_root = False\<rparr>, s)
      | (Some (note, new, base), s) \<Rightarrow>
          (\<lparr>en_uri = uri, en_root = base, en_notification = Some note, en_new_root = new\<rparr>, s))"

definition hasProject :: "doc_env \<Rightarrow> string \<Rightarrow> doc_manager \<Rightarrow> bool" where
  "hasProject env p s =
     (case jm_get (projectFiles s) (de_resolve env p) of None \<Rightarrow> False | Some us \<Rightarrow> us \<noteq> [])"

definition projectRoots :: "doc_manager \<Rightarrow> string list" where
  "projectRoots s = jm_keys (projectFiles s)"

definition openUris :: "doc_manager \<Rightarrow> string list" where
  "openUris s = jm_keys (openDocs s)"

definition getDoc :: "string \<Rightarrow> doc_manager \<Rightarrow> open_document option" where
  "getDoc uri s = jm_get (openDocs s) uri"

text \<open>Deleting a document and its entry in its project, the project with its last file.\<close>

definition remove_doc :: "open_document \<Rightarrow> string \<Rightarrow> doc_manager \<Rightarrow> doc_manager" where
  "remove_doc d uri s =
     (let s = s\<lparr>openDocs := jm_delete uri (openDocs s)\<rparr> in
      case jm_get (projectFiles s) (od_root d) of
        None \<Rightarrow> s
      | Some us \<Rightarrow>
          let us = filter (\<lambda>u. u \<noteq> uri) us in
          s\<lparr>projectFiles := (if us = [] then jm_delete (od_root d) (projectFiles s)
                             else jm_set (od_root d) us (projectFiles s))\<rparr>)"

definition MAX_OPEN_DOCUMENTS :: nat where
  "MAX_OPEN_DOCUMENTS = 50"

definition to_evict :: "nat \<Rightarrow> doc_manager \<Rightarrow> open_document list" where
  "to_evict maxOpen s =
     (if length (openDocs s) \<le> maxOpen then []
      else take (length (openDocs s) - maxOpen) (sort_key od_access (jm_values (openDocs s))))"

definition evict :: "nat \<Rightarrow> doc_manager \<Rightarrow> string list \<times> doc_manager" where
  "evict maxOpen s =
     (map od_uri (to_evict maxOpen s),
      foldl (\<lambda>s d. remove_doc d (od_uri d) s) s (to_evict maxOpen s))"

definition close_doc :: "doc_env \<Rightarrow> string \<Rightarrow> doc_manager \<Rightarrow> string option \<times> doc_manager" where
  "close_doc env p s =
     (let uri = de_uri env (de_resolve env p) in
      case jm_get (openDocs s) uri of
        None \<Rightarrow> (None, s)
      | Some d \<Rightarrow> (Some uri, remove_doc d uri s))"

definition clear_docs :: "doc_manager \<Rightarrow> doc_manager" where
  "clear_docs s = s\<lparr>openDocs := [], rootCache := [], projectFiles := []\<rparr>"

section \<open>Invariant\<close>

text \<open>
  What the fields promise each other: every document is filed under its URI and sits in its
  project's set, every project's set holds exactly the open documents with that root and is
  never empty, access stamps are distinct and not ahead of the counter, and a document's root
  is the cached one, so that a second \<open>open\<close> finds the same project.
\<close>

definition doc_ok :: "doc_env \<Rightarrow> doc_manager \<Rightarrow> string \<Rightarrow> open_document \<Rightarrow> bool" where
  "doc_ok env s u d =
     (od_uri d = u \<and> de_uri env (od_path d) = u \<and> 1 \<le> od_version d \<and>
      od_access d \<le> accessCounter s \<and> od_root d \<noteq> '''' \<and>
      jm_get (rootCache s) (od_path d) = Some (od_root d) \<and> de_resolve env (od_path d) = od_path d \<and>
      jm_get (projectFiles s) (od_root d) \<noteq> None)"

definition project_ok :: "doc_manager \<Rightarrow> string \<Rightarrow> string list \<Rightarrow> bool" where
  "project_ok s p us =
     (us \<noteq> [] \<and> distinct us \<and>
      (\<forall>u. u \<in> set us \<longleftrightarrow> (\<exists>d. jm_get (openDocs s) u = Some d \<and> od_root d = p)))"

definition docs_inv :: "doc_env \<Rightarrow> doc_manager \<Rightarrow> bool" where
  "docs_inv env s =
     (jm_ok (openDocs s) \<and> jm_ok (projectFiles s) \<and> jm_ok (rootCache s) \<and>
      (\<forall>u d. jm_get (openDocs s) u = Some d \<longrightarrow> doc_ok env s u d) \<and>
      (\<forall>p us. jm_get (projectFiles s) p = Some us \<longrightarrow> project_ok s p us) \<and>
      (\<forall>u v d e. jm_get (openDocs s) u = Some d \<longrightarrow> jm_get (openDocs s) v = Some e \<longrightarrow>
         od_access d = od_access e \<longrightarrow> u = v))"

text \<open>What Node's path functions and the backend promise.\<close>

definition env_ok :: "doc_env \<Rightarrow> bool" where
  "env_ok env \<longleftrightarrow>
     (\<forall>p. de_resolve env (de_resolve env p) = de_resolve env p) \<and>
     (\<forall>p q. de_uri env (de_resolve env p) = de_uri env (de_resolve env q) \<longrightarrow>
        de_resolve env p = de_resolve env q) \<and>
     (\<forall>p. de_dirname env p \<noteq> '''')"

definition probe_ok :: "(string \<Rightarrow> string option) \<Rightarrow> bool" where
  "probe_ok probe \<longleftrightarrow> (\<forall>p. probe p \<noteq> Some '''')"

lemma docs_inv_empty: "docs_inv env empty_manager"
  by (simp add: docs_inv_def empty_manager_def jm_ok_def jm_get_def)

lemma docs_inv_clear: "docs_inv env (clear_docs s)"
  by (simp add: docs_inv_def clear_docs_def jm_ok_def jm_get_def)

lemma docs_inv_doc: "docs_inv env s \<Longrightarrow> jm_get (openDocs s) u = Some d \<Longrightarrow> doc_ok env s u d"
  by (simp add: docs_inv_def)

lemma docs_inv_cache:
  assumes "docs_inv env s"
    and "jm_get (rootCache s) p = None \<or> jm_get (rootCache s) p = Some ''''"
  shows "docs_inv env (s\<lparr>rootCache := jm_set p base (rootCache s)\<rparr>)"
proof -
  have "doc_ok env (s\<lparr>rootCache := jm_set p base (rootCache s)\<rparr>) u d"
    if "jm_get (openDocs s) u = Some d" for u d
  proof -
    have d: "doc_ok env s u d"
      using assms(1) that by (simp add: docs_inv_def)
    then have "od_path d \<noteq> p"
      using assms(2) by (auto simp: doc_ok_def)
    then show ?thesis
      using d by (simp add: doc_ok_def jm_get_set)
  qed
  then show ?thesis
    using assms(1) by (simp add: docs_inv_def project_ok_def jm_ok_set)
qed

lemma getProjectRoot_cases:
  assumes "getProjectRoot env probe p s = (base, s')"
  shows "(s' = s \<and> jm_get (rootCache s) (de_resolve env p) = Some base \<and> base \<noteq> '''') \<or>
    ((jm_get (rootCache s) (de_resolve env p) = None \<or>
      jm_get (rootCache s) (de_resolve env p) = Some '''') \<and>
     base = (case probe (de_resolve env p) of Some r \<Rightarrow> r | None \<Rightarrow> de_dirname env (de_resolve env p)) \<and>
     s' = s\<lparr>rootCache := jm_set (de_resolve env p) base (rootCache s)\<rparr>)"
  using assms by (auto simp: getProjectRoot_def Let_def split: option.splits if_splits)

lemma getProjectRoot_inv:
  assumes "getProjectRoot env probe p s = (base, s')" and "docs_inv env s"
    and "env_ok env" and "probe_ok probe"
  shows "docs_inv env s'" "base \<noteq> ''''" "openDocs s' = openDocs s" "projectFiles s' = projectFiles s"
    "accessCounter s' = accessCounter s" "jm_get (rootCache s') (de_resolve env p) = Some base"
    "\<And>d u. jm_get (openDocs s) u = Some d \<Longrightarrow> od_path d = de_resolve env p \<Longrightarrow> od_root d = base"
proof -
  note c = getProjectRoot_cases [OF assms(1)]
  show "docs_inv env s'"
    using c assms(2) docs_inv_cache by metis
  show "base \<noteq> ''''"
    using c assms(3,4) unfolding env_ok_def probe_ok_def by (metis option.case_eq_if option.exhaust_sel)
  show "openDocs s' = openDocs s" "projectFiles s' = projectFiles s"
    "accessCounter s' = accessCounter s"
    using c by auto
  show "jm_get (rootCache s') (de_resolve env p) = Some base"
    using c by (auto simp: jm_get_set)
  show "od_root d = base" if "jm_get (openDocs s) u = Some d" "od_path d = de_resolve env p" for d u
  proof -
    have "jm_get (rootCache s) (de_resolve env p) = Some (od_root d)" "od_root d \<noteq> ''''"
      using docs_inv_doc [OF assms(2) that(1)] that(2) by (auto simp: doc_ok_def)
    then show ?thesis
      using c by auto
  qed
qed

text \<open>The three updates of \<open>open\<close> are one: file a stamped document and register its project.\<close>

definition store_doc :: "open_document \<Rightarrow> string \<Rightarrow> doc_manager \<Rightarrow> doc_manager" where
  "store_doc d uri s = register_project (od_root d) uri s
    \<lparr>accessCounter := Suc (accessCounter s), openDocs := jm_set uri d (openDocs s)\<rparr>"

lemma store_doc_sel:
  "openDocs (store_doc d uri s) = jm_set uri d (openDocs s)"
  "rootCache (store_doc d uri s) = rootCache s"
  "accessCounter (store_doc d uri s) = Suc (accessCounter s)"
  "projectFiles (store_doc d uri s) = jm_set (od_root d) (set_add uri
     (case jm_get (projectFiles s) (od_root d) of None \<Rightarrow> [] | Some us \<Rightarrow> us)) (projectFiles s)"
  by (simp_all add: store_doc_def register_project_def Let_def)

lemma docs_inv_project:
  assumes "docs_inv env s"
  shows "distinct (case jm_get (projectFiles s) p of None \<Rightarrow> [] | Some us \<Rightarrow> us)"
    "u \<in> set (case jm_get (projectFiles s) p of None \<Rightarrow> [] | Some us \<Rightarrow> us) \<longleftrightarrow>
     (\<exists>e. jm_get (openDocs s) u = Some e \<and> od_root e = p)"
proof -
  have known: "jm_get (projectFiles s) (od_root e) \<noteq> None" if "jm_get (openDocs s) u = Some e" for u e
    using assms that by (auto simp: docs_inv_def doc_ok_def)
  have ok: "project_ok s p us" if "jm_get (projectFiles s) p = Some us" for us
    using assms that by (simp add: docs_inv_def)
  show "distinct (case jm_get (projectFiles s) p of None \<Rightarrow> [] | Some us \<Rightarrow> us)"
    using ok by (auto simp: project_ok_def split: option.splits)
  show "u \<in> set (case jm_get (projectFiles s) p of None \<Rightarrow> [] | Some us \<Rightarrow> us) \<longleftrightarrow>
     (\<exists>e. jm_get (openDocs s) u = Some e \<and> od_root e = p)"
    using ok known by (cases "jm_get (projectFiles s) p") (force simp: project_ok_def)+
qed

lemma store_doc_inv:
  assumes inv: "docs_inv env s"
    and cached: "jm_get (rootCache s) (od_path d) = Some (od_root d)" "od_root d \<noteq> ''''"
    and d: "od_uri d = uri" "de_uri env (od_path d) = uri" "1 \<le> od_version d"
      "od_access d = Suc (accessCounter s)" "de_resolve env (od_path d) = od_path d"
    and old: "\<And>e. jm_get (openDocs s) uri = Some e \<Longrightarrow> od_root e = od_root d"
  shows "docs_inv env (store_doc d uri s)" (is "docs_inv env ?s")
proof -
  have stamp: "od_access e \<le> accessCounter s" if "jm_get (openDocs s) u = Some e" for u e
    using inv that by (simp add: docs_inv_def doc_ok_def)
  have docs: "doc_ok env ?s u e" if "jm_get (openDocs ?s) u = Some e" for u e
  proof (cases "u = uri")
    case True
    with that have "e = d" by (simp add: jm_get_set store_doc_sel)
    then show ?thesis
      using True cached d by (simp add: doc_ok_def store_doc_sel jm_get_set)
  next
    case False
    with that have "doc_ok env s u e"
      using inv by (simp add: docs_inv_def jm_get_set store_doc_sel)
    then show ?thesis
      by (auto simp: doc_ok_def store_doc_sel jm_get_set)
  qed
  have projects: "project_ok ?s p us" if "jm_get (projectFiles ?s) p = Some us" for p us
  proof (cases "p = od_root d")
    case True
    then show ?thesis
      using that docs_inv_project [OF inv]
      by (auto simp: project_ok_def jm_get_set store_doc_sel)
  next
    case False
    then have "project_ok s p us"
      using that inv by (simp add: store_doc_sel jm_get_set docs_inv_def)
    then show ?thesis
      using False old by (auto simp: project_ok_def jm_get_set store_doc_sel)
  qed
  have uniq: "u = v" if "jm_get (openDocs s) u = Some e" "jm_get (openDocs s) v = Some f"
    "od_access e = od_access f" for u v e f
    using inv that unfolding docs_inv_def by blast
  have "u = v" if "jm_get (openDocs ?s) u = Some e" "jm_get (openDocs ?s) v = Some f"
    "od_access e = od_access f" for u v e f
    using that stamp [of u e] stamp [of v f] uniq [of u e v f] d(4)
    by (auto simp: jm_get_set store_doc_sel split: if_splits)
  moreover have "jm_ok (openDocs ?s)" "jm_ok (projectFiles ?s)" "jm_ok (rootCache ?s)"
    using inv by (simp_all add: docs_inv_def store_doc_sel jm_ok_set)
  ultimately show ?thesis
    unfolding docs_inv_def using docs projects by blast
qed

text \<open>\<open>open\<close> in terms of those updates, for a manager whose invariant holds.\<close>

definition opened :: "doc_env \<Rightarrow> string \<Rightarrow> string \<Rightarrow> string \<Rightarrow> doc_manager \<Rightarrow> open_document" where
  "opened env fp base content s =
     (case jm_get (openDocs s) (de_uri env fp) of
        None \<Rightarrow> \<lparr>od_uri = de_uri env fp, od_path = fp, od_root = base, od_language = de_language env fp,
                 od_version = 1, od_content = content, od_access = Suc (accessCounter s)\<rparr>
      | Some d \<Rightarrow> d\<lparr>od_access := Suc (accessCounter s),
          od_version := (if od_content d = content then od_version d else Suc (od_version d)),
          od_content := content\<rparr>)"

definition announced :: "open_document option \<Rightarrow> open_document \<Rightarrow> notification option" where
  "announced before after =
     (case before of
        None \<Rightarrow> Some (Did_open (od_uri after) (od_language after) 1 (od_content after))
      | Some d \<Rightarrow> if od_content d = od_content after then None
                  else Some (Did_change (od_uri after) (od_version after) (od_content after)))"

lemma open_doc_eq:
  assumes inv: "docs_inv env s" and env: "env_ok env" "probe_ok probe"
    and fp: "fp = de_resolve env p" and content: "read fp = Some content"
    and gp: "getProjectRoot env probe fp s = (base, s1)"
  shows "snd (open_doc env probe read p s) = store_doc (opened env fp base content s) (de_uri env fp) s1"
    and "map_option fst (fst (open_doc env probe read p s)) =
      announced (jm_get (openDocs s) (de_uri env fp)) (opened env fp base content s)"
    and "docs_inv env (store_doc (opened env fp base content s) (de_uri env fp) s1)"
    and "od_root (opened env fp base content s) = base"
proof -
  let ?uri = "de_uri env fp"
  let ?d = "opened env fp base content s"
  have fp': "de_resolve env fp = fp"
    using fp env(1) by (simp add: env_ok_def)
  note g = getProjectRoot_inv [OF gp inv env]
  have old: "od_path e = fp \<and> od_root e = base \<and> od_uri e = ?uri \<and> 1 \<le> od_version e"
    if "jm_get (openDocs s) ?uri = Some e" for e
  proof -
    have e: "doc_ok env s ?uri e"
      using docs_inv_doc [OF inv that] .
    then have "de_uri env (de_resolve env (od_path e)) = de_uri env (de_resolve env fp)"
      using fp' by (simp add: doc_ok_def)
    then have "od_path e = fp"
      using env(1) fp' e unfolding env_ok_def doc_ok_def by metis
    then show ?thesis
      using e g(7) [OF that] fp' by (simp add: doc_ok_def)
  qed
  have d: "od_uri ?d = ?uri" "od_path ?d = fp" "1 \<le> od_version ?d" "od_root ?d = base"
    "od_access ?d = Suc (accessCounter s1)"
  proof -
    have "od_uri ?d = ?uri \<and> od_path ?d = fp \<and> 1 \<le> od_version ?d \<and> od_root ?d = base \<and>
      od_access ?d = Suc (accessCounter s1)"
    proof (cases "jm_get (openDocs s) ?uri")
      case None
      then show ?thesis by (simp add: opened_def g(5))
    next
      case (Some e)
      then show ?thesis using old [OF Some] by (simp add: opened_def g(5))
    qed
    then show "od_uri ?d = ?uri" "od_path ?d = fp" "1 \<le> od_version ?d" "od_root ?d = base"
      "od_access ?d = Suc (accessCounter s1)" by blast+
  qed
  then show "od_root ?d = base" by simp
  have "od_root e = od_root ?d" if "jm_get (openDocs s1) ?uri = Some e" for e
    using old that g(3) d(4) by simp
  then show "docs_inv env (store_doc ?d ?uri s1)"
    using g(1,2,6) d fp' by (intro store_doc_inv) simp_all
  have sel: "accessCounter s1 = accessCounter s" "openDocs s1 = openDocs s"
    using g by auto
  show "snd (open_doc env probe read p s) = store_doc ?d ?uri s1"
  proof (cases "jm_get (openDocs s) ?uri")
    case None
    then show ?thesis
      using fp content gp sel
      by (simp add: open_doc_def Let_def opened_def store_doc_def register_project_def)
  next
    case (Some e)
    have touch: "e\<lparr>od_access := n, od_content := content\<rparr> = e\<lparr>od_access := n\<rparr>"
      if "od_content e = content" for n
      using that by (cases e) simp
    show ?thesis
      using fp content gp sel old [OF Some] Some
      by (cases "od_content e = content")
         (simp_all add: open_doc_def Let_def opened_def store_doc_def register_project_def touch)
  qed
  show "map_option fst (fst (open_doc env probe read p s)) = announced (jm_get (openDocs s) ?uri) ?d"
  proof (cases "jm_get (openDocs s) ?uri")
    case None
    then show ?thesis
      using fp content gp sel
      by (simp add: open_doc_def Let_def opened_def announced_def register_project_def)
  next
    case (Some e)
    then show ?thesis
      using fp content gp sel old [OF Some]
      by (simp add: open_doc_def Let_def opened_def announced_def register_project_def)
  qed
qed

lemma remove_doc_sel:
  "openDocs (remove_doc d uri s) = jm_delete uri (openDocs s)"
  "rootCache (remove_doc d uri s) = rootCache s"
  "accessCounter (remove_doc d uri s) = accessCounter s"
  by (simp_all add: remove_doc_def Let_def split: option.splits)

lemma remove_doc_projects:
  assumes inv: "docs_inv env s" and d: "jm_get (openDocs s) uri = Some d"
  shows "jm_get (projectFiles (remove_doc d uri s)) p =
    (case jm_get (projectFiles s) p of
       None \<Rightarrow> None
     | Some us \<Rightarrow> if p = od_root d
         then (if filter (\<lambda>u. u \<noteq> uri) us = [] then None else Some (filter (\<lambda>u. u \<noteq> uri) us))
         else Some us)"
    and "jm_ok (projectFiles (remove_doc d uri s))"
proof -
  obtain us where us: "jm_get (projectFiles s) (od_root d) = Some us"
    using docs_inv_doc [OF inv d] by (auto simp: doc_ok_def)
  show "jm_get (projectFiles (remove_doc d uri s)) p =
    (case jm_get (projectFiles s) p of
       None \<Rightarrow> None
     | Some us \<Rightarrow> if p = od_root d
         then (if filter (\<lambda>u. u \<noteq> uri) us = [] then None else Some (filter (\<lambda>u. u \<noteq> uri) us))
         else Some us)"
    using us by (auto simp: remove_doc_def Let_def jm_get_set jm_get_delete split: option.splits)
  have "jm_ok (projectFiles s)"
    using inv by (simp add: docs_inv_def)
  then show "jm_ok (projectFiles (remove_doc d uri s))"
    using us by (simp add: remove_doc_def Let_def jm_ok_set jm_ok_delete)
qed

lemma remove_doc_inv:
  assumes inv: "docs_inv env s" and d: "jm_get (openDocs s) uri = Some d"
  shows "docs_inv env (remove_doc d uri s)" (is "docs_inv env ?s")
proof -
  note proj = remove_doc_projects [OF inv d]
  have pok: "project_ok s p us" if "jm_get (projectFiles s) p = Some us" for p us
    using inv that by (simp add: docs_inv_def)
  have docs: "doc_ok env ?s u e" if "jm_get (openDocs ?s) u = Some e" for u e
  proof -
    from that have u: "u \<noteq> uri" and e: "jm_get (openDocs s) u = Some e"
      by (auto simp: remove_doc_sel jm_get_delete split: if_splits)
    obtain us where us: "jm_get (projectFiles s) (od_root e) = Some us"
      using docs_inv_doc [OF inv e] by (auto simp: doc_ok_def)
    have "u \<in> set us"
      using pok [OF us] e by (auto simp: project_ok_def)
    then have "u \<in> set (filter (\<lambda>u. u \<noteq> uri) us)"
      using u by simp
    then have "filter (\<lambda>u. u \<noteq> uri) us \<noteq> []"
      by (metis empty_iff empty_set)
    then have "jm_get (projectFiles ?s) (od_root e) \<noteq> None"
      using us proj(1) [of "od_root e"] by auto
    then show ?thesis
      using docs_inv_doc [OF inv e] by (simp add: doc_ok_def remove_doc_sel)
  qed
  have projects: "project_ok ?s p us" if us: "jm_get (projectFiles ?s) p = Some us" for p us
  proof -
    obtain vs where vs: "jm_get (projectFiles s) p = Some vs"
      using us proj(1) [of p] by (auto split: option.splits)
    show ?thesis
    proof (cases "p = od_root d")
      case True
      then have "us = filter (\<lambda>u. u \<noteq> uri) vs" "us \<noteq> []"
        using us vs proj(1) [of p] by (auto split: if_splits)
      then show ?thesis
        using pok [OF vs] by (auto simp: project_ok_def remove_doc_sel jm_get_delete)
    next
      case False
      then have "us = vs"
        using us vs proj(1) [of p] by simp
      then show ?thesis
        using pok [OF vs] False d by (auto simp: project_ok_def remove_doc_sel jm_get_delete)
    qed
  qed
  have uniq: "u = v" if "jm_get (openDocs s) u = Some e" "jm_get (openDocs s) v = Some f"
    "od_access e = od_access f" for u v e f
    using inv that unfolding docs_inv_def by blast
  have "u = v" if "jm_get (openDocs ?s) u = Some e" "jm_get (openDocs ?s) v = Some f"
    "od_access e = od_access f" for u v e f
    using that uniq [of u e v f] by (auto simp: remove_doc_sel jm_get_delete split: if_splits)
  moreover have "jm_ok (openDocs ?s)" "jm_ok (rootCache ?s)"
    using inv by (simp_all add: docs_inv_def remove_doc_sel jm_ok_delete)
  ultimately show ?thesis
    unfolding docs_inv_def using docs projects proj(2) by blast
qed

text \<open>Removing several documents at once, as eviction does.\<close>

lemma remove_docs_inv:
  assumes "docs_inv env s" and "distinct (map od_uri ds)"
    and "\<And>d. d \<in> set ds \<Longrightarrow> jm_get (openDocs s) (od_uri d) = Some d"
  shows "docs_inv env (foldl (\<lambda>s d. remove_doc d (od_uri d) s) s ds) \<and>
    openDocs (foldl (\<lambda>s d. remove_doc d (od_uri d) s) s ds) =
      filter (\<lambda>e. fst e \<notin> set (map od_uri ds)) (openDocs s)"
  using assms
proof (induction ds arbitrary: s)
  case Nil
  then show ?case by simp
next
  case (Cons d ds)
  let ?s = "remove_doc d (od_uri d) s"
  have "docs_inv env ?s"
    using remove_doc_inv [OF Cons.prems(1)] Cons.prems(3) by simp
  moreover have "jm_get (openDocs ?s) (od_uri e) = Some e" if "e \<in> set ds" for e
    using Cons.prems(2) Cons.prems(3) [of e] that
    by (auto simp: remove_doc_sel jm_get_delete) (metis image_eqI)
  ultimately show ?case
    using Cons.IH [of ?s] Cons.prems(2)
    by (auto simp: remove_doc_sel jm_delete_def intro: filter_cong)
qed

section \<open>Eviction\<close>

lemma docs_values:
  assumes "docs_inv env s"
  shows "map od_uri (jm_values (openDocs s)) = jm_keys (openDocs s)"
    and "d \<in> set (jm_values (openDocs s)) \<Longrightarrow> jm_get (openDocs s) (od_uri d) = Some d"
    and "distinct (map od_uri (jm_values (openDocs s)))"
    and "jm_get (openDocs s) u = Some d \<Longrightarrow> d \<in> set (jm_values (openDocs s)) \<and> od_uri d = u"
proof -
  have ok: "jm_ok (openDocs s)"
    using assms by (simp add: docs_inv_def)
  have key: "od_uri d = u" if "(u, d) \<in> set (openDocs s)" for u d
    using docs_inv_doc [OF assms jm_in_get [OF ok that]] by (simp add: doc_ok_def)
  then show keys: "map od_uri (jm_values (openDocs s)) = jm_keys (openDocs s)"
    by (auto simp: jm_values_def jm_keys_def)
  show "jm_get (openDocs s) (od_uri d) = Some d" if "d \<in> set (jm_values (openDocs s))"
    using that jm_in_get [OF ok] key by (auto simp: jm_values_def)
  show "distinct (map od_uri (jm_values (openDocs s)))"
    using ok by (simp add: keys jm_keys_def jm_ok_def)
  show "d \<in> set (jm_values (openDocs s)) \<and> od_uri d = u" if "jm_get (openDocs s) u = Some d"
    using jm_get_in [OF that] key by (force simp: jm_values_def)
qed

lemma to_evict_ok:
  assumes "docs_inv env s"
  shows "distinct (map od_uri (to_evict n s))"
    and "d \<in> set (to_evict n s) \<Longrightarrow> jm_get (openDocs s) (od_uri d) = Some d"
proof -
  have "distinct (map od_uri (sort_key od_access (jm_values (openDocs s))))"
    using docs_values(3) [OF assms] by (simp only: distinct_map_sort_key)
  then show "distinct (map od_uri (to_evict n s))"
    by (auto simp: to_evict_def simp flip: take_map)
  have "set (to_evict n s) \<subseteq> set (jm_values (openDocs s))"
    unfolding to_evict_def by (auto dest: in_set_takeD)
  then show "jm_get (openDocs s) (od_uri d) = Some d" if "d \<in> set (to_evict n s)"
    using that docs_values(2) [OF assms] by blast
qed

lemma evict_inv:
  assumes "docs_inv env s" and "evict n s = (uris, s')"
  shows "docs_inv env s'" "openDocs s' = filter (\<lambda>e. fst e \<notin> set uris) (openDocs s)"
    "distinct uris" "set uris \<subseteq> set (jm_keys (openDocs s))"
proof -
  have u: "uris = map od_uri (to_evict n s)"
    and s': "s' = foldl (\<lambda>s d. remove_doc d (od_uri d) s) s (to_evict n s)"
    using assms(2) by (simp_all add: evict_def)
  have all: "docs_inv env (foldl (\<lambda>s d. remove_doc d (od_uri d) s) s (to_evict n s)) \<and>
    openDocs (foldl (\<lambda>s d. remove_doc d (od_uri d) s) s (to_evict n s)) =
      filter (\<lambda>e. fst e \<notin> set (map od_uri (to_evict n s))) (openDocs s)"
    by (rule remove_docs_inv [OF assms(1) to_evict_ok [OF assms(1)]])
  then show "docs_inv env s'" "openDocs s' = filter (\<lambda>e. fst e \<notin> set uris) (openDocs s)"
    unfolding u s' by blast+
  show "distinct uris"
    using to_evict_ok(1) [OF assms(1)] by (simp add: u)
  show "set uris \<subseteq> set (jm_keys (openDocs s))"
    using to_evict_ok(2) [OF assms(1)] by (force simp: u jm.set_keys)
qed

text \<open>Splitting a sorted list: what is cut off is no larger than what stays.\<close>

lemma sort_take_le:
  assumes "x \<in> set (take k (sort_key f xs))" and "y \<in> set xs" and "y \<notin> set (take k (sort_key f xs))"
  shows "f x \<le> f y"
proof -
  have "sorted (map f (take k (sort_key f xs) @ drop k (sort_key f xs)))"
    by simp
  moreover have "y \<in> set (drop k (sort_key f xs))"
    using assms(2,3) by (metis UnE append_take_drop_id set_append set_sort)
  ultimately show ?thesis
    using assms(1) unfolding map_append sorted_append by auto
qed

text \<open>\<open>evict\<close> leaves at most \<open>maxOpen\<close> documents (exactly the excess goes), keeps every
  surviving document unchanged, and every evicted document was used strictly earlier than
  every surviving one.\<close>

theorem evict_least_recently_used:
  assumes "docs_inv env s" and "evict maxOpen s = (uris, s')"
  shows "length (openDocs s') = min (length (openDocs s)) maxOpen \<and>
    length uris = length (openDocs s) - maxOpen \<and>
    (\<forall>u \<in> set uris. getDoc u s' = None \<and>
      (\<exists>d. getDoc u s = Some d \<and> (\<forall>v e. getDoc v s' = Some e \<longrightarrow> getDoc v s = Some e \<and> od_access d < od_access e)))"
proof (intro conjI ballI)
  note e = evict_inv [OF assms]
  have u: "uris = map od_uri (to_evict maxOpen s)"
    using assms(2) by (simp add: evict_def)
  show len: "length uris = length (openDocs s) - maxOpen"
    by (simp add: u to_evict_def jm_values_def)
  have ok: "jm_ok (openDocs s)"
    using assms(1) by (simp add: docs_inv_def)
  have "length (openDocs s) = length (filter (\<lambda>e. fst e \<in> set uris) (openDocs s)) + length (openDocs s')"
    using sum_length_filter_compl [of "\<lambda>e. fst e \<in> set uris" "openDocs s"] by (simp add: e(2))
  moreover have "length (filter (\<lambda>e. fst e \<in> set uris) (openDocs s)) = length uris"
  proof -
    have "distinct (map fst (filter (\<lambda>e. fst e \<in> set uris) (openDocs s)))"
      using ok by (simp add: jm_ok_def distinct_map_filter)
    moreover have "set (map fst (filter (\<lambda>e. fst e \<in> set uris) (openDocs s))) = set uris"
      using e(4) by (auto simp: jm_keys_def)
    ultimately show ?thesis
      using e(3) by (metis distinct_card length_map)
  qed
  ultimately show "length (openDocs s') = min (length (openDocs s)) maxOpen"
    using len by linarith
  fix uri assume uri: "uri \<in> set uris"
  have get': "getDoc v s' = (if v \<in> set uris then None else getDoc v s)" for v
    by (simp add: getDoc_def e(2) jm_get_filter_keys [where p = "\<lambda>k. k \<notin> set uris"])
  then show "getDoc uri s' = None"
    using uri by simp
  obtain d where d: "d \<in> set (to_evict maxOpen s)" "od_uri d = uri"
    using uri u by auto
  have live: "jm_get (openDocs s) uri = Some d"
    using to_evict_ok(2) [OF assms(1) d(1)] d(2) by simp
  moreover have "od_access d < od_access f" if f: "getDoc v s' = Some f" for v f
  proof -
    have v: "v \<notin> set uris" and g: "jm_get (openDocs s) v = Some f"
      using get' [of v] f by (auto simp: getDoc_def split: if_splits)
    have "f \<in> set (jm_values (openDocs s))" "od_uri f = v"
      using docs_values(4) [OF assms(1) g] by auto
    moreover from this v have "f \<notin> set (to_evict maxOpen s)"
      by (auto simp: u)
    ultimately have "od_access d \<le> od_access f"
      using d(1) sort_take_le [of d _ od_access "jm_values (openDocs s)" f]
      by (auto simp: to_evict_def split: if_splits)
    moreover have "od_access d \<noteq> od_access f"
      using assms(1) live g v uri unfolding docs_inv_def by blast
    ultimately show ?thesis by simp
  qed
  ultimately show "\<exists>d. getDoc uri s = Some d \<and>
      (\<forall>v e. getDoc v s' = Some e \<longrightarrow> getDoc v s = Some e \<and> od_access d < od_access e)"
    using get' by (auto simp: getDoc_def split: if_splits)
qed

section \<open>The backend's use of the manager\<close>

text \<open>
  \<open>ensureFileEffect\<close>, \<open>closeFile\<close> and \<open>resetCaches\<close> of \<open>backend.ts\<close>, restricted to the
  document messages they send: opening or refreshing a file may send \<open>didOpen\<close> or
  \<open>didChange\<close> and closes what is evicted. A reset comes with a new server process.
\<close>

datatype backend_call =
    Ensure_file "string \<Rightarrow> string option" "string \<Rightarrow> string option" string
  | Close_file string
  | Reset_caches

definition ensureFile ::
  "doc_env \<Rightarrow> (string \<Rightarrow> string option) \<Rightarrow> (string \<Rightarrow> string option) \<Rightarrow> string \<Rightarrow> doc_manager \<Rightarrow>
   notification list \<times> doc_manager" where
  "ensureFile env probe read p s =
     (let s = snd (getProjectRoot env probe p s);
          (r, s) = ensure_doc env probe read p s;
          (evicted, s) = evict MAX_OPEN_DOCUMENTS s in
      ((case en_notification r of None \<Rightarrow> [] | Some m \<Rightarrow> [m]) @ map Did_close evicted, s))"

definition closeFile :: "doc_env \<Rightarrow> string \<Rightarrow> doc_manager \<Rightarrow> notification list \<times> doc_manager" where
  "closeFile env p s =
     (case close_doc env p s of (None, s) \<Rightarrow> ([], s) | (Some uri, s) \<Rightarrow> ([Did_close uri], s))"

text \<open>
  The server's side, as the protocol states it: a document is opened at most once, changed
  and closed only while open, and its version strictly increases. \<open>None\<close> is a violation.
\<close>

type_synonym server = "string \<Rightarrow> (nat \<times> string) option"

fun deliver :: "notification \<Rightarrow> server \<Rightarrow> server option" where
  "deliver (Did_open u l v t) srv = (if srv u = None then Some (srv(u \<mapsto> (v, t))) else None)"
| "deliver (Did_change u v t) srv =
     (case srv u of None \<Rightarrow> None | Some (w, _) \<Rightarrow> if w < v then Some (srv(u \<mapsto> (v, t))) else None)"
| "deliver (Did_close u) srv = (if srv u = None then None else Some (srv(u := None)))"

fun deliver_all :: "notification list \<Rightarrow> server \<Rightarrow> server option" where
  "deliver_all [] srv = Some srv"
| "deliver_all (m # ms) srv = (case deliver m srv of None \<Rightarrow> None | Some srv \<Rightarrow> deliver_all ms srv)"

fun backend_step :: "doc_env \<Rightarrow> backend_call \<Rightarrow> doc_manager \<times> server \<Rightarrow> (doc_manager \<times> server) option" where
  "backend_step env (Ensure_file probe read p) (s, srv) =
     map_option (Pair (snd (ensureFile env probe read p s))) (deliver_all (fst (ensureFile env probe read p s)) srv)"
| "backend_step env (Close_file p) (s, srv) =
     map_option (Pair (snd (closeFile env p s))) (deliver_all (fst (closeFile env p s)) srv)"
| "backend_step env Reset_caches (s, srv) = Some (clear_docs s, Map.empty)"

fun backend_run :: "doc_env \<Rightarrow> backend_call list \<Rightarrow> doc_manager \<times> server \<Rightarrow> (doc_manager \<times> server) option" where
  "backend_run env [] c = Some c"
| "backend_run env (x # xs) c = (case backend_step env x c of None \<Rightarrow> None | Some c \<Rightarrow> backend_run env xs c)"

definition mirrored :: "doc_manager \<Rightarrow> server \<Rightarrow> bool" where
  "mirrored s srv \<longleftrightarrow> (\<forall>u. srv u = map_option (\<lambda>d. (od_version d, od_content d)) (jm_get (openDocs s) u))"

lemma deliver_all_append:
  "deliver_all (ms @ ns) srv = (case deliver_all ms srv of None \<Rightarrow> None | Some srv \<Rightarrow> deliver_all ns srv)"
  by (induction ms arbitrary: srv) (auto split: option.splits)

lemma deliver_closes:
  "distinct us \<Longrightarrow> \<forall>u\<in>set us. srv u \<noteq> None \<Longrightarrow>
   deliver_all (map Did_close us) srv = Some (\<lambda>u. if u \<in> set us then None else srv u)"
proof (induction us arbitrary: srv)
  case Nil
  then show ?case by simp
next
  case (Cons a us)
  then have "deliver_all (map Did_close us) (srv(a := None)) =
      Some (\<lambda>u. if u \<in> set us then None else (srv(a := None)) u)"
    by (intro Cons.IH) auto
  then show ?case
    using Cons.prems by (auto simp: fun_eq_iff)
qed

text \<open>One call of \<open>ensure\<close>: what it stores, and that its message tells the server so.\<close>

lemma getProjectRoot_again:
  assumes "getProjectRoot env probe p s = (base, s1)" and "docs_inv env s" "env_ok env" "probe_ok probe"
    and "jm_get (rootCache s) (de_resolve env p) = Some r" "r \<noteq> ''''"
  shows "s1 = s" "base = r"
  using assms(1,5,6) by (auto simp: getProjectRoot_def Let_def)

lemma ensure_doc_step:
  assumes inv: "docs_inv env s" and env: "env_ok env" "probe_ok probe"
    and run: "ensure_doc env probe read p s = (r, s')"
    and mir: "mirrored s srv"
  obtains srv' where "docs_inv env s'"
    and "deliver_all (case en_notification r of None \<Rightarrow> [] | Some m \<Rightarrow> [m]) srv = Some srv'"
    and "mirrored s' srv'"
    and "case read (de_resolve env p) of
           None \<Rightarrow> openDocs s' = openDocs s
         | Some t \<Rightarrow> en_uri r = de_uri env (de_resolve env p) \<and>
             map_option od_content (getDoc (en_uri r) s') = Some t \<and>
             (en_notification r = None \<longleftrightarrow> map_option od_content (getDoc (en_uri r) s) = Some t)"
proof (cases "read (de_resolve env p)")
  case None
  obtain base s1 where gp: "getProjectRoot env probe (de_resolve env p) s = (base, s1)"
    by fastforce
  have idem: "de_resolve env (de_resolve env p) = de_resolve env p"
    using env(1) by (simp add: env_ok_def)
  have r: "s' = s1" "en_notification r = None"
    using run None gp idem by (auto simp: ensure_doc_def open_doc_def Let_def)
  note g = getProjectRoot_inv [OF gp inv env]
  show thesis
    by (rule that [of srv]) (use g mir r None in \<open>auto simp: mirrored_def\<close>)
next
  case (Some t)
  define fp where "fp = de_resolve env p"
  have idem: "de_resolve env fp = fp"
    using env(1) by (simp add: env_ok_def fp_def)
  obtain base s1 where gp: "getProjectRoot env probe fp s = (base, s1)"
    by fastforce
  let ?d = "opened env fp base t s"
  have read: "read fp = Some t"
    using Some by (simp add: fp_def)
  note o = open_doc_eq [where p = fp and read = read, OF inv env idem [symmetric] read gp]
  obtain m s2 where op: "open_doc env probe read fp s = (m, s2)"
    by fastforce
  have s2: "s2 = store_doc ?d (de_uri env fp) s1" "map_option fst m = announced (jm_get (openDocs s) (de_uri env fp)) ?d"
    using o(1,2) op by simp_all
  have s': "s' = s2 \<and> en_notification r = map_option fst m \<and> en_uri r = de_uri env fp"
  proof (cases m)
    case None
    obtain base2 s3 where gp2: "getProjectRoot env probe fp s2 = (base2, s3)"
      by fastforce
    have "doc_ok env s2 (de_uri env fp) ?d"
      by (rule docs_inv_doc) (use o(3) s2 in \<open>simp_all add: store_doc_sel jm_get_set\<close>)
    moreover have "od_path ?d = fp"
      using calculation env(1) idem unfolding doc_ok_def env_ok_def by metis
    ultimately have "s3 = s2"
      using getProjectRoot_again [OF gp2 _ env] o(3) s2(1) idem by (simp add: doc_ok_def)
    then show ?thesis
      using run op None gp2 by (auto simp: ensure_doc_def Let_def fp_def)
  next
    case (Some x)
    then show ?thesis
      using run op by (auto simp: ensure_doc_def Let_def fp_def split: prod.splits)
  qed
  have docs: "openDocs s' = jm_set (de_uri env fp) ?d (openDocs s)"
    using s' s2 getProjectRoot_inv(3) [OF gp inv env] by (simp add: store_doc_sel)
  have content: "od_content ?d = t"
    by (simp add: opened_def split: option.splits)
  have uri: "od_uri ?d = de_uri env fp"
    using docs_inv_doc [OF o(3), of "de_uri env fp"] by (simp add: store_doc_sel jm_get_set doc_ok_def)
  let ?srv = "srv(de_uri env fp \<mapsto> (od_version ?d, t))"
  show thesis
  proof (rule that [of ?srv])
    show "docs_inv env s'"
      using o(3) s2 s' by simp
    show "mirrored s' ?srv"
      using mir content by (simp add: mirrored_def docs jm_get_set)
    show "case read (de_resolve env p) of None \<Rightarrow> openDocs s' = openDocs s
         | Some t \<Rightarrow> en_uri r = de_uri env (de_resolve env p) \<and>
             map_option od_content (getDoc (en_uri r) s') = Some t \<and>
             (en_notification r = None \<longleftrightarrow> map_option od_content (getDoc (en_uri r) s) = Some t)"
    proof -
      have n: "en_notification r = announced (jm_get (openDocs s) (de_uri env fp)) ?d" "en_uri r = de_uri env fp"
        using s' s2(2) by simp_all
      then have "en_notification r = None \<longleftrightarrow> map_option od_content (getDoc (en_uri r) s) = Some t"
        using content by (cases "jm_get (openDocs s) (de_uri env fp)") (auto simp: announced_def getDoc_def)
      then show ?thesis
        using Some n(2) content by (simp add: getDoc_def docs jm_get_set fp_def)
    qed
    show "deliver_all (case en_notification r of None \<Rightarrow> [] | Some m \<Rightarrow> [m]) srv = Some ?srv"
    proof (cases "jm_get (openDocs s) (de_uri env fp)")
      case None
      then have "srv (de_uri env fp) = None" "od_version ?d = 1"
        using mir by (simp_all add: mirrored_def opened_def)
      then show ?thesis
        using s' s2(2) None content uri by (simp add: announced_def)
    next
      case (Some e)
      then have e: "srv (de_uri env fp) = Some (od_version e, od_content e)"
        "od_version ?d = (if od_content e = t then od_version e else Suc (od_version e))"
        using mir by (simp_all add: mirrored_def opened_def)
      then show ?thesis
        using s' s2(2) Some content uri by (auto simp: announced_def fun_upd_idem)
    qed
  qed
qed

definition call_ok :: "backend_call \<Rightarrow> bool" where
  "call_ok c = (case c of Ensure_file probe read p \<Rightarrow> probe_ok probe | _ \<Rightarrow> True)"

text \<open>The state pairs the manager with the server, and the invariant is about both.\<close>

definition session_inv :: "doc_env \<Rightarrow> doc_manager \<times> server \<Rightarrow> bool" where
  "session_inv env c \<longleftrightarrow> docs_inv env (fst c) \<and> mirrored (fst c) (snd c) \<and>
     length (openDocs (fst c)) \<le> MAX_OPEN_DOCUMENTS"

lemma evict_step:
  assumes "docs_inv env s" and "mirrored s srv" and "evict n s = (uris, s')"
  shows "\<exists>srv'. deliver_all (map Did_close uris) srv = Some srv' \<and> mirrored s' srv' \<and>
    docs_inv env s' \<and> length (openDocs s') \<le> n"
proof -
  note e = evict_inv [OF assms(1,3)]
  have "\<forall>u\<in>set uris. srv u \<noteq> None"
    using assms(2) e(4) by (auto simp: mirrored_def jm.set_keys)
  then have "deliver_all (map Did_close uris) srv = Some (\<lambda>u. if u \<in> set uris then None else srv u)"
    by (rule deliver_closes [OF e(3)])
  moreover have "mirrored s' (\<lambda>u. if u \<in> set uris then None else srv u)"
    using assms(2) e(2) jm_get_filter_keys [where p = "\<lambda>k. k \<notin> set uris" and m = "openDocs s"]
    by (simp add: mirrored_def)
  moreover have "length (openDocs s') \<le> n"
  proof (cases "length (openDocs s) \<le> n")
    case True
    then show ?thesis
      using e(2) le_trans [OF length_filter_le] by metis
  next
    case False
    have ok: "distinct (map fst (openDocs s))"
      using assms(1) by (simp add: docs_inv_def jm_ok_def)
    have "length uris = length (openDocs s) - n"
      using assms(3) False by (auto simp: evict_def to_evict_def jm_values_def)
    moreover have "length (openDocs s') = length (filter (\<lambda>k. k \<notin> set uris) (map fst (openDocs s)))"
      by (simp add: e(2) filter_map o_def)
    moreover have "\<dots> = card (set (map fst (openDocs s)) - set uris)"
      using ok by (metis distinct_card distinct_filter set_diff_eq set_filter)
    moreover have "\<dots> = length (openDocs s) - length uris"
      using e(3,4) ok by (metis List.finite_set card_Diff_subset distinct_card jm_keys_def length_map)
    ultimately show ?thesis
      using False by linarith
  qed
  ultimately show ?thesis
    using e(1) by blast
qed

lemma session_step:
  assumes env: "env_ok env" and call: "call_ok x" and inv: "session_inv env c"
  shows "\<exists>c'. backend_step env x c = Some c' \<and> session_inv env c'"
proof (cases c)
  case (Pair s srv)
  have inv: "docs_inv env s" and mir: "mirrored s srv" and bound: "length (openDocs s) \<le> MAX_OPEN_DOCUMENTS"
    using inv by (simp_all add: session_inv_def Pair)
  show ?thesis
  proof (cases x)
    case (Ensure_file probe read p)
    have probe: "probe_ok probe"
      using call by (simp add: Ensure_file call_ok_def)
    obtain b s1 where gp: "getProjectRoot env probe p s = (b, s1)"
      by fastforce
    note g = getProjectRoot_inv [OF gp inv env probe]
    obtain r s2 where en: "ensure_doc env probe read p s1 = (r, s2)"
      by fastforce
    have mir1: "mirrored s1 srv"
      using mir g(3) by (simp add: mirrored_def)
    obtain srv2 where d: "docs_inv env s2" "mirrored s2 srv2"
      "deliver_all (case en_notification r of None \<Rightarrow> [] | Some m \<Rightarrow> [m]) srv = Some srv2"
      using ensure_doc_step [OF g(1) env probe en mir1] by metis
    obtain uris s3 where ev: "evict MAX_OPEN_DOCUMENTS s2 = (uris, s3)"
      by fastforce
    obtain srv3 where e: "deliver_all (map Did_close uris) srv2 = Some srv3" "mirrored s3 srv3"
      "docs_inv env s3" "length (openDocs s3) \<le> MAX_OPEN_DOCUMENTS"
      using evict_step [OF d(1,2) ev] by blast
    then show ?thesis
      using Pair Ensure_file gp en ev d(3)
      by (simp add: ensureFile_def Let_def deliver_all_append session_inv_def)
  next
    case (Close_file p)
    show ?thesis
    proof (cases "jm_get (openDocs s) (de_uri env (de_resolve env p))")
      case None
      then show ?thesis
        using Pair Close_file inv mir bound
        by (simp add: closeFile_def close_doc_def Let_def session_inv_def)
    next
      case (Some d)
      have ok: "jm_ok (openDocs s)"
        using inv by (simp add: docs_inv_def)
      have "srv (de_uri env (de_resolve env p)) \<noteq> None"
        using mir Some by (simp add: mirrored_def)
      then show ?thesis
        using Pair Close_file mir bound Some remove_doc_inv [OF inv Some] length_jm_delete [OF ok]
        by (auto simp: closeFile_def close_doc_def Let_def session_inv_def mirrored_def
            remove_doc_sel jm_get_delete)
    qed
  next
    case Reset_caches
    then show ?thesis
      using Pair docs_inv_clear
      by (simp add: session_inv_def mirrored_def clear_docs_def jm_get_def)
  qed
qed

text \<open>C3: the language server never sees a protocol violation and never holds a stale copy:
  from a new backend, every sequence of file openings, refreshes, closings and resets is
  accepted message by message, and at its end the server has open exactly the documents the
  manager tracks, each at the same version with the same text, at most fifty of them; and the
  manager's maps agree with each other.\<close>

theorem server_mirrors_manager:
  assumes "env_ok env" and "\<forall>x\<in>set xs. call_ok x"
  shows "\<exists>s srv. backend_run env xs (empty_manager, Map.empty) = Some (s, srv) \<and> docs_inv env s \<and>
    (\<forall>u. srv u = map_option (\<lambda>d. (od_version d, od_content d)) (getDoc u s)) \<and>
    length (openUris s) \<le> MAX_OPEN_DOCUMENTS"
proof -
  have "\<exists>c'. backend_run env xs c = Some c' \<and> session_inv env c'" if "session_inv env c" for c
    using assms(2) that
  proof (induction xs arbitrary: c)
    case Nil
    then show ?case by simp
  next
    case (Cons x xs)
    obtain c' where "backend_step env x c = Some c'" "session_inv env c'"
      using session_step [OF assms(1) _ Cons.prems(2), of x] Cons.prems(1) by auto
    then show ?case
      using Cons by simp
  qed
  moreover have "session_inv env (empty_manager, Map.empty)"
    using docs_inv_empty by (simp add: session_inv_def mirrored_def empty_manager_def jm_get_def)
  ultimately show ?thesis
    by (fastforce simp: session_inv_def mirrored_def getDoc_def openUris_def jm_keys_def)
qed

text \<open>\<open>ensure\<close> makes the manager's text of a readable file the file's current text, whatever
  was open before, and reports its URI.\<close>

theorem ensure_current:
  assumes "docs_inv env s" and "env_ok env" and "probe_ok probe"
    and "ensure_doc env probe read p s = (r, s')" and "read (de_resolve env p) = Some t"
  shows "en_uri r = de_uri env (de_resolve env p) \<and> docs_inv env s' \<and>
    map_option od_content (getDoc (en_uri r) s') = Some t \<and>
    (en_notification r = None \<longleftrightarrow> map_option od_content (getDoc (en_uri r) s) = Some t)"
proof -
  have "mirrored s (\<lambda>u. map_option (\<lambda>d. (od_version d, od_content d)) (jm_get (openDocs s) u))"
    by (simp add: mirrored_def)
  then show ?thesis
  proof (rule ensure_doc_step [OF assms(1-4)])
    assume inv: "docs_inv env s'"
    assume "case read (de_resolve env p) of None \<Rightarrow> openDocs s' = openDocs s
         | Some t \<Rightarrow> en_uri r = de_uri env (de_resolve env p) \<and>
             map_option od_content (getDoc (en_uri r) s') = Some t \<and>
             (en_notification r = None \<longleftrightarrow> map_option od_content (getDoc (en_uri r) s) = Some t)"
    then show ?thesis
      unfolding assms(5) option.case using inv by (meson conjI conjunct1 conjunct2)
  qed
qed

definition doc_demo_env :: doc_env where
  "doc_demo_env = \<lparr>de_resolve = id, de_dirname = (\<lambda>_. ''/''), de_uri = id, de_language = (\<lambda>_. ''ts'')\<rparr>"

lemma doc_demo_env_ok: "env_ok doc_demo_env"
  by (simp add: env_ok_def doc_demo_env_def)

definition demo_docs :: doc_manager where
  "demo_docs = snd (ensure_doc doc_demo_env (\<lambda>_. None) (\<lambda>_. Some ''y'') ''b''
     (snd (ensure_doc doc_demo_env (\<lambda>_. Some ''/r'') (\<lambda>_. Some ''x'') ''a'' empty_manager)))"

lemma demo_docs_inv: "docs_inv doc_demo_env demo_docs"
proof -
  have "docs_inv doc_demo_env (snd (ensure_doc doc_demo_env probe read p s))"
    if "docs_inv doc_demo_env s" "probe_ok probe" for probe read p s
  proof -
    have "mirrored s (\<lambda>u. map_option (\<lambda>d. (od_version d, od_content d)) (jm_get (openDocs s) u))"
      by (simp add: mirrored_def)
    then show ?thesis
      using ensure_doc_step [OF that(1) doc_demo_env_ok that(2)] by (metis prod.collapse)
  qed
  then show ?thesis
    using docs_inv_empty by (simp add: demo_docs_def probe_ok_def)
qed

lemma demo_docs_value: "evict 1 demo_docs =
  ([''a''], \<lparr>openDocs = [(''b'', \<lparr>od_uri = ''b'', od_path = ''b'', od_root = ''/'', od_language = ''ts'',
     od_version = 1, od_content = ''y'', od_access = 2\<rparr>)],
     rootCache = [(''a'', ''/r''), (''b'', ''/'')], projectFiles = [(''/'', [''b''])], accessCounter = 2\<rparr>)"
  by code_simp

theorem evict_least_recently_used_witness:
  "length (openDocs (snd (evict 1 demo_docs))) = 1 \<and> getDoc ''a'' (snd (evict 1 demo_docs)) = None"
  using evict_least_recently_used [OF demo_docs_inv demo_docs_value]
  by (simp only: demo_docs_value snd_conv) simp

theorem server_mirrors_manager_witness:
  "\<exists>s srv. backend_run doc_demo_env [Ensure_file (\<lambda>_. None) (\<lambda>_. Some ''x'') ''a'', Close_file ''a'', Reset_caches]
     (empty_manager, Map.empty) = Some (s, srv) \<and> docs_inv doc_demo_env s"
  using server_mirrors_manager [OF doc_demo_env_ok, of
      "[Ensure_file (\<lambda>_. None) (\<lambda>_. Some ''x'') ''a'', Close_file ''a'', Reset_caches]"]
  by (fastforce simp: call_ok_def probe_ok_def)

theorem ensure_current_witness:
  "map_option od_content (getDoc ''a'' (snd (ensure_doc doc_demo_env (\<lambda>_. None) (\<lambda>_. Some ''z'') ''a'' demo_docs))) =
   Some ''z''"
proof -
  obtain r s' where e: "ensure_doc doc_demo_env (\<lambda>_. None) (\<lambda>_. Some ''z'') ''a'' demo_docs = (r, s')"
    by fastforce
  have "probe_ok (\<lambda>_. None)"
    by (simp add: probe_ok_def)
  from ensure_current [OF demo_docs_inv doc_demo_env_ok this e refl]
  have "en_uri r = de_uri doc_demo_env (de_resolve doc_demo_env ''a'')"
    and z: "map_option od_content (getDoc (en_uri r) s') = Some ''z''"
    by (meson conjunct1 conjunct2)+
  then have "en_uri r = ''a''"
    by (simp add: doc_demo_env_def)
  then show ?thesis
    using z by (simp only: e snd_conv)
qed

end
