(* ===== verification/Diagnostics_Cache.thy ===== *)
theory Diagnostics_Cache
  imports Prelude
begin

text \<open>
  \<open>DiagnosticsCache\<close> of \<open>extensions/dev-tools/diagnostics-cache.ts\<close>: the diagnostics the
  language server has published, the fibers waiting for a first publication, and the wait
  until publications settle. Effect's \<open>Deferred\<close>s are numbers; the fibers that interleave
  with publications are a step relation, so that a lost wake-up would be a reachable state.
\<close>

section \<open>The class\<close>

definition DIAG_WAIT_TIMEOUT_MS :: nat where
  "DIAG_WAIT_TIMEOUT_MS = 2500"

definition DIAG_SETTLE_MS :: nat where
  "DIAG_SETTLE_MS = 2000"

text \<open>The waiter sets are lists without repetition; \<open>waiterCount\<close> is a signed number.\<close>

record 'd diag_cache =
  diag_items :: "(string, 'd list) jsmap"
  waiters :: "(string, nat list) jsmap"
  revisions :: "(string, nat) jsmap"
  settledRevisions :: "(string, nat) jsmap"
  waiterCount :: int

definition empty_diag :: "'d diag_cache" where
  "empty_diag = \<lparr>diag_items = [], waiters = [], revisions = [], settledRevisions = [], waiterCount = 0\<rparr>"

definition revision :: "'d diag_cache \<Rightarrow> string \<Rightarrow> nat" where
  "revision c uri = (case jm_get (revisions c) uri of None \<Rightarrow> 0 | Some n \<Rightarrow> n)"

definition waiting_for :: "'d diag_cache \<Rightarrow> string \<Rightarrow> nat list" where
  "waiting_for c uri = (case jm_get (waiters c) uri of None \<Rightarrow> [] | Some ds \<Rightarrow> ds)"

text \<open>An operation that completes deferreds returns them beside the new state.\<close>

definition settleWaiters :: "string \<Rightarrow> 'd diag_cache \<Rightarrow> nat list \<times> 'd diag_cache" where
  "settleWaiters uri c =
     (case jm_get (waiters c) uri of
        None \<Rightarrow> ([], c)
      | Some pending \<Rightarrow>
          (pending, c\<lparr>waiters := jm_delete uri (waiters c),
                      waiterCount := waiterCount c - int (length pending)\<rparr>))"

definition publish :: "string \<Rightarrow> 'd list \<Rightarrow> 'd diag_cache \<Rightarrow> nat list \<times> 'd diag_cache" where
  "publish uri items c =
     settleWaiters uri (c\<lparr>diag_items := jm_set uri items (diag_items c),
                          revisions := jm_set uri (revision c uri + 1) (revisions c)\<rparr>)"

definition delete_diag :: "string \<Rightarrow> 'd diag_cache \<Rightarrow> nat list \<times> 'd diag_cache" where
  "delete_diag uri c =
     (let (woken, c) = settleWaiters uri (c\<lparr>diag_items := jm_delete uri (diag_items c)\<rparr>) in
      (woken, c\<lparr>revisions := jm_delete uri (revisions c),
                settledRevisions := jm_delete uri (settledRevisions c)\<rparr>))"

fun settle_keys :: "string list \<Rightarrow> 'd diag_cache \<Rightarrow> nat list \<times> 'd diag_cache" where
  "settle_keys [] c = ([], c)"
| "settle_keys (u # us) c =
     (let (w, c) = settleWaiters u c; (ws, c) = settle_keys us c in (w @ ws, c))"

definition clear_diag :: "'d diag_cache \<Rightarrow> nat list \<times> 'd diag_cache" where
  "clear_diag c =
     (let (woken, c) = settle_keys (jm_keys (waiters c)) c in
      (woken, c\<lparr>diag_items := [], revisions := [], settledRevisions := []\<rparr>))"

definition get_diag :: "'d diag_cache \<Rightarrow> string \<Rightarrow> 'd list" where
  "get_diag c uri = (case jm_get (diag_items c) uri of None \<Rightarrow> [] | Some items \<Rightarrow> items)"

definition has_diag :: "'d diag_cache \<Rightarrow> string \<Rightarrow> bool" where
  "has_diag c uri = jm_has (diag_items c) uri"

definition addWaiter :: "string \<Rightarrow> nat \<Rightarrow> 'd diag_cache \<Rightarrow> bool \<times> 'd diag_cache" where
  "addWaiter uri d c =
     (if has_diag c uri then (False, c)
      else (True, c\<lparr>waiters := jm_set uri
              (if d \<in> set (waiting_for c uri) then waiting_for c uri else waiting_for c uri @ [d]) (waiters c),
            waiterCount := waiterCount c + 1\<rparr>))"

definition removeWaiter :: "string \<Rightarrow> nat \<Rightarrow> 'd diag_cache \<Rightarrow> 'd diag_cache" where
  "removeWaiter uri d c =
     (case jm_get (waiters c) uri of
        None \<Rightarrow> c
      | Some pending \<Rightarrow>
          if d \<notin> set pending then c
          else let pending = filter (\<lambda>e. e \<noteq> d) pending in
               c\<lparr>waiterCount := waiterCount c - 1,
                 waiters := (if pending = [] then jm_delete uri (waiters c)
                             else jm_set uri pending (waiters c))\<rparr>)"

section \<open>Fibers waiting for a first publication\<close>

text \<open>
  \<open>waitForFirstEffect\<close> acquires by making a deferred and registering it, awaits the deferred
  or a timeout, and releases by \<open>removeWaiter\<close>; a fiber that registered is in \<open>fibers\<close> from
  acquire to release. Between any two of those steps other calls run. The timeout may fire
  at any moment, so \<open>Wake\<close> is possible whether or not the deferred is completed.
\<close>

record 'd diag_system =
  dcache :: "'d diag_cache"
  fibers :: "(nat \<times> string) list"
  completed :: "nat list"
  next_deferred :: nat

definition start_system :: "'d diag_system" where
  "start_system = \<lparr>dcache = empty_diag, fibers = [], completed = [], next_deferred = 0\<rparr>"

definition complete :: "'d diag_system \<Rightarrow> nat list \<times> 'd diag_cache \<Rightarrow> 'd diag_system" where
  "complete y r = y\<lparr>dcache := snd r, completed := completed y @ fst r\<rparr>"

definition acquire_wait :: "string \<Rightarrow> 'd diag_system \<Rightarrow> 'd diag_system" where
  "acquire_wait uri y =
     (let d = next_deferred y; (registered, c) = addWaiter uri d (dcache y) in
      y\<lparr>dcache := c, next_deferred := Suc d,
        fibers := (if registered then fibers y @ [(d, uri)] else fibers y)\<rparr>)"

definition release_wait :: "nat \<times> string \<Rightarrow> 'd diag_system \<Rightarrow> 'd diag_system" where
  "release_wait f y = y\<lparr>dcache := removeWaiter (snd f) (fst f) (dcache y), fibers := remove1 f (fibers y)\<rparr>"

inductive diag_step :: "'d diag_system \<Rightarrow> 'd diag_system \<Rightarrow> bool" where
  Publish: "diag_step y (complete y (publish uri items (dcache y)))"
| Delete: "diag_step y (complete y (delete_diag uri (dcache y)))"
| Clear: "diag_step y (complete y (clear_diag (dcache y)))"
| Acquire: "diag_step y (acquire_wait uri y)"
| Wake: "f \<in> set (fibers y) \<Longrightarrow> diag_step y (release_wait f y)"

inductive diag_reachable :: "'d diag_system \<Rightarrow> bool" where
  Start: "diag_reachable start_system"
| Step: "diag_reachable y \<Longrightarrow> diag_step y y' \<Longrightarrow> diag_reachable y'"

inductive_cases diag_stepE: "diag_step y y'"

text \<open>
  Every registered deferred belongs to exactly one waiting fiber, under that fiber's URI and
  not yet completed; a waiting fiber that is not registered has been completed; nobody is
  registered for a URI that has diagnostics.
\<close>

definition live :: "'d diag_system \<Rightarrow> (nat \<times> string) list" where
  "live y = filter (\<lambda>f. fst f \<notin> set (completed y)) (fibers y)"

definition waiters_inv :: "'d diag_system \<Rightarrow> bool" where
  "waiters_inv y \<longleftrightarrow> jm_ok (waiters (dcache y)) \<and>
     (\<forall>u ds. jm_get (waiters (dcache y)) u = Some ds \<longrightarrow> ds \<noteq> [] \<and> distinct ds) \<and>
     distinct (map fst (fibers y)) \<and>
     (\<forall>f\<in>set (fibers y). fst f < next_deferred y) \<and> (\<forall>d\<in>set (completed y). d < next_deferred y) \<and>
     (\<forall>u d. d \<in> set (waiting_for (dcache y) u) \<longleftrightarrow> (d, u) \<in> set (live y)) \<and>
     waiterCount (dcache y) = int (length (live y))"

definition system_inv :: "'d diag_system \<Rightarrow> bool" where
  "system_inv y \<longleftrightarrow> waiters_inv y \<and> (\<forall>u. has_diag (dcache y) u \<longrightarrow> waiting_for (dcache y) u = [])"

section \<open>The invariant is preserved\<close>

lemma waiting_for_update [simp]:
  "waiting_for (c\<lparr>diag_items := m\<rparr>) u = waiting_for c u"
  "waiting_for (c\<lparr>revisions := r\<rparr>) u = waiting_for c u"
  "waiting_for (c\<lparr>settledRevisions := r\<rparr>) u = waiting_for c u"
  by (simp_all add: waiting_for_def)

lemma settleWaiters_sel:
  "diag_items (snd (settleWaiters u c)) = diag_items c"
  "revisions (snd (settleWaiters u c)) = revisions c"
  "settledRevisions (snd (settleWaiters u c)) = settledRevisions c"
  "waiting_for (snd (settleWaiters u c)) v = (if v = u then [] else waiting_for c v)"
  "fst (settleWaiters u c) = waiting_for c u"
  by (auto simp: settleWaiters_def waiting_for_def jm_get_delete split: option.splits)

lemma settle_inv:
  assumes inv: "waiters_inv y" and c: "waiters c = waiters (dcache y)" "waiterCount c = waiterCount (dcache y)"
  shows "waiters_inv (complete y (settleWaiters u c))"
proof (cases "jm_get (waiters c) u")
  case None
  then show ?thesis
    using inv c
    by (simp add: settleWaiters_def complete_def waiters_inv_def live_def waiting_for_def)
next
  case (Some pending)
  let ?y = "complete y (settleWaiters u c)"
  have ok: "jm_ok (waiters c)"
    and own: "\<And>v ds. jm_get (waiters c) v = Some ds \<Longrightarrow> ds \<noteq> [] \<and> distinct ds"
    and dist: "distinct (map fst (fibers y))"
    and reg: "\<And>v d. d \<in> set (waiting_for c v) \<longleftrightarrow> (d, v) \<in> set (live y)"
    and count: "waiterCount c = int (length (live y))"
    and old: "\<forall>f\<in>set (fibers y). fst f < next_deferred y" "\<forall>d\<in>set (completed y). d < next_deferred y"
    using inv c by (auto simp: waiters_inv_def waiting_for_def)
  have wf: "waiting_for c u = pending"
    using Some by (simp add: waiting_for_def)
  have live_in: "f \<in> set (fibers y)" if "f \<in> set (live y)" for f
    using that by (simp add: live_def)
  have dlive: "distinct (map fst (live y))"
    using dist by (simp add: live_def distinct_map_filter)
  have same: "v = u" if "(d, v) \<in> set (live y)" "d \<in> set pending" for d v
  proof -
    have "(d, u) \<in> set (live y)"
      using that(2) reg wf by blast
    then show ?thesis
      using that(1) dlive by (metis eq_key_imp_eq_value)
  qed
  have live': "live ?y = filter (\<lambda>f. fst f \<notin> set pending) (live y)"
    by (simp add: live_def complete_def settleWaiters_sel wf conj_commute)
  have "set (map fst (filter (\<lambda>f. fst f \<in> set pending) (live y))) = set pending"
    using reg wf by force
  moreover have "distinct (map fst (filter (\<lambda>f. fst f \<in> set pending) (live y)))"
    using dlive by (simp add: distinct_map_filter)
  moreover have "distinct pending"
    using own Some by blast
  ultimately have "length (filter (\<lambda>f. fst f \<in> set pending) (live y)) = length pending"
    by (metis distinct_card length_map)
  then have len: "length (live y) = length (live ?y) + length pending"
    using sum_length_filter_compl [of "\<lambda>f. fst f \<in> set pending" "live y"] by (simp add: live')
  have "waiterCount (dcache ?y) = int (length (live ?y))"
    using len count Some by (simp add: complete_def settleWaiters_def)
  moreover have "d \<in> set (waiting_for (dcache ?y) v) \<longleftrightarrow> (d, v) \<in> set (live ?y)" for d v
  proof -
    have m: "(d, v) \<in> set (live ?y) \<longleftrightarrow> (d, v) \<in> set (live y) \<and> d \<notin> set pending"
      by (simp add: live')
    have "waiting_for (dcache ?y) v = (if v = u then [] else waiting_for c v)"
      by (simp add: complete_def settleWaiters_sel)
    then show ?thesis
      unfolding m using reg [of d v] same [of d v] wf by auto
  qed
  moreover have "jm_ok (waiters (dcache ?y))"
    using ok Some by (simp add: complete_def settleWaiters_def jm_ok_delete)
  moreover have "ds \<noteq> [] \<and> distinct ds" if "jm_get (waiters (dcache ?y)) v = Some ds" for v ds
    using that own Some
    by (simp add: complete_def settleWaiters_def jm_get_delete split: if_splits)
  moreover have "fibers ?y = fibers y" "next_deferred ?y = next_deferred y"
    by (simp_all add: complete_def)
  moreover have "\<forall>d\<in>set (completed ?y). d < next_deferred y"
  proof
    fix d assume "d \<in> set (completed ?y)"
    then have "d \<in> set (completed y) \<or> (d, u) \<in> set (live y)"
      using reg [of d u] by (auto simp: complete_def settleWaiters_sel)
    then show "d < next_deferred y"
      using old live_in by force
  qed
  ultimately show ?thesis
    using dist old unfolding waiters_inv_def by auto
qed

lemma waiters_inv_cong:
  assumes "waiters c = waiters (dcache y)" "waiterCount c = waiterCount (dcache y)" "waiters_inv y"
  shows "waiters_inv (y\<lparr>dcache := c\<rparr>)"
  using assms by (simp add: waiters_inv_def live_def waiting_for_def)

lemma settle_keys_sel:
  "diag_items (snd (settle_keys us c)) = diag_items c"
  "waiting_for (snd (settle_keys us c)) v = (if v \<in> set us then [] else waiting_for c v)"
  by (induction us arbitrary: c) (auto simp: settleWaiters_sel Let_def case_prod_beta)

lemma settle_keys_inv:
  "waiters_inv y \<Longrightarrow> waiters_inv (complete y (settle_keys us (dcache y)))"
proof (induction us arbitrary: y)
  case Nil
  then show ?case by (simp add: complete_def)
next
  case (Cons u us)
  have "waiters_inv (complete y (settleWaiters u (dcache y)))"
    using settle_inv Cons.prems by blast
  from Cons.IH [OF this] show ?case
    by (simp add: complete_def Let_def case_prod_beta)
qed

lemma waiting_for_keys: "u \<in> set (jm_keys (waiters c)) \<longleftrightarrow> jm_get (waiters c) u \<noteq> None"
  by (simp add: jm.keys_get)

lemma acquire_wait_inv:
  assumes inv: "system_inv y"
  shows "system_inv (acquire_wait uri y)"
proof (cases "has_diag (dcache y) uri")
  case True
  then show ?thesis
    using inv unfolding system_inv_def waiters_inv_def live_def acquire_wait_def addWaiter_def
    by (auto simp: less_SucI)
next
  case False
  let ?d = "next_deferred y"
  let ?y = "acquire_wait uri y"
  have w: "waiters_inv y" and has: "\<And>u. has_diag (dcache y) u \<Longrightarrow> waiting_for (dcache y) u = []"
    using inv by (auto simp: system_inv_def)
  have new: "?d \<notin> set (completed y)" "?d \<notin> fst ` set (fibers y)"
    and old: "\<forall>f\<in>set (fibers y). fst f < ?d" "\<forall>d\<in>set (completed y). d < ?d"
    using w by (auto simp: waiters_inv_def)
  have reg: "\<And>v d. d \<in> set (waiting_for (dcache y) v) \<longleftrightarrow> (d, v) \<in> set (live y)"
    using w by (simp add: waiters_inv_def)
  have fresh: "?d \<notin> set (waiting_for (dcache y) u)" for u
    using reg new by (force simp: live_def)
  have y': "dcache ?y = (dcache y)\<lparr>waiters := jm_set uri (waiting_for (dcache y) uri @ [?d]) (waiters (dcache y)),
              waiterCount := waiterCount (dcache y) + 1\<rparr>"
    "fibers ?y = fibers y @ [(?d, uri)]" "completed ?y = completed y" "next_deferred ?y = Suc ?d"
    using False fresh by (simp_all add: acquire_wait_def addWaiter_def Let_def)
  have wf: "waiting_for (dcache ?y) v =
      (if v = uri then waiting_for (dcache y) uri @ [?d] else waiting_for (dcache y) v)" for v
    by (simp add: y' waiting_for_def jm_get_set)
  have live': "live ?y = live y @ [(?d, uri)]"
    using new by (simp add: live_def y')
  have dw: "distinct (waiting_for (dcache y) v)" for v
    using w by (auto simp: waiters_inv_def waiting_for_def split: option.splits)
  have "waiters_inv ?y"
    unfolding waiters_inv_def
  proof (intro conjI allI impI)
    show "jm_ok (waiters (dcache ?y))"
      using w by (simp add: y' waiters_inv_def jm_ok_set)
    show "distinct (map fst (fibers ?y))"
      using w new by (simp add: y' waiters_inv_def)
    show "\<forall>f\<in>set (fibers ?y). fst f < next_deferred ?y" "\<forall>d\<in>set (completed ?y). d < next_deferred ?y"
      using old by (auto simp: y' less_SucI)
    show "waiterCount (dcache ?y) = int (length (live ?y))"
      using w by (simp add: live' waiters_inv_def) (simp add: y')
    show "(d \<in> set (waiting_for (dcache ?y) u)) = ((d, u) \<in> set (live ?y))" for u d
      using reg by (auto simp: wf live')
    fix u ds assume "jm_get (waiters (dcache ?y)) u = Some ds"
    then have "ds = waiting_for (dcache ?y) u" "ds = [] \<longrightarrow> jm_get (waiters (dcache y)) u = Some []"
      by (auto simp: waiting_for_def y' jm_get_set split: if_splits)
    then show "ds \<noteq> []" "distinct ds"
      using w dw fresh by (auto simp: wf waiters_inv_def)
  qed
  then show ?thesis
    using has False by (auto simp: system_inv_def wf) (simp_all add: y' has_diag_def)
qed

lemma removeWaiter_sel:
  "diag_items (removeWaiter u d c) = diag_items c"
  "waiting_for (removeWaiter u d c) v =
     (if v = u then filter (\<lambda>e. e \<noteq> d) (waiting_for c u) else waiting_for c v)"
proof -
  show "diag_items (removeWaiter u d c) = diag_items c"
    by (simp add: removeWaiter_def Let_def split: option.splits)
  show "waiting_for (removeWaiter u d c) v =
     (if v = u then filter (\<lambda>e. e \<noteq> d) (waiting_for c u) else waiting_for c v)"
  proof (cases "jm_get (waiters c) u")
    case None
    then show ?thesis by (simp add: removeWaiter_def waiting_for_def)
  next
    case (Some ds)
    have "filter (\<lambda>e. e \<noteq> d) ds = ds" if "d \<notin> set ds"
      using that by (metis (mono_tags) filter_True)
    then show ?thesis
      using Some by (auto simp: removeWaiter_def waiting_for_def Let_def jm_get_set jm_get_delete)
  qed
qed

lemma release_wait_inv:
  assumes inv: "system_inv y" and f: "f \<in> set (fibers y)"
  shows "system_inv (release_wait f y)"
proof -
  obtain d u where du: "f = (d, u)" by fastforce
  let ?y = "release_wait f y"
  have w: "waiters_inv y" and has: "\<And>u. has_diag (dcache y) u \<Longrightarrow> waiting_for (dcache y) u = []"
    using inv by (auto simp: system_inv_def)
  have dist: "distinct (map fst (fibers y))"
    using w by (simp add: waiters_inv_def)
  then have df: "distinct (fibers y)"
    by (simp add: distinct_map)
  have reg: "\<And>v e. e \<in> set (waiting_for (dcache y) v) \<longleftrightarrow> (e, v) \<in> set (live y)"
    using w by (simp add: waiters_inv_def)
  have one: "v = u" if "(d, v) \<in> set (fibers y)" for v
    using that f dist du by (metis eq_key_imp_eq_value)
  have live': "live ?y = filter (\<lambda>g. g \<noteq> f) (live y)"
    by (simp add: live_def release_wait_def distinct_remove1_removeAll [OF df] removeAll_filter_not_eq
        conj_commute eq_commute [of f])
  have dl: "distinct (live y)"
    using df by (simp add: live_def)
  have "waiters_inv ?y"
    unfolding waiters_inv_def
  proof (intro conjI allI impI)
    show "distinct (map fst (fibers ?y))"
      using dist by (simp add: release_wait_def distinct_map inj_on_def distinct_remove1)
    show "\<forall>f\<in>set (fibers ?y). fst f < next_deferred ?y" "\<forall>d\<in>set (completed ?y). d < next_deferred ?y"
      using w set_remove1_subset [of f "fibers y"] by (auto simp: release_wait_def waiters_inv_def)
    show "(e \<in> set (waiting_for (dcache ?y) v)) = ((e, v) \<in> set (live ?y))" for v e
    proof -
      have a: "set (waiting_for (dcache ?y) v) =
          (if v = u then {e \<in> set (waiting_for (dcache y) u). e \<noteq> d} else set (waiting_for (dcache y) v))"
        by (simp add: release_wait_def removeWaiter_sel du)
      have b: "(e, v) \<in> set (live ?y) \<longleftrightarrow> (e, v) \<in> set (live y) \<and> (e, v) \<noteq> (d, u)"
        using live' du by auto
      have "v = u" if "(d, v) \<in> set (live y)"
        using that one by (simp add: live_def)
      then show ?thesis
        unfolding a b using reg [of e v] by auto
    qed
    show "jm_ok (waiters (dcache ?y))"
      using w by (simp add: release_wait_def removeWaiter_def Let_def waiters_inv_def jm_ok_set
          jm_ok_delete split: option.splits)
    show "ds \<noteq> []" "distinct ds" if "jm_get (waiters (dcache ?y)) v = Some ds" for v ds
      using that w
      by (auto simp: release_wait_def removeWaiter_def Let_def waiters_inv_def jm_get_set
          jm_get_delete split: option.splits if_splits)
    show "waiterCount (dcache ?y) = int (length (live ?y))"
    proof (cases "f \<in> set (live y)")
      case True
      then have "d \<in> set (waiting_for (dcache y) u)"
        using reg du by simp
      then have "waiterCount (dcache ?y) = waiterCount (dcache y) - 1"
        by (cases "jm_get (waiters (dcache y)) u")
          (simp_all add: release_wait_def du removeWaiter_def waiting_for_def Let_def)
      moreover have "length (live ?y) = length (live y) - 1"
      proof -
        have "filter (\<lambda>g. g \<noteq> f) (live y) = remove1 f (live y)"
          using dl by (simp add: distinct_remove1_removeAll removeAll_filter_not_eq eq_commute [of f])
        then show ?thesis
          using True by (simp add: live' length_remove1)
      qed
      moreover have "0 < length (live y)"
        using True by (rule length_pos_if_in_set)
      moreover have "waiterCount (dcache y) = int (length (live y))"
        using w by (simp add: waiters_inv_def)
      ultimately show ?thesis
        by arith
    next
      case False
      then have "d \<notin> set (waiting_for (dcache y) u)"
        using reg du by simp
      then have "dcache ?y = dcache y"
        by (cases "jm_get (waiters (dcache y)) u")
          (simp_all add: release_wait_def du removeWaiter_def waiting_for_def Let_def)
      moreover have "live ?y = live y"
        using False by (metis (mono_tags, lifting) filter_True live')
      ultimately show ?thesis
        using w by (simp add: waiters_inv_def)
    qed
  qed
  then show ?thesis
    using has by (auto simp: system_inv_def release_wait_def removeWaiter_sel has_diag_def)
qed

lemma system_inv_start: "system_inv start_system"
  by (simp add: system_inv_def waiters_inv_def start_system_def empty_diag_def live_def jm_ok_def
      jm_get_def waiting_for_def)

lemma system_inv_step: "diag_step y y' \<Longrightarrow> system_inv y \<Longrightarrow> system_inv y'"
proof (erule diag_stepE)
  assume inv: "system_inv y"
  then have w: "waiters_inv y" and has: "\<And>u. has_diag (dcache y) u \<Longrightarrow> waiting_for (dcache y) u = []"
    by (auto simp: system_inv_def)
  have all: "waiting_for (dcache y) u = []" if "u \<notin> set (jm_keys (waiters (dcache y)))" for u
    using that by (simp add: waiting_for_keys waiting_for_def)
  show "system_inv y'" if "y' = complete y (publish uri items (dcache y))" for uri items
  proof -
    have "waiters_inv y'"
      unfolding that publish_def by (rule settle_inv) (simp_all add: w)
    moreover have "waiting_for (dcache y') u = []" if "has_diag (dcache y') u" for u
      using that has [of u] \<open>y' = _\<close>
      by (auto simp: complete_def publish_def settleWaiters_sel has_diag_def jm_has_get jm_get_set
          split: if_splits)
    ultimately show ?thesis by (simp add: system_inv_def)
  qed
  show "system_inv y'" if y': "y' = complete y (delete_diag uri (dcache y))" for uri
  proof -
    let ?c = "(dcache y)\<lparr>diag_items := jm_delete uri (diag_items (dcache y))\<rparr>"
    have "waiters_inv (complete y (settleWaiters uri ?c))"
      by (rule settle_inv) (simp_all add: w)
    then have "waiters_inv y'"
      by (simp add: y' complete_def delete_diag_def case_prod_beta Let_def waiters_inv_def live_def
          waiting_for_def)
    moreover have "waiting_for (dcache y') u = []" if "has_diag (dcache y') u" for u
      using that has [of u] settleWaiters_sel(4) [of uri ?c u]
      by (auto simp: y' complete_def delete_diag_def case_prod_beta Let_def has_diag_def jm_has_get
          jm_get_delete settleWaiters_sel split: if_splits)
    ultimately show ?thesis by (simp add: system_inv_def)
  qed
  show "system_inv y'" if y': "y' = complete y (clear_diag (dcache y))"
  proof -
    have "waiters_inv (complete y (settle_keys (jm_keys (waiters (dcache y))) (dcache y)))"
      by (rule settle_keys_inv [OF w])
    then have "waiters_inv y'"
      by (simp add: y' complete_def clear_diag_def case_prod_beta Let_def waiters_inv_def live_def
          waiting_for_def)
    then show ?thesis
      by (simp add: system_inv_def y' complete_def clear_diag_def case_prod_beta Let_def has_diag_def
          jm_has_def)
  qed
  show "system_inv y'" if "y' = acquire_wait uri y" for uri
    using that acquire_wait_inv [OF inv] by simp
  show "system_inv y'" if "y' = release_wait f y" "f \<in> set (fibers y)" for f
    using that release_wait_inv [OF inv] by simp
qed

lemma system_inv_reachable: "diag_reachable y \<Longrightarrow> system_inv y"
  by (induction rule: diag_reachable.induct) (auto intro: system_inv_start system_inv_step)

text \<open>C16: no wake-up is lost: in every reachable interleaving of publications, deletions, clears
  and waiting fibers, a fiber that waits for a URI whose diagnostics are there has its
  deferred completed, and \<open>pendingWaiterCount\<close> counts exactly the waiting fibers that are not
  yet completed (so it is zero when nobody waits).\<close>

theorem no_lost_wakeup:
  assumes "diag_reachable y"
  shows "(\<forall>(d, uri) \<in> set (fibers y). has_diag (dcache y) uri \<longrightarrow> d \<in> set (completed y)) \<and>
    waiterCount (dcache y) = int (length (filter (\<lambda>f. fst f \<notin> set (completed y)) (fibers y)))"
proof (intro conjI ballI)
  note inv = system_inv_reachable [OF assms]
  show "waiterCount (dcache y) = int (length (filter (\<lambda>f. fst f \<notin> set (completed y)) (fibers y)))"
    using inv by (simp add: system_inv_def waiters_inv_def live_def)
  fix f assume f: "f \<in> set (fibers y)"
  obtain d u where du: "f = (d, u)" by fastforce
  have "d \<in> set (completed y)" if "has_diag (dcache y) u"
  proof (rule ccontr)
    assume "d \<notin> set (completed y)"
    then have "(d, u) \<in> set (live y)"
      using f du by (simp add: live_def)
    then have "d \<in> set (waiting_for (dcache y) u)"
      using inv by (simp add: system_inv_def waiters_inv_def)
    then show False
      using inv that by (simp add: system_inv_def)
  qed
  then show "case f of (d, uri) \<Rightarrow> has_diag (dcache y) uri \<longrightarrow> d \<in> set (completed y)"
    by (simp add: du)
qed

section \<open>Waiting until publications settle\<close>

text \<open>
  \<open>waitForSettledEffect\<close> in time, in milliseconds. What the other fibers do to the cache is a list of calls,
  each with the time of the clock at which it happens, in their order. A fiber that waits for a
  deferred or sleeps is resumed at the due time or later: \<open>late n\<close> is the delay of its \<open>n\<close>-th resumption;
  what runs between two waits takes no time. The result says which return was taken, when, and what
  is left of the calls; \<open>None\<close> is a fiber that has used up its fuel, one unit for each test of the deadline.
\<close>

datatype 'd diag_op = Op_publish string "'d list" | Op_delete string | Op_clear

fun diag_call :: "'d diag_op \<Rightarrow> 'd diag_cache \<Rightarrow> nat list \<times> 'd diag_cache" where
  "diag_call (Op_publish u items) c = publish u items c"
| "diag_call (Op_delete u) c = delete_diag u c"
| "diag_call Op_clear c = clear_diag c"

definition run_ops :: "'d diag_op list \<Rightarrow> 'd diag_cache \<Rightarrow> 'd diag_cache" where
  "run_ops ops c = foldl (\<lambda>c x. snd (diag_call x c)) c ops"

type_synonym 'd timeline = "(nat \<times> 'd diag_op) list"

text \<open>The calls up to a time, and the cache after them.\<close>

definition advance :: "nat \<Rightarrow> 'd timeline \<Rightarrow> 'd diag_cache \<Rightarrow> 'd timeline \<times> 'd diag_cache" where
  "advance t es c =
     (dropWhile (\<lambda>e. fst e \<le> t) es, run_ops (map snd (takeWhile (\<lambda>e. fst e \<le> t) es)) c)"

text \<open>Waiting for a deferred, at most until \<open>due\<close>: the time at which the wait is over.\<close>

fun await_deferred :: "nat \<Rightarrow> nat \<Rightarrow> 'd timeline \<Rightarrow> 'd diag_cache \<Rightarrow> nat \<times> 'd timeline \<times> 'd diag_cache" where
  "await_deferred d due [] c = (due, [], c)"
| "await_deferred d due ((t, x) # es) c =
     (if due < t then (due, (t, x) # es, c)
      else let (woken, c) = diag_call x c in
        if d \<in> set woken then (t, es, c) else await_deferred d due es c)"

definition waitForFirst ::
  "string \<Rightarrow> nat \<Rightarrow> nat \<Rightarrow> nat \<Rightarrow> nat \<Rightarrow> 'd timeline \<Rightarrow> 'd diag_cache \<Rightarrow> nat \<times> 'd timeline \<times> 'd diag_cache" where
  "waitForFirst uri timeoutMs delay d now es c =
     (let (registered, c) = addWaiter uri d c in
      if registered then
        let (t, es, c) = await_deferred d (now + timeoutMs) es c;
            t = max now t + delay;
            (es, c) = advance t es c
        in (t, es, removeWaiter uri d c)
      else (now, es, c))"

datatype settle_reason = Already_settled | Quiet | Deadline

definition mark_settled :: "string \<Rightarrow> 'd diag_cache \<Rightarrow> 'd diag_cache" where
  "mark_settled uri c = c\<lparr>settledRevisions := jm_set uri (revision c uri) (settledRevisions c)\<rparr>"

fun settle_loop ::
  "nat \<Rightarrow> string \<Rightarrow> nat \<Rightarrow> nat \<Rightarrow> (nat \<Rightarrow> nat) \<Rightarrow> nat \<Rightarrow> nat \<Rightarrow> nat \<Rightarrow> 'd timeline \<Rightarrow> 'd diag_cache \<Rightarrow>
   (settle_reason \<times> nat \<times> 'd timeline \<times> 'd diag_cache) option" where
  "settle_loop 0 uri settleMs deadline late k seen now es c = None"
| "settle_loop (Suc fuel) uri settleMs deadline late k seen now es c =
     (if now < deadline then
        let t = now + settleMs + late k;
            (es, c) = advance t es c;
            current = revision c uri
        in if current = seen then Some (Quiet, t, es, mark_settled uri c)
           else settle_loop fuel uri settleMs deadline late (Suc k) current t es c
      else Some (Deadline, now, es, mark_settled uri c))"

definition waitForSettled ::
  "nat \<Rightarrow> string \<Rightarrow> nat \<Rightarrow> nat \<Rightarrow> (nat \<Rightarrow> nat) \<Rightarrow> nat \<Rightarrow> nat \<Rightarrow> 'd timeline \<Rightarrow> 'd diag_cache \<Rightarrow>
   (settle_reason \<times> nat \<times> 'd timeline \<times> 'd diag_cache) option" where
  "waitForSettled fuel uri settleMs timeoutMs late d start es c =
     (let (now, es, c) = waitForFirst uri timeoutMs (late 0) d start es c;
          deadline = now + timeoutMs;
          seen = revision c uri
      in if jm_get (settledRevisions c) uri = Some seen then Some (Already_settled, now, es, c)
         else settle_loop fuel uri settleMs deadline late 1 seen now es c)"





fun touches :: "string \<Rightarrow> 'd diag_op \<Rightarrow> bool" where
  "touches uri (Op_publish u items) = False"
| "touches uri (Op_delete u) = (u = uri)"
| "touches uri Op_clear = True"

fun publishes :: "string \<Rightarrow> 'd diag_op \<Rightarrow> bool" where
  "publishes uri (Op_publish u items) = (u = uri)"
| "publishes uri x = False"

lemma revision_publish: "revision (snd (publish u items c)) v = (if v = u then revision c u + 1 else revision c v)"
  by (simp add: publish_def revision_def settleWaiters_sel jm_get_set)

lemma revision_mono:
  "\<not> touches uri x \<Longrightarrow> revision (snd (diag_call x c)) uri = revision c uri + (if publishes uri x then 1 else 0)"
proof (cases x)
  case (Op_delete u)
  assume "\<not> touches uri x"
  then show ?thesis
    by (simp add: Op_delete delete_diag_def case_prod_beta Let_def revision_def settleWaiters_sel jm_get_delete)
qed (auto simp: revision_publish)

lemma revision_run_ops:
  "\<forall>x\<in>set ops. \<not> touches uri x \<Longrightarrow>
   revision (run_ops ops c) uri = revision c uri + length (filter (publishes uri) ops)"
  by (induction ops arbitrary: c) (simp_all add: run_ops_def revision_mono)

lemma settle_loop_quiet:
  assumes "settle_loop fuel uri settleMs deadline late k seen now es c = Some (Quiet, t, rest, c')" and "revision c uri = seen"
    and "\<forall>e\<in>set es. \<not> touches uri (snd e)"
  shows "\<exists>pre mid from. es = pre @ mid @ rest \<and> now \<le> from \<and> from + settleMs \<le> t \<and>
    (\<forall>e\<in>set mid. fst e \<le> t \<and> \<not> publishes uri (snd e)) \<and> (rest = [] \<or> t < fst (hd rest))"
  using assms
proof (induction fuel arbitrary: k seen now es c)
  case (Suc fuel)
  let ?t = "now + settleMs + late k"
  define mid es1 where "mid = takeWhile (\<lambda>e. fst e \<le> ?t) es" and "es1 = dropWhile (\<lambda>e. fst e \<le> ?t) es"
  have es: "es = mid @ es1" and early: "\<forall>e\<in>set mid. fst e \<le> ?t" and later: "es1 = [] \<or> ?t < fst (hd es1)"
    using hd_dropWhile [of "\<lambda>e. fst e \<le> ?t" es] unfolding mid_def es1_def
    by (simp, metis set_takeWhileD, metis not_le)
  define c1 where "c1 = run_ops (map snd mid) c"
  have adv: "advance ?t es c = (es1, c1)"
    by (simp add: advance_def mid_def es1_def c1_def)
  have quiet: "revision c1 uri = revision c uri + length (filter (publishes uri) (map snd mid))"
    unfolding c1_def using Suc.prems(3) es by (intro revision_run_ops) auto
  have now: "now < deadline"
    using Suc.prems(1) by (auto split: if_splits)
  show ?case
  proof (cases "revision c1 uri = seen")
    case True
    then have "t = ?t" "rest = es1"
      using Suc.prems(1) now adv by (simp_all add: Let_def)
    moreover have "\<forall>e\<in>set mid. \<not> publishes uri (snd e)"
      using True quiet Suc.prems(2) by (auto simp: filter_empty_conv)
    ultimately show ?thesis
      using es early later by (intro exI [of _ "[]"] exI [of _ mid] exI [of _ now]) auto
  next
    case False
    then have "settle_loop fuel uri settleMs deadline late (Suc k) (revision c1 uri) ?t es1 c1 = Some (Quiet, t, rest, c')"
      using Suc.prems(1) now adv by (simp add: Let_def)
    then obtain pre mid' "from" where "es1 = pre @ mid' @ rest" "?t \<le> from" "from + settleMs \<le> t"
      "\<forall>e\<in>set mid'. fst e \<le> t \<and> \<not> publishes uri (snd e)" "rest = [] \<or> t < fst (hd rest)"
      using Suc.IH Suc.prems(3) es by (metis Un_iff set_append)
    then show ?thesis
      using es by (intro exI [of _ "mid @ pre"] exI [of _ mid'] exI [of _ "from"]) auto
  qed
qed simp

text \<open>While the entry is neither deleted nor cleared, \<open>waitForSettled\<close> that returns before its
  deadline returns after a whole sleep without a publication for the URI.\<close>

theorem settled_means_quiet:
  assumes "waitForSettled fuel uri settleMs timeoutMs late d start es c = Some (Quiet, t, rest, c')"
    and "\<forall>e\<in>set es. \<not> touches uri (snd e)" and "has_diag c uri"
  shows "\<exists>pre mid from. es = pre @ mid @ rest \<and> start \<le> from \<and> from + settleMs \<le> t \<and>
    (\<forall>e\<in>set mid. fst e \<le> t \<and> \<not> publishes uri (snd e)) \<and> (rest = [] \<or> t < fst (hd rest))"
proof -
  have "waitForFirst uri timeoutMs (late 0) d start es c = (start, es, c)"
    using assms(3) by (simp add: waitForFirst_def addWaiter_def)
  then show ?thesis
    using assms(1,2) settle_loop_quiet [of fuel uri settleMs _ late 1 _ start es c t rest c']
    by (simp add: waitForSettled_def Let_def split: if_splits)
qed

text \<open>Deleting an entry restarts its revisions at zero, so the comparison can be fooled: a
  waiter that remembers revision 1 takes a deletion followed by a new publication, during its
  own sleep, for silence, and marks the new revision settled, so that the next waiter returns
  at once.\<close>

theorem delete_publish_taken_for_quiet:
  assumes "revision c uri = 1" and "jm_get (settledRevisions c) uri \<noteq> Some 1" and "0 < timeoutMs" and "has_diag c uri"
    and "t1 \<le> t2" and "t2 \<le> start + settleMs"
  shows "\<exists>c'. waitForSettled (Suc fuel) uri settleMs timeoutMs (\<lambda>_. 0) d start [(t1, Op_delete uri), (t2, Op_publish uri items)] c =
      Some (Quiet, start + settleMs, [], c') \<and>
    waitForSettled fuel' uri settleMs timeoutMs (\<lambda>_. 0) d' start' [] c' = Some (Already_settled, start', [], c')"
proof -
  let ?c = "run_ops [Op_delete uri, Op_publish uri items] c"
  have first: "waitForFirst uri timeoutMs 0 d start es c = (start, es, c)" if "has_diag c uri" for d start es and c :: "'a diag_cache"
    using that by (simp add: waitForFirst_def addWaiter_def)
  have "revision (snd (delete_diag uri c)) uri = 0"
    by (simp add: delete_diag_def case_prod_beta Let_def revision_def jm_get_delete)
  then have one: "revision ?c uri = 1"
    by (simp add: run_ops_def revision_publish)
  then have marked: "revision (mark_settled uri ?c) uri = 1" "jm_get (settledRevisions (mark_settled uri ?c)) uri = Some 1"
    by (simp_all add: mark_settled_def revision_def jm_get_set)
  have has: "has_diag (mark_settled uri ?c) uri"
    by (simp add: mark_settled_def run_ops_def has_diag_def jm_has_get publish_def settleWaiters_sel jm_get_set)
  show ?thesis
    using assms one marked by (intro exI [of _ "mark_settled uri ?c"]) (simp add: waitForSettled_def first has advance_def Let_def)
qed

section \<open>Witnesses\<close>

definition demo_cache :: "nat diag_cache" where
  "demo_cache = run_ops [Op_publish ''a'' [1]] empty_diag"

theorem no_lost_wakeup_witness:
  "waiterCount (dcache (acquire_wait ''a'' (start_system :: nat diag_system))) = 1"
proof -
  have "diag_reachable (acquire_wait ''a'' (start_system :: nat diag_system))"
    by (rule diag_reachable.Step [OF diag_reachable.Start diag_step.Acquire])
  from conjunct2 [OF no_lost_wakeup [OF this]] show ?thesis
    by (simp add: acquire_wait_def start_system_def empty_diag_def addWaiter_def has_diag_def jm_has_def)
qed

definition demo_calls :: "nat timeline" where
  "demo_calls = [(1000, Op_publish ''a'' [2]), (2500, Op_publish ''a'' [3])]"


text \<open>Publications keep it waiting to its deadline: the return at 4020 ms follows a deadline at 2500 ms.\<close>

lemma wait_past_deadline:
  "map_option (\<lambda>(reason, t, _). (reason, t))
     (waitForSettled 3 ''a'' DIAG_SETTLE_MS DIAG_WAIT_TIMEOUT_MS (\<lambda>_. 10) 7 0 demo_calls demo_cache) = Some (Deadline, 4020)"
  by code_simp

end
