(* ===== verification/File_Cache.thy ===== *)
theory File_Cache
  imports Text_Edits
begin

text \<open>
  The readers of \<open>FileCache\<close> in \<open>extensions/dev-tools/file-cache.ts\<close>: one line, a range of
  lines, and the end of the declaration that starts on a line. The cache itself is Effect's
  \<open>Cache\<close>; an entry here is what a lookup returned, \<open>None\<close> after any failure. Texts are
  UTF-16 code units, as in \<open>Text_Edits\<close>.
\<close>

definition MAX_FILE_SIZE_BYTES :: nat where
  "MAX_FILE_SIZE_BYTES = 512 * 1024"

record cache_entry =
  ce_content :: jstext
  ce_lines :: "jstext list"

text \<open>\<open>loadEntry\<close>: a failing \<open>stat\<close> or \<open>read\<close>, or a file over the limit, is no entry.\<close>

fun split_newline :: "jstext \<Rightarrow> jstext \<Rightarrow> jstext list" where
  "split_newline acc [] = [acc]"
| "split_newline acc (c # cs) = (if c = 10 then acc # split_newline [] cs else split_newline (acc @ [c]) cs)"

definition loadEntry :: "nat option \<Rightarrow> jstext option \<Rightarrow> cache_entry option" where
  "loadEntry bytes content =
     (case bytes of
        None \<Rightarrow> None
      | Some n \<Rightarrow>
          if n > MAX_FILE_SIZE_BYTES then None
          else map_option (\<lambda>t. \<lparr>ce_content = t, ce_lines = split_newline [] t\<rparr>) content)"

definition readFile :: "cache_entry option \<Rightarrow> jstext option" where
  "readFile e = map_option ce_content e"

text \<open>\<open>!entry?.content\<close> holds for a missing entry and for an empty file.\<close>

definition no_content :: "cache_entry option \<Rightarrow> bool" where
  "no_content e = (case e of None \<Rightarrow> True | Some e \<Rightarrow> ce_content e = [])"

definition js_space :: "16 word \<Rightarrow> bool" where
  "js_space c = (c \<in> {9, 10, 11, 12, 13, 32, 0xA0, 0x1680, 0x2028, 0x2029, 0x202F, 0x205F, 0x3000, 0xFEFF} \<or>
     (0x2000 \<le> c \<and> c \<le> 0x200A))"

definition js_trim :: "jstext \<Rightarrow> jstext" where
  "js_trim t = rev (dropWhile js_space (rev (dropWhile js_space t)))"

definition getLine :: "cache_entry option \<Rightarrow> int \<Rightarrow> jstext" where
  "getLine e lineNumber =
     (if no_content e then []
      else let lines = ce_lines (the e) in
           if 1 \<le> lineNumber \<and> lineNumber \<le> int (length lines)
           then js_trim (lines ! nat (lineNumber - 1)) else [])"

fun join_lines :: "jstext list \<Rightarrow> jstext" where
  "join_lines [] = []"
| "join_lines [l] = l"
| "join_lines (l # ls) = l @ [10] @ join_lines ls"

definition extractLines :: "cache_entry option \<Rightarrow> nat \<Rightarrow> nat \<Rightarrow> jstext option" where
  "extractLines e startLine endLine =
     (if no_content e then None
      else Some (join_lines (js_slice startLine (endLine + 1) (ce_lines (the e)))))"

text \<open>The lines of a loaded entry are its content: extracting all of them gives it back.\<close>

lemma split_newline_not_Nil: "split_newline acc t \<noteq> []"
  by (induction acc t rule: split_newline.induct) auto

lemma join_split_newline: "join_lines (split_newline acc t) = acc @ t"
proof (induction acc t rule: split_newline.induct)
  case (1 acc)
  then show ?case by simp
next
  case (2 acc c cs)
  then show ?case
    using split_newline_not_Nil [of "[]" cs] by (cases "split_newline [] cs") auto
qed

lemma extract_whole_file:
  "loadEntry bytes content = Some e \<Longrightarrow> \<not> no_content (Some e) \<Longrightarrow>
   extractLines (Some e) 0 (length (ce_lines e) - 1) = content \<and> content = readFile (Some e)"
proof -
  assume load: "loadEntry bytes content = Some e" and c: "\<not> no_content (Some e)"
  then obtain t where t: "content = Some t" "e = \<lparr>ce_content = t, ce_lines = split_newline [] t\<rparr>"
    by (auto simp: loadEntry_def split: option.splits if_splits)
  then show ?thesis
    using c split_newline_not_Nil [of "[]" t]
    by (simp add: extractLines_def js_slice_def join_split_newline readFile_def)
qed

section \<open>The end of a block\<close>

text \<open>The two loops of \<open>expandToBlock\<close>; 123 and 125 are the braces.\<close>

fun scan_line :: "jstext \<Rightarrow> int \<times> bool \<Rightarrow> int \<times> bool" where
  "scan_line [] (depth, foundOpen) = (depth, foundOpen)"
| "scan_line (c # cs) (depth, foundOpen) =
     (let (depth, foundOpen) = (if c = 123 then (depth + 1, True) else (depth, foundOpen));
          depth = (if c = 125 then depth - 1 else depth) in
      scan_line cs (depth, foundOpen))"

fun scan_lines :: "jstext list \<Rightarrow> nat \<Rightarrow> int \<times> bool \<Rightarrow> nat option" where
  "scan_lines [] i st = None"
| "scan_lines (l # ls) i st =
     (let st = scan_line l st in
      if snd st \<and> fst st = 0 then Some i else scan_lines ls (i + 1) st)"

definition expandToBlock :: "cache_entry option \<Rightarrow> nat \<Rightarrow> int \<Rightarrow> nat \<Rightarrow> int" where
  "expandToBlock e startLine givenEndLine maxLines =
     (if no_content e then givenEndLine
      else let lines = ce_lines (the e) in
        if givenEndLine > int startLine then min givenEndLine (int startLine + int maxLines - 1)
        else case scan_lines (js_slice startLine (startLine + maxLines) lines) startLine (0, False) of
               Some i \<Rightarrow> int i
             | None \<Rightarrow> min (int startLine + int maxLines - 1) (int (length lines) - 1))"

text \<open>The reference: how far braces are open after some lines, and whether any opened.\<close>

definition brace_depth :: "jstext list \<Rightarrow> int" where
  "brace_depth ls = int (length (filter (\<lambda>c. c = 123) (concat ls))) - int (length (filter (\<lambda>c. c = 125) (concat ls)))"

definition opens :: "jstext list \<Rightarrow> bool" where
  "opens ls \<longleftrightarrow> 123 \<in> set (concat ls)"

definition closed_block :: "jstext list \<Rightarrow> bool" where
  "closed_block ls \<longleftrightarrow> opens ls \<and> brace_depth ls = 0"

lemma scan_line_counts:
  "scan_line l (d, b) = (d + int (length (filter (\<lambda>c. c = 123) l)) - int (length (filter (\<lambda>c. c = 125) l)),
     b \<or> 123 \<in> set l)"
  by (induction l arbitrary: d b) (auto simp: Let_def)

lemma scan_lines_first:
  "scan_lines ls i (brace_depth pre, opens pre) =
     map_option (\<lambda>k. i + k) (find_index (\<lambda>k. closed_block (pre @ take (Suc k) ls)) [0..<length ls])"
proof (induction ls arbitrary: i pre)
  case Nil
  then show ?case by simp
next
  case (Cons l ls)
  have st: "scan_line l (brace_depth pre, opens pre) = (brace_depth (pre @ [l]), opens (pre @ [l]))"
    by (simp add: scan_line_counts brace_depth_def opens_def)
  have upt: "[0..<Suc (length ls)] = 0 # map Suc [0..<length ls]"
    by (simp add: map_Suc_upt upt_conv_Cons del: upt_Suc)
  have shift: "find_index p (map Suc ks) = find_index (p \<circ> Suc) ks" for p and ks :: "nat list"
    by (induction ks) auto
  show ?case
    using Cons.IH [of "i + 1" "pre @ [l]"]
    by (simp add: st upt shift closed_block_def o_def option.map_comp option.map_comp [unfolded o_def] del: upt_Suc)
qed

text \<open>\<open>expandToBlock\<close> from a start line inside the file, when no end is given: it stays
  within \<open>maxLines\<close> lines and within the file, and it is the first line at which every opened
  brace is closed again, or, when no line of that window closes the block, the window's last.\<close>

theorem expand_to_first_closing_line:
  assumes "\<not> no_content (Some e)" and "startLine < length (ce_lines e)" and "givenEndLine \<le> int startLine"
    and "0 < maxLines"
  shows "\<exists>r. expandToBlock (Some e) startLine givenEndLine maxLines = int r \<and>
    startLine \<le> r \<and> r < startLine + maxLines \<and> r < length (ce_lines e) \<and>
    (\<forall>k. startLine \<le> k \<and> k < r \<longrightarrow> \<not> closed_block (js_slice startLine (k + 1) (ce_lines e))) \<and>
    (closed_block (js_slice startLine (r + 1) (ce_lines e)) \<or>
      r = min (startLine + maxLines) (length (ce_lines e)) - 1)"
proof -
  let ?L = "ce_lines e"
  let ?w = "js_slice startLine (startLine + maxLines) ?L"
  have w: "length ?w = min maxLines (length ?L - startLine)"
    by (simp add: js_slice_def)
  have upto: "take (Suc k) ?w = js_slice startLine (startLine + k + 1) ?L" if "k < length ?w" for k
    using that w by (simp add: js_slice_def min_absorb2)
  have scan: "scan_lines ?w startLine (0, False) =
      map_option (\<lambda>k. startLine + k) (find_index (\<lambda>k. closed_block (take (Suc k) ?w)) [0..<length ?w])"
    using scan_lines_first [of ?w startLine "[]"] by (simp add: brace_depth_def opens_def)
  let ?P = "\<lambda>k. closed_block (take (Suc k) ?w)"
  show ?thesis
  proof (cases "find_index ?P [0..<length ?w]")
    case None
    define r where "r = min (startLine + maxLines) (length ?L) - 1"
    have r: "startLine \<le> r" "r < startLine + maxLines" "r < length ?L"
      using assms by (auto simp: r_def)
    have none: "\<not> ?P k" if "k < length ?w" for k
      using None that by (auto simp: find_index_None)
    have "\<not> closed_block (js_slice startLine (k + 1) ?L)" if "startLine \<le> k" "k < r" for k
    proof -
      have "k - startLine < length ?w"
        using that w by (auto simp: r_def)
      then show ?thesis
        using none [of "k - startLine"] upto [of "k - startLine"] that by simp
    qed
    moreover have "expandToBlock (Some e) startLine givenEndLine maxLines = int r"
      using assms scan None by (simp add: expandToBlock_def r_def of_nat_diff)
    ultimately show ?thesis
      using r r_def by blast
  next
    case (Some k)
    have k: "k < length ?w" "?P k" "\<forall>j<k. \<not> ?P j"
      using find_index_Some [OF Some] by auto
    have "expandToBlock (Some e) startLine givenEndLine maxLines = int (startLine + k)"
      using assms scan Some by (simp add: expandToBlock_def)
    moreover have "\<not> closed_block (js_slice startLine (j + 1) ?L)" if "startLine \<le> j" "j < startLine + k" for j
      using k(3) upto [of "j - startLine"] that k(1) by (auto dest: spec [of _ "j - startLine"])
    moreover have "closed_block (js_slice startLine (startLine + k + 1) ?L)"
      using k(1,2) upto by simp
    ultimately show ?thesis
      using k(1) w by (intro exI [of _ "startLine + k"]) auto
  qed
qed

definition demo_entry :: cache_entry where
  "demo_entry = \<lparr>ce_content = [123, 10, 125, 10, 65], ce_lines = [[123], [125], [65]]\<rparr>"

theorem expand_to_first_closing_line_witness:
  "expandToBlock (Some demo_entry) 0 0 30 = 1 \<and>
   (\<exists>r. expandToBlock (Some demo_entry) 0 0 30 = int r \<and> r < length (ce_lines demo_entry))"
proof -
  have "expandToBlock (Some demo_entry) 0 0 30 = 1"
    by code_simp
  moreover have "\<not> no_content (Some demo_entry)" "0 < length (ce_lines demo_entry)" "(0 :: int) \<le> int 0" "(0 :: nat) < 30"
    by (simp_all add: no_content_def demo_entry_def)
  from expand_to_first_closing_line [OF this]
  have "\<exists>r. expandToBlock (Some demo_entry) 0 0 30 = int r \<and> r < length (ce_lines demo_entry)"
    by blast
  ultimately show ?thesis by blast
qed

end
