(* ===== verification/Usage.thy ===== *)
theory Usage
  imports Prelude
begin

text \<open>
  Token and cost accounting of subagents, \<open>extensions/subagent/usage.ts\<close>: the statistics and
  their sum, the accumulator that follows one run's events, and the ledger that keeps one
  record per run. Counts and costs are exact rationals; the rounding of doubles is not
  modelled. The statistics form a commutative monoid, ordered field by field.
\<close>

section \<open>Statistics\<close>

datatype usage_stats = Usage
  (us_input: rat) (us_output: rat) (us_cacheRead: rat) (us_cacheWrite: rat) (us_cost: rat) (us_turns: rat)

record partial_usage =
  pu_input :: "rat option"
  pu_output :: "rat option"
  pu_cacheRead :: "rat option"
  pu_cacheWrite :: "rat option"
  pu_cost :: "rat option"
  pu_turns :: "rat option"

definition zeroUsage :: usage_stats where
  "zeroUsage = Usage 0 0 0 0 0 0"

definition or_zero :: "rat option \<Rightarrow> rat" where
  "or_zero x = (case x of None \<Rightarrow> 0 | Some q \<Rightarrow> q)"

definition addUsage :: "usage_stats \<Rightarrow> partial_usage option \<Rightarrow> usage_stats" where
  "addUsage target addition =
     (case addition of
        None \<Rightarrow> target
      | Some a \<Rightarrow> Usage (us_input target + or_zero (pu_input a)) (us_output target + or_zero (pu_output a))
          (us_cacheRead target + or_zero (pu_cacheRead a)) (us_cacheWrite target + or_zero (pu_cacheWrite a))
          (us_cost target + or_zero (pu_cost a)) (us_turns target + or_zero (pu_turns a)))"

definition as_partial :: "usage_stats \<Rightarrow> partial_usage" where
  "as_partial u = \<lparr>pu_input = Some (us_input u), pu_output = Some (us_output u),
     pu_cacheRead = Some (us_cacheRead u), pu_cacheWrite = Some (us_cacheWrite u),
     pu_cost = Some (us_cost u), pu_turns = Some (us_turns u)\<rparr>"

instantiation usage_stats :: ab_group_add
begin

definition zero_usage_stats :: usage_stats where
  "zero_usage_stats = zeroUsage"

definition plus_usage_stats :: "usage_stats \<Rightarrow> usage_stats \<Rightarrow> usage_stats" where
  "plus_usage_stats a b = Usage (us_input a + us_input b) (us_output a + us_output b)
     (us_cacheRead a + us_cacheRead b) (us_cacheWrite a + us_cacheWrite b)
     (us_cost a + us_cost b) (us_turns a + us_turns b)"

definition minus_usage_stats :: "usage_stats \<Rightarrow> usage_stats \<Rightarrow> usage_stats" where
  "minus_usage_stats a b = Usage (us_input a - us_input b) (us_output a - us_output b)
     (us_cacheRead a - us_cacheRead b) (us_cacheWrite a - us_cacheWrite b)
     (us_cost a - us_cost b) (us_turns a - us_turns b)"

definition uminus_usage_stats :: "usage_stats \<Rightarrow> usage_stats" where
  "uminus_usage_stats a = Usage (- us_input a) (- us_output a) (- us_cacheRead a) (- us_cacheWrite a)
     (- us_cost a) (- us_turns a)"

instance
  by standard (simp_all add: plus_usage_stats_def zero_usage_stats_def zeroUsage_def
      minus_usage_stats_def uminus_usage_stats_def algebra_simps)

end

instantiation usage_stats :: ordered_ab_group_add
begin

definition less_eq_usage_stats :: "usage_stats \<Rightarrow> usage_stats \<Rightarrow> bool" where
  "less_eq_usage_stats a b \<longleftrightarrow> us_input a \<le> us_input b \<and> us_output a \<le> us_output b \<and>
     us_cacheRead a \<le> us_cacheRead b \<and> us_cacheWrite a \<le> us_cacheWrite b \<and>
     us_cost a \<le> us_cost b \<and> us_turns a \<le> us_turns b"

definition less_usage_stats :: "usage_stats \<Rightarrow> usage_stats \<Rightarrow> bool" where
  "less_usage_stats a b \<longleftrightarrow> a \<le> b \<and> \<not> b \<le> a"

instance
  by standard (auto simp: less_eq_usage_stats_def less_usage_stats_def plus_usage_stats_def
      intro: usage_stats.expand)

end

lemmas usage_ops = plus_usage_stats_def zero_usage_stats_def less_eq_usage_stats_def zeroUsage_def
  minus_usage_stats_def uminus_usage_stats_def

lemma addUsage_as_partial: "addUsage a (Some (as_partial b)) = a + b"
  by (simp add: addUsage_def as_partial_def or_zero_def plus_usage_stats_def)

section \<open>The accumulator of one run\<close>

text \<open>
  Messages as far as the accumulator reads them. A tool result's cost sits in its usage as
  \<open>cost.total\<close>; an assistant message counts one turn.
\<close>

record message_usage =
  mu_input :: "rat option"
  mu_output :: "rat option"
  mu_cacheRead :: "rat option"
  mu_cacheWrite :: "rat option"
  mu_total :: "rat option"

datatype agent_message =
    Assistant_message "string list" "message_usage option" "string option" "string option" "string option"
  | Tool_result_message "message_usage option"
  | Other_message

text \<open>The assistant's fields: its text parts, usage, model, stop reason, error message.\<close>

datatype agent_event = Message_end agent_message | Tool_execution_start | Other_event

record accumulator =
  ac_usage :: usage_stats
  ac_transcript :: "agent_message list"
  ac_toolCallCount :: nat
  ac_lastModelId :: "string option"
  ac_lastStopReason :: "string option"
  ac_lastErrorMessage :: "string option"
  ac_turnLimitExceeded :: bool

definition new_accumulator :: accumulator where
  "new_accumulator = \<lparr>ac_usage = zeroUsage, ac_transcript = [], ac_toolCallCount = 0,
     ac_lastModelId = None, ac_lastStopReason = None, ac_lastErrorMessage = None,
     ac_turnLimitExceeded = False\<rparr>"

definition message_partial :: "rat option \<Rightarrow> message_usage option \<Rightarrow> partial_usage" where
  "message_partial turns u =
     \<lparr>pu_input = Some (or_zero (Option.bind u mu_input)), pu_output = Some (or_zero (Option.bind u mu_output)),
      pu_cacheRead = Some (or_zero (Option.bind u mu_cacheRead)),
      pu_cacheWrite = Some (or_zero (Option.bind u mu_cacheWrite)),
      pu_cost = Some (or_zero (Option.bind u mu_total)), pu_turns = turns\<rparr>"

definition acceptMessageUsage :: "(rat \<Rightarrow> bool) \<Rightarrow> agent_message \<Rightarrow> accumulator \<Rightarrow> accumulator" where
  "acceptMessageUsage hasReachedLimit m a =
     (case m of
        Tool_result_message u \<Rightarrow> a\<lparr>ac_usage := addUsage (ac_usage a) (Some (message_partial None u))\<rparr>
      | Other_message \<Rightarrow> a
      | Assistant_message parts u model stopReason errorMessage \<Rightarrow>
          let usage = addUsage (ac_usage a) (Some (message_partial (Some 1) u)) in
          a\<lparr>ac_usage := usage,
            ac_lastModelId := (case ac_lastModelId a of None \<Rightarrow> model | Some x \<Rightarrow> Some x),
            ac_lastStopReason := stopReason,
            ac_lastErrorMessage := errorMessage,
            ac_turnLimitExceeded := (hasReachedLimit (us_turns usage) \<and> stopReason \<noteq> Some ''stop'')\<rparr>)"

definition acceptEvent :: "(rat \<Rightarrow> bool) \<Rightarrow> agent_event \<Rightarrow> accumulator \<Rightarrow> accumulator" where
  "acceptEvent hasReachedLimit e a =
     (case e of
        Message_end m \<Rightarrow> acceptMessageUsage hasReachedLimit m (a\<lparr>ac_transcript := ac_transcript a @ [m]\<rparr>)
      | Tool_execution_start \<Rightarrow> a\<lparr>ac_toolCallCount := ac_toolCallCount a + 1\<rparr>
      | Other_event \<Rightarrow> a)"

fun join_with :: "string \<Rightarrow> string list \<Rightarrow> string" where
  "join_with sep [] = []"
| "join_with sep [x] = x"
| "join_with sep (x # xs) = x @ sep @ join_with sep xs"

text \<open>\<open>getFinalOutput\<close> scans from the last message backwards.\<close>

fun final_output_rev :: "agent_message list \<Rightarrow> string" where
  "final_output_rev [] = []"
| "final_output_rev (Assistant_message parts _ _ _ _ # ms) = join_with [CHR 0x0A] parts"
| "final_output_rev (_ # ms) = final_output_rev ms"

definition getFinalOutput :: "agent_message list \<Rightarrow> string" where
  "getFinalOutput ms = final_output_rev (rev ms)"

text \<open>The outcome of a run, as \<open>failure\<close> and \<open>success\<close> derive it from the accumulator.\<close>

record run_details =
  rd_finalOutput :: string
  rd_toolCallCount :: nat
  rd_usage :: usage_stats
  rd_model :: "string option"
  rd_stopReason :: "string option"
  rd_errorMessage :: "string option"
  rd_isError :: bool
  rd_turnLimitExceeded :: bool

definition details_of :: "accumulator \<Rightarrow> string \<Rightarrow> bool \<Rightarrow> run_details" where
  "details_of a finalOutput isError =
     \<lparr>rd_finalOutput = finalOutput, rd_toolCallCount = ac_toolCallCount a, rd_usage = ac_usage a,
      rd_model = ac_lastModelId a,
      rd_stopReason = (if ac_turnLimitExceeded a then Some ''turn_limit'' else ac_lastStopReason a),
      rd_errorMessage = ac_lastErrorMessage a, rd_isError = isError,
      rd_turnLimitExceeded = ac_turnLimitExceeded a\<rparr>"

definition failure_result :: "string \<Rightarrow> bool \<Rightarrow> accumulator \<Rightarrow> (string \<times> run_details) \<times> accumulator" where
  "failure_result errorMessage aborted a =
     (let a = a\<lparr>ac_lastErrorMessage := (if aborted then None else Some errorMessage),
                ac_lastStopReason := Some (if aborted then ''aborted'' else ''error'')\<rparr>;
          t = (if aborted then ''Subagent aborted.'' else ''Subagent error: '' @ errorMessage) in
      ((t, details_of a (getFinalOutput (ac_transcript a)) True), a))"

definition or_no_output :: "string \<Rightarrow> string" where
  "or_no_output s = (if s = [] then ''(no output)'' else s)"

definition success_result :: "string \<Rightarrow> agent_message list \<Rightarrow> accumulator \<Rightarrow> string \<times> run_details" where
  "success_result maxTurns finalMessages a =
     (let output = getFinalOutput (if finalMessages \<noteq> [] then finalMessages else ac_transcript a);
          isError = (ac_lastStopReason a = Some ''error'' \<or> ac_lastStopReason a = Some ''aborted'' \<or>
                     (case ac_lastErrorMessage a of None \<Rightarrow> False | Some m \<Rightarrow> m \<noteq> []));
          t = (if ac_turnLimitExceeded a
               then or_no_output output @ [CHR 0x0A, CHR 0x0A] @ ''[Note: Turn limit ('' @ maxTurns @
                    '') reached. Output may be incomplete.]''
               else or_no_output output) in
      (t, details_of a t isError))"

section \<open>The ledger\<close>

datatype usage_mode = Sync | Async

record usage_record =
  ur_id :: string
  ur_name :: string
  ur_mode :: usage_mode
  ur_usage :: usage_stats

type_synonym ledger = "(string, usage_record) jsmap"

definition record_usage :: "string \<Rightarrow> usage_mode \<Rightarrow> string \<Rightarrow> usage_stats \<Rightarrow> ledger \<Rightarrow> ledger" where
  "record_usage i mode name usage l =
     (if jm_has l i then l
      else jm_set i \<lparr>ur_id = i, ur_name = name, ur_mode = mode, ur_usage = usage\<rparr> l)"

definition ledger_rows :: "ledger \<Rightarrow> usage_record list" where
  "ledger_rows l = jm_values l"

definition ledger_total :: "ledger \<Rightarrow> usage_stats" where
  "ledger_total l = foldl (\<lambda>total r. addUsage total (Some (as_partial (ur_usage r)))) zeroUsage (ledger_rows l)"

section \<open>Properties\<close>

definition accept_all :: "(rat \<Rightarrow> bool) \<Rightarrow> agent_event list \<Rightarrow> accumulator" where
  "accept_all hasReachedLimit es = foldl (\<lambda>a e. acceptEvent hasReachedLimit e a) new_accumulator es"

fun event_messages :: "agent_event list \<Rightarrow> agent_message list" where
  "event_messages [] = []"
| "event_messages (Message_end m # es) = m # event_messages es"
| "event_messages (_ # es) = event_messages es"

fun is_assistant :: "agent_message \<Rightarrow> bool" where
  "is_assistant (Assistant_message _ _ _ _ _) = True"
| "is_assistant _ = False"

fun stop_reason :: "agent_message \<Rightarrow> string option" where
  "stop_reason (Assistant_message _ _ _ s _) = s"
| "stop_reason _ = None"

text \<open>What one message spends; a turn is an assistant message.\<close>

definition spent :: "message_usage option \<Rightarrow> rat \<Rightarrow> usage_stats" where
  "spent u turns = Usage (or_zero (Option.bind u mu_input)) (or_zero (Option.bind u mu_output))
     (or_zero (Option.bind u mu_cacheRead)) (or_zero (Option.bind u mu_cacheWrite))
     (or_zero (Option.bind u mu_total)) turns"

fun message_cost :: "agent_message \<Rightarrow> usage_stats" where
  "message_cost (Assistant_message _ u _ _ _) = spent u 1"
| "message_cost (Tool_result_message u) = spent u 0"
| "message_cost Other_message = 0"

lemma message_partial_spent:
  "addUsage t (Some (message_partial turns u)) = t + spent u (or_zero turns)"
  by (simp add: addUsage_def message_partial_def spent_def plus_usage_stats_def or_zero_def)

lemma accept_all_snoc: "accept_all h (es @ [e]) = acceptEvent h e (accept_all h es)"
  by (simp add: accept_all_def)

lemma event_messages_append: "event_messages (es @ fs) = event_messages es @ event_messages fs"
  by (induction es rule: event_messages.induct) auto

lemma us_turns_sum: "us_turns (sum_list us) = sum_list (map us_turns us)"
  by (induction us) (auto simp: usage_ops)

lemma turns_count: "us_turns (sum_list (map message_cost ms)) = of_nat (length (filter is_assistant ms))"
proof (induction ms)
  case Nil
  then show ?case by (simp add: usage_ops)
next
  case (Cons m ms)
  then show ?case by (cases m) (simp_all add: usage_ops spent_def)
qed

text \<open>Whatever the events of a run, the accumulator's usage is the sum of what each finished
  message reports, its turns are the assistant messages, and the turn limit counts as exceeded
  exactly when the last assistant message did not stop by itself and the turns so far have
  reached the limit.\<close>

theorem accumulator_totals:
  "ac_usage (accept_all limit es) = sum_list (map message_cost (event_messages es)) \<and>
   us_turns (ac_usage (accept_all limit es)) = of_nat (length (filter is_assistant (event_messages es))) \<and>
   ac_transcript (accept_all limit es) = event_messages es \<and>
   (ac_turnLimitExceeded (accept_all limit es) \<longleftrightarrow>
     (let turns = filter is_assistant (event_messages es) in
      turns \<noteq> [] \<and> limit (of_nat (length turns)) \<and> stop_reason (last turns) \<noteq> Some ''stop''))"
proof -
  have usage: "ac_usage (accept_all limit es) = sum_list (map message_cost (event_messages es))" for es
  proof (induction es rule: rev_induct)
    case Nil
    then show ?case by (simp add: accept_all_def new_accumulator_def usage_ops)
  next
    case (snoc e es)
    then show ?case
      by (auto simp: accept_all_snoc acceptEvent_def acceptMessageUsage_def event_messages_append Let_def
          message_partial_spent or_zero_def split: agent_event.split agent_message.split)
  qed
  have transcript: "ac_transcript (accept_all limit es) = event_messages es"
  proof (induction es rule: rev_induct)
    case Nil
    then show ?case by (simp add: accept_all_def new_accumulator_def)
  next
    case (snoc e es)
    then show ?case
      by (auto simp: accept_all_snoc acceptEvent_def acceptMessageUsage_def event_messages_append Let_def
          split: agent_event.split agent_message.split)
  qed
  have limit: "ac_turnLimitExceeded (accept_all limit es) \<longleftrightarrow>
     (let turns = filter is_assistant (event_messages es) in
      turns \<noteq> [] \<and> limit (of_nat (length turns)) \<and> stop_reason (last turns) \<noteq> Some ''stop'')"
  proof (induction es rule: rev_induct)
    case Nil
    then show ?case by (simp add: accept_all_def new_accumulator_def)
  next
    case (snoc e es)
    have "us_turns (ac_usage (accept_all limit es) + spent u 1) =
        of_nat (length (filter is_assistant (event_messages es)) + 1)" for u
      by (simp add: usage turns_count) (simp add: plus_usage_stats_def spent_def turns_count)
    then show ?case
      using snoc
      by (auto simp: accept_all_snoc acceptEvent_def acceptMessageUsage_def event_messages_append Let_def
          message_partial_spent or_zero_def add.commute split: agent_event.split agent_message.split)
  qed
  show ?thesis
    using usage transcript limit turns_count by simp
qed

text \<open>The first report of each run, in order.\<close>

fun first_reports :: "(string \<times> 'a) list \<Rightarrow> (string \<times> 'a) list" where
  "first_reports [] = []"
| "first_reports (x # xs) = x # filter (\<lambda>y. fst y \<noteq> fst x) (first_reports xs)"

definition report :: "ledger \<Rightarrow> string \<times> usage_mode \<times> string \<times> usage_stats \<Rightarrow> ledger" where
  "report l r = (case r of (i, mode, name, usage) \<Rightarrow> record_usage i mode name usage l)"

lemma report_known: "fst r \<in> set (jm_keys l) \<Longrightarrow> report l r = l"
  by (cases r) (auto simp: report_def record_usage_def jm_has_get jm.keys_get)

definition record_of :: "string \<times> usage_mode \<times> string \<times> usage_stats \<Rightarrow> string \<times> usage_record" where
  "record_of r = (case r of (i, mode, name, usage) \<Rightarrow>
     (i, \<lparr>ur_id = i, ur_name = name, ur_mode = mode, ur_usage = usage\<rparr>))"

lemma report_new: "fst r \<notin> set (jm_keys l) \<Longrightarrow> report l r = l @ [record_of r]"
  by (auto simp: report_def record_usage_def jm_has_get jm.keys_get jm_set_append record_of_def split: prod.split)

lemma foldl_report:
  "foldl report l rs = l @ map record_of (filter (\<lambda>r. fst r \<notin> set (jm_keys l)) (first_reports rs))"
proof (induction rs arbitrary: l)
  case Nil
  then show ?case by simp
next
  case (Cons r rs)
  show ?case
  proof (cases "fst r \<in> set (jm_keys l)")
    case True
    then have "report l r = l"
      by (rule report_known)
    moreover have "filter (\<lambda>s. fst s \<notin> set (jm_keys l)) (filter (\<lambda>y. fst y \<noteq> fst r) (first_reports rs)) =
        filter (\<lambda>s. fst s \<notin> set (jm_keys l)) (first_reports rs)"
      using True by (auto intro: filter_cong)
    ultimately show ?thesis
      using Cons.IH [of l] True by simp
  next
    case False
    have "jm_keys (l @ [record_of r]) = jm_keys l @ [fst r]"
      by (simp add: jm_keys_def record_of_def split: prod.split)
    then show ?thesis
      using Cons.IH [of "l @ [record_of r]"] False by (simp add: report_new conj_commute)
  qed
qed

lemma ledger_total_sum: "ledger_total l = sum_list (map ur_usage (ledger_rows l))"
proof -
  have "foldl (\<lambda>total r. addUsage total (Some (as_partial (ur_usage r)))) t rs = t + sum_list (map ur_usage rs)" for t rs
    by (induction rs arbitrary: t) (simp_all add: addUsage_as_partial add.assoc)
  from this [of 0] show ?thesis
    by (simp add: ledger_total_def flip: zero_usage_stats_def)
qed

text \<open>The ledger counts every run once: after any reports its rows are the first report of
  each run, in order, and its total is the sum of their usages, so that reporting a run again
  (a job that finishes after it was already recorded) changes nothing.\<close>

theorem ledger_counts_runs_once:
  "map ur_id (ledger_rows (foldl report [] rs)) = map fst (first_reports rs) \<and>
   distinct (map ur_id (ledger_rows (foldl report [] rs))) \<and>
   ledger_total (foldl report [] rs) = sum_list (map (snd \<circ> snd \<circ> snd) (first_reports rs))"
proof -
  have rows: "ledger_rows (foldl report [] rs) = map (snd \<circ> record_of) (first_reports rs)"
    by (simp add: ledger_rows_def foldl_report jm_keys_def jm_values_def)
  have "distinct (map fst (first_reports rs))"
    by (induction rs) (auto simp: distinct_map_filter)
  then show ?thesis
    by (simp add: rows ledger_total_sum o_def record_of_def case_prod_beta)
qed

end
