(* ===== verification/Supervisor.thy ===== *)
theory Supervisor
  imports Usage
begin

text \<open>
  \<open>SubagentRunSupervisor\<close> of \<open>extensions/subagent/control.ts\<close>: admission of subagent runs
  (a bounded queue, a concurrency limit, one writer per workspace), their usage, retained
  children and shutdown. Promises are tickets whose settlements are logged in order; abort
  signals are numbers; the canonical workspace key is a function argument. Calls, aborts and
  deadlines interleave as a step relation.
\<close>

section \<open>State\<close>

datatype access = Read_access | Write_access

datatype rejection_reason = Closed | Capacity | Aborted

datatype settlement = Granted string | Rejected rejection_reason

record runtime_config =
  maxConcurrentRuns :: nat
  maxPendingRuns :: nat
  maxRetainedJobs :: nat

record admission =
  aq_cwd :: string
  aq_access :: access
  aq_signal :: "nat option"

record pending =
  pe_ticket :: nat
  pe_run :: string
  pe_request :: admission

record active_run =
  ar_request :: admission
  ar_usage :: usage_stats
  ar_aborted :: bool

datatype child_state = Idle | Running | Queued | Closing | Closed_child

record supervisor =
  active :: "(string, active_run) jsmap"
  pending_runs :: "pending list"
  writers :: "string list"
  totalUsage :: usage_stats
  usageByRun :: "(string, usage_stats) jsmap"
  children :: "(string, child_state) jsmap"
  evicting :: "string list"
  failures :: "string list"
  omitted_failures :: nat
  closed :: bool
  settled :: "(nat \<times> settlement) list"
  aborted_signals :: "nat list"

definition new_supervisor :: supervisor where
  "new_supervisor = \<lparr>active = [], pending_runs = [], writers = [], totalUsage = zeroUsage, usageByRun = [],
     children = [], evicting = [], failures = [], omitted_failures = 0, closed = False, settled = [],
     aborted_signals = []\<rparr>"

section \<open>Admission\<close>

definition signal_aborted :: "supervisor \<Rightarrow> admission \<Rightarrow> bool" where
  "signal_aborted s q = (case aq_signal q of None \<Rightarrow> False | Some g \<Rightarrow> g \<in> set (aborted_signals s))"

definition rejection :: "runtime_config \<Rightarrow> supervisor \<Rightarrow> admission \<Rightarrow> rejection_reason option" where
  "rejection cfg s q =
     (if closed s then Some Closed
      else if signal_aborted s q then Some Aborted
      else if length (active s) + length (pending_runs s) \<ge> maxPendingRuns cfg + maxConcurrentRuns cfg
      then Some Capacity
      else None)"

definition canStart :: "runtime_config \<Rightarrow> supervisor \<Rightarrow> pending \<Rightarrow> bool" where
  "canStart cfg s p =
     (if length (active s) \<ge> maxConcurrentRuns cfg then False
      else aq_access (pe_request p) \<noteq> Write_access \<or> aq_cwd (pe_request p) \<notin> set (writers s))"

definition settle_ticket :: "nat \<Rightarrow> settlement \<Rightarrow> supervisor \<Rightarrow> supervisor" where
  "settle_ticket t x s = s\<lparr>settled := settled s @ [(t, x)]\<rparr>"

definition set_insert :: "'a \<Rightarrow> 'a list \<Rightarrow> 'a list" where
  "set_insert x xs = (if x \<in> set xs then xs else xs @ [x])"

definition start_run :: "string \<Rightarrow> admission \<Rightarrow> supervisor \<Rightarrow> supervisor" where
  "start_run runId q s =
     s\<lparr>active := jm_set runId \<lparr>ar_request = q, ar_usage = zeroUsage, ar_aborted = False\<rparr> (active s),
       writers := (if aq_access q = Write_access then set_insert (aq_cwd q) (writers s) else writers s)\<rparr>"

definition splice_out :: "nat \<Rightarrow> 'a list \<Rightarrow> 'a list" where
  "splice_out i xs = take i xs @ drop (Suc i) xs"

lemma length_splice_out: "i < length xs \<Longrightarrow> length (splice_out i xs) = length xs - 1"
  by (simp add: splice_out_def)

text \<open>The loop of \<open>drain\<close>: every iteration takes one admission off the queue.\<close>

function drain_loop :: "runtime_config \<Rightarrow> supervisor \<Rightarrow> supervisor" where
  "drain_loop cfg s =
     (if length (active s) < maxConcurrentRuns cfg then
        case find_index (canStart cfg s) (pending_runs s) of
          None \<Rightarrow> s
        | Some i \<Rightarrow>
            let p = pending_runs s ! i;
                s = s\<lparr>pending_runs := splice_out i (pending_runs s)\<rparr> in
            if signal_aborted s (pe_request p)
            then drain_loop cfg (settle_ticket (pe_ticket p) (Rejected Aborted) s)
            else drain_loop cfg (settle_ticket (pe_ticket p) (Granted (pe_run p))
                   (start_run (pe_run p) (pe_request p) s))
      else s)"
  by pat_completeness auto

termination
  by (relation "measure (\<lambda>(cfg, s). length (pending_runs s))")
     (auto simp: settle_ticket_def start_run_def length_splice_out dest: find_index_Some)

declare drain_loop.simps [simp del]

definition drain :: "runtime_config \<Rightarrow> supervisor \<Rightarrow> supervisor" where
  "drain cfg s = (if closed s then s else drain_loop cfg s)"

definition acquire :: "runtime_config \<Rightarrow> nat \<Rightarrow> string \<Rightarrow> admission \<Rightarrow> supervisor \<Rightarrow> supervisor" where
  "acquire cfg t runId q s =
     (case rejection cfg s q of
        Some r \<Rightarrow> settle_ticket t (Rejected r) s
      | None \<Rightarrow>
          drain cfg (s\<lparr>pending_runs := pending_runs s @ [\<lparr>pe_ticket = t, pe_run = runId, pe_request = q\<rparr>]\<rparr>))"

text \<open>An abort event runs the listener of every admission still waiting on that signal.\<close>

definition abort_signal :: "nat \<Rightarrow> supervisor \<Rightarrow> supervisor" where
  "abort_signal g s =
     (let hit = (\<lambda>p. aq_signal (pe_request p) = Some g) in
      s\<lparr>aborted_signals := set_insert g (aborted_signals s),
        pending_runs := filter (\<lambda>p. \<not> hit p) (pending_runs s),
        settled := settled s @ map (\<lambda>p. (pe_ticket p, Rejected Aborted)) (filter hit (pending_runs s))\<rparr>)"

section \<open>Usage and release\<close>

definition addUsageDelta :: "usage_stats \<Rightarrow> usage_stats \<Rightarrow> usage_stats \<Rightarrow> usage_stats" where
  "addUsageDelta spent_so_far previous new =
     Usage (us_input spent_so_far + max 0 (us_input new - us_input previous))
       (us_output spent_so_far + max 0 (us_output new - us_output previous))
       (us_cacheRead spent_so_far + max 0 (us_cacheRead new - us_cacheRead previous))
       (us_cacheWrite spent_so_far + max 0 (us_cacheWrite new - us_cacheWrite previous))
       (us_cost spent_so_far + max 0 (us_cost new - us_cost previous))
       (us_turns spent_so_far + max 0 (us_turns new - us_turns previous))"

definition updateUsage :: "string \<Rightarrow> usage_stats \<Rightarrow> supervisor \<Rightarrow> supervisor" where
  "updateUsage runId usage s =
     (case jm_get (active s) runId of
        None \<Rightarrow> s
      | Some a \<Rightarrow> s\<lparr>totalUsage := addUsageDelta (totalUsage s) (ar_usage a) usage,
                    active := jm_set runId (a\<lparr>ar_usage := usage\<rparr>) (active s),
                    usageByRun := jm_set runId usage (usageByRun s)\<rparr>)"

text \<open>
  \<open>pruneChildren\<close> walks the retained children in order and starts closing the first idle or
  closed ones while there are too many; a close that settles later removes the child.
\<close>

definition prunable :: "supervisor \<Rightarrow> string \<times> child_state \<Rightarrow> bool" where
  "prunable s c = (fst c \<notin> set (evicting s) \<and> (snd c = Idle \<or> snd c = Closed_child))"

definition pruneChildren :: "runtime_config \<Rightarrow> supervisor \<Rightarrow> supervisor" where
  "pruneChildren cfg s =
     (if closed s then s
      else s\<lparr>evicting := evicting s @
               map fst (take (length (children s) - length (evicting s) - maxRetainedJobs cfg)
                         (filter (prunable s) (children s)))\<rparr>)"

definition retainChild :: "string \<Rightarrow> child_state \<Rightarrow> supervisor \<Rightarrow> supervisor option" where
  "retainChild i st s = (if closed s then None else Some (s\<lparr>children := jm_set i st (children s)\<rparr>))"

definition eviction_done :: "string \<Rightarrow> supervisor \<Rightarrow> supervisor" where
  "eviction_done i s =
     s\<lparr>children := jm_delete i (children s), evicting := filter (\<lambda>j. j \<noteq> i) (evicting s)\<rparr>"

definition eviction_failed :: "runtime_config \<Rightarrow> string \<Rightarrow> supervisor \<Rightarrow> supervisor" where
  "eviction_failed cfg i s =
     (let s = (if length (failures s) < maxRetainedJobs cfg then s\<lparr>failures := failures s @ [i]\<rparr>
               else s\<lparr>omitted_failures := omitted_failures s + 1\<rparr>);
          s = (if jm_get (children s) i = Some Closed_child then s\<lparr>children := jm_delete i (children s)\<rparr> else s) in
      s\<lparr>evicting := filter (\<lambda>j. j \<noteq> i) (evicting s)\<rparr>)"

definition release :: "runtime_config \<Rightarrow> string \<Rightarrow> usage_stats option \<Rightarrow> supervisor \<Rightarrow> supervisor" where
  "release cfg runId usage s =
     (case jm_get (active s) runId of
        None \<Rightarrow> s
      | Some a \<Rightarrow>
          let s = (case usage of None \<Rightarrow> s | Some u \<Rightarrow> updateUsage runId u s);
              s = s\<lparr>active := jm_delete runId (active s)\<rparr>;
              s = (if aq_access (ar_request a) = Write_access
                   then s\<lparr>writers := filter (\<lambda>w. w \<noteq> aq_cwd (ar_request a)) (writers s)\<rparr> else s);
              s = (if closed s then s else pruneChildren cfg s) in
          drain cfg s)"

definition abort_run :: "string \<Rightarrow> supervisor \<Rightarrow> supervisor" where
  "abort_run runId s =
     (case jm_get (active s) runId of
        None \<Rightarrow> s
      | Some a \<Rightarrow> s\<lparr>active := jm_set runId (a\<lparr>ar_aborted := True\<rparr>) (active s)\<rparr>)"

text \<open>The synchronous part of \<open>shutdown\<close>; the rest waits until every active run has released.\<close>

definition shutdown :: "supervisor \<Rightarrow> supervisor" where
  "shutdown s =
     s\<lparr>closed := True, pending_runs := [],
       settled := settled s @ map (\<lambda>p. (pe_ticket p, Rejected Closed)) (pending_runs s),
       active := map (\<lambda>(k, a). (k, a\<lparr>ar_aborted := True\<rparr>)) (active s)\<rparr>"

definition usage_of :: "string option \<Rightarrow> supervisor \<Rightarrow> usage_stats" where
  "usage_of prefix s =
     (case prefix of
        Some (c # cs) \<Rightarrow>
          foldl (\<lambda>total (runId, u). if take (length (c # cs)) runId = c # cs
                                     then addUsage total (Some (as_partial u)) else total)
            zeroUsage (usageByRun s)
      | _ \<Rightarrow> totalUsage s)"

section \<open>Interleavings\<close>

text \<open>
  Run identifiers are UUIDs or tool-call ids: a new admission's is not one the supervisor
  knows, and its promise is new. \<open>growing\<close> says whether reported usages only grow.
\<close>

definition new_run :: "nat \<Rightarrow> string \<Rightarrow> supervisor \<Rightarrow> bool" where
  "new_run t r s \<longleftrightarrow> t \<notin> fst ` set (settled s) \<and> t \<notin> pe_ticket ` set (pending_runs s) \<and>
     jm_get (active s) r = None \<and> r \<notin> pe_run ` set (pending_runs s) \<and> jm_get (usageByRun s) r = None"

definition grows :: "string \<Rightarrow> usage_stats \<Rightarrow> supervisor \<Rightarrow> bool" where
  "grows r u s \<longleftrightarrow> (case jm_get (active s) r of None \<Rightarrow> True | Some a \<Rightarrow> ar_usage a \<le> u)"

inductive sup_step :: "runtime_config \<Rightarrow> bool \<Rightarrow> supervisor \<Rightarrow> supervisor \<Rightarrow> bool"
  for cfg growing where
  Acquire: "new_run t r s \<Longrightarrow> sup_step cfg growing s (acquire cfg t r q s)"
| Abort: "sup_step cfg growing s (abort_signal g s)"
| Update: "(growing \<Longrightarrow> grows r u s) \<Longrightarrow> sup_step cfg growing s (updateUsage r u s)"
| Release: "(\<And>v. growing \<Longrightarrow> u = Some v \<Longrightarrow> grows r v s) \<Longrightarrow> sup_step cfg growing s (release cfg r u s)"
| Deadline: "sup_step cfg growing s (abort_run r s)"
| Retain: "retainChild i st s = Some s' \<Longrightarrow> sup_step cfg growing s s'"
| Child: "jm_get (children s) i \<noteq> None \<Longrightarrow>
    sup_step cfg growing s (s\<lparr>children := jm_set i st (children s)\<rparr>)"
| Prune: "sup_step cfg growing s (pruneChildren cfg s)"
| Evicted: "i \<in> set (evicting s) \<Longrightarrow> sup_step cfg growing s (eviction_done i s)"
| Not_evicted: "i \<in> set (evicting s) \<Longrightarrow> sup_step cfg growing s (eviction_failed cfg i s)"
| Shutdown: "sup_step cfg growing s (shutdown s)"

inductive sup_reachable :: "runtime_config \<Rightarrow> bool \<Rightarrow> supervisor \<Rightarrow> bool"
  for cfg growing where
  New: "sup_reachable cfg growing new_supervisor"
| Step: "sup_reachable cfg growing s \<Longrightarrow> sup_step cfg growing s s' \<Longrightarrow> sup_reachable cfg growing s'"

inductive_cases sup_stepE: "sup_step cfg growing s s'"

section \<open>Invariant\<close>

definition is_writer :: "active_run \<Rightarrow> bool" where
  "is_writer a \<longleftrightarrow> aq_access (ar_request a) = Write_access"

text \<open>Admission: who is in, who waits, who has been answered.\<close>

definition writers_ok :: "supervisor \<Rightarrow> bool" where
  "writers_ok s \<longleftrightarrow>
     (\<forall>w. w \<in> set (writers s) \<longleftrightarrow>
        (\<exists>r a. jm_get (active s) r = Some a \<and> is_writer a \<and> aq_cwd (ar_request a) = w)) \<and>
     (\<forall>r a r' a'. jm_get (active s) r = Some a \<longrightarrow> jm_get (active s) r' = Some a' \<longrightarrow>
        is_writer a \<longrightarrow> is_writer a' \<longrightarrow> aq_cwd (ar_request a) = aq_cwd (ar_request a') \<longrightarrow> r = r')"

definition tickets_ok :: "supervisor \<Rightarrow> bool" where
  "tickets_ok s \<longleftrightarrow> distinct (map fst (settled s) @ map pe_ticket (pending_runs s))"

definition runs_ok :: "supervisor \<Rightarrow> bool" where
  "runs_ok s \<longleftrightarrow> jm_ok (active s) \<and> jm_ok (usageByRun s) \<and> distinct (map pe_run (pending_runs s)) \<and>
     (\<forall>p\<in>set (pending_runs s). jm_get (active s) (pe_run p) = None \<and> jm_get (usageByRun s) (pe_run p) = None \<and>
        \<not> signal_aborted s (pe_request p)) \<and>
     (\<forall>r a. jm_get (active s) r = Some a \<longrightarrow>
        ar_usage a = (case jm_get (usageByRun s) r of None \<Rightarrow> 0 | Some u \<Rightarrow> u))"

definition totals_ok :: "bool \<Rightarrow> supervisor \<Rightarrow> bool" where
  "totals_ok growing s \<longleftrightarrow> sum_list (map snd (usageByRun s)) \<le> totalUsage s \<and>
     (growing \<longrightarrow> sum_list (map snd (usageByRun s)) = totalUsage s)"

definition bounds_ok :: "runtime_config \<Rightarrow> supervisor \<Rightarrow> bool" where
  "bounds_ok cfg s \<longleftrightarrow> length (active s) \<le> maxConcurrentRuns cfg \<and>
     length (active s) + length (pending_runs s) \<le> maxPendingRuns cfg + maxConcurrentRuns cfg \<and>
     (closed s \<longrightarrow> pending_runs s = [])"

definition base_inv :: "runtime_config \<Rightarrow> bool \<Rightarrow> supervisor \<Rightarrow> bool" where
  "base_inv cfg growing s \<longleftrightarrow> writers_ok s \<and> tickets_ok s \<and> runs_ok s \<and> totals_ok growing s \<and> bounds_ok cfg s"

text \<open>Nobody waits who could start.\<close>

definition drained :: "runtime_config \<Rightarrow> supervisor \<Rightarrow> bool" where
  "drained cfg s \<longleftrightarrow> (\<forall>p\<in>set (pending_runs s). \<not> canStart cfg s p)"

definition sup_inv :: "runtime_config \<Rightarrow> bool \<Rightarrow> supervisor \<Rightarrow> bool" where
  "sup_inv cfg growing s \<longleftrightarrow> base_inv cfg growing s \<and> drained cfg s"

lemmas base_defs = base_inv_def writers_ok_def tickets_ok_def runs_ok_def totals_ok_def bounds_ok_def

lemma set_splice_out: "i < length xs \<Longrightarrow> distinct xs \<Longrightarrow> set (splice_out i xs) = set xs - {xs ! i}"
  by (subst (2) id_take_nth_drop [of i xs], simp_all)
     (auto simp: splice_out_def distinct_conv_nth in_set_conv_nth)

lemma mset_splice_out: "i < length xs \<Longrightarrow> mset xs = add_mset (xs ! i) (mset (splice_out i xs))"
  by (subst id_take_nth_drop [of i xs]) (simp_all add: splice_out_def)

lemma signal_aborted_cong: "aborted_signals s = aborted_signals s' \<Longrightarrow> signal_aborted s q = signal_aborted s' q"
  by (cases "aq_signal q") (simp_all add: signal_aborted_def)

lemma signal_aborted_pending [simp]: "signal_aborted (s\<lparr>pending_runs := ps\<rparr>) q = signal_aborted s q"
  by (rule signal_aborted_cong) simp

text \<open>Taking an admission off the queue and starting it.\<close>

definition admit :: "nat \<Rightarrow> supervisor \<Rightarrow> supervisor" where
  "admit i s =
     (let p = pending_runs s ! i in
      settle_ticket (pe_ticket p) (Granted (pe_run p))
        (start_run (pe_run p) (pe_request p) (s\<lparr>pending_runs := splice_out i (pending_runs s)\<rparr>)))"

lemma drain_loop_step:
  assumes "runs_ok s"
  shows "drain_loop cfg s =
    (if length (active s) < maxConcurrentRuns cfg then
       case find_index (canStart cfg s) (pending_runs s) of
         None \<Rightarrow> s | Some i \<Rightarrow> drain_loop cfg (admit i s)
     else s)"
proof -
  have "\<not> signal_aborted (s\<lparr>pending_runs := ps\<rparr>) (pe_request (pending_runs s ! i))"
    if "find_index (canStart cfg s) (pending_runs s) = Some i" for i ps
  proof -
    have "pending_runs s ! i \<in> set (pending_runs s)"
      using find_index_Some [OF that] by simp
    then show ?thesis
      using assms by (simp add: runs_ok_def)
  qed
  then show ?thesis
    by (subst drain_loop.simps) (simp add: admit_def Let_def split: option.split)
qed

lemma admit_sel:
  assumes "i < length (pending_runs s)"
  shows "active (admit i s) = jm_set (pe_run (pending_runs s ! i))
      \<lparr>ar_request = pe_request (pending_runs s ! i), ar_usage = zeroUsage, ar_aborted = False\<rparr> (active s)"
    "pending_runs (admit i s) = splice_out i (pending_runs s)"
    "writers (admit i s) = (if aq_access (pe_request (pending_runs s ! i)) = Write_access
       then set_insert (aq_cwd (pe_request (pending_runs s ! i))) (writers s) else writers s)"
    "settled (admit i s) = settled s @ [(pe_ticket (pending_runs s ! i), Granted (pe_run (pending_runs s ! i)))]"
    "totalUsage (admit i s) = totalUsage s" "usageByRun (admit i s) = usageByRun s"
    "closed (admit i s) = closed s" "aborted_signals (admit i s) = aborted_signals s"
  by (simp_all add: admit_def Let_def settle_ticket_def start_run_def)

lemma writers_ok_add:
  assumes ok: "writers_ok s" and new: "jm_get (active s) r = None"
    and free: "is_writer a \<Longrightarrow> aq_cwd (ar_request a) \<notin> set (writers s)"
    and s': "active s' = jm_set r a (active s)"
      "writers s' = (if is_writer a then set_insert (aq_cwd (ar_request a)) (writers s) else writers s)"
  shows "writers_ok s'"
proof -
  have w: "w \<in> set (writers s) \<longleftrightarrow>
        (\<exists>r a. jm_get (active s) r = Some a \<and> is_writer a \<and> aq_cwd (ar_request a) = w)" for w
    using ok by (simp add: writers_ok_def)
  have u: "r1 = r2" if "jm_get (active s) r1 = Some a1" "jm_get (active s) r2 = Some a2"
    "is_writer a1" "is_writer a2" "aq_cwd (ar_request a1) = aq_cwd (ar_request a2)" for r1 r2 a1 a2
    using ok that unfolding writers_ok_def by blast
  have "w \<in> set (writers s') \<longleftrightarrow>
        (\<exists>r a. jm_get (active s') r = Some a \<and> is_writer a \<and> aq_cwd (ar_request a) = w)" for w
  proof -
    have "(\<exists>k b. jm_get (active s') k = Some b \<and> is_writer b \<and> aq_cwd (ar_request b) = w) \<longleftrightarrow>
        is_writer a \<and> aq_cwd (ar_request a) = w \<or>
        (\<exists>k b. jm_get (active s) k = Some b \<and> is_writer b \<and> aq_cwd (ar_request b) = w)"
    proof -
      have "k \<noteq> r" if "jm_get (active s) k = Some b" for k b
        using that new by auto
      then show ?thesis
        unfolding s'(1) jm_get_set by (metis option.inject)
    qed
    then show ?thesis
      using w [of w] by (auto simp: s'(2) set_insert_def)
  qed
  moreover have "r1 = r2" if g: "jm_get (active s') r1 = Some a1" "jm_get (active s') r2 = Some a2"
    and iw: "is_writer a1" "is_writer a2" and c: "aq_cwd (ar_request a1) = aq_cwd (ar_request a2)" for r1 r2 a1 a2
  proof (cases "r1 = r \<or> r2 = r")
    case False
    then show ?thesis
      using g u [OF _ _ iw c] by (simp add: s'(1) jm_get_set)
  next
    case True
    show ?thesis
    proof (rule ccontr)
      assume ne: "r1 \<noteq> r2"
      then have "is_writer a \<and> (\<exists>k b. jm_get (active s) k = Some b \<and> is_writer b \<and> aq_cwd (ar_request b) = aq_cwd (ar_request a))"
        using True g iw c by (auto simp: s'(1) jm_get_set split: if_splits)
      then show False
        using free w by blast
    qed
  qed
  ultimately show ?thesis
    unfolding writers_ok_def by blast
qed

lemma admit_inv:
  assumes inv: "base_inv cfg growing s" and i: "i < length (pending_runs s)"
    and start: "canStart cfg s (pending_runs s ! i)" and opened: "\<not> closed s"
  shows "base_inv cfg growing (admit i s)"
proof -
  let ?p = "pending_runs s ! i"
  note sel = admit_sel [OF i]
  have p: "?p \<in> set (pending_runs s)"
    using i by simp
  have runs: "runs_ok s" and writ: "writers_ok s"
    using inv by (simp_all add: base_inv_def)
  have fresh: "jm_get (active s) (pe_run ?p) = None" "jm_get (usageByRun s) (pe_run ?p) = None"
    using runs p by (simp_all add: runs_ok_def)
  have dp: "distinct (map pe_run (pending_runs s))" and ok: "jm_ok (active s)"
    using runs by (simp_all add: runs_ok_def)
  have sub: "set (splice_out i (pending_runs s)) = set (pending_runs s) - {?p}"
    using set_splice_out [OF i] dp by (simp add: distinct_map)
  have ms: "mset (pending_runs s) = add_mset ?p (mset (splice_out i (pending_runs s)))"
    by (rule mset_splice_out [OF i])
  have other: "pe_run q \<noteq> pe_run ?p" if "q \<in> set (splice_out i (pending_runs s))" for q
    using that dp p sub by (auto simp: distinct_map dest: inj_onD)
  have free: "is_writer \<lparr>ar_request = pe_request ?p, ar_usage = zeroUsage, ar_aborted = False\<rparr> \<Longrightarrow>
      aq_cwd (pe_request ?p) \<notin> set (writers s)"
    using start by (auto simp: canStart_def is_writer_def split: if_splits)
  have "writers_ok (admit i s)"
    by (rule writers_ok_add [OF writ fresh(1), where a = "\<lparr>ar_request = pe_request ?p,
        ar_usage = zeroUsage, ar_aborted = False\<rparr>"])
       (use free in \<open>simp_all add: sel is_writer_def\<close>)
  moreover have "tickets_ok (admit i s)"
  proof -
    have "mset (map fst (settled (admit i s)) @ map pe_ticket (pending_runs (admit i s))) =
        mset (map fst (settled s) @ map pe_ticket (pending_runs s))"
      using arg_cong [OF ms, of "image_mset pe_ticket"] by (simp add: sel)
    from mset_eq_imp_distinct_iff [OF this] show ?thesis
      using inv unfolding base_inv_def tickets_ok_def by blast
  qed
  moreover have "runs_ok (admit i s)"
  proof -
    have "mset (map pe_run (pending_runs s)) = add_mset (pe_run ?p) (mset (map pe_run (splice_out i (pending_runs s))))"
      using arg_cong [OF ms, of "image_mset pe_run"] by simp
    then have "mset (map pe_run (pending_runs s)) = mset (pe_run ?p # map pe_run (splice_out i (pending_runs s)))"
      by simp
    from mset_eq_imp_distinct_iff [OF this]
    have "distinct (pe_run ?p # map pe_run (splice_out i (pending_runs s)))"
      using dp by blast
    then show ?thesis
      using runs other sub fresh
      unfolding runs_ok_def sel signal_aborted_def
      by (auto simp: jm_get_set jm_ok_set zero_usage_stats_def)
  qed
  moreover have "totals_ok growing (admit i s)"
    using inv by (simp add: base_inv_def totals_ok_def sel)
  moreover have "bounds_ok cfg (admit i s)"
    using inv opened start i fresh(1) length_jm_set [OF ok] length_splice_out [OF i]
    by (auto simp: base_inv_def bounds_ok_def sel canStart_def split: if_splits)
  ultimately show ?thesis
    by (simp add: base_inv_def)
qed

lemma drain_loop_inv:
  assumes "base_inv cfg growing s" and "\<not> closed s"
  shows "base_inv cfg growing (drain_loop cfg s) \<and> drained cfg (drain_loop cfg s) \<and> \<not> closed (drain_loop cfg s)"
  using assms
proof (induction "length (pending_runs s)" arbitrary: s rule: less_induct)
  case less
  have runs: "runs_ok s"
    using less.prems by (simp add: base_inv_def)
  show ?case
  proof (cases "length (active s) < maxConcurrentRuns cfg")
    case False
    then have "drain_loop cfg s = s"
      using drain_loop_step [OF runs] by simp
    then show ?thesis
      using less.prems False by (simp add: drained_def canStart_def)
  next
    case True
    show ?thesis
    proof (cases "find_index (canStart cfg s) (pending_runs s)")
      case None
      then have "drain_loop cfg s = s"
        using drain_loop_step [OF runs] True by simp
      then show ?thesis
        using less.prems None by (simp add: drained_def find_index_None)
    next
      case (Some i)
      note i = find_index_Some [OF Some]
      have "drain_loop cfg s = drain_loop cfg (admit i s)"
        using drain_loop_step [OF runs] True Some by simp
      moreover have "base_inv cfg growing (admit i s)"
        using admit_inv [OF less.prems(1)] i less.prems(2) by blast
      moreover have "length (pending_runs (admit i s)) < length (pending_runs s)"
        using i length_splice_out [of i "pending_runs s"] by (simp add: admit_sel) linarith
      ultimately show ?thesis
        using less.hyps [of "admit i s"] less.prems(2) i by (simp add: admit_sel)
    qed
  qed
qed

lemma drain_inv:
  assumes "base_inv cfg growing s"
  shows "sup_inv cfg growing (drain cfg s)"
proof (cases "closed s")
  case True
  then show ?thesis
    using assms by (simp add: drain_def sup_inv_def drained_def base_inv_def bounds_ok_def)
next
  case False
  then show ?thesis
    using drain_loop_inv [OF assms] by (simp add: drain_def sup_inv_def)
qed

section \<open>Every step preserves it\<close>

text \<open>The fields about children play no part.\<close>

lemma sup_inv_frame:
  assumes "sup_inv cfg growing s"
    and "active s' = active s" "pending_runs s' = pending_runs s" "writers s' = writers s"
      "totalUsage s' = totalUsage s" "usageByRun s' = usageByRun s" "closed s' = closed s"
      "settled s' = settled s" "aborted_signals s' = aborted_signals s"
  shows "sup_inv cfg growing s'"
proof -
  have "signal_aborted s' q = signal_aborted s q" for q
    by (rule signal_aborted_cong) (rule assms(9))
  moreover have "canStart cfg s' p = canStart cfg s p" for p
    by (simp add: canStart_def assms(2,4))
  ultimately show ?thesis
    using assms(1) by (simp add: sup_inv_def base_defs drained_def assms(2-9))
qed

lemma writers_ok_same:
  assumes "writers_ok s" and "writers s' = writers s"
    and "\<And>k. map_option ar_request (jm_get (active s') k) = map_option ar_request (jm_get (active s) k)"
  shows "writers_ok s'"
proof -
  have fwd: "\<exists>b. jm_get (active s) k = Some b \<and> ar_request b = ar_request a" if "jm_get (active s') k = Some a" for k a
    using assms(3) [of k] that by (cases "jm_get (active s) k") auto
  show ?thesis
    unfolding writers_ok_def assms(2)
  proof (intro conjI allI impI)
    fix w
    have conv: "(\<exists>r a. jm_get m r = Some a \<and> is_writer a \<and> aq_cwd (ar_request a) = w) \<longleftrightarrow>
        (\<exists>r q. map_option ar_request (jm_get m r) = Some q \<and> aq_access q = Write_access \<and> aq_cwd q = w)" for m
      by (auto simp: is_writer_def)
    have "(\<exists>r a. jm_get (active s') r = Some a \<and> is_writer a \<and> aq_cwd (ar_request a) = w) \<longleftrightarrow>
        (\<exists>r a. jm_get (active s) r = Some a \<and> is_writer a \<and> aq_cwd (ar_request a) = w)"
      unfolding conv assms(3) ..
    then show "(w \<in> set (writers s)) \<longleftrightarrow>
        (\<exists>r a. jm_get (active s') r = Some a \<and> is_writer a \<and> aq_cwd (ar_request a) = w)"
      using assms(1) by (simp add: writers_ok_def)
  next
    fix r a r' a'
    assume *: "jm_get (active s') r = Some a" "jm_get (active s') r' = Some a'" "is_writer a" "is_writer a'"
      "aq_cwd (ar_request a) = aq_cwd (ar_request a')"
    obtain b b' where "jm_get (active s) r = Some b" "ar_request b = ar_request a"
      "jm_get (active s) r' = Some b'" "ar_request b' = ar_request a'"
      using fwd *(1,2) by metis
    then show "r = r'"
      using assms(1) * unfolding writers_ok_def is_writer_def by metis
  qed
qed

text \<open>Writing an active run back with the same request.\<close>

lemma active_update:
  assumes inv: "base_inv cfg growing s" and a: "jm_get (active s) r = Some a" and a': "ar_request a' = ar_request a"
    and s': "active s' = jm_set r a' (active s)" "pending_runs s' = pending_runs s" "writers s' = writers s"
      "closed s' = closed s" "settled s' = settled s" "aborted_signals s' = aborted_signals s"
    and usage: "ar_usage a' = (case jm_get (usageByRun s') r of None \<Rightarrow> 0 | Some u \<Rightarrow> u)"
      "jm_ok (usageByRun s')" "\<And>k. k \<noteq> r \<Longrightarrow> jm_get (usageByRun s') k = jm_get (usageByRun s) k"
    and totals: "totals_ok growing s'"
  shows "base_inv cfg growing s' \<and> length (active s') = length (active s)"
proof -
  have runs: "runs_ok s"
    using inv by (simp add: base_inv_def)
  have ok: "jm_ok (active s)"
    using runs by (simp add: runs_ok_def)
  have len: "length (active s') = length (active s)"
    using length_jm_set [OF ok, of r a'] a by (simp add: s'(1))
  have sig: "signal_aborted s' q = signal_aborted s q" for q
    by (rule signal_aborted_cong) (rule s'(6))
  have "writers_ok s'"
    by (rule writers_ok_same [of s]) (use inv a a' in \<open>simp_all add: base_inv_def s' jm_get_set\<close>)
  moreover have "runs_ok s'"
  proof -
    have "pe_run p \<noteq> r" if "p \<in> set (pending_runs s)" for p
      using runs that a by (auto simp: runs_ok_def)
    then show ?thesis
      using runs usage by (auto simp: runs_ok_def s' sig jm_get_set jm_ok_set)
  qed
  moreover have "bounds_ok cfg s'"
    using inv len by (simp add: base_inv_def bounds_ok_def s'(2,4))
  moreover have "tickets_ok s'"
    using inv by (simp add: base_inv_def tickets_ok_def s')
  ultimately show ?thesis
    using totals len by (simp add: base_inv_def)
qed

lemma addUsageDelta_ge: "t + (n - p) \<le> addUsageDelta t p n"
  by (simp add: usage_ops addUsageDelta_def)

lemma addUsageDelta_eq: "p \<le> n \<Longrightarrow> addUsageDelta t p n = t + (n - p)"
  by (simp add: usage_ops addUsageDelta_def max_def)

lemma updateUsage_totals:
  assumes runs: "runs_ok s" and totals: "totals_ok growing s" and a: "jm_get (active s) r = Some a"
    and grow: "growing \<Longrightarrow> grows r u s"
  shows "totals_ok growing (updateUsage r u s)"
proof -
  let ?sum = "\<lambda>m. sum_list (map snd m)"
  have prev: "ar_usage a = (case jm_get (usageByRun s) r of None \<Rightarrow> 0 | Some u \<Rightarrow> u)"
    using runs a by (simp add: runs_ok_def)
  have "?sum (jm_set r u (usageByRun s)) + ar_usage a = ?sum (usageByRun s) + u"
    using sum_jm_set [of r u "usageByRun s"] by (simp add: prev)
  then have new: "?sum (jm_set r u (usageByRun s)) = ?sum (usageByRun s) + (u - ar_usage a)"
    by (simp add: algebra_simps)
  have le: "?sum (usageByRun s) \<le> totalUsage s" and eq: "growing \<Longrightarrow> ?sum (usageByRun s) = totalUsage s"
    using totals by (simp_all add: totals_ok_def)
  have "?sum (usageByRun s) + (u - ar_usage a) \<le> totalUsage s + (u - ar_usage a)"
    using le by (rule add_right_mono)
  also have "\<dots> \<le> addUsageDelta (totalUsage s) (ar_usage a) u"
    by (rule addUsageDelta_ge)
  finally have "?sum (usageByRun (updateUsage r u s)) \<le> totalUsage (updateUsage r u s)"
    using a new by (simp add: updateUsage_def)
  moreover have "?sum (usageByRun (updateUsage r u s)) = totalUsage (updateUsage r u s)" if growing
    using a new eq [OF that] grow [OF that]
    by (simp add: updateUsage_def grows_def addUsageDelta_eq)
  ultimately show ?thesis
    by (simp add: totals_ok_def)
qed

lemma updateUsage_base:
  assumes inv: "base_inv cfg growing s" and grow: "growing \<Longrightarrow> grows r u s"
  shows "base_inv cfg growing (updateUsage r u s) \<and> length (active (updateUsage r u s)) = length (active s)"
proof (cases "jm_get (active s) r")
  case None
  then show ?thesis
    using inv by (simp add: updateUsage_def)
next
  case (Some a)
  have runs: "runs_ok s" and totals: "totals_ok growing s"
    using inv by (simp_all add: base_inv_def)
  show ?thesis
    by (rule active_update [OF inv Some, of "a\<lparr>ar_usage := u\<rparr>"])
       (use runs updateUsage_totals [OF runs totals Some grow] in
         \<open>simp_all add: updateUsage_def Some jm_get_set jm_ok_set runs_ok_def\<close>)
qed

lemma updateUsage_sel:
  "pending_runs (updateUsage r u s) = pending_runs s" "writers (updateUsage r u s) = writers s"
  "closed (updateUsage r u s) = closed s" "settled (updateUsage r u s) = settled s"
  "aborted_signals (updateUsage r u s) = aborted_signals s"
  "map_option ar_request (jm_get (active (updateUsage r u s)) k) = map_option ar_request (jm_get (active s) k)"
  by (auto simp: updateUsage_def jm_get_set split: option.splits)

lemma updateUsage_inv:
  assumes "sup_inv cfg growing s" and "growing \<Longrightarrow> grows r u s"
  shows "sup_inv cfg growing (updateUsage r u s)"
  using assms updateUsage_base [of cfg growing s r u]
  by (auto simp: sup_inv_def drained_def canStart_def updateUsage_sel)

lemma acquire_inv:
  assumes inv: "sup_inv cfg growing s" and new: "new_run t r s"
  shows "sup_inv cfg growing (acquire cfg t r q s)"
proof (cases "rejection cfg s q")
  case (Some x)
  have "signal_aborted (settle_ticket t (Rejected x) s) = signal_aborted s"
    by (rule ext, rule signal_aborted_cong) (simp add: settle_ticket_def)
  moreover have "canStart cfg (settle_ticket t (Rejected x) s) = canStart cfg s"
    by (rule ext) (simp add: settle_ticket_def canStart_def)
  ultimately show ?thesis
    using inv new Some
    by (simp add: acquire_def sup_inv_def base_defs drained_def new_run_def) (auto simp: settle_ticket_def)
next
  case None
  let ?p = "\<lparr>pe_ticket = t, pe_run = r, pe_request = q\<rparr>"
  let ?s = "s\<lparr>pending_runs := pending_runs s @ [?p]\<rparr>"
  have q: "\<not> closed s" "\<not> signal_aborted s q"
    "length (active s) + length (pending_runs s) < maxPendingRuns cfg + maxConcurrentRuns cfg"
    using None by (auto simp: rejection_def split: if_splits)
  have "base_inv cfg growing ?s"
    using inv q new unfolding sup_inv_def base_defs new_run_def by auto
  then show ?thesis
    using None by (simp add: acquire_def drain_inv)
qed

lemma abort_signal_inv:
  assumes inv: "sup_inv cfg growing s"
  shows "sup_inv cfg growing (abort_signal g s)"
proof -
  let ?hit = "\<lambda>p. aq_signal (pe_request p) = Some g"
  let ?s = "abort_signal g s"
  have sel: "active ?s = active s" "writers ?s = writers s" "totalUsage ?s = totalUsage s"
    "usageByRun ?s = usageByRun s" "closed ?s = closed s"
    "pending_runs ?s = filter (\<lambda>p. \<not> ?hit p) (pending_runs s)"
    "settled ?s = settled s @ map (\<lambda>p. (pe_ticket p, Rejected Aborted)) (filter ?hit (pending_runs s))"
    by (simp_all add: abort_signal_def)
  have b: "base_inv cfg growing s" and d: "drained cfg s"
    using inv by (simp_all add: sup_inv_def)
  have tickets: "tickets_ok ?s"
  proof -
    have "map fst (settled ?s) @ map pe_ticket (pending_runs ?s) =
        map fst (settled s) @ map pe_ticket (filter ?hit (pending_runs s) @ filter (\<lambda>p. \<not> ?hit p) (pending_runs s))"
      by (simp add: sel o_def)
    also have "mset \<dots> = mset (map fst (settled s) @ map pe_ticket (pending_runs s))"
    proof -
      have "mset (map pe_ticket (filter p xs @ filter (\<lambda>x. \<not> p x) xs)) = mset (map pe_ticket xs)" for p xs
        by (induction xs) auto
      then show ?thesis by simp
    qed
    finally have "mset (map fst (settled ?s) @ map pe_ticket (pending_runs ?s)) =
        mset (map fst (settled s) @ map pe_ticket (pending_runs s))" .
    from mset_eq_imp_distinct_iff [OF this] show ?thesis
      using b unfolding base_inv_def tickets_ok_def by blast
  qed
  have "\<not> signal_aborted ?s (pe_request p)" if "p \<in> set (pending_runs ?s)" for p
  proof -
    have "\<not> ?hit p" "\<not> signal_aborted s (pe_request p)"
      using that b by (auto simp: sel base_inv_def runs_ok_def)
    then show ?thesis
      by (cases "aq_signal (pe_request p)") (auto simp: signal_aborted_def abort_signal_def set_insert_def)
  qed
  then have "runs_ok ?s"
    using b unfolding base_inv_def runs_ok_def sel by (auto simp: distinct_map_filter)
  moreover have "bounds_ok cfg ?s"
  proof -
    have "length (pending_runs ?s) \<le> length (pending_runs s)"
      by (simp add: sel)
    moreover have "pending_runs s = [] \<Longrightarrow> pending_runs ?s = []"
      by (simp add: sel)
    ultimately show ?thesis
      using b unfolding base_inv_def bounds_ok_def sel(1,5) by auto
  qed
  moreover have "canStart cfg ?s = canStart cfg s"
    by (rule ext) (simp add: canStart_def sel)
  ultimately show ?thesis
    using b d tickets by (simp add: sup_inv_def base_inv_def writers_ok_def totals_ok_def drained_def sel)
qed

lemma writers_ok_remove:
  assumes ok: "writers_ok s" and a: "jm_get (active s) r = Some a"
    and s': "active s' = jm_delete r (active s)"
      "writers s' = (if is_writer a then filter (\<lambda>w. w \<noteq> aq_cwd (ar_request a)) (writers s) else writers s)"
  shows "writers_ok s'"
proof -
  have w: "w \<in> set (writers s) \<longleftrightarrow>
        (\<exists>r a. jm_get (active s) r = Some a \<and> is_writer a \<and> aq_cwd (ar_request a) = w)" for w
    using ok by (simp add: writers_ok_def)
  have u: "r1 = r2" if "jm_get (active s) r1 = Some a1" "jm_get (active s) r2 = Some a2"
    "is_writer a1" "is_writer a2" "aq_cwd (ar_request a1) = aq_cwd (ar_request a2)" for r1 r2 a1 a2
    using ok that unfolding writers_ok_def by blast
  have "w \<in> set (writers s') \<longleftrightarrow>
        (\<exists>k b. jm_get (active s') k = Some b \<and> is_writer b \<and> aq_cwd (ar_request b) = w)" for w
  proof -
    have "(\<exists>k b. jm_get (active s') k = Some b \<and> is_writer b \<and> aq_cwd (ar_request b) = w) \<longleftrightarrow>
        (\<exists>k b. k \<noteq> r \<and> jm_get (active s) k = Some b \<and> is_writer b \<and> aq_cwd (ar_request b) = w)"
      by (auto simp: s'(1) jm_get_delete split: if_splits)
    also have "\<dots> \<longleftrightarrow> w \<in> set (writers s) \<and> \<not> (is_writer a \<and> aq_cwd (ar_request a) = w)"
      using w [of w] u [OF a] a by (metis option.inject)
    finally show ?thesis
      by (auto simp: s'(2))
  qed
  moreover have "r1 = r2" if "jm_get (active s') r1 = Some a1" "jm_get (active s') r2 = Some a2"
    "is_writer a1" "is_writer a2" "aq_cwd (ar_request a1) = aq_cwd (ar_request a2)" for r1 r2 a1 a2
    using that u [of r1 a1 r2 a2] by (simp add: s'(1) jm_get_delete split: if_splits)
  ultimately show ?thesis
    unfolding writers_ok_def by blast
qed

lemma pruneChildren_sel:
  "active (pruneChildren cfg s) = active s" "pending_runs (pruneChildren cfg s) = pending_runs s"
  "writers (pruneChildren cfg s) = writers s" "totalUsage (pruneChildren cfg s) = totalUsage s"
  "usageByRun (pruneChildren cfg s) = usageByRun s" "closed (pruneChildren cfg s) = closed s"
  "settled (pruneChildren cfg s) = settled s" "aborted_signals (pruneChildren cfg s) = aborted_signals s"
  by (simp_all add: pruneChildren_def)

text \<open>What \<open>release\<close> has done just before it drains.\<close>

definition released :: "string \<Rightarrow> active_run \<Rightarrow> supervisor \<Rightarrow> supervisor" where
  "released r a s =
     (let s = s\<lparr>active := jm_delete r (active s)\<rparr> in
      if is_writer a then s\<lparr>writers := filter (\<lambda>w. w \<noteq> aq_cwd (ar_request a)) (writers s)\<rparr> else s)"

lemma released_base:
  assumes inv: "base_inv cfg growing s" and a: "jm_get (active s) r = Some a"
  shows "base_inv cfg growing (released r a s)"
proof -
  have sel: "active (released r a s) = jm_delete r (active s)"
    "writers (released r a s) = (if is_writer a then filter (\<lambda>w. w \<noteq> aq_cwd (ar_request a)) (writers s) else writers s)"
    "pending_runs (released r a s) = pending_runs s" "totalUsage (released r a s) = totalUsage s"
    "usageByRun (released r a s) = usageByRun s" "closed (released r a s) = closed s"
    "settled (released r a s) = settled s" "aborted_signals (released r a s) = aborted_signals s"
    by (simp_all add: released_def Let_def)
  have sig: "signal_aborted (released r a s) q = signal_aborted s q" for q
    by (rule signal_aborted_cong) (rule sel(8))
  have "writers_ok (released r a s)"
    by (rule writers_ok_remove [of s r a]) (use inv a in \<open>simp_all add: base_inv_def sel\<close>)
  moreover have "runs_ok (released r a s)"
    using inv by (auto simp: base_inv_def runs_ok_def sel sig jm_get_delete jm_ok_delete)
  moreover have "bounds_ok cfg (released r a s)"
  proof -
    have "length (jm_delete r (active s)) \<le> length (active s)"
      by (simp add: jm_delete_def)
    then show ?thesis
      using inv unfolding base_inv_def bounds_ok_def sel by auto
  qed
  ultimately show ?thesis
    using inv by (simp add: base_inv_def tickets_ok_def totals_ok_def sel)
qed

lemma base_inv_prune: "base_inv cfg growing s \<Longrightarrow> base_inv cfg growing (pruneChildren c s)"
proof -
  assume inv: "base_inv cfg growing s"
  have "signal_aborted (pruneChildren c s) q = signal_aborted s q" for q
    by (rule signal_aborted_cong) (simp add: pruneChildren_sel)
  then show ?thesis
    using inv by (simp add: base_defs pruneChildren_sel)
qed

lemma release_eq:
  assumes "jm_get (active s) r = Some a"
  shows "release cfg r u s =
    drain cfg (let s = released r a (case u of None \<Rightarrow> s | Some v \<Rightarrow> updateUsage r v s) in
               if closed s then s else pruneChildren cfg s)"
  using assms by (simp add: release_def Let_def released_def is_writer_def cong: if_cong)

lemma release_inv:
  assumes inv: "sup_inv cfg growing s" and grow: "\<And>v. growing \<Longrightarrow> u = Some v \<Longrightarrow> grows r v s"
  shows "sup_inv cfg growing (release cfg r u s)"
proof (cases "jm_get (active s) r")
  case None
  then show ?thesis
    using inv by (simp add: release_def)
next
  case (Some a)
  let ?s = "case u of None \<Rightarrow> s | Some v \<Rightarrow> updateUsage r v s"
  have base: "base_inv cfg growing ?s"
    using inv updateUsage_base [of cfg growing s r] grow by (auto simp: sup_inv_def split: option.split)
  obtain a' where a': "jm_get (active ?s) r = Some a'" "ar_request a' = ar_request a"
    using Some updateUsage_sel(6) [of r _ s r] by (cases u) (auto simp: updateUsage_def jm_get_set)
  have "released r a ?s = released r a' ?s"
    by (simp add: released_def is_writer_def a'(2) Let_def)
  then have "base_inv cfg growing (released r a ?s)"
    using released_base [OF base a'(1)] by simp
  then show ?thesis
    unfolding release_eq [OF Some] by (auto simp: Let_def intro: drain_inv base_inv_prune)
qed

lemma abort_run_inv:
  assumes inv: "sup_inv cfg growing s"
  shows "sup_inv cfg growing (abort_run r s)"
proof (cases "jm_get (active s) r")
  case None
  then show ?thesis
    using inv by (simp add: abort_run_def)
next
  case (Some a)
  have "base_inv cfg growing (abort_run r s) \<and> length (active (abort_run r s)) = length (active s)"
    by (rule active_update [OF _ Some, of cfg growing "a\<lparr>ar_aborted := True\<rparr>"])
       (use inv Some in \<open>auto simp: abort_run_def sup_inv_def base_inv_def runs_ok_def totals_ok_def\<close>)
  moreover have "writers (abort_run r s) = writers s" "pending_runs (abort_run r s) = pending_runs s"
    using Some by (simp_all add: abort_run_def)
  ultimately show ?thesis
    using inv by (auto simp: sup_inv_def drained_def canStart_def split: if_splits)
qed

lemma shutdown_inv:
  assumes inv: "sup_inv cfg growing s"
  shows "sup_inv cfg growing (shutdown s)"
proof -
  have get: "jm_get (map (\<lambda>(k, a). (k, f a)) m) k = map_option f (jm_get m k)" for f :: "active_run \<Rightarrow> active_run" and m k
    by (induction m) (auto simp: jm_get_def)
  have sel: "active (shutdown s) = map (\<lambda>(k, a). (k, a\<lparr>ar_aborted := True\<rparr>)) (active s)"
    "pending_runs (shutdown s) = []" "writers (shutdown s) = writers s" "usageByRun (shutdown s) = usageByRun s"
    "totalUsage (shutdown s) = totalUsage s" "closed (shutdown s)"
    by (simp_all add: shutdown_def)
  have b: "base_inv cfg growing s"
    using inv by (simp add: sup_inv_def)
  have "writers_ok (shutdown s)"
    by (rule writers_ok_same [of s])
       (use b in \<open>simp_all add: sel base_inv_def get option.map_comp o_def\<close>)
  moreover have "runs_ok (shutdown s)"
    using b unfolding base_inv_def runs_ok_def sel get
    by (auto simp: jm_ok_def o_def case_prod_unfold)
  moreover have "tickets_ok (shutdown s)"
    using b by (simp add: base_inv_def tickets_ok_def shutdown_def o_def)
  moreover have "bounds_ok cfg (shutdown s)"
    using b by (simp add: base_inv_def bounds_ok_def sel)
  ultimately show ?thesis
    using b by (simp add: sup_inv_def base_inv_def totals_ok_def drained_def sel)
qed

lemma sup_inv_new: "sup_inv cfg growing new_supervisor"
  by (simp add: sup_inv_def base_defs drained_def new_supervisor_def jm_ok_def jm_get_def zero_usage_stats_def)

lemma sup_inv_step: "sup_step cfg growing s s' \<Longrightarrow> sup_inv cfg growing s \<Longrightarrow> sup_inv cfg growing s'"
proof (induction rule: sup_step.induct)
  case (Acquire t r s q)
  then show ?case by (simp add: acquire_inv)
next
  case (Abort s g)
  then show ?case by (simp add: abort_signal_inv)
next
  case (Update r u s)
  then show ?case by (simp add: updateUsage_inv)
next
  case (Release u r s)
  then show ?case by (simp add: release_inv)
next
  case (Deadline s r)
  then show ?case by (simp add: abort_run_inv)
next
  case (Retain i st s s')
  then show ?case
    by (elim sup_inv_frame) (auto simp: retainChild_def split: if_splits)
next
  case (Child s i st)
  then show ?case
    by (elim sup_inv_frame) simp_all
next
  case (Prune s)
  then show ?case
    by (elim sup_inv_frame) (simp_all add: pruneChildren_sel)
next
  case (Evicted i s)
  then show ?case
    by (elim sup_inv_frame) (simp_all add: eviction_done_def)
next
  case (Not_evicted i s)
  then show ?case
    by (elim sup_inv_frame) (simp_all add: eviction_failed_def Let_def)
next
  case (Shutdown s)
  then show ?case by (simp add: shutdown_inv)
qed

lemma sup_inv_reachable: "sup_reachable cfg growing s \<Longrightarrow> sup_inv cfg growing s"
  by (induction rule: sup_reachable.induct) (auto intro: sup_inv_new sup_inv_step)

section \<open>Properties\<close>

text \<open>C4: in every reachable state at most \<open>maxConcurrentRuns\<close> runs are active, the runs and
  the queue together stay within the configured capacity, two different active writers never
  share a workspace, and a closed supervisor has an empty queue.\<close>

theorem supervisor_bounds:
  assumes "sup_reachable cfg growing s"
  shows "length (active s) \<le> maxConcurrentRuns cfg \<and>
    length (active s) + length (pending_runs s) \<le> maxPendingRuns cfg + maxConcurrentRuns cfg \<and>
    (\<forall>r a r' a'. jm_get (active s) r = Some a \<longrightarrow> jm_get (active s) r' = Some a' \<longrightarrow> r \<noteq> r' \<longrightarrow>
       aq_access (ar_request a) = Write_access \<longrightarrow> aq_access (ar_request a') = Write_access \<longrightarrow>
       aq_cwd (ar_request a) \<noteq> aq_cwd (ar_request a')) \<and>
    (closed s \<longrightarrow> pending_runs s = [])"
proof -
  have inv: "writers_ok s" "bounds_ok cfg s"
    using sup_inv_reachable [OF assms] by (simp_all add: sup_inv_def base_inv_def)
  then show ?thesis
    unfolding writers_ok_def bounds_ok_def is_writer_def by blast
qed

text \<open>C20: nobody waits without a reason: a queued admission means that all slots are taken or
  that it wants to write in a workspace where an active run is writing.\<close>

theorem supervisor_work_conserving:
  assumes "sup_reachable cfg growing s" and "p \<in> set (pending_runs s)"
  shows "length (active s) = maxConcurrentRuns cfg \<or>
    (aq_access (pe_request p) = Write_access \<and>
     (\<exists>r a. jm_get (active s) r = Some a \<and> aq_access (ar_request a) = Write_access \<and>
        aq_cwd (ar_request a) = aq_cwd (pe_request p)))"
proof -
  have inv: "writers_ok s" "bounds_ok cfg s" "drained cfg s"
    using sup_inv_reachable [OF assms(1)] by (simp_all add: sup_inv_def base_inv_def)
  then have "\<not> canStart cfg s p"
    using assms(2) by (simp add: drained_def)
  then show ?thesis
    using inv(1,2) by (auto simp: canStart_def writers_ok_def bounds_ok_def is_writer_def split: if_splits)
qed

text \<open>The promises a state knows: queued or answered.\<close>

definition tickets :: "supervisor \<Rightarrow> nat set" where
  "tickets s = fst ` set (settled s) \<union> pe_ticket ` set (pending_runs s)"

definition extends :: "supervisor \<Rightarrow> supervisor \<Rightarrow> bool" where
  "extends s s' \<longleftrightarrow> (\<exists>zs. settled s' = settled s @ zs) \<and> tickets s \<subseteq> tickets s'"

lemma extends_refl: "extends s s"
  by (simp add: extends_def)

lemma extends_trans: "extends s t \<Longrightarrow> extends t u \<Longrightarrow> extends s u"
  by (auto simp: extends_def)

lemma extends_same: "settled s' = settled s \<Longrightarrow> pending_runs s' = pending_runs s \<Longrightarrow> extends s s'"
  by (simp add: extends_def tickets_def)

lemma extends_drain_loop: "runs_ok s \<Longrightarrow> base_inv cfg growing s \<Longrightarrow> \<not> closed s \<Longrightarrow> extends s (drain_loop cfg s)"
proof (induction "length (pending_runs s)" arbitrary: s rule: less_induct)
  case less
  show ?case
  proof (cases "length (active s) < maxConcurrentRuns cfg \<and> find_index (canStart cfg s) (pending_runs s) \<noteq> None")
    case False
    then have "drain_loop cfg s = s"
      using drain_loop_step [OF less.prems(1)] by auto
    then show ?thesis by (simp add: extends_refl)
  next
    case True
    then obtain i where i: "find_index (canStart cfg s) (pending_runs s) = Some i" by blast
    note f = find_index_Some [OF i]
    have eq: "drain_loop cfg s = drain_loop cfg (admit i s)"
      using drain_loop_step [OF less.prems(1)] True i by simp
    have adm: "base_inv cfg growing (admit i s)"
      using admit_inv [OF less.prems(2)] f less.prems(3) by blast
    have "extends s (admit i s)"
    proof -
      have "set (pending_runs s) \<subseteq> insert (pending_runs s ! i) (set (splice_out i (pending_runs s)))"
        using mset_splice_out [of i "pending_runs s"] f by (metis set_mset_add_mset_insert set_mset_mset subset_refl)
      then show ?thesis
        using f by (auto simp: extends_def tickets_def admit_sel)
    qed
    moreover have "extends (admit i s) (drain_loop cfg (admit i s))"
    proof (rule less.hyps)
      show "length (pending_runs (admit i s)) < length (pending_runs s)"
        using f length_splice_out [of i "pending_runs s"] by (simp add: admit_sel) linarith
      show "runs_ok (admit i s)" "base_inv cfg growing (admit i s)" "\<not> closed (admit i s)"
        using adm less.prems(3) f by (simp_all add: admit_sel base_inv_def)
    qed
    ultimately show ?thesis
      unfolding eq by (rule extends_trans)
  qed
qed

lemma extends_drain: "base_inv cfg growing s \<Longrightarrow> extends s (drain cfg s)"
  using extends_drain_loop [of s cfg growing] by (auto simp: drain_def extends_refl base_inv_def)

lemma extends_step: "sup_step cfg growing s s' \<Longrightarrow> sup_inv cfg growing s \<Longrightarrow> extends s s'"
proof (induction rule: sup_step.induct)
  case (Acquire t r s q)
  show ?case
  proof (cases "rejection cfg s q")
    case (Some x)
    then show ?thesis
      by (auto simp: acquire_def settle_ticket_def extends_def tickets_def)
  next
    case None
    let ?s = "s\<lparr>pending_runs := pending_runs s @ [\<lparr>pe_ticket = t, pe_run = r, pe_request = q\<rparr>]\<rparr>"
    have q: "\<not> closed s" "\<not> signal_aborted s q"
      "length (active s) + length (pending_runs s) < maxPendingRuns cfg + maxConcurrentRuns cfg"
      using None by (auto simp: rejection_def split: if_splits)
    have "base_inv cfg growing ?s"
      using Acquire q unfolding sup_inv_def base_defs new_run_def by auto
    moreover have "extends s ?s"
      by (auto simp: extends_def tickets_def)
    ultimately show ?thesis
      using None extends_drain extends_trans by (auto simp: acquire_def)
  qed
next
  case (Abort s g)
  then show ?case
    unfolding extends_def tickets_def by (force simp: abort_signal_def Let_def image_iff)
next
  case (Update r u s)
  then show ?case by (auto intro: extends_same simp: updateUsage_sel)
next
  case (Release u r s)
  show ?case
  proof (cases "jm_get (active s) r")
    case None
    then show ?thesis by (simp add: release_def extends_refl)
  next
    case (Some a)
    let ?s = "case u of None \<Rightarrow> s | Some v \<Rightarrow> updateUsage r v s"
    have base: "base_inv cfg growing ?s"
      using Release updateUsage_base [of cfg growing s r] by (auto simp: sup_inv_def split: option.split)
    obtain a' where a': "jm_get (active ?s) r = Some a'" "ar_request a' = ar_request a"
      using Some updateUsage_sel(6) [of r _ s r] by (cases u) (auto simp: updateUsage_def jm_get_set)
    have rel: "released r a ?s = released r a' ?s"
      by (simp add: released_def is_writer_def a'(2) Let_def)
    let ?t = "let s = released r a ?s in if closed s then s else pruneChildren cfg s"
    have "extends s ?s"
      by (cases u) (auto intro: extends_same simp: updateUsage_sel)
    moreover have "extends ?s ?t"
      by (auto intro!: extends_same simp: Let_def released_def pruneChildren_sel)
    moreover have "base_inv cfg growing ?t"
      using released_base [OF base a'(1)] rel by (auto simp: Let_def intro: base_inv_prune)
    ultimately show ?thesis
      unfolding release_eq [OF Some] using extends_drain extends_trans by blast
  qed
next
  case (Deadline s r)
  then show ?case by (auto intro!: extends_same simp: abort_run_def split: option.split)
next
  case (Retain i st s s')
  then show ?case by (auto intro!: extends_same simp: retainChild_def split: if_splits)
next
  case (Not_evicted i s)
  then show ?case by (auto intro!: extends_same simp: eviction_failed_def Let_def)
next
  case (Shutdown s)
  then show ?case
    unfolding extends_def tickets_def by (force simp: shutdown_def image_iff)
qed (auto intro!: extends_same simp: pruneChildren_sel eviction_done_def)

text \<open>Every admission promise is answered at most once and never forgotten: in a reachable
  state no ticket is both queued and answered or answered twice, and any further step keeps
  all answers as they are and every known ticket queued or answered.\<close>

theorem admission_answered_once:
  assumes "sup_reachable cfg growing s" and "sup_step cfg growing s s'"
  shows "distinct (map fst (settled s) @ map pe_ticket (pending_runs s)) \<and>
    (\<exists>zs. settled s' = settled s @ zs) \<and> tickets s \<subseteq> tickets s'"
  using sup_inv_reachable [OF assms(1)] extends_step [OF assms(2)]
  by (simp add: sup_inv_def base_inv_def tickets_ok_def extends_def)

text \<open>The session total never falls below the sum of the runs' last reported usages, field by
  field, and equals it as long as each run's reports only grow.\<close>

theorem total_usage_accounts:
  assumes "sup_reachable cfg growing s"
  shows "sum_list (map snd (usageByRun s)) \<le> usage_of None s \<and>
    (growing \<longrightarrow> usage_of None s = sum_list (map snd (usageByRun s)))"
  using sup_inv_reachable [OF assms] by (simp add: sup_inv_def base_inv_def totals_ok_def usage_of_def)

lemma release_closed:
  "closed s \<Longrightarrow> active (release cfg r None s) = jm_delete r (active s) \<and> closed (release cfg r None s) \<and>
   pending_runs (release cfg r None s) = pending_runs s"
  by (auto simp: release_def Let_def drain_def jm_get_def jm_delete_def map_of_eq_None_iff
      intro!: filter_True [symmetric] split: option.split)

text \<open>Shutdown can finish: it empties the queue, and once the runs that were active have
  released, in any order, no run is left and none has started meanwhile.\<close>

theorem shutdown_completes:
  assumes "set (jm_keys (active s)) \<subseteq> set rs"
  shows "active (foldl (\<lambda>s r. release cfg r None s) (shutdown s) rs) = [] \<and>
    pending_runs (foldl (\<lambda>s r. release cfg r None s) (shutdown s) rs) = []"
proof -
  have "active (foldl (\<lambda>s r. release cfg r None s) s rs) = [] \<and>
      pending_runs (foldl (\<lambda>s r. release cfg r None s) s rs) = []"
    if "closed s" "pending_runs s = []" "set (jm_keys (active s)) \<subseteq> set rs" for s
    using that
  proof (induction rs arbitrary: s)
    case Nil
    then show ?case by (simp add: jm_keys_def)
  next
    case (Cons r rs)
    have "set (jm_keys (active (release cfg r None s))) \<subseteq> set rs"
      using Cons.prems release_closed [of s cfg r] by (auto simp: jm_keys_def jm_delete_def)
    then show ?case
      using Cons.IH [of "release cfg r None s"] Cons.prems release_closed [of s cfg r] by simp
  qed
  moreover have "jm_keys (active (shutdown s)) = jm_keys (active s)"
    by (simp add: shutdown_def jm_keys_def o_def case_prod_unfold)
  ultimately show ?thesis
    using assms by (simp add: shutdown_def)
qed

section \<open>Witnesses\<close>

definition demo_cfg :: runtime_config where
  "demo_cfg = \<lparr>maxConcurrentRuns = 2, maxPendingRuns = 4, maxRetainedJobs = 1\<rparr>"

definition demo_request :: admission where
  "demo_request = \<lparr>aq_cwd = ''w'', aq_access = Write_access, aq_signal = None\<rparr>"

definition demo_one :: supervisor where
  "demo_one = acquire demo_cfg 0 ''r0'' demo_request new_supervisor"

definition demo_two :: supervisor where
  "demo_two = acquire demo_cfg 1 ''r1'' demo_request demo_one"

lemma demo_steps:
  "sup_step demo_cfg growing new_supervisor demo_one" "sup_step demo_cfg growing demo_one demo_two"
proof -
  have "new_run 0 ''r0'' new_supervisor" "new_run 1 ''r1'' demo_one"
    by code_simp+
  then show "sup_step demo_cfg growing new_supervisor demo_one" "sup_step demo_cfg growing demo_one demo_two"
    unfolding demo_one_def demo_two_def by (auto intro: sup_step.Acquire)
qed

lemma demo_reachable: "sup_reachable demo_cfg growing demo_one" "sup_reachable demo_cfg growing demo_two"
  by (rule sup_reachable.Step [OF sup_reachable.New demo_steps(1)],
      rule sup_reachable.Step [OF sup_reachable.Step [OF sup_reachable.New demo_steps(1)] demo_steps(2)])

lemma demo_two_pending: "pending_runs demo_two = [\<lparr>pe_ticket = 1, pe_run = ''r1'', pe_request = demo_request\<rparr>]"
  by code_simp

theorem supervisor_bounds_witness: "length (active demo_two) \<le> 2"
  using supervisor_bounds [OF demo_reachable(2) [of True]] by (simp add: demo_cfg_def)

theorem supervisor_work_conserving_witness:
  "\<exists>r a. jm_get (active demo_two) r = Some a \<and> aq_cwd (ar_request a) = ''w''"
proof -
  have "length (active demo_two) \<noteq> maxConcurrentRuns demo_cfg"
    by code_simp
  then show ?thesis
    using supervisor_work_conserving [OF demo_reachable(2) [of True],
        of "\<lparr>pe_ticket = 1, pe_run = ''r1'', pe_request = demo_request\<rparr>"]
    by (auto simp: demo_two_pending demo_request_def)
qed

theorem admission_answered_once_witness: "\<exists>zs. settled demo_two = settled demo_one @ zs"
  using admission_answered_once [OF demo_reachable(1) [of True] demo_steps(2)] by blast

theorem total_usage_accounts_witness: "sum_list (map snd (usageByRun demo_two)) \<le> usage_of None demo_two"
  using total_usage_accounts [OF demo_reachable(2) [of True]] by blast

theorem shutdown_completes_witness: "active (release demo_cfg ''r0'' None (shutdown demo_two)) = []"
proof -
  have "set (jm_keys (active demo_two)) \<subseteq> set [''r0'']"
    by code_simp
  from shutdown_completes [OF this, of demo_cfg] show ?thesis by simp
qed

end
