(* ===== verification/Jobs.thy ===== *)
theory Jobs
  imports Usage
begin

text \<open>
  Asynchronous subagent jobs, \<open>extensions/subagent/jobs.ts\<close>: the status machine of a job, its
  cancellation, the fiber that runs it, retention of finished jobs and the byte bound on
  results. Jobs are mutable objects that the fiber keeps after the manager's map has dropped
  them, so the objects live in a store and the map is the list of the identifiers it holds.
  Times are numbers; the run itself, the ledger's caller and the display are environment.
\<close>

section \<open>State\<close>

datatype job_status =
  J_queued | J_running | J_cancelling | J_completed | J_failed | J_cancelled | J_interrupted | J_rejected

definition terminal :: "job_status \<Rightarrow> bool" where
  "terminal st = (st \<notin> {J_queued, J_running, J_cancelling})"

text \<open>A job's fiber: not started, running, past its result but not its release, ended.\<close>

datatype fiber = Not_forked | Forked | Resulted | Ended

record job =
  jb_status :: job_status
  jb_details :: "(string \<times> usage_stats) option"
  jb_result :: "(string \<times> bool) option"
  jb_error :: "string option"
  jb_aborted :: bool
  jb_created :: nat
  jb_finished :: bool
  jb_fiber :: fiber

record manager =
  objects :: "(string, job) jsmap"
  listed :: "string list"
  shutdownStarted :: bool
  done_log :: "string list"
  entries :: "(string \<times> job_status) list"
  jledger :: ledger

definition new_manager :: manager where
  "new_manager = \<lparr>objects = [], listed = [], shutdownStarted = False, done_log = [], entries = [], jledger = []\<rparr>"

definition put_job :: "string \<Rightarrow> job \<Rightarrow> manager \<Rightarrow> manager" where
  "put_job i j m = m\<lparr>objects := jm_set i j (objects m)\<rparr>"

section \<open>Operations\<close>

definition record_job :: "string \<Rightarrow> manager \<Rightarrow> manager" where
  "record_job i m =
     (case jm_get (objects m) i of
        None \<Rightarrow> m
      | Some j \<Rightarrow> m\<lparr>entries := entries m @ [(i, jb_status j)]\<rparr>)"

definition status_of :: "manager \<Rightarrow> string \<Rightarrow> job_status" where
  "status_of m i = (case jm_get (objects m) i of None \<Rightarrow> J_rejected | Some j \<Rightarrow> jb_status j)"

definition created_of :: "manager \<Rightarrow> string \<Rightarrow> nat" where
  "created_of m i = (case jm_get (objects m) i of None \<Rightarrow> 0 | Some j \<Rightarrow> jb_created j)"

text \<open>The listed jobs in a terminal status, oldest first; the excess is dropped.\<close>

definition pruneTerminalJobs :: "nat \<Rightarrow> manager \<Rightarrow> manager" where
  "pruneTerminalJobs maxRetained m =
     (let terminalJobs = sort_key (created_of m) (filter (\<lambda>i. terminal (status_of m i)) (listed m));
          removed = take (length terminalJobs - maxRetained) terminalJobs in
      m\<lparr>listed := filter (\<lambda>i. i \<notin> set removed) (listed m)\<rparr>)"

definition finish :: "nat \<Rightarrow> string \<Rightarrow> manager \<Rightarrow> manager" where
  "finish maxRetained i m =
     (case jm_get (objects m) i of
        None \<Rightarrow> m
      | Some j \<Rightarrow>
          let m = (case jb_details j of
                     None \<Rightarrow> m
                   | Some (name, usage) \<Rightarrow> m\<lparr>jledger := record_usage i Async name usage (jledger m)\<rparr>);
              m = record_job i m;
              m = m\<lparr>done_log := done_log m @ [i]\<rparr> in
          pruneTerminalJobs maxRetained m)"

definition cancel :: "nat \<Rightarrow> string \<Rightarrow> manager \<Rightarrow> manager" where
  "cancel maxRetained i m =
     (if i \<notin> set (listed m) then m
      else case jm_get (objects m) i of
        None \<Rightarrow> m
      | Some j \<Rightarrow>
          (case jb_status j of
             J_queued \<Rightarrow>
               finish maxRetained i
                 (put_job i (j\<lparr>jb_status := J_cancelled, jb_finished := True,
                    jb_error := Some ''Cancelled before launch.'', jb_aborted := True\<rparr>) m)
           | J_running \<Rightarrow>
               record_job i (put_job i (j\<lparr>jb_status := J_cancelling, jb_aborted := True\<rparr>) m)
           | _ \<Rightarrow> m))"

definition new_job :: "bool \<Rightarrow> nat \<Rightarrow> job" where
  "new_job rejected now =
     \<lparr>jb_status = (if rejected then J_rejected else J_queued), jb_details = None, jb_result = None,
      jb_error = (if rejected then Some ''Parent subagent session is shutting down.'' else None),
      jb_aborted = False, jb_created = now, jb_finished = rejected, jb_fiber = Not_forked\<rparr>"

text \<open>\<open>start\<close> with a fresh identifier; \<open>aborted\<close> says that the caller's signal already fired.\<close>

definition start_job :: "nat \<Rightarrow> string \<Rightarrow> nat \<Rightarrow> bool \<Rightarrow> manager \<Rightarrow> manager" where
  "start_job maxRetained i now aborted m =
     (let rejected = shutdownStarted m;
          m = put_job i (new_job rejected now) m;
          m = record_job i (m\<lparr>listed := listed m @ [i]\<rparr>) in
      if rejected then pruneTerminalJobs maxRetained (m\<lparr>done_log := done_log m @ [i]\<rparr>)
      else let m = (if aborted then cancel maxRetained i m else m) in
        case jm_get (objects m) i of
          None \<Rightarrow> m
        | Some j \<Rightarrow> if jb_status j = J_queued then put_job i (j\<lparr>jb_fiber := Forked\<rparr>) m else m)"

definition onAdmitted :: "string \<Rightarrow> manager \<Rightarrow> manager" where
  "onAdmitted i m =
     (case jm_get (objects m) i of
        None \<Rightarrow> m
      | Some j \<Rightarrow> if jb_status j \<noteq> J_queued then m
                  else record_job i (put_job i (j\<lparr>jb_status := J_running\<rparr>) m))"

definition onUsage :: "string \<Rightarrow> string \<times> usage_stats \<Rightarrow> manager \<Rightarrow> manager" where
  "onUsage i details m =
     (case jm_get (objects m) i of
        None \<Rightarrow> m
      | Some j \<Rightarrow> put_job i (j\<lparr>jb_details := Some details\<rparr>) m)"

text \<open>What a run ends with: a result (its bounded text, details, stop reason) or a failure.\<close>

record run_success =
  rs_text :: "string \<times> bool"
  rs_details :: "(string \<times> usage_stats) option"
  rs_aborted :: bool
  rs_isError :: bool

datatype run_outcome = Run_success run_success | Run_failure bool string

text \<open>\<open>Run_failure admission message\<close>: whether the error is an admission error, and its message.\<close>

definition result_status :: "job \<Rightarrow> run_outcome \<Rightarrow> job_status" where
  "result_status j r =
     (case r of
        Run_success s \<Rightarrow>
          (if jb_aborted j then J_cancelled
           else if rs_aborted s then J_interrupted
           else if rs_isError s then J_failed
           else J_completed)
      | Run_failure admission message \<Rightarrow>
          (if admission then (if jb_aborted j then J_cancelled else J_rejected)
           else (if jb_aborted j then J_cancelled else J_failed)))"

definition run_result :: "string \<Rightarrow> run_outcome \<Rightarrow> manager \<Rightarrow> manager" where
  "run_result i r m =
     (case jm_get (objects m) i of
        None \<Rightarrow> m
      | Some j \<Rightarrow>
          if jb_status j = J_cancelled then put_job i (j\<lparr>jb_fiber := Resulted\<rparr>) m
          else put_job i
            ((case r of
                Run_success s \<Rightarrow>
                  j\<lparr>jb_result := Some (rs_text s),
                    jb_details := (case rs_details s of None \<Rightarrow> jb_details j | Some d \<Rightarrow> Some d)\<rparr>
              | Run_failure admission message \<Rightarrow> j\<lparr>jb_error := Some message\<rparr>)
             \<lparr>jb_status := result_status j r, jb_fiber := Resulted\<rparr>) m)"

text \<open>The release part of the fiber.\<close>

definition release_job :: "nat \<Rightarrow> string \<Rightarrow> manager \<Rightarrow> manager" where
  "release_job maxRetained i m =
     (case jm_get (objects m) i of
        None \<Rightarrow> m
      | Some j \<Rightarrow>
          let j' = j\<lparr>jb_fiber := Ended\<rparr> in
          if terminal (jb_status j) \<and> jb_finished j then put_job i j' m
          else
            let j' = (if jb_status j = J_running \<or> jb_status j = J_cancelling
                      then j'\<lparr>jb_status := J_interrupted,
                        jb_error := Some ''Subagent execution ended without a terminal result.''\<rparr>
                      else j') in
            finish maxRetained i (put_job i (j'\<lparr>jb_finished := True\<rparr>) m))"

fun cancel_all :: "nat \<Rightarrow> string list \<Rightarrow> manager \<Rightarrow> manager" where
  "cancel_all maxRetained [] m = m"
| "cancel_all maxRetained (i # is) m = cancel_all maxRetained is (cancel maxRetained i m)"

definition shutdown_jobs :: "nat \<Rightarrow> manager \<Rightarrow> manager" where
  "shutdown_jobs maxRetained m = cancel_all maxRetained (listed m) (m\<lparr>shutdownStarted := True\<rparr>)"

section \<open>Interleavings\<close>

text \<open>
  \<open>Effect.sandbox\<close> turns every end of a run into a success or a failure, so a fiber goes from
  \<open>Forked\<close> to \<open>Resulted\<close> to \<open>Ended\<close>, and other calls may come in between.
\<close>

definition fiber_of :: "manager \<Rightarrow> string \<Rightarrow> fiber" where
  "fiber_of m i = (case jm_get (objects m) i of None \<Rightarrow> Not_forked | Some j \<Rightarrow> jb_fiber j)"

inductive job_step :: "nat \<Rightarrow> manager \<Rightarrow> manager \<Rightarrow> bool" for n where
  Start: "jm_get (objects m) i = None \<Longrightarrow> job_step n m (start_job n i now aborted m)"
| Cancel: "job_step n m (cancel n i m)"
| Admitted: "fiber_of m i = Forked \<Longrightarrow> job_step n m (onAdmitted i m)"
| Usage: "fiber_of m i = Forked \<Longrightarrow> job_step n m (onUsage i d m)"
| Result: "fiber_of m i = Forked \<Longrightarrow> job_step n m (run_result i r m)"
| Release: "fiber_of m i = Resulted \<Longrightarrow> job_step n m (release_job n i m)"
| Shutdown: "job_step n m (shutdown_jobs n m)"

inductive job_reachable :: "nat \<Rightarrow> manager \<Rightarrow> bool" for n where
  New: "job_reachable n new_manager"
| Step: "job_reachable n m \<Longrightarrow> job_step n m m' \<Longrightarrow> job_reachable n m'"

inductive_cases job_stepE: "job_step n m m'"

section \<open>Invariant\<close>

text \<open>One job: \<open>d\<close> is whether its \<open>done\<close> is completed, \<open>l\<close> whether the manager lists it.\<close>

definition job_ok :: "bool \<Rightarrow> bool \<Rightarrow> job \<Rightarrow> bool" where
  "job_ok d l j \<longleftrightarrow> jb_finished j = d \<and> (d \<longrightarrow> terminal (jb_status j)) \<and>
     (jb_fiber j = Not_forked \<longrightarrow> d) \<and> (jb_fiber j = Ended \<longrightarrow> d) \<and>
     (jb_fiber j = Resulted \<longrightarrow> terminal (jb_status j)) \<and>
     (terminal (jb_status j) \<and> \<not> d \<longrightarrow> jb_fiber j = Resulted) \<and>
     (jb_fiber j = Forked \<and> terminal (jb_status j) \<longrightarrow> jb_status j = J_cancelled) \<and>
     (jb_status j = J_cancelling \<longrightarrow> jb_aborted j) \<and> (\<not> terminal (jb_status j) \<longrightarrow> l)"

text \<open>The store, with the jobs in \<open>x\<close> exempt: the one an operation is in the middle of.\<close>

definition store_ok :: "string set \<Rightarrow> manager \<Rightarrow> bool" where
  "store_ok x m \<longleftrightarrow> distinct (listed m) \<and> distinct (done_log m) \<and>
     (\<forall>i\<in>set (listed m) \<union> set (done_log m). jm_get (objects m) i \<noteq> None) \<and>
     (\<forall>i j. jm_get (objects m) i = Some j \<longrightarrow> i \<notin> x \<longrightarrow>
        job_ok (i \<in> set (done_log m)) (i \<in> set (listed m)) j)"

definition finished_of :: "manager \<Rightarrow> string \<Rightarrow> bool" where
  "finished_of m i = (case jm_get (objects m) i of None \<Rightarrow> False | Some j \<Rightarrow> jb_finished j)"

definition job_inv :: "nat \<Rightarrow> manager \<Rightarrow> bool" where
  "job_inv n m \<longleftrightarrow> store_ok {} m \<and> length (filter (finished_of m) (listed m)) \<le> n"

lemma job_ok_relist: "job_ok d l j \<Longrightarrow> (\<not> terminal (jb_status j) \<Longrightarrow> l') \<Longrightarrow> job_ok d l' j"
  unfolding job_ok_def by blast

lemma job_ok_finished: "job_ok d l j \<Longrightarrow> jb_finished j \<Longrightarrow> terminal (jb_status j)"
  unfolding job_ok_def by blast

lemma job_ok_facts:
  assumes "job_ok d l j"
  shows "jb_status j = J_cancelling \<Longrightarrow> jb_aborted j"
    and "jb_fiber j = Forked \<Longrightarrow> terminal (jb_status j) \<Longrightarrow> jb_status j = J_cancelled"
    and "jb_fiber j = Resulted \<Longrightarrow> terminal (jb_status j)"
  using assms unfolding job_ok_def by blast+

lemma job_ok_nonterminal: "job_ok d l j \<Longrightarrow> \<not> terminal (jb_status j) \<Longrightarrow> l"
  unfolding job_ok_def by blast

lemma terminal_simps [simp]:
  "\<not> terminal J_queued" "\<not> terminal J_running" "\<not> terminal J_cancelling" "terminal J_completed"
  "terminal J_failed" "terminal J_cancelled" "terminal J_interrupted" "terminal J_rejected"
  by (simp_all add: terminal_def)

lemma prune_terminal_count:
  assumes "distinct xs"
  shows "length (filter p (filter (\<lambda>i. i \<notin> set (take (length (filter p xs) - n) (sort_key f (filter p xs)))) xs)) \<le> n"
    (is "length (filter p (filter ?keep xs)) \<le> n")
proof -
  let ?ts = "sort_key f (filter p xs)"
  have "mset (filter p (filter ?keep xs)) = filter_mset ?keep (mset (filter p xs))"
    by (simp add: filter_filter_mset conj_commute)
  also have "\<dots> = mset (filter ?keep ?ts)"
    by simp
  also have "filter ?keep ?ts = drop (length (filter p xs) - n) ?ts"
    using assms by (intro filter_not_taken) (simp add: distinct_sort)
  finally have "length (filter p (filter ?keep xs)) = length (drop (length (filter p xs) - n) ?ts)"
    using mset_eq_length by blast
  then show ?thesis by simp
qed

lemma prune_sel:
  "objects (pruneTerminalJobs n m) = objects m" "done_log (pruneTerminalJobs n m) = done_log m"
  "shutdownStarted (pruneTerminalJobs n m) = shutdownStarted m"
  "entries (pruneTerminalJobs n m) = entries m" "jledger (pruneTerminalJobs n m) = jledger m"
  by (simp_all add: pruneTerminalJobs_def Let_def)

lemma prune_listed:
  "i \<in> set (listed (pruneTerminalJobs n m)) \<Longrightarrow> i \<in> set (listed m)"
  "i \<in> set (listed m) \<Longrightarrow> \<not> terminal (status_of m i) \<Longrightarrow> i \<in> set (listed (pruneTerminalJobs n m))"
  by (auto simp: pruneTerminalJobs_def Let_def dest: in_set_takeD)

lemma prune_inv:
  assumes "store_ok {} m"
  shows "job_inv n (pruneTerminalJobs n m)"
proof -
  let ?m = "pruneTerminalJobs n m"
  have "job_ok (i \<in> set (done_log ?m)) (i \<in> set (listed ?m)) j" if "jm_get (objects ?m) i = Some j" for i j
  proof -
    have ok: "job_ok (i \<in> set (done_log m)) (i \<in> set (listed m)) j" and st: "status_of m i = jb_status j"
      using assms that by (simp_all add: store_ok_def prune_sel status_of_def)
    have "job_ok (i \<in> set (done_log m)) (i \<in> set (listed ?m)) j"
      by (rule job_ok_relist [OF ok]) (rule prune_listed(2) [OF job_ok_nonterminal [OF ok]], simp_all add: st)
    then show ?thesis
      by (simp only: prune_sel)
  qed
  moreover have "distinct (listed ?m)"
    using assms by (simp add: pruneTerminalJobs_def Let_def store_ok_def)
  ultimately have store: "store_ok {} ?m"
    using assms prune_listed(1) [of _ n m] by (auto simp: store_ok_def prune_sel)
  have "length (filter (finished_of ?m) (listed ?m)) \<le> length (filter (\<lambda>i. terminal (status_of m i)) (listed ?m))"
  proof -
    have "terminal (status_of m i)" if "finished_of ?m i" for i
    proof -
      obtain j where j: "jm_get (objects m) i = Some j" "jb_finished j"
        using \<open>finished_of ?m i\<close> by (auto simp: finished_of_def prune_sel split: option.splits)
      then have "job_ok (i \<in> set (done_log m)) (i \<in> set (listed m)) j"
        using assms by (simp add: store_ok_def)
      then show ?thesis
        using j job_ok_finished by (simp add: status_of_def)
    qed
    then have "filter (finished_of ?m) (listed ?m) =
        filter (finished_of ?m) (filter (\<lambda>i. terminal (status_of m i)) (listed ?m))"
      by (auto intro: filter_cong)
    then show ?thesis
      by (metis length_filter_le)
  qed
  also have "\<dots> \<le> n"
    using prune_terminal_count [of "listed m" "\<lambda>i. terminal (status_of m i)" n "created_of m"] assms
    by (simp add: pruneTerminalJobs_def Let_def store_ok_def length_sort)
  finally show ?thesis
    using store by (simp add: job_inv_def)
qed

lemma record_job_sel [simp]:
  "objects (record_job i m) = objects m" "listed (record_job i m) = listed m"
  "done_log (record_job i m) = done_log m" "shutdownStarted (record_job i m) = shutdownStarted m"
  "jledger (record_job i m) = jledger m"
  by (simp_all add: record_job_def split: option.split)

lemma store_ok_cong:
  "objects m' = objects m \<Longrightarrow> listed m' = listed m \<Longrightarrow> done_log m' = done_log m \<Longrightarrow>
   store_ok x m' = store_ok x m"
  by (simp add: store_ok_def)

lemma finish_inv:
  assumes "store_ok {i} m" and j: "jm_get (objects m) i = Some j" and "i \<notin> set (done_log m)"
    and "job_ok True (i \<in> set (listed m)) j"
  shows "job_inv n (finish n i m)"
proof -
  obtain m' where m': "finish n i m = pruneTerminalJobs n m'" "objects m' = objects m"
    "listed m' = listed m" "done_log m' = done_log m @ [i]"
    using j by (auto simp: finish_def Let_def split: option.splits prod.splits)
  have "job_ok (k \<in> set (done_log m')) (k \<in> set (listed m')) e" if "jm_get (objects m') k = Some e" for k e
    using assms that by (cases "k = i") (auto simp: store_ok_def m')
  then have "store_ok {} m'"
    using assms by (auto simp: store_ok_def m')
  then show ?thesis
    using prune_inv by (simp add: m'(1))
qed

section \<open>Every step preserves it\<close>

lemma put_job_sel [simp]:
  "objects (put_job i j m) = jm_set i j (objects m)" "listed (put_job i j m) = listed m"
  "done_log (put_job i j m) = done_log m" "shutdownStarted (put_job i j m) = shutdownStarted m"
  by (simp_all add: put_job_def)

lemma finish_objects: "objects (finish n i m) = objects m"
  by (auto simp: finish_def Let_def prune_sel split: option.splits prod.splits)

lemma finish_shutdown: "shutdownStarted (finish n i m) = shutdownStarted m"
  by (auto simp: finish_def Let_def prune_sel split: option.splits prod.splits)

lemma job_inv_cong:
  assumes "objects m' = objects m" "listed m' = listed m" "done_log m' = done_log m"
  shows "job_inv n m' = job_inv n m"
proof -
  have "finished_of m' = finished_of m"
    by (rule ext) (simp add: finished_of_def assms)
  then show ?thesis
    using store_ok_cong [of m' m] by (simp add: job_inv_def assms)
qed

lemma job_inv_record [simp]: "job_inv n (record_job i m) = job_inv n m"
  by (rule job_inv_cong) simp_all

lemma job_ok_cong:
  "jb_status j' = jb_status j \<Longrightarrow> jb_fiber j' = jb_fiber j \<Longrightarrow> jb_finished j' = jb_finished j \<Longrightarrow>
   jb_aborted j' = jb_aborted j \<Longrightarrow> job_ok d l j' = job_ok d l j"
  by (simp add: job_ok_def)

lemma job_inv_ok: "job_inv n m \<Longrightarrow> jm_get (objects m) i = Some j \<Longrightarrow>
    job_ok (i \<in> set (done_log m)) (i \<in> set (listed m)) j"
  by (simp add: job_inv_def store_ok_def)

lemma put_inv:
  assumes inv: "job_inv n m" and j: "jm_get (objects m) i = Some j" and fin: "jb_finished j' = jb_finished j"
    and ok: "job_ok (i \<in> set (done_log m)) (i \<in> set (listed m)) j'"
  shows "job_inv n (put_job i j' m)"
proof -
  have "finished_of (put_job i j' m) = finished_of m"
    using j fin by (auto simp: finished_of_def fun_eq_iff jm_get_set)
  then show ?thesis
    using inv ok by (auto simp: job_inv_def store_ok_def jm_get_set)
qed

text \<open>Finishing a job whose new object is stored at the same time.\<close>

lemma finish_put_inv:
  assumes "store_ok {i} m" and "i \<notin> set (done_log m)" and "job_ok True (i \<in> set (listed m)) j"
  shows "job_inv n (finish n i (put_job i j m))"
proof (rule finish_inv)
  show "store_ok {i} (put_job i j m)"
    using assms(1) by (auto simp: store_ok_def jm_get_set)
qed (use assms in \<open>simp_all add: jm_get_set\<close>)

definition cancelled :: "job \<Rightarrow> job" where
  "cancelled j = j\<lparr>jb_status := J_cancelled, jb_finished := True,
     jb_error := Some ''Cancelled before launch.'', jb_aborted := True\<rparr>"

lemma cancel_queued_eq:
  assumes "i \<in> set (listed m)" and "jm_get (objects m) i = Some j" and "jb_status j = J_queued"
  shows "cancel n i m = finish n i (put_job i (cancelled j) m)"
  using assms by (simp add: cancel_def cancelled_def)

lemma job_ok_cancelled: "job_ok True l (cancelled j)"
  by (simp add: job_ok_def cancelled_def)

lemma store_ok_weaken: "store_ok {} m \<Longrightarrow> store_ok x m"
  by (auto simp: store_ok_def)

lemma cancel_inv:
  assumes inv: "job_inv n m"
  shows "job_inv n (cancel n i m)"
proof (cases "jm_get (objects m) i")
  case None
  then show ?thesis
    using inv by (simp add: cancel_def)
next
  case (Some j)
  have ok: "job_ok (i \<in> set (done_log m)) (i \<in> set (listed m)) j"
    by (rule job_inv_ok [OF inv Some])
  show ?thesis
  proof (cases "i \<in> set (listed m)")
    case False
    then show ?thesis
      using inv by (simp add: cancel_def)
  next
    case listed: True
    show ?thesis
    proof (cases "jb_status j = J_queued")
      case True
      have "i \<notin> set (done_log m)"
        using ok True by (auto simp: job_ok_def)
      then show ?thesis
        unfolding cancel_queued_eq [OF listed Some True]
        using inv by (intro finish_put_inv job_ok_cancelled) (simp_all add: job_inv_def store_ok_weaken)
    next
      case not_queued: False
      show ?thesis
      proof (cases "jb_status j = J_running")
        case True
        have "job_inv n (put_job i (j\<lparr>jb_status := J_cancelling, jb_aborted := True\<rparr>) m)"
          using ok True listed by (intro put_inv [OF inv Some]) (auto simp: job_ok_def)
        then show ?thesis
          using listed Some True by (simp add: cancel_def)
      next
        case False
        then have "cancel n i m = m"
          using Some not_queued by (simp add: cancel_def split: job_status.split)
        then show ?thesis
          using inv by simp
      qed
    qed
  qed
qed

lemma start_inv:
  assumes inv: "job_inv n m" and fresh: "jm_get (objects m) i = None"
  shows "job_inv n (start_job n i now aborted m)"
proof -
  let ?j = "new_job (shutdownStarted m) now"
  let ?m = "record_job i ((put_job i ?j m)\<lparr>listed := listed m @ [i]\<rparr>)"
  have new: "i \<notin> set (listed m)" "i \<notin> set (done_log m)"
    using inv fresh by (force simp: job_inv_def store_ok_def)+
  have sel: "objects ?m = jm_set i ?j (objects m)" "listed ?m = listed m @ [i]" "done_log ?m = done_log m"
    "shutdownStarted ?m = shutdownStarted m"
    by simp_all
  have relist: "job_ok (k \<in> set (done_log m)) (k \<in> set (listed m @ [i])) e" if "jm_get (objects m) k = Some e" for k e
    by (rule job_ok_relist [OF job_inv_ok [OF inv that]])
       (use job_ok_nonterminal [OF job_inv_ok [OF inv that]] in simp)
  have store: "store_ok {i} ?m"
    using inv new relist unfolding store_ok_def sel job_inv_def by (auto simp: jm_get_set)
  show ?thesis
  proof (cases "shutdownStarted m")
    case True
    have rej: "job_ok True True ?j"
      using True by (simp add: job_ok_def new_job_def)
    have "job_ok (k \<in> set (done_log m @ [i])) (k \<in> set (listed m @ [i])) e"
      if "jm_get (jm_set i ?j (objects m)) k = Some e" for k e
      using that rej relist [of k e] by (cases "k = i") (simp_all add: jm_get_set)
    then have "store_ok {} (?m\<lparr>done_log := done_log ?m @ [i]\<rparr>)"
      using inv new unfolding store_ok_def job_inv_def by (auto simp: jm_get_set)
    then show ?thesis
      using True prune_inv by (simp add: start_job_def Let_def put_job_def)
  next
    case False
    have get: "jm_get (objects ?m) i = Some ?j" "jb_status ?j = J_queued"
      using False by (simp_all add: jm_get_set new_job_def)
    show ?thesis
    proof (cases aborted)
      case True
      have "i \<in> set (listed ?m)" by simp
      note c = cancel_queued_eq [OF this get, of n]
      have "job_inv n (cancel n i ?m)"
        unfolding c using store new(2) by (intro finish_put_inv job_ok_cancelled) simp_all
      moreover have "jm_get (objects (cancel n i ?m)) i = Some (cancelled ?j)"
        unfolding c by (simp add: finish_objects jm_get_set)
      ultimately show ?thesis
        using False True by (simp add: start_job_def Let_def cancelled_def put_job_def)
    next
      case not_aborted: False
      let ?f = "?j\<lparr>jb_fiber := Forked\<rparr>"
      have forked: "job_ok False True ?f"
        using False by (simp add: job_ok_def new_job_def)
      have "job_ok (k \<in> set (done_log m)) (k \<in> set (listed m @ [i])) e"
        if "jm_get (jm_set i ?f (jm_set i ?j (objects m))) k = Some e" for k e
        using that forked relist [of k e] new(2) by (cases "k = i") (simp_all add: jm_get_set)
      then have s: "store_ok {} (put_job i ?f ?m)"
        using inv new unfolding store_ok_def job_inv_def by (auto simp: jm_get_set)
      have "finished_of (put_job i ?f ?m) k = finished_of m k" if "k \<noteq> i" for k
        using that by (simp add: finished_of_def jm_get_set)
      moreover have "\<not> finished_of (put_job i ?f ?m) i"
        using False by (simp add: finished_of_def jm_get_set new_job_def)
      moreover have "filter (finished_of (put_job i ?f ?m)) (listed m) = filter (finished_of m) (listed m)"
        using calculation(1) new(1) by (intro filter_cong refl) metis
      ultimately have "job_inv n (put_job i ?f ?m)"
        using s inv by (simp add: job_inv_def)
      then show ?thesis
        using False not_aborted get by (simp add: start_job_def Let_def put_job_def jm_get_set)
    qed
  qed
qed

lemma fiber_of_Some: "fiber_of m i = f \<Longrightarrow> f \<noteq> Not_forked \<Longrightarrow> \<exists>j. jm_get (objects m) i = Some j \<and> jb_fiber j = f"
  by (auto simp: fiber_of_def split: option.splits)

lemma onAdmitted_inv:
  assumes inv: "job_inv n m" and "fiber_of m i = Forked"
  shows "job_inv n (onAdmitted i m)"
proof -
  obtain j where j: "jm_get (objects m) i = Some j" "jb_fiber j = Forked"
    using fiber_of_Some [OF assms(2)] by auto
  note ok = job_inv_ok [OF inv j(1)]
  show ?thesis
  proof (cases "jb_status j = J_queued")
    case True
    have "job_inv n (put_job i (j\<lparr>jb_status := J_running\<rparr>) m)"
      using ok True by (intro put_inv [OF inv j(1)]) (auto simp: job_ok_def)
    then show ?thesis
      using j True by (simp add: onAdmitted_def)
  next
    case False
    then show ?thesis
      using inv j by (simp add: onAdmitted_def)
  qed
qed

lemma onUsage_inv:
  assumes inv: "job_inv n m"
  shows "job_inv n (onUsage i d m)"
proof (cases "jm_get (objects m) i")
  case None
  then show ?thesis using inv by (simp add: onUsage_def)
next
  case (Some j)
  then show ?thesis
    using put_inv [OF inv Some, of "j\<lparr>jb_details := Some d\<rparr>"] job_inv_ok [OF inv Some]
      job_ok_cong [of "j\<lparr>jb_details := Some d\<rparr>" j]
    by (simp add: onUsage_def)
qed

lemma result_terminal: "terminal (result_status j r)"
  by (auto simp: result_status_def split: run_outcome.split)

lemma run_result_inv:
  assumes inv: "job_inv n m" and "fiber_of m i = Forked"
  shows "job_inv n (run_result i r m)"
proof -
  obtain j where j: "jm_get (objects m) i = Some j" "jb_fiber j = Forked"
    using fiber_of_Some [OF assms(2)] by auto
  note ok = job_inv_ok [OF inv j(1)]
  show ?thesis
  proof (cases "jb_status j = J_cancelled")
    case True
    then have "job_ok (i \<in> set (done_log m)) (i \<in> set (listed m)) (j\<lparr>jb_fiber := Resulted\<rparr>)"
      using ok j by (auto simp: job_ok_def)
    then show ?thesis
      using put_inv [OF inv j(1), of "j\<lparr>jb_fiber := Resulted\<rparr>"] True j by (simp add: run_result_def)
  next
    case False
    then have open_job: "\<not> terminal (jb_status j)" "i \<notin> set (done_log m)" "\<not> jb_finished j"
      using ok j by (auto simp: job_ok_def)
    have "job_inv n (put_job i j' m)"
      if "jb_status j' = result_status j r" "jb_fiber j' = Resulted" "jb_finished j' = jb_finished j" for j'
      using that ok open_job result_terminal [of j r]
      by (intro put_inv [OF inv j(1)]) (auto simp: job_ok_def)
    then show ?thesis
      using False j by (auto simp: run_result_def split: run_outcome.split)
  qed
qed

lemma release_job_inv:
  assumes inv: "job_inv n m" and "fiber_of m i = Resulted"
  shows "job_inv n (release_job n i m)"
proof -
  obtain j where j: "jm_get (objects m) i = Some j" "jb_fiber j = Resulted"
    using fiber_of_Some [OF assms(2)] by auto
  note ok = job_inv_ok [OF inv j(1)]
  have tm: "terminal (jb_status j)"
    using ok j by (auto simp: job_ok_def)
  show ?thesis
  proof (cases "jb_finished j")
    case True
    then have "job_inv n (put_job i (j\<lparr>jb_fiber := Ended\<rparr>) m)"
      using ok tm by (intro put_inv [OF inv j(1)]) (auto simp: job_ok_def)
    then show ?thesis
      using True tm j by (simp add: release_job_def)
  next
    case False
    let ?j = "j\<lparr>jb_fiber := Ended, jb_finished := True\<rparr>"
    have "i \<notin> set (done_log m)"
      using ok False by (auto simp: job_ok_def)
    moreover have "job_ok True l ?j" for l
      using tm by (auto simp: job_ok_def)
    ultimately have "job_inv n (finish n i (put_job i ?j m))"
      using inv by (intro finish_put_inv) (simp_all add: job_inv_def store_ok_weaken)
    moreover have "jb_status j \<noteq> J_running \<and> jb_status j \<noteq> J_cancelling"
      using tm by auto
    ultimately show ?thesis
      using False tm j by (simp add: release_job_def)
  qed
qed

lemma cancel_all_inv: "job_inv n m \<Longrightarrow> job_inv n (cancel_all n is m)"
  by (induction "is" arbitrary: m) (auto intro: cancel_inv)

lemma job_inv_step: "job_step n m m' \<Longrightarrow> job_inv n m \<Longrightarrow> job_inv n m'"
proof (induction rule: job_step.induct)
  case (Shutdown m)
  then show ?case
    by (simp add: shutdown_jobs_def cancel_all_inv job_inv_cong [of "m\<lparr>shutdownStarted := True\<rparr>" m])
qed (auto intro: start_inv cancel_inv onAdmitted_inv onUsage_inv run_result_inv release_job_inv)

lemma job_inv_new: "job_inv n new_manager"
  by (simp add: job_inv_def store_ok_def new_manager_def jm_get_def)

lemma job_inv_reachable: "job_reachable n m \<Longrightarrow> job_inv n m"
  by (induction rule: job_reachable.induct) (auto intro: job_inv_new job_inv_step)

section \<open>The status machine\<close>

text \<open>The transitions one step may make; from a terminal status there is none.\<close>

definition allowed :: "job_status \<Rightarrow> job_status set" where
  "allowed st =
     (case st of
        J_queued \<Rightarrow> {J_running, J_cancelled, J_completed, J_failed, J_interrupted, J_rejected}
      | J_running \<Rightarrow> {J_cancelling, J_cancelled, J_completed, J_failed, J_interrupted, J_rejected}
      | J_cancelling \<Rightarrow> {J_cancelled}
      | _ \<Rightarrow> {})"

definition moves :: "manager \<Rightarrow> manager \<Rightarrow> bool" where
  "moves m m' \<longleftrightarrow> (\<forall>i j. jm_get (objects m) i = Some j \<longrightarrow>
     (\<exists>j'. jm_get (objects m') i = Some j' \<and>
        (jb_status j' = jb_status j \<or> jb_status j' \<in> allowed (jb_status j))))"

lemma moves_refl: "moves m m"
  by (simp add: moves_def)

lemma moves_objects: "objects m' = objects m'' \<Longrightarrow> moves m m' = moves m m''"
  by (simp add: moves_def)

lemma moves_put:
  assumes "jm_get (objects m) i = Some j" and "jb_status j' = jb_status j \<or> jb_status j' \<in> allowed (jb_status j)"
  shows "moves m (put_job i j' m)"
  using assms by (auto simp: moves_def jm_get_set)

text \<open>Cancelling moves a queued or a running job, and doing it again changes nothing.\<close>

definition cancel_status :: "job_status \<Rightarrow> job_status" where
  "cancel_status st = (case st of J_queued \<Rightarrow> J_cancelled | J_running \<Rightarrow> J_cancelling | st \<Rightarrow> st)"

lemma cancel_status_idem: "cancel_status (cancel_status st) = cancel_status st"
  by (simp add: cancel_status_def split: job_status.split)

lemma cancel_status_allowed: "cancel_status st = st \<or> cancel_status st \<in> allowed st"
  by (simp add: cancel_status_def allowed_def split: job_status.split)

lemma cancel_objects:
  "map_option jb_status (jm_get (objects (cancel n i m)) k) =
   map_option (if k = i \<and> i \<in> set (listed m) then cancel_status else id) (map_option jb_status (jm_get (objects m) k))"
  by (auto simp: cancel_def finish_objects jm_get_set cancel_status_def option.map_id0
      split: option.split job_status.split)

lemma moves_status:
  assumes "\<And>k. \<exists>f. map_option jb_status (jm_get (objects m') k) = map_option f (map_option jb_status (jm_get (objects m) k)) \<and>
    (\<forall>st. f st = st \<or> f st \<in> allowed st)"
  shows "moves m m'"
  unfolding moves_def
proof (intro allI impI)
  fix i j assume j: "jm_get (objects m) i = Some j"
  obtain f where "map_option jb_status (jm_get (objects m') i) = Some (f (jb_status j))"
    and f: "\<forall>st. f st = st \<or> f st \<in> allowed st"
    using assms [of i] j by auto
  then show "\<exists>j'. jm_get (objects m') i = Some j' \<and>
      (jb_status j' = jb_status j \<or> jb_status j' \<in> allowed (jb_status j))"
    by (cases "jm_get (objects m') i") auto
qed

lemma moves_cancel: "moves m (cancel n i m)"
proof (rule moves_status)
  fix k
  let ?f = "if k = i \<and> i \<in> set (listed m) then cancel_status else id"
  have "\<forall>st. ?f st = st \<or> ?f st \<in> allowed st"
    using cancel_status_allowed by simp
  then show "\<exists>f. map_option jb_status (jm_get (objects (cancel n i m)) k) =
      map_option f (map_option jb_status (jm_get (objects m) k)) \<and> (\<forall>st. f st = st \<or> f st \<in> allowed st)"
    using cancel_objects by blast
qed

lemma cancel_all_objects:
  "\<exists>f \<in> {id, cancel_status}. map_option jb_status (jm_get (objects (cancel_all n is m)) k) =
     map_option f (map_option jb_status (jm_get (objects m) k))"
proof (induction "is" arbitrary: m)
  case Nil
  then show ?case
    by (intro bexI [of _ id]) (simp_all add: id_def option.map_ident)
next
  case (Cons i "is")
  define g where "g = (if k = i \<and> i \<in> set (listed m) then cancel_status else id)"
  obtain f where f: "f \<in> {id, cancel_status}" and
    "map_option jb_status (jm_get (objects (cancel_all n is (cancel n i m))) k) =
      map_option f (map_option jb_status (jm_get (objects (cancel n i m)) k))"
    using Cons.IH [of "cancel n i m"] by blast
  then have eq: "map_option jb_status (jm_get (objects (cancel_all n (i # is) m)) k) =
      map_option f (map_option g (map_option jb_status (jm_get (objects m) k)))"
    by (simp only: cancel_all.simps cancel_objects g_def)
  have g: "g \<in> {id, cancel_status}"
    by (simp add: g_def)
  have "f \<circ> g \<in> {id, cancel_status}"
    using f g cancel_status_idem by (auto simp: fun_eq_iff)
  then show ?case
    by (intro bexI [of _ "f \<circ> g"]) (simp_all only: eq option.map_comp o_assoc)
qed

lemma moves_step:
  assumes "job_step n m m'" and inv: "job_inv n m"
  shows "moves m m'"
  using assms(1)
proof cases
  case (Start i now aborted)
  let ?j = "new_job (shutdownStarted m) now"
  have "jm_get (objects m') k = jm_get (objects m) k" if "k \<noteq> i" for k
    using that Start
    by (auto simp: start_job_def Let_def put_job_def prune_sel jm_get_set cancel_def finish_objects
        split: option.splits job_status.splits)
  then show ?thesis
    using Start(2) unfolding moves_def by (metis option.distinct(1))
next
  case (Cancel i)
  then show ?thesis by (simp add: moves_cancel)
next
  case (Admitted i)
  obtain j where j: "jm_get (objects m) i = Some j"
    using fiber_of_Some [OF Admitted(2)] by auto
  show ?thesis
  proof (cases "jb_status j = J_queued")
    case True
    have "moves m (put_job i (j\<lparr>jb_status := J_running\<rparr>) m)"
      using j True by (intro moves_put) (auto simp: allowed_def)
    then show ?thesis
      using j True Admitted moves_objects [OF record_job_sel(1)] by (simp add: onAdmitted_def)
  next
    case False
    then show ?thesis
      using j Admitted by (simp add: onAdmitted_def moves_refl)
  qed
next
  case (Usage i d)
  obtain j where j: "jm_get (objects m) i = Some j"
    using fiber_of_Some [OF Usage(2)] by auto
  then show ?thesis
    using Usage(1) moves_put [OF j] by (simp add: onUsage_def)
next
  case (Result i r)
  obtain j where j: "jm_get (objects m) i = Some j"
    using fiber_of_Some [OF Result(2)] by auto
  have forked: "jb_fiber j = Forked"
    using fiber_of_Some [OF Result(2)] j by auto
  have can: "jb_status j = J_cancelling \<Longrightarrow> jb_aborted j" and
    fin: "terminal (jb_status j) \<Longrightarrow> jb_status j = J_cancelled"
    using job_ok_facts [OF job_inv_ok [OF inv j]] forked by blast+
  have "result_status j r \<in> allowed (jb_status j)" if "jb_status j \<noteq> J_cancelled"
    using that can fin
    by (cases "jb_status j") (auto simp: result_status_def allowed_def split: run_outcome.split)
  then show ?thesis
    using Result(1) j by (auto simp: run_result_def split: run_outcome.split intro!: moves_put [OF j])
next
  case (Release i)
  obtain j where j: "jm_get (objects m) i = Some j" and f: "jb_fiber j = Resulted"
    using fiber_of_Some [OF Release(2)] by auto
  have "terminal (jb_status j)"
    using job_inv_ok [OF inv j] f by (auto simp: job_ok_def)
  then have "jb_status j \<noteq> J_running \<and> jb_status j \<noteq> J_cancelling"
    by auto
  then have "objects m' = objects (put_job i (j\<lparr>jb_fiber := Ended\<rparr>) m) \<or>
      objects m' = objects (put_job i (j\<lparr>jb_fiber := Ended, jb_finished := True\<rparr>) m)"
    using Release(1) j by (cases "jb_finished j") (simp_all add: release_job_def Let_def finish_objects)
  moreover have "moves m (put_job i (j\<lparr>jb_fiber := Ended\<rparr>) m)"
    "moves m (put_job i (j\<lparr>jb_fiber := Ended, jb_finished := True\<rparr>) m)"
    by (simp_all add: moves_put [OF j])
  ultimately show ?thesis
    using moves_objects by blast
next
  case Shutdown
  show ?thesis
  proof (rule moves_status)
    fix k
    show "\<exists>f. map_option jb_status (jm_get (objects m') k) =
        map_option f (map_option jb_status (jm_get (objects m) k)) \<and> (\<forall>st. f st = st \<or> f st \<in> allowed st)"
      using cancel_all_objects [of n "listed m" "m\<lparr>shutdownStarted := True\<rparr>" k] cancel_status_allowed
      by (auto simp: Shutdown shutdown_jobs_def)
  qed
qed

section \<open>Properties\<close>

text \<open>In every reachable state a job's \<open>done\<close> is completed at most once, exactly when the job
  has its finish time, and then its status is final; a job that is not done has a fiber that
  will finish it, so no waiter is stranded, and only finished or final jobs leave the map, of
  which it keeps at most \<open>maxRetainedJobs\<close> finished ones.\<close>

theorem jobs_finish_once:
  assumes "job_reachable n m"
  shows "distinct (done_log m) \<and> length (filter (finished_of m) (listed m)) \<le> n \<and>
    (\<forall>i j. jm_get (objects m) i = Some j \<longrightarrow>
       (i \<in> set (done_log m) \<longleftrightarrow> jb_finished j) \<and> (jb_finished j \<longrightarrow> terminal (jb_status j)) \<and>
       (\<not> jb_finished j \<longrightarrow> jb_fiber j = Forked \<or> jb_fiber j = Resulted) \<and>
       (i \<notin> set (listed m) \<longrightarrow> terminal (jb_status j)))"
proof -
  have inv: "job_inv n m"
    by (rule job_inv_reachable [OF assms])
  have one: "(d \<longleftrightarrow> jb_finished j) \<and> (jb_finished j \<longrightarrow> terminal (jb_status j)) \<and>
       (\<not> jb_finished j \<longrightarrow> jb_fiber j = Forked \<or> jb_fiber j = Resulted) \<and> (\<not> l \<longrightarrow> terminal (jb_status j))"
    if "job_ok d l j" for d l j
    using that unfolding job_ok_def by (metis fiber.exhaust)
  show ?thesis
  proof (intro conjI allI impI)
    show "distinct (done_log m)" "length (filter (finished_of m) (listed m)) \<le> n"
      using inv by (simp_all add: job_inv_def store_ok_def)
  qed (use one [OF job_inv_ok [OF inv]] in blast)+
qed

text \<open>C19: a step changes a job's status only along the status machine: final statuses stay, and a
  job being cancelled can only end as cancelled, whatever its run reports.\<close>

theorem job_status_machine:
  assumes "job_reachable n m" and "job_step n m m'" and "jm_get (objects m) i = Some j"
  shows "\<exists>j'. jm_get (objects m') i = Some j' \<and>
    (jb_status j' = jb_status j \<or> jb_status j' \<in> allowed (jb_status j)) \<and>
    (terminal (jb_status j) \<longrightarrow> jb_status j' = jb_status j) \<and>
    (jb_status j = J_cancelling \<longrightarrow> jb_status j' \<in> {J_cancelling, J_cancelled})"
proof -
  obtain j' where j': "jm_get (objects m') i = Some j'"
    "jb_status j' = jb_status j \<or> jb_status j' \<in> allowed (jb_status j)"
    using moves_step [OF assms(2) job_inv_reachable [OF assms(1)]] assms(3) unfolding moves_def by blast
  moreover have "allowed st = {}" if "terminal st" for st
    using that by (cases st) (auto simp: allowed_def)
  ultimately show ?thesis
    by (auto simp: allowed_def)
qed

definition pending_status :: "manager \<Rightarrow> string \<Rightarrow> bool" where
  "pending_status m i \<longleftrightarrow> (\<exists>j. jm_get (objects m) i = Some j \<and> (jb_status j = J_queued \<or> jb_status j = J_running))"

lemma pending_cancel:
  assumes inv: "job_inv n m"
  shows "pending_status (cancel n i m) k \<Longrightarrow> pending_status m k \<and> k \<noteq> i"
proof -
  assume p: "pending_status (cancel n i m) k"
  let ?f = "if k = i \<and> i \<in> set (listed m) then cancel_status else id"
  obtain e where e: "jm_get (objects (cancel n i m)) k = Some e" "jb_status e = J_queued \<or> jb_status e = J_running"
    using p by (auto simp: pending_status_def)
  have "map_option ?f (map_option jb_status (jm_get (objects m) k)) = Some (jb_status e)"
    using cancel_objects [of n i m k] by (simp only: e(1) option.map)
  then obtain st where st: "map_option jb_status (jm_get (objects m) k) = Some st"
    "?f st = J_queued \<or> ?f st = J_running"
    using e(2) by (cases "map_option jb_status (jm_get (objects m) k)") auto
  then obtain j where j: "jm_get (objects m) k = Some j" "jb_status j = st"
    by auto
  have "\<not> (k = i \<and> i \<in> set (listed m))"
    using st(2) by (cases st) (auto simp: cancel_status_def split: if_splits)
  moreover from this have "st = J_queued \<or> st = J_running"
    using st(2) by auto
  moreover from this have "k \<in> set (listed m)"
    using job_ok_nonterminal [OF job_inv_ok [OF inv j(1)]] j(2) by auto
  ultimately show "pending_status m k \<and> k \<noteq> i"
    using j by (auto simp: pending_status_def)
qed

lemma pending_cancel_all:
  "job_inv n m \<Longrightarrow> pending_status (cancel_all n is m) k \<Longrightarrow> pending_status m k \<and> k \<notin> set is"
proof (induction "is" arbitrary: m)
  case Nil
  then show ?case by simp
next
  case (Cons i "is")
  then show ?case
    using pending_cancel [OF Cons.prems(1), of i k] cancel_inv [OF Cons.prems(1), of i] by auto
qed

lemma cancel_all_shutdown: "shutdownStarted (cancel_all n is m) = shutdownStarted m"
  by (induction "is" arbitrary: m)
     (auto simp: cancel_def finish_shutdown split: option.split job_status.split)

text \<open>Shutdown leaves no job that could still start or go on undisturbed: every job is final
  or cancelling with its abort signal fired, and a job started later is rejected and done at
  once.\<close>

theorem shutdown_stops_jobs:
  assumes "job_reachable n m" and "jm_get (objects (shutdown_jobs n m)) k = None"
  shows "(\<forall>i j. jm_get (objects (shutdown_jobs n m)) i = Some j \<longrightarrow>
      terminal (jb_status j) \<or> (jb_status j = J_cancelling \<and> jb_aborted j)) \<and>
    (let m' = start_job n k now aborted (shutdown_jobs n m) in
      status_of m' k = J_rejected \<and> k \<in> set (done_log m'))"
proof (intro conjI allI impI)
  let ?m = "shutdown_jobs n m"
  have inv: "job_inv n m"
    by (rule job_inv_reachable [OF assms(1)])
  then have inv': "job_inv n (m\<lparr>shutdownStarted := True\<rparr>)"
    by (simp add: job_inv_cong [of "m\<lparr>shutdownStarted := True\<rparr>" m])
  have invs: "job_inv n ?m"
    by (simp add: shutdown_jobs_def cancel_all_inv [OF inv'])
  fix i j assume j: "jm_get (objects ?m) i = Some j"
  have "\<not> pending_status ?m i"
  proof
    assume "pending_status ?m i"
    then have "pending_status m i" "i \<notin> set (listed m)"
      using pending_cancel_all [OF inv', of "listed m" i] by (auto simp: shutdown_jobs_def pending_status_def)
    then obtain e where e: "jm_get (objects m) i = Some e" "jb_status e = J_queued \<or> jb_status e = J_running"
      by (auto simp: pending_status_def)
    have "i \<in> set (listed m)"
      using job_ok_nonterminal [OF job_inv_ok [OF inv e(1)]] e(2) by auto
    then show False
      using \<open>i \<notin> set (listed m)\<close> by simp
  qed
  then have "jb_status j \<noteq> J_queued" "jb_status j \<noteq> J_running"
    using j by (auto simp: pending_status_def)
  then show "terminal (jb_status j) \<or> (jb_status j = J_cancelling \<and> jb_aborted j)"
    using job_inv_ok [OF invs j] by (cases "jb_status j") (auto simp: job_ok_def)
next
  have "shutdownStarted (shutdown_jobs n m)"
    by (simp add: shutdown_jobs_def cancel_all_shutdown)
  then show "let m' = start_job n k now aborted (shutdown_jobs n m) in
      status_of m' k = J_rejected \<and> k \<in> set (done_log m')"
    by (simp add: start_job_def Let_def status_of_def prune_sel jm_get_set new_job_def put_job_def)
qed

section \<open>Bounding a result\<close>

text \<open>
  Texts here are lists of Unicode code points, measured in UTF-8 bytes. \<open>utf8_take\<close> is a
  prefix of the encoding decoded again: a cut inside a character decodes to U+FFFD.
  \<open>truncateHead\<close> belongs to the host and is a parameter.
\<close>

definition utf8_size :: "nat \<Rightarrow> nat" where
  "utf8_size c = (if c < 0x80 then 1 else if c < 0x800 then 2 else if c < 0x10000 then 3 else 4)"

definition utf8_bytes :: "nat list \<Rightarrow> nat" where
  "utf8_bytes t = sum_list (map utf8_size t)"

fun utf8_take :: "nat \<Rightarrow> nat list \<Rightarrow> nat list" where
  "utf8_take n [] = []"
| "utf8_take n (c # cs) =
     (if utf8_size c \<le> n then c # utf8_take (n - utf8_size c) cs
      else if n = 0 then [] else [0xFFFD])"

definition utf8Head :: "nat list \<Rightarrow> nat \<Rightarrow> nat list" where
  "utf8Head t maxBytes =
     (let p = utf8_take maxBytes t in if p \<noteq> [] \<and> last p = 0xFFFD then butlast p else p)"

record truncation =
  tr_content :: "nat list"
  tr_truncated :: bool
  tr_firstLineExceedsLimit :: bool

definition result_suffix :: "nat list" where
  "result_suffix = [10, 10] @ map of_char ''[Output truncated. Read the child session for the complete transcript.]''"

definition boundedText ::
  "(nat list \<Rightarrow> nat \<Rightarrow> truncation) \<Rightarrow> nat \<Rightarrow> nat list \<Rightarrow> nat list \<times> bool" where
  "boundedText truncateHead maxResultBytes t =
     (if utf8_bytes t \<le> maxResultBytes then (t, False)
      else let suffixBytes = utf8_bytes result_suffix in
        if maxResultBytes \<le> suffixBytes then (utf8Head (drop 2 result_suffix) maxResultBytes, True)
        else
          let contentBudget = maxResultBytes - suffixBytes;
              bounded = truncateHead t contentBudget;
              content = (if tr_firstLineExceedsLimit bounded then utf8Head t contentBudget else tr_content bounded) in
          (if tr_truncated bounded then content @ result_suffix else content, tr_truncated bounded))"

text \<open>What the host documents: the content fits, and a text over the limit counts as truncated.\<close>

definition truncates :: "(nat list \<Rightarrow> nat \<Rightarrow> truncation) \<Rightarrow> bool" where
  "truncates truncateHead \<longleftrightarrow> (\<forall>t n. utf8_bytes (tr_content (truncateHead t n)) \<le> n \<and>
     (n < utf8_bytes t \<longrightarrow> tr_truncated (truncateHead t n)))"

lemma utf8_bytes_simps [simp]:
  "utf8_bytes [] = 0" "utf8_bytes (c # cs) = utf8_size c + utf8_bytes cs"
  "utf8_bytes (xs @ ys) = utf8_bytes xs + utf8_bytes ys"
  by (simp_all add: utf8_bytes_def)

lemma utf8_take_cases:
  "\<exists>p. utf8_bytes p \<le> n \<and> (utf8_take n t = p \<or> utf8_take n t = p @ [0xFFFD])"
proof (induction n t rule: utf8_take.induct)
  case (1 n)
  show ?case by (intro exI [of _ "[]"]) simp
next
  case (2 n c cs)
  show ?case
  proof (cases "utf8_size c \<le> n")
    case True
    then obtain p where "utf8_bytes p \<le> n - utf8_size c"
      "utf8_take (n - utf8_size c) cs = p \<or> utf8_take (n - utf8_size c) cs = p @ [0xFFFD]"
      using 2 by blast
    then show ?thesis
      using True by (intro exI [of _ "c # p"]) auto
  next
    case False
    then show ?thesis by (intro exI [of _ "[]"]) auto
  qed
qed

lemma utf8_bytes_butlast: "utf8_bytes (butlast p) \<le> utf8_bytes p"
  by (induction p) auto

lemma utf8Head_bytes: "utf8_bytes (utf8Head t n) \<le> n"
proof -
  obtain p where p: "utf8_bytes p \<le> n" "utf8_take n t = p \<or> utf8_take n t = p @ [0xFFFD]"
    using utf8_take_cases by blast
  from p(2) show ?thesis
  proof
    assume "utf8_take n t = p"
    then show ?thesis
      using p(1) le_trans [OF utf8_bytes_butlast p(1)] by (simp add: utf8Head_def Let_def)
  next
    assume "utf8_take n t = p @ [0xFFFD]"
    then show ?thesis
      using p(1) by (simp add: utf8Head_def Let_def)
  qed
qed

text \<open>C23: a job's stored result never takes more than \<open>maxResultBytes\<close> UTF-8 bytes, is the text
  itself when that fits, and is marked truncated exactly when it did not.\<close>

theorem bounded_text_fits:
  assumes "truncates truncateHead"
  shows "utf8_bytes (fst (boundedText truncateHead maxBytes t)) \<le> maxBytes \<and>
    (utf8_bytes t \<le> maxBytes \<longrightarrow> fst (boundedText truncateHead maxBytes t) = t) \<and>
    (snd (boundedText truncateHead maxBytes t) \<longleftrightarrow> maxBytes < utf8_bytes t)"
proof (cases "utf8_bytes t \<le> maxBytes")
  case True
  then show ?thesis by (simp add: boundedText_def)
next
  case long: False
  show ?thesis
  proof (cases "maxBytes \<le> utf8_bytes result_suffix")
    case True
    then show ?thesis
      using long utf8Head_bytes by (simp add: boundedText_def Let_def)
  next
    case False
    let ?n = "maxBytes - utf8_bytes result_suffix"
    have "tr_truncated (truncateHead t ?n)" "utf8_bytes (tr_content (truncateHead t ?n)) \<le> ?n"
      using assms long by (auto simp: truncates_def)
    then show ?thesis
      using long False utf8Head_bytes [of t ?n] by (auto simp: boundedText_def Let_def)
  qed
qed

section \<open>Witnesses\<close>

definition demo_truncate :: "nat list \<Rightarrow> nat \<Rightarrow> truncation" where
  "demo_truncate t n =
     (if utf8_bytes t \<le> n then \<lparr>tr_content = t, tr_truncated = False, tr_firstLineExceedsLimit = False\<rparr>
      else \<lparr>tr_content = [], tr_truncated = True, tr_firstLineExceedsLimit = True\<rparr>)"

theorem bounded_text_fits_witness:
  "utf8_bytes (fst (boundedText demo_truncate 100 (replicate 200 233))) \<le> 100 \<and>
   snd (boundedText demo_truncate 100 (replicate 200 233))"
proof -
  have "truncates demo_truncate"
    by (simp add: truncates_def demo_truncate_def)
  from bounded_text_fits [OF this, of 100 "replicate 200 233"] show ?thesis
    by (simp add: utf8_bytes_def sum_list_replicate utf8_size_def)
qed

definition demo_job_started :: manager where
  "demo_job_started = start_job 1 ''j'' 0 False new_manager"

lemma demo_job_reachable: "job_reachable 1 demo_job_started"
  unfolding demo_job_started_def
  by (rule job_reachable.Step [OF job_reachable.New job_step.Start]) (simp add: new_manager_def jm_get_def)

theorem jobs_finish_once_witness: "distinct (done_log demo_job_started)"
  using jobs_finish_once [OF demo_job_reachable] by blast

theorem job_status_machine_witness:
  "\<exists>j'. jm_get (objects (cancel 1 ''j'' demo_job_started)) ''j'' = Some j' \<and> jb_status j' = J_cancelled"
proof -
  have j: "jm_get (objects demo_job_started) ''j'' = Some ((new_job False 0)\<lparr>jb_fiber := Forked\<rparr>)"
    by code_simp
  have "map_option jb_status (jm_get (objects (cancel 1 ''j'' demo_job_started)) ''j'') = Some J_cancelled"
    by code_simp
  then show ?thesis
    using job_status_machine [OF demo_job_reachable job_step.Cancel [of 1 demo_job_started "''j''"] j] by auto
qed

theorem shutdown_stops_jobs_witness:
  "status_of (start_job 1 ''k'' 0 False (shutdown_jobs 1 demo_job_started)) ''k'' = J_rejected"
proof -
  have "jm_get (objects (shutdown_jobs 1 demo_job_started)) ''k'' = None"
    by code_simp
  from shutdown_stops_jobs [OF demo_job_reachable this, of 0 False] show ?thesis
    by (simp add: Let_def)
qed

end
