(* ===== verification/Todo.thy ===== *)
theory Todo
  imports Js_Strings
begin

text \<open>
  The session to-do list of \<open>extensions/work-tracker\<close>: \<open>TodoStore\<close> (\<open>store.ts\<close>) and the tool
  that drives it (\<open>todo-tool.ts\<close>), with its errors and result texts. Task texts are strings
  of 8-bit characters; lower-casing is Latin-1's; a clock reading is a number. The widget and
  the session label are outputs only and are not modelled.
\<close>

section \<open>The store\<close>

record todo_item =
  ti_id :: int
  ti_text :: string
  ti_done :: bool
  ti_added :: nat
  ti_completed :: "nat option"

record todo_store =
  items :: "todo_item list"
  nextId :: int

definition new_store :: todo_store where
  "new_store = \<lparr>items = [], nextId = 1\<rparr>"

datatype task_ref = By_id int | By_text string

definition add_todo :: "nat \<Rightarrow> string \<Rightarrow> todo_store \<Rightarrow> todo_item \<times> todo_store" where
  "add_todo now t s =
     (let item = \<lparr>ti_id = nextId s, ti_text = t, ti_done = False, ti_added = now, ti_completed = None\<rparr> in
      (item, s\<lparr>items := items s @ [item], nextId := nextId s + 1\<rparr>))"

definition find_todo :: "task_ref \<Rightarrow> todo_store \<Rightarrow> todo_item option" where
  "find_todo ref s =
     (case ref of
        By_id n \<Rightarrow> List.find (\<lambda>i. ti_id i = n) (items s)
      | By_text t \<Rightarrow> List.find (\<lambda>i. str_includes (toLowerCase (ti_text i)) (toLowerCase t)) (items s))"

text \<open>\<open>complete\<close> mutates the object found, which is the list's entry with its identifier.\<close>

definition complete_todo :: "nat \<Rightarrow> task_ref \<Rightarrow> todo_store \<Rightarrow> todo_item option \<times> todo_store" where
  "complete_todo now ref s =
     (case find_todo ref s of
        None \<Rightarrow> (None, s)
      | Some item \<Rightarrow>
          if ti_done item then (None, s)
          else let item' = item\<lparr>ti_done := True, ti_completed := Some now\<rparr> in
            (Some item', s\<lparr>items := map (\<lambda>i. if ti_id i = ti_id item then item' else i) (items s)\<rparr>))"

definition remove_todo :: "task_ref \<Rightarrow> todo_store \<Rightarrow> bool \<times> todo_store" where
  "remove_todo ref s =
     (case find_todo ref s of
        None \<Rightarrow> (False, s)
      | Some item \<Rightarrow> (True, s\<lparr>items := filter (\<lambda>i. ti_id i \<noteq> ti_id item) (items s)\<rparr>))"

definition clear_todos :: "todo_store \<Rightarrow> todo_store" where
  "clear_todos s = s\<lparr>items := [], nextId := 1\<rparr>"

definition purgeCompleted :: "todo_store \<Rightarrow> nat \<times> todo_store" where
  "purgeCompleted s =
     (let kept = filter (\<lambda>i. \<not> ti_done i) (items s) in
      (length (items s) - length kept, s\<lparr>items := kept\<rparr>))"

definition open_todos :: "todo_store \<Rightarrow> todo_item list" where
  "open_todos s = filter (\<lambda>i. \<not> ti_done i) (items s)"

section \<open>The tool\<close>

fun comma_join :: "string list \<Rightarrow> string" where
  "comma_join [] = ''''"
| "comma_join [x] = x"
| "comma_join (x # xs) = x @ '', '' @ comma_join xs"

text \<open>\<open>parseInt(ref, 10)\<close>: white space, a sign, and the longest run of digits.\<close>

definition parseInt10 :: "string \<Rightarrow> int option" where
  "parseInt10 s =
     (let s = dropWhile is_js_space s;
          (neg, s) = (case s of c # cs \<Rightarrow> if c = CHR ''-'' then (True, cs) else if c = CHR ''+'' then (False, cs)
                                          else (False, s)
                              | [] \<Rightarrow> (False, s));
          ds = takeWhile is_digit s in
      if ds = [] then None else Some (if neg then - digits_value ds else digits_value ds))"

definition parseTaskRef :: "string \<Rightarrow> task_ref" where
  "parseTaskRef ref = (case parseInt10 ref of None \<Rightarrow> By_text ref | Some n \<Rightarrow> By_id n)"

definition formatCount :: "string \<Rightarrow> nat \<Rightarrow> string" where
  "formatCount noun n = show_nat n @ '' '' @ noun @ (if n = 1 then '''' else ''s'')"

definition formatIds :: "int list \<Rightarrow> string" where
  "formatIds ids = comma_join (map show_int ids)"

datatype todo_action = Add | Done | Remove | List_all | Clear

datatype todo_error =
    Text_required todo_action
  | No_matching_open "string list"
  | No_matching "string list"

record todo_result =
  tr_text :: string
  tr_ids :: "int list"
  tr_failed :: nat
  tr_removed :: nat

definition requireText :: "todo_action \<Rightarrow> string list option \<Rightarrow> todo_error + string list" where
  "requireText a t = (case t of None \<Rightarrow> Inl (Text_required a) | Some [] \<Rightarrow> Inl (Text_required a) | Some ts \<Rightarrow> Inr ts)"

fun add_all :: "nat \<Rightarrow> string list \<Rightarrow> todo_store \<Rightarrow> todo_item list \<times> todo_store" where
  "add_all now [] s = ([], s)"
| "add_all now (t # ts) s = (let (i, s) = add_todo now t s; (is, s) = add_all now ts s in (i # is, s))"

fun complete_refs :: "nat \<Rightarrow> string list \<Rightarrow> todo_store \<Rightarrow> (todo_item list \<times> string list) \<times> todo_store" where
  "complete_refs now [] s = (([], []), s)"
| "complete_refs now (r # rs) s =
     (case complete_todo now (parseTaskRef r) s of
        (Some i, s) \<Rightarrow> (let ((is, fs), s) = complete_refs now rs s in ((i # is, fs), s))
      | (None, s) \<Rightarrow> (let ((is, fs), s) = complete_refs now rs s in ((is, r # fs), s)))"

fun remove_refs :: "string list \<Rightarrow> todo_store \<Rightarrow> (string list \<times> string list) \<times> todo_store" where
  "remove_refs [] s = (([], []), s)"
| "remove_refs (r # rs) s =
     (case remove_todo (parseTaskRef r) s of
        (True, s) \<Rightarrow> (let ((is, fs), s) = remove_refs rs s in ((r # is, fs), s))
      | (False, s) \<Rightarrow> (let ((is, fs), s) = remove_refs rs s in ((is, r # fs), s)))"

definition newline_join :: "string list \<Rightarrow> string" where
  "newline_join ps = concat (case ps of [] \<Rightarrow> [] | p # ps \<Rightarrow> p # map (\<lambda>q. CHR 0x0A # q) ps)"

definition addTodos :: "nat \<Rightarrow> string list option \<Rightarrow> todo_store \<Rightarrow> (todo_error + todo_result) \<times> todo_store" where
  "addTodos now t s =
     (case requireText Add t of
        Inl e \<Rightarrow> (Inl e, s)
      | Inr ts \<Rightarrow>
          let (added, s) = add_all now ts s; ids = map ti_id added in
          (Inr \<lparr>tr_text = ''Added '' @ formatCount ''task'' (length added) @ '': id'' @
                  (if length ids = 1 then '''' else ''s'') @ '' '' @ formatIds ids @ ''.'',
                tr_ids = ids, tr_failed = 0, tr_removed = 0\<rparr>, s))"

definition completeTodos :: "nat \<Rightarrow> string list option \<Rightarrow> todo_store \<Rightarrow> (todo_error + todo_result) \<times> todo_store" where
  "completeTodos now t s =
     (case requireText Done t of
        Inl e \<Rightarrow> (Inl e, s)
      | Inr refs \<Rightarrow>
          let ((completed, failed), s) = complete_refs now refs s; ids = map ti_id completed in
          if completed = [] then (Inl (No_matching_open failed), s)
          else (Inr \<lparr>tr_text = newline_join
                  ([''Completed '' @ formatCount ''task'' (length completed) @ '': id'' @
                    (if length ids = 1 then '''' else ''s'') @ '' '' @ formatIds ids @ ''.''] @
                   (if failed \<noteq> [] then [''Not found: '' @ comma_join failed] else [])),
                tr_ids = ids, tr_failed = length failed, tr_removed = 0\<rparr>, s))"

definition removeTodos :: "string list option \<Rightarrow> todo_store \<Rightarrow> (todo_error + todo_result) \<times> todo_store" where
  "removeTodos t s =
     (case requireText Remove t of
        Inl e \<Rightarrow> (Inl e, s)
      | Inr refs \<Rightarrow>
          let ((removed, failed), s) = remove_refs refs s in
          if removed = [] then (Inl (No_matching failed), s)
          else (Inr \<lparr>tr_text = newline_join
                  ([''Removed '' @ formatCount ''task'' (length removed) @ ''.''] @
                   (if failed \<noteq> [] then [''Not found: '' @ comma_join failed] else [])),
                tr_ids = [], tr_failed = length failed, tr_removed = length removed\<rparr>, s))"

definition executeTodo ::
  "nat \<Rightarrow> (todo_store \<Rightarrow> string) \<Rightarrow> todo_action \<Rightarrow> string list option \<Rightarrow> todo_store \<Rightarrow>
   (todo_error + todo_result) \<times> todo_store" where
  "executeTodo now render a t s =
     (case a of
        Add \<Rightarrow> addTodos now t s
      | Done \<Rightarrow> completeTodos now t s
      | Remove \<Rightarrow> removeTodos t s
      | List_all \<Rightarrow> (Inr \<lparr>tr_text = render s, tr_ids = [], tr_failed = 0, tr_removed = 0\<rparr>, s)
      | Clear \<Rightarrow> (Inr \<lparr>tr_text = ''Cleared all tasks.'', tr_ids = [], tr_failed = 0, tr_removed = 0\<rparr>,
                   clear_todos s))"

section \<open>Invariant\<close>

definition todo_ok :: "todo_store \<Rightarrow> bool" where
  "todo_ok s \<longleftrightarrow> sorted_wrt (<) (map ti_id (items s)) \<and> (\<forall>i\<in>set (items s). 1 \<le> ti_id i \<and> ti_id i < nextId s) \<and>
     1 \<le> nextId s"

lemma todo_ok_new: "todo_ok new_store"
  by (simp add: todo_ok_def new_store_def)

lemma sorted_ids_distinct: "sorted_wrt (<) (map ti_id is) \<Longrightarrow> distinct (map ti_id is)"
  by (simp add: strict_sorted_iff)

lemma todo_ok_distinct: "todo_ok s \<Longrightarrow> distinct (map ti_id (items s))"
  by (simp add: todo_ok_def sorted_ids_distinct)

lemma find_todo_in: "find_todo ref s = Some i \<Longrightarrow> i \<in> set (items s)"
  by (auto simp: find_todo_def dest: find_Some_iff_first split: task_ref.splits)

lemma add_todo_ok: "todo_ok s \<Longrightarrow> todo_ok (snd (add_todo now t s))"
  by (force simp: todo_ok_def add_todo_def Let_def sorted_wrt_append)

lemma sorted_ids_filter: "sorted_wrt (<) (map ti_id is) \<Longrightarrow> sorted_wrt (<) (map ti_id (filter p is))"
  by (induction "is") auto

lemma todo_ok_filter: "todo_ok s \<Longrightarrow> todo_ok (s\<lparr>items := filter p (items s)\<rparr>)"
  by (simp add: todo_ok_def sorted_ids_filter)

lemma todo_ok_map:
  assumes "todo_ok s" and "\<And>i. i \<in> set (items s) \<Longrightarrow> ti_id (f i) = ti_id i"
  shows "todo_ok (s\<lparr>items := map f (items s)\<rparr>)"
proof -
  have "map ti_id (map f (items s)) = map ti_id (items s)"
    using assms(2) by simp
  then have "sorted_wrt (<) (map ti_id (map f (items s)))"
    using assms(1) by (simp only: todo_ok_def)
  then show ?thesis
    using assms by (auto simp: todo_ok_def)
qed

text \<open>What completing a set of identifiers makes of the list.\<close>

definition mark_done :: "nat \<Rightarrow> int set \<Rightarrow> todo_item \<Rightarrow> todo_item" where
  "mark_done now ids i = (if ti_id i \<in> ids then i\<lparr>ti_done := True, ti_completed := Some now\<rparr> else i)"

lemma mark_done_id [simp]: "ti_id (mark_done now ids i) = ti_id i"
  by (simp add: mark_done_def)

lemma mark_done_empty [simp]: "map (mark_done now {}) xs = xs"
  by (rule map_idI) (simp add: mark_done_def)

lemma complete_todo_cases:
  assumes ok: "todo_ok s"
  shows "complete_todo now ref s = (None, s) \<or>
    (\<exists>i\<in>set (items s). \<not> ti_done i \<and> find_todo ref s = Some i \<and>
       complete_todo now ref s = (Some (i\<lparr>ti_done := True, ti_completed := Some now\<rparr>),
         s\<lparr>items := map (mark_done now {ti_id i}) (items s)\<rparr>))"
proof (cases "find_todo ref s")
  case None
  then show ?thesis by (simp add: complete_todo_def)
next
  case (Some i)
  have i: "i \<in> set (items s)"
    by (rule find_todo_in [OF Some])
  have "j = i" if "j \<in> set (items s)" "ti_id j = ti_id i" for j
    using todo_ok_distinct [OF ok] i that by (auto simp: distinct_map dest: inj_onD)
  then have "map (\<lambda>j. if ti_id j = ti_id i then i\<lparr>ti_done := True, ti_completed := Some now\<rparr> else j) (items s) =
      map (mark_done now {ti_id i}) (items s)"
    by (auto simp: mark_done_def)
  then show ?thesis
    using Some i by (auto simp: complete_todo_def Let_def)
qed

lemma complete_refs_spec:
  assumes "todo_ok s" and "complete_refs now refs s = ((completed, failed), s')"
  shows "todo_ok s' \<and> s' = s\<lparr>items := map (mark_done now (set (map ti_id completed))) (items s)\<rparr> \<and>
    distinct (map ti_id completed) \<and> length completed + length failed = length refs \<and>
    (\<forall>k\<in>set (map ti_id completed). \<exists>i\<in>set (items s). ti_id i = k \<and> \<not> ti_done i)"
  using assms
proof (induction refs arbitrary: s completed failed s')
  case Nil
  then show ?case by (simp add: mark_done_def)
next
  case (Cons r rs)
  consider (no) "complete_todo now (parseTaskRef r) s = (None, s)"
    | (yes) i where "i \<in> set (items s)" "\<not> ti_done i"
      "complete_todo now (parseTaskRef r) s = (Some (i\<lparr>ti_done := True, ti_completed := Some now\<rparr>),
         s\<lparr>items := map (mark_done now {ti_id i}) (items s)\<rparr>)"
    using complete_todo_cases [OF Cons.prems(1), of now "parseTaskRef r"] by blast
  then show ?case
  proof cases
    case no
    then obtain fs where "complete_refs now rs s = ((completed, fs), s')" "failed = r # fs"
      using Cons.prems(2) by (auto split: prod.splits)
    then show ?thesis
      using Cons.IH [OF Cons.prems(1)] by auto
  next
    case yes
    let ?s = "s\<lparr>items := map (mark_done now {ti_id i}) (items s)\<rparr>"
    obtain cs where cs: "complete_refs now rs ?s = ((cs, failed), s')"
      "completed = i\<lparr>ti_done := True, ti_completed := Some now\<rparr> # cs"
      using Cons.prems(2) yes(3) by (auto split: prod.splits)
    have "todo_ok ?s"
      by (rule todo_ok_map [OF Cons.prems(1)]) simp
    note ih = Cons.IH [OF this cs(1)]
    have fresh: "ti_id i \<notin> set (map ti_id cs)"
    proof
      assume "ti_id i \<in> set (map ti_id cs)"
      then obtain j where "j \<in> set (items s)" "ti_id (mark_done now {ti_id i} j) = ti_id i"
        "\<not> ti_done (mark_done now {ti_id i} j)"
        using ih by auto
      then show False by (simp add: mark_done_def split: if_splits)
    qed
    have "map (mark_done now (set (map ti_id cs))) (map (mark_done now {ti_id i}) (items s)) =
        map (mark_done now (set (map ti_id completed))) (items s)"
      using fresh by (auto simp: cs(2) mark_done_def)
    moreover have "\<exists>j\<in>set (items s). ti_id j = k \<and> \<not> ti_done j" if "k \<in> set (map ti_id cs)" for k
    proof -
      have "\<exists>j\<in>set (items ?s). ti_id j = k \<and> \<not> ti_done j"
        using ih \<open>k \<in> set (map ti_id cs)\<close> by blast
      then obtain j where "j \<in> set (items s)" "ti_id j = k" "\<not> ti_done (mark_done now {ti_id i} j)"
        by auto
      then show ?thesis
        by (auto simp: mark_done_def split: if_splits)
    qed
    ultimately show ?thesis
      using ih fresh yes(1,2) cs(2) by auto
  qed
qed

lemma remove_refs_spec:
  assumes "remove_refs refs s = ((removed, failed), s')"
  shows "\<exists>ids. s' = s\<lparr>items := filter (\<lambda>i. ti_id i \<notin> ids) (items s)\<rparr> \<and> ids \<subseteq> ti_id ` set (items s) \<and>
    card ids = length removed \<and> finite ids \<and> length removed + length failed = length refs"
  using assms
proof (induction refs arbitrary: s removed failed s')
  case Nil
  then show ?case by (intro exI [of _ "{}"]) simp
next
  case (Cons r rs)
  show ?case
  proof (cases "find_todo (parseTaskRef r) s")
    case None
    then obtain fs where "remove_refs rs s = ((removed, fs), s')" "failed = r # fs"
      using Cons.prems by (auto simp: remove_todo_def split: prod.splits)
    then show ?thesis
      using Cons.IH [of s removed fs s'] by auto
  next
    case (Some i)
    let ?s = "s\<lparr>items := filter (\<lambda>j. ti_id j \<noteq> ti_id i) (items s)\<rparr>"
    obtain rem where rem: "remove_refs rs ?s = ((rem, failed), s')" "removed = r # rem"
      using Cons.prems Some by (auto simp: remove_todo_def split: prod.splits)
    obtain ids where ids: "s' = ?s\<lparr>items := filter (\<lambda>i. ti_id i \<notin> ids) (items ?s)\<rparr>"
      "ids \<subseteq> ti_id ` set (items ?s)" "card ids = length rem" "finite ids" "length rem + length failed = length rs"
      using Cons.IH [OF rem(1)] by auto
    have "ti_id i \<notin> ids"
      using ids(2) by auto
    moreover have "ti_id i \<in> ti_id ` set (items s)"
      using find_todo_in [OF Some] by simp
    ultimately show ?thesis
      using ids rem(2) by (intro exI [of _ "insert (ti_id i) ids"]) (auto simp: conj_commute)
  qed
qed

lemma add_all_spec:
  assumes "add_all now ts s = (added, s')"
  shows "s' = s\<lparr>items := items s @ added, nextId := nextId s + int (length ts)\<rparr> \<and> map ti_text added = ts \<and>
    map ti_id added = map (\<lambda>k. nextId s + int k) [0..<length ts] \<and> (\<forall>i\<in>set added. \<not> ti_done i)"
  using assms
proof (induction ts arbitrary: s added s')
  case Nil
  then show ?case by simp
next
  case (Cons t ts)
  obtain rest where rest: "add_all now ts (snd (add_todo now t s)) = (rest, s')"
    "added = fst (add_todo now t s) # rest"
    using Cons.prems by (cases "add_all now ts (snd (add_todo now t s))") (auto simp: case_prod_beta)
  have "map (\<lambda>k. nextId s + int k) [0..<length (t # ts)] = nextId s # map (\<lambda>k. nextId s + 1 + int k) [0..<length ts]"
    by (simp add: upt_conv_Cons map_Suc_upt [symmetric] o_def algebra_simps del: upt_Suc)
  then show ?case
    using Cons.IH [OF rest(1)] rest(2) by (auto simp: add_todo_def Let_def)
qed

lemma add_all_ok: "todo_ok s \<Longrightarrow> todo_ok (snd (add_all now ts s))"
  by (induction ts arbitrary: s) (auto simp: case_prod_beta add_todo_ok)

lemma executeTodo_ok:
  assumes "todo_ok s"
  shows "todo_ok (snd (executeTodo now render a t s))"
proof (cases a)
  case Add
  then show ?thesis
    using assms add_all_ok [OF assms]
    by (auto simp: executeTodo_def addTodos_def Let_def case_prod_beta split: sum.split)
next
  case Done
  then show ?thesis
    using assms complete_refs_spec [OF assms]
    by (auto simp: executeTodo_def completeTodos_def Let_def split: sum.split prod.split)
next
  case Remove
  have "todo_ok s'" if "remove_refs refs s = ((r, f), s')" for refs r f s'
    using remove_refs_spec [OF that] todo_ok_filter [OF assms] by auto
  then show ?thesis
    using assms Remove
    by (auto simp: executeTodo_def removeTodos_def Let_def split: sum.split prod.split)
next
  case List_all
  then show ?thesis using assms by (simp add: executeTodo_def)
next
  case Clear
  then show ?thesis by (simp add: executeTodo_def clear_todos_def todo_ok_def)
qed

section \<open>Properties\<close>

text \<open>A session's calls: the tool, and the purge before an agent starts.\<close>

datatype todo_call = Tool nat todo_action "string list option" | Purge

fun run_todo :: "(todo_store \<Rightarrow> string) \<Rightarrow> todo_call list \<Rightarrow> todo_store \<Rightarrow> todo_store" where
  "run_todo render [] s = s"
| "run_todo render (Tool now a t # cs) s = run_todo render cs (snd (executeTodo now render a t s))"
| "run_todo render (Purge # cs) s = run_todo render cs (snd (purgeCompleted s))"

text \<open>Whatever calls a session makes, the task list stays ordered by identifier, identifiers are
  unique, positive and below the next one, so that a reference by number names one task.\<close>

theorem todo_ids_unique:
  "let s = run_todo render calls new_store in
   sorted_wrt (<) (map ti_id (items s)) \<and> distinct (map ti_id (items s)) \<and>
   list_all (\<lambda>i. 1 \<le> ti_id i \<and> ti_id i < nextId s) (items s)"
proof -
  have "todo_ok (run_todo render calls s)" if "todo_ok s" for s
    using that
  proof (induction render calls s rule: run_todo.induct)
    case (3 render cs s)
    then show ?case by (simp add: purgeCompleted_def Let_def todo_ok_filter)
  qed (simp_all add: executeTodo_ok)
  from this [OF todo_ok_new] show ?thesis
    using todo_ok_distinct [of "run_todo render calls new_store"] by (simp add: todo_ok_def list_all_iff Let_def)
qed

text \<open>\<open>done\<close> either fails and leaves the list as it was, or reports exactly the tasks it
  completed: each was open, none is reported twice, precisely they become done, and with the
  failed references they account for every reference given.\<close>

theorem done_completes_reported:
  assumes "todo_ok s" and "completeTodos now (Some refs) s = (res, s')"
  shows "case res of
      Inl e \<Rightarrow> s' = s
    | Inr r \<Rightarrow> items s' = map (\<lambda>i. if ti_id i \<in> set (tr_ids r)
                                   then i\<lparr>ti_done := True, ti_completed := Some now\<rparr> else i) (items s) \<and>
        distinct (tr_ids r) \<and> tr_ids r \<noteq> [] \<and> length (tr_ids r) + tr_failed r = length refs \<and>
        (\<forall>k\<in>set (tr_ids r). \<exists>i\<in>set (items s). ti_id i = k \<and> \<not> ti_done i)"
proof (cases "refs = []")
  case True
  then show ?thesis
    using assms(2) by (auto simp: completeTodos_def requireText_def)
next
  case False
  then have req: "requireText Done (Some refs) = Inr refs"
    by (auto simp: requireText_def split: list.splits)
  obtain completed failed s1 where c: "complete_refs now refs s = ((completed, failed), s1)"
    by (metis surj_pair)
  note spec = complete_refs_spec [OF assms(1) c]
  show ?thesis
  proof (cases "completed = []")
    case True
    then have "s1 = s"
      using spec by (simp add: mark_done_def)
    then show ?thesis
      using assms(2) req c True by (auto simp: completeTodos_def)
  next
    case False
    then show ?thesis
      using assms(2) req c spec by (auto simp: completeTodos_def Let_def mark_done_def)
  qed
qed

text \<open>\<open>add\<close> appends the given texts in order as open tasks under the next identifiers, which it
  reports, and changes no other task.\<close>

theorem add_appends_reported:
  assumes "addTodos now (Some ts) s = (Inr r, s')"
  shows "\<exists>added. items s' = items s @ added \<and> map ti_text added = ts \<and> map ti_id added = tr_ids r \<and>
    tr_ids r = map (\<lambda>k. nextId s + int k) [0..<length ts] \<and> (\<forall>i\<in>set added. \<not> ti_done i)"
proof -
  have req: "requireText Add (Some ts) = Inr ts"
    using assms by (auto simp: addTodos_def requireText_def split: list.splits)
  obtain added s1 where a: "add_all now ts s = (added, s1)"
    by fastforce
  show ?thesis
    using assms req a add_all_spec [OF a] by (auto simp: addTodos_def Let_def)
qed

section \<open>Witnesses\<close>

definition demo_store :: todo_store where
  "demo_store = snd (add_all 0 [''write'', ''test''] new_store)"

lemma demo_store_ok: "todo_ok demo_store"
  unfolding demo_store_def by (rule add_all_ok [OF todo_ok_new])

theorem done_completes_reported_witness:
  "map ti_done (items (snd (completeTodos 5 (Some [''2'', ''7'']) demo_store))) = [False, True]"
proof -
  obtain res s' where r: "completeTodos 5 (Some [''2'', ''7'']) demo_store = (res, s')"
    by fastforce
  have res: "map_sum (\<lambda>_. ()) tr_ids (fst (completeTodos 5 (Some [''2'', ''7'']) demo_store)) = Inr [2]"
    by code_simp
  have its: "map ti_id (items demo_store) = [1, 2]" "map ti_done (items demo_store) = [False, False]"
    by code_simp+
  then obtain a b where ab: "items demo_store = [a, b]" "ti_id a = 1" "ti_id b = 2" "\<not> ti_done a"
    by auto
  obtain x where "res = Inr x" "tr_ids x = [2]"
    using res r by (cases res) auto
  then show ?thesis
    using done_completes_reported [OF demo_store_ok r] r ab by simp
qed

theorem add_appends_reported_witness:
  "\<exists>added. items (snd (addTodos 3 (Some [''ship'']) demo_store)) = items demo_store @ added \<and> map ti_text added = [''ship'']"
proof -
  obtain res s' where r: "addTodos 3 (Some [''ship'']) demo_store = (res, s')"
    by fastforce
  obtain x where "res = Inr x"
    using r by (auto simp: addTodos_def requireText_def Let_def split: prod.splits)
  then show ?thesis
    using add_appends_reported [of 3 "[''ship'']" demo_store x s'] r by auto
qed

end
