(* ===== verification/Journal.thy ===== *)
theory Journal
  imports Prelude
begin

text \<open>
  The analyzer's diagnostic journal, \<open>src/analyze/journal.ts\<close>: an append-only file that is
  rotated by size, with rotated files bounded in number, age and total bytes, and that turns
  itself off at the first failure. A directory is a list of files with their bytes and
  modification times; any call to the file system may fail (a set of failing steps), and a
  failing call changes nothing. Events arrive encoded, since their JSON form is not modelled.
\<close>

section \<open>State\<close>

record jfile =
  jf_name :: string
  jf_data :: string
  jf_mtime :: nat

record disk =
  dk_files :: "jfile list"
  dk_now :: nat
  dk_uuid :: "nat \<Rightarrow> string"
  dk_uses :: nat
  dk_step :: nat
  dk_fails :: "nat \<Rightarrow> bool"

record journal_options =
  jn_maxLineBytes :: "nat option"
  jn_maxFileBytes :: "nat option"
  jn_maxTotalBytes :: "nat option"
  jn_maxFiles :: "nat option"
  jn_maxAgeMs :: "nat option"
  jn_flushEveryEvents :: "nat option"

record normalized =
  maxLineBytes :: nat
  maxFileBytes :: nat
  maxTotalBytes :: nat
  maxFiles :: nat
  maxAgeMs :: nat
  flushEveryEvents :: nat

definition or_default :: "nat option \<Rightarrow> nat \<Rightarrow> nat" where
  "or_default x d = (case x of None \<Rightarrow> d | Some n \<Rightarrow> n)"

definition normalizeOptions :: "journal_options \<Rightarrow> normalized" where
  "normalizeOptions opts =
     (let line = max 256 (or_default (jn_maxLineBytes opts) (8 * 1024));
          file = max line (or_default (jn_maxFileBytes opts) (256 * 1024));
          all = max file (or_default (jn_maxTotalBytes opts) (1024 * 1024)) in
      \<lparr>maxLineBytes = line, maxFileBytes = file, maxTotalBytes = all,
       maxFiles = max 1 (or_default (jn_maxFiles opts) 8),
       maxAgeMs = or_default (jn_maxAgeMs opts) (7 * 24 * 60 * 60 * 1000),
       flushEveryEvents = max 1 (or_default (jn_flushEveryEvents opts) 8)\<rparr>)"

record journal =
  jo_options :: normalized
  jo_open :: bool
  jo_currentBytes :: nat
  jo_eventsSinceFlush :: nat
  jo_disabled :: bool
  jo_reported :: bool
  jo_errors :: nat

section \<open>Calls that may throw\<close>

type_synonym jstate = "journal \<times> disk"

type_synonym 'a act = "jstate \<Rightarrow> 'a option \<times> jstate"

definition ret :: "'a \<Rightarrow> 'a act" where
  "ret a s = (Some a, s)"

definition seq :: "'a act \<Rightarrow> ('a \<Rightarrow> 'b act) \<Rightarrow> 'b act" where
  "seq m f s = (case m s of (None, s) \<Rightarrow> (None, s) | (Some a, s) \<Rightarrow> f a s)"

definition set_journal :: "(journal \<Rightarrow> journal) \<Rightarrow> unit act" where
  "set_journal f s = (Some (), f (fst s), snd s)"

definition io :: "(disk \<Rightarrow> 'a \<times> disk) \<Rightarrow> 'a act" where
  "io f s = (let d = (snd s)\<lparr>dk_step := Suc (dk_step (snd s))\<rparr> in
     if dk_fails d (dk_step (snd s)) then (None, fst s, d)
     else (Some (fst (f d)), fst s, snd (f d)))"

definition CURRENT :: string where
  "CURRENT = ''current.ndjson''"

definition isJournalFile :: "string \<Rightarrow> bool" where
  "isJournalFile name = (name = CURRENT \<or>
     (take 8 name = ''journal-'' \<and> take 7 (rev name) = rev ''.ndjson''))"

text \<open>Oldest first; names break ties.\<close>

definition listJournalFiles :: "jfile list act" where
  "listJournalFiles = io (\<lambda>d. (sort_key (\<lambda>f. (jf_mtime f, jf_name f))
     (filter (\<lambda>f. isJournalFile (jf_name f)) (dk_files d)), d))"

definition rm_file :: "string \<Rightarrow> unit act" where
  "rm_file name = io (\<lambda>d. ((), d\<lparr>dk_files := filter (\<lambda>f. jf_name f \<noteq> name) (dk_files d)\<rparr>))"

definition data_of :: "disk \<Rightarrow> string \<Rightarrow> string option" where
  "data_of d name = map_option jf_data (List.find (\<lambda>f. jf_name f = name) (dk_files d))"

text \<open>\<open>open(currentPath, "a")\<close>, then \<open>stat\<close>, \<open>write\<close>, \<open>rename\<close>, \<open>sync\<close> and \<open>close\<close>.\<close>

definition open_append :: "unit act" where
  "open_append = io (\<lambda>d. ((), if data_of d CURRENT = None
     then d\<lparr>dk_files := dk_files d @ [\<lparr>jf_name = CURRENT, jf_data = '''', jf_mtime = dk_now d\<rparr>]\<rparr> else d))"

definition current_size :: "nat option act" where
  "current_size = io (\<lambda>d. (map_option length (data_of d CURRENT), d))"

definition write_line :: "string \<Rightarrow> unit act" where
  "write_line line = io (\<lambda>d. ((), d\<lparr>dk_files := map (\<lambda>f. if jf_name f = CURRENT
     then f\<lparr>jf_data := jf_data f @ line, jf_mtime := dk_now d\<rparr> else f) (dk_files d)\<rparr>))"

definition rename_current :: "string \<Rightarrow> unit act" where
  "rename_current name = io (\<lambda>d. ((), d\<lparr>dk_files := map (\<lambda>f. if jf_name f = CURRENT then f\<lparr>jf_name := name\<rparr> else f)
     (filter (\<lambda>f. jf_name f \<noteq> name) (dk_files d))\<rparr>))"

definition io_unit :: "unit act" where
  "io_unit = io (\<lambda>d. ((), d))"

definition clock :: "nat act" where
  "clock s = (Some (dk_now (snd s)), s)"

definition rotated_name :: "string act" where
  "rotated_name s = (let d = snd s in
     (Some (''journal-'' @ show_nat (dk_now d) @ ''-'' @ take 8 (dk_uuid d (dk_uses d)) @ ''.ndjson''),
      fst s, d\<lparr>dk_uses := Suc (dk_uses d)\<rparr>))"

section \<open>Operations\<close>

definition total_size :: "jfile list \<Rightarrow> nat" where
  "total_size fs = sum_list (map (length \<circ> jf_data) fs)"

fun rm_each :: "jfile list \<Rightarrow> unit act" where
  "rm_each [] = ret ()"
| "rm_each (f # fs) = seq (rm_file (jf_name f)) (\<lambda>_. rm_each fs)"

text \<open>The loop that deletes oldest files until \<open>incoming\<close> more bytes fit; returns the total left.\<close>

fun shed :: "nat \<Rightarrow> nat \<Rightarrow> nat \<Rightarrow> jfile list \<Rightarrow> nat act" where
  "shed limit incoming bytes [] = ret bytes"
| "shed limit incoming bytes (f # fs) =
     (if bytes + incoming \<le> limit then ret bytes
      else if jf_name f = CURRENT then shed limit incoming bytes fs
      else seq (rm_file (jf_name f)) (\<lambda>_. shed limit incoming (bytes - length (jf_data f)) fs))"

definition prune :: "normalized \<Rightarrow> nat \<Rightarrow> unit act" where
  "prune n now =
     seq listJournalFiles (\<lambda>files.
     seq (rm_each (filter (\<lambda>f. jf_name f \<noteq> CURRENT \<and> now - jf_mtime f > maxAgeMs n) files)) (\<lambda>_.
     seq listJournalFiles (\<lambda>files.
     let rotated = filter (\<lambda>f. jf_name f \<noteq> CURRENT) files in
     seq (rm_each (take (length rotated - (maxFiles n - 1)) rotated)) (\<lambda>_.
     seq listJournalFiles (\<lambda>files.
     seq (shed (maxTotalBytes n) 0 (total_size files) files) (\<lambda>_. ret ()))))))"

definition rotate_body :: "unit act" where
  "rotate_body =
     seq current_size (\<lambda>sz.
       case sz of
         None \<Rightarrow> ret ()
       | Some k \<Rightarrow> if k > 0 then seq rotated_name rename_current else ret ())"

definition close_handle :: "unit act" where
  "close_handle s =
     (if jo_open (fst s)
      then seq io_unit (\<lambda>_. seq io_unit (\<lambda>_. set_journal (\<lambda>j. j\<lparr>jo_open := False\<rparr>))) s
      else (Some (), s))"

definition rotate_journal :: "unit act" where
  "rotate_journal s =
     (seq close_handle (\<lambda>_.
      seq rotate_body (\<lambda>_.
      seq clock (\<lambda>now.
      seq (prune (jo_options (fst s)) now) (\<lambda>_.
      seq open_append (\<lambda>_.
      set_journal (\<lambda>j. j\<lparr>jo_open := True, jo_currentBytes := 0, jo_eventsSinceFlush := 0\<rparr>)))))) s)"

definition capacity_pass :: "nat \<Rightarrow> nat act" where
  "capacity_pass incoming s =
     seq listJournalFiles (\<lambda>files. shed (maxTotalBytes (jo_options (fst s))) incoming (total_size files) files) s"

lemma seq_Some: "seq m f s = (Some b, s') \<longleftrightarrow> (\<exists>a t. m s = (Some a, t) \<and> f a t = (Some b, s'))"
  by (auto simp: seq_def split: prod.splits option.splits)

lemma seq_None: "seq m f s = (None, s') \<longleftrightarrow>
    m s = (None, s') \<or> (\<exists>a t. m s = (Some a, t) \<and> f a t = (None, s'))"
  by (auto simp: seq_def split: prod.splits option.splits)

lemma io_Some: "io f s = (Some a, s') \<longleftrightarrow>
    \<not> dk_fails (snd s) (dk_step (snd s)) \<and> fst s' = fst s \<and>
    (a, snd s') = f ((snd s)\<lparr>dk_step := Suc (dk_step (snd s))\<rparr>)"
  by (cases s') (auto simp: io_def Let_def prod_eq_iff)

lemma rotate_journal_zero: "rotate_journal s = (Some x, s') \<Longrightarrow> jo_currentBytes (fst s') = 0"
  by (auto simp: rotate_journal_def seq_Some set_journal_def)

lemma io_journal: "fst (snd (io f s)) = fst s"
  by (simp add: io_def Let_def)

lemma shed_journal: "fst (snd (shed limit inc t fs s)) = fst s"
proof (induction fs arbitrary: t s)
  case Nil
  then show ?case by (simp add: ret_def)
next
  case (Cons f fs)
  have "fst (snd (rm_file (jf_name f) s)) = fst s"
    by (simp add: rm_file_def io_journal)
  then show ?case
    using Cons by (auto simp: ret_def seq_def split: prod.splits option.splits)
qed

lemma capacity_pass_journal: "fst (snd (capacity_pass inc s)) = fst s"
proof -
  have "fst (snd (listJournalFiles s)) = fst s"
    by (simp add: listJournalFiles_def io_journal)
  then show ?thesis
    using shed_journal by (auto simp: capacity_pass_def seq_def split: prod.splits option.splits)
qed

text \<open>The recursion of \<open>#makeTotalCapacity\<close>: a second round only after a rotation.\<close>

function makeTotalCapacity :: "nat \<Rightarrow> unit act" where
  "makeTotalCapacity incoming s =
     (case capacity_pass incoming s of
        (None, s) \<Rightarrow> (None, s)
      | (Some bytes, s) \<Rightarrow>
          if bytes + incoming > maxTotalBytes (jo_options (fst s)) \<and> jo_currentBytes (fst s) > 0
          then (case rotate_journal s of
                  (None, s) \<Rightarrow> (None, s)
                | (Some _, s) \<Rightarrow> makeTotalCapacity incoming s)
          else (Some (), s))"
  by pat_completeness auto

termination
proof (relation "measure (\<lambda>(inc, s). jo_currentBytes (fst s))")
  fix incoming s x t bytes y u v
  assume "(x, t) = capacity_pass incoming s" "x = Some bytes"
    "maxTotalBytes (jo_options (fst t)) < bytes + incoming \<and> 0 < jo_currentBytes (fst t)"
    "(y, u) = rotate_journal t" "y = Some v"
  then show "((incoming, u), incoming, s) \<in> measure (\<lambda>(inc, s). jo_currentBytes (fst s))"
    using rotate_journal_zero [of t v u] capacity_pass_journal [of incoming s]
    by (metis (no_types, lifting) case_prod_conv in_measure snd_conv)
qed simp

declare makeTotalCapacity.simps [simp del]

text \<open>
  \<open>encodeEvent\<close> on an encoded event and its encoded fallback, then \<open>#append\<close>. The event's
  flag \<open>last\<close> is its \<open>terminal\<close> field.
\<close>

definition encodeEvent :: "nat \<Rightarrow> string \<Rightarrow> string \<Rightarrow> string" where
  "encodeEvent maxLine encoded fallback =
     (if length encoded \<le> maxLine then encoded
      else if length fallback \<le> maxLine then fallback else '''')"

definition flush_event :: "bool \<Rightarrow> unit act" where
  "flush_event last_event s =
     (if last_event \<or> jo_eventsSinceFlush (fst s) \<ge> flushEveryEvents (jo_options (fst s))
      then seq io_unit (\<lambda>_. set_journal (\<lambda>j. j\<lparr>jo_eventsSinceFlush := 0\<rparr>)) s
      else (Some (), s))"

definition append_body :: "string \<Rightarrow> string \<Rightarrow> bool \<Rightarrow> unit act" where
  "append_body encoded fallback last_event s =
     (if jo_disabled (fst s) \<or> \<not> jo_open (fst s) then (Some (), s)
      else let line = encodeEvent (maxLineBytes (jo_options (fst s))) encoded fallback in
        if line = '''' then (Some (), s)
        else
          seq (\<lambda>s. if jo_currentBytes (fst s) + length line > maxFileBytes (jo_options (fst s))
                   then rotate_journal s else (Some (), s)) (\<lambda>_.
          seq (makeTotalCapacity (length line)) (\<lambda>_ s.
            if jo_disabled (fst s) \<or> \<not> jo_open (fst s) then (Some (), s)
            else
              seq (write_line line) (\<lambda>_.
              seq (set_journal (\<lambda>j. j\<lparr>jo_currentBytes := jo_currentBytes j + length line,
                                       jo_eventsSinceFlush := jo_eventsSinceFlush j + 1\<rparr>)) (\<lambda>_.
              flush_event last_event)) s)) s)"

text \<open>\<open>#disable\<close> closes the handle, swallowing a failure, and reports once.\<close>

definition disable_journal :: "jstate \<Rightarrow> jstate" where
  "disable_journal s =
     (if jo_disabled (fst s) \<and> jo_reported (fst s) then s
      else
        let was_open = jo_open (fst s);
            s = ((fst s)\<lparr>jo_disabled := True, jo_open := False\<rparr>, snd s);
            s = (if was_open then snd (io_unit s) else s) in
        if jo_reported (fst s) then s
        else ((fst s)\<lparr>jo_reported := True, jo_errors := jo_errors (fst s) + 1\<rparr>, snd s))"

definition caught :: "unit act \<Rightarrow> jstate \<Rightarrow> jstate" where
  "caught m s = (case m s of (None, s) \<Rightarrow> disable_journal s | (Some _, s) \<Rightarrow> s)"

definition append_event :: "string \<Rightarrow> string \<Rightarrow> bool \<Rightarrow> jstate \<Rightarrow> jstate" where
  "append_event encoded fallback last_event = caught (append_body encoded fallback last_event)"

definition initialize_body :: "unit act" where
  "initialize_body s =
     (seq io_unit (\<lambda>_.
      seq clock (\<lambda>now.
      seq (prune (jo_options (fst s)) now) (\<lambda>_.
      seq open_append (\<lambda>_.
      seq (set_journal (\<lambda>j. j\<lparr>jo_open := True\<rparr>)) (\<lambda>_.
      seq current_size (\<lambda>sz.
      seq (set_journal (\<lambda>j. j\<lparr>jo_currentBytes := (case sz of None \<Rightarrow> 0 | Some k \<Rightarrow> k)\<rparr>)) (\<lambda>_ s.
        if jo_currentBytes (fst s) \<ge> maxFileBytes (jo_options (fst s)) then rotate_journal s
        else (Some (), s)))))))) s)"

definition new_journal :: "journal_options \<Rightarrow> journal" where
  "new_journal opts = \<lparr>jo_options = normalizeOptions opts, jo_open = False, jo_currentBytes = 0,
     jo_eventsSinceFlush = 0, jo_disabled = False, jo_reported = False, jo_errors = 0\<rparr>"

definition open_journal :: "journal_options \<Rightarrow> disk \<Rightarrow> jstate" where
  "open_journal opts d = caught initialize_body (new_journal opts, d)"

definition close_journal :: "jstate \<Rightarrow> jstate" where
  "close_journal s =
     (if jo_open (fst s)
      then caught (seq io_unit (\<lambda>_. io_unit)) ((fst s)\<lparr>jo_open := False\<rparr>, snd s)
      else s)"

section \<open>What the calls do when they succeed\<close>

definition journal_files :: "disk \<Rightarrow> jfile list" where
  "journal_files d = filter (\<lambda>f. isJournalFile (jf_name f)) (dk_files d)"

definition rotated_files :: "disk \<Rightarrow> jfile list" where
  "rotated_files d = filter (\<lambda>f. jf_name f \<noteq> CURRENT) (journal_files d)"

definition unique_names :: "disk \<Rightarrow> bool" where
  "unique_names d = distinct (map jf_name (dk_files d))"

definition by_age :: "jfile list \<Rightarrow> jfile list" where
  "by_age fs = sort_key (\<lambda>f. (jf_mtime f, jf_name f)) fs"

lemma by_age_simps [simp]: "set (by_age fs) = set fs" "length (by_age fs) = length fs"
  "mset (by_age fs) = mset fs"
  by (simp_all add: by_age_def)

lemma list_Some:
  "listJournalFiles s = (Some fs, s') \<Longrightarrow>
   fs = by_age (journal_files (snd s)) \<and> fst s' = fst s \<and> dk_files (snd s') = dk_files (snd s)"
  by (auto simp: listJournalFiles_def io_Some by_age_def journal_files_def)

lemma rm_file_Some:
  "rm_file name s = (Some u, s') \<Longrightarrow>
   fst s' = fst s \<and> dk_files (snd s') = filter (\<lambda>f. jf_name f \<noteq> name) (dk_files (snd s))"
  by (auto simp: rm_file_def io_Some)

lemma rm_each_Some:
  "rm_each fs s = (Some u, s') \<Longrightarrow>
   fst s' = fst s \<and> dk_files (snd s') = filter (\<lambda>f. jf_name f \<notin> jf_name ` set fs) (dk_files (snd s))"
proof (induction fs arbitrary: s)
  case Nil
  then show ?case by (simp add: ret_def)
next
  case (Cons f fs)
  then obtain t where "rm_file (jf_name f) s = (Some (), t)" "rm_each fs t = (Some u, s')"
    by (auto simp: seq_Some)
  then show ?case
    using rm_file_Some [of "jf_name f" s "()" t] Cons.IH [of t] by (auto intro: filter_cong)
qed

lemma total_size_filter: "total_size (filter p fs) \<le> total_size fs"
  by (induction fs) (auto simp: total_size_def)

lemma total_size_by_age: "total_size (by_age fs) = total_size fs"
  by (metis by_age_simps(3) mset_map sum_mset_sum_list total_size_def)

lemma total_size_remove:
  "distinct (map jf_name fs) \<Longrightarrow> f \<in> set fs \<Longrightarrow>
   total_size (filter (\<lambda>g. jf_name g \<noteq> jf_name f) fs) = total_size fs - length (jf_data f)"
proof (induction fs)
  case Nil
  then show ?case by simp
next
  case (Cons g fs)
  show ?case
  proof (cases "g = f")
    case True
    then have "filter (\<lambda>h. jf_name h \<noteq> jf_name f) fs = fs"
      using Cons.prems(1) by (metis (mono_tags, lifting) distinct.simps(2) filter_True image_eqI list.simps(9) set_map)
    then show ?thesis
      using True by (simp add: total_size_def)
  next
    case False
    then have f: "f \<in> set fs"
      using Cons.prems by simp
    then have "jf_name g \<noteq> jf_name f"
      using Cons.prems(1) by (metis distinct.simps(2) image_eqI list.simps(9) set_map)
    moreover have "length (jf_data f) \<le> total_size fs"
      using f by (induction fs) (auto simp: total_size_def)
    ultimately show ?thesis
      using Cons.IH f Cons.prems(1) by (simp add: total_size_def)
  qed
qed

lemma journal_files_filter:
  "dk_files d' = filter p (dk_files d) \<Longrightarrow> journal_files d' = filter p (journal_files d)"
  by (simp add: journal_files_def conj_commute)

lemma unique_names_filter: "dk_files d' = filter p (dk_files d) \<Longrightarrow> unique_names d \<Longrightarrow> unique_names d'"
  by (simp add: unique_names_def distinct_map_filter)

text \<open>Deletions by name that spare the current file and everything that is not a journal file.\<close>

definition spares :: "(jfile \<Rightarrow> bool) \<Rightarrow> bool" where
  "spares p \<longleftrightarrow> (\<forall>f. \<not> isJournalFile (jf_name f) \<or> jf_name f = CURRENT \<longrightarrow> p f)"

definition pruned :: "disk \<Rightarrow> disk \<Rightarrow> bool" where
  "pruned d d' \<longleftrightarrow> (\<exists>p. spares p \<and> dk_files d' = filter p (dk_files d))"

lemma pruned_refl: "dk_files d' = dk_files d \<Longrightarrow> pruned d d'"
  unfolding pruned_def by (intro exI [of _ "\<lambda>_. True"]) (simp add: spares_def)

lemma pruned_trans: "pruned d d' \<Longrightarrow> pruned d' d'' \<Longrightarrow> pruned d d''"
  unfolding pruned_def
proof (elim exE conjE)
  fix p q assume "spares p" "dk_files d' = filter p (dk_files d)" "spares q" "dk_files d'' = filter q (dk_files d')"
  then show "\<exists>p. spares p \<and> dk_files d'' = filter p (dk_files d)"
    by (intro exI [of _ "\<lambda>f. p f \<and> q f"]) (simp add: spares_def conj_commute)
qed

lemma pruned_names:
  assumes "pruned d d'"
  shows "unique_names d \<Longrightarrow> unique_names d'"
    and "total_size (journal_files d') \<le> total_size (journal_files d)"
    and "length (rotated_files d') \<le> length (rotated_files d)"
    and "set (rotated_files d') \<subseteq> set (rotated_files d)"
    and "data_of d' CURRENT = data_of d CURRENT"
proof -
  obtain p where p: "spares p" "dk_files d' = filter p (dk_files d)"
    using assms by (auto simp: pruned_def)
  show "unique_names d \<Longrightarrow> unique_names d'"
    using unique_names_filter [OF p(2)] .
  show "total_size (journal_files d') \<le> total_size (journal_files d)"
    unfolding journal_files_filter [OF p(2)] by (rule total_size_filter)
  have r: "rotated_files d' = filter p (rotated_files d)"
    by (simp add: rotated_files_def journal_files_filter [OF p(2)] conj_commute)
  then show "length (rotated_files d') \<le> length (rotated_files d)" "set (rotated_files d') \<subseteq> set (rotated_files d)"
    by (simp, auto)
  have "List.find (\<lambda>f. jf_name f = CURRENT) (filter p fs) = List.find (\<lambda>f. jf_name f = CURRENT) fs" for fs
    using p(1) by (induction fs) (auto simp: spares_def)
  then show "data_of d' CURRENT = data_of d CURRENT"
    by (simp add: data_of_def p(2))
qed

lemma pruned_rm:
  assumes "dk_files d' = filter (\<lambda>f. jf_name f \<notin> ns) (dk_files d)" and "CURRENT \<notin> ns"
    and "\<And>n. n \<in> ns \<Longrightarrow> isJournalFile n"
  shows "pruned d d'"
  unfolding pruned_def using assms by (intro exI [of _ "\<lambda>f. jf_name f \<notin> ns"]) (auto simp: spares_def)

lemma shed_Some:
  assumes "shed limit incoming bytes fs s = (Some r, s')" and "unique_names (snd s)"
    and "bytes = total_size (journal_files (snd s))" and "set fs \<subseteq> set (journal_files (snd s))"
    and "distinct (map jf_name fs)"
  shows "fst s' = fst s \<and> pruned (snd s) (snd s') \<and> r = total_size (journal_files (snd s')) \<and>
    (r + incoming \<le> limit \<or> set fs \<inter> set (rotated_files (snd s')) = {})"
  using assms
proof (induction fs arbitrary: s bytes)
  case Nil
  then show ?case by (auto simp: ret_def intro: pruned_refl)
next
  case (Cons f fs)
  show ?case
  proof (cases "bytes + incoming \<le> limit")
    case True
    then show ?thesis
      using Cons.prems by (auto simp: ret_def intro: pruned_refl)
  next
    case big: False
    show ?thesis
    proof (cases "jf_name f = CURRENT")
      case True
      then have "f \<notin> set (rotated_files d)" for d
        by (simp add: rotated_files_def)
      then show ?thesis
        using Cons.IH [of bytes s] Cons.prems big True by auto
    next
      case False
      then obtain t where t: "rm_file (jf_name f) s = (Some (), t)"
        "shed limit incoming (bytes - length (jf_data f)) fs t = (Some r, s')"
        using Cons.prems(1) big by (auto simp: seq_Some)
      note rm = rm_file_Some [OF t(1)]
      have f: "f \<in> set (journal_files (snd s))"
        using Cons.prems(4) by simp
      have fd: "distinct (map jf_name (journal_files (snd s)))"
        using Cons.prems(2) by (simp add: journal_files_def unique_names_def distinct_map_filter)
      have jf: "journal_files (snd t) = filter (\<lambda>g. jf_name g \<noteq> jf_name f) (journal_files (snd s))"
        by (rule journal_files_filter) (simp add: rm)
      have p: "pruned (snd s) (snd t)"
        by (rule pruned_rm [of _ "{jf_name f}"]) (use rm False f in \<open>auto simp: journal_files_def\<close>)
      have sub: "set fs \<subseteq> set (journal_files (snd t))"
        using Cons.prems(4,5) by (auto simp: jf) (metis image_eqI)
      have "bytes - length (jf_data f) = total_size (journal_files (snd t))"
        by (simp add: jf total_size_remove [OF fd f] Cons.prems(3))
      then have ih: "fst s' = fst t \<and> pruned (snd t) (snd s') \<and> r = total_size (journal_files (snd s')) \<and>
          (r + incoming \<le> limit \<or> set fs \<inter> set (rotated_files (snd s')) = {})"
        by (intro Cons.IH [OF t(2)]) (use sub Cons.prems(2,5) pruned_names(1) [OF p] in simp_all)
      moreover have "f \<notin> set (rotated_files (snd s'))"
        using pruned_names(4) [of "snd t" "snd s'"] ih by (auto simp: rotated_files_def jf)
      ultimately show ?thesis
        using rm pruned_trans [OF p] by auto
    qed
  qed
qed

section \<open>The bounds\<close>

text \<open>Options as \<open>normalizeOptions\<close> makes them.\<close>

definition normal :: "normalized \<Rightarrow> bool" where
  "normal n \<longleftrightarrow> maxLineBytes n \<le> maxFileBytes n \<and> maxFileBytes n \<le> maxTotalBytes n \<and> 1 \<le> maxFiles n \<and>
     1 \<le> flushEveryEvents n"

lemma normalizeOptions_normal: "normal (normalizeOptions opts)"
  by (simp add: normal_def normalizeOptions_def Let_def)

text \<open>The directory's bounds, with at most \<open>m\<close> bytes in the current file.\<close>

definition bounded :: "normalized \<Rightarrow> disk \<Rightarrow> bool" where
  "bounded n d \<longleftrightarrow> unique_names d \<and> length (rotated_files d) \<le> maxFiles n - 1 \<and>
     total_size (journal_files d) \<le> maxTotalBytes n"

definition current_bytes :: "disk \<Rightarrow> nat" where
  "current_bytes d = (case data_of d CURRENT of None \<Rightarrow> 0 | Some t \<Rightarrow> length t)"

lemma total_size_split:
  assumes "unique_names d"
  shows "total_size (journal_files d) = current_bytes d + total_size (rotated_files d)"
proof -
  have "total_size fs = (case List.find (\<lambda>f. jf_name f = CURRENT) fs of None \<Rightarrow> 0 | Some f \<Rightarrow> length (jf_data f)) +
      total_size (filter (\<lambda>f. jf_name f \<noteq> CURRENT) fs)" if "distinct (map jf_name fs)" for fs
    using that
  proof (induction fs)
    case Nil
    then show ?case by (simp add: total_size_def)
  next
    case (Cons f fs)
    show ?case
    proof (cases "jf_name f = CURRENT")
      case True
      then have "filter (\<lambda>f. jf_name f \<noteq> CURRENT) fs = fs"
        using Cons.prems by (auto simp: filter_id_conv image_iff)
      then show ?thesis
        using True by (simp add: total_size_def)
    next
      case False
      then show ?thesis
        using Cons by (simp add: total_size_def)
    qed
  qed
  moreover have "distinct (map jf_name (journal_files d))"
    using assms by (simp add: journal_files_def unique_names_def distinct_map_filter)
  moreover have "List.find (\<lambda>f. jf_name f = CURRENT) (filter (\<lambda>f. isJournalFile (jf_name f)) fs) =
      List.find (\<lambda>f. jf_name f = CURRENT) fs" for fs
    by (induction fs) (auto simp: isJournalFile_def)
  ultimately have "total_size (journal_files d) =
      (case List.find (\<lambda>f. jf_name f = CURRENT) (dk_files d) of None \<Rightarrow> 0 | Some f \<Rightarrow> length (jf_data f)) +
      total_size (rotated_files d)"
    unfolding rotated_files_def by (metis journal_files_def)
  then show ?thesis
    by (simp add: current_bytes_def data_of_def split: option.split)
qed

lemma prune_Some:
  assumes "prune n now s = (Some u, s')" and names: "unique_names (snd s)"
  shows "fst s' = fst s \<and> pruned (snd s) (snd s') \<and>
    (bounded n (snd s') \<or> unique_names (snd s') \<and> rotated_files (snd s') = [])"
proof -
  obtain f1 s1 s2 f2 s3 s4 where
    1: "listJournalFiles s = (Some f1, s1)" and
    2: "rm_each (filter (\<lambda>f. jf_name f \<noteq> CURRENT \<and> now - jf_mtime f > maxAgeMs n) f1) s1 = (Some (), s2)" and
    3: "listJournalFiles s2 = (Some f2, s3)" and
    4: "rm_each (take (length (filter (\<lambda>f. jf_name f \<noteq> CURRENT) f2) - (maxFiles n - 1))
          (filter (\<lambda>f. jf_name f \<noteq> CURRENT) f2)) s3 = (Some (), s4)" and
    rest: "seq listJournalFiles (\<lambda>files. seq (shed (maxTotalBytes n) 0 (total_size files) files) (\<lambda>_. ret ())) s4 =
      (Some u, s')"
    using assms(1) by (auto simp: prune_def seq_Some Let_def)
  obtain f3 s5 r where 5: "listJournalFiles s4 = (Some f3, s5)" and
    6: "shed (maxTotalBytes n) 0 (total_size f3) f3 s5 = (Some r, s')"
    using rest by (auto simp: seq_Some ret_def)
  have l1: "f1 = by_age (journal_files (snd s))" "fst s1 = fst s" "dk_files (snd s1) = dk_files (snd s)"
    using list_Some [OF 1] by auto
  have p2: "fst s2 = fst s1 \<and> pruned (snd s1) (snd s2)"
    using rm_each_Some [OF 2] by (auto intro!: pruned_rm simp: l1 journal_files_def)
  have l2: "f2 = by_age (journal_files (snd s2))" "fst s3 = fst s2" "dk_files (snd s3) = dk_files (snd s2)"
    using list_Some [OF 3] by auto
  let ?rot = "filter (\<lambda>f. jf_name f \<noteq> CURRENT) f2"
  let ?gone = "take (length ?rot - (maxFiles n - 1)) ?rot"
  note r4 = rm_each_Some [OF 4]
  have p4: "pruned (snd s3) (snd s4)"
    by (rule pruned_rm) (use r4 in \<open>auto simp: l2 journal_files_def dest: in_set_takeD\<close>)
  have l3: "f3 = by_age (journal_files (snd s4))" "fst s5 = fst s4" "dk_files (snd s5) = dk_files (snd s4)"
    using list_Some [OF 5] by auto
  have p01: "pruned (snd s) (snd s3)"
    using pruned_trans [OF pruned_refl [OF l1(3)]] p2 pruned_trans pruned_refl [OF l2(3)] by blast
  then have p04: "pruned (snd s) (snd s4)"
    using p4 pruned_trans by blast
  have n3: "unique_names (snd s3)" and n4: "unique_names (snd s4)"
    using pruned_names(1) [OF p01 names] pruned_names(1) [OF p04 names] .
  have jf5: "journal_files (snd s5) = journal_files (snd s4)"
    by (simp add: journal_files_def l3)
  have shed: "fst s' = fst s5 \<and> pruned (snd s5) (snd s') \<and> r = total_size (journal_files (snd s')) \<and>
    (r + 0 \<le> maxTotalBytes n \<or> set f3 \<inter> set (rotated_files (snd s')) = {})"
  proof (rule shed_Some [OF 6])
    show "unique_names (snd s5)"
      using n4 by (simp add: unique_names_def l3)
    show "total_size f3 = total_size (journal_files (snd s5))"
      by (simp add: l3(1) jf5 total_size_by_age)
    show "set f3 \<subseteq> set (journal_files (snd s5))"
      by (simp add: l3(1) jf5)
    show "distinct (map jf_name f3)"
      using n4 by (simp add: l3(1) by_age_def distinct_map_sort_key unique_names_def journal_files_def
          distinct_map_filter)
  qed
  have p4': "pruned (snd s4) (snd s')"
    using pruned_trans [OF pruned_refl [OF l3(3)]] shed by blast
  have p: "pruned (snd s) (snd s')"
    by (rule pruned_trans [OF p04 p4'])
  have rot4: "length (rotated_files (snd s4)) \<le> maxFiles n - 1"
  proof -
    have d: "distinct (map jf_name ?rot)"
      using n3 by (simp add: l2 by_age_def distinct_map_filter distinct_map_sort_key journal_files_def unique_names_def)
    have "mset (rotated_files (snd s4)) = mset (filter (\<lambda>f. jf_name f \<notin> jf_name ` set ?gone) ?rot)"
      using r4 l2 by (simp add: rotated_files_def journal_files_def filter_filter_mset ac_simps conj_ac)
    then have "length (rotated_files (snd s4)) = length (filter (\<lambda>f. jf_name f \<notin> jf_name ` set ?gone) ?rot)"
      by (rule mset_eq_length)
    also have "\<dots> = length (filter (\<lambda>x. x \<notin> set (take (length ?rot - (maxFiles n - 1)) (map jf_name ?rot))) (map jf_name ?rot))"
      by (simp only: filter_map length_map o_def take_map set_map)
    also have "\<dots> = length (drop (length ?rot - (maxFiles n - 1)) (map jf_name ?rot))"
      by (simp only: filter_not_taken [OF d])
    finally show ?thesis by simp
  qed
  have n': "unique_names (snd s')"
    by (rule pruned_names(1) [OF p names])
  have "total_size (journal_files (snd s')) \<le> maxTotalBytes n \<or> rotated_files (snd s') = []"
  proof (cases "r + 0 \<le> maxTotalBytes n")
    case True
    then show ?thesis using shed by simp
  next
    case False
    have "set (rotated_files (snd s')) \<subseteq> set f3"
      using pruned_names(4) [OF p4'] by (auto simp: l3(1) rotated_files_def)
    moreover have "set f3 \<inter> set (rotated_files (snd s')) = {}"
      using shed False by auto
    ultimately show ?thesis
      by (simp add: Int_absorb1)
  qed
  moreover have "length (rotated_files (snd s')) \<le> maxFiles n - 1"
    using pruned_names(3) [OF p4'] rot4 by linarith
  ultimately have "bounded n (snd s') \<or> unique_names (snd s') \<and> rotated_files (snd s') = []"
    using n' unfolding bounded_def by blast
  moreover have "fst s' = fst s"
    using shed p2 r4 l1(2) l2(2) l3(2) by simp
  ultimately show ?thesis
    using p by blast
qed

lemma pruned_bounded:
  assumes "bounded n d \<or> unique_names d \<and> rotated_files d = []" and "current_bytes d \<le> maxTotalBytes n"
  shows "bounded n d"
  using assms total_size_split [of d] by (auto simp: bounded_def total_size_def)

lemma rotated_name_form:
  "rotated_name s = (Some name, s') \<Longrightarrow> name \<noteq> CURRENT \<and> fst s' = fst s \<and> dk_files (snd s') = dk_files (snd s)"
  by (auto simp: rotated_name_def Let_def CURRENT_def)

lemma data_of_none: "data_of d n = None \<longleftrightarrow> n \<notin> jf_name ` set (dk_files d)"
  by (auto simp: data_of_def find_None_iff)

lemma rename_current_Some:
  assumes "rename_current name s = (Some u, s')" and "name \<noteq> CURRENT" and "unique_names (snd s)"
  shows "fst s' = fst s \<and> unique_names (snd s') \<and> data_of (snd s') CURRENT = None"
proof -
  let ?f = "\<lambda>f. if jf_name f = CURRENT then f\<lparr>jf_name := name\<rparr> else f"
  let ?fs = "filter (\<lambda>f. jf_name f \<noteq> name) (dk_files (snd s))"
  have d: "fst s' = fst s" "dk_files (snd s') = map ?f ?fs"
    using assms(1) by (auto simp: rename_current_def io_Some)
  have "distinct (map jf_name ?fs)"
    using assms(3) by (simp add: unique_names_def distinct_map_filter)
  then have "distinct (map jf_name (map ?f ?fs))"
    by (auto simp: distinct_map inj_on_def split: if_splits)
  moreover have "data_of (snd s') CURRENT = None"
    unfolding data_of_none d(2) using assms(2) by auto
  ultimately show ?thesis
    by (simp only: unique_names_def d) 
qed

lemma files_cong:
  assumes "dk_files d' = dk_files d"
  shows "unique_names d' = unique_names d" "data_of d' n = data_of d n" "current_bytes d' = current_bytes d"
    "journal_files d' = journal_files d" "rotated_files d' = rotated_files d"
  by (simp_all add: assms unique_names_def data_of_def current_bytes_def journal_files_def rotated_files_def)

lemma open_append_Some:
  assumes "open_append s = (Some u, s')" and "unique_names (snd s)"
  shows "fst s' = fst s \<and> unique_names (snd s') \<and> current_bytes (snd s') = current_bytes (snd s) \<and>
    data_of (snd s') CURRENT \<noteq> None \<and> rotated_files (snd s') = rotated_files (snd s)"
proof (cases "data_of (snd s) CURRENT")
  case None
  then have d: "fst s' = fst s" "dk_files (snd s') = dk_files (snd s) @ [\<lparr>jf_name = CURRENT, jf_data = '''', jf_mtime = dk_now (snd s)\<rparr>]"
    using assms(1) by (auto simp: open_append_def io_Some data_of_def)
  have new: "CURRENT \<notin> jf_name ` set (dk_files (snd s))"
    using iffD1 [OF data_of_none None] .
  have "List.find (\<lambda>f. jf_name f = CURRENT) (fs @ [g]) = Some g" if "CURRENT \<notin> jf_name ` set fs" "jf_name g = CURRENT" for fs g
    using that by (induction fs) auto
  from this [OF new] have "data_of (snd s') CURRENT = Some ''''"
    by (simp add: data_of_def d)
  then show ?thesis
    using None new assms(2) d
    by (simp add: unique_names_def current_bytes_def rotated_files_def journal_files_def)
next
  case (Some t)
  then have d: "fst s' = fst s" "dk_files (snd s') = dk_files (snd s)"
    using assms(1) by (auto simp: open_append_def io_Some data_of_def)
  then show ?thesis
    using Some assms(2) by (simp add: files_cong [OF d(2)])
qed

lemma close_handle_Some:
  "close_handle s = (Some u, s') \<Longrightarrow> dk_files (snd s') = dk_files (snd s) \<and> jo_options (fst s') = jo_options (fst s) \<and>
     jo_disabled (fst s') = jo_disabled (fst s)"
  by (auto simp: close_handle_def seq_Some io_unit_def io_Some set_journal_def split: if_splits)



lemma rotate_body_Some:
  assumes "rotate_body s = (Some u, s')" and "unique_names (snd s)"
  shows "fst s' = fst s \<and> unique_names (snd s') \<and> current_bytes (snd s') = 0"
proof -
  obtain sz t where t: "current_size s = (Some sz, t)" and
    rest: "(case sz of None \<Rightarrow> ret () | Some k \<Rightarrow> if k > 0 then seq rotated_name rename_current else ret ()) t = (Some u, s')"
    using assms(1) by (auto simp: rotate_body_def seq_Some)
  have sz: "sz = map_option length (data_of (snd s) CURRENT)" "fst t = fst s" "dk_files (snd t) = dk_files (snd s)"
    using t by (auto simp: current_size_def io_Some data_of_def)
  show ?thesis
  proof (cases "case sz of None \<Rightarrow> False | Some k \<Rightarrow> k > 0")
    case True
    then obtain name v where n: "rotated_name t = (Some name, v)" "rename_current name v = (Some u, s')"
      using rest by (auto simp: seq_Some split: option.splits)
    have "unique_names (snd v)"
      using rotated_name_form [OF n(1)] sz assms(2) by (simp add: unique_names_def)
    then show ?thesis
      using rename_current_Some [OF n(2)] rotated_name_form [OF n(1)] sz(2) by (simp add: current_bytes_def)
  next
    case False
    then have "s' = t"
      using rest by (auto simp: ret_def split: option.splits if_splits)
    moreover have "current_bytes (snd s) = 0"
      using False sz(1) by (auto simp: current_bytes_def split: option.splits)
    ultimately show ?thesis
      using assms(2) sz by (simp add: files_cong [OF sz(3)])
  qed
qed

lemma total_size_open:
  "unique_names d' \<Longrightarrow> unique_names d \<Longrightarrow> current_bytes d' = current_bytes d \<Longrightarrow>
   rotated_files d' = rotated_files d \<Longrightarrow> total_size (journal_files d') = total_size (journal_files d)"
  by (simp add: total_size_split)

lemma rotate_journal_Some:
  assumes "rotate_journal s = (Some u, s')" and "unique_names (snd s)"
  shows "bounded (jo_options (fst s)) (snd s') \<and> data_of (snd s') CURRENT = Some '''' \<and>
    fst s' = (fst s)\<lparr>jo_open := True, jo_currentBytes := 0, jo_eventsSinceFlush := 0\<rparr>"
proof -
  obtain s1 s2 now s3 s4 s5 where
    1: "close_handle s = (Some (), s1)" and 2: "rotate_body s1 = (Some (), s2)" and
    3: "clock s2 = (Some now, s3)" and 4: "prune (jo_options (fst s)) now s3 = (Some (), s4)" and
    5: "open_append s4 = (Some (), s5)" and
    6: "set_journal (\<lambda>j. j\<lparr>jo_open := True, jo_currentBytes := 0, jo_eventsSinceFlush := 0\<rparr>) s5 = (Some u, s')"
    using assms(1) by (auto simp: rotate_journal_def seq_Some)
  have c: "fst s1 = (if jo_open (fst s) then (fst s)\<lparr>jo_open := False\<rparr> else fst s)"
    using 1 by (auto simp: close_handle_def seq_Some io_unit_def io_Some set_journal_def split: if_splits)
  have "unique_names (snd s1)"
    using close_handle_Some [OF 1] assms(2) by (simp add: unique_names_def)
  note b = rotate_body_Some [OF 2 this]
  have t: "s3 = s2"
    using 3 by (simp add: clock_def)
  have "unique_names (snd s3)"
    using b t by simp
  note p = prune_Some [OF 4 this]
  have cur4: "current_bytes (snd s4) = 0"
    using pruned_names(5) [of "snd s3" "snd s4"] p b t by (simp add: current_bytes_def)
  have bd: "bounded (jo_options (fst s)) (snd s4)"
    by (rule pruned_bounded) (use p cur4 in simp_all)
  then have un: "unique_names (snd s4)"
    by (simp add: bounded_def)
  note op = open_append_Some [OF 5 un]
  then have "data_of (snd s5) CURRENT = Some ''''"
    using op cur4 by (auto simp: current_bytes_def split: option.splits)
  moreover have "bounded (jo_options (fst s)) (snd s5)"
    using bd op un total_size_open [of "snd s5" "snd s4"] by (simp add: bounded_def)
  moreover have "snd s' = snd s5" "fst s' = (fst s5)\<lparr>jo_open := True, jo_currentBytes := 0, jo_eventsSinceFlush := 0\<rparr>"
    using 6 by (auto simp: set_journal_def)
  moreover have "fst s5 = fst s1"
    using op p b t by simp
  ultimately show ?thesis
    using c by simp
qed

section \<open>The invariant of a run\<close>

text \<open>A journal whose handle is open, and one whose calls have all succeeded.\<close>

definition live :: "jstate \<Rightarrow> bool" where
  "live s \<longleftrightarrow> jo_currentBytes (fst s) = current_bytes (snd s) \<and> data_of (snd s) CURRENT \<noteq> None"

definition sound :: "jstate \<Rightarrow> bool" where
  "sound s \<longleftrightarrow> bounded (jo_options (fst s)) (snd s) \<and> current_bytes (snd s) \<le> maxFileBytes (jo_options (fst s)) \<and>
     (jo_open (fst s) \<longrightarrow> live s)"

lemma sound_cong:
  assumes "dk_files d' = dk_files (snd s)" and "jo_options j = jo_options (fst s)"
    and "jo_open j \<longrightarrow> jo_open (fst s) \<and> jo_currentBytes j = jo_currentBytes (fst s)" and "sound s"
  shows "sound (j, d')"
  using assms(2-4) by (simp add: sound_def bounded_def live_def files_cong [OF assms(1)])

lemma rotate_journal_sound:
  assumes "rotate_journal s = (Some u, s')" and "unique_names (snd s)"
  shows "sound s'" "live s'" "jo_options (fst s') = jo_options (fst s)" "jo_disabled (fst s') = jo_disabled (fst s)"
    "jo_open (fst s')" "data_of (snd s') CURRENT = Some ''''" "jo_currentBytes (fst s') = 0"
  using rotate_journal_Some [OF assms] by (simp_all add: sound_def live_def current_bytes_def)

lemma makeTotalCapacity_Some:
  assumes "makeTotalCapacity inc s = (Some u, s')" and "sound s" and "live s" and "normal (jo_options (fst s))"
    and "jo_currentBytes (fst s) + inc \<le> maxFileBytes (jo_options (fst s))"
  shows "fst s' = fst s \<and> pruned (snd s) (snd s') \<and>
    total_size (journal_files (snd s')) + inc \<le> maxTotalBytes (jo_options (fst s))"
proof -
  let ?limit = "maxTotalBytes (jo_options (fst s))"
  obtain bytes t where cp: "capacity_pass inc s = (Some bytes, t)"
    using assms(1) by (cases "capacity_pass inc s") (auto simp: makeTotalCapacity.simps [of inc s] split: option.splits)
  obtain fs s1 where 1: "listJournalFiles s = (Some fs, s1)" and
    2: "shed ?limit inc (total_size fs) fs s1 = (Some bytes, t)"
    using cp by (auto simp: capacity_pass_def seq_Some)
  have l: "fs = by_age (journal_files (snd s))" "fst s1 = fst s" "dk_files (snd s1) = dk_files (snd s)"
    using list_Some [OF 1] by auto
  have un: "unique_names (snd s)"
    using assms(2) by (simp add: sound_def bounded_def)
  have "distinct (map jf_name fs)"
    using un by (simp add: l(1) by_age_def distinct_map_sort_key unique_names_def journal_files_def distinct_map_filter)
  then have sh: "fst t = fst s1 \<and> pruned (snd s1) (snd t) \<and> bytes = total_size (journal_files (snd t)) \<and>
      (bytes + inc \<le> ?limit \<or> set fs \<inter> set (rotated_files (snd t)) = {})"
    by (intro shed_Some [OF 2]) (use un in \<open>simp_all add: l(1) files_cong [OF l(3)] total_size_by_age\<close>)
  have p: "pruned (snd s) (snd t)"
    using sh pruned_trans [OF pruned_refl [OF l(3)]] by blast
  have fits: "bytes + inc \<le> ?limit"
  proof (rule ccontr)
    assume no: "\<not> bytes + inc \<le> ?limit"
    have "set (rotated_files (snd t)) \<subseteq> set fs"
      using pruned_names(4) [OF p] by (auto simp: l(1) rotated_files_def)
    moreover have "set fs \<inter> set (rotated_files (snd t)) = {}"
      using sh no by auto
    ultimately have "rotated_files (snd t) = []"
      by (simp add: Int_absorb1)
    then have "bytes = current_bytes (snd s)"
      using sh total_size_split [OF pruned_names(1) [OF p un]] pruned_names(5) [OF p]
      by (simp add: total_size_def current_bytes_def)
    then show False
      using no assms(3,4,5) by (simp add: live_def normal_def)
  qed
  have "fst t = fst s"
    using sh l by simp
  with fits have "s' = t"
    using assms(1) cp by (simp add: makeTotalCapacity.simps [of inc s])
  then show ?thesis
    using sh l fits p by simp
qed

lemma write_line_Some:
  assumes "write_line line s = (Some u, s')" and "unique_names (snd s)" and "data_of (snd s) CURRENT = Some t"
  shows "fst s' = fst s \<and> unique_names (snd s') \<and> data_of (snd s') CURRENT = Some (t @ line) \<and>
    rotated_files (snd s') = rotated_files (snd s)"
proof -
  let ?w = "\<lambda>f. if jf_name f = CURRENT then f\<lparr>jf_data := jf_data f @ line, jf_mtime := dk_now (snd s)\<rparr> else f"
  have d: "fst s' = fst s" "dk_files (snd s') = map ?w (dk_files (snd s))"
    using assms(1) by (auto simp: write_line_def io_Some)
  have n: "jf_name (?w f) = jf_name f" for f
    by simp
  have find: "List.find (\<lambda>f. jf_name f = CURRENT) (map ?w fs) =
      map_option ?w (List.find (\<lambda>f. jf_name f = CURRENT) fs)" for fs
    by (induction fs) auto
  have rot: "filter (\<lambda>f. jf_name f \<noteq> CURRENT) (filter (\<lambda>f. isJournalFile (jf_name f)) (map ?w fs)) =
      filter (\<lambda>f. jf_name f \<noteq> CURRENT) (filter (\<lambda>f. isJournalFile (jf_name f)) fs)" for fs
    by (induction fs) auto
  obtain f where f: "List.find (\<lambda>f. jf_name f = CURRENT) (dk_files (snd s)) = Some f" "jf_data f = t"
    using assms(3) by (auto simp: data_of_def)
  then have "jf_name f = CURRENT"
    by (auto simp: find_Some_iff)
  then have "data_of (snd s') CURRENT = Some (t @ line)"
    unfolding data_of_def d(2) find using f by simp
  moreover have "unique_names (snd s')"
    using assms(2) by (simp add: unique_names_def d(2) o_def n cong: map_cong)
  ultimately show ?thesis
    using d(1) rot [of "dk_files (snd s)"] unfolding rotated_files_def journal_files_def d(2) by simp
qed

lemma flush_event_Some:
  "flush_event l s = (Some u, s') \<Longrightarrow> dk_files (snd s') = dk_files (snd s) \<and>
   jo_options (fst s') = jo_options (fst s) \<and> jo_disabled (fst s') = jo_disabled (fst s) \<and>
   jo_open (fst s') = jo_open (fst s) \<and> jo_currentBytes (fst s') = jo_currentBytes (fst s)"
  by (auto simp: flush_event_def seq_Some io_unit_def io_Some set_journal_def split: if_splits)

text \<open>A line that reaches the file system and is written.\<close>

definition goes_out :: "string \<Rightarrow> string \<Rightarrow> jstate \<Rightarrow> bool" where
  "goes_out encoded fallback s \<longleftrightarrow> \<not> jo_disabled (fst s) \<and> jo_open (fst s) \<and>
     encodeEvent (maxLineBytes (jo_options (fst s))) encoded fallback \<noteq> ''''"

lemma encodeEvent_length: "length (encodeEvent m e f) \<le> m"
  by (simp add: encodeEvent_def)

lemma append_body_Some:
  assumes "append_body encoded fallback l s = (Some u, s')" and "goes_out encoded fallback s" and "sound s"
    and "normal (jo_options (fst s))"
  shows "sound s' \<and> jo_open (fst s') \<and> jo_options (fst s') = jo_options (fst s) \<and> \<not> jo_disabled (fst s') \<and>
    (let line = encodeEvent (maxLineBytes (jo_options (fst s))) encoded fallback; kept = data_of (snd s) CURRENT in
     data_of (snd s') CURRENT = (if jo_currentBytes (fst s) + length line > maxFileBytes (jo_options (fst s))
       then Some line else map_option (\<lambda>t. t @ line) kept))"
proof -
  let ?o = "jo_options (fst s)"
  let ?line = "encodeEvent (maxLineBytes ?o) encoded fallback"
  let ?emit = "seq (write_line ?line) (\<lambda>_. seq (set_journal (\<lambda>j. j\<lparr>jo_currentBytes := jo_currentBytes j + length ?line,
        jo_eventsSinceFlush := jo_eventsSinceFlush j + 1\<rparr>)) (\<lambda>_. flush_event l))"
  obtain s1 s2 where
    1: "(if jo_currentBytes (fst s) + length ?line > maxFileBytes ?o then rotate_journal s else (Some (), s)) = (Some (), s1)" and
    2: "makeTotalCapacity (length ?line) s1 = (Some (), s2)" and
    go: "(if jo_disabled (fst s2) \<or> \<not> jo_open (fst s2) then (Some (), s2) else ?emit s2) = (Some u, s')"
    using assms(1,2) unfolding append_body_def goes_out_def by (simp add: Let_def) (auto simp only: seq_Some)
  have live: "live s" and un: "unique_names (snd s)"
    using assms(2,3) by (auto simp: sound_def goes_out_def bounded_def)
  have line: "length ?line \<le> maxFileBytes ?o"
    using encodeEvent_length [of "maxLineBytes ?o" encoded fallback] assms(4) by (simp add: normal_def)
  define t where "t = (if jo_currentBytes (fst s) + length ?line > maxFileBytes ?o then '''' else the (data_of (snd s) CURRENT))"
  have s1: "sound s1" "live s1" "jo_options (fst s1) = ?o" "\<not> jo_disabled (fst s1)" "jo_open (fst s1)"
    "data_of (snd s1) CURRENT = Some t" "jo_currentBytes (fst s1) + length ?line \<le> maxFileBytes ?o"
    using 1 rotate_journal_sound [of s "()" s1] un assms(2,3) live line
    by (auto simp: goes_out_def live_def t_def split: if_splits)
  have s2: "fst s2 = fst s1 \<and> pruned (snd s1) (snd s2) \<and>
      total_size (journal_files (snd s2)) + length ?line \<le> maxTotalBytes ?o"
    using makeTotalCapacity_Some [OF 2 s1(1,2)] s1 assms(4) by simp
  note p = pruned_names [of "snd s1" "snd s2", OF conjunct1 [OF conjunct2 [OF s2]]]
  have "?emit s2 = (Some u, s')"
    using go s2 s1 by simp
  then obtain s3 s4 where w: "write_line ?line s2 = (Some (), s3)" and
    j: "set_journal (\<lambda>j. j\<lparr>jo_currentBytes := jo_currentBytes j + length ?line,
        jo_eventsSinceFlush := jo_eventsSinceFlush j + 1\<rparr>) s3 = (Some (), s4)" and fl: "flush_event l s4 = (Some u, s')"
    by (auto simp only: seq_Some)
  have un2: "unique_names (snd s2)" and len2: "length (rotated_files (snd s2)) \<le> maxFiles ?o - 1"
    using p s1(1,3) by (auto simp: sound_def bounded_def)
  have d2: "data_of (snd s2) CURRENT = Some t"
    using p(5) s1(6) by simp
  note w' = write_line_Some [OF w un2 d2]
  have j': "snd s4 = snd s3" "jo_currentBytes (fst s4) = jo_currentBytes (fst s3) + length ?line"
    "jo_options (fst s4) = jo_options (fst s3)" "jo_disabled (fst s4) = jo_disabled (fst s3)" "jo_open (fst s4) = jo_open (fst s3)"
    using j by (auto simp: set_journal_def)
  note f' = flush_event_Some [OF fl]
  have files: "dk_files (snd s') = dk_files (snd s3)"
    using f' j' by simp
  have cur: "data_of (snd s') CURRENT = Some (t @ ?line)" and un': "unique_names (snd s')"
    using w' by (simp_all add: files_cong [OF files])
  have cb: "current_bytes (snd s') = length t + length ?line" "current_bytes (snd s2) = length t"
    using cur d2 by (simp_all add: current_bytes_def)
  have tot: "total_size (journal_files (snd s')) = total_size (journal_files (snd s2)) + length ?line"
    using total_size_split [OF un'] total_size_split [OF un2] cb w' by (simp add: files_cong [OF files])
  have "jo_currentBytes (fst s1) = length t"
    using s1(2,6) by (simp add: live_def current_bytes_def)
  then have "sound s'"
    using un' len2 w' tot s2 s1(3,7) cb cur f' j'
    by (auto simp: sound_def bounded_def live_def files_cong [OF files])
  moreover have "data_of (snd s') CURRENT = (if jo_currentBytes (fst s) + length ?line > maxFileBytes ?o
       then Some ?line else map_option (\<lambda>t. t @ ?line) (data_of (snd s) CURRENT))"
    using cur live by (auto simp: t_def live_def)
  ultimately show ?thesis
    using f' j' w' s2 s1 by (simp add: Let_def)
qed

lemma initialize_body_Some:
  assumes "initialize_body s = (Some u, s')" and "unique_names (snd s)" and "normal (jo_options (fst s))"
  shows "sound s' \<and> jo_open (fst s') \<and> jo_options (fst s') = jo_options (fst s) \<and>
    jo_disabled (fst s') = jo_disabled (fst s)"
proof -
  let ?o = "jo_options (fst s)"
  obtain s0 now s1 s2 s3 s4 sz s5 where
    0: "io_unit s = (Some (), s0)" "clock s0 = (Some now, s1)" and
    1: "prune ?o now s1 = (Some (), s2)" and 2: "open_append s2 = (Some (), s3)" and
    3: "set_journal (\<lambda>j. j\<lparr>jo_open := True\<rparr>) s3 = (Some (), s4)" and
    4: "current_size s4 = (Some sz, s5)" and
    5: "(\<lambda>s. if jo_currentBytes (fst s) \<ge> maxFileBytes (jo_options (fst s)) then rotate_journal s else (Some (), s))
      ((fst s5)\<lparr>jo_currentBytes := (case sz of None \<Rightarrow> 0 | Some k \<Rightarrow> k)\<rparr>, snd s5) = (Some u, s')"
    using assms(1) unfolding initialize_body_def by (auto simp: seq_Some set_journal_def)
  have s1: "dk_files (snd s1) = dk_files (snd s)" "fst s1 = fst s"
    using 0 by (auto simp: io_unit_def io_Some clock_def)
  have un1: "unique_names (snd s1)"
    using assms(2) by (simp add: files_cong [OF s1(1)])
  note p = prune_Some [OF 1 un1]
  have un2: "unique_names (snd s2)"
    using p by (auto simp: bounded_def)
  note op = open_append_Some [OF 2 un2]
  have s4: "snd s4 = snd s3" "fst s4 = (fst s3)\<lparr>jo_open := True\<rparr>"
    using 3 by (auto simp: set_journal_def)
  have s5: "dk_files (snd s5) = dk_files (snd s3)" "fst s5 = fst s4" "sz = map_option length (data_of (snd s3) CURRENT)"
    using 4 s4 by (auto simp: current_size_def io_Some data_of_def)
  let ?s5 = "((fst s5)\<lparr>jo_currentBytes := (case sz of None \<Rightarrow> 0 | Some k \<Rightarrow> k)\<rparr>, snd s5)"
  have sz: "(case sz of None \<Rightarrow> 0 | Some k \<Rightarrow> k) = current_bytes (snd s3)"
    by (simp add: s5(3) current_bytes_def split: option.split)
  have "fst s3 = fst s"
    using op p s1 by simp
  then have j5: "fst ?s5 = (fst s)\<lparr>jo_open := True, jo_currentBytes := current_bytes (snd s3)\<rparr>"
    by (simp add: sz s5(2) s4(2))
  have un5: "unique_names (snd ?s5)"
    using op by (simp add: files_cong [OF s5(1)])
  show ?thesis
  proof (cases "current_bytes (snd s3) \<ge> maxFileBytes ?o")
    case True
    then have "rotate_journal ?s5 = (Some u, s')"
      using 5 sz s5(2) s4(2) \<open>fst s3 = fst s\<close> by simp
    from rotate_journal_sound [OF this un5] show ?thesis
      by (simp add: s5(2) s4(2) \<open>fst s3 = fst s\<close>)
  next
    case False
    then have s': "s' = ?s5"
      using 5 sz s5(2) s4(2) \<open>fst s3 = fst s\<close> by simp
    have "current_bytes (snd s2) \<le> maxTotalBytes ?o"
      using False op assms(3) by (simp add: normal_def)
    then have "bounded ?o (snd s2)"
      using p pruned_bounded by blast
    then have "bounded ?o (snd s5)"
      using op un2 total_size_open [of "snd s3" "snd s2"] by (simp add: bounded_def files_cong [OF s5(1)])
    then have "sound s'"
      unfolding s' sound_def live_def j5 using False op by (simp add: files_cong [OF s5(1)])
    then show ?thesis
      unfolding s' j5 by simp
  qed
qed

section \<open>Runs\<close>

datatype journal_op = Append string string bool | Close | Clock nat

fun apply_op :: "journal_op \<Rightarrow> jstate \<Rightarrow> jstate" where
  "apply_op (Append encoded fallback l) s = append_event encoded fallback l s"
| "apply_op Close s = close_journal s"
| "apply_op (Clock t) s = (fst s, (snd s)\<lparr>dk_now := t\<rparr>)"

definition run_journal :: "journal_options \<Rightarrow> disk \<Rightarrow> journal_op list \<Rightarrow> jstate" where
  "run_journal opts d ops = fold apply_op ops (open_journal opts d)"

definition run_inv :: "journal_options \<Rightarrow> jstate \<Rightarrow> bool" where
  "run_inv opts s \<longleftrightarrow> jo_options (fst s) = normalizeOptions opts \<and> jo_reported (fst s) = jo_disabled (fst s) \<and>
     jo_errors (fst s) = (if jo_disabled (fst s) then 1 else 0) \<and> (jo_disabled (fst s) \<longrightarrow> \<not> jo_open (fst s)) \<and>
     (\<not> jo_disabled (fst s) \<longrightarrow> sound s)"

text \<open>The fields no call that may throw touches.\<close>

definition core :: "jstate \<Rightarrow> normalized \<times> bool \<times> bool \<times> nat" where
  "core s = (jo_options (fst s), jo_disabled (fst s), jo_reported (fst s), jo_errors (fst s))"

lemma core_io [simp]: "core (snd (io f s)) = core s"
  by (simp add: core_def io_journal)

lemma core_ret [simp]: "core (snd (ret a s)) = core s"
  by (simp add: ret_def)

lemma core_seq:
  assumes "core (snd (m s)) = c" and "\<And>a t. core t = c \<Longrightarrow> core (snd (f a t)) = c"
  shows "core (snd (seq m f s)) = c"
proof -
  obtain r t where rt: "m s = (r, t)"
    by (metis surj_pair)
  then show ?thesis
    using assms(1) assms(2) [of t] by (cases r) (simp_all add: seq_def)
qed

lemma core_rm_each [simp]: "core (snd (rm_each fs s)) = core s"
  by (induction fs arbitrary: s) (auto simp: rm_file_def intro!: core_seq)

lemma core_shed [simp]: "core (snd (shed limit inc n fs s)) = core s"
  by (induction fs arbitrary: n s) (auto simp: rm_file_def intro!: core_seq)

lemma core_prune [simp]: "core (snd (prune n now s)) = core s"
  unfolding prune_def Let_def listJournalFiles_def by (intro core_seq) simp_all

lemma core_set_journal:
  "(\<And>j. jo_options (f j) = jo_options j \<and> jo_disabled (f j) = jo_disabled j \<and> jo_reported (f j) = jo_reported j \<and>
     jo_errors (f j) = jo_errors j) \<Longrightarrow> core s = c \<Longrightarrow> core (snd (set_journal f s)) = c"
  by (simp add: core_def set_journal_def)

lemma core_calls [simp]: "core (snd (rotated_name s)) = core s" "core (snd (clock s)) = core s"
  by (simp_all add: core_def rotated_name_def clock_def Let_def)

lemma core_close_handle [simp]: "core (snd (close_handle s)) = core s"
  by (auto simp: close_handle_def io_unit_def intro!: core_seq core_set_journal)

lemma core_rotate [simp]: "core (snd (rotate_journal s)) = core s"
proof -
  have "core (snd (rotate_body s)) = core s" for s
    unfolding rotate_body_def current_size_def
    by (intro core_seq) (auto simp: rename_current_def intro!: core_seq split: option.split)
  then show ?thesis
    unfolding rotate_journal_def open_append_def
    by (intro core_seq core_set_journal) simp_all
qed

lemma core_capacity [simp]: "core (snd (makeTotalCapacity inc s)) = core s"
proof (induction inc s rule: makeTotalCapacity.induct)
  case (1 inc s)
  have cp: "core (snd (capacity_pass inc s)) = core s"
    unfolding capacity_pass_def listJournalFiles_def by (intro core_seq) simp_all
  obtain r t where rt: "capacity_pass inc s = (r, t)"
    by (metis surj_pair)
  obtain r' t' where rt': "rotate_journal t = (r', t')"
    by (metis surj_pair)
  have t: "core t = core s" "core t' = core s"
    using cp rt rt' core_rotate [of t] by auto
  show ?case
  proof (cases "\<exists>b u. r = Some b \<and> b + inc > maxTotalBytes (jo_options (fst t)) \<and> jo_currentBytes (fst t) > 0 \<and> r' = Some u")
    case True
    then have "core (snd (makeTotalCapacity inc t')) = core t'"
      using 1 [of r t] rt rt' by auto
    then show ?thesis
      using True rt rt' t by (auto simp: makeTotalCapacity.simps [of inc s])
  next
    case False
    then show ?thesis
      using rt rt' t by (auto simp: makeTotalCapacity.simps [of inc s] split: option.splits)
  qed
qed

lemma core_append_body: "core (snd (append_body e f l s)) = core s"
proof -
  have fl: "core (snd (flush_event l t)) = core t" for t
    by (auto simp: flush_event_def io_unit_def intro!: core_seq core_set_journal)
  show ?thesis
    by (auto simp: append_body_def write_line_def fl Let_def intro!: core_seq core_set_journal)
qed

lemma core_initialize_body: "core (snd (initialize_body s)) = core s"
  unfolding initialize_body_def io_unit_def open_append_def current_size_def
  by (intro core_seq core_set_journal) simp_all

lemma disable_journal_run_inv:
  assumes "jo_options (fst s) = normalizeOptions opts" and "\<not> jo_disabled (fst s)" and "\<not> jo_reported (fst s)"
    and "jo_errors (fst s) = 0"
  shows "run_inv opts (disable_journal s)"
  using assms by (simp add: run_inv_def disable_journal_def Let_def io_unit_def io_journal)

text \<open>A call in a state that is not disabled: its success is sound or it disables the journal.\<close>

lemma caught_run_inv:
  assumes "core (snd (m s)) = core s" and "\<not> jo_disabled (fst s)" and "\<not> jo_reported (fst s)" and "jo_errors (fst s) = 0"
    and "jo_options (fst s) = normalizeOptions opts" and "\<And>u s'. m s = (Some u, s') \<Longrightarrow> sound s'"
  shows "run_inv opts (caught m s)"
proof -
  obtain r t where rt: "m s = (r, t)"
    by (metis surj_pair)
  then have t: "jo_options (fst t) = normalizeOptions opts" "\<not> jo_disabled (fst t)" "\<not> jo_reported (fst t)" "jo_errors (fst t) = 0"
    using assms(1-5) by (auto simp: core_def)
  show ?thesis
  proof (cases r)
    case None
    then show ?thesis
      using disable_journal_run_inv [OF t] rt by (simp add: caught_def)
  next
    case (Some u)
    then show ?thesis
      using rt assms(6) t by (simp add: caught_def run_inv_def)
  qed
qed

lemma run_inv_fresh:
  "run_inv opts s \<Longrightarrow> \<not> jo_disabled (fst s) \<Longrightarrow>
   \<not> jo_reported (fst s) \<and> jo_errors (fst s) = 0 \<and> jo_options (fst s) = normalizeOptions opts \<and> sound s"
  by (auto simp: run_inv_def)

lemma disabled_inert:
  assumes "run_inv opts s" and "jo_disabled (fst s)"
  shows "append_event e f l s = s" "close_journal s = s"
  using assms by (simp_all add: run_inv_def append_event_def caught_def append_body_def close_journal_def)

lemma append_event_run_inv:
  assumes "run_inv opts s"
  shows "run_inv opts (append_event e f l s)"
proof (cases "jo_disabled (fst s)")
  case True
  then show ?thesis
    using disabled_inert(1) [OF assms True] assms by simp
next
  case False
  note fresh = run_inv_fresh [OF assms False]
  show ?thesis
    unfolding append_event_def
  proof (rule caught_run_inv)
    fix u s'
    assume ab: "append_body e f l s = (Some u, s')"
    show "sound s'"
    proof (cases "goes_out e f s")
      case True
      then show ?thesis
        using append_body_Some [OF ab True] fresh normalizeOptions_normal by simp
    next
      case False
      then have "s' = s"
        using ab by (auto simp: append_body_def goes_out_def Let_def split: if_splits)
      then show ?thesis
        using fresh by simp
    qed
  qed (use fresh False core_append_body in simp_all)
qed

lemma close_journal_run_inv:
  assumes "run_inv opts s"
  shows "run_inv opts (close_journal s)"
proof (cases "jo_open (fst s)")
  case True
  then have "\<not> jo_disabled (fst s)"
    using assms by (auto simp: run_inv_def)
  note fresh = run_inv_fresh [OF assms this]
  let ?s = "((fst s)\<lparr>jo_open := False\<rparr>, snd s)"
  have "run_inv opts (caught (seq io_unit (\<lambda>_. io_unit)) ?s)"
  proof (rule caught_run_inv)
    show "core (snd (seq io_unit (\<lambda>_. io_unit) ?s)) = core ?s"
      unfolding io_unit_def by (intro core_seq) simp_all
    fix u s'
    assume "seq io_unit (\<lambda>_. io_unit) ?s = (Some u, s')"
    then have "fst s' = fst ?s" "dk_files (snd s') = dk_files (snd s)"
      by (auto simp: seq_Some io_unit_def io_Some)
    then have "sound (fst s', snd s')"
      using fresh by (intro sound_cong [of _ s]) simp_all
    then show "sound s'"
      by simp
  qed (use fresh \<open>\<not> jo_disabled (fst s)\<close> in simp_all)
  then show ?thesis
    using True by (simp add: close_journal_def)
next
  case False
  then show ?thesis
    using assms by (simp add: close_journal_def)
qed

lemma apply_op_run_inv: "run_inv opts s \<Longrightarrow> run_inv opts (apply_op x s)"
proof (cases x)
  case (Clock t)
  assume "run_inv opts s"
  then show ?thesis
    using sound_cong [of "snd s\<lparr>dk_now := t\<rparr>" s "fst s"] unfolding Clock by (simp add: run_inv_def)
qed (simp_all add: append_event_run_inv close_journal_run_inv)

lemma open_journal_run_inv:
  assumes "unique_names d"
  shows "run_inv opts (open_journal opts d)"
  unfolding open_journal_def
proof (rule caught_run_inv)
  fix u s'
  assume "initialize_body (new_journal opts, d) = (Some u, s')"
  from initialize_body_Some [OF this] show "sound s'"
    using assms normalizeOptions_normal by (simp add: new_journal_def)
qed (simp_all add: core_initialize_body new_journal_def)

lemma run_journal_inv: "unique_names d \<Longrightarrow> run_inv opts (run_journal opts d ops)"
proof (induction ops rule: rev_induct)
  case Nil
  then show ?case by (simp add: run_journal_def open_journal_run_inv)
next
  case (snoc x xs)
  then show ?case by (simp add: run_journal_def apply_op_run_inv)
qed

section \<open>Without failures\<close>

definition quiet :: "jstate \<Rightarrow> bool" where
  "quiet s \<longleftrightarrow> (\<forall>k. \<not> dk_fails (snd s) k)"

text \<open>A call that returns and leaves no failure pending.\<close>

definition fine :: "'a option \<times> jstate \<Rightarrow> bool" where
  "fine r \<longleftrightarrow> fst r \<noteq> None \<and> quiet (snd r)"

lemma fine_io: "quiet s \<Longrightarrow> (\<And>d. dk_fails (snd (f d)) = dk_fails d) \<Longrightarrow> fine (io f s)"
  by (simp add: fine_def quiet_def io_def Let_def)

lemma fine_simps [simp]: "fine (Some a, t) = quiet t" "fine (ret a t) = quiet t"
  "fine (set_journal f t) = quiet t" "fine (clock t) = quiet t" "fine (rotated_name t) = quiet t"
  "quiet (j, snd t) = quiet t"
  by (simp_all add: fine_def quiet_def ret_def set_journal_def clock_def rotated_name_def Let_def)

lemma fine_seq:
  assumes "fine (m s)" and "\<And>a t. quiet t \<Longrightarrow> fine (f a t)"
  shows "fine (seq m f s)"
proof -
  obtain r t where rt: "m s = (r, t)"
    by (metis surj_pair)
  then show ?thesis
    using assms(1) assms(2) [of t] by (cases r) (simp_all add: seq_def fine_def)
qed

lemma fine_rm_each: "quiet s \<Longrightarrow> fine (rm_each fs s)"
  by (induction fs arbitrary: s) (auto simp: rm_file_def intro!: fine_seq fine_io)

lemma fine_shed: "quiet s \<Longrightarrow> fine (shed limit inc n fs s)"
  by (induction fs arbitrary: n s) (auto simp: rm_file_def intro!: fine_seq fine_io)

lemma fine_prune: "quiet s \<Longrightarrow> fine (prune n now s)"
  unfolding prune_def Let_def listJournalFiles_def by (intro fine_seq fine_rm_each fine_shed fine_io) simp_all

lemma fine_rotate: "quiet s \<Longrightarrow> fine (rotate_journal s)"
proof -
  have close: "quiet s \<Longrightarrow> fine (close_handle s)" for s
    by (auto simp: close_handle_def io_unit_def intro!: fine_seq fine_io)
  have body: "quiet s \<Longrightarrow> fine (rotate_body s)" for s
    unfolding rotate_body_def current_size_def
    by (intro fine_seq fine_io) (auto simp: rename_current_def intro!: fine_seq fine_io split: option.split)
  assume "quiet s"
  then show ?thesis
    unfolding rotate_journal_def open_append_def
    by (intro fine_seq close body fine_prune fine_io) simp_all
qed

lemma fine_capacity: "quiet s \<Longrightarrow> fine (makeTotalCapacity inc s)"
proof (induction inc s rule: makeTotalCapacity.induct)
  case (1 inc s)
  have cp: "fine (capacity_pass inc s)"
    unfolding capacity_pass_def listJournalFiles_def using 1(2) by (intro fine_seq fine_shed fine_io) simp_all
  obtain b t where bt: "capacity_pass inc s = (Some b, t)" "quiet t"
    using cp by (cases "capacity_pass inc s") (auto simp: fine_def)
  obtain u t' where ut: "rotate_journal t = (Some u, t')" "quiet t'"
    using fine_rotate [OF bt(2)] by (cases "rotate_journal t") (auto simp: fine_def)
  show ?case
    using 1(1) [of "Some b" t b "Some u" t' u] bt ut by (simp add: makeTotalCapacity.simps [of inc s])
qed

lemma fine_append_body: "quiet s \<Longrightarrow> fine (append_body e f l s)"
proof -
  have "quiet t \<Longrightarrow> fine (flush_event l t)" for t
    by (auto simp: flush_event_def io_unit_def intro!: fine_seq fine_io)
  then show "quiet s \<Longrightarrow> fine (append_body e f l s)"
    by (auto simp: append_body_def write_line_def Let_def intro!: fine_seq fine_io fine_rotate fine_capacity)
qed

lemma fineE: "fine r \<Longrightarrow> (\<And>u t. r = (Some u, t) \<Longrightarrow> quiet t \<Longrightarrow> thesis) \<Longrightarrow> thesis"
  by (cases r) (auto simp: fine_def)

lemma fine_initialize: "quiet s \<Longrightarrow> fine (initialize_body s)"
  unfolding initialize_body_def io_unit_def open_append_def current_size_def
  by (intro fine_seq fine_io) (auto intro!: fine_seq fine_io fine_prune fine_rotate)

lemma caught_quiet: "fine (m s) \<Longrightarrow> quiet (caught m s) \<and> fst (m s) = Some () \<and> caught m s = snd (m s)"
  by (cases "m s") (auto simp: fine_def caught_def)

lemma run_quiet:
  assumes "\<forall>k. \<not> dk_fails d k"
  shows "\<not> jo_disabled (fst (run_journal opts d ops)) \<and> quiet (run_journal opts d ops)"
proof (induction ops rule: rev_induct)
  case Nil
  have "fine (initialize_body (new_journal opts, d))"
    by (rule fine_initialize) (simp add: quiet_def assms)
  moreover have "\<not> jo_disabled (fst (snd (initialize_body (new_journal opts, d))))"
    using core_initialize_body [of "(new_journal opts, d)"] by (simp add: core_def new_journal_def)
  ultimately show ?case
    using caught_quiet [of initialize_body "(new_journal opts, d)"]
    unfolding run_journal_def open_journal_def by (metis fold_simps(1))
next
  case (snoc x ops)
  let ?s = "run_journal opts d ops"
  have "\<not> jo_disabled (fst (apply_op x ?s)) \<and> quiet (apply_op x ?s)"
  proof (cases x)
    case (Append e f l)
    have "fine (append_body e f l ?s)"
      using snoc by (intro fine_append_body) simp
    moreover have "\<not> jo_disabled (fst (snd (append_body e f l ?s)))"
      using core_append_body [of e f l ?s] snoc by (simp add: core_def)
    ultimately show ?thesis
      using caught_quiet [of "append_body e f l" ?s] unfolding Append apply_op.simps append_event_def by metis
  next
    case Close
    let ?t = "((fst ?s)\<lparr>jo_open := False\<rparr>, snd ?s)"
    have "fine (seq io_unit (\<lambda>_. io_unit) ?t)"
      using snoc unfolding io_unit_def by (intro fine_seq fine_io) simp_all
    moreover have "core (snd (seq io_unit (\<lambda>_. io_unit) ?t)) = core ?t"
      unfolding io_unit_def by (intro core_seq) simp_all
    then have "\<not> jo_disabled (fst (snd (seq io_unit (\<lambda>_. io_unit) ?t)))"
      using snoc by (simp add: core_def)
    ultimately have "\<not> jo_disabled (fst (caught (seq io_unit (\<lambda>_. io_unit)) ?t)) \<and> quiet (caught (seq io_unit (\<lambda>_. io_unit)) ?t)"
      using caught_quiet [of "seq io_unit (\<lambda>_. io_unit)" ?t] by metis
    then show ?thesis
      using snoc by (cases "jo_open (fst ?s)") (simp_all only: Close apply_op.simps close_journal_def if_True if_False simp_thms)
  next
    case (Clock t)
    then show ?thesis
      using snoc by (simp add: quiet_def)
  qed
  then show ?case
    by (simp add: run_journal_def)
qed

section \<open>Properties\<close>

text \<open>C17: after any operations on a journal that has not disabled itself, its directory holds at
  most \<open>maxFiles - 1\<close> rotated files, at most \<open>maxTotalBytes\<close> bytes in all, and a current file of
  at most \<open>maxFileBytes\<close>, whatever the directory held when the journal was opened.\<close>

theorem journal_bounds:
  assumes "unique_names d" and "\<not> jo_disabled (fst (run_journal opts d ops))"
  shows "length (rotated_files (snd (run_journal opts d ops))) \<le> maxFiles (normalizeOptions opts) - 1 \<and>
    total_size (journal_files (snd (run_journal opts d ops))) \<le> maxTotalBytes (normalizeOptions opts) \<and>
    current_bytes (snd (run_journal opts d ops)) \<le> maxFileBytes (normalizeOptions opts)"
proof -
  have s: "sound (run_journal opts d ops)" and n: "jo_options (fst (run_journal opts d ops)) = normalizeOptions opts"
    using run_inv_fresh [OF run_journal_inv [OF assms(1)] assms(2)] by auto
  show ?thesis
    using s unfolding sound_def bounded_def n by blast
qed

text \<open>When no call fails, an append to an open journal writes the encoded line at the end of
  the current file, or as the first line of a new one when the old one would grow too large,
  and the journal stays enabled.\<close>

theorem append_writes_line:
  fixes opts d ops encoded fallback l
  defines "s \<equiv> run_journal opts d ops" and "n \<equiv> normalizeOptions opts"
    and "line \<equiv> encodeEvent (maxLineBytes (normalizeOptions opts)) encoded fallback"
  assumes "unique_names d" and "\<forall>k. \<not> dk_fails (snd s) k" and "jo_open (fst s)" and "line \<noteq> ''''"
  shows "\<not> jo_disabled (fst (append_event encoded fallback l s)) \<and>
    data_of (snd (append_event encoded fallback l s)) CURRENT =
      (case data_of (snd s) CURRENT of None \<Rightarrow> None
       | Some old \<Rightarrow> Some (if length old + length line > maxFileBytes n then line else old @ line))"
proof -
  have inv: "run_inv opts s"
    unfolding s_def by (rule run_journal_inv [OF assms(4)])
  have nd: "\<not> jo_disabled (fst s)"
    using inv assms(6) by (auto simp: run_inv_def)
  note fresh = run_inv_fresh [OF inv nd]
  have live: "live s"
    using fresh assms(6) by (simp add: sound_def)
  have "quiet s"
    using assms(5) by (simp add: quiet_def)
  from fine_append_body [OF this] obtain u s' where ab: "append_body encoded fallback l s = (Some u, s')"
    by (rule fineE)
  have out: "goes_out encoded fallback s"
    using nd assms(6,7) fresh by (simp add: goes_out_def line_def)
  note res = append_body_Some [OF ab out]
  have "append_event encoded fallback l s = s'"
    using ab by (simp add: append_event_def caught_def)
  then show ?thesis
    using res fresh normalizeOptions_normal [of opts] live
    by (auto simp: Let_def live_def current_bytes_def n_def line_def split: option.splits)
qed

text \<open>A journal reports at most one failure, exactly when it has disabled itself, and from
  then on no operation changes the directory or reports again.\<close>

theorem journal_fails_once:
  assumes "unique_names d"
  shows "jo_errors (fst (run_journal opts d ops)) = (if jo_disabled (fst (run_journal opts d ops)) then 1 else 0) \<and>
    (jo_disabled (fst (run_journal opts d ops)) \<longrightarrow>
       dk_files (snd (run_journal opts d (ops @ later))) = dk_files (snd (run_journal opts d ops)) \<and>
       jo_errors (fst (run_journal opts d (ops @ later))) = 1)"
proof -
  let ?s = "run_journal opts d ops"
  have inv: "run_inv opts ?s"
    by (rule run_journal_inv [OF assms])
  have "run_inv opts (fold apply_op later s) \<and> jo_disabled (fst (fold apply_op later s)) \<and>
      dk_files (snd (fold apply_op later s)) = dk_files (snd s)" if "run_inv opts s" "jo_disabled (fst s)" for s
    using that
  proof (induction later arbitrary: s)
    case Nil
    then show ?case by simp
  next
    case (Cons x later)
    have "jo_disabled (fst (apply_op x s)) \<and> dk_files (snd (apply_op x s)) = dk_files (snd s)"
      using Cons.prems by (cases x) (simp_all add: disabled_inert)
    then show ?case
      using Cons.IH [OF apply_op_run_inv [OF Cons.prems(1), of x]] by simp
  qed
  from this [OF inv] show ?thesis
    using inv by (auto simp: run_inv_def run_journal_def)
qed

section \<open>Witnesses\<close>

definition small_options :: journal_options where
  "small_options = \<lparr>jn_maxLineBytes = None, jn_maxFileBytes = None, jn_maxTotalBytes = None, jn_maxFiles = Some 2,
     jn_maxAgeMs = None, jn_flushEveryEvents = Some 1\<rparr>"

definition empty_disk :: "(nat \<Rightarrow> bool) \<Rightarrow> disk" where
  "empty_disk bad = \<lparr>dk_files = [], dk_now = 7, dk_uuid = (\<lambda>_. ''0a1b2c3d4e''), dk_uses = 0, dk_step = 0, dk_fails = bad\<rparr>"

lemma empty_disk_ok: "unique_names (empty_disk bad)" "\<forall>k. \<not> dk_fails (empty_disk (\<lambda>_. False)) k"
  by (simp_all add: unique_names_def empty_disk_def)

lemma journal_bounds_witness:
  "length (rotated_files (snd (run_journal small_options (empty_disk (\<lambda>_. False)) [Append ''{}'' ''x'' False, Close])))
    \<le> maxFiles (normalizeOptions small_options) - 1"
  using journal_bounds [OF empty_disk_ok(1) conjunct1 [OF run_quiet [OF empty_disk_ok(2)]]] by blast

lemma append_writes_line_witness:
  "data_of (snd (append_event ''{}'' '''' False (run_journal small_options (empty_disk (\<lambda>_. False)) []))) CURRENT \<noteq> None"
proof -
  let ?d = "empty_disk (\<lambda>_. False)"
  let ?s = "run_journal small_options ?d []"
  have q: "\<forall>k. \<not> dk_fails (snd ?s) k"
    using run_quiet [OF empty_disk_ok(2), of small_options "[]"] by (simp add: quiet_def)
  have "fine (initialize_body (new_journal small_options, ?d))"
    by (rule fine_initialize) (simp add: quiet_def empty_disk_ok)
  then obtain u t where i: "initialize_body (new_journal small_options, ?d) = (Some u, t)"
    by (rule fineE)
  have "jo_open (fst t)"
    using initialize_body_Some [OF i] empty_disk_ok normalizeOptions_normal by (simp add: new_journal_def)
  moreover have "?s = t"
    using i by (simp add: run_journal_def open_journal_def caught_def)
  ultimately have op: "jo_open (fst ?s)"
    by simp
  have line: "encodeEvent (maxLineBytes (normalizeOptions small_options)) ''{}'' '''' = ''{}''"
    by (simp add: encodeEvent_def normalizeOptions_def small_options_def or_default_def Let_def)
  have "data_of (snd ?s) CURRENT \<noteq> None"
    using run_inv_fresh [OF run_journal_inv [OF empty_disk_ok(1)]] run_quiet [OF empty_disk_ok(2)] op
    by (auto simp: sound_def live_def)
  then show ?thesis
    using append_writes_line [OF empty_disk_ok(1) q op, of "''{}''" "''''" False] line by (auto split: option.splits)
qed

lemma journal_fails_once_witness:
  "jo_errors (fst (run_journal small_options (empty_disk (\<lambda>_. True)) ([] @ [Append ''{}'' ''x'' True]))) = 1"
proof -
  have "jo_disabled (fst (run_journal small_options (empty_disk (\<lambda>_. True)) []))"
    by (simp add: run_journal_def open_journal_def caught_def initialize_body_def seq_def io_unit_def io_def Let_def
        empty_disk_def disable_journal_def new_journal_def)
  then show ?thesis
    using journal_fails_once [OF empty_disk_ok(1) [of "\<lambda>_. True"], of small_options "[]" "[Append ''{}'' ''x'' True]"]
    by blast
qed

end
