(* ===== verification/Json.thy ===== *)
theory Json
  imports Prelude
begin

text \<open>
  JSON as the components use it: \<open>JSON.stringify\<close>, \<open>JSON.parse\<close> and the decoders of a schema
  library over parsed values. Strings hold the first 256 code points, so an escape beyond
  them is outside the model (it is refused). How a number that is not an integer is printed
  is a parameter; a parsed number is the exact decimal, without the rounding to a double.
\<close>

section \<open>Decoders over parsed values\<close>

text \<open>
  \<open>field\<close> decodes a required property, \<open>opt_field\<close> one that may be missing.
\<close>

definition opt_bind :: "'a option \<Rightarrow> ('a \<Rightarrow> 'b option) \<Rightarrow> 'b option" where
  "opt_bind x f = (case x of None \<Rightarrow> None | Some a \<Rightarrow> f a)"

definition field :: "(jsval \<Rightarrow> 'a option) \<Rightarrow> string \<Rightarrow> (string \<times> jsval) list \<Rightarrow> 'a option" where
  "field dec k ps = (case map_of ps k of None \<Rightarrow> None | Some v \<Rightarrow> dec v)"

definition opt_field :: "(jsval \<Rightarrow> 'a option) \<Rightarrow> string \<Rightarrow> (string \<times> jsval) list \<Rightarrow> 'a option option" where
  "opt_field dec k ps = (case map_of ps k of None \<Rightarrow> Some None | Some v \<Rightarrow> map_option Some (dec v))"

definition as_string :: "jsval \<Rightarrow> string option" where
  "as_string v = (case v of JStr s \<Rightarrow> Some s | _ \<Rightarrow> None)"

definition as_number :: "jsval \<Rightarrow> jsnumber option" where
  "as_number v = (case v of JNum n \<Rightarrow> Some n | _ \<Rightarrow> None)"

definition literal :: "jsval \<Rightarrow> jsval \<Rightarrow> unit option" where
  "literal w v = (if v = w then Some () else None)"

definition as_object :: "jsval \<Rightarrow> (string \<times> jsval) list option" where
  "as_object v = (case v of JObj ps \<Rightarrow> Some ps | _ \<Rightarrow> None)"

definition js_num :: "int \<Rightarrow> jsval" where
  "js_num n = JNum (Finite (of_int n))"

definition js_one :: jsval where
  "js_one = JNum (Finite 1)"

fun all_some :: "'a option list \<Rightarrow> 'a list option" where
  "all_some [] = Some []"
| "all_some (x # xs) = opt_bind x (\<lambda>a. map_option ((#) a) (all_some xs))"

lemma all_some_map: "(\<And>x. x \<in> set xs \<Longrightarrow> f x = Some (g x)) \<Longrightarrow> all_some (map f xs) = Some (map g xs)"
  by (induction xs) (simp_all add: opt_bind_def)

section \<open>JSON.stringify\<close>

definition hex_digit :: "nat \<Rightarrow> char" where
  "hex_digit n = char_of (if n < 10 then 48 + n else 87 + n)"

definition json_char :: "char \<Rightarrow> string" where
  "json_char c =
     (let n = (of_char c :: nat) in
      if n = 34 then [char_of (92 :: nat), char_of (34 :: nat)]
      else if n = 92 then [char_of (92 :: nat), char_of (92 :: nat)]
      else if n = 8 then [char_of (92 :: nat), CHR ''b'']
      else if n = 9 then [char_of (92 :: nat), CHR ''t'']
      else if n = 10 then [char_of (92 :: nat), CHR ''n'']
      else if n = 12 then [char_of (92 :: nat), CHR ''f'']
      else if n = 13 then [char_of (92 :: nat), CHR ''r'']
      else if n < 32 then char_of (92 :: nat) # ''u00'' @ [hex_digit (n div 16), hex_digit (n mod 16)]
      else [c])"

definition json_string :: "string \<Rightarrow> string" where
  "json_string s = [char_of (34 :: nat)] @ concat (map json_char s) @ [char_of (34 :: nat)]"

fun join_commas :: "string list \<Rightarrow> string" where
  "join_commas [] = ''''"
| "join_commas [x] = x"
| "join_commas (x # xs) = x @ '','' @ join_commas xs"


fun stringify :: "(jsnumber \<Rightarrow> string) \<Rightarrow> jsval \<Rightarrow> string" where
  "stringify num (JArr vs) =
     ''['' @ join_commas (map (\<lambda>v. if v = JUndefined then ''null'' else stringify num v) vs) @ '']''"
| "stringify num (JObj ps) =
     ''{'' @ join_commas (map (\<lambda>(k, v). json_string k @ '':'' @ stringify num v)
       (filter (\<lambda>(k, v). v \<noteq> JUndefined) ps)) @ ''}''"
| "stringify num JNull = ''null''"
| "stringify num JUndefined = ''undefined''"
| "stringify num (JBool b) = (if b then ''true'' else ''false'')"
| "stringify num (JNum n) = (case n of Finite q \<Rightarrow> num n | _ \<Rightarrow> ''null'')"
| "stringify num (JStr s) = json_string s"

section \<open>JSON.parse\<close>

abbreviation (input) code :: "char \<Rightarrow> nat" where
  "code c \<equiv> of_char c"

definition skip_ws :: "string \<Rightarrow> string" where
  "skip_ws s = dropWhile (\<lambda>c. code c \<in> {9, 10, 13, 32}) s"

definition hex_value :: "char \<Rightarrow> nat option" where
  "hex_value c =
     (let n = code c in
      if 48 \<le> n \<and> n \<le> 57 then Some (n - 48)
      else if 65 \<le> n \<and> n \<le> 70 then Some (n - 55)
      else if 97 \<le> n \<and> n \<le> 102 then Some (n - 87) else None)"

definition hex4 :: "char \<Rightarrow> char \<Rightarrow> char \<Rightarrow> char \<Rightarrow> nat option" where
  "hex4 a b c d =
     opt_bind (hex_value a) (\<lambda>a. opt_bind (hex_value b) (\<lambda>b.
     opt_bind (hex_value c) (\<lambda>c. opt_bind (hex_value d) (\<lambda>d. Some (((a * 16 + b) * 16 + c) * 16 + d)))))"

definition simple_escape :: "nat \<Rightarrow> nat option" where
  "simple_escape e = map_of [(34, 34), (92, 92), (47, 47), (98, 8), (102, 12), (110, 10), (114, 13), (116, 9)] e"

definition prepend :: "char \<Rightarrow> (string \<times> string) option \<Rightarrow> (string \<times> string) option" where
  "prepend c r = map_option (\<lambda>(s, rest). (c # s, rest)) r"

text \<open>The characters of a string literal after its opening quote.\<close>

fun scan_string :: "string \<Rightarrow> (string \<times> string) option" where
  "scan_string [] = None"
| "scan_string (c # cs) =
     (if code c = 34 then Some ([], cs)
      else if code c = 92 then
        (case cs of
           [] \<Rightarrow> None
         | e # rest \<Rightarrow>
             if code e = 117 then
               (case rest of
                  h1 # h2 # h3 # h4 # rest' \<Rightarrow>
                    (case hex4 h1 h2 h3 h4 of
                       None \<Rightarrow> None
                     | Some n \<Rightarrow> if n < 256 then prepend (char_of n) (scan_string rest') else None)
                | _ \<Rightarrow> None)
             else
               (case simple_escape (code e) of
                  None \<Rightarrow> None
                | Some m \<Rightarrow> prepend (char_of m) (scan_string rest)))
      else if code c < 32 then None
      else prepend c (scan_string cs))"

declare scan_string.simps(2) [simp del]

definition split_digits :: "string \<Rightarrow> string \<times> string" where
  "split_digits s = (takeWhile is_digit s, dropWhile is_digit s)"

text \<open>The fraction and the exponent of a number, each with what follows.\<close>

definition scan_fraction :: "string \<Rightarrow> (string \<times> string) option" where
  "scan_fraction s =
     (case s of
        c # r \<Rightarrow>
          if code c = 46 then (let (ds, r') = split_digits r in if ds = [] then None else Some (ds, r'))
          else Some ([], s)
      | [] \<Rightarrow> Some ([], s))"

definition scan_exponent :: "string \<Rightarrow> (int \<times> string) option" where
  "scan_exponent s =
     (case s of
        c # r \<Rightarrow>
          if code c \<in> {69, 101} then
            (let signed = r \<noteq> [] \<and> code (hd r) \<in> {43, 45};
                 (ds, r') = split_digits (if signed then tl r else r)
             in if ds = [] then None
                else Some (if signed \<and> code (hd r) = 45 then - digits_value ds else digits_value ds, r'))
          else Some (0, s)
      | [] \<Rightarrow> Some (0, s))"

definition decimal :: "bool \<Rightarrow> string \<Rightarrow> string \<Rightarrow> int \<Rightarrow> rat" where
  "decimal neg ds fs e =
     (let mant = of_int (digits_value (ds @ fs)) / 10 ^ length fs;
          scaled = (if e < 0 then mant / 10 ^ nat (- e) else mant * 10 ^ nat e)
      in if neg then - scaled else scaled)"

definition double_limit :: int where
  "double_limit = 2 ^ 1024"

definition as_double :: "rat \<Rightarrow> jsnumber" where
  "as_double q = (if \<bar>q\<bar> \<ge> of_int double_limit then Infinite (q < 0) else Finite q)"

definition parse_number :: "string \<Rightarrow> (jsval \<times> string) option" where
  "parse_number s =
     (let neg = s \<noteq> [] \<and> code (hd s) = 45;
          (ds, r) = split_digits (if neg then tl s else s)
      in if ds = [] \<or> (code (hd ds) = 48 \<and> tl ds \<noteq> []) then None
         else opt_bind (scan_fraction r) (\<lambda>(fs, r).
              opt_bind (scan_exponent r) (\<lambda>(e, r).
              Some (JNum (as_double (decimal neg ds fs e)), r))))"

definition keyword :: "string \<Rightarrow> jsval \<Rightarrow> string \<Rightarrow> (jsval \<times> string) option" where
  "keyword w v s = (if take (length w) s = w then Some (v, drop (length w) s) else None)"

text \<open>
  Values, the elements of a non-empty array and the members of a non-empty object. The fuel
  counts nested calls; \<open>parse_json\<close> starts with more than the text can use up.
\<close>

fun parse_value :: "nat \<Rightarrow> string \<Rightarrow> (jsval \<times> string) option"
  and parse_elems :: "nat \<Rightarrow> string \<Rightarrow> (jsval list \<times> string) option"
  and parse_members :: "nat \<Rightarrow> string \<Rightarrow> ((string \<times> jsval) list \<times> string) option" where
  "parse_value 0 s = None"
| "parse_value (Suc n) s =
     (case skip_ws s of
        [] \<Rightarrow> None
      | c # cs \<Rightarrow>
          if code c = 34 then map_option (\<lambda>(t, r). (JStr t, r)) (scan_string cs)
          else if code c = 91 then
            (case skip_ws cs of
               [] \<Rightarrow> None
             | d # r \<Rightarrow> if code d = 93 then Some (JArr [], r)
                        else map_option (\<lambda>(vs, r). (JArr vs, r)) (parse_elems n cs))
          else if code c = 123 then
            (case skip_ws cs of
               [] \<Rightarrow> None
             | d # r \<Rightarrow> if code d = 125 then Some (JObj [], r)
                        else map_option (\<lambda>(ps, r). (JObj (foldl (\<lambda>m (k, v). jm_set k v m) [] ps), r)) (parse_members n cs))
          else if code c = 110 then keyword ''null'' JNull (c # cs)
          else if code c = 116 then keyword ''true'' (JBool True) (c # cs)
          else if code c = 102 then keyword ''false'' (JBool False) (c # cs)
          else parse_number (c # cs))"
| "parse_elems 0 s = None"
| "parse_elems (Suc n) s =
     opt_bind (parse_value n s) (\<lambda>(v, r).
       case skip_ws r of
         [] \<Rightarrow> None
       | c # cs \<Rightarrow>
           if code c = 44 then map_option (\<lambda>(vs, r). (v # vs, r)) (parse_elems n cs)
           else if code c = 93 then Some ([v], cs) else None)"
| "parse_members 0 s = None"
| "parse_members (Suc n) s =
     (case skip_ws s of
        [] \<Rightarrow> None
      | q # qs \<Rightarrow>
          if code q \<noteq> 34 then None
          else opt_bind (scan_string qs) (\<lambda>(k, r).
            case skip_ws r of
              [] \<Rightarrow> None
            | c # cs \<Rightarrow>
                if code c \<noteq> 58 then None
                else opt_bind (parse_value n cs) (\<lambda>(v, r).
                  case skip_ws r of
                    [] \<Rightarrow> None
                  | d # ds \<Rightarrow>
                      if code d = 44 then map_option (\<lambda>(ps, r). ((k, v) # ps, r)) (parse_members n ds)
                      else if code d = 125 then Some ([(k, v)], ds) else None)))"

declare parse_value.simps(2) [simp del] parse_elems.simps(2) [simp del] parse_members.simps(2) [simp del]

definition parse_json :: "string \<Rightarrow> jsval option" where
  "parse_json s =
     (case parse_value (2 * length s + 2) s of
        None \<Rightarrow> None
      | Some (v, r) \<Rightarrow> if skip_ws r = [] then Some v else None)"

section \<open>Parsing what was printed\<close>

text \<open>An integer up to \<open>Number.MAX_SAFE_INTEGER\<close> is printed with its digits.\<close>

definition safe_limit :: int where
  "safe_limit = 2 ^ 53"

definition plain_numbers :: "(jsnumber \<Rightarrow> string) \<Rightarrow> bool" where
  "plain_numbers num \<longleftrightarrow> (\<forall>z. \<bar>z\<bar> < safe_limit \<longrightarrow> num (Finite (of_int z)) = show_int z)"

fun plain_json :: "jsval \<Rightarrow> bool" where
  "plain_json (JArr vs) = list_all plain_json vs"
| "plain_json (JObj ps) = (distinct (map fst ps) \<and> list_all (\<lambda>p. plain_json (snd p)) ps)"
| "plain_json JUndefined = False"
| "plain_json (JNum n) = (\<exists>z. n = Finite (of_int z) \<and> \<bar>z\<bar> < safe_limit)"
| "plain_json _ = True"

lemma hex_value_digit: "d < 16 \<Longrightarrow> hex_value (hex_digit d) = Some d"
  by (simp add: hex_value_def hex_digit_def Let_def)

lemma char_split: obtains n where "n < 256" "c = char_of (n :: nat)"
  by (metis char_of_char nat_of_char_less_256)

lemma scan_json_char: "scan_string (json_char c @ t) = prepend c (scan_string t)"
proof -
  obtain n where n: "n < 256" and c: "c = char_of (n :: nat)"
    using char_split by blast
  have hex: "hex4 (CHR ''0'') (CHR ''0'') (hex_digit (n div 16)) (hex_digit (n mod 16)) = Some n"
    using n by (simp add: hex4_def hex_value_digit opt_bind_def) (simp add: hex_value_def)
  show ?thesis
    using n hex
    by (auto simp: c json_char_def Let_def scan_string.simps simple_escape_def)
qed

lemma scan_json_string: "scan_string (concat (map json_char s) @ char_of (34 :: nat) # r) = Some (s, r)"
  by (induction s) (simp_all add: scan_string.simps scan_json_char prepend_def)

lemma show_nat_digits: "\<forall>c\<in>set (show_nat n). is_digit c"
  by (induction n rule: show_nat.induct) (subst show_nat.simps, auto simp: is_digit_def)

lemma show_nat_nonempty [simp]: "show_nat n \<noteq> []"
  by (subst show_nat.simps) simp

lemma digits_value_snoc: "digits_value (ds @ [c]) = digits_value ds * 10 + (of_char c - 48)"
  by (simp add: digits_value_def)

lemma int_of_char: "(of_char c :: int) = int (of_char c)"
  by (rule of_nat_of_char [symmetric])

lemma digits_value_show_nat: "digits_value (show_nat n) = int n"
proof (induction n rule: show_nat.induct)
  case (1 n)
  show ?case
  proof (cases "n < 10")
    case True
    then show ?thesis by (subst show_nat.simps) (simp add: digits_value_def int_of_char del: of_nat_of_char)
  next
    case False
    then have "digits_value (show_nat n) = int (n div 10) * 10 + int (n mod 10)"
      using 1 by (subst show_nat.simps) (simp add: digits_value_snoc int_of_char del: of_nat_of_char)
    then show ?thesis by presburger
  qed
qed

lemma show_nat_first: "0 < n \<Longrightarrow> code (hd (show_nat n)) \<noteq> 48"
proof (induction n rule: show_nat.induct)
  case (1 n)
  then show ?case
    by (cases "n < 10"; subst show_nat.simps) auto
qed

lemma show_nat_no_leading_zero: "code (hd (show_nat n)) = 48 \<Longrightarrow> tl (show_nat n) = []"
  by (cases "n = 0") (simp_all add: show_nat_first show_nat.simps [of 0])

text \<open>What may follow a value inside a larger text.\<close>

definition stops :: "string \<Rightarrow> bool" where
  "stops r \<longleftrightarrow> r = [] \<or> code (hd r) \<in> {44, 93, 125}"

lemma split_show_nat: "stops r \<Longrightarrow> split_digits (show_nat n @ r) = (show_nat n, r)"
proof -
  assume r: "stops r"
  have "takeWhile is_digit (show_nat n @ r) = show_nat n @ takeWhile is_digit r"
    using show_nat_digits by (simp add: takeWhile_append2)
  moreover have "dropWhile is_digit (show_nat n @ r) = dropWhile is_digit r"
    using show_nat_digits by (simp add: dropWhile_append2)
  moreover have "takeWhile is_digit r = [] \<and> dropWhile is_digit r = r"
    using r by (cases r) (auto simp: stops_def is_digit_def)
  ultimately show ?thesis by (simp add: split_digits_def)
qed

lemma scan_stops: "stops r \<Longrightarrow> scan_fraction r = Some ([], r)" "stops r \<Longrightarrow> scan_exponent r = Some (0, r)"
  by (cases r; auto simp: stops_def scan_fraction_def scan_exponent_def)+

lemma show_nat_head: "48 \<le> code (hd (show_nat n)) \<and> code (hd (show_nat n)) \<le> 57"
  using show_nat_digits [of n] hd_in_set [of "show_nat n"] by (simp add: is_digit_def)

lemma as_double_small: "\<bar>z\<bar> < double_limit \<Longrightarrow> as_double (of_int z) = Finite (of_int z)"
  unfolding as_double_def of_int_abs [symmetric] of_int_le_iff by simp

lemma parse_number_show_int:
  assumes "stops r" and "\<bar>z\<bar> < double_limit"
  shows "parse_number (show_int z @ r) = Some (JNum (Finite (of_int z)), r)"
proof -
  have nat: "decimal neg (show_nat m) [] 0 = (if neg then - of_nat m else of_nat m)" for neg m
    by (simp add: decimal_def digits_value_show_nat)
  have ok: "\<not> (show_nat m = [] \<or> code (hd (show_nat m)) = 48 \<and> tl (show_nat m) \<noteq> [])" for m
    using show_nat_no_leading_zero by auto
  show ?thesis
  proof (cases "z < 0")
    case True
    then have "(of_nat (nat (- z)) :: rat) = - of_int z"
      by simp
    then show ?thesis
      using True ok [of "nat (- z)"] assms as_double_small [of z]
      by (simp add: show_int_def parse_number_def split_show_nat scan_stops opt_bind_def nat)
  next
    case False
    have "code (hd (show_nat (nat z) @ r)) \<noteq> 45"
      using show_nat_head [of "nat z"] by simp
    moreover have "(of_nat (nat z) :: rat) = of_int z"
      using False by simp
    ultimately show ?thesis
      using False ok [of "nat z"] assms as_double_small [of z]
      by (simp add: show_int_def parse_number_def split_show_nat scan_stops opt_bind_def nat)
  qed
qed

text \<open>A printed value starts with a character of its own, after which the parser chooses its branch.\<close>

definition starts_value :: "string \<Rightarrow> bool" where
  "starts_value s \<longleftrightarrow> s \<noteq> [] \<and> code (hd s) \<notin> {9, 10, 13, 32, 93, 125}"

lemma skip_start: "starts_value s \<Longrightarrow> skip_ws (s @ r) = s @ r"
  by (cases s) (auto simp: starts_value_def skip_ws_def)

lemma skip_ws_Cons [simp]: "code c \<notin> {9, 10, 13, 32} \<Longrightarrow> skip_ws (c # cs) = c # cs"
  by (simp add: skip_ws_def)

lemma starts_show_int: "starts_value (show_int z)"
  using show_nat_head [of "nat z"] by (auto simp: starts_value_def show_int_def)

lemma starts_stringify: "plain_numbers num \<Longrightarrow> plain_json v \<Longrightarrow> starts_value (stringify num v)"
proof (cases v)
  case (JNum n)
  assume "plain_numbers num" "plain_json v"
  then obtain z where "n = Finite (of_int z)" "num n = show_int z"
    using JNum by (auto simp: plain_numbers_def)
  then show ?thesis
    using JNum starts_show_int by simp
qed (auto simp: starts_value_def json_string_def)

text \<open>The texts between the brackets of an array and the braces of an object.\<close>

definition elems_text :: "(jsnumber \<Rightarrow> string) \<Rightarrow> jsval list \<Rightarrow> string" where
  "elems_text num vs = join_commas (map (stringify num) vs)"

definition members_text :: "(jsnumber \<Rightarrow> string) \<Rightarrow> (string \<times> jsval) list \<Rightarrow> string" where
  "members_text num ps = join_commas (map (\<lambda>(k, v). json_string k @ '':'' @ stringify num v) ps)"

lemma plain_not_undefined: "plain_json v \<Longrightarrow> v \<noteq> JUndefined"
  by auto

lemma stringify_plain:
  "plain_json (JArr vs) \<Longrightarrow> stringify num (JArr vs) = ''['' @ elems_text num vs @ '']''"
  "plain_json (JObj ps) \<Longrightarrow> stringify num (JObj ps) = ''{'' @ members_text num ps @ ''}''"
proof -
  assume "plain_json (JArr vs)"
  then have "map (\<lambda>v. if v = JUndefined then ''null'' else stringify num v) vs = map (stringify num) vs"
    by (intro map_cong) (auto simp: list_all_iff)
  then show "stringify num (JArr vs) = ''['' @ elems_text num vs @ '']''"
    unfolding elems_text_def stringify.simps by (rule arg_cong)
next
  assume "plain_json (JObj ps)"
  then have "filter (\<lambda>(k, v). v \<noteq> JUndefined) ps = ps"
    by (auto simp: list_all_iff filter_id_conv)
  then show "stringify num (JObj ps) = ''{'' @ members_text num ps @ ''}''"
    by (simp add: members_text_def)
qed

lemma join_commas_Cons: "xs \<noteq> [] \<Longrightarrow> join_commas (x # xs) = x @ '','' @ join_commas xs"
  by (cases xs) simp_all

text \<open>What the parser gives for the text of \<open>v\<close>, with enough fuel and whatever follows.\<close>

definition reads_back :: "(jsnumber \<Rightarrow> string) \<Rightarrow> jsval \<Rightarrow> bool" where
  "reads_back num v \<longleftrightarrow>
     (\<forall>n r. stops r \<and> 2 * length (stringify num v) \<le> n \<longrightarrow> parse_value n (stringify num v @ r) = Some (v, r))"

lemma reads_backD:
  "reads_back num v \<Longrightarrow> stops r \<Longrightarrow> 2 * length (stringify num v) \<le> n \<Longrightarrow> parse_value n (stringify num v @ r) = Some (v, r)"
  by (simp add: reads_back_def)

lemma parse_elems_text:
  assumes "vs \<noteq> []" and "\<forall>v\<in>set vs. reads_back num v" and "2 * length (elems_text num vs) < n"
  shows "parse_elems n (elems_text num vs @ CHR '']'' # r) = Some (vs, r)"
  using assms
proof (induction vs arbitrary: n)
  case (Cons v vs)
  obtain m where n: "n = Suc m"
    using Cons.prems(3) by (cases n) auto
  have v: "parse_value m (stringify num v @ r') = Some (v, r')" if "stops r'" for r'
    using Cons.prems that n by (intro reads_backD) (cases "vs = []"; simp add: elems_text_def join_commas_Cons)+
  show ?case
  proof (cases "vs = []")
    case True
    then show ?thesis
      using v by (simp add: n elems_text_def parse_elems.simps opt_bind_def stops_def)
  next
    case False
    then have "parse_elems m (elems_text num vs @ CHR '']'' # r) = Some (vs, r)"
      using Cons by (simp add: n elems_text_def join_commas_Cons)
    then show ?thesis
      using v False by (simp add: n elems_text_def join_commas_Cons parse_elems.simps opt_bind_def stops_def)
  qed
qed simp

lemma parse_members_text:
  assumes "ps \<noteq> []" and "\<forall>p\<in>set ps. reads_back num (snd p)" and "2 * length (members_text num ps) < n"
  shows "parse_members n (members_text num ps @ CHR ''}'' # r) = Some (ps, r)"
  using assms
proof (induction ps arbitrary: n)
  case (Cons p ps)
  obtain k v where p: "p = (k, v)"
    by (cases p)
  obtain m where n: "n = Suc m"
    using Cons.prems(3) by (cases n) auto
  have printed: "members_text num (p # ps) @ t =
      json_string k @ '':'' @ stringify num v @ (if ps = [] then t else CHR '','' # members_text num ps @ t)" for t
    by (simp add: p members_text_def join_commas_Cons)
  have v: "parse_value m (stringify num v @ r') = Some (v, r')" if "stops r'" for r'
    using Cons.prems that
    by (intro reads_backD) (cases "ps = []"; simp add: p n members_text_def join_commas_Cons)+
  have key: "skip_ws (json_string k @ t) = char_of (34 :: nat) # concat (map json_char k) @ char_of (34 :: nat) # t" for t
    by (simp add: json_string_def)
  show ?case
  proof (cases "ps = []")
    case True
    then show ?thesis
      unfolding printed using v by (simp add: n parse_members.simps key scan_json_string opt_bind_def stops_def p)
  next
    case False
    then have "parse_members m (members_text num ps @ CHR ''}'' # r) = Some (ps, r)"
      using Cons by (simp add: n members_text_def join_commas_Cons p)
    then show ?thesis
      unfolding printed using v False by (simp add: n parse_members.simps key scan_json_string opt_bind_def stops_def p)
  qed
qed simp

lemma jm_set_snoc: "k \<notin> set (map fst m) \<Longrightarrow> jm_set k v m = m @ [(k, v)]"
  by (induction m) auto

lemma collect_members: "distinct (map fst (m @ ps)) \<Longrightarrow> foldl (\<lambda>m (k, v). jm_set k v m) m ps = m @ ps"
proof (induction ps arbitrary: m)
  case (Cons p ps)
  obtain k v where "p = (k, v)"
    by (cases p)
  then show ?case
    using Cons.IH [of "m @ [(k, v)]"] Cons.prems by (simp add: jm_set_snoc)
qed simp

lemma starts_texts:
  assumes "plain_numbers num"
  shows "vs \<noteq> [] \<Longrightarrow> plain_json (JArr vs) \<Longrightarrow> starts_value (elems_text num vs)"
    and "ps \<noteq> [] \<Longrightarrow> starts_value (members_text num ps)"
proof -
  assume "vs \<noteq> []" and "plain_json (JArr vs)"
  then obtain v ws where "vs = v # ws" "plain_json v"
    by (cases vs) auto
  then show "starts_value (elems_text num vs)"
    using starts_stringify [OF assms, of v]
    by (cases "ws = []"; cases "stringify num v") (auto simp: elems_text_def join_commas_Cons starts_value_def)
next
  assume "ps \<noteq> []"
  then show "starts_value (members_text num ps)"
    by (cases ps; cases "tl ps = []")
      (auto simp: members_text_def join_commas_Cons starts_value_def json_string_def)
qed

lemma reads_back_value:
  assumes num: "plain_numbers num"
  shows "plain_json v \<Longrightarrow> reads_back num v"
proof (induction v)
  case (JArr vs)
  have all: "\<forall>v\<in>set vs. reads_back num v"
    using JArr by (auto simp: list_all_iff)
  show ?case
    unfolding reads_back_def stringify_plain(1) [OF JArr.prems]
  proof (intro allI impI, elim conjE)
    fix n r
    assume r: "stops r" and n: "2 * length (''['' @ elems_text num vs @ '']'') \<le> n"
    obtain m where m: "n = Suc m"
      using n by (cases n) auto
    show "parse_value n ((''['' @ elems_text num vs @ '']'') @ r) = Some (JArr vs, r)"
    proof (cases "vs = []")
      case True
      then show ?thesis by (simp add: m elems_text_def parse_value.simps)
    next
      case False
      then have st: "starts_value (elems_text num vs)"
        using starts_texts(1) [OF num] JArr.prems by blast
      obtain d t where d: "elems_text num vs = d # t" "code d \<notin> {9, 10, 13, 32, 93, 125}"
        using st by (cases "elems_text num vs") (auto simp: starts_value_def)
      have "parse_elems m (elems_text num vs @ CHR '']'' # r) = Some (vs, r)"
        using False all n m by (intro parse_elems_text) simp_all
      then show ?thesis
        using d by (simp add: m parse_value.simps)
    qed
  qed
next
  case (JObj ps)
  have all: "\<forall>p\<in>set ps. reads_back num (snd p)"
    using JObj by (force simp: list_all_iff)
  show ?case
    unfolding reads_back_def stringify_plain(2) [OF JObj.prems]
  proof (intro allI impI, elim conjE)
    fix n r
    assume r: "stops r" and n: "2 * length (''{'' @ members_text num ps @ ''}'') \<le> n"
    obtain m where m: "n = Suc m"
      using n by (cases n) auto
    show "parse_value n ((''{'' @ members_text num ps @ ''}'') @ r) = Some (JObj ps, r)"
    proof (cases "ps = []")
      case True
      then show ?thesis by (simp add: m members_text_def parse_value.simps)
    next
      case False
      then have st: "starts_value (members_text num ps)"
        using starts_texts(2) [OF num] by blast
      obtain d t where d: "members_text num ps = d # t" "code d \<notin> {9, 10, 13, 32, 93, 125}"
        using st by (cases "members_text num ps") (auto simp: starts_value_def)
      have "parse_members m (members_text num ps @ CHR ''}'' # r) = Some (ps, r)"
        using False all n m by (intro parse_members_text) simp_all
      then show ?thesis
        using d JObj.prems collect_members [of "[]" ps] by (simp add: m parse_value.simps)
    qed
  qed
next
  case (JStr s)
  show ?case
    unfolding reads_back_def
  proof (intro allI impI, elim conjE)
    fix n r
    assume "2 * length (stringify num (JStr s)) \<le> n"
    then obtain m where "n = Suc m"
      by (cases n) (auto simp: json_string_def)
    then show "parse_value n (stringify num (JStr s) @ r) = Some (JStr s, r)"
      by (simp add: parse_value.simps json_string_def scan_json_string)
  qed
next
  case (JNum x)
  then obtain z where z: "x = Finite (of_int z)" "\<bar>z\<bar> < double_limit" "num x = show_int z"
    using num by (auto simp: plain_numbers_def safe_limit_def double_limit_def)
  obtain d t where d: "show_int z = d # t" "code d \<notin> {9, 10, 13, 32, 93, 125}" "code d = 45 \<or> 48 \<le> code d \<and> code d \<le> 57"
    using starts_show_int [of z] show_nat_head [of "nat z"]
    by (cases "show_int z") (auto simp: starts_value_def show_int_def split: if_splits)
  show ?case
    unfolding reads_back_def
  proof (intro allI impI, elim conjE)
    fix n r
    assume r: "stops r" and "2 * length (stringify num (JNum x)) \<le> n"
    then obtain m where "n = Suc m"
      using z d by (cases n) auto
    then show "parse_value n (stringify num (JNum x) @ r) = Some (JNum x, r)"
      using parse_number_show_int [OF r z(2)] z d by (auto simp: parse_value.simps)
  qed
next
  case (JBool b)
  show ?case
    unfolding reads_back_def
  proof (intro allI impI, elim conjE)
    fix n r
    assume "2 * length (stringify num (JBool b)) \<le> n"
    then obtain m where "n = Suc m"
      by (cases n) (auto split: if_splits)
    then show "parse_value n (stringify num (JBool b) @ r) = Some (JBool b, r)"
      by (simp add: parse_value.simps keyword_def)
  qed
next
  case JNull
  have "parse_value (Suc m) (''null'' @ r) = Some (JNull, r)" for m r
    by (simp add: parse_value.simps keyword_def)
  then show ?case
    by (auto simp: reads_back_def) (metis Suc_le_D numeral_eq_Suc)
qed simp

theorem parse_stringify: "plain_numbers num \<Longrightarrow> plain_json v \<Longrightarrow> parse_json (stringify num v) = Some v"
  using reads_backD [OF reads_back_value, of num v "[]" "2 * length (stringify num v) + 2"]
  by (simp add: parse_json_def stops_def skip_ws_def)

section \<open>The fuel is enough\<close>

lemma skip_ws_shorter: "length (skip_ws s) \<le> length s"
  by (simp add: skip_ws_def length_dropWhile_le)

lemma skip_ws_ConsD: "skip_ws s = c # cs \<Longrightarrow> length cs < length s"
  using skip_ws_shorter [of s] by simp

lemma scan_string_shorter: "scan_string s = Some (t, r) \<Longrightarrow> length r < length s"
  by (induction s arbitrary: t r rule: scan_string.induct)
    (auto simp: scan_string.simps(2) prepend_def less_SucI split: if_splits list.splits option.splits)

lemma split_digits_shorter: "split_digits s = (ds, r) \<Longrightarrow> length s = length ds + length r"
  by (metis length_append split_digits_def takeWhile_dropWhile_id prod.inject)

lemma scan_fraction_shorter: "scan_fraction s = Some (ds, r) \<Longrightarrow> length r \<le> length s"
  by (auto simp: scan_fraction_def split: list.splits if_splits prod.splits dest: split_digits_shorter)

lemma scan_exponent_shorter: "scan_exponent s = Some (e, r) \<Longrightarrow> length r \<le> length s"
  by (auto simp: scan_exponent_def Let_def split: list.splits if_splits prod.splits dest!: split_digits_shorter)

lemma parse_number_shorter: "parse_number s = Some (v, r) \<Longrightarrow> length r < length s"
  by (cases s) (auto simp: parse_number_def Let_def opt_bind_def neq_Nil_conv split: if_splits prod.splits option.splits
      dest!: split_digits_shorter scan_fraction_shorter scan_exponent_shorter)

lemma keyword_shorter: "keyword w v s = Some (u, r) \<Longrightarrow> w \<noteq> [] \<Longrightarrow> s \<noteq> [] \<Longrightarrow> length r < length s"
  by (auto simp: keyword_def split: if_splits)

text \<open>
  A parser that answers leaves a shorter rest, and answers the same with any fuel above twice
  the length of its text: \<open>settled\<close> says so of one of the three.
\<close>

definition settled :: "nat \<Rightarrow> (nat \<Rightarrow> string \<Rightarrow> ('a \<times> string) option) \<Rightarrow> nat \<Rightarrow> string \<Rightarrow> bool" where
  "settled extra p m s \<longleftrightarrow>
     (\<forall>v r. p m s = Some (v, r) \<longrightarrow>
       length r < length s \<and> (\<forall>n \<ge> 2 * length s + extra. p n s = Some (v, r)))"

lemma settledD:
  "settled extra p m s \<Longrightarrow> p m s = Some (v, r) \<Longrightarrow> length r < length s"
  "settled extra p m s \<Longrightarrow> p m s = Some (v, r) \<Longrightarrow> 2 * length s + extra \<le> n \<Longrightarrow> p n s = Some (v, r)"
  by (auto simp: settled_def)

lemma settled_value:
  assumes "\<And>cs. settled 1 parse_elems m cs" and "\<And>cs. settled 1 parse_members m cs"
  shows "settled 0 parse_value (Suc m) s"
  unfolding settled_def
proof (intro allI impI)
  fix v r
  assume ok: "parse_value (Suc m) s = Some (v, r)"
  then obtain c cs where s: "skip_ws s = c # cs"
    by (cases "skip_ws s") (auto simp: parse_value.simps)
  have len: "length cs < length s"
    using s by (rule skip_ws_ConsD)
  have short: "length r < length (c # cs)"
    using ok settledD(1) [OF assms(1), of cs] settledD(1) [OF assms(2), of cs]
    by (auto simp: parse_value.simps s less_SucI split: if_splits list.splits
        dest!: scan_string_shorter parse_number_shorter keyword_shorter skip_ws_ConsD)
  have "parse_value n s = Some (v, r)" if n: "2 * length s \<le> n" for n
  proof -
    obtain k where k: "n = Suc k"
      using n len by (cases n) auto
    have e: "parse_elems k cs = Some x" if "parse_elems m cs = Some x" for x
      using n k len that settledD(2) [OF assms(1), of cs "fst x" "snd x" k] by simp
    have b: "parse_members k cs = Some x" if "parse_members m cs = Some x" for x
      using n k len that settledD(2) [OF assms(2), of cs "fst x" "snd x" k] by simp
    show ?thesis
      using ok by (auto simp: parse_value.simps s k e b split: if_splits list.splits)
  qed
  then show "length r < length s \<and> (\<forall>n \<ge> 2 * length s + 0. parse_value n s = Some (v, r))"
    using short skip_ws_shorter [of s] s by simp
qed

lemma settled_elems:
  assumes "\<And>cs. settled 0 parse_value m cs" and "\<And>cs. settled 1 parse_elems m cs"
  shows "settled 1 parse_elems (Suc m) s"
  unfolding settled_def
proof (intro allI impI)
  fix vs r
  assume ok: "parse_elems (Suc m) s = Some (vs, r)"
  then obtain v r1 c cs where v: "parse_value m s = Some (v, r1)" and c: "skip_ws r1 = c # cs"
    by (auto simp: parse_elems.simps opt_bind_def split: option.splits list.splits)
  have l1: "length r1 < length s"
    using settledD(1) [OF assms(1) v] .
  have l2: "length cs < length r1"
    using c by (rule skip_ws_ConsD)
  have "length r < length s"
    using ok l1 l2 settledD(1) [OF assms(2), of cs]
    by (auto simp: parse_elems.simps opt_bind_def v c split: if_splits)
  moreover have "parse_elems n s = Some (vs, r)" if n: "2 * length s + 1 \<le> n" for n
  proof -
    obtain k where k: "n = Suc k"
      using n by (cases n) auto
    have "parse_value k s = Some (v, r1)"
      using n k by (intro settledD(2) [OF assms(1) v]) simp
    moreover have "parse_elems k cs = Some x" if "parse_elems m cs = Some x" for x
      using n k l1 l2 that settledD(2) [OF assms(2), of cs "fst x" "snd x" k] by simp
    ultimately show ?thesis
      using ok by (auto simp: parse_elems.simps opt_bind_def k v c split: if_splits)
  qed
  ultimately show "length r < length s \<and> (\<forall>n \<ge> 2 * length s + 1. parse_elems n s = Some (vs, r))"
    by blast
qed

lemma settled_members:
  assumes "\<And>cs. settled 0 parse_value m cs" and "\<And>cs. settled 1 parse_members m cs"
  shows "settled 1 parse_members (Suc m) s"
  unfolding settled_def
proof (intro allI impI)
  fix ps r
  assume ok: "parse_members (Suc m) s = Some (ps, r)"
  then obtain q qs where q: "skip_ws s = q # qs"
    by (cases "skip_ws s") (auto simp: parse_members.simps)
  from ok q obtain key r1 where key: "scan_string qs = Some (key, r1)"
    by (auto simp: parse_members.simps opt_bind_def split: option.splits if_splits)
  from ok q key obtain c cs where c: "skip_ws r1 = c # cs"
    by (cases "skip_ws r1") (auto simp: parse_members.simps opt_bind_def split: if_splits)
  from ok q key c obtain v r2 where v: "parse_value m cs = Some (v, r2)"
    by (auto simp: parse_members.simps opt_bind_def split: option.splits if_splits)
  from ok q key c v obtain d ds where d: "skip_ws r2 = d # ds"
    by (cases "skip_ws r2") (auto simp: parse_members.simps opt_bind_def split: if_splits)
  note parts = q key c v d
  have shorter: "length cs < length s" "length ds < length cs"
    using skip_ws_ConsD [OF q] scan_string_shorter [OF key] skip_ws_ConsD [OF c]
      settledD(1) [OF assms(1) v] skip_ws_ConsD [OF d] by simp_all
  have "length r < length s"
    using ok shorter settledD(1) [OF assms(2), of ds]
    by (auto simp: parse_members.simps opt_bind_def parts split: if_splits)
  moreover have "parse_members n s = Some (ps, r)" if n: "2 * length s + 1 \<le> n" for n
  proof -
    obtain k where k: "n = Suc k"
      using n by (cases n) auto
    have "parse_value k cs = Some (v, r2)"
      using n k shorter by (intro settledD(2) [OF assms(1) v]) simp
    moreover have "parse_members k ds = Some x" if "parse_members m ds = Some x" for x
      using n k shorter that settledD(2) [OF assms(2), of ds "fst x" "snd x" k] by simp
    ultimately show ?thesis
      using ok by (auto simp: parse_members.simps opt_bind_def k parts split: if_splits)
  qed
  ultimately show "length r < length s \<and> (\<forall>n \<ge> 2 * length s + 1. parse_members n s = Some (ps, r))"
    by blast
qed

lemma parse_settled:
  "settled 0 parse_value m s \<and> settled 1 parse_elems m t \<and> settled 1 parse_members m u"
proof (induction m arbitrary: s t u)
  case 0
  then show ?case by (simp add: settled_def)
next
  case (Suc m)
  then show ?case
    by (intro conjI settled_value settled_elems settled_members) blast+
qed

text \<open>The parser of \<open>parse_json\<close> answers whatever it answers with any larger fuel.\<close>

theorem parse_json_fuel:
  "parse_value m s = Some (v, r) \<Longrightarrow> skip_ws r = [] \<Longrightarrow> parse_json s = Some v"
  using settledD(2) [of 0 parse_value m s v r "2 * length s + 2"] parse_settled [of m s]
  by (simp add: parse_json_def)

end
