(* ===== verification/Session_Manifest.thy ===== *)
theory Session_Manifest
  imports Json Js_Strings
begin

text \<open>
  The session manifest of \<open>extensions/session-manager\<close>: the records of \<open>contracts.ts\<close>, the
  strict decoding and the checks of \<open>schema.ts\<close>, the canonical text, and the operations on
  records of \<open>domain.ts\<close>. A decoded manifest is a record, the JSON value it is read from a
  \<open>jsval\<close>. The order of \<open>localeCompare\<close> depends on the host's locale and is a parameter.
\<close>

section \<open>Records (contracts.ts)\<close>

datatype persistence = Pending | Materialized string

datatype close_source = Ctrl_d | Session_done

datatype desired = Open_session | Closed_session string close_source

record base_record =
  sr_sessionId :: string
  sr_cwd :: string
  sr_name :: "string option"
  sr_persistence :: persistence
  sr_createdAt :: string
  sr_lastOpenedAt :: string

record work_record = base_record +
  wr_taskRef :: "string option"
  wr_explicitName :: bool
  wr_desired :: desired

datatype session_record = Coordinator base_record | Work work_record

record manifest =
  mf_canonicalCwd :: string
  mf_revision :: jsnumber
  mf_updatedAt :: string
  mf_coordinator :: "base_record option"
  mf_sessions :: "work_record list"

datatype manifest_error =
    Malformed string
  | Unsupported_version jsval
  | Semantic_failure string

section \<open>Strict decoding (schema.ts)\<close>

text \<open>
  The decoder of a struct rejects excess properties; \<open>field\<close> decodes a required property,
  \<open>opt_field\<close> one that may be missing (\<open>Schema.optionalKey\<close>).
\<close>

definition known_keys :: "string list \<Rightarrow> (string \<times> jsval) list \<Rightarrow> bool" where
  "known_keys ks ps = list_all (\<lambda>p. fst p \<in> set ks) ps"

definition struct :: "string list \<Rightarrow> jsval \<Rightarrow> (string \<times> jsval) list option" where
  "struct ks v = opt_bind (as_object v) (\<lambda>ps. if known_keys ks ps then Some ps else None)"

definition decode_task :: "jsval \<Rightarrow> string option" where
  "decode_task v =
     opt_bind (struct [''provider'', ''reference''] v) (\<lambda>ps.
     opt_bind (field (literal (JStr ''notes'')) ''provider'' ps) (\<lambda>_.
     field as_string ''reference'' ps))"

definition decode_persistence :: "jsval \<Rightarrow> persistence option" where
  "decode_persistence v =
     (case opt_bind (struct [''state''] v) (field (literal (JStr ''pending'')) ''state'') of
        Some _ \<Rightarrow> Some Pending
      | None \<Rightarrow>
          opt_bind (struct [''state'', ''sessionFile''] v) (\<lambda>ps.
          opt_bind (field (literal (JStr ''materialized'')) ''state'' ps) (\<lambda>_.
          map_option Materialized (field as_string ''sessionFile'' ps))))"

definition base_keys :: "string list" where
  "base_keys = [''version'', ''sessionId'', ''cwd'', ''name'', ''persistence'', ''createdAt'', ''lastOpenedAt'', ''role'']"

definition decode_base :: "string \<Rightarrow> (string \<times> jsval) list \<Rightarrow> base_record option" where
  "decode_base role ps =
     opt_bind (field (literal js_one) ''version'' ps) (\<lambda>_.
     opt_bind (field (literal (JStr role)) ''role'' ps) (\<lambda>_.
     opt_bind (field as_string ''sessionId'' ps) (\<lambda>sessionId.
     opt_bind (field as_string ''cwd'' ps) (\<lambda>cwd.
     opt_bind (opt_field as_string ''name'' ps) (\<lambda>name.
     opt_bind (field decode_persistence ''persistence'' ps) (\<lambda>persistence.
     opt_bind (field as_string ''createdAt'' ps) (\<lambda>createdAt.
     opt_bind (field as_string ''lastOpenedAt'' ps) (\<lambda>lastOpenedAt.
     Some \<lparr>sr_sessionId = sessionId, sr_cwd = cwd, sr_name = name, sr_persistence = persistence,
       sr_createdAt = createdAt, sr_lastOpenedAt = lastOpenedAt\<rparr>))))))))"

definition decode_coordinator :: "jsval \<Rightarrow> base_record option" where
  "decode_coordinator v = opt_bind (struct base_keys v) (decode_base ''coordinator'')"

definition decode_source :: "jsval \<Rightarrow> close_source option" where
  "decode_source v = (if v = JStr ''ctrl-d'' then Some Ctrl_d else if v = JStr ''session-done'' then Some Session_done else None)"

definition decode_desired :: "(string \<times> jsval) list \<Rightarrow> desired option" where
  "decode_desired ps =
     (if field as_string ''desiredState'' ps = Some ''open'' \<and> map_of ps ''closedAt'' = None \<and> map_of ps ''closedBy'' = None
      then Some Open_session
      else
        opt_bind (field (literal (JStr ''closed'')) ''desiredState'' ps) (\<lambda>_.
        opt_bind (field as_string ''closedAt'' ps) (\<lambda>closedAt.
        opt_bind (field decode_source ''closedBy'' ps) (\<lambda>closedBy.
        Some (Closed_session closedAt closedBy)))))"

definition decode_work :: "jsval \<Rightarrow> work_record option" where
  "decode_work v =
     opt_bind (struct (base_keys @ [''taskRef'', ''explicitName'', ''desiredState'', ''closedAt'', ''closedBy'']) v) (\<lambda>ps.
     opt_bind (decode_base ''work'' ps) (\<lambda>b.
     opt_bind (opt_field decode_task ''taskRef'' ps) (\<lambda>taskRef.
     opt_bind (opt_field (literal (JBool True)) ''explicitName'' ps) (\<lambda>explicitName.
     opt_bind (decode_desired ps) (\<lambda>desired.
     Some (base_record.extend b \<lparr>wr_taskRef = taskRef, wr_explicitName = (explicitName \<noteq> None), wr_desired = desired\<rparr>))))))"

definition decode_sessions :: "jsval \<Rightarrow> work_record list option" where
  "decode_sessions v = (case v of JArr vs \<Rightarrow> all_some (map decode_work vs) | _ \<Rightarrow> None)"

definition decode_shape :: "jsval \<Rightarrow> manifest option" where
  "decode_shape v =
     opt_bind (struct [''version'', ''canonicalCwd'', ''revision'', ''updatedAt'', ''coordinator'', ''sessions''] v) (\<lambda>ps.
     opt_bind (field (literal js_one) ''version'' ps) (\<lambda>_.
     opt_bind (field as_string ''canonicalCwd'' ps) (\<lambda>cwd.
     opt_bind (field as_number ''revision'' ps) (\<lambda>revision.
     opt_bind (field as_string ''updatedAt'' ps) (\<lambda>updatedAt.
     opt_bind (opt_field decode_coordinator ''coordinator'' ps) (\<lambda>coordinator.
     opt_bind (field decode_sessions ''sessions'' ps) (\<lambda>sessions.
     Some \<lparr>mf_canonicalCwd = cwd, mf_revision = revision, mf_updatedAt = updatedAt,
       mf_coordinator = coordinator, mf_sessions = sessions\<rparr>)))))))"

definition decodeManifest :: "jsval \<Rightarrow> manifest_error + manifest" where
  "decodeManifest v =
     (case (case v of JObj ps \<Rightarrow> map_of ps ''version'' | _ \<Rightarrow> None) of
        Some w \<Rightarrow> if w \<noteq> js_one then Inl (Unsupported_version w)
                   else (case decode_shape v of None \<Rightarrow> Inl (Malformed ''shape'') | Some m \<Rightarrow> Inr m)
      | None \<Rightarrow> (case decode_shape v of None \<Rightarrow> Inl (Malformed ''shape'') | Some m \<Rightarrow> Inr m))"

section \<open>The checks (schema.ts)\<close>

text \<open>
  \<open>timestamp\<close>: the format of \<open>toISOString\<close>, and fields that denote an existing instant, which
  is when parsing and printing gives the same text again.
\<close>

definition digits_at :: "string \<Rightarrow> nat \<Rightarrow> nat \<Rightarrow> int option" where
  "digits_at s i n = (let ds = take n (drop i s) in
     if length ds = n \<and> list_all is_digit ds then Some (digits_value ds) else None)"

definition days_in_month :: "int \<Rightarrow> int \<Rightarrow> int" where
  "days_in_month y m =
     (if m = 2 then (if y mod 4 = 0 \<and> (y mod 100 \<noteq> 0 \<or> y mod 400 = 0) then 29 else 28)
      else if m \<in> {4, 6, 9, 11} then 30 else 31)"

definition separators_ok :: "string \<Rightarrow> bool" where
  "separators_ok s = (length s = 24 \<and> s ! 4 = CHR ''-'' \<and> s ! 7 = CHR ''-'' \<and> s ! 10 = CHR ''T'' \<and>
     s ! 13 = CHR '':'' \<and> s ! 16 = CHR '':'' \<and> s ! 19 = CHR ''.'' \<and> s ! 23 = CHR ''Z'')"

definition timestamp_fields :: "string \<Rightarrow> int list option" where
  "timestamp_fields s =
     (if separators_ok s
      then all_some [digits_at s 0 4, digits_at s 5 2, digits_at s 8 2, digits_at s 11 2, digits_at s 14 2,
             digits_at s 17 2, digits_at s 20 3]
      else None)"

definition timestamp :: "string \<Rightarrow> bool" where
  "timestamp s =
     (case timestamp_fields s of
        Some [y, mo, d, h, mi, se, ms] \<Rightarrow>
          1 \<le> mo \<and> mo \<le> 12 \<and> 1 \<le> d \<and> d \<le> days_in_month y mo \<and> h \<le> 23 \<and> mi \<le> 59 \<and> se \<le> 59
      | _ \<Rightarrow> False)"

text \<open>\<open>Date.parse\<close> of such a text, in milliseconds since 1970.\<close>

definition days_from_civil :: "int \<Rightarrow> int \<Rightarrow> int \<Rightarrow> int" where
  "days_from_civil y m d =
     (let y' = (if m \<le> 2 then y - 1 else y);
          era = y' div 400;
          yoe = y' - era * 400;
          doy = (153 * (if m > 2 then m - 3 else m + 9) + 2) div 5 + d - 1;
          doe = yoe * 365 + yoe div 4 - yoe div 100 + doy in
      era * 146097 + doe - 719468)"

definition date_parse :: "string \<Rightarrow> int" where
  "date_parse s =
     (case timestamp_fields s of
        Some [y, mo, d, h, mi, se, ms] \<Rightarrow>
          (((days_from_civil y mo d * 24 + h) * 60 + mi) * 60 + se) * 1000 + ms
      | _ \<Rightarrow> 0)"

definition isAbsolute :: "string \<Rightarrow> bool" where
  "isAbsolute p = (take 1 p = ''/'')"

definition has_nul :: "string \<Rightarrow> bool" where
  "has_nul s = list_ex (\<lambda>c. (of_char c :: nat) = 0) s"

text \<open>\<open>semantic\<close> throws; a check returns the first reason or \<open>None\<close>.\<close>

type_synonym check = "string option"

definition and_then :: "check \<Rightarrow> check \<Rightarrow> check" where
  "and_then a b = (case a of Some e \<Rightarrow> Some e | None \<Rightarrow> b)"

definition semantic :: "bool \<Rightarrow> string \<Rightarrow> check" where
  "semantic bad reason = (if bad then Some reason else None)"

definition validateMetadata :: "manifest \<Rightarrow> check" where
  "validateMetadata m =
     and_then (semantic (\<not> isAbsolute (mf_canonicalCwd m) \<or> has_nul (mf_canonicalCwd m)) ''invalid canonical cwd'')
    (and_then (semantic (\<not> isSafeInteger (mf_revision m) \<or> js_int (mf_revision m) < 0) ''invalid revision'')
       (semantic (\<not> timestamp (mf_updatedAt m)) ''invalid updated timestamp''))"

text \<open>Control and format characters among the first 256 code points.\<close>

definition control_or_format :: "char \<Rightarrow> bool" where
  "control_or_format c = (let n = (of_char c :: nat) in n < 32 \<or> (127 \<le> n \<and> n \<le> 159) \<or> n = 173)"

fun base_of :: "session_record \<Rightarrow> base_record" where
  "base_of (Coordinator b) = b"
| "base_of (Work w) = base_record.truncate w"

fun validRecordName :: "session_record \<Rightarrow> bool" where
  "validRecordName r =
     (if (case r of Work w \<Rightarrow> wr_explicitName w \<and> sr_name w = None | Coordinator _ \<Rightarrow> False) then False
      else (case sr_name (base_of r) of
              None \<Rightarrow> True
            | Some n \<Rightarrow> trim_string n \<noteq> '''' \<and> byte_length n \<le> 128 \<and> \<not> list_ex control_or_format n))"

declare validRecordName.simps [simp del]

definition validateRecordBase :: "session_record \<Rightarrow> string \<Rightarrow> check" where
  "validateRecordBase r canonicalCwd =
     (let b = base_of r;
          validIdentity = (1 \<le> byte_length (sr_sessionId b) \<and> byte_length (sr_sessionId b) \<le> 256 \<and>
            \<not> list_ex (\<lambda>c. (of_char c :: nat) \<in> {0, 10, 13}) (sr_sessionId b));
          validTimes = (timestamp (sr_createdAt b) \<and> timestamp (sr_lastOpenedAt b) \<and> sr_createdAt b \<le> sr_lastOpenedAt b) in
      semantic (\<not> validIdentity \<or> sr_cwd b \<noteq> canonicalCwd \<or> \<not> validRecordName r \<or> \<not> validTimes) ''invalid record fields'')"

definition validateRecordDetails :: "session_record \<Rightarrow> check" where
  "validateRecordDetails r =
     and_then (semantic (case sr_persistence (base_of r) of
          Materialized f \<Rightarrow> \<not> isAbsolute f \<or> has_nul f | Pending \<Rightarrow> False) ''invalid session file'')
    (case r of Coordinator _ \<Rightarrow> None | Work w \<Rightarrow>
     and_then (semantic (case wr_taskRef w of
          Some t \<Rightarrow> byte_length t < 1 \<or> byte_length t > 2048 | None \<Rightarrow> False) ''invalid task reference'')
       (semantic (case wr_desired w of
          Closed_session closedAt _ \<Rightarrow> \<not> timestamp closedAt \<or> closedAt < sr_createdAt w \<or> closedAt < sr_lastOpenedAt w
        | Open_session \<Rightarrow> False) ''invalid closure''))"

definition validateUpdatedAt :: "session_record \<Rightarrow> string \<Rightarrow> check" where
  "validateUpdatedAt r updatedAt =
     (let latest = (case r of
            Work w \<Rightarrow> (case wr_desired w of Closed_session closedAt _ \<Rightarrow> closedAt | Open_session \<Rightarrow> sr_lastOpenedAt w)
          | Coordinator b \<Rightarrow> sr_lastOpenedAt b) in
      semantic (updatedAt < latest) ''updatedAt predates record'')"

definition validateSessionOrder :: "work_record option \<Rightarrow> work_record \<Rightarrow> check" where
  "validateSessionOrder previous current =
     (case previous of
        None \<Rightarrow> None
      | Some p \<Rightarrow> semantic (sr_createdAt current < sr_createdAt p \<or>
          (sr_createdAt current = sr_createdAt p \<and> sr_sessionId current < sr_sessionId p)) ''sessions not ordered'')"

definition duplicate_id :: "string \<Rightarrow> string list \<Rightarrow> check" where
  "duplicate_id i ids = semantic (i \<in> set ids) ''duplicate session id''"

fun validate_sessions :: "manifest \<Rightarrow> string list \<Rightarrow> work_record option \<Rightarrow> work_record list \<Rightarrow> check" where
  "validate_sessions m ids previous [] = None"
| "validate_sessions m ids previous (w # ws) =
     and_then (validateRecordBase (Work w) (mf_canonicalCwd m))
    (and_then (validateRecordDetails (Work w))
    (and_then (duplicate_id (sr_sessionId w) ids)
    (and_then (validateSessionOrder previous w)
    (and_then (validateUpdatedAt (Work w) (mf_updatedAt m))
       (validate_sessions m (sr_sessionId w # ids) (Some w) ws)))))"

definition validate_coordinator :: "manifest \<Rightarrow> check" where
  "validate_coordinator m =
     (case mf_coordinator m of
        None \<Rightarrow> None
      | Some c \<Rightarrow>
          and_then (validateRecordBase (Coordinator c) (mf_canonicalCwd m))
         (and_then (validateRecordDetails (Coordinator c))
            (validateUpdatedAt (Coordinator c) (mf_updatedAt m))))"

definition coordinator_ids :: "manifest \<Rightarrow> string list" where
  "coordinator_ids m = (case mf_coordinator m of None \<Rightarrow> [] | Some c \<Rightarrow> [sr_sessionId c])"

definition validate_checks :: "manifest \<Rightarrow> check" where
  "validate_checks m =
     and_then (validateMetadata m)
    (and_then (validate_coordinator m) (validate_sessions m (coordinator_ids m) None (mf_sessions m)))"

definition validateManifest :: "jsval \<Rightarrow> manifest_error + manifest" where
  "validateManifest v =
     (case decodeManifest v of
        Inl e \<Rightarrow> Inl e
      | Inr m \<Rightarrow> (case validate_checks m of Some reason \<Rightarrow> Inl (Semantic_failure reason) | None \<Rightarrow> Inr m))"

text \<open>\<open>canonicalJson\<close>: properties sorted by name. How numbers are printed is left open.\<close>

fun canonicalJson :: "(jsnumber \<Rightarrow> string) \<Rightarrow> jsval \<Rightarrow> string" where
  "canonicalJson num (JArr vs) = ''['' @ join_commas (map (canonicalJson num) vs) @ '']''"
| "canonicalJson num (JObj ps) =
     ''{'' @ join_commas (map (\<lambda>(k, t). json_string k @ '':'' @ t)
       (sort_key fst (map (\<lambda>(k, v). (k, canonicalJson num v)) ps))) @ ''}''"
| "canonicalJson num JNull = ''null''"
| "canonicalJson num JUndefined = ''undefined''"
| "canonicalJson num (JBool b) = (if b then ''true'' else ''false'')"
| "canonicalJson num (JNum n) = num n"
| "canonicalJson num (JStr s) = json_string s"

definition gc_days_ms :: int where
  "gc_days_ms = 30 * 24 * 60 * 60 * 1000"

definition gcTombstones :: "manifest \<Rightarrow> int \<Rightarrow> manifest" where
  "gcTombstones m now =
     m\<lparr>mf_sessions := filter (\<lambda>w. case wr_desired w of
          Closed_session closedAt _ \<Rightarrow> date_parse closedAt \<ge> now - gc_days_ms | Open_session \<Rightarrow> True) (mf_sessions m)\<rparr>"

section \<open>Records (domain.ts)\<close>

definition findRecord :: "manifest \<Rightarrow> string \<Rightarrow> session_record option" where
  "findRecord m i =
     (if map_option sr_sessionId (mf_coordinator m) = Some i then map_option Coordinator (mf_coordinator m)
      else map_option Work (List.find (\<lambda>w. sr_sessionId w = i) (mf_sessions m)))"

definition by_creation :: "(string \<Rightarrow> string \<Rightarrow> int) \<Rightarrow> work_record \<Rightarrow> work_record \<Rightarrow> int" where
  "by_creation localeCompare l r =
     (let c = localeCompare (sr_createdAt l) (sr_createdAt r) in
      if c \<noteq> 0 then c else localeCompare (sr_sessionId l) (sr_sessionId r))"

definition replaceWorkRecord :: "(string \<Rightarrow> string \<Rightarrow> int) \<Rightarrow> manifest \<Rightarrow> work_record \<Rightarrow> manifest" where
  "replaceWorkRecord localeCompare m w =
     m\<lparr>mf_sessions := js_sort (by_creation localeCompare)
         (filter (\<lambda>c. sr_sessionId c \<noteq> sr_sessionId w) (mf_sessions m) @ [w])\<rparr>"

section \<open>The JSON value of a manifest\<close>

definition opt_prop :: "string \<Rightarrow> jsval option \<Rightarrow> (string \<times> jsval) list" where
  "opt_prop k v = (case v of None \<Rightarrow> [] | Some x \<Rightarrow> [(k, x)])"

definition json_persistence :: "persistence \<Rightarrow> jsval" where
  "json_persistence p =
     (case p of
        Pending \<Rightarrow> JObj [(''state'', JStr ''pending'')]
      | Materialized f \<Rightarrow> JObj [(''state'', JStr ''materialized''), (''sessionFile'', JStr f)])"

definition json_base :: "string \<Rightarrow> base_record \<Rightarrow> (string \<times> jsval) list" where
  "json_base role b =
     [(''version'', js_one), (''sessionId'', JStr (sr_sessionId b)), (''cwd'', JStr (sr_cwd b)),
      (''persistence'', json_persistence (sr_persistence b)), (''createdAt'', JStr (sr_createdAt b)),
      (''lastOpenedAt'', JStr (sr_lastOpenedAt b)), (''role'', JStr role)] @
     opt_prop ''name'' (map_option JStr (sr_name b))"

definition json_source :: "close_source \<Rightarrow> jsval" where
  "json_source s = (case s of Ctrl_d \<Rightarrow> JStr ''ctrl-d'' | Session_done \<Rightarrow> JStr ''session-done'')"

definition json_desired :: "desired \<Rightarrow> (string \<times> jsval) list" where
  "json_desired d =
     (case d of
        Open_session \<Rightarrow> [(''desiredState'', JStr ''open'')]
      | Closed_session closedAt by_whom \<Rightarrow>
          [(''desiredState'', JStr ''closed''), (''closedAt'', JStr closedAt), (''closedBy'', json_source by_whom)])"

definition json_task :: "string \<Rightarrow> jsval" where
  "json_task t = JObj [(''provider'', JStr ''notes''), (''reference'', JStr t)]"

definition json_work :: "work_record \<Rightarrow> jsval" where
  "json_work w = JObj (json_base ''work'' (base_record.truncate w) @ json_desired (wr_desired w) @
     opt_prop ''taskRef'' (map_option json_task (wr_taskRef w)) @
     opt_prop ''explicitName'' (if wr_explicitName w then Some (JBool True) else None))"

definition json_manifest :: "manifest \<Rightarrow> jsval" where
  "json_manifest m = JObj
     ([(''version'', js_one), (''canonicalCwd'', JStr (mf_canonicalCwd m)), (''revision'', JNum (mf_revision m)),
       (''updatedAt'', JStr (mf_updatedAt m)), (''sessions'', JArr (map json_work (mf_sessions m)))] @
      opt_prop ''coordinator'' (map_option (\<lambda>c. JObj (json_base ''coordinator'' c)) (mf_coordinator m)))"

lemmas decode_defs = field_def opt_field_def as_string_def as_number_def literal_def as_object_def struct_def
  known_keys_def opt_bind_def opt_prop_def

lemma decode_persistence_json [simp]: "decode_persistence (json_persistence p) = Some p"
  by (cases p) (simp_all add: decode_persistence_def json_persistence_def decode_defs)

lemma decode_source_json [simp]: "decode_source (json_source s) = Some s"
  by (cases s) (simp_all add: decode_source_def json_source_def)

lemma decode_task_json [simp]: "decode_task (json_task t) = Some t"
  by (simp add: decode_task_def json_task_def decode_defs)

text \<open>Appending properties under other names does not disturb the base record.\<close>

lemma decode_base_json:
  assumes "map_of more_props ''name'' = None"
  shows "decode_base role (json_base role b @ more_props) = Some b"
proof (cases "sr_name b")
  case None
  then show ?thesis
    using assms by (simp add: decode_base_def json_base_def decode_defs)
next
  case (Some n)
  then show ?thesis
    by (simp add: decode_base_def json_base_def decode_defs)
qed

lemma json_base_keys: "k \<notin> set base_keys \<Longrightarrow> map_of (json_base role b @ ps) k = map_of ps k"
  by (auto simp: json_base_def base_keys_def opt_prop_def split: option.split)

lemma known_json_base: "known_keys (base_keys @ ks) (json_base role b)"
  by (simp add: known_keys_def json_base_def base_keys_def opt_prop_def split: option.split)

lemma known_append: "known_keys ks (ps @ qs) \<longleftrightarrow> known_keys ks ps \<and> known_keys ks qs"
  by (simp add: known_keys_def)

lemma decode_coordinator_json: "decode_coordinator (JObj (json_base ''coordinator'' c)) = Some c"
  using decode_base_json [of "[]" "''coordinator''" c] known_json_base [of "[]" "''coordinator''" c]
  by (simp add: decode_coordinator_def struct_def as_object_def opt_bind_def)

lemma extend_truncate:
  "base_record.extend (base_record.truncate w) \<lparr>wr_taskRef = wr_taskRef w, wr_explicitName = wr_explicitName w,
     wr_desired = wr_desired w\<rparr> = (w :: work_record)"
  by (simp add: base_record.defs)

lemma decode_work_json [simp]: "decode_work (json_work w) = Some w"
proof -
  let ?task = "opt_prop ''taskRef'' (map_option json_task (wr_taskRef w))"
  let ?name = "opt_prop ''explicitName'' (if wr_explicitName w then Some (JBool True) else None)"
  let ?rest = "json_desired (wr_desired w) @ ?task @ ?name"
  define ps where "ps = json_base ''work'' (base_record.truncate w) @ ?rest"
  have known: "known_keys (base_keys @ [''taskRef'', ''explicitName'', ''desiredState'', ''closedAt'', ''closedBy'']) ps"
    unfolding known_append ps_def
    by (simp add: known_json_base) (simp add: known_keys_def json_desired_def opt_prop_def split: desired.split option.split)
  have base: "decode_base ''work'' ps = Some (base_record.truncate w)"
    unfolding ps_def
    by (rule decode_base_json) (simp add: json_desired_def opt_prop_def split: desired.split option.split)
  have rest: "map_of ps k = map_of ?rest k" if "k \<notin> set base_keys" for k
    unfolding ps_def by (rule json_base_keys [OF that])
  have props: "map_of ps ''taskRef'' = map_option json_task (wr_taskRef w)"
    "map_of ps ''explicitName'' = (if wr_explicitName w then Some (JBool True) else None)"
    "k \<in> {''desiredState'', ''closedAt'', ''closedBy''} \<Longrightarrow> map_of ps k = map_of (json_desired (wr_desired w)) k" for k
    by (subst rest; auto simp: base_keys_def json_desired_def opt_prop_def split: desired.split option.split)+
  have desired: "decode_desired ps = Some (wr_desired w)"
    by (cases "wr_desired w") (simp_all add: decode_desired_def field_def props json_desired_def opt_bind_def
        as_string_def literal_def)
  have task: "opt_field decode_task ''taskRef'' ps = Some (wr_taskRef w)"
    by (cases "wr_taskRef w") (simp_all add: opt_field_def props)
  have name: "opt_field (literal (JBool True)) ''explicitName'' ps = Some (if wr_explicitName w then Some () else None)"
    by (simp add: opt_field_def props literal_def)
  have "json_work w = JObj ps"
    by (simp add: json_work_def ps_def)
  then show ?thesis
    unfolding decode_work_def
    using known extend_truncate [of w]
    by (cases "wr_explicitName w") (simp_all add: struct_def as_object_def opt_bind_def base task name desired)
qed

lemma decode_shape_json: "decode_shape (json_manifest m) = Some m"
proof -
  have "all_some (map (decode_work \<circ> json_work) (mf_sessions m)) = Some (mf_sessions m)"
    using all_some_map [of "mf_sessions m" "decode_work \<circ> json_work" id] by simp
  then show ?thesis
    by (cases "mf_coordinator m")
      (simp_all add: decode_shape_def json_manifest_def decode_defs decode_sessions_def decode_coordinator_json)
qed

lemma decodeManifest_json: "decodeManifest (json_manifest m) = Inr m"
proof -
  have "(case json_manifest m of JObj ps \<Rightarrow> map_of ps ''version'' | _ \<Rightarrow> None) = Some js_one"
    by (simp add: json_manifest_def)
  then show ?thesis
    by (simp add: decodeManifest_def decode_shape_json)
qed

section \<open>What the checks demand\<close>

lemma and_then_None [simp]: "and_then a b = None \<longleftrightarrow> a = None \<and> b = None"
  by (simp add: and_then_def split: option.split)

lemma semantic_None [simp]: "semantic bad reason = None \<longleftrightarrow> \<not> bad"
  by (simp add: semantic_def)

text \<open>
  The same demands stated without the checks. A time is a text that \<open>toISOString\<close> prints for an instant
  of the years 0 to 9999.
\<close>

fun padded :: "nat \<Rightarrow> nat \<Rightarrow> string" where
  "padded 0 k = ''''"
| "padded (Suc n) k = padded n (k div 10) @ [char_of (48 + k mod 10)]"

definition iso_text :: "nat \<Rightarrow> nat \<Rightarrow> nat \<Rightarrow> nat \<Rightarrow> nat \<Rightarrow> nat \<Rightarrow> nat \<Rightarrow> string" where
  "iso_text y mo d h mi se ms =
     padded 4 y @ ''-'' @ padded 2 mo @ ''-'' @ padded 2 d @ ''T'' @ padded 2 h @ '':'' @ padded 2 mi @ '':'' @
     padded 2 se @ ''.'' @ padded 3 ms @ ''Z''"

definition leap_year :: "nat \<Rightarrow> bool" where
  "leap_year y \<longleftrightarrow> 4 dvd y \<and> \<not> 100 dvd y \<or> 400 dvd y"

definition existing_day :: "nat \<Rightarrow> nat \<Rightarrow> nat \<Rightarrow> bool" where
  "existing_day y mo d \<longleftrightarrow> 1 \<le> d \<and>
     (mo \<in> {1, 3, 5, 7, 8, 10, 12} \<and> d \<le> 31 \<or> mo \<in> {4, 6, 9, 11} \<and> d \<le> 30 \<or>
      mo = 2 \<and> (d \<le> 28 \<or> leap_year y \<and> d = 29))"

definition instant_text :: "string \<Rightarrow> bool" where
  "instant_text s \<longleftrightarrow>
     (\<exists>y mo d h mi se ms. s = iso_text y mo d h mi se ms \<and> y < 10000 \<and> existing_day y mo d \<and>
        h < 24 \<and> mi < 60 \<and> se < 60 \<and> ms < 1000)"

definition absolute_text :: "string \<Rightarrow> bool" where
  "absolute_text p \<longleftrightarrow> (\<exists>q. p = CHR ''/'' # q) \<and> CHR 0x00 \<notin> set p"

definition name_ok :: "string \<Rightarrow> bool" where
  "name_ok n \<longleftrightarrow> (\<exists>c\<in>set n. \<not> is_js_space c) \<and> byte_length n \<le> 128 \<and>
     (\<forall>c\<in>set n. let k = (of_char c :: nat) in 32 \<le> k \<and> (k < 127 \<or> 159 < k) \<and> k \<noteq> 173)"

definition metadata_ok :: "manifest \<Rightarrow> bool" where
  "metadata_ok m \<longleftrightarrow> absolute_text (mf_canonicalCwd m) \<and>
     (\<exists>n :: nat. mf_revision m = Finite (of_nat n) \<and> n < 2 ^ 53) \<and> instant_text (mf_updatedAt m)"

text \<open>What is asked of every record, and of the record of a session besides.\<close>

definition base_ok :: "manifest \<Rightarrow> base_record \<Rightarrow> bool" where
  "base_ok m b \<longleftrightarrow>
     sr_sessionId b \<noteq> '''' \<and> byte_length (sr_sessionId b) \<le> 256 \<and>
     set (sr_sessionId b) \<inter> {CHR 0x00, CHR 0x0A, CHR 0x0D} = {} \<and>
     sr_cwd b = mf_canonicalCwd m \<and> (\<forall>n. sr_name b = Some n \<longrightarrow> name_ok n) \<and>
     (\<forall>f. sr_persistence b = Materialized f \<longrightarrow> absolute_text f) \<and>
     instant_text (sr_createdAt b) \<and> instant_text (sr_lastOpenedAt b) \<and>
     sr_createdAt b \<le> sr_lastOpenedAt b \<and> sr_lastOpenedAt b \<le> mf_updatedAt m"

definition work_ok :: "manifest \<Rightarrow> work_record \<Rightarrow> bool" where
  "work_ok m w \<longleftrightarrow>
     (wr_explicitName w \<longrightarrow> sr_name w \<noteq> None) \<and>
     (\<forall>t. wr_taskRef w = Some t \<longrightarrow> t \<noteq> '''' \<and> byte_length t \<le> 2048) \<and>
     (\<forall>closed source. wr_desired w = Closed_session closed source \<longrightarrow>
        instant_text closed \<and> sr_createdAt w \<le> closed \<and> sr_lastOpenedAt w \<le> closed \<and> closed \<le> mf_updatedAt m)"

definition record_ok :: "manifest \<Rightarrow> session_record \<Rightarrow> bool" where
  "record_ok m r \<longleftrightarrow> base_ok m (base_of r) \<and> (\<forall>w. r = Work w \<longrightarrow> work_ok m w)"

lemma padded_digits: "length (padded n k) = n \<and> list_all is_digit (padded n k) \<and>
    (k < 10 ^ n \<longrightarrow> digits_value (padded n k) = int k)"
proof (induction n arbitrary: k)
  case 0
  then show ?case
    by (simp add: digits_value_def)
next
  case (Suc n)
  have "k mod 10 < 10"
    by simp
  then have digit: "of_char (char_of (48 + k mod 10) :: char) = (48 + k mod 10 :: nat)"
    by (simp add: of_char_of)
  then have int_digit: "of_char (char_of (48 + k mod 10) :: char) = (48 + int (k mod 10))"
    using int_of_char [of "char_of (48 + k mod 10)"] by (simp del: of_nat_of_char)
  have "int k = int (k div 10) * 10 + int (k mod 10)"
    by presburger
  moreover have "k < 10 ^ Suc n \<Longrightarrow> k div 10 < 10 ^ n"
    by (simp add: less_mult_imp_div_less mult.commute)
  ultimately show ?case
    using Suc [of "k div 10"] digit int_digit by (simp add: digits_value_snoc is_digit_def del: of_nat_of_char)
qed

lemma digits_padded:
  "list_all is_digit ds \<Longrightarrow> \<exists>k. digits_value ds = int k \<and> k < 10 ^ length ds \<and> ds = padded (length ds) k"
proof (induction ds rule: rev_induct)
  case Nil
  then show ?case
    by (simp add: digits_value_def)
next
  case (snoc c ds)
  then obtain k where k: "digits_value ds = int k" "k < 10 ^ length ds" "ds = padded (length ds) k"
    by auto
  obtain j where j: "of_char c = (48 + j :: nat)" "j < 10"
    using snoc.prems by (auto simp: is_digit_def) (metis le_add_diff_inverse less_Suc_eq_le add_less_cancel_left eval_nat_numeral(3) numeral_plus_numeral le_imp_less_Suc add_le_cancel_left)
  have c: "c = char_of (48 + j)"
    using j(1) by (metis char_of_char)
  have "of_char c = 48 + int j"
    by (metis j(1) of_nat_add of_nat_numeral of_nat_of_char)
  then have "digits_value (ds @ [c]) = int (k * 10 + j)"
    using k(1) by (simp add: digits_value_snoc)
  moreover have "k * 10 + j < 10 ^ length (ds @ [c])"
    using k(2) j(2) by simp
  moreover have "ds @ [c] = padded (length (ds @ [c])) (k * 10 + j)"
    using k(3) j(2) c by simp
  ultimately show ?case
    by blast
qed

lemma digits_at_part:
  "length a = i \<Longrightarrow> k < 10 ^ n \<Longrightarrow> digits_at (a @ padded n k @ b) i n = Some (int k)"
  using padded_digits [of n k] by (simp add: digits_at_def)

lemma digits_at_Some: "digits_at s i n = Some v \<Longrightarrow> \<exists>k. v = int k \<and> k < 10 ^ n \<and> take n (drop i s) = padded n k"
  using digits_padded [of "take n (drop i s)"] by (auto simp: digits_at_def Let_def split: if_splits)

lemma days_existing: "1 \<le> d \<Longrightarrow>
    existing_day y mo d \<longleftrightarrow> 1 \<le> mo \<and> mo \<le> 12 \<and> int d \<le> days_in_month (int y) (int mo)"
proof -
  assume "1 \<le> d"
  have leap: "(int y mod 4 = 0 \<and> (int y mod 100 \<noteq> 0 \<or> int y mod 400 = 0)) \<longleftrightarrow> leap_year y"
  proof -
    have "int y mod int n = 0 \<longleftrightarrow> n dvd y" for n
      by (metis mod_eq_0_iff_dvd of_nat_eq_0_iff of_nat_mod)
    from this [of 4] this [of 100] this [of 400] show ?thesis
      by (auto simp: leap_year_def)
  qed
  have "mo \<in> {1, 2, 3, 4, 5, 6, 7, 8, 9, 10, 11, 12} \<longleftrightarrow> 1 \<le> mo \<and> mo \<le> 12"
    by simp presburger
  moreover have "existing_day y mo d \<longleftrightarrow> mo \<in> {1, 2, 3, 4, 5, 6, 7, 8, 9, 10, 11, 12} \<and> int d \<le> days_in_month (int y) (int mo)"
    using \<open>1 \<le> d\<close> unfolding existing_day_def days_in_month_def leap by auto
  ultimately show ?thesis
    by blast
qed

lemma timestamp_iff: "timestamp s \<longleftrightarrow> instant_text s"
proof
  assume t: "timestamp s"
  then obtain y mo d h mi se ms where f: "timestamp_fields s = Some [y, mo, d, h, mi, se, ms]"
    and ok: "1 \<le> mo" "mo \<le> 12" "1 \<le> d" "d \<le> days_in_month y mo" "h \<le> 23" "mi \<le> 59" "se \<le> 59"
    by (auto simp: timestamp_def split: option.splits list.splits)
  have sep: "separators_ok s"
    and at: "digits_at s 0 4 = Some y" "digits_at s 5 2 = Some mo" "digits_at s 8 2 = Some d" "digits_at s 11 2 = Some h"
      "digits_at s 14 2 = Some mi" "digits_at s 17 2 = Some se" "digits_at s 20 3 = Some ms"
    using f by (auto simp: timestamp_fields_def opt_bind_def split: if_splits option.splits)
  obtain ky where y: "y = int ky" "ky < 10 ^ 4" "take 4 (drop 0 s) = padded 4 ky"
    using digits_at_Some [OF at(1)] by blast
  obtain kmo where mo: "mo = int kmo" "kmo < 10 ^ 2" "take 2 (drop 5 s) = padded 2 kmo"
    using digits_at_Some [OF at(2)] by blast
  obtain kd where d: "d = int kd" "kd < 10 ^ 2" "take 2 (drop 8 s) = padded 2 kd"
    using digits_at_Some [OF at(3)] by blast
  obtain kh where h: "h = int kh" "kh < 10 ^ 2" "take 2 (drop 11 s) = padded 2 kh"
    using digits_at_Some [OF at(4)] by blast
  obtain kmi where mi: "mi = int kmi" "kmi < 10 ^ 2" "take 2 (drop 14 s) = padded 2 kmi"
    using digits_at_Some [OF at(5)] by blast
  obtain kse where se: "se = int kse" "kse < 10 ^ 2" "take 2 (drop 17 s) = padded 2 kse"
    using digits_at_Some [OF at(6)] by blast
  obtain kms where ms: "ms = int kms" "kms < 10 ^ 3" "take 3 (drop 20 s) = padded 3 kms"
    using digits_at_Some [OF at(7)] by blast
  note k = y(1) mo(1) d(1) h(1) mi(1) se(1) ms(1) and slices = y(3) mo(3) d(3) h(3) mi(3) se(3) ms(3)
  have len: "length s = 24"
    using sep by (simp add: separators_ok_def)
  have one: "drop i s = (s ! i) # drop (Suc i) s" if "i < 24" for i
    using that len by (simp add: Cons_nth_drop_Suc)
  have cut: "drop i s = take n (drop i s) @ drop (i + n) s" for i n
    by (metis append_take_drop_id drop_drop add.commute)
  have "s = take 4 (drop 0 s) @ s ! 4 # take 2 (drop 5 s) @ s ! 7 # take 2 (drop 8 s) @ s ! 10 # take 2 (drop 11 s) @
      s ! 13 # take 2 (drop 14 s) @ s ! 16 # take 2 (drop 17 s) @ s ! 19 # take 3 (drop 20 s) @ s ! 23 # drop 24 s"
    using cut [of 0 4] one [of 4] cut [of 5 2] one [of 7] cut [of 8 2] one [of 10] cut [of 11 2] one [of 13] cut [of 14 2]
      one [of 16] cut [of 17 2] one [of 19] cut [of 20 3] one [of 23] by simp
  then have "s = iso_text ky kmo kd kh kmi kse kms"
    using sep len unfolding iso_text_def slices separators_ok_def by simp
  moreover have "existing_day ky kmo kd"
    using ok k days_existing [of kd ky kmo] by simp
  ultimately show "instant_text s"
    unfolding instant_text_def using y(2) ms(2) ok(5-7) k by (intro exI conjI) (assumption, simp_all)
next
  assume "instant_text s"
  then obtain y mo d h mi se ms where s: "s = iso_text y mo d h mi se ms"
    and ok: "y < 10000" "existing_day y mo d" "h < 24" "mi < 60" "se < 60" "ms < 1000"
    unfolding instant_text_def by blast
  have day: "1 \<le> d" "d < 10 ^ 2" "mo < 10 ^ 2"
    using ok(2) by (auto simp: existing_day_def)
  have len [simp]: "length (padded n k) = n" for n k
    using padded_digits by blast
  have at: "digits_at s 0 4 = Some (int y)" "digits_at s 5 2 = Some (int mo)" "digits_at s 8 2 = Some (int d)"
    "digits_at s 11 2 = Some (int h)" "digits_at s 14 2 = Some (int mi)" "digits_at s 17 2 = Some (int se)"
    "digits_at s 20 3 = Some (int ms)"
    using digits_at_part [of "[]" 0 y 4] digits_at_part [of "padded 4 y @ ''-''" 5 mo 2]
      digits_at_part [of "padded 4 y @ ''-'' @ padded 2 mo @ ''-''" 8 d 2]
      digits_at_part [of "padded 4 y @ ''-'' @ padded 2 mo @ ''-'' @ padded 2 d @ ''T''" 11 h 2]
      digits_at_part [of "padded 4 y @ ''-'' @ padded 2 mo @ ''-'' @ padded 2 d @ ''T'' @ padded 2 h @ '':''" 14 mi 2]
      digits_at_part [of "padded 4 y @ ''-'' @ padded 2 mo @ ''-'' @ padded 2 d @ ''T'' @ padded 2 h @ '':'' @ padded 2 mi @ '':''" 17 se 2]
      digits_at_part [of "padded 4 y @ ''-'' @ padded 2 mo @ ''-'' @ padded 2 d @ ''T'' @ padded 2 h @ '':'' @ padded 2 mi @ '':'' @
        padded 2 se @ ''.''" 20 ms 3]
      ok day unfolding s iso_text_def append_assoc by (simp_all del: padded.simps)
  have "separators_ok s"
    by (simp add: separators_ok_def s iso_text_def nth_append nth_Cons' del: padded.simps)
  then have "timestamp_fields s = Some [int y, int mo, int d, int h, int mi, int se, int ms]"
    by (simp add: timestamp_fields_def at opt_bind_def)
  then show "timestamp s"
    using ok days_existing [OF day(1), of y mo] day(1) by (simp add: timestamp_def)
qed

lemma not_blank_iff: "trim_string n \<noteq> '''' \<longleftrightarrow> (\<exists>c\<in>set n. \<not> is_js_space c)"
proof -
  have "trim_string n = '''' \<longleftrightarrow> (\<forall>c\<in>set (dropWhile is_js_space n). is_js_space c)"
    by (simp add: trim_string_def)
  also have "\<dots> \<longleftrightarrow> (\<forall>c\<in>set n. is_js_space c)"
    by (induction n) auto
  finally show ?thesis
    by blast
qed

lemma byte_length_zero: "byte_length s = 0 \<longleftrightarrow> s = ''''"
  by (cases s) (simp_all add: byte_length_def)

lemma code_char: "of_char c = (0 :: nat) \<longleftrightarrow> c = CHR 0x00" "of_char c = (10 :: nat) \<longleftrightarrow> c = CHR 0x0A"
  "of_char c = (13 :: nat) \<longleftrightarrow> c = CHR 0x0D"
  using of_char_eq_iff [of c "CHR 0x00", where 'a = nat] of_char_eq_iff [of c "CHR 0x0A", where 'a = nat]
    of_char_eq_iff [of c "CHR 0x0D", where 'a = nat] by simp_all

lemma absolute_iff: "isAbsolute p \<and> \<not> has_nul p \<longleftrightarrow> absolute_text p"
proof -
  have "isAbsolute p \<longleftrightarrow> (\<exists>q. p = CHR ''/'' # q)"
    by (cases p) (simp_all add: isAbsolute_def)
  moreover have "has_nul p \<longleftrightarrow> CHR 0x00 \<in> set p"
    by (auto simp: has_nul_def list_ex_iff code_char)
  ultimately show ?thesis
    by (simp add: absolute_text_def)
qed

lemma validateMetadata_None: "validateMetadata m = None \<longleftrightarrow> metadata_ok m"
proof -
  have "isSafeInteger (mf_revision m) \<and> 0 \<le> js_int (mf_revision m) \<longleftrightarrow>
      (\<exists>n :: nat. mf_revision m = Finite (of_nat n) \<and> n < 2 ^ 53)"
  proof
    assume r: "isSafeInteger (mf_revision m) \<and> 0 \<le> js_int (mf_revision m)"
    then obtain q where q: "mf_revision m = Finite q" "snd (quotient_of q) = 1"
      by (auto simp: isSafeInteger_def is_integer_def split: jsnumber.splits)
    have "q = of_int (fst (quotient_of q)) / of_int (snd (quotient_of q))"
      by (rule quotient_of_div) simp
    then have "q = of_nat (nat (fst (quotient_of q)))"
      using q r by (simp add: js_int_def)
    moreover have "nat (fst (quotient_of q)) < 2 ^ 53"
      using q(1) r by (simp add: isSafeInteger_def js_int_def nat_less_iff) linarith
    ultimately show "\<exists>n :: nat. mf_revision m = Finite (of_nat n) \<and> n < 2 ^ 53"
      using q(1) by (intro exI [of _ "nat (fst (quotient_of q))"]) simp
  next
    assume "\<exists>n :: nat. mf_revision m = Finite (of_nat n) \<and> n < 2 ^ 53"
    then obtain n :: nat where n: "mf_revision m = Finite (of_int (int n))" "n < 2 ^ 53"
      by auto
    then show "isSafeInteger (mf_revision m) \<and> 0 \<le> js_int (mf_revision m)"
      using is_integer_of_int [of "int n"] js_int_of_int [of "int n"] by (simp add: isSafeInteger_def)
  qed
  then show ?thesis
    unfolding validateMetadata_def metadata_ok_def and_then_None semantic_None timestamp_iff absolute_iff [symmetric]
    by auto
qed

lemma validRecordName_iff:
  "validRecordName r \<longleftrightarrow> (\<forall>w. r = Work w \<longrightarrow> wr_explicitName w \<longrightarrow> sr_name w \<noteq> None) \<and>
     (\<forall>n. sr_name (base_of r) = Some n \<longrightarrow> name_ok n)"
proof -
  have "trim_string n \<noteq> '''' \<and> byte_length n \<le> 128 \<and> \<not> list_ex control_or_format n \<longleftrightarrow> name_ok n" for n
    unfolding not_blank_iff name_ok_def control_or_format_def list_ex_iff Let_def by auto
  then show ?thesis
    by (auto simp: validRecordName.simps split: session_record.split option.split)
qed

lemma validateRecordBase_None:
  "validateRecordBase r cwd = None \<longleftrightarrow>
     (let b = base_of r in sr_sessionId b \<noteq> '''' \<and> byte_length (sr_sessionId b) \<le> 256 \<and>
        set (sr_sessionId b) \<inter> {CHR 0x00, CHR 0x0A, CHR 0x0D} = {} \<and> sr_cwd b = cwd \<and> validRecordName r \<and>
        instant_text (sr_createdAt b) \<and> instant_text (sr_lastOpenedAt b) \<and> sr_createdAt b \<le> sr_lastOpenedAt b)"
proof -
  have "1 \<le> byte_length i \<longleftrightarrow> i \<noteq> ''''" for i
    using byte_length_zero [of i] by auto
  moreover have "list_ex (\<lambda>c. (of_char c :: nat) \<in> {0, 10, 13}) i \<longleftrightarrow> set i \<inter> {CHR 0x00, CHR 0x0A, CHR 0x0D} \<noteq> {}" for i
    by (auto simp: list_ex_iff code_char)
  ultimately show ?thesis
    unfolding validateRecordBase_def Let_def semantic_None timestamp_iff by blast
qed

lemma validateRecordDetails_None:
  "validateRecordDetails r = None \<longleftrightarrow>
     (\<forall>f. sr_persistence (base_of r) = Materialized f \<longrightarrow> absolute_text f) \<and>
     (\<forall>w. r = Work w \<longrightarrow> (\<forall>t. wr_taskRef w = Some t \<longrightarrow> t \<noteq> '''' \<and> byte_length t \<le> 2048) \<and>
        (\<forall>closed source. wr_desired w = Closed_session closed source \<longrightarrow>
           instant_text closed \<and> sr_createdAt w \<le> closed \<and> sr_lastOpenedAt w \<le> closed))"
proof -
  have "byte_length t < 1 \<longleftrightarrow> t = ''''" for t
    using byte_length_zero [of t] by auto
  then show ?thesis
    unfolding validateRecordDetails_def
    by (auto simp: timestamp_iff absolute_iff [symmetric] not_less not_le split: session_record.split persistence.split option.split desired.split)
qed

lemma truncate_work [simp]:
  "sr_sessionId (base_record.truncate w) = sr_sessionId w" "sr_createdAt (base_record.truncate w) = sr_createdAt w"
  "sr_lastOpenedAt (base_record.truncate w) = sr_lastOpenedAt w" "sr_name (base_record.truncate w) = sr_name w"
  by (simp_all add: base_record.defs)

lemma record_ok_iff:
  "record_ok m r \<longleftrightarrow> validateRecordBase r (mf_canonicalCwd m) = None \<and> validateRecordDetails r = None \<and>
     validateUpdatedAt r (mf_updatedAt m) = None"
proof (cases r)
  case (Coordinator b)
  then show ?thesis
    by (auto simp: record_ok_def base_ok_def validateRecordBase_None validateRecordDetails_None validRecordName_iff
        validateUpdatedAt_def Let_def)
next
  case (Work w)
  show ?thesis
  proof (cases "wr_desired w")
    case Open_session
    then show ?thesis
      unfolding Work record_ok_def base_ok_def work_ok_def validateRecordBase_None validateRecordDetails_None validRecordName_iff
        validateUpdatedAt_def Let_def by auto
  next
    case (Closed_session closed source)
    have "sr_lastOpenedAt w \<le> closed \<Longrightarrow> closed \<le> mf_updatedAt m \<Longrightarrow> sr_lastOpenedAt w \<le> mf_updatedAt m"
      by (rule order_trans)
    then show ?thesis
      unfolding Work record_ok_def base_ok_def work_ok_def validateRecordBase_None validateRecordDetails_None validRecordName_iff
        validateUpdatedAt_def Let_def using Closed_session by auto
  qed
qed

definition session_le :: "work_record \<Rightarrow> work_record \<Rightarrow> bool" where
  "session_le a b \<longleftrightarrow> sr_createdAt a < sr_createdAt b \<or>
     (sr_createdAt a = sr_createdAt b \<and> sr_sessionId a \<le> sr_sessionId b)"

lemma session_le_trans: "session_le a b \<Longrightarrow> session_le b c \<Longrightarrow> session_le a c"
  unfolding session_le_def by auto

lemma transp_session_le: "transp session_le"
  using session_le_trans by (rule transpI)

definition all_records :: "manifest \<Rightarrow> session_record list" where
  "all_records m = (case mf_coordinator m of None \<Rightarrow> [] | Some c \<Rightarrow> [Coordinator c]) @ map Work (mf_sessions m)"

definition record_id :: "session_record \<Rightarrow> string" where
  "record_id r = sr_sessionId (base_of r)"

definition manifest_ok :: "manifest \<Rightarrow> bool" where
  "manifest_ok m \<longleftrightarrow> metadata_ok m \<and> (\<forall>r\<in>set (all_records m). record_ok m r) \<and>
     distinct (map record_id (all_records m)) \<and> sorted_wrt session_le (mf_sessions m)"

lemma record_id_simps [simp]: "record_id (Coordinator c) = sr_sessionId c" "record_id (Work w) = sr_sessionId w"
  by (simp_all add: record_id_def base_record.defs)

lemma validateSessionOrder_None:
  "validateSessionOrder p w = None \<longleftrightarrow> (case p of None \<Rightarrow> True | Some q \<Rightarrow> session_le q w)"
  by (auto simp: validateSessionOrder_def session_le_def not_less order.order_iff_strict split: option.split)

lemma validate_sessions_None:
  "validate_sessions m ids p ws = None \<longleftrightarrow>
     (\<forall>w\<in>set ws. record_ok m (Work w)) \<and> distinct (map sr_sessionId ws) \<and> sr_sessionId ` set ws \<inter> set ids = {} \<and>
     sorted_wrt session_le ws \<and> (\<forall>q w. p = Some q \<longrightarrow> w \<in> set ws \<longrightarrow> session_le q w)"
proof (induction ws arbitrary: ids p)
  case Nil
  then show ?case by simp
next
  case (Cons w ws)
  have "(\<forall>q v. p = Some q \<longrightarrow> v = w \<or> v \<in> set ws \<longrightarrow> session_le q v) \<longleftrightarrow>
      (case p of None \<Rightarrow> True | Some q \<Rightarrow> session_le q w)" if "\<forall>v\<in>set ws. session_le w v"
    using that session_le_trans by (auto split: option.split)
  then show ?case
    by (auto simp: Cons.IH record_ok_iff duplicate_id_def validateSessionOrder_None)
qed

lemma validate_checks_None: "validate_checks m = None \<longleftrightarrow> manifest_ok m"
proof -
  have "validate_coordinator m = None \<longleftrightarrow> (\<forall>c. mf_coordinator m = Some c \<longrightarrow> record_ok m (Coordinator c))"
    by (auto simp: validate_coordinator_def record_ok_iff split: option.split)
  then show ?thesis
    by (cases "mf_coordinator m")
      (auto simp: validate_checks_def validate_sessions_None validateMetadata_None manifest_ok_def all_records_def coordinator_ids_def o_def)
qed

section \<open>Properties\<close>

text \<open>C15: the sequence of checks accepts exactly the decoded manifests whose workspace is an absolute path
  without NUL, whose revision is an integer from 0 to below 2 to the 53rd and whose times are texts that
  \<open>toISOString\<close> prints; in which every record has an identifier of 1 to 256 bytes without NUL and line
  ends, the workspace of the manifest, a name, if any, of at most 128 bytes with a visible character and
  no control characters, an absolute session file, if any, and times in order, none after the last
  update; in which a session with an explicit name has a name, a task reference has 1 to 2048 bytes and a
  closing comes after the other times; and in which no two records (the coordinator among them) share an
  identifier and the sessions are ordered by creation and identifier.\<close>

theorem validate_manifest_spec:
  "validateManifest v = Inr m \<longleftrightarrow> decodeManifest v = Inr m \<and> manifest_ok m"
  by (auto simp: validateManifest_def validate_checks_None [symmetric] split: sum.split option.split)

text \<open>The strict decoder reads back every manifest from its JSON value, so what an update
  writes is what the next read returns; only the checks can then reject it.\<close>

theorem manifest_roundtrip:
  "decodeManifest (json_manifest m) = Inr m"
  by (rule decodeManifest_json)

text \<open>Two values that differ only in the order of properties, at any depth.\<close>

inductive reordered :: "jsval \<Rightarrow> jsval \<Rightarrow> bool" where
  same: "reordered v v"
| array: "list_all2 reordered vs ws \<Longrightarrow> reordered (JArr vs) (JArr ws)"
| object: "list_all2 (\<lambda>p q. fst p = fst q \<and> reordered (snd p) (snd q)) ps rs \<Longrightarrow> mset rs = mset qs \<Longrightarrow>
    distinct (map fst ps) \<Longrightarrow> reordered (JObj ps) (JObj qs)"

lemma sort_key_perm:
  assumes "mset ps = mset qs" and "distinct (map fst ps)"
  shows "sort_key fst ps = sort_key fst qs"
proof -
  have q: "distinct (map fst qs)"
    using assms mset_eq_imp_distinct_iff [of "map fst ps" "map fst qs"] by simp
  have set: "set qs = set ps"
    using assms(1) by (metis set_mset_mset)
  show ?thesis
  proof (rule map_sorted_distinct_set_unique [of fst])
    show "inj_on fst (set (sort_key fst ps) \<union> set (sort_key fst qs))"
      using assms(2) by (simp add: set distinct_map)
  qed (use assms(2) q set in \<open>simp_all add: distinct_map_sort_key\<close>)
qed

text \<open>The canonical text does not depend on the order in which the properties of an object
  were written, at any depth, so that equal manifests have equal files.\<close>

theorem canonical_json_order_free:
  assumes "reordered v w"
  shows "canonicalJson num v = canonicalJson num w"
  using assms
proof (induction rule: reordered.induct)
  case (same v)
  then show ?case by simp
next
  case (array vs ws)
  then have "map (canonicalJson num) vs = map (canonicalJson num) ws"
    by (intro nth_equalityI) (simp_all add: list_all2_conv_all_nth)
  then show ?case by simp
next
  case (object ps rs qs)
  let ?t = "map (\<lambda>(k, v). (k, canonicalJson num v))"
  have "?t ps = ?t rs"
    using object.IH by (intro nth_equalityI) (simp_all add: list_all2_conv_all_nth case_prod_beta)
  then have "mset (?t ps) = mset (?t qs)"
    using object.hyps(1) by (metis mset_map)
  moreover have "distinct (map fst (?t ps))"
    using object.hyps(2) by (simp add: o_def case_prod_beta)
  ultimately show ?case
    using sort_key_perm [of "?t ps" "?t qs"] by simp
qed

section \<open>Replacing and collecting records\<close>

lemma find_by_key:
  assumes "distinct (map f xs)"
  shows "List.find (\<lambda>x. f x = i) xs = Some x \<longleftrightarrow> x \<in> set xs \<and> f x = i"
  using assms by (induction xs) auto

lemma findRecord_Some:
  assumes "distinct (map record_id (all_records m))"
  shows "findRecord m i = Some r \<longleftrightarrow> r \<in> set (all_records m) \<and> record_id r = i"
proof -
  have d: "distinct (map sr_sessionId (mf_sessions m))"
    using assms by (simp add: all_records_def o_def split: option.splits)
  show ?thesis
  proof (cases "mf_coordinator m")
    case None
    then show ?thesis
      using find_by_key [OF d] by (auto simp: findRecord_def all_records_def)
  next
    case (Some c)
    then have "sr_sessionId w \<noteq> sr_sessionId c" if "w \<in> set (mf_sessions m)" for w
    proof -
      have "sr_sessionId w \<in> sr_sessionId ` set (mf_sessions m)"
        using that by (rule imageI)
      moreover have "sr_sessionId c \<notin> sr_sessionId ` set (mf_sessions m)"
        using assms Some by (simp add: all_records_def image_image)
      ultimately show ?thesis by metis
    qed
    then show ?thesis
      using find_by_key [OF d] Some by (auto simp: findRecord_def all_records_def)
  qed
qed

lemma findRecord_eqI:
  assumes "distinct (map record_id (all_records m))" and "distinct (map record_id (all_records n))"
    and "\<And>r. record_id r = i \<Longrightarrow> r \<in> set (all_records m) \<longleftrightarrow> r \<in> set (all_records n)"
  shows "findRecord m i = findRecord n i"
proof -
  have "findRecord m i = Some r \<longleftrightarrow> findRecord n i = Some r" for r
    using findRecord_Some [OF assms(1)] findRecord_Some [OF assms(2)] assms(3) by blast
  then show ?thesis
    by (metis option.exhaust)
qed

text \<open>A collation that agrees with the order of code units on the given texts.\<close>

definition code_order_on :: "(string \<Rightarrow> string \<Rightarrow> int) \<Rightarrow> string set \<Rightarrow> bool" where
  "code_order_on localeCompare K \<longleftrightarrow> (\<forall>x\<in>K. \<forall>y\<in>K. (localeCompare x y < 0 \<longleftrightarrow> x < y) \<and> (localeCompare x y = 0 \<longleftrightarrow> x = y))"

definition sort_texts :: "work_record list \<Rightarrow> string set" where
  "sort_texts ws = sr_createdAt ` set ws \<union> sr_sessionId ` set ws"

lemma by_creation_le:
  assumes "code_order_on lc (sort_texts ws)" and "a \<in> set ws" and "b \<in> set ws"
  shows "by_creation lc a b \<le> 0 \<longleftrightarrow> session_le a b"
proof -
  have c: "(lc (sr_createdAt a) (sr_createdAt b) < 0 \<longleftrightarrow> sr_createdAt a < sr_createdAt b) \<and>
      (lc (sr_createdAt a) (sr_createdAt b) = 0 \<longleftrightarrow> sr_createdAt a = sr_createdAt b)"
    using assms unfolding code_order_on_def sort_texts_def by blast
  have i: "(lc (sr_sessionId a) (sr_sessionId b) < 0 \<longleftrightarrow> sr_sessionId a < sr_sessionId b) \<and>
      (lc (sr_sessionId a) (sr_sessionId b) = 0 \<longleftrightarrow> sr_sessionId a = sr_sessionId b)"
    using assms unfolding code_order_on_def sort_texts_def by blast
  show ?thesis
    using c i unfolding by_creation_def Let_def session_le_def order.order_iff_strict by auto
qed

lemma session_le_total: "session_le a b \<or> session_le b a"
  unfolding session_le_def by auto

lemma replaced_records:
  "set (all_records (replaceWorkRecord lc m w)) =
     {r \<in> set (all_records m). r \<in> Coordinator ` UNIV \<or> record_id r \<noteq> sr_sessionId w} \<union> {Work w}"
  by (auto simp: all_records_def replaceWorkRecord_def split: option.split)

lemma replaced_distinct:
  assumes "distinct (map record_id (all_records m))" and "sr_sessionId w \<notin> set (coordinator_ids m)"
  shows "distinct (map record_id (all_records (replaceWorkRecord lc m w)))"
proof -
  let ?ws = "filter (\<lambda>c. sr_sessionId c \<noteq> sr_sessionId w) (mf_sessions m) @ [w]"
  have "distinct (map sr_sessionId ?ws)"
    using assms(1) by (auto simp: all_records_def distinct_map_filter o_def split: option.splits)
  then have d: "distinct (map sr_sessionId (js_sort (by_creation lc) ?ws))"
    using mset_eq_imp_distinct_iff [of "map sr_sessionId ?ws" "map sr_sessionId (js_sort (by_creation lc) ?ws)"] by simp
  show ?thesis
    using assms d
    by (auto simp: all_records_def replaceWorkRecord_def coordinator_ids_def o_def split: option.splits)
qed

lemma record_ok_updates [simp]:
  "record_ok (replaceWorkRecord lc m w) r = record_ok m r" "record_ok (gcTombstones m now) r = record_ok m r"
  by (simp_all add: record_ok_def base_ok_def work_ok_def replaceWorkRecord_def gcTombstones_def)

text \<open>Replacing a record of a valid manifest by a valid one, where the host's collation
  orders the texts involved like their code units, gives a valid manifest again, in which the
  identifier finds the new record and every other identifier what it found before.\<close>

theorem replace_keeps_valid:
  assumes "manifest_ok m" and "record_ok m (Work w)" and "sr_sessionId w \<notin> set (coordinator_ids m)"
    and "code_order_on localeCompare (sort_texts (w # mf_sessions m))"
  shows "manifest_ok (replaceWorkRecord localeCompare m w) \<and>
    findRecord (replaceWorkRecord localeCompare m w) i =
      (if i = sr_sessionId w then Some (Work w) else findRecord m i)"
proof -
  let ?m = "replaceWorkRecord localeCompare m w"
  let ?ws = "filter (\<lambda>c. sr_sessionId c \<noteq> sr_sessionId w) (mf_sessions m) @ [w]"
  have d: "distinct (map record_id (all_records m))" and d': "distinct (map record_id (all_records ?m))"
    using assms(1,3) replaced_distinct by (simp_all add: manifest_ok_def)
  have ord: "by_creation localeCompare a b \<le> 0 \<longleftrightarrow> session_le a b" if "a \<in> set ?ws" "b \<in> set ?ws" for a b
    using by_creation_le [OF assms(4), of a b] that by auto
  have "sorted_wrt session_le (mf_sessions ?m)"
  proof -
    have "sorted_wrt session_le (js_sort (by_creation localeCompare) ?ws)"
    proof (rule sorted_js_sort [OF _ _ transp_session_le])
      fix x y
      assume xy: "x \<in> set ?ws" "y \<in> set ?ws"
      show "by_creation localeCompare x y \<le> 0 \<Longrightarrow> session_le x y"
        using ord [OF xy] by blast
      show "\<not> by_creation localeCompare x y \<le> 0 \<Longrightarrow> session_le y x"
        using ord [OF xy] session_le_total by blast
    qed
    then show ?thesis
      by (simp add: replaceWorkRecord_def)
  qed
  moreover have "\<forall>r\<in>set (all_records ?m). record_ok ?m r"
    using assms(1,2) by (auto simp: replaced_records manifest_ok_def)
  moreover have "metadata_ok ?m"
    using assms(1) by (simp add: manifest_ok_def metadata_ok_def replaceWorkRecord_def)
  ultimately have ok: "manifest_ok ?m"
    using d' by (simp add: manifest_ok_def)
  have "findRecord ?m i = (if i = sr_sessionId w then Some (Work w) else findRecord m i)"
  proof (cases "i = sr_sessionId w")
    case True
    have "findRecord ?m i = Some (Work w)"
      unfolding findRecord_Some [OF d'] using True by (simp add: replaced_records)
    then show ?thesis
      using True by simp
  next
    case False
    have "findRecord ?m i = findRecord m i"
      by (rule findRecord_eqI [OF d' d]) (use False in \<open>auto simp: replaced_records\<close>)
    then show ?thesis
      using False by simp
  qed
  with ok show ?thesis
    by simp
qed

text \<open>Where the collation puts two identifiers in another order than their code units, a
  session created in the same millisecond as another makes the updated manifest fail its own
  order check, so that the update is refused.\<close>

theorem collation_mismatch_refused:
  assumes "mf_sessions m = [v]" and "sr_createdAt w = sr_createdAt v" and "sr_sessionId w < sr_sessionId v"
    and "localeCompare (sr_createdAt v) (sr_createdAt v) = 0" and "localeCompare (sr_sessionId v) (sr_sessionId w) < 0"
  shows "\<not> manifest_ok (replaceWorkRecord localeCompare m w)"
proof -
  have "sr_sessionId v \<noteq> sr_sessionId w"
    using assms(3) by auto
  then have "mf_sessions (replaceWorkRecord localeCompare m w) = [v, w]"
    using assms by (simp add: replaceWorkRecord_def by_creation_def)
  then have "\<not> sorted_wrt session_le (mf_sessions (replaceWorkRecord localeCompare m w))"
    using assms(2,3) by (simp add: session_le_def not_le)
  then show ?thesis
    unfolding manifest_ok_def by blast
qed

lemma gc_records:
  "set (all_records (gcTombstones m now)) \<subseteq> set (all_records m)"
  by (auto simp: all_records_def gcTombstones_def split: option.split)

lemma gc_keeps_ok:
  assumes "manifest_ok m"
  shows "manifest_ok (gcTombstones m now)"
proof -
  let ?m = "gcTombstones m now"
  have "distinct (map record_id (all_records ?m))"
    using assms by (auto simp: manifest_ok_def all_records_def gcTombstones_def distinct_map_filter o_def split: option.splits)
  moreover have "sorted_wrt session_le (mf_sessions ?m)"
    using assms by (simp add: manifest_ok_def gcTombstones_def sorted_wrt_filter)
  moreover have "\<forall>r\<in>set (all_records ?m). record_ok ?m r"
    using assms gc_records [of m now] by (auto simp: manifest_ok_def)
  moreover have "metadata_ok ?m"
    using assms by (simp add: manifest_ok_def metadata_ok_def gcTombstones_def)
  ultimately show ?thesis
    by (simp add: manifest_ok_def)
qed

section \<open>Witnesses\<close>

definition demo_session :: "string \<Rightarrow> work_record" where
  "demo_session i = \<lparr>sr_sessionId = i, sr_cwd = ''/w'', sr_name = None, sr_persistence = Pending,
     sr_createdAt = ''2025-01-02T03:04:05.678Z'', sr_lastOpenedAt = ''2025-01-02T03:04:05.678Z'',
     wr_taskRef = None, wr_explicitName = False, wr_desired = Open_session\<rparr>"

definition demo_manifest :: manifest where
  "demo_manifest = \<lparr>mf_canonicalCwd = ''/w'', mf_revision = Finite 1, mf_updatedAt = ''2025-01-02T03:04:05.678Z'',
     mf_coordinator = None, mf_sessions = [demo_session ''a'']\<rparr>"

definition code_collation :: "string \<Rightarrow> string \<Rightarrow> int" where
  "code_collation x y = (if x < y then - 1 else if x = y then 0 else 1)"

lemma code_collation_ok: "code_order_on code_collation K"
  by (auto simp: code_order_on_def code_collation_def)

lemma demo_manifest_ok: "manifest_ok demo_manifest"
proof -
  have "validate_checks demo_manifest = None"
    by code_simp
  then show ?thesis
    by (simp only: validate_checks_None)
qed

lemma demo_record_ok: "record_ok demo_manifest (Work (demo_session ''B''))"
  unfolding record_ok_iff by code_simp

lemma replace_keeps_valid_witness:
  "manifest_ok (replaceWorkRecord code_collation demo_manifest (demo_session ''B''))"
  using replace_keeps_valid [OF demo_manifest_ok demo_record_ok _ code_collation_ok]
  by (simp add: coordinator_ids_def demo_manifest_def)

text \<open>A collation like that of the usual locales, which puts lower case before upper case.\<close>

definition lower_first :: "string \<Rightarrow> string \<Rightarrow> int" where
  "lower_first x y = (if x = y then 0 else if x < y then 1 else - 1)"

lemma collation_mismatch_refused_witness:
  "\<not> manifest_ok (replaceWorkRecord lower_first demo_manifest (demo_session ''B''))"
  by (rule collation_mismatch_refused [of _ "demo_session ''a''"]) code_simp+

lemma canonical_json_order_free_witness:
  "canonicalJson (\<lambda>_. ''1'') (JObj [(''b'', JNull), (''a'', js_one)]) = canonicalJson (\<lambda>_. ''1'') (JObj [(''a'', js_one), (''b'', JNull)])"
  by (rule canonical_json_order_free, rule object [of _ "[(''b'', JNull), (''a'', js_one)]"])
    (simp_all add: reordered.same)

end
