(* ===== verification/Effects.thy ===== *)
theory Effects
  imports Prelude
begin

text \<open>
  Code that threads a state and may throw: an action maps a state to a result, \<open>Inl\<close> the thrown
  value or \<open>Inr\<close> the returned one, and the state it leaves. \<open>keeps\<close> says that an action leaves a
  view of the state alone whatever it returns; \<open>returns\<close> is what it guarantees when it returns.
\<close>

type_synonym ('s, 'e, 'a) act = "'s \<Rightarrow> ('e + 'a) \<times> 's"

definition act_ret :: "'a \<Rightarrow> ('s, 'e, 'a) act" where
  "act_ret a s = (Inr a, s)"

definition act_throw :: "'e \<Rightarrow> ('s, 'e, 'a) act" where
  "act_throw e s = (Inl e, s)"

definition act_bind :: "('s, 'e, 'a) act \<Rightarrow> ('a \<Rightarrow> ('s, 'e, 'b) act) \<Rightarrow> ('s, 'e, 'b) act" where
  "act_bind m f s = (case m s of (Inl e, s) \<Rightarrow> (Inl e, s) | (Inr a, s) \<Rightarrow> f a s)"

definition act_catch :: "('s, 'e, 'a) act \<Rightarrow> ('e \<Rightarrow> ('s, 'f, 'a) act) \<Rightarrow> ('s, 'f, 'a) act" where
  "act_catch m h s = (case m s of (Inl e, s) \<Rightarrow> h e s | (Inr a, s) \<Rightarrow> (Inr a, s))"

text \<open>\<open>try { m } finally { c }\<close>: an error of \<open>c\<close> wins.\<close>

definition act_finally :: "('s, 'e, 'a) act \<Rightarrow> ('s, 'e, unit) act \<Rightarrow> ('s, 'e, 'a) act" where
  "act_finally m c s = (case m s of (r, s) \<Rightarrow> (case c s of (Inl e, s) \<Rightarrow> (Inl e, s) | (Inr _, s) \<Rightarrow> (r, s)))"

definition act_map_error :: "('e \<Rightarrow> 'f) \<Rightarrow> ('s, 'e, 'a) act \<Rightarrow> ('s, 'f, 'a) act" where
  "act_map_error g m = act_catch m (\<lambda>e. act_throw (g e))"

definition act_get :: "('s \<Rightarrow> 'a) \<Rightarrow> ('s, 'e, 'a) act" where
  "act_get f s = (Inr (f s), s)"

definition act_lift :: "'e + 'a \<Rightarrow> ('s, 'e, 'a) act" where
  "act_lift r s = (r, s)"

fun act_each :: "('x \<Rightarrow> ('s, 'e, unit) act) \<Rightarrow> 'x list \<Rightarrow> ('s, 'e, unit) act" where
  "act_each f [] = act_ret ()"
| "act_each f (x # xs) = act_bind (f x) (\<lambda>_. act_each f xs)"

section \<open>Runs that return\<close>

lemma act_bind_Inr: "act_bind m f s = (Inr b, s') \<longleftrightarrow> (\<exists>a t. m s = (Inr a, t) \<and> f a t = (Inr b, s'))"
  by (auto simp: act_bind_def split: prod.splits sum.splits)

lemma act_bind_Inl: "act_bind m f s = (Inl e, s') \<longleftrightarrow>
    m s = (Inl e, s') \<or> (\<exists>a t. m s = (Inr a, t) \<and> f a t = (Inl e, s'))"
  by (auto simp: act_bind_def split: prod.splits sum.splits)

lemma act_catch_Inr: "act_catch m h s = (Inr a, s') \<longleftrightarrow>
    m s = (Inr a, s') \<or> (\<exists>e t. m s = (Inl e, t) \<and> h e t = (Inr a, s'))"
  by (auto simp: act_catch_def split: prod.splits sum.splits)

lemma act_catch_Inl: "act_catch m h s = (Inl f, s') \<longleftrightarrow> (\<exists>e t. m s = (Inl e, t) \<and> h e t = (Inl f, s'))"
  by (auto simp: act_catch_def split: prod.splits sum.splits)

lemma act_finally_Inr: "act_finally m c s = (Inr a, s') \<longleftrightarrow> (\<exists>t. m s = (Inr a, t) \<and> c t = (Inr (), s'))"
  by (auto simp: act_finally_def split: prod.splits sum.splits)

lemma act_map_error_Inr: "act_map_error g m s = (Inr a, s') \<longleftrightarrow> m s = (Inr a, s')"
  by (auto simp: act_map_error_def act_catch_Inr act_throw_def)

lemma act_map_error_Inl: "act_map_error g m s = (Inl f, s') \<longleftrightarrow> (\<exists>e. m s = (Inl e, s') \<and> f = g e)"
  by (auto simp: act_map_error_def act_catch_Inl act_throw_def)

lemma act_bind_run: "m s = (Inr a, t) \<Longrightarrow> act_bind m f s = f a t" "m s = (Inl e, t) \<Longrightarrow> act_bind m f s = (Inl e, t)"
  by (simp_all add: act_bind_def)

lemma act_map_error_run: "m s = (Inr a, t) \<Longrightarrow> act_map_error g m s = (Inr a, t)"
  "m s = (Inl e, t) \<Longrightarrow> act_map_error g m s = (Inl (g e), t)"
  by (simp_all add: act_map_error_def act_catch_def act_throw_def)

lemmas act_Inr = act_bind_Inr act_catch_Inr act_finally_Inr act_map_error_Inr

section \<open>What an action leaves alone\<close>

definition keeps :: "('s \<Rightarrow> 'v) \<Rightarrow> ('s, 'e, 'a) act \<Rightarrow> bool" where
  "keeps view m \<longleftrightarrow> (\<forall>s. view (snd (m s)) = view s)"

named_theorems keeps_intros \<open>compositional rules for keeps\<close>

lemma keeps_ret [keeps_intros]: "keeps v (act_ret a)"
  and keeps_throw [keeps_intros]: "keeps v (act_throw e)"
  and keeps_get [keeps_intros]: "keeps v (act_get g)"
  and keeps_lift [keeps_intros]: "keeps v (act_lift r)"
  by (simp_all add: keeps_def act_ret_def act_throw_def act_get_def act_lift_def)

lemma keeps_bind [keeps_intros]: "keeps v m \<Longrightarrow> (\<And>a. keeps v (f a)) \<Longrightarrow> keeps v (act_bind m f)"
  unfolding keeps_def act_bind_def by (auto split: prod.split sum.split) (metis snd_conv)+

lemma keeps_catch [keeps_intros]: "keeps v m \<Longrightarrow> (\<And>e. keeps v (h e)) \<Longrightarrow> keeps v (act_catch m h)"
  unfolding keeps_def act_catch_def by (auto split: prod.split sum.split) (metis snd_conv)+

lemma keeps_finally [keeps_intros]: "keeps v m \<Longrightarrow> keeps v c \<Longrightarrow> keeps v (act_finally m c)"
  unfolding keeps_def act_finally_def by (auto split: prod.split sum.split) (metis snd_conv)+

lemma keeps_map_error [keeps_intros]: "keeps v m \<Longrightarrow> keeps v (act_map_error g m)"
  unfolding act_map_error_def by (intro keeps_intros)

lemma keeps_if [keeps_intros]: "keeps v m \<Longrightarrow> keeps v n \<Longrightarrow> keeps v (if b then m else n)"
  by simp

lemma keeps_each [keeps_intros]: "(\<And>x. x \<in> set xs \<Longrightarrow> keeps v (f x)) \<Longrightarrow> keeps v (act_each f xs)"
  by (induction xs) (auto intro!: keeps_intros)

lemma keepsD: "keeps v m \<Longrightarrow> m s = (r, s') \<Longrightarrow> v s' = v s"
  unfolding keeps_def by (metis snd_conv)

section \<open>Actions that return\<close>

text \<open>From a state in \<open>P\<close> the action returns, in a state in \<open>P\<close>.\<close>

definition returns :: "('s \<Rightarrow> bool) \<Rightarrow> ('s, 'e, 'a) act \<Rightarrow> bool" where
  "returns P m \<longleftrightarrow> (\<forall>s. P s \<longrightarrow> (\<exists>a s'. m s = (Inr a, s') \<and> P s'))"

named_theorems returns_intros \<open>compositional rules for returns\<close>

lemma returns_ret [returns_intros]: "returns P (act_ret a)"
  and returns_get [returns_intros]: "returns P (act_get g)"
  by (simp_all add: returns_def act_ret_def act_get_def)

lemma returns_bind [returns_intros]: "returns P m \<Longrightarrow> (\<And>a. returns P (f a)) \<Longrightarrow> returns P (act_bind m f)"
  unfolding returns_def act_bind_Inr by blast

lemma returns_catch [returns_intros]: "returns P m \<Longrightarrow> returns P (act_catch m h)"
  unfolding returns_def act_catch_Inr by blast

lemma returns_map_error [returns_intros]: "returns P m \<Longrightarrow> returns P (act_map_error g m)"
  unfolding returns_def act_map_error_Inr by blast

lemma returns_finally [returns_intros]: "returns P m \<Longrightarrow> returns P c \<Longrightarrow> returns P (act_finally m c)"
  unfolding returns_def act_finally_Inr by (metis (full_types) old.unit.exhaust)

lemma returns_each [returns_intros]: "(\<And>x. x \<in> set xs \<Longrightarrow> returns P (f x)) \<Longrightarrow> returns P (act_each f xs)"
  by (induction xs) (auto intro!: returns_intros)

lemma returns_if [returns_intros]: "returns P m \<Longrightarrow> returns P n \<Longrightarrow> returns P (if b then m else n)"
  by simp

section \<open>What an action may throw\<close>

definition raises :: "('e \<Rightarrow> bool) \<Rightarrow> ('s, 'e, 'a) act \<Rightarrow> bool" where
  "raises E m \<longleftrightarrow> (\<forall>s e s'. m s = (Inl e, s') \<longrightarrow> E e)"

named_theorems raises_intros \<open>compositional rules for raises\<close>

lemma raises_ret [raises_intros]: "raises E (act_ret a)"
  and raises_get [raises_intros]: "raises E (act_get g)"
  by (simp_all add: raises_def act_ret_def act_get_def)

lemma raises_throw [raises_intros]: "E e \<Longrightarrow> raises E (act_throw e)"
  by (simp add: raises_def act_throw_def)

lemma raises_lift [raises_intros]: "(\<And>e. r = Inl e \<Longrightarrow> E e) \<Longrightarrow> raises E (act_lift r)"
  by (simp add: raises_def act_lift_def)

lemma raises_bind [raises_intros]: "raises E m \<Longrightarrow> (\<And>a. raises E (f a)) \<Longrightarrow> raises E (act_bind m f)"
  unfolding raises_def act_bind_Inl by blast

lemma raises_catch [raises_intros]: "(\<And>e. raises E (h e)) \<Longrightarrow> raises E (act_catch m h)"
  unfolding raises_def act_catch_Inl by blast

lemma raises_catch_with: "raises R m \<Longrightarrow> (\<And>e. R e \<Longrightarrow> raises E (h e)) \<Longrightarrow> raises E (act_catch m h)"
  unfolding raises_def act_catch_Inl by blast

lemma raises_map_error: "raises (\<lambda>e. E (g e)) m \<Longrightarrow> raises E (act_map_error g m)"
  unfolding raises_def act_map_error_Inl by blast

lemma raises_finally [raises_intros]: "raises E m \<Longrightarrow> raises E c \<Longrightarrow> raises E (act_finally m c)"
  unfolding raises_def act_finally_def by (auto split: prod.splits sum.splits) blast

lemma raises_if [raises_intros]: "(b \<Longrightarrow> raises E m) \<Longrightarrow> (\<not> b \<Longrightarrow> raises E n) \<Longrightarrow> raises E (if b then m else n)"
  by simp

lemma raises_each [raises_intros]: "(\<And>x. x \<in> set xs \<Longrightarrow> raises E (f x)) \<Longrightarrow> raises E (act_each f xs)"
  by (induction xs) (auto intro!: raises_intros)

lemma raisesD: "raises E m \<Longrightarrow> m s = (Inl e, s') \<Longrightarrow> E e"
  unfolding raises_def by blast

section \<open>What stays true\<close>

text \<open>A property of the state that survives the action, whatever it returns.\<close>

definition stays :: "('s \<Rightarrow> bool) \<Rightarrow> ('s, 'e, 'a) act \<Rightarrow> bool" where
  "stays Q m \<longleftrightarrow> (\<forall>s. Q s \<longrightarrow> Q (snd (m s)))"

named_theorems stays_intros \<open>compositional rules for stays\<close>

lemma stays_ret [stays_intros]: "stays Q (act_ret a)"
  and stays_throw [stays_intros]: "stays Q (act_throw e)"
  and stays_get [stays_intros]: "stays Q (act_get g)"
  and stays_lift [stays_intros]: "stays Q (act_lift r)"
  by (simp_all add: stays_def act_ret_def act_throw_def act_get_def act_lift_def)

lemma stays_bind [stays_intros]: "stays Q m \<Longrightarrow> (\<And>a. stays Q (f a)) \<Longrightarrow> stays Q (act_bind m f)"
  unfolding stays_def act_bind_def by (auto split: prod.split sum.split)

lemma stays_catch [stays_intros]: "stays Q m \<Longrightarrow> (\<And>e. stays Q (h e)) \<Longrightarrow> stays Q (act_catch m h)"
  unfolding stays_def act_catch_def by (auto split: prod.split sum.split)

lemma stays_map_error [stays_intros]: "stays Q m \<Longrightarrow> stays Q (act_map_error g m)"
  unfolding act_map_error_def by (intro stays_intros)

lemma stays_if [stays_intros]: "(b \<Longrightarrow> stays Q m) \<Longrightarrow> (\<not> b \<Longrightarrow> stays Q n) \<Longrightarrow> stays Q (if b then m else n)"
  by simp

lemma keeps_stays: "keeps v m \<Longrightarrow> stays (\<lambda>s. v s = x) m"
  by (simp add: keeps_def stays_def)

lemma keeps_stays_all: "keeps (\<lambda>s. s) m \<Longrightarrow> stays Q m"
  by (simp add: keeps_def stays_def)

lemma staysD: "stays Q m \<Longrightarrow> m s = (r, s') \<Longrightarrow> Q s \<Longrightarrow> Q s'"
  unfolding stays_def by (metis snd_conv)

end
