(* ===== verification/Session_Storage.thy ===== *)
theory Session_Storage
  imports Session_Manifest Effects
begin

text \<open>
  The file session catalog of \<open>extensions/session-manager/storage.ts\<close>: reading and updating the
  manifest of a workspace under a lock, with the commit by a temporary file and a rename. The
  directory of the manifests maps names to entries; every call of the storage adapter is one
  step, which may fail for reasons of its own (a failed call leaves the directory as it was), and
  from some step on the lock may be reported compromised. No other process writes meanwhile:
  that is what the lock is for. SHA-256 and the random suffixes are parameters.
\<close>

section \<open>State\<close>

datatype fault = ELOCKED | EIO

datatype errno = ENOENT | Fault fault

datatype doc = Json jsval | Garbled

record dir_entry =
  de_doc :: doc
  de_is_file :: bool
  de_mtime :: int

record store =
  st_dir :: "(string, dir_entry) jsmap"
  st_step :: nat
  st_fault :: "nat \<Rightarrow> fault option"
  st_lost_from :: "nat option"
  st_random :: "nat \<Rightarrow> string"
  st_uses :: nat
  st_now :: int
  st_iso :: string

datatype 'd thrown =
    Errno errno
  | Verification_failed
  | Domain 'd
  | Failure "'d catalog_failure"
and 'd catalog_failure =
    Manifest_failure manifest_error
  | Read_failure "'d thrown"
  | Lock_timeout
  | Lock_compromised
  | Operation_failure "'d thrown"
  | Commit_failure "'d thrown"
  | Commit_indeterminate jsnumber "'d thrown"
  | Committed_release_failed jsnumber "'d thrown"

type_synonym ('d, 'a) io = "(store, 'd thrown, 'a) act"

type_synonym ('d, 'a) catalog_act = "(store, 'd catalog_failure, 'a) act"

section \<open>The storage adapter\<close>

text \<open>One call: it fails as the environment says, or does its work, which may itself report an error.\<close>

definition call :: "(store \<Rightarrow> (errno + 'a) \<times> store) \<Rightarrow> ('d, 'a) io" where
  "call f s =
     (let s' = s\<lparr>st_step := Suc (st_step s)\<rparr> in
      case st_fault s (st_step s) of
        Some e \<Rightarrow> (Inl (Errno (Fault e)), s')
      | None \<Rightarrow> (case f s' of (Inl e, s') \<Rightarrow> (Inl (Errno e), s') | (Inr a, s') \<Rightarrow> (Inr a, s')))"

definition entry :: "string \<Rightarrow> store \<Rightarrow> dir_entry option" where
  "entry n s = jm_get (st_dir s) n"

definition put_entry :: "string \<Rightarrow> dir_entry \<Rightarrow> store \<Rightarrow> store" where
  "put_entry n e s = s\<lparr>st_dir := jm_set n e (st_dir s)\<rparr>"

definition read_file :: "string \<Rightarrow> ('d, doc) io" where
  "read_file n = call (\<lambda>s. (case entry n s of None \<Rightarrow> Inl ENOENT | Some e \<Rightarrow> Inr (de_doc e), s))"

definition read_dir :: "('d, string list) io" where
  "read_dir = call (\<lambda>s. (Inr (jm_keys (st_dir s)), s))"

definition lstat :: "string \<Rightarrow> ('d, dir_entry) io" where
  "lstat n = call (\<lambda>s. (case entry n s of None \<Rightarrow> Inl ENOENT | Some e \<Rightarrow> Inr e, s))"

definition unlink :: "string \<Rightarrow> ('d, unit) io" where
  "unlink n = call (\<lambda>s. case entry n s of
     None \<Rightarrow> (Inl ENOENT, s) | Some _ \<Rightarrow> (Inr (), s\<lparr>st_dir := jm_delete n (st_dir s)\<rparr>))"

text \<open>\<open>open(path, "wx")\<close> creates the file; \<open>writeFile\<close> fills it; \<open>sync\<close>, \<open>close\<close>, \<open>mkdir\<close>, \<open>lock\<close>
  and \<open>release\<close> change nothing here.\<close>

definition open_new :: "string \<Rightarrow> ('d, unit) io" where
  "open_new n = call (\<lambda>s. case entry n s of
     Some _ \<Rightarrow> (Inl (Fault EIO), s)
   | None \<Rightarrow> (Inr (), put_entry n \<lparr>de_doc = Garbled, de_is_file = True, de_mtime = st_now s\<rparr> s))"

definition write_file :: "string \<Rightarrow> jsval \<Rightarrow> ('d, unit) io" where
  "write_file n v = call (\<lambda>s. (Inr (), put_entry n \<lparr>de_doc = Json v, de_is_file = True, de_mtime = st_now s\<rparr> s))"

definition rename_entry :: "string \<Rightarrow> string \<Rightarrow> ('d, unit) io" where
  "rename_entry old new = call (\<lambda>s. case entry old s of
     None \<Rightarrow> (Inl ENOENT, s)
   | Some e \<Rightarrow> (Inr (), s\<lparr>st_dir := jm_set new e (jm_delete old (st_dir s))\<rparr>))"

definition plain_call :: "('d, unit) io" where
  "plain_call = call (\<lambda>s. (Inr (), s))"

section \<open>The catalog\<close>

definition compromised :: "store \<Rightarrow> bool" where
  "compromised s = (case st_lost_from s of None \<Rightarrow> False | Some k \<Rightarrow> k \<le> st_step s)"

definition assertOwned :: "('d, unit) io" where
  "assertOwned s = (if compromised s then Inl (Failure Lock_compromised) else Inr (), s)"

definition failure :: "'d thrown \<Rightarrow> 'd catalog_failure" where
  "failure e = (case e of Failure f \<Rightarrow> f | _ \<Rightarrow> Operation_failure e)"

definition manifest_name :: "string \<Rightarrow> string" where
  "manifest_name digest = digest @ ''.json''"

definition temp_prefix :: "string \<Rightarrow> string" where
  "temp_prefix digest = ''.session-catalog-'' @ digest @ ''-''"

definition temp_name :: "string \<Rightarrow> ('d, string) io" where
  "temp_name digest s = (Inr (temp_prefix digest @ st_random s (st_uses s) @ ''.tmp''), s\<lparr>st_uses := Suc (st_uses s)\<rparr>)"

definition readUnlocked :: "string \<Rightarrow> string \<Rightarrow> ('d, manifest option) io" where
  "readUnlocked path cwd =
     act_bind
       (act_catch (act_bind (read_file path) (\<lambda>d. act_ret (Some d)))
          (\<lambda>e. if e = Errno ENOENT then act_ret None else act_throw (Failure (Read_failure e))))
       (\<lambda>text. case text of
          None \<Rightarrow> act_ret None
        | Some Garbled \<Rightarrow> act_throw (Failure (Manifest_failure (Malformed ''json'')))
        | Some (Json v) \<Rightarrow>
            (case validateManifest v of
               Inl e \<Rightarrow> act_throw (Failure (Manifest_failure e))
             | Inr m \<Rightarrow> if mf_canonicalCwd m \<noteq> cwd then act_throw (Failure (Manifest_failure (Malformed ''identity'')))
                        else act_ret (Some m)))"

text \<open>The pattern of temporary names: the prefix, 32 hexadecimal digits and \<open>.tmp\<close>.\<close>

definition is_lower_hex :: "char \<Rightarrow> bool" where
  "is_lower_hex c = (is_digit c \<or> (97 \<le> (of_char c :: nat) \<and> (of_char c :: nat) \<le> 102))"

definition temp_char :: "char \<Rightarrow> bool" where
  "temp_char c = (is_digit c \<or> (97 \<le> (of_char c :: nat) \<and> (of_char c :: nat) \<le> 122) \<or> c = CHR ''.'' \<or> c = CHR ''-'')"

definition is_temp :: "string \<Rightarrow> string \<Rightarrow> bool" where
  "is_temp digest name =
     (let n = length name; head = take (n - 37) name; middle = take 33 (drop (n - 37) name) in
      take (length (temp_prefix digest)) name = temp_prefix digest \<and> 37 < n \<and> drop (n - 4) name = ''.tmp'' \<and>
      hd middle = CHR ''-'' \<and> list_all is_lower_hex (tl middle) \<and> list_all temp_char head)"

definition STALE :: int where
  "STALE = 30000"

definition clean_one :: "int \<Rightarrow> string \<Rightarrow> ('d, unit) io" where
  "clean_one now name =
     act_catch
       (act_bind (lstat name) (\<lambda>info.
          if de_is_file info \<and> now - de_mtime info > STALE then unlink name else act_ret ()))
       (\<lambda>e. if e = Errno ENOENT then act_ret () else act_throw e)"

definition cleanTemps :: "string \<Rightarrow> int \<Rightarrow> ('d, unit) io" where
  "cleanTemps digest now =
     act_bind read_dir (\<lambda>names. act_each (clean_one now) (filter (is_temp digest) names))"

text \<open>
  \<open>commit\<close>: up to and including the rename, then the steps after it, whose failures are
  reported as indeterminate (the flag \<open>renamed\<close> of the source tells the two apart).
\<close>

definition stage_manifest :: "string \<Rightarrow> string \<Rightarrow> manifest \<Rightarrow> ('d, unit) io" where
  "stage_manifest path tmp m =
     act_bind assertOwned (\<lambda>_.
     act_bind (open_new tmp) (\<lambda>_.
     act_bind (act_finally (act_bind (write_file tmp (json_manifest m)) (\<lambda>_. plain_call)) plain_call) (\<lambda>_.
     act_bind assertOwned (\<lambda>_.
     rename_entry tmp path))))"

definition confirm_manifest :: "string \<Rightarrow> manifest \<Rightarrow> ('d, unit) io" where
  "confirm_manifest path m =
     act_bind assertOwned (\<lambda>_.
     act_bind plain_call (\<lambda>_.
     act_bind (act_finally plain_call plain_call) (\<lambda>_.
     act_bind assertOwned (\<lambda>_.
     act_bind (readUnlocked path (mf_canonicalCwd m)) (\<lambda>found.
     act_bind assertOwned (\<lambda>_.
     if (case found of None \<Rightarrow> True | Some f \<Rightarrow> mf_revision f \<noteq> mf_revision m)
     then act_throw Verification_failed else act_ret ()))))))"

definition commit :: "string \<Rightarrow> string \<Rightarrow> manifest \<Rightarrow> ('d, unit) io" where
  "commit digest path m =
     act_bind (temp_name digest) (\<lambda>tmp.
     act_bind
       (act_catch (stage_manifest path tmp m)
          (\<lambda>e. if e = Failure Lock_compromised then act_throw e
               else act_bind (act_catch (unlink tmp) (\<lambda>_ :: 'd thrown. act_ret ())) (\<lambda>_. act_throw (Failure (Commit_failure e)))))
       (\<lambda>_. act_map_error (\<lambda>e. Failure (Commit_indeterminate (mf_revision m) e)) (confirm_manifest path m)))"

text \<open>
  The answer of \<open>withLock\<close> from the operation's result, the release's, and whether the lock was
  lost; \<open>revision_of\<close> is given where the operation commits.
\<close>

definition lock_answer ::
  "('a \<Rightarrow> jsnumber) option \<Rightarrow> 'd catalog_failure + 'a \<Rightarrow> 'd thrown + unit \<Rightarrow> bool \<Rightarrow> 'd catalog_failure + 'a" where
  "lock_answer revision_of r released lost =
     (case r of
        Inl e \<Rightarrow> Inl e
      | Inr v \<Rightarrow>
          if lost
          then Inl (case revision_of of
                 Some get_revision \<Rightarrow> Committed_release_failed (get_revision v) (Failure Lock_compromised)
               | None \<Rightarrow> Lock_compromised)
          else (case released of
                  Inl e \<Rightarrow> Inl (case revision_of of
                    Some get_revision \<Rightarrow> Committed_release_failed (get_revision v) (Failure (Operation_failure e))
                  | None \<Rightarrow> Operation_failure e)
                | Inr _ \<Rightarrow> Inr v))"

definition withLock :: "(('d, unit) io \<Rightarrow> ('d, 'a) catalog_act) \<Rightarrow> ('a \<Rightarrow> jsnumber) option \<Rightarrow> ('d, 'a) catalog_act" where
  "withLock operation revision_of =
     act_bind (act_map_error Operation_failure plain_call) (\<lambda>_.
     act_bind (act_map_error (\<lambda>e. if e = Errno (Fault ELOCKED) then Lock_timeout else Operation_failure e) plain_call) (\<lambda>_.
     \<lambda>s. (case act_bind (act_map_error failure assertOwned) (\<lambda>_. operation assertOwned) s of
           (r, s) \<Rightarrow> (case plain_call s of (released, s) \<Rightarrow> (lock_answer revision_of r released (compromised s), s)))))"

text \<open>\<open>identity\<close>: the canonical directory and, through its digest, the manifest's name.\<close>

record environment =
  en_realpath :: "string \<Rightarrow> string option"
  en_sha256 :: "string \<Rightarrow> string"

definition identity :: "environment \<Rightarrow> string \<Rightarrow> ('d, string) catalog_act" where
  "identity en cwd = act_lift (case en_realpath en cwd of None \<Rightarrow> Inl (Read_failure (Errno ENOENT)) | Some c \<Rightarrow> Inr c)"

definition read_manifest :: "environment \<Rightarrow> string \<Rightarrow> ('d, manifest option) catalog_act" where
  "read_manifest en cwd =
     act_bind (identity en cwd) (\<lambda>c.
       withLock (\<lambda>_. act_map_error failure (readUnlocked (manifest_name (en_sha256 en c)) c)) None)"

definition empty_manifest :: "string \<Rightarrow> string \<Rightarrow> manifest" where
  "empty_manifest cwd iso_now = \<lparr>mf_canonicalCwd = cwd, mf_revision = Finite 0, mf_updatedAt = iso_now,
     mf_coordinator = None, mf_sessions = []\<rparr>"

definition next_revision :: "manifest option \<Rightarrow> jsnumber" where
  "next_revision current = (case current of None \<Rightarrow> Finite 1 | Some m \<Rightarrow>
     (case mf_revision m of Finite q \<Rightarrow> Finite (q + 1) | n \<Rightarrow> n))"

text \<open>The draft the caller's transformation makes, stamped and checked.\<close>

definition next_manifest ::
  "string \<Rightarrow> string \<Rightarrow> (manifest \<Rightarrow> 'd + manifest) \<Rightarrow> manifest option \<Rightarrow> 'd thrown + manifest" where
  "next_manifest cwd iso_now transform current =
     (case transform (case current of None \<Rightarrow> empty_manifest cwd iso_now | Some m \<Rightarrow> m) of
        Inl d \<Rightarrow> Inl (Domain d)
      | Inr draft \<Rightarrow>
          (case validateManifest (json_manifest (draft\<lparr>mf_canonicalCwd := cwd, mf_revision := next_revision current,
                  mf_updatedAt := iso_now\<rparr>)) of
             Inl e \<Rightarrow> Inl (Failure (Manifest_failure e))
           | Inr m \<Rightarrow> Inr m))"

definition update_manifest :: "environment \<Rightarrow> string \<Rightarrow> (manifest \<Rightarrow> 'd + manifest) \<Rightarrow> ('d, manifest) catalog_act" where
  "update_manifest en cwd transform =
     act_bind (identity en cwd) (\<lambda>c.
       let digest = en_sha256 en c; path = manifest_name digest in
       withLock (\<lambda>_.
         act_bind (act_get (\<lambda>s. (st_now s, st_iso s))) (\<lambda>(now, iso_now).
         act_bind (act_map_error failure (readUnlocked path c)) (\<lambda>current.
         act_bind (act_map_error failure (cleanTemps digest now)) (\<lambda>_.
         act_bind (act_map_error failure (act_lift (next_manifest c iso_now transform current))) (\<lambda>m.
         act_bind (act_map_error failure (commit digest path m)) (\<lambda>_.
         act_ret m)))))) (Some mf_revision))"

section \<open>What the calls leave alone\<close>

lemma entry_step [simp]: "entry n (s\<lparr>st_step := k\<rparr>) = entry n s" "entry n (s\<lparr>st_uses := j\<rparr>) = entry n s"
  by (simp_all add: entry_def)

lemma entry_put [simp]: "entry n (put_entry n' e s) = (if n = n' then Some e else entry n s)"
  by (simp add: entry_def put_entry_def jm_get_set)

lemma entry_delete [simp]: "entry n (s\<lparr>st_dir := jm_delete n' (st_dir s)\<rparr>) = (if n = n' then None else entry n s)"
  by (simp add: entry_def jm_get_delete)

lemma keeps_call: "(\<And>s. entry n (snd (f s)) = entry n s) \<Longrightarrow> keeps (entry n) (call f)"
  unfolding keeps_def call_def by (auto simp: Let_def split: option.split prod.split sum.split) (metis entry_step(1) snd_conv)+

lemma keeps_reads [keeps_intros]:
  "keeps (entry n) (read_file k)" "keeps (entry n) read_dir" "keeps (entry n) (lstat k)"
  "keeps (entry n) plain_call" "keeps (entry n) assertOwned" "keeps (entry n) (temp_name d)"
  unfolding read_file_def read_dir_def lstat_def plain_call_def
  by (auto intro!: keeps_call split: option.split) (simp_all add: keeps_def assertOwned_def temp_name_def)

lemma keeps_writes [keeps_intros]:
  assumes "n \<noteq> k"
  shows "keeps (entry n) (unlink k)" "keeps (entry n) (open_new k)" "keeps (entry n) (write_file k v)"
  unfolding unlink_def open_new_def write_file_def
  using assms by (auto intro!: keeps_call split: option.split)

lemma keeps_readUnlocked [keeps_intros]: "keeps (entry n) (readUnlocked k cwd)"
  unfolding readUnlocked_def
  by (intro keeps_intros) (auto intro!: keeps_intros split: option.split doc.split sum.split)

lemma temp_not_manifest: "is_temp d n \<Longrightarrow> n \<noteq> manifest_name d"
proof
  assume t: "is_temp d n" and n: "n = manifest_name d"
  have "drop (length n - 4) n = ''.tmp''"
    using t by (simp add: is_temp_def Let_def)
  then show False
    by (simp add: n manifest_name_def)
qed

lemma temp_name_other: "temp_prefix d @ r @ ''.tmp'' \<noteq> manifest_name d"
proof
  assume "temp_prefix d @ r @ ''.tmp'' = manifest_name d"
  then have "last (temp_prefix d @ r @ ''.tmp'') = last (manifest_name d)"
    by simp
  then show False
    by (simp add: manifest_name_def)
qed

lemma keeps_cleanTemps [keeps_intros]: "keeps (entry (manifest_name d)) (cleanTemps d now)"
proof -
  have "keeps (entry (manifest_name d)) (clean_one now n)" if "is_temp d n" for n
    using temp_not_manifest [OF that] unfolding clean_one_def by (intro keeps_intros) simp_all
  then show ?thesis
    unfolding cleanTemps_def by (intro keeps_intros) auto
qed

lemma keeps_confirm [keeps_intros]: "keeps (entry n) (confirm_manifest path m)"
  unfolding confirm_manifest_def by (intro keeps_intros)

section \<open>The commit\<close>

definition holds :: "string \<Rightarrow> manifest \<Rightarrow> store \<Rightarrow> bool" where
  "holds path m s \<longleftrightarrow> map_option de_doc (entry path s) = Some (Json (json_manifest m))"

lemma call_Inr: "call f s = (Inr a, s') \<longleftrightarrow>
    st_fault s (st_step s) = None \<and> f (s\<lparr>st_step := Suc (st_step s)\<rparr>) = (Inr a, s')"
  by (auto simp: call_def Let_def split: option.splits prod.splits sum.splits)

lemma stage_manifest_result:
  fixes r :: "'d thrown + unit"
  assumes "stage_manifest path tmp m s = (r, s')" and "tmp \<noteq> path"
  shows "(r = Inr () \<and> holds path m s') \<or> (r \<noteq> Inr () \<and> entry path s' = entry path s)"
proof -
  let ?store = "act_finally (act_bind (write_file tmp (json_manifest m)) (\<lambda>_. plain_call)) plain_call"
  define head :: "('d, unit) io" where
    "head = act_bind assertOwned (\<lambda>_. act_bind (open_new tmp) (\<lambda>_. act_bind ?store (\<lambda>_. assertOwned)))"
  have whole: "stage_manifest path tmp m = act_bind head (\<lambda>_. rename_entry tmp path)"
    by (rule ext) (simp add: stage_manifest_def head_def act_bind_def split: prod.split sum.split)
  have keep: "keeps (entry path) head"
    using assms(2) unfolding head_def by (intro keeps_intros) auto
  obtain h t where ht: "head s = (h, t)"
    by fastforce
  have t: "entry path t = entry path s"
    by (rule keepsD [OF keep ht])
  show ?thesis
  proof (cases h)
    case (Inl e)
    then show ?thesis
      using assms(1) ht t unfolding whole by (auto simp: act_bind_def)
  next
    case (Inr u)
    then have w: "head s = (Inr (), t)"
      using ht by simp
    then obtain s1 s2 s3 s4 where s1: "write_file tmp (json_manifest m) s1 = ((Inr () :: 'd thrown + unit), s2)" and
      s2: "plain_call s2 = ((Inr () :: 'd thrown + unit), s3)" "plain_call s3 = ((Inr () :: 'd thrown + unit), s4)"
        "assertOwned s4 = ((Inr () :: 'd thrown + unit), t)"
      by (auto simp: head_def act_Inr)
    have "entry tmp t = entry tmp s2"
      using keepsD [OF keeps_reads(4) s2(1)] keepsD [OF keeps_reads(4) s2(2)] keepsD [OF keeps_reads(5) s2(3)] by simp
    then have tmp: "map_option de_doc (entry tmp t) = Some (Json (json_manifest m))"
      using s1 by (auto simp: write_file_def call_Inr)
    have r: "rename_entry tmp path t = (r, s')"
      using assms(1) w unfolding whole by (simp add: act_bind_def)
    show ?thesis
    proof (cases r)
      case (Inl e)
      then show ?thesis
        using r t tmp assms(2)
        by (auto simp: rename_entry_def call_def Let_def split: option.splits prod.splits sum.splits if_splits)
    next
      case (Inr u)
      then show ?thesis
        using r tmp by (auto simp: rename_entry_def call_Inr holds_def entry_def jm_get_set split: option.splits)
    qed
  qed
qed

fun is_committed_failure :: "'d catalog_failure \<Rightarrow> bool" where
  "is_committed_failure (Commit_indeterminate _ _) = True"
| "is_committed_failure (Committed_release_failed _ _) = True"
| "is_committed_failure _ = False"

text \<open>The answers that say that the new manifest is in place.\<close>

definition committed :: "'d catalog_failure + manifest \<Rightarrow> bool" where
  "committed r = (case r of Inl e \<Rightarrow> is_committed_failure e | Inr _ \<Rightarrow> True)"

lemma commit_result:
  fixes r :: "'d thrown + unit"
  assumes "commit d (manifest_name d) m s = (r, s')"
  shows "(r = Inr () \<and> holds (manifest_name d) m s') \<or>
    (\<exists>e. r = Inl (Failure (Commit_indeterminate (mf_revision m) e)) \<and> holds (manifest_name d) m s') \<or>
    ((\<exists>e. r = Inl (Failure e) \<and> \<not> is_committed_failure e) \<and> entry (manifest_name d) s' = entry (manifest_name d) s)"
proof -
  let ?path = "manifest_name d"
  obtain tmp s1 where tmp: "temp_name d s = ((Inr tmp :: 'd thrown + string), s1)" and neq: "tmp \<noteq> ?path"
    and s1: "entry ?path s1 = entry ?path s"
    using temp_name_other [of d] by (auto simp: temp_name_def)
  obtain q s2 where q: "stage_manifest ?path tmp m s1 = ((q :: 'd thrown + unit), s2)"
    by fastforce
  note stage = stage_manifest_result [OF q neq]
  show ?thesis
  proof (cases q)
    case (Inl e)
    then have same: "entry ?path s2 = entry ?path s"
      using stage s1 by auto
    have un: "entry ?path (snd (unlink tmp s2 :: ('d thrown + unit) \<times> store)) = entry ?path s2"
      using keeps_writes(1) [of ?path tmp] neq unfolding keeps_def by metis
    show ?thesis
    proof (cases "e = Failure Lock_compromised")
      case True
      then show ?thesis
        using assms tmp q Inl same by (auto simp: commit_def act_bind_def act_catch_def act_throw_def)
    next
      case False
      then have "r = Inl (Failure (Commit_failure e))" "s' = snd (unlink tmp s2 :: ('d thrown + unit) \<times> store)"
        using assms tmp q Inl
        by (auto simp: commit_def act_bind_def act_catch_def act_throw_def act_ret_def split: prod.splits sum.splits)
      then show ?thesis
        using same un by simp
    qed
  next
    case (Inr u)
    then have h: "holds ?path m s2"
      using stage by auto
    have k: "entry ?path s' = entry ?path s2" and
      r: "r = Inr () \<or> (\<exists>e. r = Inl (Failure (Commit_indeterminate (mf_revision m) e)))"
    proof -
      have run: "act_map_error (\<lambda>e. Failure (Commit_indeterminate (mf_revision m) e)) (confirm_manifest ?path m) s2 = (r, s')"
        using assms tmp q Inr by (auto simp: commit_def act_bind_def act_catch_def)
      then show "entry ?path s' = entry ?path s2"
        using keeps_map_error [OF keeps_confirm] by (rule keepsD [rotated])
      show "r = Inr () \<or> (\<exists>e. r = Inl (Failure (Commit_indeterminate (mf_revision m) e)))"
        using run by (cases r) (auto simp: act_map_error_Inl)
    qed
    then show ?thesis
      using h unfolding holds_def by auto
  qed
qed

text \<open>What a read of the stored manifest finds.\<close>

definition held :: "string \<Rightarrow> string \<Rightarrow> store \<Rightarrow> manifest_error + manifest option" where
  "held path cwd s =
     (case entry path s of
        None \<Rightarrow> Inr None
      | Some e \<Rightarrow>
          (case de_doc e of
             Garbled \<Rightarrow> Inl (Malformed ''json'')
           | Json v \<Rightarrow>
               (case validateManifest v of
                  Inl err \<Rightarrow> Inl err
                | Inr m \<Rightarrow> if mf_canonicalCwd m \<noteq> cwd then Inl (Malformed ''identity'') else Inr (Some m))))"

lemma read_file_result:
  "read_file path s = (r, s') \<Longrightarrow>
   (\<exists>e. r = Inl (Errno (Fault e))) \<or>
   r = (case entry path s of None \<Rightarrow> Inl (Errno ENOENT) | Some e \<Rightarrow> Inr (de_doc e))"
  by (auto simp: read_file_def call_def Let_def split: option.splits prod.splits sum.splits)

lemma readUnlocked_Inr:
  fixes s :: store
  assumes "readUnlocked path cwd s = ((Inr current :: 'd thrown + manifest option), s')"
  shows "held path cwd s = Inr current"
proof -
  obtain r t where r: "read_file path s = ((r :: 'd thrown + doc), t)"
    by fastforce
  show ?thesis
    using assms r read_file_result [OF r]
    by (auto simp: readUnlocked_def act_bind_def act_catch_def act_ret_def act_throw_def held_def
        split: option.splits doc.splits sum.splits if_splits)
qed

definition no_commit :: "'d thrown \<Rightarrow> bool" where
  "no_commit e \<longleftrightarrow> \<not> is_committed_failure (failure e)"

lemma no_commit_simps [simp]: "no_commit (Errno n)" "no_commit (Domain d)" "no_commit Verification_failed"
  "no_commit (Failure (Read_failure e))" "no_commit (Failure (Manifest_failure e'))" "no_commit (Failure Lock_compromised)"
  by (simp_all add: no_commit_def failure_def)

lemma raises_call: "raises no_commit (call f)"
  by (auto simp: raises_def call_def Let_def split: option.splits prod.splits sum.splits)

lemma raises_assertOwned [raises_intros]: "raises no_commit assertOwned"
  by (simp add: raises_def assertOwned_def)

lemma raises_readUnlocked: "raises no_commit (readUnlocked path cwd)"
  unfolding readUnlocked_def
  by (intro raises_intros) (auto intro!: raises_intros split: option.split doc.split sum.split)

lemma raises_cleanTemps: "raises no_commit (cleanTemps d now)"
proof -
  have "raises no_commit (clean_one now n)" for n
    unfolding clean_one_def
    by (rule raises_catch_with [of no_commit]) (auto intro!: raises_intros simp: lstat_def unlink_def raises_call)
  then show ?thesis
    unfolding cleanTemps_def by (intro raises_intros) (simp_all add: read_dir_def raises_call)
qed

definition update_op ::
  "string \<Rightarrow> string \<Rightarrow> (manifest \<Rightarrow> 'd + manifest) \<Rightarrow> ('d, manifest) catalog_act" where
  "update_op digest c transform =
     act_bind (act_get (\<lambda>s. (st_now s, st_iso s))) (\<lambda>(now, iso_now).
     act_bind (act_map_error failure (readUnlocked (manifest_name digest) c)) (\<lambda>current.
     act_bind (act_map_error failure (cleanTemps digest now)) (\<lambda>_.
     act_bind (act_map_error failure (act_lift (next_manifest c iso_now transform current))) (\<lambda>m.
     act_bind (act_map_error failure (commit digest (manifest_name digest) m)) (\<lambda>_.
     act_ret m)))))"

text \<open>\<open>s\<close> to \<open>s'\<close> put the manifest in place that the transformation makes of the stored one.\<close>

definition replaced ::
  "string \<Rightarrow> string \<Rightarrow> (manifest \<Rightarrow> 'd + manifest) \<Rightarrow> store \<Rightarrow> store \<Rightarrow> manifest \<Rightarrow> bool" where
  "replaced digest c transform s s' m \<longleftrightarrow>
     (\<exists>old. held (manifest_name digest) c s = Inr old \<and> next_manifest c (st_iso s) transform old = Inr m \<and>
        holds (manifest_name digest) m s')"

lemma update_op_result:
  fixes r :: "'d catalog_failure + manifest"
  assumes "update_op d c f s = (r, s')"
  shows "if committed r then \<exists>m. replaced d c f s s' m \<and> (\<forall>n. r = Inr n \<longrightarrow> n = m) \<and>
      (\<forall>e. r = Inl e \<longrightarrow> (\<exists>e'. e = Commit_indeterminate (mf_revision m) e'))
    else entry (manifest_name d) s' = entry (manifest_name d) s"
proof -
  let ?p = "manifest_name d"
  let ?read = "act_map_error failure (readUnlocked ?p c) :: ('d, manifest option) catalog_act"
  let ?clean = "act_map_error failure (cleanTemps d (st_now s)) :: ('d, unit) catalog_act"
  let ?next = "\<lambda>old. act_map_error failure (act_lift (next_manifest c (st_iso s) f old)) :: ('d, manifest) catalog_act"
  let ?commit = "\<lambda>m. act_map_error failure (commit d ?p m) :: ('d, unit) catalog_act"
  have no: "\<not> is_committed_failure e \<and> entry ?p t' = entry ?p t"
    if "act_map_error failure m t = (Inl e, t')" "raises no_commit m" "keeps (entry ?p) m"
    for m :: "('d, 'x) io" and e t t'
    using that keepsD [OF keeps_map_error [OF that(3)] that(1)]
    by (auto simp: act_map_error_Inl no_commit_def dest: raisesD)
  obtain a s1 where 1: "?read s = (a, s1)"
    by fastforce
  show ?thesis
  proof (cases a)
    case (Inl e)
    then have "r = Inl e" "s' = s1"
      using assms 1 by (auto simp: update_op_def act_bind_def act_get_def)
    then show ?thesis
      using no [OF 1 [unfolded Inl] raises_readUnlocked keeps_readUnlocked] by (simp add: committed_def)
  next
    case (Inr old)
    then have old: "held ?p c s = Inr old" and e1: "entry ?p s1 = entry ?p s"
      using 1 readUnlocked_Inr keepsD [OF keeps_map_error [OF keeps_readUnlocked] 1] by (auto simp: act_map_error_Inr)
    obtain b s2 where 2: "?clean s1 = (b, s2)"
      by fastforce
    show ?thesis
    proof (cases b)
      case Inl2: (Inl e)
      then have "r = Inl e" "s' = s2"
        using assms 1 2 Inr by (auto simp: update_op_def act_bind_def act_get_def)
      then show ?thesis
        using no [OF 2 [unfolded Inl2] raises_cleanTemps keeps_cleanTemps] e1 by (simp add: committed_def)
    next
      case Inr2: (Inr u)
      have e2: "entry ?p s2 = entry ?p s"
        using keepsD [OF keeps_map_error [OF keeps_cleanTemps] 2] e1 by simp
      show ?thesis
      proof (cases "next_manifest c (st_iso s) f old")
        case Inl3: (Inl e)
        then have "r = Inl (failure e)" "s' = s2"
          using assms 1 2 Inr Inr2
          by (auto simp: update_op_def act_bind_def act_get_def act_map_error_def act_catch_def act_lift_def act_throw_def)
        moreover have "no_commit e"
          using Inl3 by (auto simp: next_manifest_def split: sum.splits)
        ultimately show ?thesis
          using e2 by (simp add: committed_def no_commit_def)
      next
        case Inr3: (Inr m)
        obtain q s3 where q: "commit d ?p m s2 = ((q :: 'd thrown + unit), s3)"
          by fastforce
        have r: "r = (case q of Inl e \<Rightarrow> Inl (failure e) | Inr _ \<Rightarrow> Inr m)" "s' = s3"
          using assms 1 2 Inr Inr2 Inr3 q
          by (auto simp: update_op_def act_bind_def act_get_def act_map_error_def act_catch_def act_lift_def
              act_throw_def act_ret_def split: sum.splits)
        have "replaced d c f s s' m" if "holds ?p m s3"
          using that old Inr3 r(2) by (auto simp: replaced_def)
        then show ?thesis
          using commit_result [OF q] r e2 by (auto simp: committed_def failure_def)
      qed
    qed
  qed
qed

lemma next_manifest_Inr:
  assumes "next_manifest c now transform old = Inr m"
  shows "manifest_ok m \<and> mf_canonicalCwd m = c \<and> mf_revision m = next_revision old \<and> mf_updatedAt m = now"
proof -
  obtain draft where d: "validateManifest (json_manifest (draft\<lparr>mf_canonicalCwd := c, mf_revision := next_revision old,
      mf_updatedAt := now\<rparr>)) = Inr m"
    using assms by (auto simp: next_manifest_def split: sum.splits)
  have "decodeManifest (json_manifest x) = Inr x" for x
    by (rule decodeManifest_json)
  then have "m = draft\<lparr>mf_canonicalCwd := c, mf_revision := next_revision old, mf_updatedAt := now\<rparr>" "validate_checks m = None"
    using d by (auto simp: validateManifest_def split: option.splits)
  then show ?thesis
    by (simp add: validate_checks_None)
qed

lemma validate_json:
  assumes "manifest_ok m"
  shows "validateManifest (json_manifest m) = Inr m"
proof -
  have "decodeManifest (json_manifest m) = Inr m"
    by (rule decodeManifest_json)
  then show ?thesis
    using assms validate_checks_None [of m] by (simp add: validateManifest_def)
qed

lemma held_holds:
  assumes "manifest_ok m" and "mf_canonicalCwd m = c" and "holds path m s"
  shows "held path c s = Inr (Some m)"
  using assms(2,3) validate_json [OF assms(1)] by (auto simp: held_def holds_def)

lemma held_cong: "entry path s' = entry path s \<Longrightarrow> held path c s' = held path c s"
  by (simp add: held_def)

lemma plain_call_same: "plain_call s = (r, s') \<Longrightarrow> st_iso s' = st_iso s \<and> st_now s' = st_now s \<and> entry n s' = entry n s"
  by (auto simp: plain_call_def call_def Let_def split: option.splits)

lemma assertOwned_same: "assertOwned s = (r, s') \<Longrightarrow> s' = s"
  by (simp add: assertOwned_def)

text \<open>The lock around an operation: its result, or a failure that tells whether it had committed.\<close>

lemma withLock_cases:
  fixes r :: "'d catalog_failure + 'a"
  assumes "withLock operation revision_of s = (r, s')"
  shows "(\<exists>e. r = Inl e \<and> \<not> is_committed_failure e \<and> entry n s' = entry n s) \<or>
    (\<exists>s1 q s2. st_iso s1 = st_iso s \<and> st_now s1 = st_now s \<and> (\<forall>n. entry n s1 = entry n s) \<and>
       operation assertOwned s1 = (q, s2) \<and> entry n s' = entry n s2 \<and>
       (case q of Inl e \<Rightarrow> r = Inl e
        | Inr v \<Rightarrow> r = Inr v \<or> (case revision_of of
            Some get_revision \<Rightarrow> \<exists>e. r = Inl (Committed_release_failed (get_revision v) e)
          | None \<Rightarrow> \<exists>e. r = Inl e \<and> \<not> is_committed_failure e)))"
proof -
  obtain a s1 where a: "plain_call s = ((a :: 'd thrown + unit), s1)"
    by fastforce
  obtain b s2 where b: "plain_call s1 = ((b :: 'd thrown + unit), s2)"
    by fastforce
  have same: "st_iso s2 = st_iso s \<and> st_now s2 = st_now s \<and> (\<forall>n. entry n s2 = entry n s)"
    "\<forall>n. entry n s1 = entry n s"
    using plain_call_same [OF a] plain_call_same [OF b] by auto
  show ?thesis
  proof (cases "\<exists>u v. a = Inr u \<and> b = Inr v")
    case False
    then have "\<exists>e. r = Inl e \<and> \<not> is_committed_failure e \<and> (s' = s1 \<or> s' = s2)"
      using assms a b
      by (auto simp: withLock_def act_bind_def act_map_error_def act_catch_def act_throw_def split: sum.splits if_splits)
    then show ?thesis
      using same by auto
  next
    case True
    let ?run = "\<lambda>s. act_bind (act_map_error failure assertOwned) (\<lambda>_. operation assertOwned) s"
    obtain q s3 where q: "?run s2 = (q, s3)"
      by fastforce
    obtain rel s4 where rel: "plain_call s3 = ((rel :: 'd thrown + unit), s4)"
      by fastforce
    have e4: "entry n s4 = entry n s3"
      using plain_call_same [OF rel] by simp
    have "s' = s4 \<and> r = lock_answer revision_of q rel (compromised s4)"
    proof -
      have a': "(act_map_error Operation_failure plain_call :: ('d, unit) catalog_act) s = (Inr (), s1)"
        using a True by (auto intro: act_map_error_run)
      have b': "(act_map_error (\<lambda>e. if e = Errno (Fault ELOCKED) then Lock_timeout else Operation_failure e) plain_call
          :: ('d, unit) catalog_act) s1 = (Inr (), s2)"
        using b True by (auto intro: act_map_error_run)
      show ?thesis
        using assms unfolding withLock_def act_bind_def [of "act_map_error _ plain_call"] by (auto simp: a' b' q rel)
    qed
    then have r: "s' = s4 \<and> (case q of Inl e \<Rightarrow> r = Inl e
        | Inr v \<Rightarrow> r = Inr v \<or> (case revision_of of
            Some get_revision \<Rightarrow> \<exists>e. r = Inl (Committed_release_failed (get_revision v) e)
          | None \<Rightarrow> \<exists>e. r = Inl e \<and> \<not> is_committed_failure e))"
      by (auto simp: lock_answer_def split: sum.splits option.splits)
    show ?thesis
    proof (cases "compromised s2")
      case True
      then have "q = Inl Lock_compromised" "s3 = s2"
        using q by (auto simp: act_bind_def act_map_error_def act_catch_def act_throw_def assertOwned_def failure_def)
      then show ?thesis
        using r e4 same by auto
    next
      case False
      then have "operation assertOwned s2 = (q, s3)"
        using q by (simp add: act_bind_def act_map_error_def act_catch_def assertOwned_def)
      then show ?thesis
        using r e4 same by blast
    qed
  qed
qed

lemma update_manifest_result:
  fixes r :: "'d catalog_failure + manifest"
  assumes "en_realpath en cwd = Some c" and "update_manifest en cwd transform s = (r, s')"
  shows "if committed r
    then \<exists>old m. held (manifest_name (en_sha256 en c)) c s = Inr old \<and>
      next_manifest c (st_iso s) transform old = Inr m \<and> mf_revision m = next_revision old \<and>
      held (manifest_name (en_sha256 en c)) c s' = Inr (Some m) \<and> (\<forall>n. r = Inr n \<longrightarrow> n = m)
    else held (manifest_name (en_sha256 en c)) c s' = held (manifest_name (en_sha256 en c)) c s"
proof -
  let ?d = "en_sha256 en c"
  let ?p = "manifest_name ?d"
  have lock: "withLock (\<lambda>_. update_op ?d c transform) (Some mf_revision) s = (r, s')"
    using assms by (simp add: update_manifest_def identity_def act_bind_def act_lift_def update_op_def Let_def)
  have done_replaced: ?thesis
    if rep: "replaced ?d c transform s1 s2 m" and same: "st_iso s1 = st_iso s" "entry ?p s1 = entry ?p s"
      "entry ?p s' = entry ?p s2" and com: "committed r" and ret: "\<forall>n. r = Inr n \<longrightarrow> n = m" for s1 s2 m
  proof -
    obtain old where old: "held ?p c s = Inr old" "next_manifest c (st_iso s) transform old = Inr m" "holds ?p m s'"
      using rep same held_cong [of ?p s1 s c] by (auto simp: replaced_def holds_def)
    show ?thesis
      using old next_manifest_Inr [OF old(2)] held_holds [OF _ _ old(3)] com ret by auto
  qed
  from withLock_cases [OF lock, of ?p] show ?thesis
  proof (elim disjE exE conjE)
    fix e
    assume "r = Inl e" "\<not> is_committed_failure e" "entry ?p s' = entry ?p s"
    then show ?thesis
      using held_cong [of ?p s' s c] by (simp add: committed_def)
  next
    fix s1 q s2
    assume s1: "st_iso s1 = st_iso s" "\<forall>n. entry n s1 = entry n s" "entry ?p s' = entry ?p s2"
      and q: "update_op ?d c transform s1 = (q, s2)"
      and r: "case q of Inl e \<Rightarrow> r = Inl e
        | Inr v \<Rightarrow> r = Inr v \<or> (case Some mf_revision of
            Some get_revision \<Rightarrow> \<exists>e. r = Inl (Committed_release_failed (get_revision v) e)
          | None \<Rightarrow> \<exists>e. r = Inl e \<and> \<not> is_committed_failure e)"
    note op = update_op_result [OF q]
    show ?thesis
    proof (cases "committed q")
      case True
      then obtain m where m: "replaced ?d c transform s1 s2 m" "\<forall>n. q = Inr n \<longrightarrow> n = m"
        using op by auto
      have "committed r" "\<forall>n. r = Inr n \<longrightarrow> n = m"
        using r True m(2) by (auto simp: committed_def split: sum.splits)
      then show ?thesis
        using done_replaced [OF m(1) s1(1) _ s1(3)] s1(2) by blast
    next
      case False
      then have "\<not> committed r" "entry ?p s' = entry ?p s"
        using r op s1 by (auto simp: committed_def split: sum.splits)
      then show ?thesis
        using held_cong [of ?p s' s c] by simp
    qed
  qed
qed

section \<open>Properties\<close>

text \<open>C2: an update is atomic, whatever call fails and whenever the lock is lost: when it answers
  that it committed (also when it could not confirm, or not release the lock), a read finds the
  manifest the transformation made of the stored one, with the next revision; otherwise a read
  finds what it found before.\<close>

theorem update_atomic:
  fixes r :: "'d catalog_failure + manifest"
  assumes "en_realpath en cwd = Some c" and "update_manifest en cwd transform s = (r, s')"
  shows "if committed r
    then \<exists>old m. held (manifest_name (en_sha256 en c)) c s = Inr old \<and>
      next_manifest c (st_iso s) transform old = Inr m \<and> mf_revision m = next_revision old \<and>
      held (manifest_name (en_sha256 en c)) c s' = Inr (Some m) \<and> (\<forall>n. r = Inr n \<longrightarrow> n = m)
    else held (manifest_name (en_sha256 en c)) c s' = held (manifest_name (en_sha256 en c)) c s"
  by (rule update_manifest_result [OF assms])

text \<open>The states of a run without failures: the stored manifest is untouched, \<open>tmp\<close> is free.\<close>

definition calm :: "string \<Rightarrow> dir_entry option \<Rightarrow> string \<Rightarrow> store \<Rightarrow> store \<Rightarrow> bool" where
  "calm p e tmp s0 s \<longleftrightarrow> (\<forall>k. st_fault s k = None) \<and> st_lost_from s = None \<and> entry p s = e \<and> entry tmp s = None \<and>
     st_random s = st_random s0 \<and> st_uses s = st_uses s0 \<and> st_iso s = st_iso s0 \<and> st_now s = st_now s0"

lemma call_quiet: "st_fault s (st_step s) = None \<Longrightarrow>
    call f s = (case f (s\<lparr>st_step := Suc (st_step s)\<rparr>) of (Inl e, s') \<Rightarrow> (Inl (Errno e), s') | (Inr a, s') \<Rightarrow> (Inr a, s'))"
  by (simp add: call_def Let_def)

lemma calm_step [simp]: "calm p e tmp s0 (s\<lparr>st_step := k\<rparr>) = calm p e tmp s0 s"
  by (simp add: calm_def)

lemma calm_plain: "returns (calm p e tmp s0) plain_call"
  unfolding returns_def plain_call_def by (auto simp: call_def Let_def) (auto simp: calm_def)

lemma calm_owned: "returns (calm p e tmp s0) assertOwned"
  by (auto simp: returns_def assertOwned_def calm_def compromised_def)

lemma calm_read:
  assumes "calm p e tmp s0 s" and "held p c s = Inr old"
  shows "\<exists>s'. readUnlocked p c s = (Inr old, s') \<and> calm p e tmp s0 s'"
proof -
  have q: "st_fault s (st_step s) = None"
    using assms(1) by (simp add: calm_def)
  show ?thesis
    using assms(2) assms(1)
    by (auto simp: readUnlocked_def act_bind_def act_catch_def act_ret_def act_throw_def held_def read_file_def
        call_quiet [OF q] split: option.splits doc.splits sum.splits if_splits)
qed

lemma calm_clean: "returns (calm (manifest_name d) e tmp s0) (cleanTemps d now)"
proof -
  have one: "returns (calm (manifest_name d) e tmp s0) (clean_one now n)" if "is_temp d n" for n
    unfolding returns_def
  proof (intro allI impI)
    fix s
    assume c: "calm (manifest_name d) e tmp s0 s"
    then have q: "st_fault s k = None" for k
      by (simp add: calm_def)
    have un: "calm (manifest_name d) e tmp s0 (s\<lparr>st_step := k, st_dir := jm_delete n (st_dir s)\<rparr>)" for k
      using c temp_not_manifest [OF that] by (auto simp: calm_def entry_def jm_get_delete)
    show "\<exists>a s'. clean_one now n s = (Inr a, s') \<and> calm (manifest_name d) e tmp s0 s'"
      using c un
      by (auto simp: clean_one_def act_catch_def act_bind_def lstat_def unlink_def call_def q Let_def act_ret_def
          split: option.splits)
  qed
  have "returns (calm (manifest_name d) e tmp s0) read_dir"
    unfolding returns_def read_dir_def by (auto simp: call_def Let_def) (auto simp: calm_def)
  then show ?thesis
    unfolding cleanTemps_def using one by (intro returns_intros) auto
qed

lemma calm_commit:
  assumes "calm (manifest_name d) e tmp s0 s" and "tmp = temp_prefix d @ st_random s0 (st_uses s0) @ ''.tmp''"
    and "manifest_ok m"
  shows "\<exists>s'. commit d (manifest_name d) m s = ((Inr () :: 'd thrown + unit), s') \<and> holds (manifest_name d) m s' \<and>
    (\<forall>k. st_fault s' k = None) \<and> st_lost_from s' = None"
proof -
  let ?p = "manifest_name d"
  have q: "st_fault s k = None" "st_lost_from s = None" for k
    using assms(1) by (simp_all add: calm_def)
  have neq: "tmp \<noteq> ?p" "?p \<noteq> tmp"
    using temp_name_other [of d "st_random s0 (st_uses s0)"] assms(2) by auto
  have tmp: "temp_name d s = ((Inr tmp :: 'd thrown + string), s\<lparr>st_uses := Suc (st_uses s)\<rparr>)" "entry tmp s = None"
    using assms by (simp_all add: temp_name_def calm_def)
  define s1 where "s1 = s\<lparr>st_uses := Suc (st_uses s)\<rparr>"
  have st: "\<exists>s2. stage_manifest ?p tmp m s1 = ((Inr () :: 'd thrown + unit), s2) \<and> (\<forall>k. st_fault s2 k = None) \<and> st_lost_from s2 = None \<and>
      holds ?p m s2"
    using tmp(2) q neq
    by (auto simp: stage_manifest_def act_bind_def act_finally_def assertOwned_def compromised_def open_new_def
        write_file_def plain_call_def rename_entry_def call_def Let_def s1_def entry_def put_entry_def jm_get_set holds_def)
  then obtain s2 where s2: "stage_manifest ?p tmp m s1 = ((Inr () :: 'd thrown + unit), s2)" "\<And>k. st_fault s2 k = None" "st_lost_from s2 = None"
    "holds ?p m s2"
    by blast
  obtain en where en: "entry ?p s2 = Some en" "de_doc en = Json (json_manifest m)"
    using s2(4) by (auto simp: holds_def)
  have "\<exists>s'. confirm_manifest ?p m s2 = ((Inr () :: 'd thrown + unit), s') \<and> holds ?p m s' \<and> (\<forall>k. st_fault s' k = None) \<and> st_lost_from s' = None"
    using s2(2,3) en validate_json [OF assms(3)]
    by (auto simp: confirm_manifest_def act_bind_def act_finally_def act_catch_def act_ret_def assertOwned_def compromised_def
        plain_call_def readUnlocked_def read_file_def call_def Let_def holds_def)
  then show ?thesis
    using tmp(1) s2(1) by (auto simp: commit_def act_bind_def act_catch_def act_map_error_def s1_def)
qed

text \<open>Without failures an update whose transformation and checks succeed returns the manifest,
  and the next read finds it.\<close>

theorem update_without_failures:
  fixes transform :: "manifest \<Rightarrow> 'd + manifest"
  assumes "en_realpath en cwd = Some c" and "\<forall>k. st_fault s k = None" and "st_lost_from s = None"
    and "held (manifest_name (en_sha256 en c)) c s = Inr old"
    and "next_manifest c (st_iso s) transform old = Inr m"
    and "entry (temp_prefix (en_sha256 en c) @ st_random s (st_uses s) @ ''.tmp'') s = None"
  shows "\<exists>s'. update_manifest en cwd transform s = (Inr m, s') \<and>
    held (manifest_name (en_sha256 en c)) c s' = Inr (Some m)"
proof -
  let ?d = "en_sha256 en c"
  let ?p = "manifest_name ?d"
  define tmp where "tmp = temp_prefix ?d @ st_random s (st_uses s) @ ''.tmp''"
  define P where "P = calm ?p (entry ?p s) tmp s"
  have start: "P s"
    using assms(2,3,6) by (simp add: P_def calm_def tmp_def)
  obtain s1 where 1: "plain_call s = ((Inr () :: 'd thrown + unit), s1)" "P s1"
    using calm_plain start unfolding P_def returns_def by (metis (full_types) old.unit.exhaust)
  obtain s2 where 2: "plain_call s1 = ((Inr () :: 'd thrown + unit), s2)" "P s2"
    using calm_plain 1(2) unfolding P_def returns_def by (metis (full_types) old.unit.exhaust)
  have h2: "held ?p c s2 = Inr old"
    using held_cong [of ?p s2 s c] 2(2) assms(4) by (simp add: P_def calm_def)
  obtain s3 where 3: "readUnlocked ?p c s2 = ((Inr old :: 'd thrown + manifest option), s3)" "P s3"
    using calm_read h2 2(2) unfolding P_def by blast
  obtain s4 where 4: "cleanTemps ?d (st_now s) s3 = ((Inr () :: 'd thrown + unit), s4)" "P s4"
    using calm_clean 3(2) unfolding P_def returns_def by (metis (full_types) old.unit.exhaust)
  have mok: "manifest_ok m" "mf_canonicalCwd m = c"
    using next_manifest_Inr [OF assms(5)] by auto
  obtain s5 where 5: "commit ?d ?p m s4 = ((Inr () :: 'd thrown + unit), s5)" "holds ?p m s5" "\<And>k. st_fault s5 k = None" "st_lost_from s5 = None"
    using calm_commit [of ?d _ tmp s s4 m] 4(2) mok(1) unfolding P_def tmp_def by blast
  let ?s6 = "s5\<lparr>st_step := Suc (st_step s5)\<rparr>"
  have 6: "plain_call s5 = ((Inr () :: 'd thrown + unit), ?s6)"
    using 5(3) by (simp add: plain_call_def call_def Let_def)
  have env: "st_now s2 = st_now s" "st_iso s2 = st_iso s" "\<not> compromised s2" "\<not> compromised ?s6"
    using 2(2) 5(4) by (simp_all add: P_def calm_def compromised_def)
  have op: "update_op ?d c transform s2 = (Inr m, s5)"
    using 3 4 5 assms(5) env
    by (simp add: update_op_def act_bind_def act_get_def act_map_error_def act_catch_def act_lift_def act_ret_def)
  have "withLock (\<lambda>_. update_op ?d c transform) (Some mf_revision) s = (Inr m, ?s6)"
    using 1(1) 2(1) env op 6
    by (simp add: withLock_def act_bind_def act_map_error_def act_catch_def assertOwned_def lock_answer_def)
  then have "update_manifest en cwd transform s = (Inr m, ?s6)"
    using assms(1) by (simp add: update_manifest_def identity_def act_bind_def act_lift_def update_op_def Let_def)
  moreover have "held ?p c ?s6 = Inr (Some m)"
    using held_holds [OF mok 5(2)] held_cong [of ?p ?s6 s5 c] by simp
  ultimately show ?thesis
    by blast
qed

section \<open>Witnesses\<close>

definition demo_env :: environment where
  "demo_env = \<lparr>en_realpath = Some, en_sha256 = (\<lambda>_. ''0a'')\<rparr>"

definition demo_disk :: "(nat \<Rightarrow> fault option) \<Rightarrow> store" where
  "demo_disk fault = \<lparr>st_dir = [], st_step = 0, st_fault = fault, st_lost_from = None, st_random = (\<lambda>_. ''ff''),
     st_uses = 0, st_now = 1735787045678, st_iso = ''2025-01-02T03:04:05.678Z''\<rparr>"

definition demo_transform :: "manifest \<Rightarrow> unit + manifest" where
  "demo_transform m = Inr (m\<lparr>mf_sessions := [demo_session ''a'']\<rparr>)"

lemma update_without_failures_witness:
  "\<exists>m s'. update_manifest demo_env ''/w'' demo_transform (demo_disk (\<lambda>_. None)) = (Inr m, s') \<and>
    held (manifest_name (en_sha256 demo_env ''/w'')) ''/w'' s' = Inr (Some m)"
proof -
  have "\<exists>m. next_manifest ''/w'' (st_iso (demo_disk (\<lambda>_. None))) demo_transform None = Inr m"
  proof -
    have "case next_manifest ''/w'' (st_iso (demo_disk (\<lambda>_. None))) demo_transform None of Inr _ \<Rightarrow> True | Inl _ \<Rightarrow> False"
      by code_simp
    then show ?thesis
      by (auto split: sum.splits)
  qed
  then obtain m where m: "next_manifest ''/w'' (st_iso (demo_disk (\<lambda>_. None))) demo_transform None = Inr m"
    by blast
  have "en_realpath demo_env ''/w'' = Some ''/w''"
    by (simp add: demo_env_def)
  then show ?thesis
    using update_without_failures [OF _ _ _ _ m, of demo_env "''/w''"]
    by (auto simp: demo_disk_def held_def entry_def jm_get_def)
qed

text \<open>The ninth call, the renaming, fails: the update answers so and the manifest is still missing.\<close>

definition rename_fails :: store where
  "rename_fails = demo_disk (\<lambda>k. if k = 8 then Some EIO else None)"

lemma update_atomic_witness:
  "held (manifest_name (en_sha256 demo_env ''/w'')) ''/w'' (snd (update_manifest demo_env ''/w'' demo_transform rename_fails)) = Inr None"
proof -
  have "\<not> committed (fst (update_manifest demo_env ''/w'' demo_transform rename_fails))"
    by code_simp
  moreover have "en_realpath demo_env ''/w'' = Some ''/w''"
    by (simp add: demo_env_def)
  moreover have "held (manifest_name (en_sha256 demo_env ''/w'')) ''/w'' rename_fails = Inr None"
    by (simp add: held_def entry_def jm_get_def rename_fails_def demo_disk_def)
  ultimately show ?thesis
    using update_atomic [of demo_env "''/w''" "''/w''" demo_transform rename_fails
        "fst (update_manifest demo_env ''/w'' demo_transform rename_fails)"
        "snd (update_manifest demo_env ''/w'' demo_transform rename_fails)"] by simp
qed

end
