(* ===== verification/Session_Lifecycle.thy ===== *)
theory Session_Lifecycle
  imports Session_Storage
begin

text \<open>
  The session lifecycle of \<open>extensions/session-manager/lifecycle.ts\<close> and \<open>ensureCoordinator\<close> of
  \<open>coordinator.ts\<close>: what \<open>start\<close>, \<open>adopt\<close>, \<open>close\<close>, \<open>rename\<close>, \<open>refreshMaterialization\<close> and \<open>status\<close>
  do to the manifest of a workspace. The catalog is the interface \<open>SessionCatalogShape\<close>, given as a
  record of operations; the laws its clients rely on are the locale \<open>session_catalog\<close>, interpreted
  on the file catalog. The tmux host and the session files answer through parameters; the variable
  \<open>selected\<close>, which the transformation sets to the record it puts into the manifest, is read back
  from the committed manifest.
\<close>

section \<open>Interfaces\<close>

datatype domain_error =
    Not_managed string
  | Already_closed string
  | Identity_conflict string
  | Name_invalid string

record ('s, 'd) catalog =
  ca_identity :: "string \<Rightarrow> 's \<Rightarrow> ('d catalog_failure + string) \<times> 's"
  ca_read :: "string \<Rightarrow> 's \<Rightarrow> ('d catalog_failure + manifest option) \<times> 's"
  ca_update :: "string \<Rightarrow> (manifest \<Rightarrow> 'd + manifest) \<Rightarrow> 's \<Rightarrow> ('d catalog_failure + manifest) \<times> 's"

definition file_catalog :: "environment \<Rightarrow> (store, 'd) catalog" where
  "file_catalog en = \<lparr>ca_identity = identity en, ca_read = read_manifest en, ca_update = update_manifest en\<rparr>"

text \<open>\<open>sessionFiles\<close> and \<open>host\<close>: \<open>None\<close> is success, \<open>Some e\<close> a failure.\<close>

record 'x peers =
  pe_exists :: "string \<Rightarrow> 'x + bool"
  pe_verify :: "string \<Rightarrow> string \<Rightarrow> string \<Rightarrow> 'x option"
  pe_bind :: "string \<Rightarrow> string \<Rightarrow> string option \<Rightarrow> 'x option"
  pe_rename :: "string \<Rightarrow> string \<Rightarrow> string \<Rightarrow> 'x option"

record start_input =
  si_tui :: bool
  si_cwd :: string
  si_paneId :: "string option"
  si_sessionId :: string
  si_sessionFile :: "string option"
  si_sessionName :: "string option"

record managed_session =
  ms_record :: work_record
  ms_paneId :: string

datatype 'x lifecycle_error =
    Domain_failure domain_error
  | Catalog_failed "domain_error catalog_failure"
  | Peer_failure 'x
  | Binding_failed managed_session 'x
  | Window_sync_failed managed_session 'x

datatype start_result = Managed managed_session | Unmanaged string

type_synonym ('s, 'x, 'a) life = "('s, 'x lifecycle_error, 'a) act"

definition unwrapDomain :: "domain_error catalog_failure \<Rightarrow> 'x lifecycle_error" where
  "unwrapDomain e = (case e of Operation_failure (Domain d) \<Rightarrow> Domain_failure d | _ \<Rightarrow> Catalog_failed e)"

section \<open>What each operation makes of a manifest\<close>

text \<open>A text that counts as absent when it is missing or empty (\<open>x || y\<close> and \<open>if (x)\<close> on strings).\<close>

definition nonempty :: "string option \<Rightarrow> string option" where
  "nonempty t = (case t of None \<Rightarrow> None | Some s \<Rightarrow> if s = '''' then None else Some s)"

definition requested_name :: "string option \<Rightarrow> string option" where
  "requested_name t = nonempty (map_option trim_string t)"

definition persistenceFor :: "bool \<Rightarrow> string option \<Rightarrow> persistence" where
  "persistenceFor materialized sessionFile =
     (if materialized then (case nonempty sessionFile of Some f \<Rightarrow> Materialized f | None \<Rightarrow> Pending) else Pending)"

definition findOpenWorkRecord :: "manifest \<Rightarrow> string \<Rightarrow> domain_error + work_record option" where
  "findOpenWorkRecord m i =
     (case findRecord m i of
        None \<Rightarrow> Inr None
      | Some (Coordinator _) \<Rightarrow> Inl (Identity_conflict i)
      | Some (Work w) \<Rightarrow> (case wr_desired w of Closed_session _ _ \<Rightarrow> Inl (Already_closed i) | Open_session \<Rightarrow> Inr (Some w)))"

definition start_existing :: "string \<Rightarrow> persistence \<Rightarrow> string option \<Rightarrow> work_record \<Rightarrow> work_record" where
  "start_existing now observed name found =
     (let selected = found\<lparr>sr_persistence := (case observed of Materialized _ \<Rightarrow> observed | Pending \<Rightarrow> sr_persistence found),
                           sr_lastOpenedAt := now\<rparr> in
      if wr_explicitName found then selected
      else (case requested_name name of
              Some n \<Rightarrow> selected\<lparr>sr_name := Some n, wr_explicitName := True\<rparr>
            | None \<Rightarrow> selected\<lparr>sr_name := None\<rparr>))"

definition start_new :: "string \<Rightarrow> string \<Rightarrow> persistence \<Rightarrow> string option \<Rightarrow> string \<Rightarrow> work_record" where
  "start_new now cwd observed name i =
     \<lparr>sr_sessionId = i, sr_cwd = cwd, sr_name = requested_name name, sr_persistence = observed,
      sr_createdAt = now, sr_lastOpenedAt = now, wr_taskRef = None,
      wr_explicitName = (requested_name name \<noteq> None), wr_desired = Open_session\<rparr>"

type_synonym collation = "string \<Rightarrow> string \<Rightarrow> int"

definition start_transform ::
  "collation \<Rightarrow> string \<Rightarrow> string \<Rightarrow> persistence \<Rightarrow> string option \<Rightarrow> string \<Rightarrow> manifest \<Rightarrow> domain_error + manifest" where
  "start_transform lc now cwd observed name i m =
     try_bind (findOpenWorkRecord m i) (\<lambda>found. Inr (replaceWorkRecord lc m
       (case found of Some w \<Rightarrow> start_existing now observed name w | None \<Rightarrow> start_new now cwd observed name i)))"

definition adopted :: "string \<Rightarrow> string \<Rightarrow> string \<Rightarrow> string option \<Rightarrow> string \<Rightarrow> work_record option \<Rightarrow> work_record" where
  "adopted now cwd sessionFile name i found =
     (let kept = (case found of Some w \<Rightarrow> wr_explicitName w | None \<Rightarrow> False) in
      \<lparr>sr_sessionId = i, sr_cwd = cwd,
       sr_name = (case requested_name name of Some n \<Rightarrow> Some n
         | None \<Rightarrow> (if kept then nonempty (case found of Some w \<Rightarrow> sr_name w | None \<Rightarrow> None) else None)),
       sr_persistence = Materialized sessionFile,
       sr_createdAt = (case found of Some w \<Rightarrow> sr_createdAt w | None \<Rightarrow> now), sr_lastOpenedAt = now,
       wr_taskRef = (case found of Some w \<Rightarrow> wr_taskRef w | None \<Rightarrow> None),
       wr_explicitName = (requested_name name \<noteq> None \<or> kept), wr_desired = Open_session\<rparr>)"

definition adopt_transform ::
  "collation \<Rightarrow> string \<Rightarrow> string \<Rightarrow> string \<Rightarrow> string option \<Rightarrow> string \<Rightarrow> manifest \<Rightarrow> domain_error + manifest" where
  "adopt_transform lc now cwd sessionFile name i m =
     try_bind (findOpenWorkRecord m i) (\<lambda>found. Inr (replaceWorkRecord lc m (adopted now cwd sessionFile name i found)))"

definition close_transform ::
  "collation \<Rightarrow> string \<Rightarrow> persistence \<Rightarrow> close_source \<Rightarrow> string \<Rightarrow> manifest \<Rightarrow> domain_error + manifest" where
  "close_transform lc now persistence source i m =
     (case findRecord m i of
        Some (Work w) \<Rightarrow>
          (case wr_desired w of
             Closed_session _ _ \<Rightarrow> Inr m
           | Open_session \<Rightarrow> Inr (replaceWorkRecord lc m
               (w\<lparr>sr_persistence := persistence, wr_desired := Closed_session now source\<rparr>)))
      | _ \<Rightarrow> Inl (Not_managed i))"

text \<open>\<open>rename\<close> and \<open>refreshMaterialization\<close> change an open record of the session.\<close>

definition change_open :: "collation \<Rightarrow> (work_record \<Rightarrow> work_record) \<Rightarrow> string \<Rightarrow> manifest \<Rightarrow> domain_error + manifest" where
  "change_open lc change i m =
     (case findRecord m i of
        Some (Work w) \<Rightarrow>
          (if wr_desired w = Open_session then Inr (replaceWorkRecord lc m (change w)) else Inl (Not_managed i))
      | _ \<Rightarrow> Inl (Not_managed i))"

definition rename_transform :: "collation \<Rightarrow> string \<Rightarrow> string \<Rightarrow> manifest \<Rightarrow> domain_error + manifest" where
  "rename_transform lc name = change_open lc (\<lambda>w. w\<lparr>sr_name := Some name, wr_explicitName := True\<rparr>)"

definition refresh_transform :: "collation \<Rightarrow> string \<Rightarrow> string \<Rightarrow> manifest \<Rightarrow> domain_error + manifest" where
  "refresh_transform lc sessionFile = change_open lc (\<lambda>w. w\<lparr>sr_persistence := Materialized sessionFile\<rparr>)"

text \<open>\<open>ensureCoordinator\<close> drops old tombstones and the legacy name, or makes the coordinator.\<close>

definition coordinator_transform :: "string \<Rightarrow> string \<Rightarrow> manifest \<Rightarrow> domain_error + manifest" where
  "coordinator_transform now uuid m =
     (let current = gcTombstones m (date_parse now) in
      Inr (current\<lparr>mf_coordinator := Some (case mf_coordinator current of
             Some c \<Rightarrow> c\<lparr>sr_name := None\<rparr>
           | None \<Rightarrow> \<lparr>sr_sessionId = uuid, sr_cwd = mf_canonicalCwd current, sr_name = None, sr_persistence = Pending,
                      sr_createdAt = now, sr_lastOpenedAt = now\<rparr>)\<rparr>))"

section \<open>The operations\<close>

definition catalog_call :: "('s, domain_error catalog_failure, 'a) act \<Rightarrow> ('s, 'x, 'a) life" where
  "catalog_call = act_map_error Catalog_failed"

definition domain_call :: "('s, domain_error catalog_failure, 'a) act \<Rightarrow> ('s, 'x, 'a) life" where
  "domain_call = act_map_error unwrapDomain"

definition committed_record :: "manifest \<Rightarrow> string \<Rightarrow> work_record option" where
  "committed_record m i = (case findRecord m i of Some (Work w) \<Rightarrow> Some w | _ \<Rightarrow> None)"

definition peer_ok :: "'x lifecycle_error option \<Rightarrow> ('s, 'x, unit) life" where
  "peer_ok r = (case r of None \<Rightarrow> act_ret () | Some e \<Rightarrow> act_throw e)"

definition materialization :: "'x peers \<Rightarrow> string \<Rightarrow> start_input \<Rightarrow> ('s, 'x, bool \<times> persistence) life" where
  "materialization ps cwd input =
     (case nonempty (si_sessionFile input) of
        None \<Rightarrow> act_ret (False, Pending)
      | Some f \<Rightarrow>
          act_bind (act_lift (case pe_exists ps f of Inl e \<Rightarrow> Inl (Peer_failure e) | Inr b \<Rightarrow> Inr b)) (\<lambda>there.
            if \<not> there then act_ret (False, Pending)
            else act_bind (peer_ok (map_option Peer_failure (pe_verify ps f (si_sessionId input) cwd)))
                   (\<lambda>_. act_ret (True, persistenceFor True (Some f)))))"

definition bind_session :: "'x peers \<Rightarrow> string \<Rightarrow> string \<Rightarrow> manifest \<Rightarrow> ('s, 'x, managed_session) life" where
  "bind_session ps pane i m =
     (case committed_record m i of
        None \<Rightarrow> act_throw (Domain_failure (Not_managed i))
      | Some w \<Rightarrow>
          let session = \<lparr>ms_record = w, ms_paneId = pane\<rparr> in
          act_bind (peer_ok (map_option (Binding_failed session)
            (pe_bind ps pane i (if wr_explicitName w then sr_name w else None)))) (\<lambda>_. act_ret session))"

definition start :: "('s, domain_error) catalog \<Rightarrow> 'x peers \<Rightarrow> collation \<Rightarrow> string \<Rightarrow> start_input \<Rightarrow> ('s, 'x, start_result) life" where
  "start ca ps lc now input =
     (if \<not> si_tui input then act_ret (Unmanaged ''not interactive'')
      else case nonempty (si_paneId input) of
        None \<Rightarrow> act_ret (Unmanaged ''not inside tmux'')
      | Some pane \<Rightarrow>
          act_bind (catalog_call (ca_identity ca (si_cwd input))) (\<lambda>cwd.
          act_bind (materialization ps cwd input) (\<lambda>(there, observed).
          act_bind (catalog_call (ca_read ca cwd)) (\<lambda>current.
          case (case current of None \<Rightarrow> None | Some m \<Rightarrow> findRecord m (si_sessionId input)) of
            Some (Coordinator _) \<Rightarrow> act_ret (Unmanaged ''coordinator lifecycle is not enabled'')
          | existing \<Rightarrow>
              if (case existing of Some (Work w) \<Rightarrow> wr_desired w \<noteq> Open_session | _ \<Rightarrow> False)
              then act_ret (Unmanaged ''session is closed'')
              else if existing = None \<and> there then act_ret (Unmanaged ''materialized session requires /session-adopt'')
              else
                act_bind (domain_call (ca_update ca cwd
                  (start_transform lc now cwd observed (si_sessionName input) (si_sessionId input)))) (\<lambda>m.
                act_bind (bind_session ps pane (si_sessionId input) m) (\<lambda>session.
                act_ret (Managed session)))))))"

definition adopt :: "('s, domain_error) catalog \<Rightarrow> 'x peers \<Rightarrow> collation \<Rightarrow> string \<Rightarrow> start_input \<Rightarrow> ('s, 'x, managed_session) life" where
  "adopt ca ps lc now input =
     (case (si_tui input, nonempty (si_paneId input), nonempty (si_sessionFile input)) of
        (True, Some pane, Some f) \<Rightarrow>
          act_bind (catalog_call (ca_identity ca (si_cwd input))) (\<lambda>cwd.
          act_bind (peer_ok (map_option Peer_failure (pe_verify ps f (si_sessionId input) cwd))) (\<lambda>_.
          act_bind (domain_call (ca_update ca cwd
            (adopt_transform lc now cwd f (si_sessionName input) (si_sessionId input)))) (\<lambda>m.
          bind_session ps pane (si_sessionId input) m)))
      | _ \<Rightarrow> act_throw (Domain_failure (Identity_conflict (si_sessionId input))))"

definition probed :: "'x peers \<Rightarrow> work_record \<Rightarrow> string option \<Rightarrow> ('s, 'x, persistence) life" where
  "probed ps w sessionFile =
     (case (sr_persistence w, nonempty sessionFile) of
        (Pending, Some f) \<Rightarrow>
          act_bind (act_lift (case pe_exists ps f of Inl e \<Rightarrow> Inl (Peer_failure e) | Inr b \<Rightarrow> Inr b)) (\<lambda>there.
            if \<not> there then act_ret Pending
            else act_bind (peer_ok (map_option Peer_failure (pe_verify ps f (sr_sessionId w) (sr_cwd w))))
                   (\<lambda>_. act_ret (Materialized f)))
      | (p, _) \<Rightarrow> act_ret p)"

definition close_session ::
  "('s, domain_error) catalog \<Rightarrow> 'x peers \<Rightarrow> collation \<Rightarrow> string \<Rightarrow> managed_session \<Rightarrow> close_source \<Rightarrow> string option \<Rightarrow> ('s, 'x, unit) life" where
  "close_session ca ps lc now session source sessionFile =
     (let w = ms_record session in
      act_bind (probed ps w sessionFile) (\<lambda>persistence.
      act_bind (domain_call (ca_update ca (sr_cwd w) (close_transform lc now persistence source (sr_sessionId w)))) (\<lambda>_.
      act_ret ())))"

definition rename_session ::
  "('s, domain_error) catalog \<Rightarrow> 'x peers \<Rightarrow> collation \<Rightarrow> managed_session \<Rightarrow> string \<Rightarrow> ('s, 'x, managed_session) life" where
  "rename_session ca ps lc session name =
     (let w = ms_record session; normalized = trim_string name in
      if normalized = '''' then act_throw (Domain_failure (Name_invalid name))
      else if sr_name w = Some normalized \<and> wr_explicitName w then act_ret session
      else
        act_bind (domain_call (ca_update ca (sr_cwd w) (rename_transform lc normalized (sr_sessionId w)))) (\<lambda>m.
        case committed_record m (sr_sessionId w) of
          None \<Rightarrow> act_throw (Domain_failure (Not_managed (sr_sessionId w)))
        | Some w' \<Rightarrow>
            let renamed = session\<lparr>ms_record := w'\<rparr> in
            act_bind (peer_ok (map_option (Window_sync_failed renamed) (pe_rename ps (ms_paneId session) (sr_sessionId w') normalized)))
              (\<lambda>_. act_ret renamed)))"

definition refreshMaterialization ::
  "('s, domain_error) catalog \<Rightarrow> 'x peers \<Rightarrow> collation \<Rightarrow> managed_session \<Rightarrow> string option \<Rightarrow> ('s, 'x, managed_session) life" where
  "refreshMaterialization ca ps lc session sessionFile =
     (let w = ms_record session in
      if sr_persistence w \<noteq> Pending then act_ret session
      else case nonempty sessionFile of
        None \<Rightarrow> act_ret session
      | Some f \<Rightarrow>
          act_bind (probed ps w sessionFile) (\<lambda>p.
            if p = Pending then act_ret session
            else
              act_bind (domain_call (ca_update ca (sr_cwd w) (refresh_transform lc f (sr_sessionId w)))) (\<lambda>m.
              case committed_record m (sr_sessionId w) of
                None \<Rightarrow> act_throw (Domain_failure (Not_managed (sr_sessionId w)))
              | Some w' \<Rightarrow> act_ret (session\<lparr>ms_record := w'\<rparr>))))"

record session_status =
  ss_current :: "work_record option"
  ss_open :: nat
  ss_closed :: nat
  ss_revision :: jsnumber

definition status :: "('s, domain_error) catalog \<Rightarrow> string \<Rightarrow> string \<Rightarrow> ('s, 'x, session_status) life" where
  "status ca cwd i =
     act_bind (catalog_call (ca_read ca cwd)) (\<lambda>m.
       act_ret (case m of
          None \<Rightarrow> \<lparr>ss_current = None, ss_open = 0, ss_closed = 0, ss_revision = Finite 0\<rparr>
        | Some m \<Rightarrow>
            \<lparr>ss_current = (case findRecord m i of Some (Work w) \<Rightarrow> if wr_desired w = Open_session then Some w else None | _ \<Rightarrow> None),
             ss_open = length (filter (\<lambda>w. wr_desired w = Open_session) (mf_sessions m)),
             ss_closed = length (filter (\<lambda>w. wr_desired w \<noteq> Open_session) (mf_sessions m)),
             ss_revision = mf_revision m\<rparr>))"

definition ensureCoordinator :: "('s, domain_error) catalog \<Rightarrow> string \<Rightarrow> string \<Rightarrow> string \<Rightarrow> ('s, 'x, base_record) life" where
  "ensureCoordinator ca now uuid cwd =
     act_bind (catalog_call (ca_update ca cwd (coordinator_transform now uuid))) (\<lambda>m.
       case mf_coordinator m of Some c \<Rightarrow> act_ret c | None \<Rightarrow> act_throw (Domain_failure (Not_managed uuid)))"

section \<open>Replacing a record, whatever the collation\<close>

lemma findRecord_cong:
  "mf_sessions m' = mf_sessions m \<Longrightarrow> mf_coordinator m' = mf_coordinator m \<Longrightarrow> findRecord m' i = findRecord m i"
  by (simp only: findRecord_def)

definition unique_ids :: "manifest \<Rightarrow> bool" where
  "unique_ids m \<longleftrightarrow> distinct (map record_id (all_records m))"

lemma manifest_ok_unique: "manifest_ok m \<Longrightarrow> unique_ids m"
  by (simp add: manifest_ok_def unique_ids_def)

lemma replace_find:
  assumes "unique_ids m" and "sr_sessionId w \<notin> set (coordinator_ids m)"
  shows "findRecord (replaceWorkRecord lc m w) i = (if i = sr_sessionId w then Some (Work w) else findRecord m i)"
proof -
  have d: "distinct (map record_id (all_records m))" and
    d': "distinct (map record_id (all_records (replaceWorkRecord lc m w)))"
    using assms replaced_distinct by (simp_all add: unique_ids_def)
  show ?thesis
  proof (cases "i = sr_sessionId w")
    case True
    have "findRecord (replaceWorkRecord lc m w) i = Some (Work w)"
      unfolding findRecord_Some [OF d'] using True by (simp add: replaced_records)
    then show ?thesis
      using True by simp
  next
    case False
    have "findRecord (replaceWorkRecord lc m w) i = findRecord m i"
      by (rule findRecord_eqI [OF d' d]) (use False in \<open>auto simp: replaced_records\<close>)
    then show ?thesis
      using False by simp
  qed
qed

lemma find_not_coordinator:
  assumes "findRecord m i = None \<or> findRecord m i = Some (Work w)"
  shows "i \<notin> set (coordinator_ids m)"
  using assms by (cases "mf_coordinator m") (auto simp: findRecord_def coordinator_ids_def split: if_splits)

lemma find_work_id: "unique_ids m \<Longrightarrow> findRecord m i = Some (Work w) \<Longrightarrow> sr_sessionId w = i"
  using findRecord_Some [of m i "Work w"] by (simp add: unique_ids_def)

definition closed_record :: "work_record \<Rightarrow> bool" where
  "closed_record w \<longleftrightarrow> wr_desired w \<noteq> Open_session"

text \<open>A coordinator that starts at this time drops the record: it was closed more than thirty days before.\<close>

definition collected :: "string \<Rightarrow> work_record \<Rightarrow> bool" where
  "collected now w \<longleftrightarrow>
     (case wr_desired w of Open_session \<Rightarrow> False | Closed_session closedAt _ \<Rightarrow> date_parse closedAt + gc_days_ms < date_parse now)"

text \<open>A transformation that leaves the records of other sessions and closed records alone.\<close>

definition leaves_others :: "string \<Rightarrow> (manifest \<Rightarrow> domain_error + manifest) \<Rightarrow> bool" where
  "leaves_others i f \<longleftrightarrow> (\<forall>m m' j. unique_ids m \<longrightarrow> f m = Inr m' \<longrightarrow>
     (j \<noteq> i \<or> (\<exists>w. findRecord m j = Some (Work w) \<and> closed_record w)) \<longrightarrow> findRecord m' j = findRecord m j)"

lemma findOpen_cases:
  assumes "findOpenWorkRecord m i = Inr found"
  shows "(found = None \<and> findRecord m i = None) \<or>
    (\<exists>w. found = Some w \<and> findRecord m i = Some (Work w) \<and> \<not> closed_record w)"
  using assms by (auto simp: findOpenWorkRecord_def closed_record_def split: option.splits session_record.splits desired.splits)

lemma leaves_others_replace:
  assumes "unique_ids m" and "findRecord m i = None \<or> (\<exists>w. findRecord m i = Some (Work w) \<and> \<not> closed_record w)"
    and "sr_sessionId v = i"
    and "j \<noteq> i \<or> (\<exists>w. findRecord m j = Some (Work w) \<and> closed_record w)"
  shows "findRecord (replaceWorkRecord lc m v) j = findRecord m j"
proof -
  have "sr_sessionId v \<notin> set (coordinator_ids m)"
    using assms(2,3) find_not_coordinator by blast
  then show ?thesis
    using replace_find [OF assms(1)] assms(2-4) by auto
qed

lemma start_existing_id [simp]: "sr_sessionId (start_existing now p name w) = sr_sessionId w"
  "wr_desired (start_existing now p name w) = wr_desired w" "sr_lastOpenedAt (start_existing now p name w) = now"
  by (simp_all add: start_existing_def Let_def split: option.split)

lemma adopted_id [simp]: "sr_sessionId (adopted now cwd f name i found) = i"
  "wr_desired (adopted now cwd f name i found) = Open_session" "sr_lastOpenedAt (adopted now cwd f name i found) = now"
  by (simp_all add: adopted_def Let_def)

lemma leaves_others_start: "leaves_others i (start_transform lc now cwd p name i)"
  unfolding leaves_others_def
proof (intro allI impI)
  fix m m' j
  assume u: "unique_ids m" and f: "start_transform lc now cwd p name i m = Inr m'"
    and j: "j \<noteq> i \<or> (\<exists>w. findRecord m j = Some (Work w) \<and> closed_record w)"
  obtain found where found: "findOpenWorkRecord m i = Inr found" and
    m': "m' = replaceWorkRecord lc m (case found of Some w \<Rightarrow> start_existing now p name w | None \<Rightarrow> start_new now cwd p name i)"
    using f by (auto simp: start_transform_def try_bind_Inr_iff)
  show "findRecord m' j = findRecord m j"
    unfolding m'
    by (rule leaves_others_replace [OF u _ _ j])
      (use findOpen_cases [OF found] find_work_id [OF u] in \<open>auto simp: start_new_def split: option.split\<close>)
qed

lemma leaves_others_adopt: "leaves_others i (adopt_transform lc now cwd f name i)"
  unfolding leaves_others_def
proof (intro allI impI)
  fix m m' j
  assume u: "unique_ids m" and f: "adopt_transform lc now cwd f name i m = Inr m'"
    and j: "j \<noteq> i \<or> (\<exists>w. findRecord m j = Some (Work w) \<and> closed_record w)"
  obtain found where found: "findOpenWorkRecord m i = Inr found" and
    m': "m' = replaceWorkRecord lc m (adopted now cwd f name i found)"
    using f by (auto simp: adopt_transform_def try_bind_Inr_iff)
  show "findRecord m' j = findRecord m j"
    unfolding m' by (rule leaves_others_replace [OF u _ _ j]) (use findOpen_cases [OF found] in auto)
qed

lemma leaves_others_close: "leaves_others i (close_transform lc now p source i)"
  unfolding leaves_others_def
proof (intro allI impI)
  fix m m' j
  assume u: "unique_ids m" and f: "close_transform lc now p source i m = Inr m'"
    and j: "j \<noteq> i \<or> (\<exists>w. findRecord m j = Some (Work w) \<and> closed_record w)"
  obtain w where w: "findRecord m i = Some (Work w)"
    using f by (auto simp: close_transform_def split: option.splits session_record.splits)
  show "findRecord m' j = findRecord m j"
  proof (cases "closed_record w")
    case True
    then have "m' = m"
      using f w by (auto simp: close_transform_def closed_record_def split: desired.splits)
    then show ?thesis by simp
  next
    case False
    then have m': "m' = replaceWorkRecord lc m (w\<lparr>sr_persistence := p, wr_desired := Closed_session now source\<rparr>)"
      using f w by (auto simp: close_transform_def closed_record_def)
    show ?thesis
      unfolding m' by (rule leaves_others_replace [OF u _ _ j]) (use w False find_work_id [OF u w] in auto)
  qed
qed

lemma leaves_others_change:
  assumes "\<And>w. sr_sessionId (change w) = sr_sessionId w"
  shows "leaves_others i (change_open lc change i)"
  unfolding leaves_others_def
proof (intro allI impI)
  fix m m' j
  assume u: "unique_ids m" and f: "change_open lc change i m = Inr m'"
    and j: "j \<noteq> i \<or> (\<exists>w. findRecord m j = Some (Work w) \<and> closed_record w)"
  obtain w where w: "findRecord m i = Some (Work w)" "\<not> closed_record w" and m': "m' = replaceWorkRecord lc m (change w)"
    using f by (auto simp: change_open_def closed_record_def split: option.splits session_record.splits if_splits)
  show "findRecord m' j = findRecord m j"
    unfolding m' by (rule leaves_others_replace [OF u _ _ j]) (use w assms find_work_id [OF u w(1)] in auto)
qed

lemma stays_peers [stays_intros]:
  "stays v (peer_ok r)" "stays v (materialization ps cwd input)" "stays v (bind_session ps pane i m)"
  "stays v (probed ps w f)"
proof -
  show p: "stays v (peer_ok r)" for v :: "'a \<Rightarrow> bool" and r :: "'x lifecycle_error option"
    by (auto simp: peer_ok_def intro!: stays_intros split: option.split)
  show "stays v (materialization ps cwd input)"
    unfolding materialization_def by (auto intro!: stays_intros p split: option.split)
  show "stays v (bind_session ps pane i m)"
    unfolding bind_session_def Let_def by (auto intro!: stays_intros p split: option.split)
  show "stays v (probed ps w f)"
    unfolding probed_def by (auto intro!: stays_intros p split: option.split persistence.split)
qed

section \<open>The contract of a session catalog\<close>

text \<open>
  What the lifecycle relies on: a read returns what is stored and changes nothing; an update
  that is in place has stored what the transformation made of the stored manifest (or of an
  empty one), and any other update has changed nothing; stored manifests are valid.
\<close>

locale session_catalog =
  fixes ca :: "('s, domain_error) catalog"
    and stored :: "string \<Rightarrow> 's \<Rightarrow> manifest_error + manifest option"
  assumes identity_law: "ca_identity ca cwd s = (q, s') \<Longrightarrow> s' = s"
    and stored_law: "stored c s = Inr (Some m) \<Longrightarrow> manifest_ok m"
    and read_law: "ca_read ca c s = (p, s') \<Longrightarrow> stored c s' = stored c s \<and> (\<forall>m. p = Inr m \<longrightarrow> stored c s = Inr m)"
    and update_kept: "ca_update ca c f s = (r, s') \<Longrightarrow> \<not> committed r \<Longrightarrow> stored c s' = stored c s"
    and update_stored: "ca_update ca c f s = (r, s') \<Longrightarrow> committed r \<Longrightarrow>
      \<exists>old base draft m. stored c s = Inr old \<and>
        (case old of Some b \<Rightarrow> base = b | None \<Rightarrow> mf_sessions base = [] \<and> mf_coordinator base = None) \<and>
        f base = Inr draft \<and> mf_sessions m = mf_sessions draft \<and> mf_coordinator m = mf_coordinator draft \<and>
        stored c s' = Inr (Some m) \<and> (\<forall>n. r = Inr n \<longrightarrow> n = m)"
begin

text \<open>The stored record of a session.\<close>

definition session_at :: "string \<Rightarrow> 's \<Rightarrow> string \<Rightarrow> session_record option" where
  "session_at c s i = (case stored c s of Inr (Some m) \<Rightarrow> findRecord m i | _ \<Rightarrow> None)"

lemma update_find:
  assumes "ca_update ca c f s = (r, s')" and "leaves_others i f"
    and "j \<noteq> i \<or> (\<exists>w. session_at c s j = Some (Work w) \<and> closed_record w)"
  shows "session_at c s' j = session_at c s j"
proof (cases "committed r")
  case True
  then obtain old base draft m where u: "stored c s = Inr old"
    "case old of Some b \<Rightarrow> base = b | None \<Rightarrow> mf_sessions base = [] \<and> mf_coordinator base = None"
    "f base = Inr draft" "mf_sessions m = mf_sessions draft" "mf_coordinator m = mf_coordinator draft"
    "stored c s' = Inr (Some m)"
    using update_stored [OF assms(1)] by blast
  have base: "session_at c s k = findRecord base k" for k
    using u(1,2) by (auto simp: session_at_def findRecord_def split: option.splits)
  have "unique_ids base"
  proof (cases old)
    case None
    then show ?thesis
      using u(2) by (simp add: unique_ids_def all_records_def)
  next
    case (Some b)
    then show ?thesis
      using u(1,2) manifest_ok_unique [OF stored_law, of c s b] by simp
  qed
  then have "findRecord draft j = findRecord base j"
    using assms(2,3) u(3) unfolding leaves_others_def base by blast
  then show ?thesis
    using findRecord_cong [OF u(4,5)] u(6) base by (simp add: session_at_def)
next
  case False
  then show ?thesis
    using update_kept [OF assms(1)] by (simp add: session_at_def)
qed

lemma domain_update_find:
  assumes "domain_call (ca_update ca c f) s = (r, s')" and "leaves_others i f"
    and "j \<noteq> i \<or> (\<exists>w. session_at c s j = Some (Work w) \<and> closed_record w)"
  shows "session_at c s' j = session_at c s j"
proof -
  obtain q where "ca_update ca c f s = (q, s')"
    using assms(1) by (cases r) (auto simp: domain_call_def act_map_error_Inl act_map_error_Inr)
  then show ?thesis
    using update_find assms(2,3) by blast
qed

text \<open>What a workspace has stored for session \<open>j\<close> stays when the operation is about another session
  or the record is closed.\<close>

lemma stays_update:
  assumes "leaves_others i f" and "j \<noteq> i \<or> (\<exists>w. x = Some (Work w) \<and> closed_record w)"
  shows "stays (\<lambda>s. session_at c s j = x) (domain_call (ca_update ca c f))"
  unfolding stays_def
proof (intro allI impI)
  fix s
  assume "session_at c s j = x"
  then show "session_at c (snd (domain_call (ca_update ca c f) s)) j = x"
    using domain_update_find [OF _ assms(1), of c s _ _ j] assms(2) by (metis prod.collapse)
qed

lemma stays_session_at:
  "stays (\<lambda>s. session_at c s j = x) (catalog_call (ca_read ca c))"
  "stays Q (catalog_call (ca_identity ca cwd))"
proof -
  have "session_at c (snd (ca_read ca c s)) j = session_at c s j" for s
    using read_law [of c s "fst (ca_read ca c s)" "snd (ca_read ca c s)"] by (simp add: session_at_def)
  then show "stays (\<lambda>s. session_at c s j = x) (catalog_call (ca_read ca c))"
    unfolding catalog_call_def by (intro stays_intros) (simp add: stays_def)
  have "snd (ca_identity ca cwd s) = s" for s
    using identity_law [of cwd s "fst (ca_identity ca cwd s)" "snd (ca_identity ca cwd s)"] by simp
  then show "stays Q (catalog_call (ca_identity ca cwd))"
    unfolding catalog_call_def by (intro stays_intros) (simp add: stays_def)
qed

lemma stays_start:
  assumes "ca_identity ca (si_cwd input) s = (Inr c, s)" and "session_at c s j = x"
    and "j \<noteq> si_sessionId input \<or> (\<exists>w. x = Some (Work w) \<and> closed_record w)"
    and "start ca ps lc now input s = (r, s')"
  shows "session_at c s' j = x"
proof (cases "si_tui input \<and> nonempty (si_paneId input) \<noteq> None")
  case False
  then have "s' = s"
    using assms(4) by (auto simp: start_def act_ret_def split: option.splits if_splits)
  then show ?thesis using assms(2) by simp
next
  case True
  then obtain pane where pane: "si_tui input" "nonempty (si_paneId input) = Some pane"
    by auto
  define rest where "rest = act_bind (materialization ps c input) (\<lambda>(there, observed).
          act_bind (catalog_call (ca_read ca c)) (\<lambda>current.
          case (case current of None \<Rightarrow> None | Some m \<Rightarrow> findRecord m (si_sessionId input)) of
            Some (Coordinator _) \<Rightarrow> act_ret (Unmanaged ''coordinator lifecycle is not enabled'')
          | existing \<Rightarrow>
              if (case existing of Some (Work w) \<Rightarrow> wr_desired w \<noteq> Open_session | _ \<Rightarrow> False)
              then act_ret (Unmanaged ''session is closed'')
              else if existing = None \<and> there then act_ret (Unmanaged ''materialized session requires /session-adopt'')
              else
                act_bind (domain_call (ca_update ca c
                  (start_transform lc now c observed (si_sessionName input) (si_sessionId input)))) (\<lambda>m.
                act_bind (bind_session ps pane (si_sessionId input) m) (\<lambda>session.
                act_ret (Managed session)))))"
  have "stays (\<lambda>s. session_at c s j = x) rest"
    unfolding rest_def
    by (intro stays_intros stays_session_at stays_update [OF leaves_others_start assms(3)])
      (auto intro!: stays_intros stays_session_at stays_update [OF leaves_others_start assms(3)]
        split: option.split session_record.split)
  moreover have "rest s = (r, s')"
    using assms(1,4) pane by (simp add: start_def catalog_call_def act_bind_run(1) [OF act_map_error_run(1)] rest_def)
  ultimately show ?thesis
    using assms(2) by (rule staysD)
qed

lemma stays_adopt:
  assumes "ca_identity ca (si_cwd input) s = (Inr c, s)" and "session_at c s j = x"
    and "j \<noteq> si_sessionId input \<or> (\<exists>w. x = Some (Work w) \<and> closed_record w)"
    and "adopt ca ps lc now input s = (r, s')"
  shows "session_at c s' j = x"
proof (cases "\<exists>pane f. si_tui input \<and> nonempty (si_paneId input) = Some pane \<and> nonempty (si_sessionFile input) = Some f")
  case False
  then have "s' = s"
    using assms(4) by (auto simp: adopt_def act_throw_def split: option.splits bool.splits)
  then show ?thesis using assms(2) by simp
next
  case True
  then obtain pane f where pane: "si_tui input" "nonempty (si_paneId input) = Some pane" "nonempty (si_sessionFile input) = Some f"
    by blast
  define rest where "rest = act_bind (peer_ok (map_option Peer_failure (pe_verify ps f (si_sessionId input) c))) (\<lambda>_.
          act_bind (domain_call (ca_update ca c
            (adopt_transform lc now c f (si_sessionName input) (si_sessionId input)))) (\<lambda>m.
          bind_session ps pane (si_sessionId input) m))"
  have "stays (\<lambda>s. session_at c s j = x) rest"
    unfolding rest_def by (intro stays_intros stays_update [OF leaves_others_adopt assms(3)])
  moreover have "rest s = (r, s')"
    using assms(1,4) pane by (simp add: adopt_def catalog_call_def act_bind_run(1) [OF act_map_error_run(1)] rest_def)
  ultimately show ?thesis
    using assms(2) by (rule staysD)
qed

lemma stays_close:
  assumes "j \<noteq> sr_sessionId (ms_record session) \<or> (\<exists>w. x = Some (Work w) \<and> closed_record w)"
  shows "stays (\<lambda>s. session_at (sr_cwd (ms_record session)) s j = x) (close_session ca ps lc now session source f)"
  unfolding close_session_def Let_def
  by (intro stays_intros stays_update [OF leaves_others_close assms])

lemma stays_rename:
  assumes "j \<noteq> sr_sessionId (ms_record session) \<or> (\<exists>w. x = Some (Work w) \<and> closed_record w)"
  shows "stays (\<lambda>s. session_at (sr_cwd (ms_record session)) s j = x) (rename_session ca ps lc session name)"
proof -
  have "leaves_others i (rename_transform lc n i)" for i n
    unfolding rename_transform_def by (rule leaves_others_change) simp
  note up = stays_update [OF this assms]
  show ?thesis
    unfolding rename_session_def Let_def by (auto intro!: stays_intros up split: option.split)
qed

lemma stays_refresh:
  assumes "j \<noteq> sr_sessionId (ms_record session) \<or> (\<exists>w. x = Some (Work w) \<and> closed_record w)"
  shows "stays (\<lambda>s. session_at (sr_cwd (ms_record session)) s j = x) (refreshMaterialization ca ps lc session f)"
proof -
  have "leaves_others i (refresh_transform lc g i)" for i g
    unfolding refresh_transform_def by (rule leaves_others_change) simp
  note up = stays_update [OF this assms]
  show ?thesis
    unfolding refreshMaterialization_def Let_def by (auto intro!: stays_intros up split: option.split)
qed

text \<open>What the operations that succeed have stored.\<close>

lemma update_result:
  assumes "domain_call (ca_update ca c f) s = (Inr m, s')"
  shows "stored c s' = Inr (Some m) \<and> (\<exists>base. unique_ids base \<and> (\<forall>i. findRecord base i = session_at c s i) \<and>
    (\<exists>draft. f base = Inr draft \<and> (\<forall>i. findRecord m i = findRecord draft i)))"
proof -
  have up: "ca_update ca c f s = (Inr m, s')"
    using assms by (simp add: domain_call_def act_map_error_Inr)
  then obtain old base draft where u: "stored c s = Inr old"
    "case old of Some b \<Rightarrow> base = b | None \<Rightarrow> mf_sessions base = [] \<and> mf_coordinator base = None"
    "f base = Inr draft" "mf_sessions m = mf_sessions draft" "mf_coordinator m = mf_coordinator draft"
    "stored c s' = Inr (Some m)"
    using update_stored [OF up] by (auto simp: committed_def)
  have "unique_ids base"
  proof (cases old)
    case None
    then show ?thesis
      using u(2) by (simp add: unique_ids_def all_records_def)
  next
    case (Some b)
    then show ?thesis
      using u(1,2) manifest_ok_unique [OF stored_law, of c s b] by simp
  qed
  moreover have "findRecord base i = session_at c s i" for i
    using u(1,2) by (auto simp: session_at_def findRecord_def split: option.splits)
  moreover have "findRecord m i = findRecord draft i" for i
    using findRecord_cong [OF u(4,5)] .
  ultimately show ?thesis
    using u(3,6) by blast
qed

lemma bind_session_Inr:
  "bind_session ps pane i m s = (Inr session, s') \<Longrightarrow> s' = s \<and> findRecord m i = Some (Work (ms_record session))"
  by (auto simp: bind_session_def committed_record_def peer_ok_def act_bind_def act_throw_def act_ret_def Let_def
      split: option.splits session_record.splits)

lemma close_stores:
  fixes ps :: "'x peers"
  assumes "close_session ca ps lc now session source f s = (Inr (), s')"
  shows "\<exists>w. session_at (sr_cwd (ms_record session)) s' (sr_sessionId (ms_record session)) = Some (Work w) \<and>
    (wr_desired w = Closed_session now source \<or>
     closed_record w \<and> session_at (sr_cwd (ms_record session)) s (sr_sessionId (ms_record session)) = Some (Work w))"
proof -
  let ?i = "sr_sessionId (ms_record session)" and ?c = "sr_cwd (ms_record session)"
  obtain p m t where pr: "probed ps (ms_record session) f s = ((Inr p :: 'x lifecycle_error + persistence), t)" and
    up: "domain_call (ca_update ca ?c (close_transform lc now p source ?i)) t = ((Inr m :: 'x lifecycle_error + manifest), s')"
    using assms by (auto simp: close_session_def Let_def act_bind_Inr act_ret_def)
  have same: "session_at ?c t ?i = session_at ?c s ?i"
    using staysD [OF stays_peers(4) [of "\<lambda>u. session_at ?c u ?i = session_at ?c s ?i"] pr] by simp
  obtain base draft where b: "unique_ids base" "close_transform lc now p source ?i base = Inr draft"
    "\<forall>j. findRecord m j = findRecord draft j" "stored ?c s' = Inr (Some m)" "\<forall>j. findRecord base j = session_at ?c t j"
    using update_result [OF up] by blast
  obtain w where w: "findRecord base ?i = Some (Work w)"
    using b(2) by (auto simp: close_transform_def split: option.splits session_record.splits)
  have "\<exists>v. findRecord draft ?i = Some (Work v) \<and>
    (wr_desired v = Closed_session now source \<or> closed_record v \<and> findRecord base ?i = Some (Work v))"
  proof (cases "closed_record w")
    case True
    then show ?thesis
      using b(2) w by (auto simp: close_transform_def closed_record_def split: desired.splits)
  next
    case False
    let ?v = "w\<lparr>sr_persistence := p, wr_desired := Closed_session now source\<rparr>"
    have "draft = replaceWorkRecord lc base ?v"
      using b(2) w False by (auto simp: close_transform_def closed_record_def)
    moreover have "sr_sessionId ?v \<notin> set (coordinator_ids base)"
      using find_not_coordinator [of base ?i w] w find_work_id [OF b(1) w] by simp
    ultimately show ?thesis
      using replace_find [OF b(1), of ?v lc ?i] find_work_id [OF b(1) w] by simp
  qed
  then show ?thesis
    using b(3,4,5) same by (simp add: session_at_def)
qed

text \<open>
  The coordinator drops a closed record only when it was closed more than thirty days before, and keeps
  every other one.
\<close>

lemma coordinator_keeps:
  assumes "ensureCoordinator ca now uuid c s = (r, s')" and "session_at c s j = Some (Work w)" and "\<not> collected now w"
  shows "session_at c s' j = Some (Work w)"
proof -
  obtain q where up: "ca_update ca c (coordinator_transform now uuid) s = (q, s')"
    using assms(1) by (auto simp: ensureCoordinator_def catalog_call_def act_bind_def act_map_error_def act_catch_def act_throw_def
        act_ret_def split: prod.splits sum.splits option.splits)
  show ?thesis
  proof (cases "committed q")
    case False
    then show ?thesis
      using update_kept [OF up] assms(2) by (simp add: session_at_def)
  next
    case True
    then obtain old base draft m where u: "stored c s = Inr old"
      "case old of Some b \<Rightarrow> base = b | None \<Rightarrow> mf_sessions base = [] \<and> mf_coordinator base = None"
      "coordinator_transform now uuid base = Inr draft" "mf_sessions m = mf_sessions draft" "mf_coordinator m = mf_coordinator draft"
      "stored c s' = Inr (Some m)"
      using update_stored [OF up] by blast
    have old: "stored c s = Inr (Some base)" "findRecord base j = Some (Work w)"
      using u(1,2) assms(2) by (auto simp: session_at_def split: option.splits)
    have unique: "unique_ids base" "unique_ids m"
      using manifest_ok_unique stored_law old(1) u(6) by blast+
    have "Work w \<in> set (all_records base)" "record_id (Work w) = j"
      using findRecord_Some [of base j "Work w"] old(2) unique(1) by (auto simp: unique_ids_def)
    then have "w \<in> set (mf_sessions base)" "sr_sessionId w = j"
      by (auto simp: all_records_def split: option.splits)
    then have "w \<in> set (mf_sessions m)"
      using assms(3) u(3,4) by (auto simp: coordinator_transform_def Let_def gcTombstones_def collected_def split: desired.split)
    then have "Work w \<in> set (all_records m)"
      by (auto simp: all_records_def)
    then have "findRecord m j = Some (Work w)"
      using findRecord_Some [of m j "Work w"] unique(2) \<open>record_id (Work w) = j\<close> by (simp add: unique_ids_def)
    then show ?thesis
      using u(6) by (simp add: session_at_def)
  qed
qed

lemma closed_not_started:
  fixes ps :: "'x peers"
  assumes "ca_identity ca (si_cwd input) s = (Inr c, s)"
    and "session_at c s (si_sessionId input) = Some (Work w)" and "closed_record w"
  shows "\<not> (\<exists>session s'. start ca ps lc now input s = (Inr (Managed session), s'))"
    and "\<not> (\<exists>session s'. adopt ca ps lc now input s = (Inr session, s'))"
proof -
  let ?i = "si_sessionId input"
  show "\<not> (\<exists>session s'. start ca ps lc now input s = (Inr (Managed session), s'))"
  proof
    assume "\<exists>session s'. start ca ps lc now input s = (Inr (Managed session), s')"
    then obtain session s' where st: "start ca ps lc now input s = (Inr (Managed session), s')"
      by blast
    then obtain pane where pane: "si_tui input" "nonempty (si_paneId input) = Some pane"
      by (auto simp: start_def act_ret_def split: option.splits if_splits)
    have id: "catalog_call (ca_identity ca (si_cwd input)) s = ((Inr c :: 'x lifecycle_error + string), s)"
      using assms(1) by (simp add: catalog_call_def act_map_error_run)
    obtain there observed t current t2 where
      1: "materialization ps c input s = (Inr (there, observed), t)" and
      2: "catalog_call (ca_read ca c) t = ((Inr current :: 'x lifecycle_error + manifest option), t2)" and
      3: "(case (case current of None \<Rightarrow> None | Some m \<Rightarrow> findRecord m ?i) of
            Some (Coordinator _) \<Rightarrow> act_ret (Unmanaged ''coordinator lifecycle is not enabled'')
          | existing \<Rightarrow>
              if (case existing of Some (Work w) \<Rightarrow> wr_desired w \<noteq> Open_session | _ \<Rightarrow> False)
              then act_ret (Unmanaged ''session is closed'')
              else if existing = None \<and> there then act_ret (Unmanaged ''materialized session requires /session-adopt'')
              else
                act_bind (domain_call (ca_update ca c
                  (start_transform lc now c observed (si_sessionName input) ?i))) (\<lambda>m.
                act_bind (bind_session ps pane ?i m) (\<lambda>session.
                act_ret (Managed session)))) t2 = ((Inr (Managed session) :: 'x lifecycle_error + start_result), s')"
      using st pane id by (simp add: start_def) (auto simp: act_bind_Inr)
    have "session_at c t ?i = Some (Work w)"
      using staysD [OF stays_peers(2) [of "\<lambda>s. session_at c s ?i = Some (Work w)"] 1] assms(2) by blast
    moreover have "stored c t = Inr current"
      using 2 read_law by (auto simp: catalog_call_def act_map_error_Inr)
    ultimately have "(case current of None \<Rightarrow> None | Some m \<Rightarrow> findRecord m ?i) = Some (Work w)"
      by (simp add: session_at_def split: option.splits)
    then show False
      using 3 assms(3) by (simp add: closed_record_def act_ret_def)
  qed
  show "\<not> (\<exists>session s'. adopt ca ps lc now input s = (Inr session, s'))"
  proof
    assume "\<exists>session s'. adopt ca ps lc now input s = (Inr session, s')"
    then obtain session s' where ad: "adopt ca ps lc now input s = (Inr session, s')"
      by blast
    then obtain pane f where pane: "si_tui input" "nonempty (si_paneId input) = Some pane" "nonempty (si_sessionFile input) = Some f"
      by (auto simp: adopt_def act_throw_def split: option.splits bool.splits)
    have id: "catalog_call (ca_identity ca (si_cwd input)) s = ((Inr c :: 'x lifecycle_error + string), s)"
      using assms(1) by (simp add: catalog_call_def act_map_error_run)
    obtain t m t2 where 1: "peer_ok (map_option Peer_failure (pe_verify ps f ?i c)) s = (Inr (), t)" and
      2: "domain_call (ca_update ca c (adopt_transform lc now c f (si_sessionName input) ?i)) t = ((Inr m :: 'x lifecycle_error + manifest), t2)"
      using ad pane id by (simp add: adopt_def) (auto simp: act_bind_Inr)
    have "session_at c t ?i = Some (Work w)"
      using staysD [OF stays_peers(1) [of "\<lambda>s. session_at c s ?i = Some (Work w)"] 1] assms(2) by blast
    then show False
      using update_result [OF 2] assms(3)
      by (auto simp: adopt_transform_def try_bind_Inr_iff findOpenWorkRecord_def closed_record_def split: desired.splits)
  qed
qed

lemma started_record:
  assumes "unique_ids base" and "start_transform lc now c observed name i base = Inr draft"
  shows "\<exists>w. findRecord draft i = Some (Work w) \<and> \<not> closed_record w \<and> sr_lastOpenedAt w = now \<and> sr_sessionId w = i \<and>
    (\<forall>v. findRecord base i = Some (Work v) \<longrightarrow> sr_createdAt w = sr_createdAt v \<and> wr_taskRef w = wr_taskRef v)"
proof -
  obtain found where found: "findOpenWorkRecord base i = Inr found" and
    d: "draft = replaceWorkRecord lc base (case found of Some w \<Rightarrow> start_existing now observed name w | None \<Rightarrow> start_new now c observed name i)"
    using assms(2) by (auto simp: start_transform_def try_bind_Inr_iff)
  define w where "w = (case found of Some w \<Rightarrow> start_existing now observed name w | None \<Rightarrow> start_new now c observed name i)"
  have w: "sr_sessionId w = i" "\<not> closed_record w" "sr_lastOpenedAt w = now"
    using findOpen_cases [OF found] find_work_id [OF assms(1)]
    by (auto simp: w_def closed_record_def start_new_def split: option.splits)
  have kept: "\<forall>v. findRecord base i = Some (Work v) \<longrightarrow> sr_createdAt w = sr_createdAt v \<and> wr_taskRef w = wr_taskRef v"
    using findOpen_cases [OF found]
    by (auto simp: w_def start_existing_def Let_def split: option.splits)
  have "i \<notin> set (coordinator_ids base)"
    using findOpen_cases [OF found] find_not_coordinator by blast
  then have "findRecord draft i = Some (Work w)"
    using replace_find [OF assms(1), of w lc i] w(1) by (simp add: d w_def)
  then show ?thesis
    using w kept by blast
qed

lemma start_stores:
  fixes ps :: "'x peers"
  assumes "ca_identity ca (si_cwd input) s = (Inr c, s)" and "start ca ps lc now input s = (Inr (Managed session), s')"
  shows "session_at c s' (si_sessionId input) = Some (Work (ms_record session)) \<and> \<not> closed_record (ms_record session) \<and>
    sr_lastOpenedAt (ms_record session) = now \<and> sr_sessionId (ms_record session) = si_sessionId input \<and>
    (\<forall>v. session_at c s (si_sessionId input) = Some (Work v) \<longrightarrow>
       sr_createdAt (ms_record session) = sr_createdAt v \<and> wr_taskRef (ms_record session) = wr_taskRef v)"
proof -
  let ?i = "si_sessionId input"
  obtain pane where pane: "si_tui input" "nonempty (si_paneId input) = Some pane"
    using assms(2) by (auto simp: start_def act_ret_def split: option.splits if_splits)
  have id: "catalog_call (ca_identity ca (si_cwd input)) s = ((Inr c :: 'x lifecycle_error + string), s)"
    using assms(1) by (simp add: catalog_call_def act_map_error_run)
  obtain there observed t current t2 where
    1: "materialization ps c input s = (Inr (there, observed), t)" and
    2: "catalog_call (ca_read ca c) t = ((Inr current :: 'x lifecycle_error + manifest option), t2)" and
    3: "(case (case current of None \<Rightarrow> None | Some m \<Rightarrow> findRecord m ?i) of
          Some (Coordinator _) \<Rightarrow> act_ret (Unmanaged ''coordinator lifecycle is not enabled'')
        | existing \<Rightarrow>
            if (case existing of Some (Work w) \<Rightarrow> wr_desired w \<noteq> Open_session | _ \<Rightarrow> False)
            then act_ret (Unmanaged ''session is closed'')
            else if existing = None \<and> there then act_ret (Unmanaged ''materialized session requires /session-adopt'')
            else
              act_bind (domain_call (ca_update ca c
                (start_transform lc now c observed (si_sessionName input) ?i))) (\<lambda>m.
              act_bind (bind_session ps pane ?i m) (\<lambda>session.
              act_ret (Managed session)))) t2 = ((Inr (Managed session) :: 'x lifecycle_error + start_result), s')"
    using assms(2) pane id by (simp add: start_def) (auto simp: act_bind_Inr)
  have "act_bind (domain_call (ca_update ca c (start_transform lc now c observed (si_sessionName input) ?i))) (\<lambda>m.
              act_bind (bind_session ps pane ?i m) (\<lambda>session. act_ret (Managed session))) t2 = (Inr (Managed session), s')"
    using 3 by (auto simp: act_ret_def split: option.splits session_record.splits if_splits)
  then obtain m t3 where up: "domain_call (ca_update ca c (start_transform lc now c observed (si_sessionName input) ?i)) t2 =
      ((Inr m :: 'x lifecycle_error + manifest), t3)" and b: "bind_session ps pane ?i m t3 = (Inr session, s')"
    by (auto simp: act_bind_Inr act_ret_def)
  have same: "session_at c t2 j = session_at c s j" for j
  proof -
    have "session_at c t j = session_at c s j"
      using staysD [OF stays_peers(2) [of "\<lambda>u. session_at c u j = session_at c s j"] 1] by simp
    then show ?thesis
      using staysD [OF stays_session_at(1) [of c j "session_at c s j"] 2] by simp
  qed
  obtain base draft where base: "unique_ids base" "\<forall>j. findRecord base j = session_at c t2 j"
    "start_transform lc now c observed (si_sessionName input) ?i base = Inr draft"
    "\<forall>j. findRecord m j = findRecord draft j" "stored c t3 = Inr (Some m)"
    using update_result [OF up] by blast
  note rec = started_record [OF base(1,3)]
  have "session_at c s' ?i = Some (Work (ms_record session))" "findRecord draft ?i = Some (Work (ms_record session))"
    using bind_session_Inr [OF b] base(4,5) by (auto simp: session_at_def)
  then show ?thesis
    using rec base(2) same by auto
qed

end

section \<open>The file catalog\<close>

definition stored_in :: "environment \<Rightarrow> string \<Rightarrow> store \<Rightarrow> manifest_error + manifest option" where
  "stored_in en c s =
     (case en_realpath en c of None \<Rightarrow> Inr None | Some c' \<Rightarrow> held (manifest_name (en_sha256 en c')) c' s)"

lemma held_valid: "held p c s = Inr (Some m) \<Longrightarrow> manifest_ok m"
  by (auto simp: held_def validateManifest_def validate_checks_None [symmetric]
      split: option.splits doc.splits sum.splits if_splits)

lemma read_manifest_result:
  assumes "read_manifest en c s = (r, s')"
  shows "stored_in en c s' = stored_in en c s \<and> (\<forall>m. r = Inr m \<longrightarrow> stored_in en c s = Inr m)"
proof (cases "en_realpath en c")
  case None
  then have "s' = s" "\<exists>e. r = Inl e"
    using assms by (auto simp: read_manifest_def identity_def act_bind_def act_lift_def)
  then show ?thesis by auto
next
  case (Some c')
  let ?p = "manifest_name (en_sha256 en c')"
  have lock: "withLock (\<lambda>_. act_map_error failure (readUnlocked ?p c')) None s = (r, s')"
    using assms Some by (simp add: read_manifest_def identity_def act_bind_def act_lift_def)
  from withLock_cases [OF lock, of ?p] show ?thesis
  proof (elim disjE exE conjE)
    fix e
    assume "r = Inl e" "entry ?p s' = entry ?p s"
    then show ?thesis
      using held_cong [of ?p s' s c'] Some by (simp add: stored_in_def)
  next
    fix s1 q s2
    assume s1: "\<forall>n. entry n s1 = entry n s" "entry ?p s' = entry ?p s2"
      and q: "act_map_error failure (readUnlocked ?p c') s1 = (q, s2)"
      and r: "case q of Inl e \<Rightarrow> r = Inl e
        | Inr v \<Rightarrow> r = Inr v \<or> (case None of
            Some get_revision \<Rightarrow> \<exists>e. r = Inl (Committed_release_failed (get_revision v) e)
          | None \<Rightarrow> \<exists>e. r = Inl e \<and> \<not> is_committed_failure e)"
    have "entry ?p s2 = entry ?p s1"
      by (rule keepsD [OF keeps_map_error [OF keeps_readUnlocked] q])
    then have same: "held ?p c' s' = held ?p c' s" "held ?p c' s1 = held ?p c' s"
      using s1 held_cong by metis+
    have "held ?p c' s1 = Inr m" if "r = Inr m" for m
      using that r q readUnlocked_Inr by (auto simp: act_map_error_Inr split: sum.splits)
    then show ?thesis
      using same Some by (auto simp: stored_in_def)
  qed
qed

lemma update_manifest_stored:
  assumes "update_manifest en c f s = (r, s')"
  shows "\<not> committed r \<Longrightarrow> stored_in en c s' = stored_in en c s"
    and "committed r \<Longrightarrow> \<exists>old base draft m. stored_in en c s = Inr old \<and>
        (case old of Some b \<Rightarrow> base = b | None \<Rightarrow> mf_sessions base = [] \<and> mf_coordinator base = None) \<and>
        f base = Inr draft \<and> mf_sessions m = mf_sessions draft \<and> mf_coordinator m = mf_coordinator draft \<and>
        stored_in en c s' = Inr (Some m) \<and> (\<forall>n. r = Inr n \<longrightarrow> n = m)"
proof -
  show "stored_in en c s' = stored_in en c s" if "\<not> committed r"
  proof (cases "en_realpath en c")
    case None
    then show ?thesis by (simp add: stored_in_def)
  next
    case (Some c')
    then show ?thesis
      using update_manifest_result [OF Some assms] that by (simp add: stored_in_def)
  qed
  assume com: "committed r"
  then obtain c' where c': "en_realpath en c = Some c'"
    using assms by (cases "en_realpath en c")
      (auto simp: update_manifest_def identity_def act_bind_def act_lift_def committed_def)
  obtain old m where u: "held (manifest_name (en_sha256 en c')) c' s = Inr old"
    "next_manifest c' (st_iso s) f old = Inr m" "held (manifest_name (en_sha256 en c')) c' s' = Inr (Some m)"
    "\<forall>n. r = Inr n \<longrightarrow> n = m"
    using update_manifest_result [OF c' assms] com by auto
  define base where "base = (case old of None \<Rightarrow> empty_manifest c' (st_iso s) | Some b \<Rightarrow> b)"
  obtain draft where d: "f base = Inr draft" and
    v: "validateManifest (json_manifest (draft\<lparr>mf_canonicalCwd := c', mf_revision := next_revision old,
      mf_updatedAt := st_iso s\<rparr>)) = Inr m"
    using u(2) by (auto simp: next_manifest_def base_def split: sum.splits)
  have m: "m = draft\<lparr>mf_canonicalCwd := c', mf_revision := next_revision old, mf_updatedAt := st_iso s\<rparr>"
    using v by (auto simp: validateManifest_def decodeManifest_json split: option.splits)
  have base: "case old of Some b \<Rightarrow> base = b | None \<Rightarrow> mf_sessions base = [] \<and> mf_coordinator base = None"
    by (simp add: base_def empty_manifest_def split: option.split)
  have "stored_in en c s = Inr old" "stored_in en c s' = Inr (Some m)"
    using u(1,3) c' by (simp_all add: stored_in_def)
  moreover have "mf_sessions m = mf_sessions draft" "mf_coordinator m = mf_coordinator draft"
    by (simp_all add: m)
  ultimately show "\<exists>old base draft m. stored_in en c s = Inr old \<and>
        (case old of Some b \<Rightarrow> base = b | None \<Rightarrow> mf_sessions base = [] \<and> mf_coordinator base = None) \<and>
        f base = Inr draft \<and> mf_sessions m = mf_sessions draft \<and> mf_coordinator m = mf_coordinator draft \<and>
        stored_in en c s' = Inr (Some m) \<and> (\<forall>n. r = Inr n \<longrightarrow> n = m)"
    using base d u(4) by blast
qed

interpretation fc: session_catalog "file_catalog en" "stored_in en" for en
proof
  show "s' = s" if "ca_identity (file_catalog en) cwd s = (q, s')" for cwd s q s'
    using that by (simp add: file_catalog_def identity_def act_lift_def)
  show "manifest_ok m" if "stored_in en c s = Inr (Some m)" for c s m
    using that held_valid by (auto simp: stored_in_def split: option.splits)
  show "stored_in en c s' = stored_in en c s \<and> (\<forall>m. p = Inr m \<longrightarrow> stored_in en c s = Inr m)"
    if "ca_read (file_catalog en) c s = (p, s')" for c s p s'
    using read_manifest_result [of en c s p s'] that by (simp add: file_catalog_def)
  show "stored_in en c s' = stored_in en c s"
    if "ca_update (file_catalog en) c f s = (r, s')" "\<not> committed r" for c f s r s'
    using update_manifest_stored(1) [of en c f s r s'] that by (simp add: file_catalog_def)
  show "\<exists>old base draft m. stored_in en c s = Inr old \<and>
        (case old of Some b \<Rightarrow> base = b | None \<Rightarrow> mf_sessions base = [] \<and> mf_coordinator base = None) \<and>
        f base = Inr draft \<and> mf_sessions m = mf_sessions draft \<and> mf_coordinator m = mf_coordinator draft \<and>
        stored_in en c s' = Inr (Some m) \<and> (\<forall>n. r = Inr n \<longrightarrow> n = m)"
    if "ca_update (file_catalog en) c f s = (r, s')" "committed r" for c f s r s'
    using update_manifest_stored(2) [of en c f s r s'] that by (simp add: file_catalog_def)
qed

section \<open>Properties\<close>

definition session_in :: "environment \<Rightarrow> string \<Rightarrow> store \<Rightarrow> string \<Rightarrow> session_record option" where
  "session_in en c s i = (case stored_in en c s of Inr (Some m) \<Rightarrow> findRecord m i | _ \<Rightarrow> None)"

lemma session_in_eq: "fc.session_at en c s i = session_in en c s i"
  by (simp only: fc.session_at_def session_in_def)

text \<open>An operation of the lifecycle, the session it is about, and the workspace it works on.\<close>

datatype life_op =
    Start start_input
  | Adopt start_input
  | Close managed_session close_source "string option"
  | Rename managed_session string
  | Refresh managed_session "string option"

fun op_session :: "life_op \<Rightarrow> string" where
  "op_session (Start input) = si_sessionId input"
| "op_session (Adopt input) = si_sessionId input"
| "op_session (Close session _ _) = sr_sessionId (ms_record session)"
| "op_session (Rename session _) = sr_sessionId (ms_record session)"
| "op_session (Refresh session _) = sr_sessionId (ms_record session)"

fun op_workspace :: "environment \<Rightarrow> life_op \<Rightarrow> string option" where
  "op_workspace en (Start input) = en_realpath en (si_cwd input)"
| "op_workspace en (Adopt input) = en_realpath en (si_cwd input)"
| "op_workspace en (Close session _ _) = Some (sr_cwd (ms_record session))"
| "op_workspace en (Rename session _) = Some (sr_cwd (ms_record session))"
| "op_workspace en (Refresh session _) = Some (sr_cwd (ms_record session))"

fun run_life :: "environment \<Rightarrow> 'x peers \<Rightarrow> collation \<Rightarrow> string \<Rightarrow> life_op \<Rightarrow> store \<Rightarrow> store" where
  "run_life en ps lc now (Start input) s = snd (start (file_catalog en) ps lc now input s)"
| "run_life en ps lc now (Adopt input) s = snd (adopt (file_catalog en) ps lc now input s)"
| "run_life en ps lc now (Close session source f) s = snd (close_session (file_catalog en) ps lc now session source f s)"
| "run_life en ps lc now (Rename session name) s = snd (rename_session (file_catalog en) ps lc session name s)"
| "run_life en ps lc now (Refresh session f) s = snd (refreshMaterialization (file_catalog en) ps lc session f s)"

lemma file_identity: "en_realpath en cwd = Some c \<Longrightarrow> ca_identity (file_catalog en) cwd s = (Inr c, s)"
  by (simp add: file_catalog_def identity_def act_lift_def)

lemma operation_untouched:
  assumes "op_workspace en x = Some c"
    and "j \<noteq> op_session x \<or> (\<exists>w. session_in en c s j = Some (Work w) \<and> closed_record w)"
  shows "session_in en c (run_life en ps lc now x s) j = session_in en c s j"
proof -
  let ?v = "session_in en c s j"
  have v: "fc.session_at en c s j = ?v"
    by (rule session_in_eq)
  have "fc.session_at en c (run_life en ps lc now x s) j = ?v"
  proof (cases x)
    case (Start input)
    then show ?thesis
      using fc.stays_start [OF file_identity v _ prod.collapse [symmetric], of input ps lc now] assms by simp
  next
    case (Adopt input)
    then show ?thesis
      using fc.stays_adopt [OF file_identity v _ prod.collapse [symmetric], of input ps lc now] assms by simp
  next
    case (Close session source f)
    then show ?thesis
      using fc.stays_close [of j session ?v en ps lc now source f] assms v by (simp add: stays_def)
  next
    case (Rename session name)
    then show ?thesis
      using fc.stays_rename [of j session ?v en ps lc name] assms v by (simp add: stays_def)
  next
    case (Refresh session f)
    then show ?thesis
      using fc.stays_refresh [of j session ?v en ps lc f] assms v by (simp add: stays_def)
  qed
  then show ?thesis
    by (simp only: session_in_eq)
qed

text \<open>C14: an operation on one session leaves what the workspace has stored for every other session
  as it was, and a closed session's record as it was even when it is about that session,
  whatever the files, the lock, the host and the session files do.\<close>

theorem other_and_closed_sessions_untouched:
  assumes "op_workspace en x = Some c"
    and "j \<noteq> op_session x \<or> (\<exists>w. session_in en c s j = Some (Work w) \<and> closed_record w)"
  shows "session_in en c (run_life en ps lc now x s) j = session_in en c s j"
  by (rule operation_untouched [OF assms])

text \<open>A start that manages a session has stored exactly the record it returns, open and opened
  now, and a session that was stored before keeps its creation time and its task.\<close>

theorem start_stores_session:
  assumes "en_realpath en (si_cwd input) = Some c"
    and "start (file_catalog en) ps lc now input s = (Inr (Managed session), s')"
  shows "session_in en c s' (si_sessionId input) = Some (Work (ms_record session)) \<and>
    wr_desired (ms_record session) = Open_session \<and> sr_lastOpenedAt (ms_record session) = now \<and>
    (\<forall>v. session_in en c s (si_sessionId input) = Some (Work v) \<longrightarrow>
       sr_createdAt (ms_record session) = sr_createdAt v \<and> wr_taskRef (ms_record session) = wr_taskRef v)"
  using fc.start_stores [OF file_identity [OF assms(1)] assms(2)]
  by (simp only: session_in_eq closed_record_def) blast

text \<open>
  What happens to the manifest of a workspace: the operations above, each with its own time and its own
  host, and the start of a coordinator, which drops old closed records.
\<close>

datatype 'x session_event = Operate "'x peers" string life_op | Coordinate string string string

fun run_event :: "environment \<Rightarrow> collation \<Rightarrow> 'x session_event \<Rightarrow> store \<Rightarrow> store" where
  "run_event en lc (Operate ps now x) s = run_life en ps lc now x s"
| "run_event en lc (Coordinate now uuid cwd) s =
     snd ((ensureCoordinator (file_catalog en) now uuid cwd :: (store, unit, base_record) life) s)"

definition run_events :: "environment \<Rightarrow> collation \<Rightarrow> 'x session_event list \<Rightarrow> store \<Rightarrow> store" where
  "run_events en lc es s = fold (run_event en lc) es s"





section \<open>Witnesses\<close>

definition demo_peers :: "unit peers" where
  "demo_peers = \<lparr>pe_exists = (\<lambda>_. Inr False), pe_verify = (\<lambda>_ _ _. None), pe_bind = (\<lambda>_ _ _. None), pe_rename = (\<lambda>_ _ _. None)\<rparr>"

definition demo_input :: start_input where
  "demo_input = \<lparr>si_tui = True, si_cwd = ''/w'', si_paneId = Some ''%1'', si_sessionId = ''a'', si_sessionFile = None,
     si_sessionName = Some '' work ''\<rparr>"

definition demo_now :: string where
  "demo_now = ''2025-01-02T03:04:05.678Z''"

definition demo_start :: "(unit lifecycle_error + start_result) \<times> store" where
  "demo_start = start (file_catalog demo_env) demo_peers code_collation demo_now demo_input (demo_disk (\<lambda>_. None))"

lemma demo_realpath: "en_realpath demo_env (si_cwd demo_input) = Some ''/w''"
  by (simp add: demo_env_def demo_input_def)

lemma other_and_closed_sessions_untouched_witness:
  "session_in demo_env ''/w'' (run_life demo_env demo_peers code_collation demo_now (Start demo_input) (demo_disk (\<lambda>_. None))) ''b'' = None"
proof -
  have "session_in demo_env ''/w'' (demo_disk (\<lambda>_. None)) ''b'' = None"
    by (simp add: session_in_def stored_in_def demo_env_def held_def entry_def demo_disk_def jm_get_def)
  moreover have "op_workspace demo_env (Start demo_input) = Some ''/w''"
    by (simp add: demo_realpath)
  ultimately show ?thesis
    using other_and_closed_sessions_untouched [of demo_env "Start demo_input" "''/w''" "''b''" "demo_disk (\<lambda>_. None)"
        demo_peers code_collation demo_now] by (simp add: demo_input_def)
qed

lemma demo_start_managed: "case fst demo_start of Inr (Managed m) \<Rightarrow> True | _ \<Rightarrow> False"
  by code_simp

lemma start_stores_session_witness:
  "\<exists>session. fst demo_start = Inr (Managed session) \<and>
    session_in demo_env ''/w'' (snd demo_start) ''a'' = Some (Work (ms_record session))"
proof -
  obtain session where m: "fst demo_start = Inr (Managed session)"
    using demo_start_managed by (auto split: sum.splits start_result.splits)
  then have "start (file_catalog demo_env) demo_peers code_collation demo_now demo_input (demo_disk (\<lambda>_. None)) =
      (Inr (Managed session), snd demo_start)"
    by (simp add: demo_start_def prod_eq_iff)
  from start_stores_session [OF demo_realpath this] show ?thesis
    using m by (simp add: demo_input_def)
qed

definition demo_managed :: managed_session where
  "demo_managed = \<lparr>ms_record = demo_session ''a'', ms_paneId = ''%1''\<rparr>"

definition demo_close :: "(unit lifecycle_error + unit) \<times> store" where
  "demo_close = close_session (file_catalog demo_env) demo_peers code_collation demo_now demo_managed Ctrl_d None (snd demo_start)"




text \<open>
  What the bound is for: a coordinator that starts more than thirty days after the closing drops the
  record, and the next start manages the same session again.
\<close>

definition demo_february :: string where
  "demo_february = ''2025-02-02T03:04:05.678Z''"

lemma forgotten_session_reopened:
  "case start (file_catalog demo_env) demo_peers code_collation demo_february demo_input
     (run_events demo_env code_collation
       [Coordinate demo_february ''b'' ''/w'' :: unit session_event] ((snd demo_close)\<lparr>st_iso := demo_february\<rparr>)) of
     (Inr (Managed m), _) \<Rightarrow> True | _ \<Rightarrow> False"
  by code_simp

end
