(* ===== verification/Session_Restore.thy ===== *)
theory Session_Restore
  imports Session_Lifecycle
begin

text \<open>
  The workspace reconciler of \<open>extensions/session-manager/coordinator.ts\<close>: the announcements of
  ready sessions and those who wait for one (\<open>publishReady\<close>, \<open>awaitReady\<close>), the outcome of the
  restoration of each open session, and its rendering. The tmux host and the file system answer
  through parameters; time is given to each step.
\<close>

section \<open>Readiness\<close>

record publication =
  pb_sessionId :: string
  pb_launchId :: string

text \<open>A listener is the identifier of the waiting call with the launch it waits for.\<close>

record ready_state =
  rd_ready :: "(string, publication \<times> int) jsmap"
  rd_waiters :: "(string, (nat \<times> string option) list) jsmap"
  rd_answers :: "(nat \<times> bool) list"

definition new_ready :: ready_state where
  "new_ready = \<lparr>rd_ready = [], rd_waiters = [], rd_answers = []\<rparr>"

definition listeners_of :: "ready_state \<Rightarrow> string \<Rightarrow> (nat \<times> string option) list" where
  "listeners_of r i = (case jm_get (rd_waiters r) i of None \<Rightarrow> [] | Some ls \<Rightarrow> ls)"

definition launch_matches :: "string option \<Rightarrow> publication \<Rightarrow> bool" where
  "launch_matches launch p = (case nonempty launch of None \<Rightarrow> True | Some l \<Rightarrow> pb_launchId p = l)"

definition publishReady :: "publication \<Rightarrow> int \<Rightarrow> ready_state \<Rightarrow> ready_state" where
  "publishReady p now r =
     r\<lparr>rd_ready := jm_set (pb_sessionId p) (p, now) (rd_ready r),
       rd_answers := rd_answers r @
         map (\<lambda>l. (fst l, True)) (filter (\<lambda>l. launch_matches (snd l) p) (listeners_of r (pb_sessionId p))),
       rd_waiters := jm_delete (pb_sessionId p) (rd_waiters r)\<rparr>"

definition READY_TTL_MS :: int where
  "READY_TTL_MS = 15000"

definition awaitReady :: "nat \<Rightarrow> string \<Rightarrow> string option \<Rightarrow> int \<Rightarrow> ready_state \<Rightarrow> ready_state" where
  "awaitReady waiter i launch now r =
     (if (case jm_get (rd_ready r) i of
            None \<Rightarrow> False
          | Some (p, receivedAt) \<Rightarrow> now - receivedAt \<le> READY_TTL_MS \<and> launch_matches launch p)
      then r\<lparr>rd_answers := rd_answers r @ [(waiter, True)]\<rparr>
      else r\<lparr>rd_waiters := jm_set i (listeners_of r i @ [(waiter, launch)]) (rd_waiters r)\<rparr>)"

text \<open>The timer of a call that has not been answered.\<close>

definition ready_timeout :: "nat \<Rightarrow> string \<Rightarrow> ready_state \<Rightarrow> ready_state" where
  "ready_timeout waiter i r =
     (if waiter \<in> set (map fst (rd_answers r)) then r
      else r\<lparr>rd_answers := rd_answers r @ [(waiter, False)],
             rd_waiters := (case jm_get (rd_waiters r) i of
                None \<Rightarrow> rd_waiters r
              | Some ls \<Rightarrow> jm_set i (filter (\<lambda>l. fst l \<noteq> waiter) ls) (rd_waiters r))\<rparr>)"

section \<open>Restoration\<close>

datatype window_state = Created | Existing

datatype restore_state = Restored | Active | Timed_out | Failed

record outcome =
  oc_sessionId :: string
  oc_name :: "string option"
  oc_state :: restore_state
  oc_reason :: "string option"

text \<open>What the environment answers about one record: \<open>Inl\<close> is the reason of a thrown error.\<close>

record restore_peers =
  rp_access :: "string \<Rightarrow> string option"
  rp_realpath :: "string \<Rightarrow> string + string"
  rp_verify :: "string \<Rightarrow> string \<Rightarrow> string \<Rightarrow> string option"
  rp_window :: "work_record \<Rightarrow> string + window_state"
  rp_ready :: "string \<Rightarrow> bool \<Rightarrow> bool"

definition restore_attempt :: "restore_peers \<Rightarrow> string \<Rightarrow> work_record \<Rightarrow> string + restore_state" where
  "restore_attempt rp canonicalCwd w =
     (case rp_access rp (sr_cwd w) of
        Some reason \<Rightarrow> Inl reason
      | None \<Rightarrow>
          try_bind (rp_realpath rp (sr_cwd w)) (\<lambda>real.
            if real \<noteq> canonicalCwd then Inl ''working directory does not match the workspace''
            else
              case (case sr_persistence w of
                      Materialized f \<Rightarrow> rp_verify rp f (sr_sessionId w) (sr_cwd w) | Pending \<Rightarrow> None) of
                Some reason \<Rightarrow> Inl reason
              | None \<Rightarrow>
                  try_bind (rp_window rp w) (\<lambda>window.
                    Inr (if \<not> rp_ready rp (sr_sessionId w) (window = Created) then Timed_out
                         else if window = Created then Restored else Active))))"

definition restore_one :: "restore_peers \<Rightarrow> string \<Rightarrow> work_record \<Rightarrow> outcome" where
  "restore_one rp canonicalCwd w =
     (case restore_attempt rp canonicalCwd w of
        Inl reason \<Rightarrow> \<lparr>oc_sessionId = sr_sessionId w, oc_name = sr_name w, oc_state = Failed, oc_reason = Some reason\<rparr>
      | Inr state \<Rightarrow> \<lparr>oc_sessionId = sr_sessionId w, oc_name = sr_name w, oc_state = state, oc_reason = None\<rparr>)"

definition reconcileWorkspace :: "restore_peers \<Rightarrow> bool \<Rightarrow> string \<Rightarrow> manifest option \<Rightarrow> string + outcome list" where
  "reconcileWorkspace rp has_restore coordinatorSessionId m =
     (case m of
        None \<Rightarrow> Inl ''durable coordinator identity does not match''
      | Some m \<Rightarrow>
          if map_option sr_sessionId (mf_coordinator m) \<noteq> Some coordinatorSessionId
          then Inl ''durable coordinator identity does not match''
          else if \<not> has_restore then Inl ''session host does not support detached restoration''
          else Inr (map (restore_one rp (mf_canonicalCwd m))
                 (filter (\<lambda>w. wr_desired w = Open_session) (mf_sessions m))))"

definition padEnd :: "nat \<Rightarrow> string \<Rightarrow> string" where
  "padEnd n s = s @ replicate (n - length s) CHR '' ''"

definition state_text :: "restore_state \<Rightarrow> string" where
  "state_text st = (case st of Restored \<Rightarrow> ''restored'' | Active \<Rightarrow> ''active'' | Timed_out \<Rightarrow> ''timed-out'' | Failed \<Rightarrow> ''failed'')"

text \<open>The two markers are characters beyond the first 256 code points and stay parameters.\<close>

definition outcome_line :: "string \<Rightarrow> string \<Rightarrow> outcome \<Rightarrow> string" where
  "outcome_line bad good oc =
     (if oc_state oc = Failed \<or> oc_state oc = Timed_out then bad else good) @ '' '' @
     padEnd 24 (case nonempty (oc_name oc) of Some n \<Rightarrow> n @ '' ('' @ oc_sessionId oc @ '')'' | None \<Rightarrow> oc_sessionId oc) @ '' '' @
     state_text (oc_state oc) @ (case nonempty (oc_reason oc) of Some r \<Rightarrow> '': '' @ r | None \<Rightarrow> '''')"

fun join_newline :: "string list \<Rightarrow> string" where
  "join_newline [] = ''''"
| "join_newline [x] = x"
| "join_newline (x # xs) = x @ [CHR 0x0A] @ join_newline xs"

definition active_count :: "outcome list \<Rightarrow> nat" where
  "active_count ocs = length (filter (\<lambda>oc. oc_state oc = Active \<or> oc_state oc = Restored) ocs)"

definition renderRestoreSummary :: "string \<Rightarrow> string \<Rightarrow> outcome list \<Rightarrow> string" where
  "renderRestoreSummary bad good ocs =
     (if ocs = [] then join_newline [''Workspace restore complete.'', '''', ''0 active'']
      else join_newline ([''Workspace restore complete.'', ''''] @ map (outcome_line bad good) ocs @
             ['''', show_nat (active_count ocs) @ '' active, '' @ show_nat (length ocs - active_count ocs) @ '' failed'']))"

section \<open>Properties\<close>

datatype ready_event = Publish publication int | Await nat string "string option" int | Timer nat string

fun ready_step :: "ready_event \<Rightarrow> ready_state \<Rightarrow> ready_state" where
  "ready_step (Publish p now) r = publishReady p now r"
| "ready_step (Await waiter i launch now) r = awaitReady waiter i launch now r"
| "ready_step (Timer waiter i) r = ready_timeout waiter i r"

definition ready_run :: "ready_event list \<Rightarrow> ready_state \<Rightarrow> ready_state" where
  "ready_run es r = fold ready_step es r"

lemma listeners_publish: "listeners_of (publishReady p now r) i = (if i = pb_sessionId p then [] else listeners_of r i)"
  by (simp add: listeners_of_def publishReady_def jm_get_delete)

definition answered :: "ready_state \<Rightarrow> nat set" where
  "answered r = fst ` set (rd_answers r)"

definition waiting :: "ready_state \<Rightarrow> nat \<Rightarrow> bool" where
  "waiting r waiter \<longleftrightarrow> (\<exists>i launch. (waiter, launch) \<in> set (listeners_of r i))"

lemma answered_publish:
  "answered (publishReady p now r) =
     answered r \<union> fst ` {l \<in> set (listeners_of r (pb_sessionId p)). launch_matches (snd l) p}"
  by (force simp: answered_def publishReady_def)

lemma listeners_await:
  "set (listeners_of (awaitReady c i launch now r) j) \<subseteq> insert (c, launch) (set (listeners_of r j))"
  by (auto simp: awaitReady_def listeners_of_def jm_get_set split: if_splits)

lemma listeners_timeout: "set (listeners_of (ready_timeout c i r) j) \<subseteq> set (listeners_of r j)"
  by (auto simp: ready_timeout_def listeners_of_def jm_get_set split: option.splits if_splits)

lemma answered_await: "answered (awaitReady c i launch now r) \<subseteq> insert c (answered r)"
  by (auto simp: awaitReady_def answered_def)

text \<open>A call that is neither answered nor waiting stays so while others publish and wait.\<close>

lemma stranded_step:
  assumes "waiter \<notin> answered r" and "\<not> waiting r waiter"
    and "case e of Publish _ _ \<Rightarrow> True | Await c _ _ _ \<Rightarrow> c \<noteq> waiter | Timer c _ \<Rightarrow> c \<noteq> waiter"
  shows "waiter \<notin> answered (ready_step e r) \<and> \<not> waiting (ready_step e r) waiter"
proof (cases e)
  case (Publish p now)
  then show ?thesis
    using assms(1,2) by (auto simp: waiting_def listeners_publish answered_publish split: if_splits)
next
  case (Await c i launch now)
  then have "set (listeners_of (ready_step e r) j) \<subseteq> insert (c, launch) (set (listeners_of r j))" for j
    using listeners_await [of c i launch now r j] by simp
  moreover have "answered (ready_step e r) \<subseteq> insert c (answered r)"
    using Await answered_await [of c i launch now r] by simp
  moreover have "c \<noteq> waiter"
    using assms(3) Await by simp
  ultimately show ?thesis
    using assms(1,2) by (fastforce simp: waiting_def)
next
  case (Timer c i)
  have "set (listeners_of (ready_step e r) j) \<subseteq> set (listeners_of r j)" for j
    using Timer listeners_timeout [of c i r j] by simp
  moreover have "answered (ready_step e r) \<subseteq> insert c (answered r)"
    using Timer by (auto simp: ready_timeout_def answered_def)
  moreover have "c \<noteq> waiter"
    using assms(3) Timer by simp
  ultimately show ?thesis
    using assms(1,2) by (fastforce simp: waiting_def)
qed

text \<open>A publication of another launch of the session discards the listener it does not match:
  the call that waits for its own launch is then not answered by that launch's publication, nor
  by anything that follows, until its timer answers that the session is not ready.\<close>

theorem stale_publication_strands_waiter:
  assumes "jm_get (rd_ready r) i = None" and "waiter \<notin> answered r" and "\<not> waiting r waiter"
    and "pb_sessionId stale = i" and "launch \<noteq> ''''" and "pb_launchId stale \<noteq> launch"
    and "\<forall>e\<in>set es. case e of Publish _ _ \<Rightarrow> True | Await c _ _ _ \<Rightarrow> c \<noteq> waiter | Timer c _ \<Rightarrow> c \<noteq> waiter"
  shows "waiter \<notin> answered (ready_run ([Await waiter i (Some launch) t0, Publish stale t1] @ es) r) \<and>
    (waiter, False) \<in> set (rd_answers (ready_run ([Await waiter i (Some launch) t0, Publish stale t1] @ es @ [Timer waiter i]) r))"
proof -
  let ?r1 = "awaitReady waiter i (Some launch) t0 r"
  let ?r2 = "publishReady stale t1 ?r1"
  have r1: "?r1 = r\<lparr>rd_waiters := jm_set i (listeners_of r i @ [(waiter, Some launch)]) (rd_waiters r)\<rparr>"
    using assms(1) by (simp add: awaitReady_def)
  have l1: "listeners_of ?r1 j = (if j = i then listeners_of r i @ [(waiter, Some launch)] else listeners_of r j)" for j
    by (simp add: r1 listeners_of_def jm_get_set)
  have a1: "answered ?r1 = answered r"
    by (simp add: r1 answered_def)
  have no: "waiter \<notin> answered ?r2 \<and> \<not> waiting ?r2 waiter"
    using assms(2-6) unfolding waiting_def listeners_publish answered_publish a1 l1
    by (auto simp: launch_matches_def nonempty_def split: if_splits)
  have "waiter \<notin> answered (ready_run es s) \<and> \<not> waiting (ready_run es s) waiter"
    if "waiter \<notin> answered s" "\<not> waiting s waiter" for s
    using that assms(7)
  proof (induction es arbitrary: s)
    case Nil
    then show ?case by (simp add: ready_run_def)
  next
    case (Cons e es)
    then show ?case
      using stranded_step [of waiter s e] by (simp add: ready_run_def)
  qed
  from this [of ?r2] have out: "waiter \<notin> answered (ready_run es ?r2)"
    using no by blast
  then have "waiter \<notin> fst ` set (rd_answers (fold ready_step es ?r2))"
    by (simp add: answered_def ready_run_def)
  then show ?thesis
    using out by (simp add: ready_run_def ready_timeout_def answered_def)
qed

text \<open>A state in which a publication of the launch \<open>old\<close> reaches the listener for \<open>new\<close>.\<close>

theorem stale_publication_strands_waiter_witness:
  "(1, False) \<in> set (rd_answers (ready_run ([Await 1 ''s'' (Some ''new'') 0, Publish \<lparr>pb_sessionId = ''s'', pb_launchId = ''old''\<rparr> 5] @
      [Publish \<lparr>pb_sessionId = ''s'', pb_launchId = ''new''\<rparr> 9] @ [Timer 1 ''s'']) new_ready))"
  using stale_publication_strands_waiter [of new_ready "''s''" 1 "\<lparr>pb_sessionId = ''s'', pb_launchId = ''old''\<rparr>" "''new''"
      "[Publish \<lparr>pb_sessionId = ''s'', pb_launchId = ''new''\<rparr> 9]" 0 5]
  by (simp add: new_ready_def answered_def waiting_def listeners_of_def jm_get_def)

lemma restore_one_id: "oc_sessionId (restore_one rp cwd w) = sr_sessionId w"
  by (simp add: restore_one_def split: sum.split)

lemma restore_one_reason: "oc_state (restore_one rp cwd w) = Failed \<longleftrightarrow> oc_reason (restore_one rp cwd w) \<noteq> None"
  by (auto simp: restore_one_def restore_attempt_def try_bind_def split: sum.splits option.splits if_splits)

text \<open>Reconciliation reports each open session of the workspace exactly once, in the manifest's
  order, says of no closed one anything, and gives a reason for exactly the sessions that failed;
  a session whose file another session owns, or whose directory is not the workspace's, is never
  reported active.\<close>

theorem reconcile_reports_open_sessions:
  assumes "reconcileWorkspace rp has_restore coordinatorSessionId (Some m) = Inr outcomes"
  shows "map oc_sessionId outcomes = map sr_sessionId (filter (\<lambda>w. wr_desired w = Open_session) (mf_sessions m)) \<and>
    (\<forall>oc\<in>set outcomes. oc_state oc = Failed \<longleftrightarrow> oc_reason oc \<noteq> None) \<and>
    (\<forall>oc\<in>set outcomes. oc_state oc \<in> {Restored, Active} \<longrightarrow>
      (\<exists>w\<in>set (mf_sessions m). sr_sessionId w = oc_sessionId oc \<and> wr_desired w = Open_session \<and>
        rp_realpath rp (sr_cwd w) = Inr (mf_canonicalCwd m) \<and>
        (\<forall>f. sr_persistence w = Materialized f \<longrightarrow> rp_verify rp f (sr_sessionId w) (sr_cwd w) = None)))"
proof -
  have out: "outcomes = map (restore_one rp (mf_canonicalCwd m)) (filter (\<lambda>w. wr_desired w = Open_session) (mf_sessions m))"
    using assms by (simp add: reconcileWorkspace_def split: if_splits)
  have "rp_realpath rp (sr_cwd w) = Inr cwd \<and> (\<forall>f. sr_persistence w = Materialized f \<longrightarrow> rp_verify rp f (sr_sessionId w) (sr_cwd w) = None)"
    if "oc_state (restore_one rp cwd w) \<in> {Restored, Active}" for cwd w
    using that by (auto simp: restore_one_def restore_attempt_def try_bind_def split: sum.splits option.splits if_splits persistence.splits)
  then show ?thesis
    by (fastforce simp: out restore_one_id restore_one_reason)
qed

definition demo_restore :: restore_peers where
  "demo_restore = \<lparr>rp_access = (\<lambda>_. None), rp_realpath = Inr, rp_verify = (\<lambda>f i cwd. None),
     rp_window = (\<lambda>w. Inr Created), rp_ready = (\<lambda>i created. True)\<rparr>"

definition demo_workspace :: manifest where
  "demo_workspace = demo_manifest\<lparr>mf_coordinator := Some (base_record.truncate (demo_session ''c''))\<rparr>"

theorem reconcile_reports_open_sessions_witness:
  "\<exists>outcomes. reconcileWorkspace demo_restore True ''c'' (Some demo_workspace) = Inr outcomes \<and> outcomes \<noteq> [] \<and>
    map oc_sessionId outcomes = map sr_sessionId (filter (\<lambda>w. wr_desired w = Open_session) (mf_sessions demo_workspace))"
proof -
  have "case reconcileWorkspace demo_restore True ''c'' (Some demo_workspace) of Inl e \<Rightarrow> False | Inr outcomes \<Rightarrow> outcomes \<noteq> []"
    by code_simp
  then obtain outcomes where "reconcileWorkspace demo_restore True ''c'' (Some demo_workspace) = Inr outcomes" "outcomes \<noteq> []"
    by (auto split: sum.splits)
  then show ?thesis
    using reconcile_reports_open_sessions by blast
qed

end
