(* ===== verification/Analyze_Policy.thy ===== *)
theory Analyze_Policy
  imports Json File_System
begin

text \<open>
  The admission of analyze requests: \<open>src/analyze/workspace-path.ts\<close> and
  \<open>src/analyze/policy.ts\<close>. A request is the object a caller hands over; a missing property
  reads as \<open>JUndefined\<close>. The answer is a safe request, or a rejection that says whether the
  request is invalid or needs strict containment.
\<close>

section \<open>Workspace paths (workspace-path.ts)\<close>

definition normalizeWorkspacePath :: "string \<Rightarrow> string" where
  "normalizeWorkspacePath p = map (\<lambda>c. if c = CHR 0x5C then CHR ''/'' else c) p"

definition is_letter :: "char \<Rightarrow> bool" where
  "is_letter c = (let n = (of_char c :: nat) in 65 \<le> n \<and> n \<le> 90 \<or> 97 \<le> n \<and> n \<le> 122)"

definition isDriveQualifiedPath :: "string \<Rightarrow> bool" where
  "isDriveQualifiedPath p = (case p of a # b # _ \<Rightarrow> is_letter a \<and> b = CHR '':'' | _ \<Rightarrow> False)"

definition isOutsideWorkspace :: "string \<Rightarrow> bool" where
  "isOutsideWorkspace p =
     (let n = normalizeWorkspacePath p
      in n = ''..'' \<or> starts_with ''../'' n \<or> starts_with ''/'' n \<or> isDriveQualifiedPath n)"

section \<open>Limits and results (policy.ts)\<close>

datatype analyzer = Duplicates | Test_duplicates | Types | Async_risk | Eslint | Dependencies | Knip | Bundle

definition analyzer_names :: "(string \<times> analyzer) list" where
  "analyzer_names =
     [(''duplicates'', Duplicates), (''test-duplicates'', Test_duplicates), (''types'', Types), (''async-risk'', Async_risk),
      (''eslint'', Eslint), (''dependencies'', Dependencies), (''knip'', Knip), (''bundle'', Bundle)]"

definition SAFE_CHECKS :: "analyzer list" where
  "SAFE_CHECKS = [Async_risk, Duplicates, Test_duplicates]"

record limits =
  al_maxMemoryMb :: int
  al_timeoutMs :: int
  al_stdoutBytes :: nat
  al_stderrBytes :: nat
  al_resultBytes :: nat
  al_findings :: nat
  al_failures :: nat
  al_sourceFiles :: int
  al_sourceFileBytes :: int
  al_sourceBytes :: int
  al_relatedLocations :: nat
  al_paths :: nat
  al_pathLength :: nat
  al_cwdLength :: nat
  al_refLength :: nat
  al_messageLength :: nat

definition ANALYZE_LIMITS :: limits where
  "ANALYZE_LIMITS =
     \<lparr>al_maxMemoryMb = 512, al_timeoutMs = 30000, al_stdoutBytes = 256 * 1024, al_stderrBytes = 32 * 1024,
      al_resultBytes = 48 * 1024, al_findings = 200, al_failures = 64, al_sourceFiles = 1024,
      al_sourceFileBytes = 256 * 1024, al_sourceBytes = 2 * 1024 * 1024, al_relatedLocations = 16, al_paths = 128,
      al_pathLength = 1024, al_cwdLength = 4096, al_refLength = 512, al_messageLength = 2048\<rparr>"

datatype scope_selection = All_scope | Diff_scope "string option" | Paths_scope "string list"

record safe_request =
  sq_cwd :: string
  sq_scope :: scope_selection
  sq_checks :: "analyzer list"
  sq_maxMemoryMb :: int
  sq_maxSourceFiles :: int
  sq_maxSourceFileBytes :: int
  sq_maxSourceBytes :: int
  sq_timeoutMs :: int

datatype rejected = Strict string | Invalid string

section \<open>The parsers\<close>

definition has_zero :: "string \<Rightarrow> bool" where
  "has_zero s = list_ex (\<lambda>c. (of_char c :: nat) = 0) s"

fun split_any :: "char set \<Rightarrow> string \<Rightarrow> string \<Rightarrow> string list" where
  "split_any seps acc [] = [acc]"
| "split_any seps acc (c # cs) =
     (if c \<in> seps then acc # split_any seps [] cs else split_any seps (acc @ [c]) cs)"

definition isBoundedWorkspaceRelativePath :: "string \<Rightarrow> bool" where
  "isBoundedWorkspaceRelativePath p =
     (0 < length p \<and> length p \<le> al_pathLength ANALYZE_LIMITS \<and> \<not> is_absolute p \<and> \<not> isDriveQualifiedPath p \<and>
      \<not> has_zero p \<and> ''..'' \<notin> set (split_any {CHR 0x5C, CHR ''/''} [] p))"

text \<open>
  \<open>new Set(vs).size === vs.length\<close>: objects and arrays are equal only to themselves, and no two
  entries of a request are the same object.
\<close>

definition is_primitive :: "jsval \<Rightarrow> bool" where
  "is_primitive v = (case v of JArr _ \<Rightarrow> False | JObj _ \<Rightarrow> False | _ \<Rightarrow> True)"

definition unique_values :: "jsval list \<Rightarrow> bool" where
  "unique_values vs = distinct (filter is_primitive vs)"

definition bounded_ref :: "jsval \<Rightarrow> string option" where
  "bounded_ref v =
     (case v of
        JStr r \<Rightarrow>
          if r = '''' \<or> length r > al_refLength ANALYZE_LIMITS \<or> starts_with ''-'' r \<or> has_zero r then None else Some r
      | _ \<Rightarrow> None)"

definition parseDiffScope :: "jsval \<Rightarrow> jsval \<Rightarrow> rejected + scope_selection" where
  "parseDiffScope paths ref =
     (if paths \<noteq> JUndefined then Inl (Invalid ''paths may only be supplied with paths scope'')
      else if ref = JUndefined then Inr (Diff_scope None)
      else case bounded_ref ref of
        None \<Rightarrow> Inl (Invalid ''ref exceeds safe request bounds'')
      | Some r \<Rightarrow> Inr (Diff_scope (Some r)))"

definition bounded_path :: "jsval \<Rightarrow> string option" where
  "bounded_path v = (case v of JStr p \<Rightarrow> if isBoundedWorkspaceRelativePath p then Some p else None | _ \<Rightarrow> None)"

definition parsePathsScope :: "jsval \<Rightarrow> jsval \<Rightarrow> rejected + scope_selection" where
  "parsePathsScope paths ref =
     (if ref \<noteq> JUndefined then Inl (Invalid ''ref may only be supplied with diff scope'')
      else case paths of
        JArr (v # vs) \<Rightarrow>
          if length (v # vs) > al_paths ANALYZE_LIMITS \<or> \<not> unique_values (v # vs)
          then Inl (Invalid ''paths exceed safe request bounds'')
          else (case all_some (map bounded_path (v # vs)) of
              None \<Rightarrow> Inl (Invalid ''paths exceed safe request bounds'')
            | Some ps \<Rightarrow> Inr (Paths_scope ps))
      | _ \<Rightarrow> Inl (Invalid ''paths scope requires non-empty explicit paths''))"

type_synonym analyze_input = "(string \<times> jsval) list"

definition parseScopeSelection :: "analyze_input \<Rightarrow> rejected + scope_selection" where
  "parseScopeSelection input =
     (let scope = js_prop input ''scope''; paths = js_prop input ''paths''; ref = js_prop input ''ref'' in
      if scope = JStr ''all'' then
        (if paths = JUndefined \<and> ref = JUndefined then Inr All_scope
         else Inl (Invalid ''all scope cannot include paths or ref''))
      else if scope \<in> {JUndefined, JNull, JStr ''diff''} then parseDiffScope paths ref
      else if scope = JStr ''paths'' then parsePathsScope paths ref
      else Inl (Invalid ''unknown analysis scope''))"

definition analyzer_of :: "jsval \<Rightarrow> analyzer option" where
  "analyzer_of v = (case v of JStr s \<Rightarrow> map_of analyzer_names s | _ \<Rightarrow> None)"

definition parseChecks :: "jsval \<Rightarrow> rejected + analyzer list" where
  "parseChecks v =
     (case v of
        JArr (x # xs) \<Rightarrow>
          if length (x # xs) > length analyzer_names then Inl (Invalid ''too many analysis checks'')
          else if \<not> unique_values (x # xs) then Inl (Invalid ''checks must be unique'')
          else (case all_some (map analyzer_of (x # xs)) of
              None \<Rightarrow> Inl (Invalid ''unknown analysis check'')
            | Some cs \<Rightarrow>
                if list_all (\<lambda>c. c \<in> set SAFE_CHECKS) cs then Inr cs
                else Inl (Strict ''requested checks require strict containment''))
      | _ \<Rightarrow> Inl (Invalid ''checks must explicitly select async-risk, duplicates, and/or test-duplicates''))"

definition parseCwd :: "jsval \<Rightarrow> rejected + string" where
  "parseCwd v =
     (case v of
        JStr s \<Rightarrow>
          if s \<noteq> '''' \<and> length s \<le> al_cwdLength ANALYZE_LIMITS \<and> is_absolute s then Inr s
          else Inl (Invalid ''cwd must be a bounded absolute path'')
      | _ \<Rightarrow> Inl (Invalid ''cwd must be a bounded absolute path''))"

definition positive_integer :: "jsval \<Rightarrow> bool" where
  "positive_integer v = (case v of JNum n \<Rightarrow> is_integer n \<and> js_int n \<ge> 1 | _ \<Rightarrow> False)"

definition number_of :: "jsval \<Rightarrow> int" where
  "number_of v = (case v of JNum n \<Rightarrow> js_int n | _ \<Rightarrow> 0)"

definition parseSafeLimits :: "analyze_input \<Rightarrow> rejected + int" where
  "parseSafeLimits input =
     (let memory = js_prop input ''maxMemoryMb''; timeout = js_prop input ''timeoutMs'' in
      if memory \<noteq> JUndefined \<and> \<not> positive_integer memory then Inl (Invalid ''maxMemoryMb must be a positive integer'')
      else if timeout \<noteq> JUndefined \<and> \<not> positive_integer timeout then Inl (Invalid ''timeoutMs must be a positive integer'')
      else Inr (min (al_timeoutMs ANALYZE_LIMITS)
             (max 1000 (if timeout = JUndefined then al_timeoutMs ANALYZE_LIMITS else number_of timeout))))"

text \<open>A capability that needs strict containment is the reason that says so.\<close>

definition parseTypeSimilarityCapability :: "jsval \<Rightarrow> rejected + string option" where
  "parseTypeSimilarityCapability v =
     (case v of
        JUndefined \<Rightarrow> Inr None
      | JNum (Finite q) \<Rightarrow>
          if 0 \<le> q \<and> q \<le> 1 then Inr (Some ''type similarity requires strict containment'')
          else Inl (Invalid ''typeSimilarityThreshold must be between 0 and 1'')
      | _ \<Rightarrow> Inl (Invalid ''typeSimilarityThreshold must be between 0 and 1''))"

definition is_flag :: "jsval \<Rightarrow> bool" where
  "is_flag v = (case v of JUndefined \<Rightarrow> True | JBool _ \<Rightarrow> True | _ \<Rightarrow> False)"

definition parseFlagCapabilities :: "analyze_input \<Rightarrow> rejected + string option" where
  "parseFlagCapabilities input =
     (let profile = js_prop input ''profile''; bundle = js_prop input ''bundle''; benchmarks = js_prop input ''benchmarks'' in
      if \<not> is_flag profile then Inl (Invalid ''profile must be a boolean'')
      else if \<not> is_flag bundle then Inl (Invalid ''bundle must be a boolean'')
      else if (case benchmarks of JUndefined \<Rightarrow> False | JArr _ \<Rightarrow> False | _ \<Rightarrow> True)
      then Inl (Invalid ''benchmarks must be an array'')
      else if profile = JBool True then Inr (Some ''profiling requires strict containment'')
      else if bundle = JBool True \<or> (case benchmarks of JArr bs \<Rightarrow> bs \<noteq> [] | _ \<Rightarrow> False)
      then Inr (Some ''bundle and benchmark analysis require strict containment'')
      else Inr None)"

definition parseStrictCapabilities :: "analyze_input \<Rightarrow> rejected + string option" where
  "parseStrictCapabilities input =
     try_bind (parseTypeSimilarityCapability (js_prop input ''typeSimilarityThreshold'')) (\<lambda>similarity.
     try_bind (parseFlagCapabilities input) (\<lambda>flags.
       Inr (if js_prop input ''profile'' = JBool True then flags
            else case similarity of None \<Rightarrow> flags | Some r \<Rightarrow> Some r)))"

definition classifyAnalyzeRequest :: "analyze_input \<Rightarrow> rejected + safe_request" where
  "classifyAnalyzeRequest input =
     try_bind (parseCwd (js_prop input ''cwd'')) (\<lambda>cwd.
     try_bind (parseSafeLimits input) (\<lambda>timeout.
     try_bind (parseStrictCapabilities input) (\<lambda>capability.
     try_bind (parseScopeSelection input) (\<lambda>scope.
     try_bind (parseChecks (js_prop input ''checks'')) (\<lambda>checks.
       case capability of
         Some reason \<Rightarrow> Inl (Strict reason)
       | None \<Rightarrow>
           if scope = All_scope then Inl (Strict ''all scope requires strict containment'')
           else Inr \<lparr>sq_cwd = cwd, sq_scope = scope, sq_checks = checks,
             sq_maxMemoryMb = al_maxMemoryMb ANALYZE_LIMITS, sq_maxSourceFiles = al_sourceFiles ANALYZE_LIMITS,
             sq_maxSourceFileBytes = al_sourceFileBytes ANALYZE_LIMITS,
             sq_maxSourceBytes = al_sourceBytes ANALYZE_LIMITS, sq_timeoutMs = timeout\<rparr>)))))"

section \<open>What an admitted request satisfies\<close>

text \<open>
  The limits of an admitted request, stated by themselves: a reference is a text of 1 to 512 characters
  that git takes for no option and that holds no NUL; a path has 1 to 1024 characters, begins neither at
  the root nor with a drive, holds no NUL, and nowhere between separators (of either kind) is it \<open>..\<close>.
\<close>

definition ref_ok :: "string \<Rightarrow> bool" where
  "ref_ok r \<longleftrightarrow> 1 \<le> length r \<and> length r \<le> 512 \<and> hd r \<noteq> CHR ''-'' \<and> CHR 0x00 \<notin> set r"

definition separator :: "char \<Rightarrow> bool" where
  "separator c \<longleftrightarrow> c = CHR ''/'' \<or> c = CHR 0x5C"

definition path_ok :: "string \<Rightarrow> bool" where
  "path_ok p \<longleftrightarrow> 1 \<le> length p \<and> length p \<le> 1024 \<and> hd p \<noteq> CHR ''/'' \<and> CHR 0x00 \<notin> set p \<and>
     \<not> (\<exists>c rest. p = c # CHR '':'' # rest \<and> (CHR ''A'' \<le> c \<and> c \<le> CHR ''Z'' \<or> CHR ''a'' \<le> c \<and> c \<le> CHR ''z'')) \<and>
     \<not> (\<exists>u v. p = u @ ''..'' @ v \<and> (u = [] \<or> separator (last u)) \<and> (v = [] \<or> separator (hd v)))"

definition scope_ok :: "scope_selection \<Rightarrow> bool" where
  "scope_ok s = (case s of
     All_scope \<Rightarrow> False
   | Diff_scope r \<Rightarrow> (case r of None \<Rightarrow> True | Some r \<Rightarrow> ref_ok r)
   | Paths_scope ps \<Rightarrow> ps \<noteq> [] \<and> length ps \<le> 128 \<and> distinct ps \<and> list_all path_ok ps)"

definition request_ok :: "safe_request \<Rightarrow> bool" where
  "request_ok r \<longleftrightarrow>
     sq_cwd r \<noteq> [] \<and> hd (sq_cwd r) = CHR ''/'' \<and> length (sq_cwd r) \<le> 4096 \<and> scope_ok (sq_scope r) \<and>
     sq_checks r \<noteq> [] \<and> distinct (sq_checks r) \<and> set (sq_checks r) \<subseteq> {Async_risk, Duplicates, Test_duplicates} \<and>
     sq_maxMemoryMb r = 512 \<and> sq_maxSourceFiles r = 1024 \<and> sq_maxSourceFileBytes r = 262144 \<and>
     sq_maxSourceBytes r = 2097152 \<and> 1000 \<le> sq_timeoutMs r \<and> sq_timeoutMs r \<le> 30000"

lemma limit_values:
  "al_maxMemoryMb ANALYZE_LIMITS = 512" "al_timeoutMs ANALYZE_LIMITS = 30000" "al_sourceFiles ANALYZE_LIMITS = 1024"
  "al_sourceFileBytes ANALYZE_LIMITS = 262144" "al_sourceBytes ANALYZE_LIMITS = 2097152" "al_paths ANALYZE_LIMITS = 128"
  "al_cwdLength ANALYZE_LIMITS = 4096" "al_pathLength ANALYZE_LIMITS = 1024" "al_refLength ANALYZE_LIMITS = 512"
  "al_findings ANALYZE_LIMITS = 200" "al_failures ANALYZE_LIMITS = 64" "al_relatedLocations ANALYZE_LIMITS = 16"
  "al_messageLength ANALYZE_LIMITS = 2048" "al_resultBytes ANALYZE_LIMITS = 49152" "al_stdoutBytes ANALYZE_LIMITS = 262144"
  "al_stderrBytes ANALYZE_LIMITS = 32768"
  by (simp_all add: ANALYZE_LIMITS_def)

lemma has_zero_iff: "has_zero s \<longleftrightarrow> CHR 0x00 \<in> set s"
proof -
  have "(of_char c :: nat) = 0 \<longleftrightarrow> c = CHR 0x00" for c
    using of_char_eq_iff [of c "CHR 0x00", where 'a = nat] by simp
  then show ?thesis
    by (simp add: has_zero_def list_ex_iff)
qed

lemma ref_ok_iff: "ref_ok r \<longleftrightarrow> bounded_ref (JStr r) = Some r"
  by (cases r) (auto simp: ref_ok_def bounded_ref_def has_zero_iff starts_with_def limit_values Suc_le_eq)

text \<open>The parts of a split, by where they stand in the text.\<close>

lemma in_split_any:
  assumes "set acc \<inter> seps = {}" "set w \<inter> seps = {}"
  shows "w \<in> set (split_any seps acc s) \<longleftrightarrow>
    (\<exists>u v. acc @ s = u @ w @ v \<and> (u = [] \<or> last u \<in> seps) \<and> (v = [] \<or> hd v \<in> seps))"
  using assms(1)
proof (induction s arbitrary: acc)
  case Nil
  have "w = acc" if "acc = u @ w @ v" "u = [] \<or> last u \<in> seps" "v = [] \<or> hd v \<in> seps" for u v
    using that Nil by (cases u rule: rev_cases; cases v) auto
  moreover have "acc = [] @ acc @ []"
    by simp
  ultimately show ?case
    by (metis append_Nil2 empty_iff list.set(1) set_ConsD split_any.simps(1) list.set_intros(1))
next
  case (Cons c cs)
  show ?case
  proof (cases "c \<in> seps")
    case False
    then show ?thesis
      using Cons.IH [of "acc @ [c]"] Cons.prems by simp
  next
    case True
    have whole: "w = acc \<or> (\<exists>u'. cs = u' @ w @ v \<and> (u' = [] \<or> last u' \<in> seps))"
      if eq: "acc @ c # cs = u @ w @ v" and u: "u = [] \<or> last u \<in> seps" and v: "v = [] \<or> hd v \<in> seps" for u v
    proof (cases "length u \<le> length acc")
      case True
      have "take (length u) acc = u"
        using arg_cong [OF eq, of "take (length u)"] True by simp
      then have "set u \<subseteq> set acc"
        by (metis set_take_subset)
      then have "u = []"
        using u Cons.prems by (cases u rule: rev_cases) auto
      have "takeWhile (\<lambda>x. x \<notin> seps) (acc @ c # cs) = acc"
        using Cons.prems \<open>c \<in> seps\<close> by (subst takeWhile_append2) auto
      moreover have "takeWhile (\<lambda>x. x \<notin> seps) (w @ v) = w"
        using assms(2) v by (subst takeWhile_append2) (auto simp: takeWhile_eq_Nil_iff)
      ultimately show ?thesis
        using eq \<open>u = []\<close> by simp
    next
      case False
      have "take (Suc (length acc)) u = acc @ [c]"
        using arg_cong [OF eq, of "take (Suc (length acc))"] False by simp
      then obtain u' where u': "u = acc @ c # u'"
        by (metis append_Cons append_Nil append_assoc append_take_drop_id)
      then show ?thesis
        using eq u by (cases u' rule: rev_cases) auto
    qed
    have "w \<in> set (split_any seps acc (c # cs)) \<longleftrightarrow>
        w = acc \<or> (\<exists>u v. cs = u @ w @ v \<and> (u = [] \<or> last u \<in> seps) \<and> (v = [] \<or> hd v \<in> seps))"
      using True Cons.IH [of "[]"] by auto
    also have "\<dots> \<longleftrightarrow> (\<exists>u v. acc @ c # cs = u @ w @ v \<and> (u = [] \<or> last u \<in> seps) \<and> (v = [] \<or> hd v \<in> seps))"
    proof
      assume "w = acc \<or> (\<exists>u v. cs = u @ w @ v \<and> (u = [] \<or> last u \<in> seps) \<and> (v = [] \<or> hd v \<in> seps))"
      then show "\<exists>u v. acc @ c # cs = u @ w @ v \<and> (u = [] \<or> last u \<in> seps) \<and> (v = [] \<or> hd v \<in> seps)"
      proof
        assume "w = acc"
        then show ?thesis
          using True by (intro exI [of _ "[]"] exI [of _ "c # cs"]) simp
      next
        assume "\<exists>u v. cs = u @ w @ v \<and> (u = [] \<or> last u \<in> seps) \<and> (v = [] \<or> hd v \<in> seps)"
        then obtain u v where "cs = u @ w @ v" and uv: "u = [] \<or> last u \<in> seps" "v = [] \<or> hd v \<in> seps"
          by blast
        then have "acc @ c # cs = (acc @ c # u) @ w @ v" "last (acc @ c # u) \<in> seps"
          using True by auto
        then show ?thesis
          using uv(2) by blast
      qed
    qed (use whole in blast)
    finally show ?thesis
      by simp
  qed
qed

lemma drive_iff:
  "isDriveQualifiedPath p \<longleftrightarrow>
    (\<exists>c rest. p = c # CHR '':'' # rest \<and> (CHR ''A'' \<le> c \<and> c \<le> CHR ''Z'' \<or> CHR ''a'' \<le> c \<and> c \<le> CHR ''z''))"
  by (auto simp: isDriveQualifiedPath_def is_letter_def Let_def less_eq_char_def split: list.splits)

lemma path_ok_iff: "path_ok p \<longleftrightarrow> isBoundedWorkspaceRelativePath p"
proof -
  let ?seps = "{CHR 0x5C, CHR ''/''}"
  have "''..'' \<in> set (split_any ?seps [] p) \<longleftrightarrow>
      (\<exists>u v. p = u @ ''..'' @ v \<and> (u = [] \<or> separator (last u)) \<and> (v = [] \<or> separator (hd v)))"
    using in_split_any [of "[]" ?seps "''..''" p] by (simp add: separator_def disj_commute)
  then show ?thesis
    unfolding path_ok_def isBoundedWorkspaceRelativePath_def drive_iff [symmetric] has_zero_iff limit_values
    by (cases p) (auto simp: is_absolute_def)
qed

lemma all_some_Some: "all_some xs = Some ys \<longleftrightarrow> xs = map Some ys"
  by (induction xs arbitrary: ys) (auto simp: opt_bind_def Cons_eq_map_conv split: option.splits)

text \<open>Entries that decode are strings, so the uniqueness of the values is that of the results.\<close>

lemma decoded_unique:
  assumes "map dec vs = map Some ys" and "\<And>v y. dec v = Some y \<Longrightarrow> v = JStr (nm y)" and "unique_values vs"
  shows "distinct ys"
proof -
  have vs: "vs = map (JStr \<circ> nm) ys"
    using assms(1,2) by (induction vs arbitrary: ys) (auto simp: Cons_eq_map_conv)
  then have "distinct (map (JStr \<circ> nm) ys)"
    using assms(3) by (simp add: unique_values_def is_primitive_def filter_id_conv)
  then show ?thesis
    by (simp add: distinct_map)
qed

lemma bounded_pathD: "bounded_path v = Some p \<Longrightarrow> v = JStr p" "bounded_path v = Some p \<Longrightarrow> isBoundedWorkspaceRelativePath p"
  by (auto simp: bounded_path_def split: jsval.splits if_splits)

fun analyzer_name :: "analyzer \<Rightarrow> string" where
  "analyzer_name Duplicates = ''duplicates''"
| "analyzer_name Test_duplicates = ''test-duplicates''"
| "analyzer_name Types = ''types''"
| "analyzer_name Async_risk = ''async-risk''"
| "analyzer_name Eslint = ''eslint''"
| "analyzer_name Dependencies = ''dependencies''"
| "analyzer_name Knip = ''knip''"
| "analyzer_name Bundle = ''bundle''"

lemma analyzer_names_name: "(n, a) \<in> set analyzer_names \<Longrightarrow> n = analyzer_name a"
  by (auto simp: analyzer_names_def)

lemma analyzer_ofD: "analyzer_of v = Some a \<Longrightarrow> v = JStr (analyzer_name a)"
  by (cases v) (auto simp: analyzer_of_def dest: map_of_SomeD analyzer_names_name)

lemma bounded_refD: "bounded_ref v = Some r \<Longrightarrow> v = JStr r"
  by (auto simp: bounded_ref_def split: jsval.splits if_splits)

lemma bounded_ref_ok: "bounded_ref v = Some r \<Longrightarrow> ref_ok r"
  using bounded_refD [of v r] by (simp add: ref_ok_iff)

lemma parsed_paths:
  assumes "parsePathsScope paths ref = Inr s"
  obtains vs ps where "ref = JUndefined" "paths = JArr vs" "s = Paths_scope ps" "map bounded_path vs = map Some ps"
    "vs \<noteq> []" "length vs \<le> 128" "unique_values vs"
proof -
  from assms obtain v vs where "ref = JUndefined" "paths = JArr (v # vs)" "length (v # vs) \<le> 128" "unique_values (v # vs)"
    "all_some (map bounded_path (v # vs)) = Some (case s of Paths_scope ps \<Rightarrow> ps | _ \<Rightarrow> [])" "\<exists>ps. s = Paths_scope ps"
    by (auto simp: parsePathsScope_def limit_values simp del: all_some.simps list.map
        split: if_splits jsval.splits list.splits option.splits)
  then show thesis
    using that [of "v # vs"] by (auto simp: all_some_Some simp del: list.map)
qed

lemma paths_ok:
  assumes "parsePathsScope paths ref = Inr s"
  shows "scope_ok s"
proof -
  obtain vs ps where p: "s = Paths_scope ps" "map bounded_path vs = map Some ps" "vs \<noteq> []" "length vs \<le> 128" "unique_values vs"
    by (rule parsed_paths [OF assms])
  have "distinct ps"
    by (rule decoded_unique [OF p(2) _ p(5), where nm = id]) (unfold id_apply, erule bounded_pathD(1))
  moreover have "\<forall>q\<in>set ps. isBoundedWorkspaceRelativePath q"
  proof
    fix q assume "q \<in> set ps"
    then have "Some q \<in> set (map bounded_path vs)"
      by (simp add: p(2))
    then show "isBoundedWorkspaceRelativePath q"
      using bounded_pathD(2) by fastforce
  qed
  moreover have "length ps = length vs"
    using map_eq_imp_length_eq [OF p(2)] by simp
  ultimately show ?thesis
    using p by (auto simp: scope_ok_def list_all_iff path_ok_iff)
qed

lemma parsed_scope_ok: "parseScopeSelection input = Inr s \<Longrightarrow> s \<noteq> All_scope \<Longrightarrow> scope_ok s"
  using paths_ok [of "js_prop input ''paths''" "js_prop input ''ref''" s]
  by (auto simp: parseScopeSelection_def parseDiffScope_def Let_def scope_ok_def
      split: if_splits option.splits dest: bounded_ref_ok)

lemma parsed_checks_ok:
  assumes "parseChecks v = Inr cs"
  shows "cs \<noteq> [] \<and> distinct cs \<and> set cs \<subseteq> {Async_risk, Duplicates, Test_duplicates}"
proof -
  from assms obtain x xs where v: "all_some (map analyzer_of (x # xs)) = Some cs" "unique_values (x # xs)"
    "list_all (\<lambda>c. c \<in> set SAFE_CHECKS) cs"
    by (auto simp: parseChecks_def simp del: all_some.simps list.map split: if_splits jsval.splits list.splits option.splits)
  then have m: "map analyzer_of (x # xs) = map Some cs"
    by (simp add: all_some_Some del: list.map)
  have "distinct cs"
    by (rule decoded_unique [OF m _ v(2), where nm = analyzer_name]) (rule analyzer_ofD)
  then show ?thesis
    using m v(3) by (auto simp: list_all_iff SAFE_CHECKS_def)
qed

lemma parsed_limits_ok: "parseSafeLimits input = Inr t \<Longrightarrow> 1000 \<le> t \<and> t \<le> 30000"
  by (auto simp: parseSafeLimits_def Let_def limit_values split: if_splits)

lemma parsed_cwd_ok: "parseCwd v = Inr cwd \<Longrightarrow> cwd \<noteq> [] \<and> hd cwd = CHR ''/'' \<and> length cwd \<le> 4096"
  by (auto simp: parseCwd_def limit_values is_absolute_def split: jsval.splits if_splits)

lemma classified_safe_ok:
  assumes "classifyAnalyzeRequest input = Inr r"
  shows "request_ok r"
proof -
  obtain cwd timeout scope checks where
    "parseCwd (js_prop input ''cwd'') = Inr cwd" "parseSafeLimits input = Inr timeout"
    "parseScopeSelection input = Inr scope" "parseChecks (js_prop input ''checks'') = Inr checks" "scope \<noteq> All_scope"
    and r: "r = \<lparr>sq_cwd = cwd, sq_scope = scope, sq_checks = checks, sq_maxMemoryMb = 512, sq_maxSourceFiles = 1024,
      sq_maxSourceFileBytes = 262144, sq_maxSourceBytes = 2097152, sq_timeoutMs = timeout\<rparr>"
    using assms by (auto simp: classifyAnalyzeRequest_def try_bind_Inr_iff limit_values split: option.splits if_splits)
  note parsed_cwd_ok [OF this(1)] parsed_limits_ok [OF this(2)] parsed_scope_ok [OF this(3,5)] parsed_checks_ok [OF this(4)]
  then show ?thesis
    by (simp add: request_ok_def r)
qed

section \<open>Paths stay inside the workspace\<close>

lemma split_on_first: "\<exists>f r. \<forall>acc. split_on sep acc s = (acc @ f) # r"
proof (induction s)
  case (Cons c s)
  then obtain f r where fr: "split_on sep acc s = (acc @ f) # r" for acc
    by blast
  show ?case
    by (rule exI [of _ "if c = sep then [] else c # f"], rule exI [of _ "if c = sep then f # r else r"]) (simp add: fr)
qed simp

lemma dotdot_component:
  "''..'' \<in> set (split_on (CHR ''/'') acc s) \<Longrightarrow> ''..'' \<in> set (split_any {CHR 0x5C, CHR ''/''} acc s)"
proof (induction s arbitrary: acc)
  case (Cons c cs)
  show ?case
  proof (cases "c = CHR 0x5C")
    case True
    obtain f r where fr: "split_on (CHR ''/'') a cs = (a @ f) # r" for a
      using split_on_first [of "CHR ''/''" cs] by blast
    have "acc @ [CHR 0x5C] @ f \<noteq> ''..''"
      by (auto simp: append_eq_Cons_conv)
    then have "''..'' \<in> set r"
      using Cons.prems True by (simp add: fr)
    then show ?thesis
      using True Cons.IH [of "[]"] by (simp add: fr)
  next
    case False
    then show ?thesis
      using Cons by auto
  qed
qed simp

lemma normalize_below:
  "''..'' \<notin> set cs \<Longrightarrow> \<exists>rel. normalize_components acc cs = acc @ rel \<and> ''..'' \<notin> set rel"
  by (induction acc cs rule: normalize_components.induct) auto

lemma bounded_path_below:
  assumes "isBoundedWorkspaceRelativePath p"
  shows "\<exists>rel. resolve_path cwd p = cwd @ rel \<and> ''..'' \<notin> set rel"
proof -
  have "''..'' \<notin> set (split_on (CHR ''/'') [] p)" "\<not> is_absolute p"
    using assms dotdot_component [of "[]" p] by (auto simp: isBoundedWorkspaceRelativePath_def)
  then show ?thesis
    using normalize_below [of "split_on (CHR ''/'') [] p" cwd] by (simp add: resolve_path_def)
qed

section \<open>Properties\<close>

text \<open>C12: A request admitted as safe is within every limit of the worker (bounded absolute working
  directory, known safe checks without repetition, the fixed memory and source limits, a timeout
  between one and thirty seconds, a bounded reference or at most 128 different paths), and each of
  its paths resolves below the working directory, whichever that is.\<close>

theorem safe_request_confined:
  assumes "classifyAnalyzeRequest input = Inr r"
  shows "request_ok r \<and>
    (\<forall>ps p. sq_scope r = Paths_scope ps \<longrightarrow> p \<in> set ps \<longrightarrow>
      (\<exists>rel. resolve_path cwd p = cwd @ rel \<and> ''..'' \<notin> set rel))"
proof -
  have ok: "request_ok r"
    using assms by (rule classified_safe_ok)
  then have "isBoundedWorkspaceRelativePath p" if "sq_scope r = Paths_scope ps" "p \<in> set ps" for ps p
    using that by (simp add: request_ok_def scope_ok_def list_all_iff path_ok_iff)
  then show ?thesis
    using ok bounded_path_below by blast
qed

definition demo_request :: analyze_input where
  "demo_request =
     [(''cwd'', JStr ''/w''), (''scope'', JStr ''paths''), (''paths'', JArr [JStr ''src/a.ts'', JStr ''b'']),
      (''checks'', JArr [JStr ''async-risk'']), (''timeoutMs'', JNum (Finite 5))]"

definition demo_safe :: safe_request where
  "demo_safe =
     \<lparr>sq_cwd = ''/w'', sq_scope = Paths_scope [''src/a.ts'', ''b''], sq_checks = [Async_risk], sq_maxMemoryMb = 512,
      sq_maxSourceFiles = 1024, sq_maxSourceFileBytes = 262144, sq_maxSourceBytes = 2097152, sq_timeoutMs = 1000\<rparr>"

lemma demo_request_safe: "classifyAnalyzeRequest demo_request = Inr demo_safe"
proof -
  have five: "is_integer (Finite 5)" "js_int (Finite 5) = 5"
    using is_integer_of_int [of 5] js_int_of_int [of 5] by simp_all
  have paths: "bounded_path (JStr ''src/a.ts'') = Some ''src/a.ts''" "bounded_path (JStr ''b'') = Some ''b''"
    by (simp_all add: bounded_path_def isBoundedWorkspaceRelativePath_def limit_values has_zero_def is_absolute_def
        isDriveQualifiedPath_def)
  show ?thesis
    by (simp add: classifyAnalyzeRequest_def demo_request_def demo_safe_def js_prop_def parseCwd_def is_absolute_def parseSafeLimits_def
        positive_integer_def number_of_def five parseStrictCapabilities_def parseTypeSimilarityCapability_def
        parseFlagCapabilities_def is_flag_def parseScopeSelection_def parsePathsScope_def paths unique_values_def
        is_primitive_def parseChecks_def analyzer_of_def analyzer_names_def SAFE_CHECKS_def opt_bind_def limit_values)
qed

theorem safe_request_confined_witness:
  "\<exists>r. classifyAnalyzeRequest demo_request = Inr r \<and> request_ok r \<and>
    (\<exists>rel. resolve_path [''w''] ''src/a.ts'' = [''w''] @ rel \<and> ''..'' \<notin> set rel)"
proof -
  have scope: "sq_scope demo_safe = Paths_scope [''src/a.ts'', ''b'']"
    by (simp add: demo_safe_def)
  note all = safe_request_confined [OF demo_request_safe]
  from all have "\<exists>rel. resolve_path [''w''] ''src/a.ts'' = [''w''] @ rel \<and> ''..'' \<notin> set rel"
    by (intro conjunct2 [OF all, rule_format, OF scope]) simp
  then show ?thesis
    using demo_request_safe conjunct1 [OF all] by blast
qed

end
