(* ===== verification/Analyze_Protocol.thy ===== *)
theory Analyze_Protocol
  imports Analyze_Policy
begin

text \<open>
  The messages between the analyze supervisor and its worker: the attributes of
  \<open>src/analyze/diagnostics.ts\<close> that a diagnostic event may carry, the decoding of requests and
  events of \<open>src/analyze/protocol.ts\<close>, and the state machine that accepts the worker's lines
  (\<open>acceptProtocolLine\<close>). Messages are texts; how a number that is not an integer prints is
  the parameter \<open>num\<close>.
\<close>

section \<open>Diagnostic events (diagnostics.ts)\<close>

datatype event_type =
    Run_started | Stage_started | Stage_completed | Memory_sample | Failure_event | Run_completed | Run_terminated

definition event_types :: "(string \<times> event_type) list" where
  "event_types =
     [(''run-started'', Run_started), (''stage-started'', Stage_started), (''stage-completed'', Stage_completed),
      (''memory-sample'', Memory_sample), (''failure'', Failure_event), (''run-completed'', Run_completed),
      (''run-terminated'', Run_terminated)]"

definition ALLOWED_ATTRIBUTE_KEYS :: "string list" where
  "ALLOWED_ATTRIBUTE_KEYS =
     [''analyzer'', ''cgroup_oom_count'', ''check_count'', ''duration_ms'', ''exit_code'', ''external_mib'', ''failure_count'',
      ''file_count'', ''finding_count'', ''heap_mib'', ''max_memory_mb'', ''outcome'', ''process_count'',
      ''project_requirement'', ''rss_mib'', ''scope_mode'', ''signal'', ''stage'', ''termination_reason'', ''timeout_ms'']"

definition MAX_DIAGNOSTIC_ATTRIBUTES :: nat where
  "MAX_DIAGNOSTIC_ATTRIBUTES = 24"

definition MAX_DIAGNOSTIC_STRING_LENGTH :: nat where
  "MAX_DIAGNOSTIC_STRING_LENGTH = 128"

record diagnostic_event =
  de_runId :: string
  de_timestampMs :: rat
  de_type :: event_type
  de_attributes :: "(string, jsval) jsmap"
  de_terminal :: bool

definition sanitized_value :: "jsval \<Rightarrow> jsval option" where
  "sanitized_value v =
     (case v of
        JStr s \<Rightarrow> Some (JStr (take MAX_DIAGNOSTIC_STRING_LENGTH s))
      | JNum (Finite q) \<Rightarrow> Some v
      | JBool b \<Rightarrow> Some v
      | _ \<Rightarrow> None)"

fun sanitize_loop :: "(string, jsval) jsmap \<Rightarrow> (string \<times> jsval) list \<Rightarrow> (string, jsval) jsmap" where
  "sanitize_loop out [] = out"
| "sanitize_loop out ((k, v) # ps) =
     (if length out \<ge> MAX_DIAGNOSTIC_ATTRIBUTES then out
      else if k \<notin> set ALLOWED_ATTRIBUTE_KEYS then sanitize_loop out ps
      else (case sanitized_value v of
          None \<Rightarrow> sanitize_loop out ps
        | Some w \<Rightarrow> sanitize_loop (jm_set k w out) ps))"

definition sanitizeDiagnosticAttributes :: "(string \<times> jsval) list \<Rightarrow> (string, jsval) jsmap" where
  "sanitizeDiagnosticAttributes input = sanitize_loop [] input"

definition createAnalysisDiagnosticEvent :: "string \<Rightarrow> rat \<Rightarrow> event_type \<Rightarrow> (string \<times> jsval) list \<Rightarrow> diagnostic_event" where
  "createAnalysisDiagnosticEvent runId timestampMs type attributes =
     \<lparr>de_runId = take MAX_DIAGNOSTIC_STRING_LENGTH runId, de_timestampMs = timestampMs, de_type = type,
      de_attributes = sanitizeDiagnosticAttributes attributes,
      de_terminal = (type = Run_completed \<or> type = Run_terminated)\<rparr>"

section \<open>Lines and envelopes (protocol.ts)\<close>

datatype protocol_error_kind = Malformed_line | Version_error | Line_limit | Total_limit | State_error

datatype protocol_error = Protocol_error protocol_error_kind string

definition MAX_PROTOCOL_LINE_BYTES :: nat where
  "MAX_PROTOCOL_LINE_BYTES = 64 * 1024"

definition MAX_PROTOCOL_TOTAL_BYTES :: nat where
  "MAX_PROTOCOL_TOTAL_BYTES = al_stdoutBytes ANALYZE_LIMITS"

datatype message_type = Request_message | Started_message | Diagnostic_message | Result_message | Complete_message

definition message_types :: "(string \<times> message_type) list" where
  "message_types =
     [(''request'', Request_message), (''started'', Started_message), (''diagnostic'', Diagnostic_message),
      (''result'', Result_message), (''complete'', Complete_message)]"

definition isBoundedString :: "jsval \<Rightarrow> nat \<Rightarrow> bool \<Rightarrow> string option" where
  "isBoundedString v bound allowEmpty =
     (case v of
        JStr s \<Rightarrow> if (allowEmpty \<or> s \<noteq> '''') \<and> length s \<le> bound \<and> \<not> has_zero s then Some s else None
      | _ \<Rightarrow> None)"

definition malformed :: "string \<Rightarrow> protocol_error + 'a" where
  "malformed message = Inl (Protocol_error Malformed_line message)"

definition parseObjectLine :: "string \<Rightarrow> protocol_error + (string \<times> jsval) list" where
  "parseObjectLine line =
     (if byte_length line > MAX_PROTOCOL_LINE_BYTES
      then Inl (Protocol_error Line_limit ''Analyze worker protocol line exceeded its byte limit'')
      else case parse_json line of
        None \<Rightarrow> malformed ''Analyze worker protocol line is not valid JSON''
      | Some (JObj ps) \<Rightarrow> Inr ps
      | Some _ \<Rightarrow> malformed ''Analyze worker protocol line must contain an object'')"

definition message_type_of :: "jsval \<Rightarrow> message_type option" where
  "message_type_of v = (case v of JStr s \<Rightarrow> map_of message_types s | _ \<Rightarrow> None)"

definition validateEnvelope :: "(string \<times> jsval) list \<Rightarrow> message_type option \<Rightarrow> protocol_error + string" where
  "validateEnvelope ps expected =
     (if js_prop ps ''version'' \<noteq> js_one
      then Inl (Protocol_error Version_error ''Unsupported analyze worker protocol version'')
      else case message_type_of (js_prop ps ''type'') of
        None \<Rightarrow> malformed ''Analyze worker message type is invalid''
      | Some t \<Rightarrow>
          if expected \<noteq> None \<and> expected \<noteq> Some t then malformed ''Analyze worker message type is invalid''
          else (case isBoundedString (js_prop ps ''runId'') 128 False of
              None \<Rightarrow> malformed ''Analyze worker runId is invalid''
            | Some runId \<Rightarrow> Inr runId))"

section \<open>Requests\<close>

record worker_request =
  wq_runId :: string
  wq_request :: safe_request

definition validRequestCwd :: "jsval \<Rightarrow> string option" where
  "validRequestCwd v =
     opt_bind (isBoundedString v (al_cwdLength ANALYZE_LIMITS) False) (\<lambda>s. if is_absolute s then Some s else None)"

definition parseRequestChecks :: "jsval \<Rightarrow> analyzer list option" where
  "parseRequestChecks v =
     (case v of
        JArr vs \<Rightarrow>
          if vs = [] \<or> length vs > length SAFE_CHECKS \<or> \<not> unique_values vs then None
          else opt_bind (all_some (map analyzer_of vs)) (\<lambda>cs. if list_all (\<lambda>c. c \<in> set SAFE_CHECKS) cs then Some cs else None)
      | _ \<Rightarrow> None)"

text \<open>The fixed limits must be repeated; the answer is the timeout.\<close>

definition validRequestLimits :: "(string \<times> jsval) list \<Rightarrow> int option" where
  "validRequestLimits ps =
     (if js_prop ps ''maxMemoryMb'' = js_num (al_maxMemoryMb ANALYZE_LIMITS) \<and>
         js_prop ps ''maxSourceFiles'' = js_num (al_sourceFiles ANALYZE_LIMITS) \<and>
         js_prop ps ''maxSourceFileBytes'' = js_num (al_sourceFileBytes ANALYZE_LIMITS) \<and>
         js_prop ps ''maxSourceBytes'' = js_num (al_sourceBytes ANALYZE_LIMITS)
      then (case js_prop ps ''timeoutMs'' of
              JNum n \<Rightarrow> if is_integer n \<and> 1000 \<le> js_int n \<and> js_int n \<le> al_timeoutMs ANALYZE_LIMITS then Some (js_int n) else None
            | _ \<Rightarrow> None)
      else None)"

definition parseRequestDiffScope :: "jsval \<Rightarrow> jsval \<Rightarrow> scope_selection option" where
  "parseRequestDiffScope paths ref =
     (if paths \<noteq> JUndefined then None
      else if ref = JUndefined then Some (Diff_scope None)
      else opt_bind (isBoundedString ref (al_refLength ANALYZE_LIMITS) False)
             (\<lambda>r. if starts_with ''-'' r then None else Some (Diff_scope (Some r))))"

definition parseRequestPathsScope :: "jsval \<Rightarrow> jsval \<Rightarrow> scope_selection option" where
  "parseRequestPathsScope paths ref =
     (case paths of
        JArr vs \<Rightarrow>
          if ref \<noteq> JUndefined \<or> vs = [] \<or> length vs > al_paths ANALYZE_LIMITS \<or> \<not> unique_values vs then None
          else map_option Paths_scope (all_some (map bounded_path vs))
      | _ \<Rightarrow> None)"

definition parseRequestScope :: "(string \<times> jsval) list \<Rightarrow> scope_selection option" where
  "parseRequestScope ps =
     (if js_prop ps ''scope'' = JStr ''diff'' then parseRequestDiffScope (js_prop ps ''paths'') (js_prop ps ''ref'')
      else if js_prop ps ''scope'' = JStr ''paths'' then parseRequestPathsScope (js_prop ps ''paths'') (js_prop ps ''ref'')
      else None)"

definition parseAnalyzeWorkerRequest :: "string \<Rightarrow> protocol_error + worker_request" where
  "parseAnalyzeWorkerRequest line =
     try_bind (parseObjectLine line) (\<lambda>ps.
     try_bind (validateEnvelope ps (Some Request_message)) (\<lambda>runId.
       case validRequestCwd (js_prop ps ''cwd'') of
         None \<Rightarrow> malformed ''Analyze worker request cwd is invalid''
       | Some cwd \<Rightarrow>
           (case parseRequestScope ps of
              None \<Rightarrow> malformed ''Analyze worker request scope is invalid''
            | Some scope \<Rightarrow>
                (case parseRequestChecks (js_prop ps ''checks'') of
                   None \<Rightarrow> malformed ''Analyze worker request checks are invalid''
                 | Some checks \<Rightarrow>
                     (case validRequestLimits ps of
                        None \<Rightarrow> malformed ''Analyze worker request limits are invalid''
                      | Some timeout \<Rightarrow>
                          Inr \<lparr>wq_runId = runId,
                            wq_request = \<lparr>sq_cwd = cwd, sq_scope = scope, sq_checks = checks,
                              sq_maxMemoryMb = al_maxMemoryMb ANALYZE_LIMITS, sq_maxSourceFiles = al_sourceFiles ANALYZE_LIMITS,
                              sq_maxSourceFileBytes = al_sourceFileBytes ANALYZE_LIMITS,
                              sq_maxSourceBytes = al_sourceBytes ANALYZE_LIMITS, sq_timeoutMs = timeout\<rparr>\<rparr>)))))"

section \<open>Results\<close>

text \<open>What the schema of the payload decodes: excess properties are ignored.\<close>

record raw_location =
  rl_path :: string
  rl_line :: jsnumber
  rl_column :: jsnumber
  rl_endLine :: "jsnumber option"
  rl_endColumn :: "jsnumber option"

record raw_finding =
  rf_id :: "string option"
  rf_analyzer :: string
  rf_kind :: string
  rf_severity :: string
  rf_message :: string
  rf_location :: raw_location
  rf_related :: "raw_location list option"

record raw_failure =
  ra_analyzer :: string
  ra_message :: string

record raw_summary =
  rs_info :: jsnumber
  rs_warning :: jsnumber
  rs_error :: jsnumber
  rs_failures :: jsnumber

record raw_result =
  rr_version :: jsnumber
  rr_summary :: raw_summary
  rr_findings :: "raw_finding list"
  rr_analyzerFailures :: "raw_failure list"
  rr_benchmarks :: "jsval list"
  rr_profile :: "jsval option"

definition array_of :: "(jsval \<Rightarrow> 'a option) \<Rightarrow> jsval \<Rightarrow> 'a list option" where
  "array_of dec v = (case v of JArr vs \<Rightarrow> all_some (map dec vs) | _ \<Rightarrow> None)"

definition decode_location :: "jsval \<Rightarrow> raw_location option" where
  "decode_location v =
     opt_bind (as_object v) (\<lambda>ps.
     opt_bind (field as_string ''path'' ps) (\<lambda>path.
     opt_bind (field as_number ''line'' ps) (\<lambda>line.
     opt_bind (field as_number ''column'' ps) (\<lambda>column.
     opt_bind (opt_field as_number ''endLine'' ps) (\<lambda>endLine.
     opt_bind (opt_field as_number ''endColumn'' ps) (\<lambda>endColumn.
     Some \<lparr>rl_path = path, rl_line = line, rl_column = column, rl_endLine = endLine, rl_endColumn = endColumn\<rparr>))))))"

definition decode_finding :: "jsval \<Rightarrow> raw_finding option" where
  "decode_finding v =
     opt_bind (as_object v) (\<lambda>ps.
     opt_bind (opt_field as_string ''id'' ps) (\<lambda>id.
     opt_bind (field as_string ''analyzer'' ps) (\<lambda>analyzer.
     opt_bind (field as_string ''kind'' ps) (\<lambda>kind.
     opt_bind (field as_string ''severity'' ps) (\<lambda>severity.
     opt_bind (field as_string ''message'' ps) (\<lambda>message.
     opt_bind (field decode_location ''location'' ps) (\<lambda>location.
     opt_bind (opt_field (array_of decode_location) ''related'' ps) (\<lambda>related.
     Some \<lparr>rf_id = id, rf_analyzer = analyzer, rf_kind = kind, rf_severity = severity, rf_message = message,
       rf_location = location, rf_related = related\<rparr>))))))))"

definition decode_failure :: "jsval \<Rightarrow> raw_failure option" where
  "decode_failure v =
     opt_bind (as_object v) (\<lambda>ps.
     opt_bind (field as_string ''analyzer'' ps) (\<lambda>analyzer.
     opt_bind (field as_string ''message'' ps) (\<lambda>message.
     Some \<lparr>ra_analyzer = analyzer, ra_message = message\<rparr>)))"

definition decode_summary :: "jsval \<Rightarrow> raw_summary option" where
  "decode_summary v =
     opt_bind (as_object v) (\<lambda>ps.
     opt_bind (field as_number ''info'' ps) (\<lambda>info.
     opt_bind (field as_number ''warning'' ps) (\<lambda>warning.
     opt_bind (field as_number ''error'' ps) (\<lambda>error.
     opt_bind (field as_number ''failures'' ps) (\<lambda>failures.
     Some \<lparr>rs_info = info, rs_warning = warning, rs_error = error, rs_failures = failures\<rparr>)))))"

definition decode_result :: "jsval \<Rightarrow> raw_result option" where
  "decode_result v =
     opt_bind (as_object v) (\<lambda>ps.
     opt_bind (field as_number ''version'' ps) (\<lambda>version.
     opt_bind (field decode_summary ''summary'' ps) (\<lambda>summary.
     opt_bind (field (array_of decode_finding) ''findings'' ps) (\<lambda>findings.
     opt_bind (field (array_of decode_failure) ''analyzerFailures'' ps) (\<lambda>failures.
     opt_bind (field (array_of Some) ''benchmarks'' ps) (\<lambda>benchmarks.
     opt_bind (opt_field Some ''profile'' ps) (\<lambda>profile.
     Some \<lparr>rr_version = version, rr_summary = summary, rr_findings = findings, rr_analyzerFailures = failures,
       rr_benchmarks = benchmarks, rr_profile = profile\<rparr>)))))))"

text \<open>The trusted result (\<open>model.ts\<close>).\<close>

datatype severity = Info | Warning | Error

datatype finding_kind =
  Duplicate | Type_similarity | Lint | Dependency | Algorithmic_risk | Async_risk_finding | Bundle_finding

datatype failure_source =
  Analyzer_source analyzer | Benchmark_source | Configuration_source | Containment_source | Scope_source | Program_source
  | Supervisor_source

record location =
  lo_path :: string
  lo_line :: int
  lo_column :: int
  lo_endLine :: "int option"
  lo_endColumn :: "int option"

record finding =
  fi_id :: string
  fi_analyzer :: analyzer
  fi_kind :: finding_kind
  fi_severity :: severity
  fi_message :: string
  fi_location :: location
  fi_related :: "location list option"

record analyzer_failure =
  af_analyzer :: failure_source
  af_message :: string

record summary =
  su_info :: int
  su_warning :: int
  su_error :: int
  su_failures :: int

record analysis_result =
  ar_summary :: summary
  ar_findings :: "finding list"
  ar_analyzerFailures :: "analyzer_failure list"

definition severities :: "(string \<times> severity) list" where
  "severities = [(''info'', Info), (''warning'', Warning), (''error'', Error)]"

definition finding_kinds :: "(string \<times> finding_kind) list" where
  "finding_kinds =
     [(''duplicate'', Duplicate), (''type-similarity'', Type_similarity), (''lint'', Lint), (''dependency'', Dependency),
      (''algorithmic-risk'', Algorithmic_risk), (''async-risk'', Async_risk_finding), (''bundle'', Bundle_finding)]"

definition allowedFailureAnalyzers :: "(string \<times> failure_source) list" where
  "allowedFailureAnalyzers =
     map (\<lambda>(n, a). (n, Analyzer_source a)) analyzer_names @
     [(''benchmark'', Benchmark_source), (''configuration'', Configuration_source), (''containment'', Containment_source),
      (''scope'', Scope_source), (''program'', Program_source), (''supervisor'', Supervisor_source)]"

definition isPositiveInteger :: "jsnumber \<Rightarrow> int option" where
  "isPositiveInteger n = (if is_integer n \<and> js_int n \<ge> 1 then Some (js_int n) else None)"

definition validOptionalPositiveInteger :: "jsnumber option \<Rightarrow> int option option" where
  "validOptionalPositiveInteger n = (case n of None \<Rightarrow> Some None | Some n \<Rightarrow> map_option Some (isPositiveInteger n))"

definition parseLocation :: "raw_location \<Rightarrow> location option" where
  "parseLocation l =
     (if isBoundedString (JStr (rl_path l)) (al_pathLength ANALYZE_LIMITS) False = None \<or>
         \<not> isBoundedWorkspaceRelativePath (rl_path l) then None
      else
        opt_bind (isPositiveInteger (rl_line l)) (\<lambda>line.
        opt_bind (isPositiveInteger (rl_column l)) (\<lambda>column.
        opt_bind (validOptionalPositiveInteger (rl_endLine l)) (\<lambda>endLine.
        opt_bind (validOptionalPositiveInteger (rl_endColumn l)) (\<lambda>endColumn.
        Some \<lparr>lo_path = rl_path l, lo_line = line, lo_column = column, lo_endLine = endLine, lo_endColumn = endColumn\<rparr>)))))"

definition parseRelatedLocations :: "raw_location list option \<Rightarrow> location list option" where
  "parseRelatedLocations related =
     (case related of
        None \<Rightarrow> Some []
      | Some ls \<Rightarrow>
          if length ls > al_relatedLocations ANALYZE_LIMITS then None else all_some (map parseLocation ls))"

text \<open>The header of a finding: the analyzer, the kind and the severity it names.\<close>

definition validFindingHeader :: "raw_finding \<Rightarrow> (analyzer \<times> finding_kind \<times> severity) option" where
  "validFindingHeader f =
     opt_bind (map_of analyzer_names (rf_analyzer f)) (\<lambda>analyzer.
     opt_bind (map_of finding_kinds (rf_kind f)) (\<lambda>kind.
     opt_bind (map_of severities (rf_severity f)) (\<lambda>severity.
     if isBoundedString (JStr (rf_message f)) (al_messageLength ANALYZE_LIMITS) False \<noteq> None \<and>
        (case rf_id f of None \<Rightarrow> True | Some i \<Rightarrow> isBoundedString (JStr i) 128 True \<noteq> None)
     then Some (analyzer, kind, severity) else None)))"

definition parseFinding :: "raw_finding \<Rightarrow> finding option" where
  "parseFinding f =
     opt_bind (validFindingHeader f) (\<lambda>(analyzer, kind, severity).
     opt_bind (parseLocation (rf_location f)) (\<lambda>location.
     opt_bind (parseRelatedLocations (rf_related f)) (\<lambda>related.
     Some \<lparr>fi_id = (case rf_id f of None \<Rightarrow> '''' | Some i \<Rightarrow> i), fi_analyzer = analyzer, fi_kind = kind,
       fi_severity = severity, fi_message = rf_message f, fi_location = location,
       fi_related = (if rf_related f = None then None else Some related)\<rparr>)))"

definition parseFailure :: "raw_failure \<Rightarrow> analyzer_failure option" where
  "parseFailure f =
     opt_bind (map_of allowedFailureAnalyzers (ra_analyzer f)) (\<lambda>analyzer.
       if isBoundedString (JStr (ra_message f)) 1024 False = None then None
       else Some \<lparr>af_analyzer = analyzer, af_message = ra_message f\<rparr>)"

definition parseBoundedArray :: "'a list \<Rightarrow> nat \<Rightarrow> ('a \<Rightarrow> 'b option) \<Rightarrow> 'b list option" where
  "parseBoundedArray vs bound dec = (if length vs > bound then None else all_some (map dec vs))"

definition count_of :: "jsnumber \<Rightarrow> int option" where
  "count_of n = (if is_integer n \<and> 0 \<le> js_int n \<and> js_int n \<le> 1000000 then Some (js_int n) else None)"

definition parseSummary :: "raw_summary \<Rightarrow> summary option" where
  "parseSummary s =
     opt_bind (count_of (rs_info s)) (\<lambda>info.
     opt_bind (count_of (rs_warning s)) (\<lambda>warning.
     opt_bind (count_of (rs_error s)) (\<lambda>error.
     opt_bind (count_of (rs_failures s)) (\<lambda>failures.
     Some \<lparr>su_info = info, su_warning = warning, su_error = error, su_failures = failures\<rparr>))))"

definition severity_count :: "severity \<Rightarrow> finding list \<Rightarrow> int" where
  "severity_count s fs = int (length (filter (\<lambda>f. fi_severity f = s) fs))"

definition trustedSummaryFor :: "finding list \<Rightarrow> analyzer_failure list \<Rightarrow> summary" where
  "trustedSummaryFor findings failures =
     \<lparr>su_info = severity_count Info findings, su_warning = severity_count Warning findings,
      su_error = severity_count Error findings, su_failures = int (length failures)\<rparr>"

definition summariesMatch :: "summary \<Rightarrow> summary \<Rightarrow> bool" where
  "summariesMatch received trusted =
     (su_info received = su_info trusted \<and> su_warning received = su_warning trusted \<and>
      su_error received = su_error trusted \<and> su_failures received = su_failures trusted)"

definition validResultEnvelope :: "raw_result \<Rightarrow> bool" where
  "validResultEnvelope r = (rr_version r = Finite 1 \<and> rr_benchmarks r = [] \<and> rr_profile r = None)"

text \<open>The JSON value of a trusted result.\<close>

definition name_of :: "(string \<times> 'a) list \<Rightarrow> 'a \<Rightarrow> string" where
  "name_of names a = (case find (\<lambda>e. snd e = a) names of None \<Rightarrow> '''' | Some e \<Rightarrow> fst e)"

definition optional :: "string \<Rightarrow> jsval option \<Rightarrow> (string \<times> jsval) list" where
  "optional k v = (case v of None \<Rightarrow> [] | Some v \<Rightarrow> [(k, v)])"

definition json_location :: "location \<Rightarrow> jsval" where
  "json_location l =
     JObj ([(''path'', JStr (lo_path l)), (''line'', js_num (lo_line l)), (''column'', js_num (lo_column l))] @
       optional ''endLine'' (map_option js_num (lo_endLine l)) @ optional ''endColumn'' (map_option js_num (lo_endColumn l)))"

definition json_finding :: "finding \<Rightarrow> jsval" where
  "json_finding f =
     JObj ([(''id'', JStr (fi_id f)), (''analyzer'', JStr (name_of analyzer_names (fi_analyzer f))),
        (''kind'', JStr (name_of finding_kinds (fi_kind f))), (''severity'', JStr (name_of severities (fi_severity f))),
        (''message'', JStr (fi_message f)), (''location'', json_location (fi_location f))] @
       optional ''related'' (map_option (\<lambda>ls. JArr (map json_location ls)) (fi_related f)))"

definition json_failure :: "analyzer_failure \<Rightarrow> jsval" where
  "json_failure f =
     JObj [(''analyzer'', JStr (name_of allowedFailureAnalyzers (af_analyzer f))), (''message'', JStr (af_message f))]"

definition json_summary :: "summary \<Rightarrow> jsval" where
  "json_summary s =
     JObj [(''info'', js_num (su_info s)), (''warning'', js_num (su_warning s)), (''error'', js_num (su_error s)),
       (''failures'', js_num (su_failures s))]"

definition json_result :: "analysis_result \<Rightarrow> jsval" where
  "json_result r =
     JObj [(''version'', js_num 1), (''summary'', json_summary (ar_summary r)),
       (''findings'', JArr (map json_finding (ar_findings r))),
       (''analyzerFailures'', JArr (map json_failure (ar_analyzerFailures r))), (''benchmarks'', JArr [])]"

definition invalidAnalysisResult :: "protocol_error + 'a" where
  "invalidAnalysisResult = malformed ''Analyze worker result is invalid''"

definition parseAnalysisResult :: "(jsnumber \<Rightarrow> string) \<Rightarrow> jsval \<Rightarrow> protocol_error + analysis_result" where
  "parseAnalysisResult num v =
     (case decode_result v of
        None \<Rightarrow> invalidAnalysisResult
      | Some result \<Rightarrow>
          (case (parseSummary (rr_summary result),
                 parseBoundedArray (rr_findings result) (al_findings ANALYZE_LIMITS) parseFinding,
                 parseBoundedArray (rr_analyzerFailures result) (al_failures ANALYZE_LIMITS) parseFailure) of
             (Some summary, Some findings, Some failures) \<Rightarrow>
               if \<not> validResultEnvelope result \<or> \<not> summariesMatch summary (trustedSummaryFor findings failures)
               then invalidAnalysisResult
               else (let trusted = \<lparr>ar_summary = trustedSummaryFor findings failures, ar_findings = findings,
                       ar_analyzerFailures = failures\<rparr>
                     in if byte_length (stringify num (json_result trusted)) > al_resultBytes ANALYZE_LIMITS
                        then invalidAnalysisResult else Inr trusted)
           | _ \<Rightarrow> invalidAnalysisResult))"

section \<open>Events\<close>

datatype event_body = Started | Diagnostic diagnostic_event | Result_event analysis_result | Complete

record worker_event =
  we_runId :: string
  we_body :: event_body

definition allowedWorkerDiagnosticTypes :: "event_type list" where
  "allowedWorkerDiagnosticTypes = [Stage_started, Stage_completed, Memory_sample, Failure_event]"

definition event_type_of :: "jsval \<Rightarrow> event_type option" where
  "event_type_of v = (case v of JStr s \<Rightarrow> map_of event_types s | _ \<Rightarrow> None)"

text \<open>The entries of the attributes; those of an array have indices as keys, which are never allowed.\<close>

definition attribute_entries :: "jsval \<Rightarrow> (string \<times> jsval) list" where
  "attribute_entries v = (case v of JObj ps \<Rightarrow> ps | _ \<Rightarrow> [])"

definition parseWorkerDiagnostic :: "jsval \<Rightarrow> string \<Rightarrow> diagnostic_event option" where
  "parseWorkerDiagnostic v runId =
     opt_bind (as_object v) (\<lambda>ps.
       case (event_type_of (js_prop ps ''type''), js_prop ps ''timestampMs'') of
         (Some type, JNum (Finite timestamp)) \<Rightarrow>
           if js_prop ps ''version'' \<noteq> js_one \<or> js_prop ps ''runId'' \<noteq> JStr runId \<or>
              type \<notin> set allowedWorkerDiagnosticTypes \<or> js_prop ps ''terminal'' \<noteq> JBool False then None
           else Some (createAnalysisDiagnosticEvent runId timestamp type (attribute_entries (js_prop ps ''attributes'')))
       | _ \<Rightarrow> None)"

definition parseAnalyzeWorkerEvent :: "(jsnumber \<Rightarrow> string) \<Rightarrow> string \<Rightarrow> protocol_error + worker_event" where
  "parseAnalyzeWorkerEvent num line =
     try_bind (parseObjectLine line) (\<lambda>ps.
     try_bind (validateEnvelope ps None) (\<lambda>runId.
       case message_type_of (js_prop ps ''type'') of
         Some Started_message \<Rightarrow> Inr \<lparr>we_runId = runId, we_body = Started\<rparr>
       | Some Diagnostic_message \<Rightarrow>
           (case parseWorkerDiagnostic (js_prop ps ''event'') runId of
              None \<Rightarrow> malformed ''Analyze worker diagnostic event is invalid''
            | Some event \<Rightarrow> Inr \<lparr>we_runId = runId, we_body = Diagnostic event\<rparr>)
       | Some Result_message \<Rightarrow>
           try_bind (parseAnalysisResult num (js_prop ps ''result''))
             (\<lambda>result. Inr \<lparr>we_runId = runId, we_body = Result_event result\<rparr>)
       | Some Complete_message \<Rightarrow> Inr \<lparr>we_runId = runId, we_body = Complete\<rparr>
       | Some Request_message \<Rightarrow> Inl (Protocol_error State_error ''Worker output cannot contain a request'')
       | None \<Rightarrow> malformed ''Analyze worker message type is invalid''))"

section \<open>The state machine\<close>

datatype phase = Initial_phase | Started_phase | Result_phase analysis_result | Complete_phase analysis_result

record protocol_state =
  ps_bytes :: nat
  ps_runId :: string
  ps_phase :: phase

definition initialProtocolState :: "string \<Rightarrow> protocol_state" where
  "initialProtocolState runId = \<lparr>ps_bytes = 0, ps_runId = runId, ps_phase = Initial_phase\<rparr>"

definition out_of_state :: "string \<Rightarrow> protocol_error + 'a" where
  "out_of_state message = Inl (Protocol_error State_error message)"

definition next_phase :: "phase \<Rightarrow> event_body \<Rightarrow> protocol_error + phase" where
  "next_phase p b =
     (case p of
        Initial_phase \<Rightarrow>
          (case b of Started \<Rightarrow> Inr Started_phase
           | _ \<Rightarrow> out_of_state ''Analyze worker must start before emitting events'')
      | Started_phase \<Rightarrow>
          (case b of Diagnostic _ \<Rightarrow> Inr Started_phase | Result_event r \<Rightarrow> Inr (Result_phase r)
           | _ \<Rightarrow> out_of_state ''Analyze worker emitted an out-of-order event'')
      | Result_phase r \<Rightarrow>
          (case b of Complete \<Rightarrow> Inr (Complete_phase r)
           | _ \<Rightarrow> out_of_state ''Analyze worker must complete immediately after result'')
      | Complete_phase r \<Rightarrow> out_of_state ''Analyze worker emitted data after terminal completion'')"

definition acceptProtocolLine :: "(jsnumber \<Rightarrow> string) \<Rightarrow> protocol_state \<Rightarrow> string \<Rightarrow> protocol_error + (protocol_state \<times> worker_event)" where
  "acceptProtocolLine num st line =
     (if (case ps_phase st of Complete_phase _ \<Rightarrow> True | _ \<Rightarrow> False)
      then out_of_state ''Analyze worker emitted data after terminal completion''
      else
        (let bytes = ps_bytes st + byte_length line + 1 in
         if bytes > MAX_PROTOCOL_TOTAL_BYTES
         then Inl (Protocol_error Total_limit ''Analyze worker protocol exceeded its total byte limit'')
         else
           try_bind (parseAnalyzeWorkerEvent num line) (\<lambda>event.
             if we_runId event \<noteq> ps_runId st then out_of_state ''Analyze worker changed runId''
             else try_bind (next_phase (ps_phase st) (we_body event))
                    (\<lambda>phase. Inr (st\<lparr>ps_bytes := bytes, ps_phase := phase\<rparr>, event)))))"

text \<open>Accepting a sequence of lines, with the events they carry.\<close>

fun accept_lines :: "(jsnumber \<Rightarrow> string) \<Rightarrow> protocol_state \<Rightarrow> string list \<Rightarrow> protocol_error + (protocol_state \<times> worker_event list)" where
  "accept_lines num st [] = Inr (st, [])"
| "accept_lines num st (l # ls) =
     try_bind (acceptProtocolLine num st l) (\<lambda>(st', e).
     try_bind (accept_lines num st' ls) (\<lambda>(st'', es). Inr (st'', e # es)))"

section \<open>What an accepted result satisfies\<close>

text \<open>
  Stated by themselves: texts with a bound on their length and without NUL, paths as \<open>path_ok\<close> has them,
  positions from 1, and a summary that counts the findings of each severity and the failures.
\<close>

definition bounded_text :: "string \<Rightarrow> nat \<Rightarrow> bool \<Rightarrow> bool" where
  "bounded_text s n allowEmpty \<longleftrightarrow> (allowEmpty \<or> s \<noteq> []) \<and> length s \<le> n \<and> CHR 0x00 \<notin> set s"

definition location_ok :: "location \<Rightarrow> bool" where
  "location_ok l \<longleftrightarrow>
     path_ok (lo_path l) \<and> 1 \<le> lo_line l \<and> 1 \<le> lo_column l \<and>
     pred_option ((\<le>) 1) (lo_endLine l) \<and> pred_option ((\<le>) 1) (lo_endColumn l)"

definition finding_ok :: "finding \<Rightarrow> bool" where
  "finding_ok f \<longleftrightarrow>
     location_ok (fi_location f) \<and> pred_option (\<lambda>ls. length ls \<le> 16 \<and> list_all location_ok ls) (fi_related f) \<and>
     bounded_text (fi_message f) 2048 False \<and> bounded_text (fi_id f) 128 True"

definition failure_ok :: "analyzer_failure \<Rightarrow> bool" where
  "failure_ok f \<longleftrightarrow> bounded_text (af_message f) 1024 False"

definition summary_ok :: "analysis_result \<Rightarrow> bool" where
  "summary_ok r \<longleftrightarrow>
     (let number = (\<lambda>s. int (card {i. i < length (ar_findings r) \<and> fi_severity (ar_findings r ! i) = s})) in
      su_info (ar_summary r) = number Info \<and> su_warning (ar_summary r) = number Warning \<and>
      su_error (ar_summary r) = number Error \<and> su_failures (ar_summary r) = int (length (ar_analyzerFailures r)))"

definition result_ok :: "(jsnumber \<Rightarrow> string) \<Rightarrow> analysis_result \<Rightarrow> bool" where
  "result_ok num r \<longleftrightarrow>
     length (ar_findings r) \<le> 200 \<and> list_all finding_ok (ar_findings r) \<and>
     length (ar_analyzerFailures r) \<le> 64 \<and> list_all failure_ok (ar_analyzerFailures r) \<and>
     summary_ok r \<and> byte_length (stringify num (json_result r)) \<le> 49152"

lemma bounded_text_iff: "bounded_text s n e \<longleftrightarrow> isBoundedString (JStr s) n e \<noteq> None"
  by (simp add: bounded_text_def isBoundedString_def has_zero_iff)

lemma summary_ok_iff: "summary_ok r \<longleftrightarrow> ar_summary r = trustedSummaryFor (ar_findings r) (ar_analyzerFailures r)"
  by (cases "ar_summary r") (auto simp: summary_ok_def trustedSummaryFor_def severity_count_def length_filter_conv_card Let_def)

lemma opt_bind_Some: "opt_bind x f = Some b \<longleftrightarrow> (\<exists>a. x = Some a \<and> f a = Some b)"
  by (cases x) (simp_all add: opt_bind_def)

lemma opt_bind_simps [simp]: "opt_bind (Some a) f = f a" "opt_bind None f = None"
  by (simp_all add: opt_bind_def)

lemma map_Some_all: "map f xs = map Some ys \<Longrightarrow> (\<And>x y. f x = Some y \<Longrightarrow> P y) \<Longrightarrow> list_all P ys"
  by (induction xs arbitrary: ys) (auto simp: Cons_eq_map_conv)

lemma isPositiveInteger_Some: "isPositiveInteger n = Some z \<Longrightarrow> 1 \<le> z"
  by (auto simp: isPositiveInteger_def split: if_splits)

lemma optional_positive: "validOptionalPositiveInteger n = Some z \<Longrightarrow> pred_option ((\<le>) 1) z"
  by (auto simp: validOptionalPositiveInteger_def split: option.splits dest: isPositiveInteger_Some)

lemma parseLocation_ok: "parseLocation l = Some lo \<Longrightarrow> location_ok lo"
  by (auto simp: parseLocation_def opt_bind_Some location_ok_def path_ok_iff dest: isPositiveInteger_Some optional_positive
      split: if_splits)

lemma parseRelated_ok:
  "parseRelatedLocations related = Some ls \<Longrightarrow> length ls \<le> 16 \<and> list_all location_ok ls"
proof (cases related)
  case (Some raws)
  assume "parseRelatedLocations related = Some ls"
  then have "length raws \<le> 16" "map parseLocation raws = map Some ls"
    using Some by (auto simp: parseRelatedLocations_def limit_values all_some_Some split: if_splits)
  then show ?thesis
    using map_Some_all [of parseLocation raws ls location_ok] parseLocation_ok map_eq_imp_length_eq by fastforce
qed (simp add: parseRelatedLocations_def)

lemma has_zero_Nil [simp]: "\<not> has_zero ''''"
  by (simp add: has_zero_def)

lemma parseFinding_ok: "parseFinding f = Some g \<Longrightarrow> finding_ok g"
  by (auto simp: parseFinding_def opt_bind_Some finding_ok_def bounded_text_iff validFindingHeader_def limit_values isBoundedString_def
      dest: parseLocation_ok parseRelated_ok split: if_splits option.splits)

lemma parseFailure_ok: "parseFailure f = Some g \<Longrightarrow> failure_ok g"
  by (auto simp: parseFailure_def opt_bind_Some failure_ok_def bounded_text_iff split: if_splits)

lemma parseBoundedArray_ok:
  assumes "parseBoundedArray vs bound dec = Some ys" and "\<And>x y. dec x = Some y \<Longrightarrow> P y"
  shows "length ys \<le> bound \<and> list_all P ys"
proof -
  have "length vs \<le> bound" "map dec vs = map Some ys"
    using assms(1) by (auto simp: parseBoundedArray_def all_some_Some split: if_splits)
  then show ?thesis
    using map_Some_all [of dec vs ys P] assms(2) map_eq_imp_length_eq by fastforce
qed

lemma parsed_result_parts:
  assumes "parseAnalysisResult num v = Inr r"
  shows "\<exists>result. decode_result v = Some result \<and>
    parseBoundedArray (rr_findings result) 200 parseFinding = Some (ar_findings r) \<and>
    parseBoundedArray (rr_analyzerFailures result) 64 parseFailure = Some (ar_analyzerFailures r) \<and>
    ar_summary r = trustedSummaryFor (ar_findings r) (ar_analyzerFailures r) \<and>
    byte_length (stringify num (json_result r)) \<le> 49152"
  using assms
  by (cases "decode_result v")
    (auto simp: parseAnalysisResult_def invalidAnalysisResult_def malformed_def Let_def limit_values
      split: option.splits if_splits)

lemma parsed_result_ok: "parseAnalysisResult num v = Inr r \<Longrightarrow> result_ok num r"
proof -
  assume "parseAnalysisResult num v = Inr r"
  then obtain result where
    "decode_result v = Some result" "parseBoundedArray (rr_findings result) 200 parseFinding = Some (ar_findings r)"
    "parseBoundedArray (rr_analyzerFailures result) 64 parseFailure = Some (ar_analyzerFailures r)"
    "ar_summary r = trustedSummaryFor (ar_findings r) (ar_analyzerFailures r)"
    "byte_length (stringify num (json_result r)) \<le> 49152"
    using parsed_result_parts by blast
  then show ?thesis
    using parseBoundedArray_ok [of "rr_findings result" 200 parseFinding "ar_findings r" finding_ok] parseFinding_ok
      parseBoundedArray_ok [of "rr_analyzerFailures result" 64 parseFailure "ar_analyzerFailures r" failure_ok] parseFailure_ok
    by (simp add: result_ok_def summary_ok_iff)
qed

section \<open>An accepted result, printed, is accepted again\<close>

definition raw_number :: "int \<Rightarrow> jsnumber" where
  "raw_number n = Finite (of_int n)"

definition raw_of_location :: "location \<Rightarrow> raw_location" where
  "raw_of_location l =
     \<lparr>rl_path = lo_path l, rl_line = raw_number (lo_line l), rl_column = raw_number (lo_column l),
      rl_endLine = map_option raw_number (lo_endLine l), rl_endColumn = map_option raw_number (lo_endColumn l)\<rparr>"

definition raw_of_finding :: "finding \<Rightarrow> raw_finding" where
  "raw_of_finding f =
     \<lparr>rf_id = Some (fi_id f), rf_analyzer = name_of analyzer_names (fi_analyzer f),
      rf_kind = name_of finding_kinds (fi_kind f), rf_severity = name_of severities (fi_severity f),
      rf_message = fi_message f, rf_location = raw_of_location (fi_location f),
      rf_related = map_option (map raw_of_location) (fi_related f)\<rparr>"

definition raw_of_failure :: "analyzer_failure \<Rightarrow> raw_failure" where
  "raw_of_failure f =
     \<lparr>ra_analyzer = name_of allowedFailureAnalyzers (af_analyzer f), ra_message = af_message f\<rparr>"

lemma names_inverse [simp]:
  "map_of analyzer_names (name_of analyzer_names a) = Some a"
  "map_of finding_kinds (name_of finding_kinds k) = Some k"
  "map_of severities (name_of severities s) = Some s"
    apply (cases a; simp add: name_of_def analyzer_names_def)
   apply (cases k; simp add: name_of_def finding_kinds_def)
  apply (cases s; simp add: name_of_def severities_def)
  done

lemma failure_names_inverse [simp]: "map_of allowedFailureAnalyzers (name_of allowedFailureAnalyzers a) = Some a"
proof (cases a)
  case (Analyzer_source b)
  then show ?thesis
    by (cases b) (simp_all add: name_of_def allowedFailureAnalyzers_def analyzer_names_def)
qed (simp_all add: name_of_def allowedFailureAnalyzers_def analyzer_names_def)

lemmas decoders = field_def opt_field_def as_string_def as_number_def as_object_def opt_bind_def

lemma decode_json_location: "decode_location (json_location l) = Some (raw_of_location l)"
  by (cases "lo_endLine l"; cases "lo_endColumn l")
    (simp_all add: decode_location_def json_location_def raw_of_location_def raw_number_def js_num_def optional_def decoders)

lemma array_of_map: "(\<And>x. dec (enc x) = Some (raw x)) \<Longrightarrow> array_of dec (JArr (map enc xs)) = Some (map raw xs)"
  by (simp add: array_of_def all_some_map)

lemma decode_json_finding: "decode_finding (json_finding f) = Some (raw_of_finding f)"
  by (cases "fi_related f")
    (simp_all add: decode_finding_def json_finding_def raw_of_finding_def optional_def decoders decode_json_location
      array_of_map [of decode_location json_location raw_of_location])

lemma decode_json_failure: "decode_failure (json_failure f) = Some (raw_of_failure f)"
  by (simp add: decode_failure_def json_failure_def raw_of_failure_def decoders)

lemma bounded_relative_text:
  "isBoundedWorkspaceRelativePath p \<Longrightarrow> isBoundedString (JStr p) (al_pathLength ANALYZE_LIMITS) False = Some p"
  by (auto simp: isBoundedWorkspaceRelativePath_def isBoundedString_def)

lemma positive_raw: "1 \<le> z \<Longrightarrow> isPositiveInteger (raw_number z) = Some z"
  by (simp add: isPositiveInteger_def raw_number_def)

lemma optional_raw: "pred_option ((\<le>) 1) z \<Longrightarrow> validOptionalPositiveInteger (map_option raw_number z) = Some z"
  by (cases z) (simp_all add: validOptionalPositiveInteger_def positive_raw)

lemma parse_raw_location: "location_ok l \<Longrightarrow> parseLocation (raw_of_location l) = Some l"
  by (cases l) (simp add: location_ok_def path_ok_iff parseLocation_def raw_of_location_def bounded_relative_text positive_raw optional_raw)

lemma all_parsed: "list_all P xs \<Longrightarrow> (\<And>x. P x \<Longrightarrow> dec (raw x) = Some x) \<Longrightarrow> all_some (map dec (map raw xs)) = Some xs"
  by (induction xs) (simp_all add: opt_bind_def)

lemma parse_raw_finding:
  assumes "finding_ok f"
  shows "parseFinding (raw_of_finding f) = Some f"
proof -
  have "parseRelatedLocations (rf_related (raw_of_finding f)) = Some (case fi_related f of None \<Rightarrow> [] | Some ls \<Rightarrow> ls)"
    using assms all_parsed [of location_ok _ parseLocation raw_of_location, OF _ parse_raw_location]
    by (cases "fi_related f") (auto simp: parseRelatedLocations_def raw_of_finding_def finding_ok_def limit_values)
  moreover have "validFindingHeader (raw_of_finding f) = Some (fi_analyzer f, fi_kind f, fi_severity f)"
    using assms by (auto simp: validFindingHeader_def raw_of_finding_def finding_ok_def bounded_text_iff limit_values)
  moreover have "parseLocation (rf_location (raw_of_finding f)) = Some (fi_location f)"
    using assms by (simp add: raw_of_finding_def finding_ok_def parse_raw_location)
  ultimately show ?thesis
    by (cases "fi_related f") (simp_all add: parseFinding_def, simp_all add: raw_of_finding_def)
qed

lemma parse_raw_failure: "failure_ok f \<Longrightarrow> parseFailure (raw_of_failure f) = Some f"
  by (auto simp: parseFailure_def raw_of_failure_def failure_ok_def bounded_text_iff)

lemma count_raw: "0 \<le> n \<Longrightarrow> n \<le> 1000000 \<Longrightarrow> count_of (raw_number n) = Some n"
  by (simp add: count_of_def raw_number_def)

lemma severity_count_bounds: "length fs \<le> n \<Longrightarrow> 0 \<le> severity_count s fs \<and> severity_count s fs \<le> int n"
  using le_trans [OF length_filter_le, of fs n "\<lambda>f. fi_severity f = s"] by (simp add: severity_count_def)

lemma decode_json_result:
  "decode_result (json_result r) = Some
     \<lparr>rr_version = raw_number 1,
      rr_summary = \<lparr>rs_info = raw_number (su_info (ar_summary r)), rs_warning = raw_number (su_warning (ar_summary r)),
        rs_error = raw_number (su_error (ar_summary r)), rs_failures = raw_number (su_failures (ar_summary r))\<rparr>,
      rr_findings = map raw_of_finding (ar_findings r), rr_analyzerFailures = map raw_of_failure (ar_analyzerFailures r),
      rr_benchmarks = [], rr_profile = None\<rparr>"
proof -
  have "decode_summary (json_summary s) = Some \<lparr>rs_info = raw_number (su_info s), rs_warning = raw_number (su_warning s),
        rs_error = raw_number (su_error s), rs_failures = raw_number (su_failures s)\<rparr>" for s
    by (simp add: decode_summary_def json_summary_def decoders raw_number_def js_num_def)
  moreover have none: "array_of Some (JArr []) = Some []"
    by (simp add: array_of_def)
  ultimately show ?thesis
    by (simp add: decode_result_def json_result_def decoders array_of_map [of decode_finding json_finding raw_of_finding]
        array_of_map [of decode_failure json_failure raw_of_failure] decode_json_finding decode_json_failure
        raw_number_def js_num_def none)
qed

lemma parse_json_result:
  assumes "result_ok num r"
  shows "parseAnalysisResult num (json_result r) = Inr r"
proof -
  have len: "length (ar_findings r) \<le> 200" "length (ar_analyzerFailures r) \<le> 64"
    and s: "ar_summary r = trustedSummaryFor (ar_findings r) (ar_analyzerFailures r)"
    using assms by (simp_all add: result_ok_def summary_ok_iff)
  have "0 \<le> n \<and> n \<le> 1000000" if "n \<in> {su_info (ar_summary r), su_warning (ar_summary r), su_error (ar_summary r), su_failures (ar_summary r)}" for n
    using that len(2) severity_count_bounds [OF len(1), of Info] severity_count_bounds [OF len(1), of Warning]
      severity_count_bounds [OF len(1), of Error]
    by (auto simp: s trustedSummaryFor_def)
  then have "parseSummary \<lparr>rs_info = raw_number (su_info (ar_summary r)), rs_warning = raw_number (su_warning (ar_summary r)),
        rs_error = raw_number (su_error (ar_summary r)), rs_failures = raw_number (su_failures (ar_summary r))\<rparr> = Some (ar_summary r)"
    by (simp add: parseSummary_def count_raw)
  moreover have "parseBoundedArray (map raw_of_finding (ar_findings r)) 200 parseFinding = Some (ar_findings r)"
    "parseBoundedArray (map raw_of_failure (ar_analyzerFailures r)) 64 parseFailure = Some (ar_analyzerFailures r)"
    using assms all_parsed [of finding_ok _ parseFinding raw_of_finding, OF _ parse_raw_finding]
      all_parsed [of failure_ok _ parseFailure raw_of_failure, OF _ parse_raw_failure]
    by (simp_all add: parseBoundedArray_def result_ok_def)
  ultimately show ?thesis
    using assms s
    by (cases r) (simp add: parseAnalysisResult_def decode_json_result limit_values validResultEnvelope_def raw_number_def
        summariesMatch_def result_ok_def Let_def)
qed

section \<open>The order of events\<close>

fun bodies_of :: "phase \<Rightarrow> event_body list \<Rightarrow> bool" where
  "bodies_of Initial_phase es = (es = [])"
| "bodies_of Started_phase es = (\<exists>ds. es = Started # map Diagnostic ds)"
| "bodies_of (Result_phase r) es = (\<exists>ds. es = Started # map Diagnostic ds @ [Result_event r])"
| "bodies_of (Complete_phase r) es = (\<exists>ds. es = Started # map Diagnostic ds @ [Result_event r, Complete])"

lemma next_phase_bodies:
  assumes "next_phase p b = Inr p'" and "bodies_of p es"
  shows "bodies_of p' (es @ [b])"
proof (cases "p = Started_phase \<and> (\<exists>d. b = Diagnostic d)")
  case True
  then obtain d ds where "b = Diagnostic d" "es = Started # map Diagnostic ds"
    using assms(2) by auto
  then show ?thesis
    using assms(1) True by (auto simp: next_phase_def intro: exI [of _ "ds @ [d]"])
next
  case False
  then show ?thesis
    using assms by (auto simp: next_phase_def out_of_state_def split: phase.splits event_body.splits)
qed

text \<open>The state after some accepted lines: what was counted, which events came, and the result kept.\<close>

definition accepted :: "(jsnumber \<Rightarrow> string) \<Rightarrow> string \<Rightarrow> string list \<Rightarrow> protocol_state \<Rightarrow> worker_event list \<Rightarrow> bool" where
  "accepted num runId ls st es \<longleftrightarrow>
     ps_runId st = runId \<and> bodies_of (ps_phase st) (map we_body es) \<and> list_all (\<lambda>e. we_runId e = runId) es \<and>
     ps_bytes st = (\<Sum>l\<leftarrow>ls. byte_length l + 1) \<and> ps_bytes st \<le> 262144 \<and>
     (\<forall>r. ps_phase st \<in> {Result_phase r, Complete_phase r} \<longrightarrow> result_ok num r)"

lemma event_result_ok:
  assumes "parseAnalyzeWorkerEvent num line = Inr e" and "we_body e = Result_event r"
  shows "result_ok num r"
proof -
  obtain ps runId where event: "(case message_type_of (js_prop ps ''type'') of
         Some Started_message \<Rightarrow> Inr \<lparr>we_runId = runId, we_body = Started\<rparr>
       | Some Diagnostic_message \<Rightarrow>
           (case parseWorkerDiagnostic (js_prop ps ''event'') runId of
              None \<Rightarrow> malformed ''Analyze worker diagnostic event is invalid''
            | Some event \<Rightarrow> Inr \<lparr>we_runId = runId, we_body = Diagnostic event\<rparr>)
       | Some Result_message \<Rightarrow>
           try_bind (parseAnalysisResult num (js_prop ps ''result''))
             (\<lambda>result. Inr \<lparr>we_runId = runId, we_body = Result_event result\<rparr>)
       | Some Complete_message \<Rightarrow> Inr \<lparr>we_runId = runId, we_body = Complete\<rparr>
       | Some Request_message \<Rightarrow> Inl (Protocol_error State_error ''Worker output cannot contain a request'')
       | None \<Rightarrow> malformed ''Analyze worker message type is invalid'') = Inr e"
    using assms(1) unfolding parseAnalyzeWorkerEvent_def try_bind_Inr_iff by blast
  then have "parseAnalysisResult num (js_prop ps ''result'') = Inr r"
    using assms(2)
    by (auto simp: malformed_def try_bind_Inr_iff split: option.splits message_type.splits)
  then show ?thesis
    by (rule parsed_result_ok)
qed

lemma accept_line_step:
  assumes "accepted num runId ls st es" and "acceptProtocolLine num st l = Inr (st', e)"
  shows "accepted num runId (ls @ [l]) st' (es @ [e])"
proof -
  from assms(2) obtain p where e: "parseAnalyzeWorkerEvent num l = Inr e" "we_runId e = ps_runId st"
    "next_phase (ps_phase st) (we_body e) = Inr p" "ps_bytes st + byte_length l + 1 \<le> 262144"
    and st': "st' = st\<lparr>ps_bytes := ps_bytes st + byte_length l + 1, ps_phase := p\<rparr>"
    by (auto simp: acceptProtocolLine_def Let_def try_bind_Inr_iff out_of_state_def MAX_PROTOCOL_TOTAL_BYTES_def limit_values
        split: if_splits)
  have "result_ok num r" if "p \<in> {Result_phase r, Complete_phase r}" for r
    using that e(3) assms(1) event_result_ok [OF e(1)]
    by (auto simp: next_phase_def accepted_def out_of_state_def split: phase.splits event_body.splits)
  then show ?thesis
    using assms(1) e(2,4) next_phase_bodies [OF e(3)] by (auto simp: accepted_def st')
qed

lemma accept_lines_from:
  "accepted num runId ls st es \<Longrightarrow> accept_lines num st ls' = Inr (st', es') \<Longrightarrow> accepted num runId (ls @ ls') st' (es @ es')"
proof (induction ls' arbitrary: ls st es es')
  case (Cons l ls')
  then obtain st1 e es1 where "acceptProtocolLine num st l = Inr (st1, e)" "accept_lines num st1 ls' = Inr (st', es1)" "es' = e # es1"
    by (auto simp: try_bind_Inr_iff)
  then show ?case
    using Cons.IH [OF accept_line_step [OF Cons.prems(1)]] by simp
qed simp

lemma accepted_initial: "accepted num runId [] (initialProtocolState runId) []"
  by (simp add: accepted_def initialProtocolState_def)

section \<open>Properties\<close>

text \<open>C11: Whatever lines the worker sends, the accepted ones carry one \<open>started\<close>, then any number of
  diagnostics, then one \<open>result\<close>, then \<open>complete\<close>, in this order and all of the same run; together
  they stay within the byte limit, the state counts their bytes, and a result that is kept is
  bounded, consistent with its findings and confined to relative paths.\<close>

theorem worker_lines_in_order:
  assumes "accept_lines num (initialProtocolState runId) ls = Inr (st, es)"
  shows "bodies_of (ps_phase st) (map we_body es) \<and> (\<forall>e\<in>set es. we_runId e = runId) \<and>
    ps_bytes st = (\<Sum>l\<leftarrow>ls. byte_length l + 1) \<and> ps_bytes st \<le> 262144 \<and>
    (\<forall>r. ps_phase st \<in> {Result_phase r, Complete_phase r} \<longrightarrow> result_ok num r)"
  using accept_lines_from [OF accepted_initial assms] by (simp add: accepted_def list_all_iff)

text \<open>C18: The trusted results are exactly those the decoder gives back: a result it accepts from
  any JSON value is well formed, and a well-formed result, encoded, is accepted and equal.\<close>

theorem trusted_results:
  "((\<exists>v. parseAnalysisResult num v = Inr r) \<longleftrightarrow> result_ok num r) \<and>
   (parseAnalysisResult num (json_result r) = Inr r \<longleftrightarrow> result_ok num r)"
  using parsed_result_ok parse_json_result by blast

section \<open>Witnesses\<close>

definition plain_num :: "jsnumber \<Rightarrow> string" where
  "plain_num n = show_int (js_int n)"

lemma plain_num_ok: "plain_numbers plain_num"
  by (simp add: plain_numbers_def plain_num_def)

definition demo_message :: "string \<Rightarrow> (string \<times> jsval) list \<Rightarrow> jsval" where
  "demo_message t ps = JObj ([(''version'', js_num 1), (''type'', JStr t), (''runId'', JStr ''r'')] @ ps)"

definition demo_line :: "string \<Rightarrow> (string \<times> jsval) list \<Rightarrow> string" where
  "demo_line t ps = stringify plain_num (demo_message t ps)"

definition demo_result :: analysis_result where
  "demo_result = \<lparr>ar_summary = \<lparr>su_info = 0, su_warning = 0, su_error = 0, su_failures = 0\<rparr>, ar_findings = [], ar_analyzerFailures = []\<rparr>"

definition demo_lines :: "string list" where
  "demo_lines = [demo_line ''started'' [], demo_line ''result'' [(''result'', json_result demo_result)], demo_line ''complete'' []]"

lemma plain_js_num [simp]: "plain_json (js_num n) \<longleftrightarrow> \<bar>n\<bar> < safe_limit"
  by (auto simp: js_num_def)

lemma small_numbers: "0 < safe_limit" "1 < safe_limit"
  by (simp_all add: safe_limit_def)

lemma demo_plain:
  "plain_json (demo_message t [])" "plain_json (demo_message t [(''result'', json_result demo_result)])"
  by (simp_all add: demo_message_def json_result_def json_summary_def demo_result_def small_numbers)

lemma plain_digits [simp]: "plain_num (Finite 0) = ''0''" "plain_num (Finite 1) = ''1''"
  by code_simp+

lemma demo_sizes: "map byte_length demo_lines = [42, 172, 43]"
  by (simp add: demo_lines_def demo_line_def demo_message_def json_result_def json_summary_def demo_result_def js_num_def
      json_string_def json_char_def byte_length_def Let_def)

lemma demo_parsed: "plain_json (JObj ps) \<Longrightarrow> byte_length (stringify plain_num (JObj ps)) \<le> 65536 \<Longrightarrow>
    parseObjectLine (stringify plain_num (JObj ps)) = Inr ps"
  using parse_stringify [OF plain_num_ok, of "JObj ps"]
  by (simp add: parseObjectLine_def MAX_PROTOCOL_LINE_BYTES_def del: stringify.simps plain_json.simps)

lemma demo_result_ok: "result_ok plain_num demo_result"
  by (simp add: result_ok_def demo_result_def summary_ok_def Let_def json_result_def json_summary_def
      js_num_def json_string_def json_char_def byte_length_def Let_def)

lemma demo_events:
  "parseAnalyzeWorkerEvent plain_num (demo_line ''started'' []) = Inr \<lparr>we_runId = ''r'', we_body = Started\<rparr>"
  "parseAnalyzeWorkerEvent plain_num (demo_line ''complete'' []) = Inr \<lparr>we_runId = ''r'', we_body = Complete\<rparr>"
  "parseAnalyzeWorkerEvent plain_num (demo_line ''result'' [(''result'', json_result demo_result)]) =
     Inr \<lparr>we_runId = ''r'', we_body = Result_event demo_result\<rparr>"
proof -
  let ?ps = "\<lambda>t ps. [(''version'', js_num 1), (''type'', JStr t), (''runId'', JStr ''r'')] @ ps"
  have "parseObjectLine (demo_line t ps) = Inr (?ps t ps)"
    if "plain_json (demo_message t ps)" "byte_length (demo_line t ps) \<le> 65536" for t ps
    using demo_parsed [of "?ps t ps"] that unfolding demo_line_def demo_message_def by blast
  note lines = this [OF demo_plain(1)] this [OF demo_plain(2)]
  have sizes: "byte_length (demo_line ''started'' []) \<le> 65536" "byte_length (demo_line ''complete'' []) \<le> 65536"
    "byte_length (demo_line ''result'' [(''result'', json_result demo_result)]) \<le> 65536"
    using demo_sizes by (simp_all add: demo_lines_def)
  have envelope: "validateEnvelope (?ps t ps) None = Inr ''r''" if "message_type_of (JStr t) \<noteq> None" for t ps
    using that by (auto simp: validateEnvelope_def js_prop_def js_num_def js_one_def isBoundedString_def has_zero_def)
  have types: "message_type_of (JStr ''started'') = Some Started_message" "message_type_of (JStr ''complete'') = Some Complete_message"
    "message_type_of (JStr ''result'') = Some Result_message"
    by (simp_all add: message_type_of_def message_types_def)
  have kind: "js_prop (?ps t ps) ''type'' = JStr t" "js_prop (?ps t [(''result'', v)]) ''result'' = v" for t ps v
    by (simp_all add: js_prop_def)
  have "parseAnalysisResult plain_num (json_result demo_result) = Inr demo_result"
    by (rule parse_json_result [OF demo_result_ok])
  then show
    "parseAnalyzeWorkerEvent plain_num (demo_line ''started'' []) = Inr \<lparr>we_runId = ''r'', we_body = Started\<rparr>"
    "parseAnalyzeWorkerEvent plain_num (demo_line ''complete'' []) = Inr \<lparr>we_runId = ''r'', we_body = Complete\<rparr>"
    "parseAnalyzeWorkerEvent plain_num (demo_line ''result'' [(''result'', json_result demo_result)]) =
       Inr \<lparr>we_runId = ''r'', we_body = Result_event demo_result\<rparr>"
    unfolding parseAnalyzeWorkerEvent_def lines(1) [OF sizes(1)] lines(1) [OF sizes(2)] lines(2) [OF sizes(3)]
    by (simp_all only: try_bind_simps envelope types kind option.case message_type.case option.distinct not_False_eq_True)
qed

theorem worker_lines_in_order_witness:
  "\<exists>st es. accept_lines plain_num (initialProtocolState ''r'') demo_lines = Inr (st, es) \<and>
    ps_phase st = Complete_phase demo_result \<and> (\<exists>ds. map we_body es = Started # map Diagnostic ds @ [Result_event demo_result, Complete])"
proof -
  have sizes: "byte_length (demo_line ''started'' []) = 42" "byte_length (demo_line ''complete'' []) = 43"
    "byte_length (demo_line ''result'' [(''result'', json_result demo_result)]) = 172"
    using demo_sizes by (simp_all add: demo_lines_def)
  obtain st es where run: "accept_lines plain_num (initialProtocolState ''r'') demo_lines = Inr (st, es)"
    "ps_phase st = Complete_phase demo_result"
    by (simp add: demo_lines_def acceptProtocolLine_def initialProtocolState_def demo_events next_phase_def Let_def sizes
        MAX_PROTOCOL_TOTAL_BYTES_def limit_values)
  then show ?thesis
    using worker_lines_in_order [OF run(1)] by auto
qed

end
