(* ===== verification/Analyze_Supervisor.thy ===== *)
theory Analyze_Supervisor
  imports Analyze_Protocol
begin

text \<open>
  One supervised run of \<open>src/analyze/supervisor.ts\<close>: the request line, the handlers of the
  worker's output, the reasons to stop, and the answer once the worker has closed. What happens
  outside (chunks of output, the timer, a cancellation, a failing child) is a list of events in
  the order in which they occur; \<open>Turn\<close> lets the queue of complete lines advance by one. A chunk
  is a list of bytes, wherever the stream was cut; \<open>utf8\<close> stands for \<open>Buffer.toString("utf8")\<close>, which the
  code applies to each chunk by itself.
\<close>

section \<open>Errors and records\<close>

datatype supervisor_error_kind = Timeout | Cancelled | Protocol_failure | Process_failure | Configuration

datatype supervisor_error = Supervisor_error supervisor_error_kind string

datatype termination_reason =
    Reason_completed | Reason_configuration | Reason_scope | Reason_program | Reason_analyzer | Reason_timeout
  | Reason_cancelled | Reason_oom | Reason_output_limit | Reason_protocol | Reason_unknown

datatype run_outcome = Run_success | Run_failure | Run_interrupted

record terminal_record =
  tr_type :: event_type
  tr_outcome :: run_outcome
  tr_reason :: termination_reason
  tr_findingCount :: "int option"
  tr_failureCount :: "int option"

fun terminationReason :: "supervisor_error_kind \<Rightarrow> termination_reason" where
  "terminationReason Timeout = Reason_timeout"
| "terminationReason Cancelled = Reason_cancelled"
| "terminationReason Protocol_failure = Reason_protocol"
| "terminationReason Configuration = Reason_configuration"
| "terminationReason Process_failure = Reason_unknown"

section \<open>State\<close>

record supervision =
  sv_pendingStdout :: string
  sv_stdoutBytes :: nat
  sv_stderrBytes :: nat
  sv_failure :: "supervisor_error option"
  sv_queue :: "string list"
  sv_protocol :: protocol_state
  sv_events :: "worker_event list"
  sv_recorded :: "(event_type \<times> (string, jsval) jsmap) list"
  sv_sent :: "string option"

definition new_supervision :: "string \<Rightarrow> supervision" where
  "new_supervision runId =
     \<lparr>sv_pendingStdout = '''', sv_stdoutBytes = 0, sv_stderrBytes = 0, sv_failure = None, sv_queue = [],
      sv_protocol = initialProtocolState runId, sv_events = [], sv_recorded = [], sv_sent = None\<rparr>"

text \<open>The first reason to stop is kept.\<close>

definition stop :: "supervisor_error_kind \<Rightarrow> string \<Rightarrow> supervision \<Rightarrow> supervision" where
  "stop kind message s = (if sv_failure s \<noteq> None then s else s\<lparr>sv_failure := Some (Supervisor_error kind message)\<rparr>)"

section \<open>The request\<close>

definition MAX_REQUEST_BYTES :: nat where
  "MAX_REQUEST_BYTES = 64 * 1024"

fun scope_props :: "scope_selection \<Rightarrow> (string \<times> jsval) list" where
  "scope_props All_scope = [(''scope'', JStr ''all'')]"
| "scope_props (Diff_scope None) = [(''scope'', JStr ''diff'')]"
| "scope_props (Diff_scope (Some r)) = [(''scope'', JStr ''diff''), (''ref'', JStr r)]"
| "scope_props (Paths_scope ps) = [(''scope'', JStr ''paths''), (''paths'', JArr (map JStr ps))]"

definition json_request :: "string \<Rightarrow> safe_request \<Rightarrow> jsval" where
  "json_request runId r =
     JObj ([(''version'', js_num 1), (''type'', JStr ''request''), (''runId'', JStr runId), (''cwd'', JStr (sq_cwd r))] @
       scope_props (sq_scope r) @
       [(''checks'', JArr (map (\<lambda>c. JStr (analyzer_name c)) (sq_checks r))), (''maxMemoryMb'', js_num (sq_maxMemoryMb r)),
        (''maxSourceFiles'', js_num (sq_maxSourceFiles r)), (''maxSourceFileBytes'', js_num (sq_maxSourceFileBytes r)),
        (''maxSourceBytes'', js_num (sq_maxSourceBytes r)), (''timeoutMs'', js_num (sq_timeoutMs r))])"

definition request_line :: "(jsnumber \<Rightarrow> string) \<Rightarrow> string \<Rightarrow> safe_request \<Rightarrow> string" where
  "request_line num runId r = stringify num (json_request runId r) @ [CHR 0x0A]"

definition sendRequest :: "(jsnumber \<Rightarrow> string) \<Rightarrow> string \<Rightarrow> safe_request \<Rightarrow> supervision \<Rightarrow> supervision" where
  "sendRequest num runId r s =
     (if byte_length (request_line num runId r) > MAX_REQUEST_BYTES
      then stop Configuration ''analyze worker request exceeded its byte limit'' s
      else s\<lparr>sv_sent := Some (request_line num runId r)\<rparr>)"

section \<open>Output\<close>

text \<open>The complete lines of the pending output, and what remains.\<close>

function extract_lines :: "string \<Rightarrow> string list \<times> string" where
  "extract_lines s =
     (case find_index (\<lambda>c. c = CHR 0x0A) s of
        None \<Rightarrow> ([], s)
      | Some i \<Rightarrow> (let (ls, rest) = extract_lines (drop (Suc i) s) in (take i s # ls, rest)))"
  by auto
termination
  by (relation "measure length") (auto dest: find_index_Some)

declare extract_lines.simps [simp del]

definition on_stdout :: "(nat list \<Rightarrow> string) \<Rightarrow> nat list \<Rightarrow> supervision \<Rightarrow> supervision" where
  "on_stdout utf8 chunk s =
     (let s = s\<lparr>sv_stdoutBytes := sv_stdoutBytes s + length chunk\<rparr> in
      if sv_stdoutBytes s > al_stdoutBytes ANALYZE_LIMITS
      then stop Protocol_failure ''analyze worker stdout exceeded its byte limit'' s
      else (let (ls, rest) = extract_lines (sv_pendingStdout s @ utf8 chunk)
            in s\<lparr>sv_pendingStdout := rest, sv_queue := sv_queue s @ ls\<rparr>))"

definition on_stderr :: "nat \<Rightarrow> supervision \<Rightarrow> supervision" where
  "on_stderr bytes s =
     (let s = s\<lparr>sv_stderrBytes := sv_stderrBytes s + bytes\<rparr> in
      if sv_stderrBytes s > al_stderrBytes ANALYZE_LIMITS
      then stop Protocol_failure ''analyze worker stderr exceeded its byte limit'' s else s)"

text \<open>
  One line of the queue: an accepted one moves the protocol, records a diagnostic and is handed
  to the observer, which may throw; either error stops the run, the protocol then stays at what
  was accepted.
\<close>

definition accept_line :: "(jsnumber \<Rightarrow> string) \<Rightarrow> (worker_event \<Rightarrow> bool) \<Rightarrow> string \<Rightarrow> supervision \<Rightarrow> supervision" where
  "accept_line num throws line s =
     (case acceptProtocolLine num (sv_protocol s) line of
        Inl _ \<Rightarrow> stop Protocol_failure ''analyze worker emitted invalid protocol'' s
      | Inr (p, event) \<Rightarrow>
          (let s = s\<lparr>sv_protocol := p, sv_events := sv_events s @ [event],
                sv_recorded := sv_recorded s @ (case we_body event of
                    Diagnostic d \<Rightarrow> [(de_type d, sanitizeDiagnosticAttributes (de_attributes d))] | _ \<Rightarrow> [])\<rparr>
           in if throws event then stop Protocol_failure ''analyze worker emitted invalid protocol'' s else s))"

definition turn :: "(jsnumber \<Rightarrow> string) \<Rightarrow> (worker_event \<Rightarrow> bool) \<Rightarrow> supervision \<Rightarrow> supervision" where
  "turn num throws s =
     (case sv_queue s of [] \<Rightarrow> s | l # ls \<Rightarrow> accept_line num throws l (s\<lparr>sv_queue := ls\<rparr>))"

section \<open>A run\<close>

datatype run_event = Stdout "nat list" | Stderr nat | Turn | Timer_fired | Aborted | Child_error

fun run_step :: "(nat list \<Rightarrow> string) \<Rightarrow> (jsnumber \<Rightarrow> string) \<Rightarrow> (worker_event \<Rightarrow> bool) \<Rightarrow> run_event \<Rightarrow> supervision \<Rightarrow> supervision" where
  "run_step utf8 num throws (Stdout chunk) s = on_stdout utf8 chunk s"
| "run_step utf8 num throws (Stderr bytes) s = on_stderr bytes s"
| "run_step utf8 num throws Turn s = turn num throws s"
| "run_step utf8 num throws Timer_fired s = stop Timeout ''analyze worker timed out'' s"
| "run_step utf8 num throws Aborted s = stop Cancelled ''analyze request was cancelled'' s"
| "run_step utf8 num throws Child_error s = stop Process_failure ''analyze worker failed to spawn'' s"

definition terminated :: "run_outcome \<Rightarrow> termination_reason \<Rightarrow> terminal_record" where
  "terminated outcome reason =
     \<lparr>tr_type = Run_terminated, tr_outcome = outcome, tr_reason = reason, tr_findingCount = None, tr_failureCount = None\<rparr>"

definition settle :: "supervision \<Rightarrow> (supervisor_error + analysis_result) \<times> terminal_record" where
  "settle s =
     (case sv_failure s of
        Some (Supervisor_error kind message) \<Rightarrow>
          (Inl (Supervisor_error kind message),
           terminated (if kind = Cancelled then Run_interrupted else Run_failure) (terminationReason kind))
      | None \<Rightarrow>
          (case ps_phase (sv_protocol s) of
             Complete_phase r \<Rightarrow>
               if sv_pendingStdout s \<noteq> '''' then
                 (Inl (Supervisor_error Process_failure ''analyze worker exited without a complete bounded result''),
                  terminated Run_failure Reason_unknown)
               else
                 (Inr r,
                  \<lparr>tr_type = Run_completed,
                   tr_outcome = (if su_failures (ar_summary r) = 0 then Run_success else Run_failure),
                   tr_reason = Reason_completed, tr_findingCount = Some (int (length (ar_findings r))),
                   tr_failureCount = Some (su_failures (ar_summary r))\<rparr>)
           | _ \<Rightarrow>
               (Inl (Supervisor_error Process_failure ''analyze worker exited without a complete bounded result''),
                terminated Run_failure Reason_unknown)))"

text \<open>After the worker closed, the lines still queued are taken in.\<close>

definition drain_queue :: "(jsnumber \<Rightarrow> string) \<Rightarrow> (worker_event \<Rightarrow> bool) \<Rightarrow> supervision \<Rightarrow> supervision" where
  "drain_queue num throws s = fold (accept_line num throws) (sv_queue s) (s\<lparr>sv_queue := []\<rparr>)"

definition supervise ::
  "(nat list \<Rightarrow> string) \<Rightarrow> (jsnumber \<Rightarrow> string) \<Rightarrow> (worker_event \<Rightarrow> bool) \<Rightarrow> bool \<Rightarrow> bool \<Rightarrow> string \<Rightarrow> safe_request \<Rightarrow> run_event list \<Rightarrow>
    (supervisor_error + analysis_result) \<times> terminal_record" where
  "supervise utf8 num throws cancelled spawned runId r events =
     (if cancelled then
        (Inl (Supervisor_error Cancelled ''analyze request was cancelled''), terminated Run_interrupted Reason_cancelled)
      else if \<not> spawned then
        (Inl (Supervisor_error Process_failure ''failed to spawn analyze worker''), terminated Run_failure Reason_unknown)
      else
        settle (drain_queue num throws
          (fold (run_step utf8 num throws) events (sendRequest num runId r (new_supervision runId)))))"

section \<open>Lines of the output\<close>

lemma find_index_append: "find_index p a = Some i \<Longrightarrow> find_index p (a @ b) = Some i"
  by (induction a arbitrary: i) (auto split: if_splits)

lemma extract_lines_append:
  "extract_lines (a @ b) =
     (fst (extract_lines a) @ fst (extract_lines (snd (extract_lines a) @ b)), snd (extract_lines (snd (extract_lines a) @ b)))"
proof (induction a rule: extract_lines.induct)
  case (1 a)
  show ?case
  proof (cases "find_index (\<lambda>c. c = CHR 0x0A) a")
    case None
    then have "extract_lines a = ([], a)"
      by (subst extract_lines.simps) simp
    then show ?thesis by simp
  next
    case (Some i)
    then have i: "i < length a"
      by (auto dest: find_index_Some)
    have a: "extract_lines a = (take i a # fst (extract_lines (drop (Suc i) a)), snd (extract_lines (drop (Suc i) a)))"
      by (subst extract_lines.simps) (simp add: Some case_prod_beta)
    have "extract_lines (a @ b) = (take i a # fst (extract_lines (drop (Suc i) a @ b)), snd (extract_lines (drop (Suc i) a @ b)))"
      using i by (subst extract_lines.simps) (simp add: find_index_append [OF Some] case_prod_beta)
    then show ?thesis
      using 1 [OF Some] by (simp add: a)
  qed
qed

lemma extract_lines_Nil [simp]: "extract_lines '''' = ([], '''')"
  by (subst extract_lines.simps) simp

lemma extract_pending: "extract_lines a = (ls, r) \<Longrightarrow> extract_lines r = ([], r)"
proof (induction a arbitrary: ls rule: extract_lines.induct)
  case (1 a)
  show ?case
  proof (cases "find_index (\<lambda>c. c = CHR 0x0A) a")
    case None
    then have "extract_lines a = ([], a)"
      by (subst extract_lines.simps) simp
    then show ?thesis
      using 1(2) by simp
  next
    case (Some i)
    then show ?thesis
      using 1(1) [OF Some] 1(2) by (auto simp: extract_lines.simps [of a] case_prod_beta prod_eq_iff)
  qed
qed

lemma accept_lines_append:
  "accept_lines num st (a @ b) =
     try_bind (accept_lines num st a) (\<lambda>(st1, es1). try_bind (accept_lines num st1 b) (\<lambda>(st2, es2). Inr (st2, es1 @ es2)))"
  by (induction a arbitrary: st) (auto simp: try_bind_def split: sum.splits prod.splits)

section \<open>A stop is kept, and what else a run without one has done\<close>

lemma stop_failure [simp]: "sv_failure (stop k m s) \<noteq> None"
  by (simp add: stop_def)

text \<open>All lines of a list pass: they are accepted in turn and no observer throws.\<close>

definition passes :: "(jsnumber \<Rightarrow> string) \<Rightarrow> (worker_event \<Rightarrow> bool) \<Rightarrow> protocol_state \<Rightarrow> string list \<Rightarrow> protocol_state \<Rightarrow> bool" where
  "passes num throws st ls st' \<longleftrightarrow> (\<exists>es. accept_lines num st ls = Inr (st', es) \<and> (\<forall>e\<in>set es. \<not> throws e))"

lemma passes_Nil [simp]: "passes num throws st [] st' \<longleftrightarrow> st' = st"
  by (auto simp: passes_def)

lemma passes_append: "passes num throws st (a @ b) st' \<longleftrightarrow> (\<exists>st1. passes num throws st a st1 \<and> passes num throws st1 b st')"
  by (fastforce simp: passes_def accept_lines_append try_bind_Inr_iff)

lemma passes_unique: "passes num throws st ls a \<Longrightarrow> passes num throws st ls b \<Longrightarrow> a = b"
  by (auto simp: passes_def)

lemma accept_line_frame:
  "sv_queue (accept_line num throws l s) = sv_queue s" "sv_pendingStdout (accept_line num throws l s) = sv_pendingStdout s"
  "sv_stdoutBytes (accept_line num throws l s) = sv_stdoutBytes s" "sv_stderrBytes (accept_line num throws l s) = sv_stderrBytes s"
  by (simp_all add: accept_line_def stop_def Let_def split: sum.split prod.split)

lemma accept_line_failure:
  "sv_failure (accept_line num throws l s) = None \<longleftrightarrow>
     sv_failure s = None \<and> passes num throws (sv_protocol s) [l] (sv_protocol (accept_line num throws l s))"
proof (cases "acceptProtocolLine num (sv_protocol s) l")
  case (Inl e)
  then show ?thesis by (simp add: accept_line_def passes_def)
next
  case (Inr pe)
  obtain p e where "pe = (p, e)"
    by (cases pe)
  then show ?thesis
    using Inr by (auto simp: accept_line_def passes_def Let_def stop_def)
qed

lemma accept_line_protocol: "passes num throws (sv_protocol s) [l] st \<Longrightarrow> sv_protocol (accept_line num throws l s) = st"
  by (auto simp: passes_def accept_line_def try_bind_Inr_iff Let_def)

lemma fold_accept_failure:
  "sv_failure (fold (accept_line num throws) ls s) = None \<longleftrightarrow>
     sv_failure s = None \<and> passes num throws (sv_protocol s) ls (sv_protocol (fold (accept_line num throws) ls s))"
proof (induction ls arbitrary: s)
  case (Cons l ls)
  let ?s = "accept_line num throws l s"
  let ?t = "sv_protocol (fold (accept_line num throws) ls ?s)"
  have "sv_failure s = None \<and> passes num throws (sv_protocol s) (l # ls) ?t \<longleftrightarrow>
      sv_failure ?s = None \<and> passes num throws (sv_protocol ?s) ls ?t"
    using passes_append [of num throws "sv_protocol s" "[l]" ls ?t] accept_line_failure [of num throws l s]
      accept_line_protocol [of num throws s l]
    by auto
  then show ?case
    using Cons.IH [of ?s] by simp
qed simp

lemma fold_accept_frame:
  "sv_pendingStdout (fold (accept_line num throws) ls s) = sv_pendingStdout s"
  by (induction ls arbitrary: s) (simp_all add: accept_line_frame)

text \<open>The text of the standard output, chunk by chunk, and its bytes.\<close>

fun stdout_of :: "(nat list \<Rightarrow> string) \<Rightarrow> run_event list \<Rightarrow> string" where
  "stdout_of utf8 [] = ''''"
| "stdout_of utf8 (Stdout chunk # es) = utf8 chunk @ stdout_of utf8 es"
| "stdout_of utf8 (_ # es) = stdout_of utf8 es"

fun stdout_bytes :: "run_event list \<Rightarrow> nat list" where
  "stdout_bytes [] = []"
| "stdout_bytes (Stdout chunk # es) = chunk @ stdout_bytes es"
| "stdout_bytes (_ # es) = stdout_bytes es"

fun stderr_of :: "run_event list \<Rightarrow> nat" where
  "stderr_of [] = 0"
| "stderr_of (Stderr bytes # es) = bytes + stderr_of es"
| "stderr_of (_ # es) = stderr_of es"

definition undisturbed :: "run_event list \<Rightarrow> bool" where
  "undisturbed es = list_all (\<lambda>e. e \<noteq> Timer_fired \<and> e \<noteq> Aborted \<and> e \<noteq> Child_error) es"

lemma output_snoc:
  "stdout_of utf8 (es @ fs) = stdout_of utf8 es @ stdout_of utf8 fs" "stdout_bytes (es @ fs) = stdout_bytes es @ stdout_bytes fs" "stderr_of (es @ fs) = stderr_of es + stderr_of fs"
  by (induction utf8 es rule: stdout_of.induct; simp)+

text \<open>What a run that was not stopped has read, queued and taken in.\<close>

definition progress :: "(nat list \<Rightarrow> string) \<Rightarrow> (jsnumber \<Rightarrow> string) \<Rightarrow> (worker_event \<Rightarrow> bool) \<Rightarrow> string \<Rightarrow> run_event list \<Rightarrow> supervision \<Rightarrow> bool" where
  "progress utf8 num throws runId es s \<longleftrightarrow>
     undisturbed es \<and>
     sv_stdoutBytes s = length (stdout_bytes es) \<and> length (stdout_bytes es) \<le> 262144 \<and>
     sv_stderrBytes s = stderr_of es \<and> stderr_of es \<le> 32768 \<and>
     (\<exists>taken. extract_lines (stdout_of utf8 es) = (taken @ sv_queue s, sv_pendingStdout s) \<and>
        passes num throws (initialProtocolState runId) taken (sv_protocol s))"

lemma progress_stdout:
  assumes "progress utf8 num throws runId es s" and "sv_failure (on_stdout utf8 chunk s) = None"
  shows "progress utf8 num throws runId (es @ [Stdout chunk]) (on_stdout utf8 chunk s)"
proof -
  obtain taken where t: "extract_lines (stdout_of utf8 es) = (taken @ sv_queue s, sv_pendingStdout s)"
    "passes num throws (initialProtocolState runId) taken (sv_protocol s)"
    using assms(1) by (auto simp: progress_def)
  have fits: "sv_stdoutBytes s + length chunk \<le> 262144"
    using assms(2) by (auto simp: on_stdout_def limit_values Let_def split: if_splits)
  then have "on_stdout utf8 chunk s =
      s\<lparr>sv_stdoutBytes := sv_stdoutBytes s + length chunk, sv_pendingStdout := snd (extract_lines (sv_pendingStdout s @ utf8 chunk)),
        sv_queue := sv_queue s @ fst (extract_lines (sv_pendingStdout s @ utf8 chunk))\<rparr>"
    by (simp add: on_stdout_def limit_values case_prod_beta)
  moreover have "extract_lines (stdout_of utf8 es @ utf8 chunk) =
      (taken @ sv_queue s @ fst (extract_lines (sv_pendingStdout s @ utf8 chunk)), snd (extract_lines (sv_pendingStdout s @ utf8 chunk)))"
    using extract_lines_append [of "stdout_of utf8 es" "utf8 chunk"] t(1) by simp
  ultimately show ?thesis
    using assms(1) fits t(2) by (auto simp: progress_def output_snoc undisturbed_def)
qed

lemma progress_turn:
  assumes "progress utf8 num throws runId es s" and "sv_failure (turn num throws s) = None" and "sv_failure s = None"
  shows "progress utf8 num throws runId (es @ [Turn]) (turn num throws s)"
proof (cases "sv_queue s")
  case Nil
  then show ?thesis
    using assms by (simp add: turn_def progress_def output_snoc undisturbed_def)
next
  case (Cons l ls)
  let ?s = "accept_line num throws l (s\<lparr>sv_queue := ls\<rparr>)"
  obtain taken where t: "extract_lines (stdout_of utf8 es) = (taken @ sv_queue s, sv_pendingStdout s)"
    "passes num throws (initialProtocolState runId) taken (sv_protocol s)"
    using assms(1) by (auto simp: progress_def)
  have "passes num throws (sv_protocol s) [l] (sv_protocol ?s)"
    using assms(2) Cons accept_line_failure [of num throws l "s\<lparr>sv_queue := ls\<rparr>"] by (simp add: turn_def)
  then have "passes num throws (initialProtocolState runId) (taken @ [l]) (sv_protocol ?s)"
    using t(2) by (auto simp: passes_append)
  then show ?thesis
    using assms(1) t(1) Cons
    by (auto simp: turn_def progress_def output_snoc undisturbed_def accept_line_frame intro!: exI [of _ "taken @ [l]"])
qed

lemma progress_stderr:
  assumes "progress utf8 num throws runId es s" and "sv_failure (on_stderr n s) = None"
  shows "progress utf8 num throws runId (es @ [Stderr n]) (on_stderr n s)"
  using assms by (auto simp: on_stderr_def limit_values progress_def output_snoc undisturbed_def Let_def split: if_splits)

lemma step_failure_kept: "sv_failure (run_step utf8 num throws e s) = None \<Longrightarrow> sv_failure s = None"
  by (cases e) (auto simp: on_stdout_def on_stderr_def stop_def turn_def Let_def accept_line_failure
      split: if_splits list.splits prod.splits)

lemma progress_run:
  assumes "progress utf8 num throws runId [] s0" and "sv_failure (fold (run_step utf8 num throws) es s0) = None"
  shows "progress utf8 num throws runId es (fold (run_step utf8 num throws) es s0)"
  using assms(2)
proof (induction es rule: rev_induct)
  case Nil
  then show ?case using assms(1) by simp
next
  case (snoc e es)
  let ?s = "fold (run_step utf8 num throws) es s0"
  have f: "sv_failure (run_step utf8 num throws e ?s) = None" "sv_failure ?s = None"
    using snoc.prems step_failure_kept by auto
  then have p: "progress utf8 num throws runId es ?s"
    using snoc.IH by simp
  show ?case
    using f p progress_stdout progress_stderr progress_turn by (cases e) fastforce+
qed

text \<open>Conversely a run within the limits whose lines pass is not stopped.\<close>

lemma passes_prefix: "passes num throws st (a @ b) st' \<Longrightarrow> \<exists>st1. passes num throws st a st1"
  by (auto simp: passes_append)

lemma undisturbed_snoc: "undisturbed (es @ [e]) \<longleftrightarrow> undisturbed es \<and> undisturbed [e]"
  by (simp add: undisturbed_def)

lemma step_not_stopped:
  assumes "progress utf8 num throws runId es s" and "sv_failure s = None" and "undisturbed [e]"
    and "length (stdout_bytes (es @ [e])) \<le> 262144" and "stderr_of (es @ [e]) \<le> 32768"
    and "passes num throws (initialProtocolState runId) (fst (extract_lines (stdout_of utf8 es))) st"
  shows "sv_failure (run_step utf8 num throws e s) = None"
proof (cases "e = Turn \<and> sv_queue s \<noteq> []")
  case True
  then obtain l ls where q: "sv_queue s = l # ls"
    by (cases "sv_queue s") auto
  obtain taken where "extract_lines (stdout_of utf8 es) = (taken @ l # ls, sv_pendingStdout s)"
    "passes num throws (initialProtocolState runId) taken (sv_protocol s)"
    using assms(1) by (auto simp: progress_def q)
  then obtain st1 where st1: "passes num throws (sv_protocol s) [l] st1"
    using assms(6) passes_append [of num throws "initialProtocolState runId" "taken" "[l] @ ls" st]
      passes_append [of num throws _ "[l]" ls st] passes_unique
    by (metis append_Cons append_Nil fst_conv)
  moreover have "sv_protocol (accept_line num throws l (s\<lparr>sv_queue := ls\<rparr>)) = st1"
    using accept_line_protocol [of num throws "s\<lparr>sv_queue := ls\<rparr>" l st1] st1 by simp
  ultimately show ?thesis
    using True q assms(2) by (simp add: turn_def accept_line_failure)
next
  case False
  then show ?thesis
    using assms(1-5)
    by (cases e) (auto simp: progress_def on_stdout_def on_stderr_def turn_def undisturbed_def output_snoc limit_values Let_def
        split: prod.split)
qed

lemma run_not_stopped:
  assumes "progress utf8 num throws runId [] s0" and "sv_failure s0 = None"
  shows "undisturbed es \<Longrightarrow> length (stdout_bytes es) \<le> 262144 \<Longrightarrow> stderr_of es \<le> 32768 \<Longrightarrow>
    passes num throws (initialProtocolState runId) (fst (extract_lines (stdout_of utf8 es @ rest))) st \<Longrightarrow>
    sv_failure (fold (run_step utf8 num throws) es s0) = None"
proof (induction es arbitrary: rest rule: rev_induct)
  case Nil
  then show ?case using assms(2) by simp
next
  case (snoc e es)
  let ?s = "fold (run_step utf8 num throws) es s0"
  have whole: "stdout_of utf8 (es @ [e]) @ rest = stdout_of utf8 es @ (stdout_of utf8 [e] @ rest)"
    by (simp add: output_snoc)
  have ok: "sv_failure ?s = None"
    using snoc.prems snoc.IH [of "stdout_of utf8 [e] @ rest"] by (simp add: output_snoc undisturbed_snoc)
  have "fst (extract_lines (stdout_of utf8 es @ stdout_of utf8 [e] @ rest)) = fst (extract_lines (stdout_of utf8 es)) @
      fst (extract_lines (snd (extract_lines (stdout_of utf8 es)) @ stdout_of utf8 [e] @ rest))"
    by (subst extract_lines_append) simp
  then obtain st1 where "passes num throws (initialProtocolState runId) (fst (extract_lines (stdout_of utf8 es))) st1"
    using snoc.prems(4) passes_prefix unfolding whole by metis
  then have "sv_failure (run_step utf8 num throws e ?s) = None"
    using snoc.prems ok progress_run [OF assms(1) ok] by (intro step_not_stopped) (simp_all add: undisturbed_snoc)
  then show ?case by simp
qed

lemma drained:
  assumes "progress utf8 num throws runId es s"
  shows "sv_failure (drain_queue num throws s) = None \<longleftrightarrow>
    sv_failure s = None \<and>
    passes num throws (initialProtocolState runId) (fst (extract_lines (stdout_of utf8 es))) (sv_protocol (drain_queue num throws s))"
proof -
  obtain taken where t: "extract_lines (stdout_of utf8 es) = (taken @ sv_queue s, sv_pendingStdout s)"
    "passes num throws (initialProtocolState runId) taken (sv_protocol s)"
    using assms by (auto simp: progress_def)
  have "passes num throws (initialProtocolState runId) (taken @ sv_queue s) st \<longleftrightarrow>
      passes num throws (sv_protocol s) (sv_queue s) st" for st
    using t(2) passes_unique by (metis passes_append)
  then show ?thesis
    by (simp add: drain_queue_def fold_accept_failure t(1))
qed

section \<open>The worker understands the request\<close>

lemma analyzer_of_name: "analyzer_of (JStr (analyzer_name a)) = Some a"
  by (cases a) (simp_all add: analyzer_of_def analyzer_names_def)

lemma unique_strings: "unique_values (map (\<lambda>x. JStr (f x)) xs) \<longleftrightarrow> distinct (map f xs)"
proof -
  have "filter is_primitive (map (\<lambda>x. JStr (f x)) xs) = map JStr (map f xs)"
    by (simp add: is_primitive_def filter_id_conv)
  then show ?thesis
    unfolding unique_values_def by (simp add: distinct_map inj_on_def del: map_map)
qed

lemma analyzer_name_inj: "inj analyzer_name"
  by (rule injI) (metis analyzer_of_name option.inject)

lemma request_checks:
  assumes "cs \<noteq> []" "distinct cs" "set cs \<subseteq> {Async_risk, Duplicates, Test_duplicates}"
  shows "parseRequestChecks (JArr (map (\<lambda>c. JStr (analyzer_name c)) cs)) = Some cs"
proof -
  have "card (set cs) \<le> card {Async_risk, Duplicates, Test_duplicates}"
    using assms(3) by (intro card_mono) simp_all
  then have "length cs \<le> 3"
    using assms(2) distinct_card [of cs] by (simp add: card_insert_if split: if_splits)
  moreover have "all_some (map analyzer_of (map (\<lambda>c. JStr (analyzer_name c)) cs)) = Some cs"
    by (simp add: all_some_Some comp_def analyzer_of_name)
  moreover have "distinct (map analyzer_name cs)"
    using assms(2) inj_on_subset [OF analyzer_name_inj subset_UNIV, of "set cs"] by (simp add: distinct_map)
  ultimately show ?thesis
    using assms(1,3) by (auto simp: parseRequestChecks_def SAFE_CHECKS_def unique_strings list_all_iff)
qed

lemma request_paths:
  assumes "scope_ok (Paths_scope ps)"
  shows "parseRequestPathsScope (JArr (map JStr ps)) JUndefined = Some (Paths_scope ps)"
proof -
  have "all_some (map bounded_path (map JStr ps)) = Some ps"
    using assms by (simp add: all_some_Some scope_ok_def list_all_iff bounded_path_def path_ok_iff)
  then show ?thesis
    using assms unique_strings [of id ps]
    by (auto simp: parseRequestPathsScope_def scope_ok_def limit_values)
qed

lemma request_ref: "ref_ok r \<Longrightarrow> parseRequestDiffScope JUndefined (JStr r) = Some (Diff_scope (Some r))"
  by (auto simp: ref_ok_iff bounded_ref_def parseRequestDiffScope_def isBoundedString_def split: if_splits)

lemma request_no_ref: "parseRequestDiffScope JUndefined JUndefined = Some (Diff_scope None)"
  by (simp add: parseRequestDiffScope_def)

lemma request_props:
  assumes "json_request runId r = JObj ps"
  shows "js_prop ps ''version'' = js_num 1" "js_prop ps ''type'' = JStr ''request''" "js_prop ps ''runId'' = JStr runId"
    "js_prop ps ''cwd'' = JStr (sq_cwd r)" "js_prop ps ''checks'' = JArr (map (\<lambda>c. JStr (analyzer_name c)) (sq_checks r))"
    "js_prop ps ''maxMemoryMb'' = js_num (sq_maxMemoryMb r)" "js_prop ps ''maxSourceFiles'' = js_num (sq_maxSourceFiles r)"
    "js_prop ps ''maxSourceFileBytes'' = js_num (sq_maxSourceFileBytes r)"
    "js_prop ps ''maxSourceBytes'' = js_num (sq_maxSourceBytes r)" "js_prop ps ''timeoutMs'' = js_num (sq_timeoutMs r)"
    "js_prop ps ''scope'' = js_prop (scope_props (sq_scope r)) ''scope''"
    "js_prop ps ''paths'' = js_prop (scope_props (sq_scope r)) ''paths''"
    "js_prop ps ''ref'' = js_prop (scope_props (sq_scope r)) ''ref''"
  using assms by (cases "sq_scope r" rule: scope_props.cases; auto simp: json_request_def js_prop_def)+

lemma request_scope:
  assumes "json_request runId r = JObj ps" and "scope_ok (sq_scope r)"
  shows "parseRequestScope ps = Some (sq_scope r)"
  using assms(2)
  unfolding parseRequestScope_def request_props [OF assms(1)]
  by (cases "sq_scope r" rule: scope_props.cases)
    (simp_all add: js_prop_def request_ref request_no_ref request_paths scope_ok_def)

lemma plain_request:
  assumes "request_ok r"
  shows "plain_json (json_request runId r)"
proof -
  have "30000 < safe_limit" "2097152 < safe_limit" "262144 < safe_limit" "1024 < safe_limit" "512 < safe_limit" "1 < safe_limit"
    by (simp_all add: safe_limit_def)
  then show ?thesis
    using assms
    by (cases "sq_scope r" rule: scope_props.cases) (auto simp: json_request_def request_ok_def list_all_iff)
qed

lemma worker_parses_request:
  assumes "request_ok r" and "plain_numbers num" and "bounded_text runId 128 False" and "\<not> has_zero (sq_cwd r)"
    and "byte_length (stringify num (json_request runId r)) \<le> 65536"
  shows "parseAnalyzeWorkerRequest (stringify num (json_request runId r)) = Inr \<lparr>wq_runId = runId, wq_request = r\<rparr>"
proof -
  obtain ps where ps: "json_request runId r = JObj ps"
    by (simp add: json_request_def)
  have line: "parseObjectLine (stringify num (json_request runId r)) = Inr ps"
    using assms(5) parse_stringify [OF assms(2) plain_request [OF assms(1)], of runId]
    by (simp add: parseObjectLine_def MAX_PROTOCOL_LINE_BYTES_def ps)
  have run: "isBoundedString (JStr runId) 128 False = Some runId"
    using assms(3) by (auto simp: bounded_text_iff isBoundedString_def split: if_splits)
  have envelope: "validateEnvelope ps (Some Request_message) = Inr runId"
    by (simp add: validateEnvelope_def request_props [OF ps] js_num_def js_one_def message_type_of_def message_types_def run)
  have cwd: "validRequestCwd (JStr (sq_cwd r)) = Some (sq_cwd r)"
    using assms(1,4) by (auto simp: validRequestCwd_def isBoundedString_def request_ok_def limit_values is_absolute_def)
  have limits: "validRequestLimits ps = Some (sq_timeoutMs r)"
    using assms(1) unfolding validRequestLimits_def request_props [OF ps]
    by (simp add: request_ok_def limit_values js_num_def)
  have scope: "parseRequestScope ps = Some (sq_scope r)"
    using assms(1) by (intro request_scope [OF ps]) (simp add: request_ok_def)
  have checks: "parseRequestChecks (js_prop ps ''checks'') = Some (sq_checks r)"
    unfolding request_props [OF ps] using assms(1) by (intro request_checks) (simp_all add: request_ok_def)
  have "r = \<lparr>sq_cwd = sq_cwd r, sq_scope = sq_scope r, sq_checks = sq_checks r, sq_maxMemoryMb = 512,
      sq_maxSourceFiles = 1024, sq_maxSourceFileBytes = 262144, sq_maxSourceBytes = 2097152, sq_timeoutMs = sq_timeoutMs r\<rparr>"
    using assms(1) by (cases r) (simp add: request_ok_def)
  then show ?thesis
    by (simp add: parseAnalyzeWorkerRequest_def line envelope request_props(4) [OF ps] cwd scope checks limits limit_values)
qed


section \<open>When a run returns a result\<close>

lemma fold_accept_protocol:
  "passes num throws (sv_protocol s) ls st \<Longrightarrow> sv_protocol (fold (accept_line num throws) ls s) = st"
proof (induction ls arbitrary: s)
  case (Cons l ls)
  obtain st1 where st1: "passes num throws (sv_protocol s) [l] st1" "passes num throws st1 ls st"
    using Cons.prems passes_append [of num throws "sv_protocol s" "[l]" ls st] by auto
  then show ?case
    using Cons.IH [of "accept_line num throws l s"] accept_line_protocol [OF st1(1)] by simp
qed simp

lemma drained_protocol:
  assumes "progress utf8 num throws runId es s"
    and "passes num throws (initialProtocolState runId) (fst (extract_lines (stdout_of utf8 es))) st"
  shows "sv_protocol (drain_queue num throws s) = st"
proof -
  obtain taken where t: "extract_lines (stdout_of utf8 es) = (taken @ sv_queue s, sv_pendingStdout s)"
    "passes num throws (initialProtocolState runId) taken (sv_protocol s)"
    using assms(1) by (auto simp: progress_def)
  then have "passes num throws (sv_protocol s) (sv_queue s) st"
    using assms(2) passes_unique by (metis passes_append fst_conv)
  then show ?thesis
    by (simp add: drain_queue_def fold_accept_protocol)
qed

lemma drained_frame: "sv_pendingStdout (drain_queue num throws s) = sv_pendingStdout s"
  by (simp add: drain_queue_def fold_accept_frame)

lemma settle_result:
  "fst (settle s) = Inr result \<longleftrightarrow>
     sv_failure s = None \<and> ps_phase (sv_protocol s) = Complete_phase result \<and> sv_pendingStdout s = ''''"
  by (auto simp: settle_def split: option.split supervisor_error.split phase.split)

lemma fold_failure_kept: "sv_failure (fold (run_step utf8 num throws) es s) = None \<Longrightarrow> sv_failure s = None"
  by (induction es arbitrary: s) (auto dest: step_failure_kept)

lemma drain_failure_kept: "sv_failure (drain_queue num throws s) = None \<Longrightarrow> sv_failure s = None"
  by (simp add: drain_queue_def fold_accept_failure)

lemma sent_progress:
  assumes "byte_length (request_line num runId r) \<le> 65536"
  shows "progress utf8 num throws runId [] (sendRequest num runId r (new_supervision runId))"
    "sv_failure (sendRequest num runId r (new_supervision runId)) = None"
  using assms by (simp_all add: sendRequest_def MAX_REQUEST_BYTES_def new_supervision_def progress_def undisturbed_def)

lemma sent_failure:
  "sv_failure (sendRequest num runId r (new_supervision runId)) = None \<Longrightarrow> byte_length (request_line num runId r) \<le> 65536"
  by (auto simp: sendRequest_def MAX_REQUEST_BYTES_def split: if_splits)

lemma run_result:
  assumes "byte_length (request_line num runId r) \<le> 65536"
    and s_def: "s = fold (run_step utf8 num throws) es (sendRequest num runId r (new_supervision runId))"
  shows "fst (settle (drain_queue num throws s)) = Inr result \<longleftrightarrow>
     undisturbed es \<and> length (stdout_bytes es) \<le> 262144 \<and> stderr_of es \<le> 32768 \<and>
     (\<exists>ls st. extract_lines (stdout_of utf8 es) = (ls, '''') \<and> passes num throws (initialProtocolState runId) ls st \<and>
        ps_phase st = Complete_phase result)" (is "?L \<longleftrightarrow> ?R")
proof
  assume ?L
  then have d: "sv_failure (drain_queue num throws s) = None"
    "ps_phase (sv_protocol (drain_queue num throws s)) = Complete_phase result" "sv_pendingStdout s = ''''"
    by (simp_all add: settle_result drained_frame)
  then have p: "progress utf8 num throws runId es s"
    using drain_failure_kept progress_run [OF sent_progress(1) [OF assms(1)]] unfolding s_def by blast
  then obtain ls where "extract_lines (stdout_of utf8 es) = (ls, '''')"
    using d(3) by (auto simp: progress_def)
  then show ?R
    using p d drained [OF p] by (auto simp: progress_def)
next
  assume R: ?R
  then obtain ls st where l: "extract_lines (stdout_of utf8 es) = (ls, '''')" "passes num throws (initialProtocolState runId) ls st"
    "ps_phase st = Complete_phase result"
    by blast
  have "sv_failure s = None"
    unfolding s_def using R l run_not_stopped [OF sent_progress [OF assms(1)], where es = es and rest = "''''" and st = st] by simp
  moreover from this have p: "progress utf8 num throws runId es s"
    using progress_run [OF sent_progress(1) [OF assms(1)]] unfolding s_def by blast
  moreover have "sv_pendingStdout s = ''''"
    using p l(1) by (auto simp: progress_def)
  ultimately show ?L
    using drained [OF p] drained_protocol [OF p, of st] l by (simp add: settle_result drained_frame)
qed

text \<open>C7: 
  A supervised run answers with a result exactly when it was neither cancelled nor failed to
  start, the request fits, no timer, abort or child error came before the end, both streams stay
  within their limits of bytes, and the texts its chunks decode to, each by itself, form together a
  sequence of complete lines which the protocol accepts in turn, without an observer throwing, ending
  in the phase that holds this result.
\<close>

theorem supervised_result:
  "fst (supervise utf8 num throws cancelled spawned runId r events) = Inr result \<longleftrightarrow>
     \<not> cancelled \<and> spawned \<and> byte_length (request_line num runId r) \<le> 65536 \<and>
     undisturbed events \<and> length (stdout_bytes events) \<le> 262144 \<and> stderr_of events \<le> 32768 \<and>
     (\<exists>ls st. extract_lines (stdout_of utf8 events) = (ls, '''') \<and> passes num throws (initialProtocolState runId) ls st \<and>
        ps_phase st = Complete_phase result)"
proof (cases "byte_length (request_line num runId r) \<le> 65536")
  case True
  then show ?thesis
    by (simp add: supervise_def run_result [OF True refl])
next
  case False
  then have "sv_failure (drain_queue num throws
      (fold (run_step utf8 num throws) events (sendRequest num runId r (new_supervision runId)))) \<noteq> None"
    using drain_failure_kept fold_failure_kept sent_failure by blast
  then show ?thesis
    using False by (simp add: supervise_def settle_result)
qed


text \<open>
  What decoding each chunk by itself costs: a character of two bytes that a chunk boundary cuts is read
  as two others (\<open>Buffer.toString\<close> puts a replacement for each invalid byte), so a run may fail whose output,
  decoded as a whole, is in order.
\<close>

lemma cut_character_corrupted:
  assumes "length (utf8 [195]) = 1" "length (utf8 [169]) = 1" "utf8 [195, 169] = [char_of (233 :: nat)]"
  shows "stdout_bytes [Stdout [195], Stdout [169]] = stdout_bytes [Stdout [195, 169]] \<and>
    stdout_of utf8 [Stdout [195], Stdout [169]] \<noteq> stdout_of utf8 [Stdout [195, 169]]"
proof -
  have "length (stdout_of utf8 [Stdout [195], Stdout [169]]) \<noteq> length (stdout_of utf8 [Stdout [195, 169]])"
    by (simp add: assms)
  then have "stdout_of utf8 [Stdout [195], Stdout [169]] \<noteq> stdout_of utf8 [Stdout [195, 169]]"
    by metis
  then show ?thesis
    by (intro conjI) simp
qed

text \<open>C13: 
  What policy accepts, the worker accepts: when an input is classified as a safe request whose
  working directory holds no NUL character, the line sent for it (within its limit) parses in the
  worker to the same run and the same request, field by field.
\<close>

theorem worker_accepts_request:
  assumes "classifyAnalyzeRequest input = Inr r" and "plain_numbers num" and "bounded_text runId 128 False"
    and "\<not> has_zero (sq_cwd r)" and "byte_length (request_line num runId r) \<le> MAX_REQUEST_BYTES"
  shows "parseAnalyzeWorkerRequest (butlast (request_line num runId r)) = Inr \<lparr>wq_runId = runId, wq_request = r\<rparr>"
  using assms worker_parses_request [OF classified_safe_ok [OF assms(1)] assms(2,3,4)]
  by (simp add: request_line_def MAX_REQUEST_BYTES_def)

lemma plain_num_values: "plain_num (Finite (numeral k)) = show_int (numeral k)" "plain_num (Finite 1) = show_int 1"
  using js_int_of_int [of "numeral k"] js_int_of_int [of 1] by (simp_all add: plain_num_def)

lemma show_values:
  "show_int 1 = ''1''" "show_int 512 = ''512''" "show_int 1024 = ''1024''" "show_int 262144 = ''262144''"
  "show_int 2097152 = ''2097152''" "show_int 1000 = ''1000''"
  by (simp add: show_int_def show_nat.simps [of "numeral k" for k] show_nat.simps [of "Suc 0"]; code_simp)+

theorem worker_accepts_request_witness:
  "parseAnalyzeWorkerRequest (butlast (request_line plain_num ''run'' demo_safe)) = Inr \<lparr>wq_runId = ''run'', wq_request = demo_safe\<rparr>"
proof (rule worker_accepts_request [OF demo_request_safe plain_num_ok])
  show "bounded_text ''run'' 128 False"
    by code_simp
  show "\<not> has_zero (sq_cwd demo_safe)"
    by code_simp
  show "byte_length (request_line plain_num ''run'' demo_safe) \<le> MAX_REQUEST_BYTES"
  proof -
    have "byte_length (request_line plain_num ''run'' demo_safe) \<le> 500"
      by (simp add: request_line_def json_request_def demo_safe_def plain_num_values show_values js_num_def) code_simp
    then show ?thesis
      by (simp add: MAX_REQUEST_BYTES_def)
  qed
qed

end
