(* ===== verification/Analyze_Scope.thy ===== *)
theory Analyze_Scope
  imports Analyze_Policy
begin

text \<open>
  Which files an analysis looks at: \<open>src/analyze/scope.ts\<close>. The disk answers through a record of
  functions: what a directory lists (and an error that may end the listing), what \<open>stat\<close> says of a
  path, where \<open>realpath\<close> leads. Git answers through a function from arguments to output.
\<close>

section \<open>Constants\<close>

definition MAX_SCOPE_FILES :: nat where
  "MAX_SCOPE_FILES = 50000"

definition SCOPE_ENTRIES_PER_FILE :: nat where
  "SCOPE_ENTRIES_PER_FILE = 16"

definition SKIPPED_DIRECTORY_NAMES :: "string list" where
  "SKIPPED_DIRECTORY_NAMES =
     [''.git'', ''node_modules'', ''dist'', ''coverage'', ''.analyze-bundle'', ''.turbo'', ''.next'', ''.svelte-kit'']"

definition SKIPPED_ROOTS :: "string list" where
  "SKIPPED_ROOTS = [''tools/oxlint/anti-slop'']"

definition ANALYZABLE_EXTENSIONS :: "string list" where
  "ANALYZABLE_EXTENSIONS =
     [''.ts'', ''.tsx'', ''.mts'', ''.cts'', ''.js'', ''.jsx'', ''.mjs'', ''.cjs'', ''.json'', ''.jsonc'', ''.yaml'', ''.yml'']"

section \<open>Hunks of a unified diff\<close>

record hunk =
  hk_start :: int
  hk_end :: int

definition intersectsHunks :: "int \<Rightarrow> int \<Rightarrow> hunk list option \<Rightarrow> bool" where
  "intersectsHunks a b hs = (case hs of None \<Rightarrow> True | Some hs \<Rightarrow> list_ex (\<lambda>h. a \<le> hk_end h \<and> b \<ge> hk_start h) hs)"

text \<open>
  The pieces of the header's regular expression: a literal, \<open>\d+\<close>, and an optional \<open>,\d+\<close>. Taking
  all digits loses no match, since what must follow them is never a digit.
\<close>

definition expect :: "string \<Rightarrow> string \<Rightarrow> string option" where
  "expect w s = (if starts_with w s then Some (drop (length w) s) else None)"

definition digits :: "string \<Rightarrow> (string \<times> string) option" where
  "digits s = (let ds = takeWhile is_digit s in if ds = [] then None else Some (ds, dropWhile is_digit s))"

definition optional_count :: "string \<Rightarrow> string option \<times> string" where
  "optional_count s =
     (case s of
        c # t \<Rightarrow> (if c = CHR '','' then (case digits t of Some (ds, u) \<Rightarrow> (Some ds, u) | None \<Rightarrow> (None, s)) else (None, s))
      | [] \<Rightarrow> (None, s))"

definition match_header :: "string \<Rightarrow> (string \<times> string option) option" where
  "match_header s =
     Option.bind (expect ''@@ -'' s) (\<lambda>s.
     Option.bind (digits s) (\<lambda>(_, s).
     Option.bind (expect '' +'' (snd (optional_count s))) (\<lambda>s.
     Option.bind (digits s) (\<lambda>(first, s).
     Option.bind (expect '' @@'' (snd (optional_count s))) (\<lambda>_. Some (first, fst (optional_count s)))))))"

definition hunk_range :: "string \<Rightarrow> string option \<Rightarrow> hunk" where
  "hunk_range first amount =
     (let a = digits_value first; n = (case amount of None \<Rightarrow> 1 | Some ds \<Rightarrow> digits_value ds)
      in \<lparr>hk_start = a, hk_end = max a (a + n - 1)\<rparr>)"

type_synonym hunk_map = "(string, hunk list) jsmap"

definition hunk_line :: "string \<Rightarrow> string option \<times> hunk_map \<Rightarrow> string option \<times> hunk_map" where
  "hunk_line line st =
     (let st = (if starts_with ''+++ b/'' line
                then (let f = drop 6 line in (Some f, if jm_has (snd st) f then snd st else jm_set f [] (snd st)))
                else st)
      in case (fst st, match_header line) of
           (Some f, Some (first, amount)) \<Rightarrow>
             (fst st, jm_set f ((case jm_get (snd st) f of None \<Rightarrow> [] | Some hs \<Rightarrow> hs) @ [hunk_range first amount]) (snd st))
         | _ \<Rightarrow> st)"

definition parseUnifiedHunks :: "string \<Rightarrow> hunk_map" where
  "parseUnifiedHunks diff = snd (fold hunk_line (split_on (CHR 0x0A) [] diff) (None, []))"

section \<open>Eligible paths\<close>

text \<open>\<open>path.extname\<close> of Node: from the last dot of the last component, unless it starts it.\<close>

definition last_component :: "string \<Rightarrow> string" where
  "last_component p = last (split_on (CHR ''/'') [] (rev (dropWhile (\<lambda>c. c = CHR ''/'') (rev p))))"

definition extname :: "string \<Rightarrow> string" where
  "extname p =
     (let b = last_component p in
      case find_index (\<lambda>c. c = CHR ''.'') (rev b) of
        None \<Rightarrow> ''''
      | Some i \<Rightarrow> (if Suc i = length b \<or> b = ''..'' then '''' else drop (length b - Suc i) b))"

definition analyzablePath :: "string \<Rightarrow> bool" where
  "analyzablePath p = (extname p \<in> set ANALYZABLE_EXTENSIONS)"

definition isSkippedRoot :: "string \<Rightarrow> bool" where
  "isSkippedRoot r = list_ex (\<lambda>name. r = name \<or> starts_with (name @ ''/'') r) (SKIPPED_DIRECTORY_NAMES @ SKIPPED_ROOTS)"

definition eligibleScopePath :: "string \<Rightarrow> bool" where
  "eligibleScopePath p = (let n = normalizeWorkspacePath p in analyzablePath n \<and> \<not> isSkippedRoot n)"

section \<open>Collecting files\<close>

text \<open>A \<open>ScopeError\<close> is its message.\<close>

type_synonym scope_error = string

definition file_limit :: "nat \<Rightarrow> scope_error" where
  "file_limit n = ''Scope file limit exceeded: discovered more than '' @ show_nat n @ '' analyzable files''"

definition boundedSortedFiles :: "string list \<Rightarrow> nat \<Rightarrow> scope_error + string list" where
  "boundedSortedFiles fs maxFiles =
     (let out = sort (remdups fs) in if length out > maxFiles then Inl (file_limit maxFiles) else Inr out)"

abbreviation join_path :: "string list \<Rightarrow> string" where
  "join_path \<equiv> join_with ''/''"

definition relative_name :: "fspath \<Rightarrow> fspath \<Rightarrow> string" where
  "relative_name cwd p = normalizeWorkspacePath (join_path (relative_path cwd p))"

definition addAnalyzableFile :: "fspath \<Rightarrow> fspath \<Rightarrow> string list \<Rightarrow> nat \<Rightarrow> scope_error + string list" where
  "addAnalyzableFile cwd p fs maxFiles =
     (let r = relative_name cwd p in
      if \<not> analyzablePath r then Inr fs
      else (let fs = set_add r fs in if length fs > maxFiles then Inl (file_limit maxFiles) else Inr fs))"

section \<open>Walking a directory\<close>

datatype entry_kind = Directory_entry | File_entry | Other_entry

record disk =
  dk_list :: "fspath \<Rightarrow> (string \<times> entry_kind) list \<times> scope_error option"
  dk_stat :: "fspath \<Rightarrow> scope_error + entry_kind option"
  dk_real :: "fspath \<Rightarrow> scope_error + fspath"

record walk =
  wk_stack :: "fspath list"
  wk_files :: "string list"
  wk_visited :: nat

definition entry_limit :: "nat \<Rightarrow> scope_error" where
  "entry_limit n = ''Scope entry limit exceeded: visited more than '' @ show_nat n @ '' directory entries''"

definition skipped_directory :: "fspath \<Rightarrow> fspath \<Rightarrow> string \<Rightarrow> bool" where
  "skipped_directory cwd p name = (name \<in> set SKIPPED_DIRECTORY_NAMES \<or> isSkippedRoot (relative_name cwd p))"

definition visit_entry ::
  "fspath \<Rightarrow> fspath \<Rightarrow> nat \<Rightarrow> nat \<Rightarrow> string \<times> entry_kind \<Rightarrow> walk \<Rightarrow> scope_error + walk" where
  "visit_entry cwd current maxFiles maxEntries entry w =
     (let w = w\<lparr>wk_visited := Suc (wk_visited w)\<rparr>; p = resolve_path current (fst entry) in
      if wk_visited w > maxEntries then Inl (entry_limit maxEntries)
      else if snd entry = Directory_entry \<and> skipped_directory cwd p (fst entry) then Inr w
      else case snd entry of
          Directory_entry \<Rightarrow> Inr (w\<lparr>wk_stack := p # wk_stack w\<rparr>)
        | File_entry \<Rightarrow> try_bind (addAnalyzableFile cwd p (wk_files w) maxFiles) (\<lambda>fs. Inr (w\<lparr>wk_files := fs\<rparr>))
        | Other_entry \<Rightarrow> Inr w)"

fun visit_entries ::
  "fspath \<Rightarrow> fspath \<Rightarrow> nat \<Rightarrow> nat \<Rightarrow> (string \<times> entry_kind) list \<Rightarrow> walk \<Rightarrow> scope_error + walk" where
  "visit_entries cwd current maxFiles maxEntries [] w = Inr w"
| "visit_entries cwd current maxFiles maxEntries (e # es) w =
     try_bind (visit_entry cwd current maxFiles maxEntries e w) (visit_entries cwd current maxFiles maxEntries es)"

definition visit_directory :: "disk \<Rightarrow> fspath \<Rightarrow> fspath \<Rightarrow> nat \<Rightarrow> nat \<Rightarrow> walk \<Rightarrow> scope_error + walk" where
  "visit_directory d cwd current maxFiles maxEntries w =
     (case dk_list d current of (entries, failed) \<Rightarrow>
        try_bind (visit_entries cwd current maxFiles maxEntries entries w)
          (\<lambda>w. case failed of Some e \<Rightarrow> Inl e | None \<Rightarrow> Inr w))"

text \<open>Every directory on the stack has used an entry of the budget, so the walk ends.\<close>

lemma visit_entry_budget:
  "visit_entry cwd current maxFiles maxEntries e w = Inr w' \<Longrightarrow>
    wk_visited w' = Suc (wk_visited w) \<and> wk_visited w' \<le> maxEntries \<and> length (wk_stack w') \<le> Suc (length (wk_stack w))"
  by (auto simp: visit_entry_def Let_def try_bind_Inr_iff split: if_splits entry_kind.splits)

lemma visit_entries_budget:
  "visit_entries cwd current maxFiles maxEntries es w = Inr w' \<Longrightarrow>
    wk_visited w' = wk_visited w + length es \<and> (es \<noteq> [] \<longrightarrow> wk_visited w' \<le> maxEntries) \<and>
    length (wk_stack w') \<le> length (wk_stack w) + length es"
proof (induction es arbitrary: w)
  case (Cons e es)
  then obtain v where "visit_entry cwd current maxFiles maxEntries e w = Inr v"
    "visit_entries cwd current maxFiles maxEntries es v = Inr w'"
    by (auto simp: try_bind_Inr_iff)
  then show ?case
    using Cons.IH visit_entry_budget by (cases es) fastforce+
qed simp

lemma visit_directory_decreases:
  assumes "visit_directory d cwd current maxFiles maxEntries (w\<lparr>wk_stack := rest\<rparr>) = Inr w'"
  shows "(maxEntries - wk_visited w') + length (wk_stack w') < (maxEntries - wk_visited w) + Suc (length rest)"
proof -
  obtain es where "visit_entries cwd current maxFiles maxEntries es (w\<lparr>wk_stack := rest\<rparr>) = Inr w'"
    using assms by (auto simp: visit_directory_def try_bind_Inr_iff split: prod.splits option.splits)
  from visit_entries_budget [OF this] show ?thesis
    by (cases "es = []") auto
qed

function walk_stack :: "disk \<Rightarrow> fspath \<Rightarrow> nat \<Rightarrow> nat \<Rightarrow> walk \<Rightarrow> scope_error + walk" where
  "walk_stack d cwd maxFiles maxEntries w =
     (case wk_stack w of
        [] \<Rightarrow> Inr w
      | current # rest \<Rightarrow>
          (case visit_directory d cwd current maxFiles maxEntries (w\<lparr>wk_stack := rest\<rparr>) of
             Inl e \<Rightarrow> Inl e
           | Inr w' \<Rightarrow> walk_stack d cwd maxFiles maxEntries w'))"
  by auto
termination
  by (relation "measure (\<lambda>(d, cwd, maxFiles, maxEntries, w). (maxEntries - wk_visited w) + length (wk_stack w))")
    (auto dest: visit_directory_decreases)

declare walk_stack.simps [simp del]

definition walkDirectory :: "disk \<Rightarrow> fspath \<Rightarrow> fspath \<Rightarrow> nat \<Rightarrow> nat \<Rightarrow> walk \<Rightarrow> scope_error + walk" where
  "walkDirectory d cwd start maxFiles maxEntries w = walk_stack d cwd maxFiles maxEntries (w\<lparr>wk_stack := [start]\<rparr>)"


section \<open>Explicit paths\<close>

definition outside_error :: "string \<Rightarrow> scope_error" where
  "outside_error p = ''Explicit path resolves outside cwd: '' @ p"

definition expand_path :: "disk \<Rightarrow> fspath \<Rightarrow> nat \<Rightarrow> nat \<Rightarrow> string \<Rightarrow> walk \<Rightarrow> scope_error + walk" where
  "expand_path d base maxFiles maxEntries p w =
     (let absolute = resolve_path base p; lexicalRoot = relative_name base absolute in
      if isOutsideWorkspace lexicalRoot then Inl (outside_error p)
      else if isSkippedRoot lexicalRoot then Inr w
      else try_bind (dk_stat d absolute) (\<lambda>stats.
        case stats of
          None \<Rightarrow> Inr w
        | Some kind \<Rightarrow>
            try_bind (dk_real d absolute) (\<lambda>resolved.
              let relativeRoot = relative_name base resolved in
              if isOutsideWorkspace relativeRoot then Inl (outside_error p)
              else if isSkippedRoot relativeRoot then Inr w
              else case kind of
                  File_entry \<Rightarrow>
                    try_bind (addAnalyzableFile base resolved (wk_files w) maxFiles) (\<lambda>fs. Inr (w\<lparr>wk_files := fs\<rparr>))
                | Directory_entry \<Rightarrow> walkDirectory d base resolved maxFiles maxEntries w
                | Other_entry \<Rightarrow> Inr w)))"

fun expand_paths :: "disk \<Rightarrow> fspath \<Rightarrow> nat \<Rightarrow> nat \<Rightarrow> string list \<Rightarrow> walk \<Rightarrow> scope_error + walk" where
  "expand_paths d base maxFiles maxEntries [] w = Inr w"
| "expand_paths d base maxFiles maxEntries (p # ps) w =
     try_bind (expand_path d base maxFiles maxEntries p w) (expand_paths d base maxFiles maxEntries ps)"

definition new_walk :: walk where
  "new_walk = \<lparr>wk_stack = [], wk_files = [], wk_visited = 0\<rparr>"

definition expandExplicitPaths :: "disk \<Rightarrow> fspath \<Rightarrow> string list \<Rightarrow> nat \<Rightarrow> nat \<Rightarrow> scope_error + string list" where
  "expandExplicitPaths d cwd paths maxFiles maxEntries =
     try_bind (dk_real d cwd) (\<lambda>base.
     try_bind (expand_paths d base maxFiles maxEntries paths new_walk) (\<lambda>w.
     boundedSortedFiles (wk_files w) maxFiles))"

section \<open>The scope of a request\<close>

record scope =
  sc_mode :: string
  sc_files :: "string list"
  sc_hunks :: hunk_map

type_synonym git = "string list \<Rightarrow> string + string"

definition MAX_GIT_OUTPUT_BYTES :: nat where
  "MAX_GIT_OUTPUT_BYTES = 8388608"

definition run_git :: "git \<Rightarrow> string list \<Rightarrow> scope_error + string" where
  "run_git git args =
     (case git args of
        Inl message \<Rightarrow>
          Inl (''git '' @ join_with '' '' args @ '' failed or exceeded '' @ show_nat MAX_GIT_OUTPUT_BYTES @ '' bytes: '' @ message)
      | Inr out \<Rightarrow> Inr out)"

definition bounded_hunks :: "nat \<Rightarrow> hunk_map \<Rightarrow> scope_error + hunk_map" where
  "bounded_hunks maxFiles hunks = (if length hunks > maxFiles then Inl (file_limit maxFiles) else Inr hunks)"

fun add_changed :: "nat \<Rightarrow> (string \<times> hunk list) list \<Rightarrow> hunk_map \<Rightarrow> scope_error + hunk_map" where
  "add_changed maxFiles [] hunks = Inr hunks"
| "add_changed maxFiles ((p, ranges) # rest) hunks =
     (if \<not> eligibleScopePath p then add_changed maxFiles rest hunks
      else try_bind (bounded_hunks maxFiles (jm_set p ((case jm_get hunks p of None \<Rightarrow> [] | Some hs \<Rightarrow> hs) @ ranges) hunks))
        (add_changed maxFiles rest))"

definition whole_file :: hunk where
  "whole_file = \<lparr>hk_start = 1, hk_end = 9007199254740991\<rparr>"

fun add_untracked :: "nat \<Rightarrow> string list \<Rightarrow> hunk_map \<Rightarrow> scope_error + hunk_map" where
  "add_untracked maxFiles [] hunks = Inr hunks"
| "add_untracked maxFiles (p # ps) hunks =
     try_bind (bounded_hunks maxFiles (jm_set (normalizeWorkspacePath p) [whole_file] hunks)) (add_untracked maxFiles ps)"

definition diff_scope :: "git \<Rightarrow> string option \<Rightarrow> nat \<Rightarrow> scope_error + scope" where
  "diff_scope git ref maxFiles =
     try_bind (run_git git [''merge-base'', (case ref of None \<Rightarrow> ''main'' | Some r \<Rightarrow> r), ''HEAD'']) (\<lambda>base.
     try_bind (run_git git [''diff'', ''--unified=0'', trim_string base]) (\<lambda>chunk.
     try_bind (add_changed maxFiles (parseUnifiedHunks chunk) []) (\<lambda>hunks.
     try_bind (run_git git [''ls-files'', ''--others'', ''--exclude-standard'']) (\<lambda>untracked.
     try_bind (add_untracked maxFiles (filter eligibleScopePath (split_on (CHR 0x0A) [] (trim_string untracked))) hunks) (\<lambda>hunks.
     try_bind (boundedSortedFiles (jm_keys hunks) maxFiles) (\<lambda>fs.
     Inr \<lparr>sc_mode = ''diff'', sc_files = fs, sc_hunks = hunks\<rparr>))))))"

definition resolveScope :: "disk \<Rightarrow> git \<Rightarrow> fspath \<Rightarrow> scope_selection \<Rightarrow> nat \<Rightarrow> scope_error + scope" where
  "resolveScope d git cwd request maxFiles =
     (case request of
        Paths_scope paths \<Rightarrow>
          try_bind (expandExplicitPaths d cwd paths maxFiles (maxFiles * SCOPE_ENTRIES_PER_FILE))
            (\<lambda>fs. Inr \<lparr>sc_mode = ''paths'', sc_files = fs, sc_hunks = []\<rparr>)
      | All_scope \<Rightarrow> Inr \<lparr>sc_mode = ''all'', sc_files = [], sc_hunks = []\<rparr>
      | Diff_scope ref \<Rightarrow> diff_scope git ref maxFiles)"


section \<open>What a walk finds\<close>

text \<open>The directories a walk from \<open>start\<close> opens, and the names of the files it collects.\<close>

inductive walked :: "disk \<Rightarrow> fspath \<Rightarrow> fspath \<Rightarrow> fspath \<Rightarrow> bool" for d cwd start where
  walked_start: "walked d cwd start start"
| walked_entry: "walked d cwd start p \<Longrightarrow> (n, Directory_entry) \<in> set (fst (dk_list d p)) \<Longrightarrow>
    \<not> skipped_directory cwd (resolve_path p n) n \<Longrightarrow> walked d cwd start (resolve_path p n)"

definition direct_files :: "disk \<Rightarrow> fspath \<Rightarrow> fspath \<Rightarrow> string set" where
  "direct_files d cwd p =
     {relative_name cwd (resolve_path p n) |n. (n, File_entry) \<in> set (fst (dk_list d p)) \<and>
        analyzablePath (relative_name cwd (resolve_path p n))}"

definition found :: "disk \<Rightarrow> fspath \<Rightarrow> fspath \<Rightarrow> string set" where
  "found d cwd start = (\<Union>p\<in>Collect (walked d cwd start). direct_files d cwd p)"

definition subdirectories :: "disk \<Rightarrow> fspath \<Rightarrow> fspath \<Rightarrow> fspath set" where
  "subdirectories d cwd p =
     {resolve_path p n |n. (n, Directory_entry) \<in> set (fst (dk_list d p)) \<and> \<not> skipped_directory cwd (resolve_path p n) n}"

lemma walked_first: "walked d cwd q r \<Longrightarrow> q \<in> subdirectories d cwd p \<Longrightarrow> walked d cwd p r"
  by (induction rule: walked.induct) (auto simp: subdirectories_def intro: walked.intros)

lemma walked_cases_first:
  "walked d cwd p r \<Longrightarrow> r = p \<or> (\<exists>q\<in>subdirectories d cwd p. walked d cwd q r)"
proof (induction rule: walked.induct)
  case (walked_entry r n)
  then show ?case
    by (auto simp: subdirectories_def intro: walked.intros)
qed simp

lemma found_unfold: "found d cwd p = direct_files d cwd p \<union> (\<Union>q\<in>subdirectories d cwd p. found d cwd q)"
proof -
  have "Collect (walked d cwd p) = insert p (\<Union>q\<in>subdirectories d cwd p. Collect (walked d cwd q))"
    using walked_first walked_cases_first by (fastforce intro: walked_start)
  then show ?thesis
    by (auto simp: found_def)
qed

lemma add_file_exact:
  "addAnalyzableFile cwd p fs maxFiles = Inr fs' \<Longrightarrow>
    set fs' = set fs \<union> (if analyzablePath (relative_name cwd p) then {relative_name cwd p} else {})"
  by (auto simp: addAnalyzableFile_def Let_def split: if_splits)

lemma visit_entry_exact:
  "visit_entry cwd cur maxFiles maxEntries e w = Inr w' \<Longrightarrow>
    set (wk_files w') = set (wk_files w) \<union> {relative_name cwd (resolve_path cur n) |n. e = (n, File_entry) \<and>
        analyzablePath (relative_name cwd (resolve_path cur n))} \<and>
    set (wk_stack w') = set (wk_stack w) \<union> {resolve_path cur n |n. e = (n, Directory_entry) \<and>
        \<not> skipped_directory cwd (resolve_path cur n) n}"
  by (cases e; cases "snd e") (auto simp: visit_entry_def Let_def try_bind_Inr_iff dest!: add_file_exact split: if_splits)

lemma visit_entries_exact:
  "visit_entries cwd cur maxFiles maxEntries es w = Inr w' \<Longrightarrow>
    set (wk_files w') = set (wk_files w) \<union> {relative_name cwd (resolve_path cur n) |n. (n, File_entry) \<in> set es \<and>
        analyzablePath (relative_name cwd (resolve_path cur n))} \<and>
    set (wk_stack w') = set (wk_stack w) \<union> {resolve_path cur n |n. (n, Directory_entry) \<in> set es \<and>
        \<not> skipped_directory cwd (resolve_path cur n) n}"
proof (induction es arbitrary: w)
  case (Cons e es)
  then obtain v where v: "visit_entry cwd cur maxFiles maxEntries e w = Inr v"
    "visit_entries cwd cur maxFiles maxEntries es v = Inr w'"
    by (auto simp: try_bind_Inr_iff)
  show ?case
    unfolding conjunct1 [OF Cons.IH [OF v(2)]] conjunct2 [OF Cons.IH [OF v(2)]]
      conjunct1 [OF visit_entry_exact [OF v(1)]] conjunct2 [OF visit_entry_exact [OF v(1)]]
    by auto
qed simp

lemma visit_directory_exact:
  assumes "visit_directory d cwd cur maxFiles maxEntries w = Inr w'"
  shows "set (wk_files w') = set (wk_files w) \<union> direct_files d cwd cur"
    "set (wk_stack w') = set (wk_stack w) \<union> subdirectories d cwd cur"
  using assms
  by (auto simp: visit_directory_def direct_files_def subdirectories_def try_bind_Inr_iff
      dest!: visit_entries_exact split: prod.splits option.splits)

lemma walk_stack_exact:
  "walk_stack d cwd maxFiles maxEntries w = Inr w' \<Longrightarrow>
    set (wk_files w') = set (wk_files w) \<union> (\<Union>p\<in>set (wk_stack w). found d cwd p)"
proof (induction d cwd maxFiles maxEntries w rule: walk_stack.induct)
  case (1 d cwd maxFiles maxEntries w)
  show ?case
  proof (cases "wk_stack w")
    case Nil
    then show ?thesis
      using "1.prems" by (simp add: walk_stack.simps)
  next
    case (Cons cur rest)
    then obtain v where v: "visit_directory d cwd cur maxFiles maxEntries (w\<lparr>wk_stack := rest\<rparr>) = Inr v"
      "walk_stack d cwd maxFiles maxEntries v = Inr w'"
      using "1.prems" by (auto simp: walk_stack.simps [of d cwd maxFiles maxEntries w] split: sum.splits)
    show ?thesis
      using "1.IH" [OF Cons v(1,2)] visit_directory_exact [OF v(1)] Cons
      by (auto simp: found_unfold [of d cwd cur])
  qed
qed

lemma walk_exact:
  "walkDirectory d cwd start maxFiles maxEntries w = Inr w' \<Longrightarrow> set (wk_files w') = set (wk_files w) \<union> found d cwd start"
  unfolding walkDirectory_def by (drule walk_stack_exact) simp


section \<open>Expanding explicit paths\<close>

text \<open>What one explicit path adds to the scope.\<close>

definition selected :: "disk \<Rightarrow> fspath \<Rightarrow> string \<Rightarrow> string set" where
  "selected d base p =
     (let absolute = resolve_path base p in
      if isSkippedRoot (relative_name base absolute) then {}
      else case (dk_stat d absolute, dk_real d absolute) of
          (Inr (Some kind), Inr resolved) \<Rightarrow>
            if isSkippedRoot (relative_name base resolved) then {}
            else (case kind of
                File_entry \<Rightarrow> {r. r = relative_name base resolved \<and> analyzablePath r}
              | Directory_entry \<Rightarrow> found d base resolved
              | Other_entry \<Rightarrow> {})
        | _ \<Rightarrow> {})"

text \<open>A path is outside when it, or what it links to, leaves the root.\<close>

definition leaves :: "disk \<Rightarrow> fspath \<Rightarrow> string \<Rightarrow> bool" where
  "leaves d base p =
     (let absolute = resolve_path base p in
      isOutsideWorkspace (relative_name base absolute) \<or>
      \<not> isSkippedRoot (relative_name base absolute) \<and>
      (case (dk_stat d absolute, dk_real d absolute) of
         (Inr (Some _), Inr resolved) \<Rightarrow> isOutsideWorkspace (relative_name base resolved)
       | _ \<Rightarrow> False))"

lemma expand_path_exact:
  assumes "expand_path d base maxFiles maxEntries p w = Inr w'"
  shows "set (wk_files w') = set (wk_files w) \<union> selected d base p \<and> \<not> leaves d base p"
proof -
  let ?a = "resolve_path base p"
  have inside: "\<not> isOutsideWorkspace (relative_name base ?a)"
    using assms by (auto simp: expand_path_def Let_def)
  show ?thesis
  proof (cases "isSkippedRoot (relative_name base ?a)")
    case True
    then show ?thesis
      using assms inside by (simp add: expand_path_def Let_def selected_def leaves_def)
  next
    case False
    then obtain stats where stats: "dk_stat d ?a = Inr stats"
      using assms inside by (auto simp: expand_path_def Let_def try_bind_Inr_iff)
    show ?thesis
    proof (cases stats)
      case None
      then show ?thesis
        using assms inside False stats by (simp add: expand_path_def Let_def selected_def leaves_def)
    next
      case (Some kind)
      then obtain q where q: "dk_real d ?a = Inr q" "\<not> isOutsideWorkspace (relative_name base q)"
        using assms inside False stats by (auto simp: expand_path_def Let_def try_bind_Inr_iff split: if_splits)
      have "\<not> leaves d base p"
        using inside stats Some q by (simp add: leaves_def Let_def)
      moreover have "set (wk_files w') = set (wk_files w) \<union> selected d base p"
      proof (cases "isSkippedRoot (relative_name base q)")
        case True
        then show ?thesis
          using assms inside False stats Some q by (simp add: expand_path_def Let_def selected_def)
      next
        case not_skipped: False
        note kinds = assms inside False stats Some q not_skipped
        show ?thesis
        proof (cases kind)
          case Directory_entry
          then have "walkDirectory d base q maxFiles maxEntries w = Inr w'"
            using kinds by (simp add: expand_path_def Let_def)
          then show ?thesis
            using kinds(2-) Directory_entry by (simp add: selected_def Let_def walk_exact)
        next
          case File_entry
          then obtain fs where fs: "addAnalyzableFile base q (wk_files w) maxFiles = Inr fs" "w' = w\<lparr>wk_files := fs\<rparr>"
            using kinds by (auto simp: expand_path_def Let_def try_bind_Inr_iff)
          moreover have "selected d base p = (if analyzablePath (relative_name base q) then {relative_name base q} else {})"
            using kinds(2-) File_entry by (auto simp: selected_def Let_def)
          ultimately show ?thesis
            using add_file_exact [OF fs(1)] by simp
        next
          case Other_entry
          then show ?thesis
            using kinds by (simp add: expand_path_def Let_def selected_def)
        qed
      qed
      ultimately show ?thesis by simp
    qed
  qed
qed

lemma expand_paths_exact:
  "expand_paths d base maxFiles maxEntries ps w = Inr w' \<Longrightarrow>
    set (wk_files w') = set (wk_files w) \<union> (\<Union>p\<in>set ps. selected d base p) \<and> (\<forall>p\<in>set ps. \<not> leaves d base p)"
proof (induction ps arbitrary: w)
  case (Cons p ps)
  then obtain v where v: "expand_path d base maxFiles maxEntries p w = Inr v" "expand_paths d base maxFiles maxEntries ps v = Inr w'"
    by (auto simp: try_bind_Inr_iff)
  show ?case
    using Cons.IH [OF v(2)] expand_path_exact [OF v(1)] by auto
qed simp

text \<open>C25: 
  When the expansion of explicit paths returns, its answer is exactly the set of analyzable files
  that the paths name or that a walk of the directories they name reaches without entering a
  skipped directory, sorted, without repetition and within the limit; and no path, nor what it
  links to, leaves the root.
\<close>

theorem expand_exact:
  assumes "expandExplicitPaths d cwd paths maxFiles maxEntries = Inr fs"
  shows "\<exists>base. dk_real d cwd = Inr base \<and> set fs = (\<Union>p\<in>set paths. selected d base p) \<and>
    sorted fs \<and> distinct fs \<and> length fs \<le> maxFiles \<and> (\<forall>p\<in>set paths. \<not> leaves d base p)"
proof -
  obtain base w where base: "dk_real d cwd = Inr base"
    and w: "expand_paths d base maxFiles maxEntries paths new_walk = Inr w" "boundedSortedFiles (wk_files w) maxFiles = Inr fs"
    using assms by (auto simp: expandExplicitPaths_def try_bind_Inr_iff)
  have "fs = sort (remdups (wk_files w))" "length fs \<le> maxFiles"
    using w(2) by (auto simp: boundedSortedFiles_def Let_def split: if_splits)
  then have "set fs = set (wk_files w)" "sorted fs" "distinct fs" "length fs \<le> maxFiles"
    by simp_all
  then show ?thesis
    using base expand_paths_exact [OF w(1)] by (simp add: new_walk_def)
qed

section \<open>Confinement\<close>

text \<open>
  A disk whose names are those of directory entries (not empty, no separator, neither \<open>.\<close> nor
  \<open>..\<close>), and without a backslash, which the code takes for a separator.
\<close>

definition plain_name :: "string \<Rightarrow> bool" where
  "plain_name n \<longleftrightarrow> n \<noteq> [] \<and> n \<noteq> ''.'' \<and> n \<noteq> ''..'' \<and> CHR ''/'' \<notin> set n \<and> CHR 0x5C \<notin> set n"

definition plain_disk :: "disk \<Rightarrow> bool" where
  "plain_disk d \<longleftrightarrow>
     (\<forall>p n k. (n, k) \<in> set (fst (dk_list d p)) \<longrightarrow> plain_name n) \<and> (\<forall>p q. dk_real d p = Inr q \<longrightarrow> list_all plain_name q)"

lemma resolve_plain: "plain_name n \<Longrightarrow> resolve_path p n = p @ [n]"
  by (cases n) (auto simp: plain_name_def resolve_path_def is_absolute_def split_on_plain)

lemma normalize_plain: "CHR 0x5C \<notin> set p \<Longrightarrow> normalizeWorkspacePath p = p"
  by (auto simp: normalizeWorkspacePath_def intro!: map_idI)

lemma join_path_backslash: "list_all plain_name q \<Longrightarrow> CHR 0x5C \<notin> set (join_path q)"
  by (induction "''/''" q rule: join_with.induct) (auto simp: plain_name_def)

lemma relative_below: "relative_path base (base @ q) = q"
proof -
  have "common_prefix base (base @ q) = length base"
    by (simp add: common_prefix_full)
  then show ?thesis
    by (simp add: relative_path_def)
qed

lemma relative_name_below: "list_all plain_name q \<Longrightarrow> relative_name base (base @ q) = join_path q"
  by (simp add: relative_name_def relative_below normalize_plain join_path_backslash)

lemma join_dotdot: "\<exists>t. join_path (''..'' # cs) = ''..'' @ t \<and> (t = [] \<or> hd t = CHR ''/'')"
  by (cases cs) auto

lemma inside_below:
  assumes "\<not> isOutsideWorkspace (relative_name base p)"
  shows "\<exists>q. p = base @ q"
proof (rule ccontr)
  assume "\<nexists>q. p = base @ q"
  then have "common_prefix base p \<noteq> length base"
    by (metis append_take_drop_id common_prefix_full)
  then obtain k where "length base - common_prefix base p = Suc k"
    using common_prefix_le [of base p] by (metis diff_is_0_eq le_antisym not0_implies_Suc)
  then have "\<exists>cs. relative_path base p = ''..'' # cs"
    by (simp add: relative_path_def Let_def)
  then obtain t where "join_path (relative_path base p) = ''..'' @ t" "t = [] \<or> hd t = CHR ''/''"
    using join_dotdot by metis
  then have "isOutsideWorkspace (relative_name base p)"
    by (cases t) (auto simp: isOutsideWorkspace_def relative_name_def normalizeWorkspacePath_def starts_with_def Let_def)
  then show False
    using assms by simp
qed


lemma skipped_not_analyzable: "name \<in> set (SKIPPED_DIRECTORY_NAMES @ SKIPPED_ROOTS) \<Longrightarrow> \<not> analyzablePath name"
proof -
  have "list_all (\<lambda>name. \<not> analyzablePath name) (SKIPPED_DIRECTORY_NAMES @ SKIPPED_ROOTS)"
    by code_simp
  then show "name \<in> set (SKIPPED_DIRECTORY_NAMES @ SKIPPED_ROOTS) \<Longrightarrow> \<not> analyzablePath name"
    by (simp add: list_all_iff)
qed

lemma skipped_iff:
  "isSkippedRoot r \<longleftrightarrow> (\<exists>name\<in>set (SKIPPED_DIRECTORY_NAMES @ SKIPPED_ROOTS). r = name \<or> starts_with (name @ ''/'') r)"
  by (simp add: isSkippedRoot_def list_ex_iff)

text \<open>An analyzable file directly in a directory that is not skipped is not under a skipped root.\<close>

lemma file_not_skipped:
  assumes "\<not> isSkippedRoot (join_path q)" and "plain_name n" and "analyzablePath (join_path (q @ [n]))"
  shows "\<not> isSkippedRoot (join_path (q @ [n]))"
proof
  assume "isSkippedRoot (join_path (q @ [n]))"
  then obtain name where name: "name \<in> set (SKIPPED_DIRECTORY_NAMES @ SKIPPED_ROOTS)"
    and "join_path (q @ [n]) = name \<or> starts_with (name @ ''/'') (join_path (q @ [n]))"
    unfolding skipped_iff by blast
  with assms(3) skipped_not_analyzable [OF name] obtain t where t: "join_path (q @ [n]) = name @ ''/'' @ t"
    by (auto simp: starts_with_iff)
  have slash: "CHR ''/'' \<notin> set n"
    using assms(2) by (simp add: plain_name_def)
  then have "q \<noteq> []"
    using t by (auto simp: join_with_snoc)
  then have "join_path q @ CHR ''/'' # n = name @ CHR ''/'' # t"
    using t by (simp add: join_with_snoc)
  then consider u where "join_path q @ u = name" "CHR ''/'' # n = u @ CHR ''/'' # t"
    | u where "join_path q = name @ u" "u @ CHR ''/'' # n = CHR ''/'' # t"
    by (auto simp: append_eq_append_conv2)
  then show False
  proof cases
    case 1
    then have "u = []"
      using slash by (cases u) auto
    then show False
      using 1(1) assms(1) name by (auto simp: skipped_iff)
  next
    case 2
    then have "u = [] \<or> (\<exists>v. u = CHR ''/'' # v)"
      by (cases u) auto
    then show False
      using 2(1) assms(1) name by (auto simp: skipped_iff starts_with_iff)
  qed
qed

lemma walked_below:
  assumes "plain_disk d" and "list_all plain_name q0" and "\<not> isSkippedRoot (join_path q0)"
  shows "walked d base (base @ q0) p \<Longrightarrow> \<exists>q. p = base @ q \<and> list_all plain_name q \<and> \<not> isSkippedRoot (join_path q)"
proof (induction rule: walked.induct)
  case walked_start
  then show ?case using assms(2,3) by blast
next
  case (walked_entry p n)
  then obtain q where q: "p = base @ q" "list_all plain_name q"
    by blast
  have n: "plain_name n"
    using assms(1) walked_entry(2) by (auto simp: plain_disk_def)
  then have "\<not> isSkippedRoot (join_path (q @ [n]))"
    using walked_entry(3) q relative_name_below [of "q @ [n]" base] by (simp add: skipped_directory_def resolve_plain)
  then show ?case
    using q n by (intro exI [of _ "q @ [n]"]) (simp add: resolve_plain)
qed

lemma found_below:
  assumes "plain_disk d" and "list_all plain_name q0" and "\<not> isSkippedRoot (join_path q0)" and "f \<in> found d base (base @ q0)"
  shows "\<exists>q. f = join_path q \<and> list_all plain_name q \<and> analyzablePath f \<and> \<not> isSkippedRoot f"
proof -
  obtain p n where p: "walked d base (base @ q0) p" "(n, File_entry) \<in> set (fst (dk_list d p))"
    "f = relative_name base (resolve_path p n)" "analyzablePath f"
    using assms(4) by (auto simp: found_def direct_files_def)
  obtain q where q: "p = base @ q" "list_all plain_name q" "\<not> isSkippedRoot (join_path q)"
    using walked_below [OF assms(1-3) p(1)] by blast
  have n: "plain_name n"
    using assms(1) p(2) by (auto simp: plain_disk_def)
  then have "f = join_path (q @ [n])"
    using p(3) q relative_name_below [of "q @ [n]" base] by (simp add: resolve_plain)
  then show ?thesis
    using n q p(4) file_not_skipped [OF q(3) n] by (intro exI [of _ "q @ [n]"]) simp
qed

lemma selected_below:
  assumes "plain_disk d" and "\<not> leaves d base p" and "f \<in> selected d base p"
  shows "\<exists>q. f = join_path q \<and> list_all plain_name q \<and> analyzablePath f \<and> \<not> isSkippedRoot f"
proof -
  let ?a = "resolve_path base p"
  obtain kind r where r: "dk_stat d ?a = Inr (Some kind)" "dk_real d ?a = Inr r" "\<not> isSkippedRoot (relative_name base r)"
    "\<not> isSkippedRoot (relative_name base ?a)"
    and f: "kind = File_entry \<and> f = relative_name base r \<and> analyzablePath f \<or> kind = Directory_entry \<and> f \<in> found d base r"
    using assms(3)
    by (auto simp: selected_def Let_def split: if_splits sum.splits option.splits entry_kind.splits)
  then have "\<not> isOutsideWorkspace (relative_name base r)"
    using assms(2) by (simp add: leaves_def Let_def)
  then obtain q where q: "r = base @ q"
    using inside_below by blast
  have "list_all plain_name (base @ q)"
    using assms(1) r(2) q unfolding plain_disk_def by blast
  then have n: "relative_name base r = join_path q" "list_all plain_name q"
    using q by (simp_all add: relative_name_below)
  show ?thesis
    using f r(3) n found_below [OF assms(1) n(2), of f base] q by auto
qed

text \<open>C26: 
  On a disk whose names hold no backslash, every file of an expansion lies below the root, by a
  path of plain names without \<open>..\<close>, is analyzable and is not under a skipped root, whatever links
  the paths follow.
\<close>

theorem scope_confined:
  assumes "plain_disk d" and "expandExplicitPaths d cwd paths maxFiles maxEntries = Inr fs" and "f \<in> set fs"
  shows "\<exists>q. f = join_path q \<and> list_all plain_name q \<and> eligibleScopePath f"
proof -
  obtain base where base: "dk_real d cwd = Inr base"
    and w: "\<exists>w. expand_paths d base maxFiles maxEntries paths new_walk = Inr w \<and> set (wk_files w) = set fs"
    using assms(2) by (auto simp: expandExplicitPaths_def try_bind_Inr_iff boundedSortedFiles_def Let_def split: if_splits)
  then obtain p where "p \<in> set paths" "f \<in> selected d base p" "\<not> leaves d base p"
    using assms(3) expand_paths_exact [of d base maxFiles maxEntries paths new_walk] by (auto simp: new_walk_def)
  then obtain q where q: "f = join_path q" "list_all plain_name q" "analyzablePath f" "\<not> isSkippedRoot f"
    using selected_below [OF assms(1)] by blast
  then show ?thesis
    using normalize_plain [OF join_path_backslash [OF q(2)]] by (auto simp: eligibleScopePath_def)
qed


text \<open>A disk with one directory, \<open>/w\<close>, that holds one file.\<close>

definition demo_disk :: "string \<Rightarrow> disk" where
  "demo_disk n =
     \<lparr>dk_list = (\<lambda>p. if p = [''w''] then ([(n, File_entry)], None) else ([], Some ''ENOTDIR'')),
      dk_stat = (\<lambda>p. if p = [''w''] then Inr (Some Directory_entry) else Inr None), dk_real = (\<lambda>p. Inr [''w''])\<rparr>"

lemma demo_expansion: "expandExplicitPaths (demo_disk ''a.ts'') [''w''] [''.''] 10 10 = Inr [''a.ts'']"
  by code_simp

lemma scope_demo_plain: "plain_disk (demo_disk ''a.ts'')"
  by (auto simp: plain_disk_def demo_disk_def plain_name_def split: if_splits)

theorem expand_exact_witness:
  "\<exists>base. dk_real (demo_disk ''a.ts'') [''w''] = Inr base \<and> set [''a.ts''] = (\<Union>p\<in>set [''.'']. selected (demo_disk ''a.ts'') base p) \<and>
    sorted [''a.ts''] \<and> distinct [''a.ts''] \<and> length [''a.ts''] \<le> 10 \<and> (\<forall>p\<in>set [''.'']. \<not> leaves (demo_disk ''a.ts'') base p)"
  by (rule expand_exact [OF demo_expansion])

theorem scope_confined_witness: "\<exists>q. ''a.ts'' = join_path q \<and> list_all plain_name q \<and> eligibleScopePath ''a.ts''"
  by (rule scope_confined [OF scope_demo_plain demo_expansion]) simp

text \<open>
  A backslash is an ordinary character of a POSIX file name. A file of the root with the name
  \<open>..\x.ts\<close> enters the scope as \<open>../x.ts\<close>, a path outside the root.
\<close>

lemma backslash_name_leaves_workspace:
  "expandExplicitPaths (demo_disk (''..'' @ CHR 0x5C # ''x.ts'')) [''w''] [''.''] 10 10 = Inr [''../x.ts''] \<and>
   isOutsideWorkspace ''../x.ts''"
  by code_simp


section \<open>The output of git diff\<close>

text \<open>
  The form of \<open>git diff --unified=0\<close>: for each file the lines before its new name, the line of its
  new name, and its hunks, each a header and the changed lines. Only the ranges are kept.
\<close>

record diff_hunk =
  dh_old :: "nat \<times> nat option"
  dh_new :: "nat \<times> nat option"
  dh_heading :: string
  dh_body :: "string list"

record diff_file =
  df_before :: "string list"
  df_path :: string
  df_hunks :: "diff_hunk list"

definition render_range :: "nat \<times> nat option \<Rightarrow> string" where
  "render_range r = show_nat (fst r) @ (case snd r of None \<Rightarrow> '''' | Some n \<Rightarrow> CHR '','' # show_nat n)"

definition render_hunk :: "diff_hunk \<Rightarrow> string list" where
  "render_hunk h =
     (''@@ -'' @ render_range (dh_old h) @ '' +'' @ render_range (dh_new h) @ '' @@'' @ dh_heading h) # dh_body h"

definition render_file :: "diff_file \<Rightarrow> string list" where
  "render_file f = df_before f @ [''+++ b/'' @ df_path f] @ concat (map render_hunk (df_hunks f))"

definition render_diff :: "diff_file list \<Rightarrow> string" where
  "render_diff fs = concat (map (\<lambda>l. l @ [CHR 0x0A]) (concat (map render_file fs)))"

definition new_range :: "diff_hunk \<Rightarrow> hunk" where
  "new_range h =
     (let a = int (fst (dh_new h)); n = (case snd (dh_new h) of None \<Rightarrow> 1 | Some n \<Rightarrow> int n)
      in \<lparr>hk_start = a, hk_end = max a (a + n - 1)\<rparr>)"

text \<open>
  A line that is neither the name of a file nor the header of a hunk. Of the changed lines, which
  start with a sign, only an added line that itself starts with \<open>++ b/\<close> is not quiet.
\<close>

definition quiet_line :: "string \<Rightarrow> bool" where
  "quiet_line l \<longleftrightarrow> CHR 0x0A \<notin> set l \<and> \<not> starts_with ''+++ b/'' l \<and> \<not> starts_with ''@@ -'' l"

definition diff_ok :: "diff_file list \<Rightarrow> bool" where
  "diff_ok fs \<longleftrightarrow>
     distinct (map df_path fs) \<and>
     (\<forall>f\<in>set fs. list_all quiet_line (df_before f) \<and> CHR 0x0A \<notin> set (df_path f) \<and>
        (\<forall>h\<in>set (df_hunks f). CHR 0x0A \<notin> set (dh_heading h) \<and> list_all quiet_line (dh_body h)))"

lemma split_on_lines:
  assumes "list_all (\<lambda>l. CHR 0x0A \<notin> set l) ls"
  shows "split_on (CHR 0x0A) [] (concat (map (\<lambda>l. l @ [CHR 0x0A]) ls)) = ls @ ['''']"
proof -
  have step: "CHR 0x0A \<notin> set l \<Longrightarrow> split_on (CHR 0x0A) acc (l @ CHR 0x0A # s) = (acc @ l) # split_on (CHR 0x0A) [] s" for l acc s
    by (induction l arbitrary: acc) auto
  show ?thesis
    using assms by (induction ls) (simp_all add: step)
qed

lemma digits_show:
  assumes "r = [] \<or> \<not> is_digit (hd r)"
  shows "digits (show_nat n @ r) = Some (show_nat n, r)"
proof -
  have "takeWhile is_digit r = []" "dropWhile is_digit r = r"
    using assms by (cases r; simp)+
  then show ?thesis
    using show_nat_digits [of n] by (simp add: digits_def takeWhile_append2 dropWhile_append2)
qed

lemma range_matched:
  assumes "r = CHR '' '' # t"
  obtains u where "digits (render_range x @ r) = Some (show_nat (fst x), u)" "optional_count u = (map_option show_nat (snd x), r)"
proof -
  have d: "\<not> is_digit (CHR '' '')" "\<not> is_digit (CHR '','')"
    by (simp_all add: is_digit_def)
  show thesis
    using d assms that by (cases "snd x") (simp_all add: render_range_def digits_show optional_count_def)
qed

lemma expect_append [simp]: "expect w (w @ s) = Some s"
  by (simp add: expect_def starts_with_def)

lemma header_matched:
  "match_header (''@@ -'' @ render_range a @ '' +'' @ render_range b @ '' @@'' @ h) =
     Some (show_nat (fst b), map_option show_nat (snd b))"
proof -
  obtain u where u: "digits (render_range a @ '' +'' @ render_range b @ '' @@'' @ h) = Some (show_nat (fst a), u)"
    "optional_count u = (map_option show_nat (snd a), '' +'' @ render_range b @ '' @@'' @ h)"
    by (rule range_matched [of "'' +'' @ render_range b @ '' @@'' @ h" "CHR ''+'' # render_range b @ '' @@'' @ h" a]) simp_all
  obtain v where v: "digits (render_range b @ '' @@'' @ h) = Some (show_nat (fst b), v)"
    "optional_count v = (map_option show_nat (snd b), '' @@'' @ h)"
    by (rule range_matched [of "'' @@'' @ h" "''@@'' @ h" b]) simp_all
  show ?thesis
    unfolding match_header_def expect_append Option.bind.bind_lunit u prod.case snd_conv v fst_conv ..
qed


lemma quiet_line_skipped: "quiet_line l \<Longrightarrow> hunk_line l st = st"
proof -
  assume "quiet_line l"
  then have "\<not> starts_with ''+++ b/'' l" "match_header l = None"
    by (simp_all add: quiet_line_def match_header_def expect_def)
  then show ?thesis
    by (simp add: hunk_line_def split: option.split)
qed

lemma quiet_lines_skipped: "list_all quiet_line ls \<Longrightarrow> fold hunk_line ls st = st"
  by (induction ls) (simp_all add: quiet_line_skipped)

lemma hunk_read:
  assumes "list_all quiet_line (dh_body h)" and "jm_get m f = Some hs"
  shows "fold hunk_line (render_hunk h) (Some f, m) = (Some f, jm_set f (hs @ [new_range h]) m)"
proof -
  let ?l = "''@@ -'' @ render_range (dh_old h) @ '' +'' @ render_range (dh_new h) @ '' @@'' @ dh_heading h"
  have "\<not> starts_with ''+++ b/'' ?l"
    by (simp add: starts_with_def)
  moreover have "hunk_range (show_nat (fst (dh_new h))) (map_option show_nat (snd (dh_new h))) = new_range h"
    by (simp add: hunk_range_def new_range_def digits_value_show_nat split: option.split)
  ultimately have "hunk_line ?l (Some f, m) = (Some f, jm_set f (hs @ [new_range h]) m)"
    using assms(2) unfolding hunk_line_def header_matched by simp
  then show ?thesis
    unfolding render_hunk_def using quiet_lines_skipped [OF assms(1)] by (simp del: append_Cons)
qed

lemma jm_set_twice: "jm_set k v (jm_set k u m) = jm_set k v m"
  by (induction k u m rule: jm_set.induct) auto

lemma jm_set_same: "jm_get m k = Some v \<Longrightarrow> jm_set k v m = m"
  by (induction k v m rule: jm_set.induct) (auto simp: jm_get_def split: if_splits)

lemma hunks_read:
  "\<forall>h\<in>set gs. list_all quiet_line (dh_body h) \<Longrightarrow> jm_get m f = Some hs \<Longrightarrow>
    fold hunk_line (concat (map render_hunk gs)) (Some f, m) = (Some f, jm_set f (hs @ map new_range gs) m)"
proof (induction gs arbitrary: m hs)
  case (Cons g gs)
  then show ?case
    by (simp add: hunk_read Cons.IH [of "jm_set f (hs @ [new_range g]) m" "hs @ [new_range g]"] jm_get_set jm_set_twice)
qed (simp add: jm_set_same)

lemma file_read:
  assumes "list_all quiet_line (df_before f)" and "\<forall>h\<in>set (df_hunks f). list_all quiet_line (dh_body h)"
    and "df_path f \<notin> set (map fst m)"
  shows "fold hunk_line (render_file f) (g, m) = (Some (df_path f), m @ [(df_path f, map new_range (df_hunks f))])"
proof -
  let ?m = "m @ [(df_path f, [])]"
  have none: "jm_get m (df_path f) = None"
    using assms(3) by (simp add: jm_get_def map_of_eq_None_iff)
  then have "jm_set (df_path f) [] m = ?m"
    by (rule jm_set_append)
  moreover have "match_header (''+++ b/'' @ df_path f) = None"
    by (simp add: match_header_def expect_def starts_with_def)
  ultimately have name: "hunk_line (''+++ b/'' @ df_path f) (g, m) = (Some (df_path f), ?m)"
    using none by (simp add: hunk_line_def starts_with_def Let_def jm_has_get split: option.split)
  have get: "jm_get ?m (df_path f) = Some []"
    using none by (simp add: jm_get_def map_add_def)
  have "jm_set (df_path f) (map new_range (df_hunks f)) ?m = m @ [(df_path f, map new_range (df_hunks f))]"
    using none jm_set_append jm_set_twice \<open>jm_set (df_path f) [] m = ?m\<close> by metis
  then show ?thesis
    unfolding render_file_def fold_append comp_def quiet_lines_skipped [OF assms(1)]
    by (simp add: name [simplified] hunks_read [OF assms(2) get])
qed

lemma range_one_line: "CHR 0x0A \<notin> set (render_range x)"
proof -
  have "CHR 0x0A \<notin> set (show_nat n)" for n
    using show_nat_digits [of n] by (auto simp: is_digit_def)
  then show ?thesis
    by (simp add: render_range_def split: option.split)
qed

text \<open>
  Reading the output of \<open>git diff --unified=0\<close> gives every changed file, in order, with the
  ranges its hunks have in the new version, for all numbers, counts, headings and changed lines,
  as long as no changed line looks like the name of a file.
\<close>

theorem unified_hunks_read:
  assumes "diff_ok fs"
  shows "parseUnifiedHunks (render_diff fs) = map (\<lambda>f. (df_path f, map new_range (df_hunks f))) fs"
proof -
  have one: "list_all (\<lambda>l. CHR 0x0A \<notin> set l) (render_file f)" if "f \<in> set fs" for f
    using assms that by (auto simp: diff_ok_def render_file_def render_hunk_def list_all_iff quiet_line_def range_one_line)
  have "fold hunk_line (concat (map render_file fs)) (g, m) =
      (if fs = [] then g else Some (df_path (last fs)), m @ map (\<lambda>f. (df_path f, map new_range (df_hunks f))) fs)"
    if "distinct (map fst m @ map df_path fs)" "\<forall>f\<in>set fs. list_all quiet_line (df_before f) \<and>
      (\<forall>h\<in>set (df_hunks f). list_all quiet_line (dh_body h))" for g m
    using that
  proof (induction fs arbitrary: g m)
    case (Cons f fs)
    then have "fold hunk_line (render_file f) (g, m) = (Some (df_path f), m @ [(df_path f, map new_range (df_hunks f))])"
      by (intro file_read) auto
    then show ?case
      using Cons.prems Cons.IH [of "m @ [(df_path f, map new_range (df_hunks f))]" "Some (df_path f)"] by simp
  qed simp
  from this [of "[]"] have "snd (fold hunk_line (concat (map render_file fs)) (None, [])) =
      map (\<lambda>f. (df_path f, map new_range (df_hunks f))) fs"
    using assms by (simp add: diff_ok_def)
  moreover have "hunk_line '''' st = st" for st
    by (rule quiet_line_skipped) (simp add: quiet_line_def starts_with_def)
  ultimately show ?thesis
    using one by (simp add: parseUnifiedHunks_def render_diff_def split_on_lines list_all_iff)
qed


definition demo_diff :: "diff_file list" where
  "demo_diff =
     [\<lparr>df_before = [''--- a/x.ts''], df_path = ''x.ts'',
       df_hunks = [\<lparr>dh_old = (3, None), dh_new = (4, Some 2), dh_heading = '' f'', dh_body = [''-a'', ''+b'', ''+c'']\<rparr>]\<rparr>]"

theorem unified_hunks_read_witness:
  "parseUnifiedHunks (render_diff demo_diff) = [(''x.ts'', [\<lparr>hk_start = 4, hk_end = 5\<rparr>])]"
proof -
  have "diff_ok demo_diff"
    by (simp add: diff_ok_def demo_diff_def quiet_line_def starts_with_def)
  from unified_hunks_read [OF this] show ?thesis
    by (simp add: demo_diff_def new_range_def)
qed

text \<open>
  Two ways for a hunk to be counted for another file: an added line that starts with \<open>++ b/\<close>, and
  a file with a name that git quotes, whose line does not start with \<open>+++ b/\<close>.
\<close>

lemma added_line_taken_for_file:
  "parseUnifiedHunks (concat (map (\<lambda>l. l @ [CHR 0x0A])
     [''+++ b/a.ts'', ''@@ -1 +1 @@'', ''+++ b/x.ts'', ''@@ -9 +9 @@'', ''+y''])) =
   [(''a.ts'', [\<lparr>hk_start = 1, hk_end = 1\<rparr>]), (''x.ts'', [\<lparr>hk_start = 9, hk_end = 9\<rparr>])]"
  by code_simp

lemma quoted_name_counted_for_previous:
  "parseUnifiedHunks (concat (map (\<lambda>l. l @ [CHR 0x0A])
     [''+++ b/a.ts'', ''@@ -1 +1 @@'', ''+x'', ''+++ '' @ CHR 0x22 # ''b/q.ts'' @ [CHR 0x22], ''@@ -9 +9 @@'', ''+y''])) =
   [(''a.ts'', [\<lparr>hk_start = 1, hk_end = 1\<rparr>, \<lparr>hk_start = 9, hk_end = 9\<rparr>])]"
  by code_simp

section \<open>The scope of a diff\<close>

lemma hunk_line_keys: "jm_ok (snd st) \<Longrightarrow> jm_ok (snd (hunk_line l st))"
  by (auto simp: hunk_line_def Let_def jm_ok_set split: option.split)

lemma parsed_hunks_ok: "jm_ok (parseUnifiedHunks diff)"
proof -
  have "jm_ok (snd st) \<Longrightarrow> jm_ok (snd (fold hunk_line ls st))" for ls st
    by (induction ls arbitrary: st) (simp_all add: hunk_line_keys)
  then show ?thesis
    by (simp add: parseUnifiedHunks_def jm_ok_def)
qed

lemma bounded_hunks_Inr: "bounded_hunks n m = Inr m' \<longleftrightarrow> m' = m \<and> length m \<le> n"
  by (auto simp: bounded_hunks_def)

lemma add_changed_exact:
  "add_changed n rs m = Inr m' \<Longrightarrow> distinct (map fst rs) \<Longrightarrow> (\<forall>k\<in>set (map fst rs). jm_get m k = None) \<Longrightarrow> jm_ok m \<Longrightarrow>
    jm_ok m' \<and> (\<forall>k. jm_get m' k = (if eligibleScopePath k \<and> jm_get rs k \<noteq> None then jm_get rs k else jm_get m k))"
proof (induction n rs m rule: add_changed.induct)
  case (2 n p ranges rest m)
  show ?case
  proof (cases "eligibleScopePath p")
    case True
    have none: "jm_get m p = None" "jm_get rest p = None"
      using "2.prems"(2,3) by (simp_all add: jm_get_def map_of_eq_None_iff)
    let ?m = "jm_set p ranges m"
    have "add_changed n rest ?m = Inr m'" "bounded_hunks n ?m = Inr ?m"
      using "2.prems"(1) True none by (auto simp: try_bind_Inr_iff bounded_hunks_Inr)
    moreover have "\<forall>k\<in>set (map fst rest). jm_get ?m k = None"
      using "2.prems"(2,3) by (auto simp: jm_get_set)
    ultimately show ?thesis
      using "2.IH"(2) [of ?m] True none "2.prems"(2,4)
      by (auto simp: jm_ok_set jm_get_set) (auto simp: jm_get_def)
  next
    case False
    then show ?thesis
      using 2 by (auto simp: jm_get_def)
  qed
qed (simp add: jm_get_def)

lemma add_untracked_exact:
  "add_untracked n ps m = Inr m' \<Longrightarrow> jm_ok m \<Longrightarrow>
    jm_ok m' \<and> (\<forall>k. jm_get m' k = (if k \<in> normalizeWorkspacePath ` set ps then Some [whole_file] else jm_get m k))"
proof (induction n ps m rule: add_untracked.induct)
  case (2 n p ps m)
  let ?m = "jm_set (normalizeWorkspacePath p) [whole_file] m"
  have "bounded_hunks n ?m = Inr ?m" "add_untracked n ps ?m = Inr m'"
    using "2.prems"(1) by (auto simp: try_bind_Inr_iff bounded_hunks_Inr)
  then show ?case
    using "2.IH" [of ?m] "2.prems"(2) by (auto simp: jm_ok_set jm_get_set)
qed simp


text \<open>
  What a diff scope returns: git was asked for the base, for the changes since it and for the
  untracked files; the files are the eligible ones among both, sorted, without repetition and
  within the limit; an untracked file counts as a whole, a changed one with its hunks.
\<close>

theorem diff_scope_exact:
  assumes "diff_scope git ref maxFiles = Inr s"
  shows "\<exists>base chunk others.
    git [''merge-base'', (case ref of None \<Rightarrow> ''main'' | Some r \<Rightarrow> r), ''HEAD''] = Inr base \<and>
    git [''diff'', ''--unified=0'', trim_string base] = Inr chunk \<and>
    git [''ls-files'', ''--others'', ''--exclude-standard''] = Inr others \<and>
    (let changed = parseUnifiedHunks chunk;
         untracked = normalizeWorkspacePath ` {p \<in> set (split_on (CHR 0x0A) [] (trim_string others)). eligibleScopePath p}
     in set (sc_files s) = {p \<in> set (jm_keys changed). eligibleScopePath p} \<union> untracked \<and>
        sorted (sc_files s) \<and> distinct (sc_files s) \<and> length (sc_files s) \<le> maxFiles \<and>
        (\<forall>p. jm_get (sc_hunks s) p =
          (if p \<in> untracked then Some [whole_file] else if eligibleScopePath p then jm_get changed p else None)))"
proof -
  have run: "run_git git args = Inr out \<longleftrightarrow> git args = Inr out" for args out
    by (simp add: run_git_def split: sum.split)
  obtain base chunk others hunks all fs where git:
    "git [''merge-base'', (case ref of None \<Rightarrow> ''main'' | Some r \<Rightarrow> r), ''HEAD''] = Inr base"
    "git [''diff'', ''--unified=0'', trim_string base] = Inr chunk"
    "git [''ls-files'', ''--others'', ''--exclude-standard''] = Inr others"
    and changed: "add_changed maxFiles (parseUnifiedHunks chunk) [] = Inr hunks"
    and whole: "add_untracked maxFiles (filter eligibleScopePath (split_on (CHR 0x0A) [] (trim_string others))) hunks = Inr all"
    and fs: "boundedSortedFiles (jm_keys all) maxFiles = Inr fs" "s = \<lparr>sc_mode = ''diff'', sc_files = fs, sc_hunks = all\<rparr>"
    using assms unfolding diff_scope_def try_bind_Inr_iff run by blast
  let ?untracked = "normalizeWorkspacePath ` {p \<in> set (split_on (CHR 0x0A) [] (trim_string others)). eligibleScopePath p}"
  have empty: "jm_get [] k = None" for k :: string
    by (simp add: jm_get_def)
  have 1: "jm_ok hunks" "\<forall>k. jm_get hunks k = (if eligibleScopePath k then jm_get (parseUnifiedHunks chunk) k else None)"
    using add_changed_exact [OF changed] parsed_hunks_ok [of chunk] by (auto simp: empty jm_ok_def)
  have get: "jm_get all p = (if p \<in> ?untracked then Some [whole_file] else
      if eligibleScopePath p then jm_get (parseUnifiedHunks chunk) p else None)" for p
    using add_untracked_exact [OF whole 1(1)] 1(2) by auto
  have "set (jm_keys all) = {p \<in> set (jm_keys (parseUnifiedHunks chunk)). eligibleScopePath p} \<union> ?untracked"
    by (auto simp: jm.keys_get get split: if_splits)
  moreover have "set fs = set (jm_keys all)" "sorted fs" "distinct fs" "length fs \<le> maxFiles"
    using fs(1) by (auto simp: boundedSortedFiles_def Let_def split: if_splits)
  ultimately show ?thesis
    using git get fs(2) by (auto simp: Let_def)
qed

definition demo_git :: git where
  "demo_git args =
     (case args of
        c # _ \<Rightarrow> (if c = ''merge-base'' then Inr ''abc'' else if c = ''diff'' then Inr (render_diff demo_diff) else Inr ''n.ts'')
      | [] \<Rightarrow> Inl ''usage'')"

lemma demo_diff_scope:
  "diff_scope demo_git None 10 =
     Inr \<lparr>sc_mode = ''diff'', sc_files = [''n.ts'', ''x.ts''],
       sc_hunks = [(''x.ts'', [\<lparr>hk_start = 4, hk_end = 5\<rparr>]), (''n.ts'', [whole_file])]\<rparr>"
  by code_simp

theorem diff_scope_exact_witness:
  "\<exists>base chunk others. demo_git [''merge-base'', ''main'', ''HEAD''] = Inr base \<and>
     demo_git [''diff'', ''--unified=0'', trim_string base] = Inr chunk \<and>
     demo_git [''ls-files'', ''--others'', ''--exclude-standard''] = Inr others"
  using diff_scope_exact [OF demo_diff_scope] by auto

end
