(* ===== verification/Notes_Domain.thy ===== *)
theory Notes_Domain
  imports Json Js_Strings
begin

text \<open>
  The records and errors of the notes extension (\<open>extensions/notes/domain.ts\<close>), and from
  \<open>collection-policy.ts\<close> what has to do with places: dates, the paths of dated notes, selections,
  targets of projects and of the wiki, continuation cursors and pages. \<open>num\<close> prints the numbers
  in JSON, \<open>collate\<close> is \<open>localeCompare\<close>.
\<close>

section \<open>Limits and records (domain.ts)\<close>

definition MAX_NOTE_BYTES :: nat where "MAX_NOTE_BYTES = 1048576"
definition MAX_NOTE_COUNT :: nat where "MAX_NOTE_COUNT = 10000"
definition MAX_INDEX_BYTES :: nat where "MAX_INDEX_BYTES = 16384"
definition MAX_INDEX_ENTRIES :: nat where "MAX_INDEX_ENTRIES = 200"
definition MAX_SEARCH_QUERY_LENGTH :: nat where "MAX_SEARCH_QUERY_LENGTH = 1000"
definition MAX_SEARCH_RESULTS :: nat where "MAX_SEARCH_RESULTS = 100"
definition MAX_LIST_CURSOR_LENGTH :: nat where "MAX_LIST_CURSOR_LENGTH = 16384"
definition MAX_REVISION_LENGTH :: nat where "MAX_REVISION_LENGTH = 256"

datatype notes_code =
    Invalid_path | Invalid_revision | Not_found | Not_a_note | Path_escape | Ambiguous_edit | Missing_edit | Conflict
  | Unsupported_reference | Invalid_provider | Duplicate_provider | Provider_unavailable | Resource_limit | Io_failure

text \<open>What is thrown: a \<open>NotesProviderError\<close>, or a plain \<open>Error\<close>.\<close>

datatype notes_error = Provider_error notes_code string | Plain_error string

record note_entry =
  ne_path :: string
  ne_revision :: "string option"
  ne_size :: "int option"
  ne_modifiedAt :: "jsnumber option"

record note_document =
  nd_path :: string
  nd_content :: string
  nd_revision :: string
  nd_size :: "int option"
  nd_modifiedAt :: "jsnumber option"

record search_result =
  se_path :: string
  se_revision :: "string option"
  se_size :: "int option"
  se_modifiedAt :: "jsnumber option"
  se_title :: "string option"
  se_snippet :: "string option"
  se_score :: "jsnumber option"

record exact_edit =
  ee_oldText :: string
  ee_newText :: string

section \<open>Limits of collections\<close>

definition DEFAULT_COLLECTION_LIMIT :: nat where "DEFAULT_COLLECTION_LIMIT = 20"
definition MAX_COLLECTION_LIMIT :: nat where "MAX_COLLECTION_LIMIT = 200"
definition MAX_COLLECTION_RESULT_BYTES :: nat where "MAX_COLLECTION_RESULT_BYTES = 32768"

datatype collection = Inbox | Projects | Worklog | Wiki

definition collection_name :: "collection \<Rightarrow> string" where
  "collection_name c = (case c of Inbox \<Rightarrow> ''inbox'' | Projects \<Rightarrow> ''projects'' | Worklog \<Rightarrow> ''worklog'' | Wiki \<Rightarrow> ''wiki'')"

definition invalidSelector :: "string \<Rightarrow> notes_error" where
  "invalidSelector message = Provider_error Invalid_path message"

section \<open>Dates\<close>

record local_time =
  lt_year :: nat
  lt_month :: nat
  lt_day :: nat

definition pad_start :: "nat \<Rightarrow> string \<Rightarrow> string" where
  "pad_start n s = replicate (n - length s) (CHR ''0'') @ s"

text \<open>\<open>lt_month\<close> counts from 0, as \<open>getMonth\<close> does.\<close>

definition localDate :: "local_time \<Rightarrow> string" where
  "localDate now =
     pad_start 4 (show_nat (lt_year now)) @ ''-'' @ pad_start 2 (show_nat (lt_month now + 1)) @ ''-'' @
     pad_start 2 (show_nat (lt_day now))"

definition all_digits :: "nat \<Rightarrow> string \<Rightarrow> bool" where
  "all_digits n s = (length s = n \<and> list_all is_digit s)"

text \<open>The groups of \<open>ISO_DATE\<close>.\<close>

definition match_iso_date :: "string \<Rightarrow> (string \<times> string \<times> string) option" where
  "match_iso_date s =
     (case split_on (CHR ''-'') [] s of
        [y, m, d] \<Rightarrow> (if all_digits 4 y \<and> all_digits 2 m \<and> all_digits 2 d then Some (y, m, d) else None)
      | _ \<Rightarrow> None)"

definition days_in_month :: "int \<Rightarrow> int list" where
  "days_in_month year =
     (let leap = (year mod 4 = 0 \<and> (year mod 100 \<noteq> 0 \<or> year mod 400 = 0))
      in [31, (if leap then 29 else 28), 31, 30, 31, 30, 31, 31, 30, 31, 30, 31])"

definition requireIsoDate :: "string \<Rightarrow> notes_error + string" where
  "requireIsoDate v =
     (case match_iso_date v of
        None \<Rightarrow> Inl (invalidSelector (''Invalid ISO date: '' @ v))
      | Some (y, m, d) \<Rightarrow>
          (let year = digits_value y; month = digits_value m; day = digits_value d in
           if month \<le> 0 \<or> month > 12 \<or> day \<le> 0 \<or> day > days_in_month year ! nat (month - 1)
           then Inl (invalidSelector (''Invalid ISO date: '' @ v)) else Inr v))"

section \<open>The paths of dated notes\<close>

definition inboxPath :: "string \<Rightarrow> notes_error + string" where
  "inboxPath date =
     try_bind (requireIsoDate date) (\<lambda>d.
       let p = split_on (CHR ''-'') [] d in Inr (''inbox/'' @ p ! 0 @ p ! 1 @ p ! 2 @ ''.md''))"

definition recordPath :: "string \<Rightarrow> notes_error + string" where
  "recordPath date =
     try_bind (requireIsoDate date) (\<lambda>d.
       let p = split_on (CHR ''-'') [] d in Inr (''records/'' @ p ! 0 @ ''/'' @ p ! 1 @ ''/'' @ p ! 2 @ ''.md''))"

definition match_inbox_path :: "string \<Rightarrow> (string \<times> string \<times> string) option" where
  "match_inbox_path p =
     (if starts_with ''inbox/'' p \<and> ends_with ''.md'' p \<and> length p = 17 \<and> all_digits 8 (take 8 (drop 6 p))
      then Some (take 4 (drop 6 p), take 2 (drop 10 p), take 2 (drop 12 p)) else None)"

definition match_record_path :: "string \<Rightarrow> (string \<times> string \<times> string) option" where
  "match_record_path p =
     (if starts_with ''records/'' p \<and> ends_with ''.md'' p \<and> length p = 21 \<and> all_digits 4 (take 4 (drop 8 p)) \<and>
         p ! 12 = CHR ''/'' \<and> all_digits 2 (take 2 (drop 13 p)) \<and> p ! 15 = CHR ''/'' \<and> all_digits 2 (take 2 (drop 16 p))
      then Some (take 4 (drop 8 p), take 2 (drop 13 p), take 2 (drop 16 p)) else None)"

definition dateFromPath :: "(string \<times> string \<times> string) option \<Rightarrow> string option" where
  "dateFromPath m =
     (case m of
        None \<Rightarrow> None
      | Some (y, mo, d) \<Rightarrow> (case requireIsoDate (y @ ''-'' @ mo @ ''-'' @ d) of Inl _ \<Rightarrow> None | Inr v \<Rightarrow> Some v))"

definition inboxDateFromPath :: "string \<Rightarrow> string option" where
  "inboxDateFromPath p = dateFromPath (match_inbox_path p)"

definition recordDateFromPath :: "string \<Rightarrow> string option" where
  "recordDateFromPath p = dateFromPath (match_record_path p)"

section \<open>Selections of the worklog\<close>

record worklog_selection =
  ws_scope :: string
  ws_matches :: "string \<Rightarrow> bool"

definition worklogSelection :: "string option \<Rightarrow> string \<Rightarrow> notes_error + worklog_selection" where
  "worklogSelection selector today =
     (let selected = (case selector of None \<Rightarrow> today | Some s \<Rightarrow> if trim_string s = '''' then today else trim_string s) in
      if selected = ''all'' then Inr \<lparr>ws_scope = ''all'', ws_matches = (\<lambda>_. True)\<rparr>
      else case index_of ''..'' selected of
          Some i \<Rightarrow>
            try_bind (requireIsoDate (take i selected)) (\<lambda>a.
            try_bind (requireIsoDate (drop (i + 2) selected)) (\<lambda>b.
              if a > b then Inl (invalidSelector ''Worklog range start must not be after its end.'')
              else Inr \<lparr>ws_scope = a @ ''..'' @ b, ws_matches = (\<lambda>date. date \<ge> a \<and> date \<le> b)\<rparr>))
        | None \<Rightarrow> try_bind (requireIsoDate selected) (\<lambda>d. Inr \<lparr>ws_scope = d, ws_matches = (\<lambda>date. date = d)\<rparr>))"

section \<open>Targets of projects and of the wiki\<close>

datatype target_label = Project_label | Wiki_label

definition label_name :: "target_label \<Rightarrow> string" where
  "label_name l = (case l of Project_label \<Rightarrow> ''Project'' | Wiki_label \<Rightarrow> ''Wiki'')"

definition show_optional :: "string option \<Rightarrow> string" where
  "show_optional t = (case t of None \<Rightarrow> ''undefined'' | Some s \<Rightarrow> s)"

definition invalidCollectionTarget :: "target_label \<Rightarrow> string option \<Rightarrow> notes_error" where
  "invalidCollectionTarget l target =
     Provider_error Invalid_path (''Invalid '' @ label_name l @ '' target: '' @ show_optional target)"

definition slashes :: "string \<Rightarrow> string" where
  "slashes s = map (\<lambda>c. if c = CHR 0x5C then CHR ''/'' else c) s"

definition normalizeCollectionTarget :: "string option \<Rightarrow> target_label \<Rightarrow> bool \<Rightarrow> notes_error + string" where
  "normalizeCollectionTarget target l allowEmpty =
     (let normalized = slashes (case target of None \<Rightarrow> '''' | Some t \<Rightarrow> t) in
      if (\<not> allowEmpty \<and> normalized = '''') \<or> starts_with ''/'' normalized \<or> (length normalized > 0 \<and> ends_with ''/'' normalized)
      then Inl (invalidCollectionTarget l target)
      else (let segments = (if normalized = '''' then [] else split_on (CHR ''/'') [] normalized) in
        if list_ex (\<lambda>s. s = '''' \<or> s = ''..'' \<or> starts_with ''.'' s) segments
        then Inl (Provider_error Path_escape (label_name l @ '' target escapes '' @
               (case l of Project_label \<Rightarrow> ''projects/'' | Wiki_label \<Rightarrow> ''wiki/'') @ '': '' @ show_optional target))
        else if CHR '':'' \<in> set normalized \<or> list_ex is_control normalized then Inl (invalidCollectionTarget l target)
        else Inr normalized))"

definition requireCollectionPathLength :: "target_label \<Rightarrow> string \<Rightarrow> notes_error + string" where
  "requireCollectionPathLength l p =
     (if length p > 1024 then Inl (Provider_error Invalid_path (label_name l @ '' target is too long.'')) else Inr p)"

text \<open>A target and its path; for the wiki also whether it is a file.\<close>

definition projectTarget :: "string option \<Rightarrow> notes_error + (string \<times> string)" where
  "projectTarget target =
     try_bind (normalizeCollectionTarget target Project_label False) (\<lambda>normalized.
       if \<not> ends_with ''.md'' (toLowerCase normalized) then Inl (invalidCollectionTarget Project_label target)
       else try_bind (requireCollectionPathLength Project_label (''projects/'' @ normalized)) (\<lambda>p. Inr (normalized, p)))"

definition wikiTarget :: "string option \<Rightarrow> notes_error + (string \<times> string \<times> bool)" where
  "wikiTarget target =
     try_bind (normalizeCollectionTarget target Wiki_label True) (\<lambda>normalized.
       let is_file = ends_with ''.md'' (toLowerCase normalized);
           relative = (if normalized = '''' then '''' else normalized @ (if is_file then '''' else ''/''))
       in try_bind (requireCollectionPathLength Wiki_label (''wiki/'' @ relative)) (\<lambda>p. Inr (normalized, p, is_file)))"

record project_item =
  pi_target :: string
  pi_entry :: note_entry

definition projectItems :: "(string \<Rightarrow> string \<Rightarrow> int) \<Rightarrow> note_entry list \<Rightarrow> project_item list" where
  "projectItems collate entries =
     js_sort (\<lambda>l r. collate (pi_target l) (pi_target r))
       (map (\<lambda>e. \<lparr>pi_target = drop 9 (ne_path e), pi_entry = e\<rparr>)
         (filter (\<lambda>e. starts_with ''projects/'' (ne_path e) \<and> length (ne_path e) > 9) entries))"

text \<open>A child of a wiki folder: a folder with its path, or a file with its entry.\<close>

datatype wiki_child = Folder_child string string | File_child string note_entry

fun child_target :: "wiki_child \<Rightarrow> string" where
  "child_target (Folder_child t _) = t"
| "child_target (File_child t _) = t"

fun child_is_folder :: "wiki_child \<Rightarrow> bool" where
  "child_is_folder (Folder_child _ _) = True"
| "child_is_folder (File_child _ _) = False"

definition add_wiki_child :: "string \<Rightarrow> note_entry \<Rightarrow> (string, wiki_child) jsmap \<Rightarrow> (string, wiki_child) jsmap" where
  "add_wiki_child folderTarget e children =
     (let pre = (if folderTarget \<noteq> '''' then ''wiki/'' @ folderTarget @ ''/'' else ''wiki/'');
          relative = drop (length pre) (ne_path e);
          under = (\<lambda>name. if folderTarget \<noteq> '''' then folderTarget @ ''/'' @ name else name)
      in if \<not> starts_with pre (ne_path e) \<or> relative = '''' then children
         else case find_index (\<lambda>c. c = CHR ''/'') relative of
             Some slash \<Rightarrow>
               (let t = under (take slash relative)
                in jm_set (''folder:'' @ t) (Folder_child t (''wiki/'' @ t @ ''/'')) children)
           | None \<Rightarrow> (let t = under relative in jm_set (''file:'' @ t) (File_child t e) children))"

definition compare_children :: "(string \<Rightarrow> string \<Rightarrow> int) \<Rightarrow> wiki_child \<Rightarrow> wiki_child \<Rightarrow> int" where
  "compare_children collate l r =
     (if child_is_folder l = child_is_folder r then collate (child_target l) (child_target r)
      else if child_is_folder l then - 1 else 1)"

definition wikiChildren :: "(string \<Rightarrow> string \<Rightarrow> int) \<Rightarrow> note_entry list \<Rightarrow> string \<Rightarrow> wiki_child list" where
  "wikiChildren collate entries folderTarget =
     js_sort (compare_children collate) (jm_values (fold (add_wiki_child folderTarget) entries []))"

section \<open>Continuation cursors\<close>

record cursor_position =
  cp_offset :: nat
  cp_location :: "string option"

definition encodeCursor :: "(jsnumber \<Rightarrow> string) \<Rightarrow> collection \<Rightarrow> string \<Rightarrow> nat \<Rightarrow> string option \<Rightarrow> string" where
  "encodeCursor num c scope offset location =
     to_base64url (stringify num (JObj
       ([(''v'', js_num 1), (''collection'', JStr (collection_name c)), (''scope'', JStr scope), (''offset'', js_num (int offset))] @
        (case location of None \<Rightarrow> [] | Some l \<Rightarrow> [(''location'', JStr l)]))))"

definition cursor_error :: notes_error where
  "cursor_error = invalidSelector ''Invalid or mismatched notes continuation cursor.''"

definition cursor_payload :: "string \<Rightarrow> (string \<times> jsval) list" where
  "cursor_payload s =
     (case from_base64url s of
        None \<Rightarrow> []
      | Some text_ \<Rightarrow> (case parse_json text_ of Some (JObj ps) \<Rightarrow> ps | _ \<Rightarrow> []))"

definition decodeCursor :: "string option \<Rightarrow> collection \<Rightarrow> string \<Rightarrow> notes_error + cursor_position" where
  "decodeCursor cursor c scope =
     (case cursor of
        None \<Rightarrow> Inr \<lparr>cp_offset = 0, cp_location = None\<rparr>
      | Some s \<Rightarrow>
          (let payload = cursor_payload s in
           if js_prop payload ''v'' \<noteq> js_num 1 \<or> js_prop payload ''collection'' \<noteq> JStr (collection_name c) \<or>
              js_prop payload ''scope'' \<noteq> JStr scope
           then Inl cursor_error
           else case (js_prop payload ''offset'', js_prop payload ''location'') of
               (JNum n, l) \<Rightarrow>
                 (if \<not> isSafeInteger n \<or> js_int n < 0 then Inl cursor_error
                  else case l of
                      JUndefined \<Rightarrow> Inr \<lparr>cp_offset = nat (js_int n), cp_location = None\<rparr>
                    | JStr p \<Rightarrow> Inr \<lparr>cp_offset = nat (js_int n), cp_location = Some p\<rparr>
                    | _ \<Rightarrow> Inl cursor_error)
             | _ \<Rightarrow> Inl cursor_error))"

section \<open>Pages\<close>

text \<open>The loop of \<open>page\<close>: \<open>bytes\<close> is the size of a value in JSON.\<close>

fun page_items :: "('a \<Rightarrow> nat) \<Rightarrow> nat \<Rightarrow> 'a list \<Rightarrow> 'a list \<Rightarrow> nat \<Rightarrow> notes_error + 'a list" where
  "page_items bytes limit [] taken used = Inr taken"
| "page_items bytes limit (v # vs) taken used =
     (if length taken \<ge> limit then Inr taken
      else if bytes v > MAX_COLLECTION_RESULT_BYTES
        then Inl (Provider_error Resource_limit ''One collection item exceeds the result byte limit.'')
      else if taken \<noteq> [] \<and> used + bytes v > MAX_COLLECTION_RESULT_BYTES then Inr taken
      else page_items bytes limit vs (taken @ [v]) (used + bytes v))"

definition page :: "('a \<Rightarrow> nat) \<Rightarrow> 'a list \<Rightarrow> nat \<Rightarrow> nat \<Rightarrow> (nat \<Rightarrow> string) \<Rightarrow> notes_error + ('a list \<times> string option)" where
  "page bytes values limit offset cursorFor =
     try_bind (page_items bytes limit (drop offset values) [] 0) (\<lambda>taken.
       let next = offset + length taken
       in Inr (taken, if next < length values then Some (cursorFor next) else None))"


section \<open>Dates and dated paths\<close>

lemma digits_no: "all_digits n s \<Longrightarrow> \<not> is_digit c \<Longrightarrow> c \<notin> set s"
  by (auto simp: all_digits_def list_all_iff)

lemma not_digits: "\<not> is_digit (CHR ''-'')" "\<not> is_digit (CHR ''/'')"
  by (simp_all add: is_digit_def)

lemma match_iso_date_iff:
  "match_iso_date s = Some (y, m, d) \<longleftrightarrow>
     s = y @ ''-'' @ m @ ''-'' @ d \<and> all_digits 4 y \<and> all_digits 2 m \<and> all_digits 2 d" (is "_ \<longleftrightarrow> ?R")
proof
  assume "match_iso_date s = Some (y, m, d)"
  then have p: "split_on (CHR ''-'') [] s = [y, m, d]" "all_digits 4 y" "all_digits 2 m" "all_digits 2 d"
    by (auto simp: match_iso_date_def split: list.splits if_splits)
  then show ?R
    using join_split [of "CHR ''-''" "[]" s] by simp
next
  assume r: ?R
  then have "split_on (CHR ''-'') [] (join_with ''-'' [y, m, d]) = [y, m, d]"
    by (intro split_join) (auto dest: digits_no [OF _ not_digits(1)])
  then show "match_iso_date s = Some (y, m, d)"
    using r by (simp add: match_iso_date_def)
qed

lemma requireIsoDate_same: "requireIsoDate v = Inr d \<Longrightarrow> d = v \<and> (\<exists>y m e. match_iso_date v = Some (y, m, e))"
  by (auto simp: requireIsoDate_def Let_def split: option.splits if_splits prod.splits)

lemma iso_parts:
  assumes "requireIsoDate v = Inr d"
  obtains y m e where "d = y @ ''-'' @ m @ ''-'' @ e" "v = d" "all_digits 4 y" "all_digits 2 m" "all_digits 2 e"
    "split_on (CHR ''-'') [] d = [y, m, e]"
proof -
  obtain y m e where p: "d = v" "match_iso_date v = Some (y, m, e)"
    using requireIsoDate_same [OF assms] by blast
  then have "split_on (CHR ''-'') [] v = [y, m, e]"
    by (auto simp: match_iso_date_def split: list.splits if_splits)
  then show thesis
    using that p match_iso_date_iff by metis
qed

lemma dateFromPath_iff:
  "dateFromPath m = Some d \<longleftrightarrow> (\<exists>y mo e. m = Some (y, mo, e) \<and> d = y @ ''-'' @ mo @ ''-'' @ e \<and> requireIsoDate d = Inr d)"
  by (auto simp: dateFromPath_def split: option.splits sum.splits dest: requireIsoDate_same)

lemma all_digits_lengths: "all_digits n s \<Longrightarrow> length s = n \<and> list_all is_digit s"
  by (simp add: all_digits_def)

lemma take_parts: "take (a + b + c) t = take a t @ take b (drop a t) @ take c (drop (a + b) t)"
  by (simp only: take_add drop_drop append_assoc add.commute [of b a])

lemma inbox_match:
  "match_inbox_path p = Some (y, m, d) \<longleftrightarrow>
     p = ''inbox/'' @ y @ m @ d @ ''.md'' \<and> all_digits 4 y \<and> all_digits 2 m \<and> all_digits 2 d" (is "?L \<longleftrightarrow> ?R")
proof
  assume l: ?L
  then obtain t where t: "p = ''inbox/'' @ t" "length t = 11" "ends_with ''.md'' p" "all_digits 8 (take 8 t)"
    and parts: "y = take 4 t" "m = take 2 (drop 4 t)" "d = take 2 (drop 6 t)"
    by (auto simp: match_inbox_path_def starts_with_iff split: if_splits)
  have md: "drop 8 t = ''.md''"
    using t(1-3) by (simp add: ends_with_def)
  have eight: "take 8 t = y @ m @ d"
    using take_parts [of 4 2 2 t] by (simp add: parts)
  have "t = (y @ m @ d) @ ''.md''"
    by (metis append_take_drop_id eight md)
  then show ?R
    using t parts eight by (auto simp: all_digits_def)
next
  assume r: ?R
  then show ?L
    by (auto simp: match_inbox_path_def starts_with_iff ends_with_iff all_digits_def) 
qed


lemma record_match:
  "match_record_path p = Some (y, m, d) \<longleftrightarrow>
     p = ''records/'' @ y @ ''/'' @ m @ ''/'' @ d @ ''.md'' \<and> all_digits 4 y \<and> all_digits 2 m \<and> all_digits 2 d" (is "?L \<longleftrightarrow> ?R")
proof
  assume l: ?L
  then obtain t where t: "p = ''records/'' @ t" "length t = 13" "ends_with ''.md'' p" "t ! 4 = CHR ''/''" "t ! 7 = CHR ''/''"
    and parts: "y = take 4 t" "m = take 2 (drop 5 t)" "d = take 2 (drop 8 t)"
    and digits: "all_digits 4 y" "all_digits 2 m" "all_digits 2 d"
    by (auto simp: match_record_path_def starts_with_iff split: if_splits)
  have md: "drop 10 t = ''.md''"
    using t(1-3) by (simp add: ends_with_def)
  have "t = take 4 t @ take 1 (drop 4 t) @ take 2 (drop 5 t) @ take 1 (drop 7 t) @ take 2 (drop 8 t) @ drop 10 t"
    using take_parts [of 4 1 2 t] take_parts [of 7 1 2 t] append_take_drop_id [of 10 t] by simp
  moreover have "take 1 (drop 4 t) = ''/''" "take 1 (drop 7 t) = ''/''"
    using t(2,4,5) by (simp_all add: take_Suc hd_drop_conv_nth)
  ultimately have "t = y @ ''/'' @ m @ ''/'' @ d @ ''.md''"
    using md by (simp add: parts)
  then show ?R
    using t(1) digits by simp
next
  assume r: ?R
  then show ?L
    by (auto simp: match_record_path_def starts_with_iff ends_with_iff all_digits_def nth_append)
qed

lemma dated_path:
  assumes path: "\<And>v d y m e. requireIsoDate v = Inr d \<Longrightarrow> split_on (CHR ''-'') [] d = [y, m, e] \<Longrightarrow> f v = Inr (g y m e)"
    and err: "\<And>v e. requireIsoDate v = Inl e \<Longrightarrow> f v = Inl e"
    and match: "\<And>p y m e. h p = Some (y, m, e) \<longleftrightarrow> p = g y m e \<and> all_digits 4 y \<and> all_digits 2 m \<and> all_digits 2 e"
  shows "dateFromPath (h p) = Some d \<longleftrightarrow> f d = (Inr p :: notes_error + string)"
proof
  assume "dateFromPath (h p) = Some d"
  then obtain y m e where p: "h p = Some (y, m, e)" "d = y @ ''-'' @ m @ ''-'' @ e" "requireIsoDate d = Inr d"
    unfolding dateFromPath_iff by blast
  then have g: "p = g y m e" "match_iso_date d = Some (y, m, e)"
    by (simp_all add: match match_iso_date_iff)
  then have "split_on (CHR ''-'') [] d = [y, m, e]"
    by (auto simp: match_iso_date_def split: list.splits if_splits)
  then show "f d = Inr p"
    using path [OF p(3)] g(1) by simp
next
  assume p: "f d = Inr p"
  then obtain d' where "requireIsoDate d = Inr d'"
    using err by (cases "requireIsoDate d") auto
  then obtain y m e where d: "requireIsoDate d = Inr d" "d = y @ ''-'' @ m @ ''-'' @ e"
    "split_on (CHR ''-'') [] d = [y, m, e]" "all_digits 4 y" "all_digits 2 m" "all_digits 2 e"
    by (metis iso_parts)
  then have "p = g y m e"
    using path [OF d(1,3)] p by simp
  then show "dateFromPath (h p) = Some d"
    using d by (auto simp: dateFromPath_iff match)
qed

text \<open>
  A path is that of a dated note of the inbox, or of the worklog, exactly when it is the path the
  date is given: the two directions are inverse on every date and every path.
\<close>

theorem dated_path_roundtrip:
  "(inboxDateFromPath p = Some d \<longleftrightarrow> inboxPath d = Inr p) \<and> (recordDateFromPath p = Some d \<longleftrightarrow> recordPath d = Inr p)"
proof
  show "inboxDateFromPath p = Some d \<longleftrightarrow> inboxPath d = Inr p"
    unfolding inboxDateFromPath_def
    by (rule dated_path [where g = "\<lambda>y m e. ''inbox/'' @ y @ m @ e @ ''.md''"])
      (auto simp: inboxPath_def Let_def inbox_match)
  show "recordDateFromPath p = Some d \<longleftrightarrow> recordPath d = Inr p"
    unfolding recordDateFromPath_def
    by (rule dated_path [where g = "\<lambda>y m e. ''records/'' @ y @ ''/'' @ m @ ''/'' @ e @ ''.md''"])
      (auto simp: recordPath_def Let_def record_match)
qed


lemma digits_value_pad: "digits_value (pad_start n s) = digits_value s"
proof -
  have "foldl (\<lambda>n c. n * 10 + (of_char c - 48)) 0 (replicate k (CHR ''0'')) = (0 :: int)" for k
    by (induction k) simp_all
  then show ?thesis
    by (simp add: pad_start_def digits_value_def)
qed

lemma length_show_nat: "n < 10 ^ Suc k \<Longrightarrow> length (show_nat n) \<le> Suc k"
proof (induction k arbitrary: n)
  case 0
  then show ?case by (subst show_nat.simps) simp
next
  case (Suc k)
  then have "n div 10 < 10 ^ Suc k"
    by (simp add: less_mult_imp_div_less)
  then show ?case
    using Suc.IH [of "n div 10"] by (subst show_nat.simps) simp
qed

lemma pad_digits: "0 < k \<Longrightarrow> n < 10 ^ k \<Longrightarrow> all_digits k (pad_start k (show_nat n))"
  using length_show_nat [of n "k - 1"] show_nat_digits [of n]
  by (cases k) (auto simp: all_digits_def pad_start_def list_all_iff is_digit_def)

definition calendar_date :: "local_time \<Rightarrow> bool" where
  "calendar_date t \<longleftrightarrow> lt_year t \<le> 9999 \<and> lt_month t < 12 \<and> 1 \<le> lt_day t \<and>
     int (lt_day t) \<le> days_in_month (int (lt_year t)) ! lt_month t"

lemma localDate_iso:
  assumes "calendar_date t"
  shows "requireIsoDate (localDate t) = Inr (localDate t)"
proof -
  have "list_all (\<lambda>n. n \<le> 31) (days_in_month y)" for y
    by (simp add: days_in_month_def Let_def)
  moreover have "length (days_in_month y) = 12" for y
    by (simp add: days_in_month_def Let_def)
  ultimately have "days_in_month (int (lt_year t)) ! lt_month t \<le> 31"
    using assms unfolding list_all_length calendar_date_def by auto
  then have "lt_day t < 100" "lt_month t + 1 < 100" "lt_year t < 10000"
    using assms by (auto simp: calendar_date_def)
  then have "all_digits 4 (pad_start 4 (show_nat (lt_year t)))" "all_digits 2 (pad_start 2 (show_nat (lt_month t + 1)))"
    "all_digits 2 (pad_start 2 (show_nat (lt_day t)))"
    by (simp_all add: pad_digits)
  then have "match_iso_date (localDate t) =
      Some (pad_start 4 (show_nat (lt_year t)), pad_start 2 (show_nat (lt_month t + 1)), pad_start 2 (show_nat (lt_day t)))"
    unfolding match_iso_date_iff by (simp add: localDate_def)
  note match = this
  have "nat (int (lt_month t + 1) - 1) = lt_month t"
    by simp
  then have "\<not> (int (lt_month t + 1) \<le> 0 \<or> int (lt_month t + 1) > 12 \<or> int (lt_day t) \<le> 0 \<or>
      int (lt_day t) > days_in_month (int (lt_year t)) ! nat (int (lt_month t + 1) - 1))"
    using assms unfolding calendar_date_def by auto
  then show ?thesis
    unfolding requireIsoDate_def match option.case prod.case Let_def digits_value_pad digits_value_show_nat by (rule if_not_P)
qed

section \<open>Cursors\<close>

lemma cursor_payload_encoded:
  assumes "plain_numbers num" and "int offset < safe_limit"
  shows "cursor_payload (encodeCursor num c scope offset location) =
    [(''v'', js_num 1), (''collection'', JStr (collection_name c)), (''scope'', JStr scope), (''offset'', js_num (int offset))] @
      (case location of None \<Rightarrow> [] | Some l \<Rightarrow> [(''location'', JStr l)])"
proof -
  have "plain_json (JNum (Finite (of_int 1)))"
    unfolding plain_json.simps safe_limit_def by (intro exI [of _ 1]) simp
  moreover have "plain_json (JNum (Finite (of_int (int offset))))"
    using assms(2) unfolding plain_json.simps by (intro exI [of _ "int offset"]) simp
  ultimately have "plain_json (JObj ([(''v'', js_num 1), (''collection'', JStr (collection_name c)), (''scope'', JStr scope),
      (''offset'', js_num (int offset))] @ (case location of None \<Rightarrow> [] | Some l \<Rightarrow> [(''location'', JStr l)])))"
    by (cases location) (simp_all add: js_num_def del: of_int_1 plain_json.simps(4))
  from parse_stringify [OF assms(1) this] show ?thesis
    unfolding cursor_payload_def encodeCursor_def by simp
qed

lemma collection_name_inj: "collection_name a = collection_name b \<longleftrightarrow> a = b"
  by (cases a; cases b) (simp_all add: collection_name_def)

text \<open>
  A continuation cursor gives back the position it was made for when it is used with the same
  collection and scope, and is refused with every other.
\<close>

theorem cursor_roundtrip:
  assumes "plain_numbers num" and "offset \<le> 9007199254740991"
  shows "decodeCursor (Some (encodeCursor num c scope offset location)) c' scope' =
    (if c' = c \<and> scope' = scope then Inr \<lparr>cp_offset = offset, cp_location = location\<rparr> else Inl cursor_error)"
proof -
  have "int offset < safe_limit"
    using assms(2) by (simp add: safe_limit_def)
  from cursor_payload_encoded [OF assms(1) this] show ?thesis
    using assms(2) is_integer_of_int [of "int offset"] js_int_of_int [of "int offset"]
    by (cases location) (auto simp: decodeCursor_def js_prop_def collection_name_inj isSafeInteger_def js_num_def)
qed

theorem cursor_roundtrip_witness:
  "decodeCursor (Some (encodeCursor (\<lambda>n. show_int (js_int n)) Wiki ''guides'' 0 (Some ''file:guides/a.md''))) Wiki ''guides'' =
    Inr \<lparr>cp_offset = 0, cp_location = Some ''file:guides/a.md''\<rparr>"
proof -
  have "plain_numbers (\<lambda>n. show_int (js_int n))"
    by (simp add: plain_numbers_def)
  from cursor_roundtrip [OF this, of 0] show ?thesis by simp
qed


section \<open>Pages\<close>

lemma page_items_prefix:
  "page_items bytes limit vs taken used = Inr r \<Longrightarrow> \<exists>k. r = taken @ take k vs \<and> length taken + k \<le> max limit (length taken)"
proof (induction bytes limit vs taken used rule: page_items.induct)
  case (2 bytes limit v vs taken used)
  show ?case
  proof (cases "r = taken")
    case False
    then have "page_items bytes limit vs (taken @ [v]) (used + bytes v) = Inr r" "length taken < limit"
      using 2(2) by (auto split: if_splits)
    then obtain k where "r = (taken @ [v]) @ take k vs" "Suc (length taken) + k \<le> max limit (Suc (length taken))"
      using 2 False by (auto split: if_splits)
    then show ?thesis
      using \<open>length taken < limit\<close> by (intro exI [of _ "Suc k"]) auto
  qed (auto intro: exI [of _ 0])
qed (auto intro: exI [of _ 0])

lemma page_items_bytes:
  "page_items bytes limit vs taken used = Inr r \<Longrightarrow> used = sum_list (map bytes taken) \<Longrightarrow> used \<le> MAX_COLLECTION_RESULT_BYTES \<Longrightarrow>
    sum_list (map bytes r) \<le> MAX_COLLECTION_RESULT_BYTES"
  by (induction bytes limit vs taken used rule: page_items.induct) (auto split: if_splits)

lemma page_items_progress:
  "page_items bytes limit (v # vs) [] used = Inr r \<Longrightarrow> 0 < limit \<Longrightarrow> r \<noteq> []"
  by (auto split: if_splits dest!: page_items_prefix)

lemma page_items_returns:
  "\<forall>v\<in>set vs. bytes v \<le> MAX_COLLECTION_RESULT_BYTES \<Longrightarrow> \<exists>r. page_items bytes limit vs taken used = Inr r"
  by (induction bytes limit vs taken used rule: page_items.induct) auto

text \<open>What a page is: a run of values from the offset, not empty while values remain, within the limits.\<close>

lemma page_items_next:
  assumes "page bytes values limit offset cursorFor = Inr (taken, next)" and "0 < limit"
  shows "taken = take (length taken) (drop offset values)" "length taken \<le> limit"
    "sum_list (map bytes taken) \<le> MAX_COLLECTION_RESULT_BYTES"
    "next = (if offset + length taken < length values then Some (cursorFor (offset + length taken)) else None)"
    "offset < length values \<Longrightarrow> taken \<noteq> []"
proof -
  have r: "page_items bytes limit (drop offset values) [] 0 = Inr taken"
    and "next = (if offset + length taken < length values then Some (cursorFor (offset + length taken)) else None)"
    using assms(1) by (auto simp: page_def try_bind_Inr_iff Let_def)
  then show "next = (if offset + length taken < length values then Some (cursorFor (offset + length taken)) else None)"
    by simp
  from page_items_prefix [OF r] obtain k where "taken = take k (drop offset values)" "k \<le> limit"
    by auto
  then show "taken = take (length taken) (drop offset values)" "length taken \<le> limit"
    by (auto simp: min_def)
  show "sum_list (map bytes taken) \<le> MAX_COLLECTION_RESULT_BYTES"
    using page_items_bytes [OF r] by simp
  show "taken \<noteq> []" if "offset < length values"
  proof -
    have "drop offset values \<noteq> []"
      using that by simp
    then obtain v vs where "drop offset values = v # vs"
      unfolding neq_Nil_conv by blast
    then show ?thesis
      using page_items_progress r assms(2) by metis
  qed
qed

lemma page_returns:
  assumes "\<forall>v\<in>set values. bytes v \<le> MAX_COLLECTION_RESULT_BYTES"
  shows "\<exists>r. page bytes values limit offset cursorFor = Inr r"
proof -
  have "\<forall>v\<in>set (drop offset values). bytes v \<le> MAX_COLLECTION_RESULT_BYTES"
    using assms by (auto dest: in_set_dropD)
  from page_items_returns [OF this] obtain r where "page_items bytes limit (drop offset values) [] 0 = Inr r"
    by blast
  then show ?thesis
    by (simp add: page_def Let_def)
qed

section \<open>The interface of a paged read\<close>

text \<open>The client: \<open>n\<close> calls at most, each with the cursor of the one before.\<close>

fun follow_pages :: "(string option \<Rightarrow> 'e + ('a list \<times> string option)) \<Rightarrow> nat \<Rightarrow> string option \<Rightarrow> 'a list option" where
  "follow_pages fetch 0 c = None"
| "follow_pages fetch (Suc n) c =
     (case fetch c of
        Inl _ \<Rightarrow> None
      | Inr (xs, None) \<Rightarrow> Some xs
      | Inr (xs, Some d) \<Rightarrow> map_option (\<lambda>ys. xs @ ys) (follow_pages fetch n (Some d)))"

text \<open>
  What a client that follows continuation cursors relies on. A cursor stands for a position; an answer
  is what lies between its position and the next, and a next position is strictly further. \<open>left\<close>
  is what a position has left, \<open>togo\<close> a bound on the answers from there. The laws are asked of valid
  positions only.
\<close>

locale paged_read =
  fixes fetch :: "string option \<Rightarrow> 'e + ('a list \<times> string option)"
    and cursor :: "'p \<Rightarrow> string option"
    and valid :: "'p \<Rightarrow> bool"
    and left :: "'p \<Rightarrow> 'a list"
    and togo :: "'p \<Rightarrow> nat"
  assumes fetch_step: "valid i \<Longrightarrow>
      fetch (cursor i) = Inr (left i, None) \<or>
      (\<exists>xs j d. fetch (cursor i) = Inr (xs, Some d) \<and> cursor j = Some d \<and> valid j \<and> left i = xs @ left j \<and> togo j < togo i)"
begin

text \<open>Following the cursors reads what is left, each value once and in order, in boundedly many calls.\<close>

lemma follow_all: "valid i \<Longrightarrow> togo i < n \<Longrightarrow> follow_pages fetch n (cursor i) = Some (left i)"
proof (induction n arbitrary: i)
  case (Suc n)
  from fetch_step [OF Suc.prems(1)] show ?case
  proof
    assume "\<exists>xs j d. fetch (cursor i) = Inr (xs, Some d) \<and> cursor j = Some d \<and> valid j \<and> left i = xs @ left j \<and> togo j < togo i"
    then obtain xs j d where "fetch (cursor i) = Inr (xs, Some d)" "cursor j = Some d" "valid j" "left i = xs @ left j" "togo j < togo i"
      by blast
    then show ?case
      using Suc.IH [of j] Suc.prems(2) by simp
  qed simp
qed simp

end

end
