(* ===== verification/Notes_Markdown.thy ===== *)
theory Notes_Markdown
  imports Notes_Domain
begin

text \<open>
  The Markdown of notes in \<open>extensions/notes/collection-policy.ts\<close>: which lines are outside fenced
  code, the bounds of a section, the list items of a section with their details, and appending an
  item. A line is paired with its visibility; the loops over indices are recursions over these pairs.
\<close>

section \<open>Lines\<close>

definition strip_cr :: "string \<Rightarrow> string" where
  "strip_cr l = (if l \<noteq> [] \<and> last l = CHR 0x0D then butlast l else l)"

text \<open>\<open>split(/\r?\n/)\<close>, and \<open>split("\r\n")\<close>.\<close>

definition split_lines :: "string \<Rightarrow> string list" where
  "split_lines s = (let ls = split_on (CHR 0x0A) [] s in map strip_cr (butlast ls) @ [last ls])"

fun split_crlf :: "string \<Rightarrow> string \<Rightarrow> string list" where
  "split_crlf acc [] = [acc]"
| "split_crlf acc [c] = [acc @ [c]]"
| "split_crlf acc (c # d # cs) =
     (if c = CHR 0x0D \<and> d = CHR 0x0A then acc # split_crlf [] cs else split_crlf (acc @ [c]) (d # cs))"

section \<open>Fences\<close>

text \<open>A fence is its character and its length.\<close>

type_synonym fence = "char \<times> nat"

text \<open>The groups of \<open>/^ {0,3}(`{3,}|~{3,})(.*)$/\<close>: the run and what follows it.\<close>

definition fence_run :: "string \<Rightarrow> (fence \<times> string) option" where
  "fence_run line =
     (let spaces = takeWhile (\<lambda>c. c = CHR '' '') line; rest = dropWhile (\<lambda>c. c = CHR '' '') line in
      case rest of
        [] \<Rightarrow> None
      | c # _ \<Rightarrow>
          if length spaces \<le> 3 \<and> (c = CHR 0x60 \<or> c = CHR ''~'')
          then Some ((c, length (takeWhile (\<lambda>d. d = c) rest)), dropWhile (\<lambda>d. d = c) rest) else None)"

definition opening_fence :: "string \<Rightarrow> fence option" where
  "opening_fence line =
     (case fence_run line of
        None \<Rightarrow> None
      | Some ((c, n), info) \<Rightarrow>
          if n \<ge> 3 \<and> no_terminator info \<and> (c = CHR ''~'' \<or> CHR 0x60 \<notin> set info) then Some (c, n) else None)"

definition isClosingFence :: "string \<Rightarrow> fence \<Rightarrow> bool" where
  "isClosingFence line fence =
     (case fence_run line of
        None \<Rightarrow> False
      | Some ((c, n), rest) \<Rightarrow> list_all is_js_space rest \<and> c = fst fence \<and> n \<ge> snd fence)"

text \<open>One line: whether it is visible, and the fence it leaves open.\<close>

definition fence_step :: "fence option \<Rightarrow> string \<Rightarrow> bool \<times> fence option" where
  "fence_step fence line =
     (case fence of
        Some f \<Rightarrow> (False, if isClosingFence line f then None else Some f)
      | None \<Rightarrow> (case opening_fence line of None \<Rightarrow> (True, None) | Some f \<Rightarrow> (False, Some f)))"

fun visible_from :: "fence option \<Rightarrow> string list \<Rightarrow> bool list" where
  "visible_from fence [] = []"
| "visible_from fence (l # ls) = fst (fence_step fence l) # visible_from (snd (fence_step fence l)) ls"

definition visibleMarkdownLines :: "string list \<Rightarrow> bool list" where
  "visibleMarkdownLines ls = visible_from None ls"

type_synonym marked_line = "string \<times> bool"

definition marked :: "string list \<Rightarrow> marked_line list" where
  "marked ls = zip ls (visibleMarkdownLines ls)"

section \<open>Sections\<close>

definition is_header :: "string \<Rightarrow> marked_line \<Rightarrow> bool" where
  "is_header heading l = (snd l \<and> trim_end (fst l) = ''## '' @ heading)"

text \<open>\<open>/^##(?:\s|$)/\<close>\<close>

definition ends_section :: "marked_line \<Rightarrow> bool" where
  "ends_section l =
     (snd l \<and> starts_with ''##'' (fst l) \<and> (case drop 2 (fst l) of [] \<Rightarrow> True | c # _ \<Rightarrow> is_js_space c))"

definition sectionBounds :: "string list \<Rightarrow> string \<Rightarrow> (nat \<times> nat) option" where
  "sectionBounds ls heading =
     (case find_index (is_header heading) (marked ls) of
        None \<Rightarrow> None
      | Some h \<Rightarrow>
          Some (h + 1, case find_index ends_section (drop (h + 1) (marked ls)) of None \<Rightarrow> length ls | Some r \<Rightarrow> h + r + 1))"

section \<open>List items\<close>

datatype item_kind = Note_kind | Followup_kind | Worklog_kind

text \<open>The rest of a line after at least one space, when no line terminator is left: \<open>\s+(.*)$\<close>.\<close>

definition spaced_rest :: "string \<Rightarrow> string option" where
  "spaced_rest s =
     (let t = dropWhile is_js_space s in
      if s \<noteq> [] \<and> is_js_space (hd s) \<and> no_terminator t then Some t else None)"

text \<open>\<open>/^- \[([ xX])\](?:\s+(.*))?$/\<close>: the mark, and the second group if there is one.\<close>

definition match_followup :: "string \<Rightarrow> (char \<times> string option) option" where
  "match_followup line =
     (if starts_with ''- ['' line then
        (case drop 3 line of
           x # c # s \<Rightarrow>
             if x \<in> {CHR '' '', CHR ''x'', CHR ''X''} \<and> c = CHR '']'' then
               (if s = [] then Some (x, None) else map_option (\<lambda>t. (x, Some t)) (spaced_rest s))
             else None
         | _ \<Rightarrow> None)
      else None)"

definition parseListItem :: "string \<Rightarrow> item_kind \<Rightarrow> (string \<times> bool option) option" where
  "parseListItem line kind =
     (let followup = match_followup line in
      if kind = Followup_kind then
        (case followup of
           Some (x, Some t) \<Rightarrow> if trim_string t \<noteq> '''' then Some (trim_string t, Some (lower_char x = CHR ''x'')) else None
         | _ \<Rightarrow> None)
      else if followup \<noteq> None then None
      else (case line of
          c # s \<Rightarrow>
            if c = CHR ''-'' then
              (case spaced_rest s of
                 Some t \<Rightarrow> if trim_string t \<noteq> '''' then Some (trim_string t, None) else None
               | None \<Rightarrow> None)
            else None
        | [] \<Rightarrow> None))"

text \<open>\<open>/^-\s/\<close> and \<open>/^[ \t]+\S/\<close>\<close>

definition starts_item :: "string \<Rightarrow> bool" where
  "starts_item l = (case l of c # d # _ \<Rightarrow> c = CHR ''-'' \<and> is_js_space d | _ \<Rightarrow> False)"

definition is_blank :: "char \<Rightarrow> bool" where
  "is_blank c = (c = CHR '' '' \<or> c = CHR 0x09)"

definition is_indented :: "string \<Rightarrow> bool" where
  "is_indented l =
     (l \<noteq> [] \<and> is_blank (hd l) \<and> (case dropWhile is_blank l of [] \<Rightarrow> False | c # _ \<Rightarrow> \<not> is_js_space c))"

fun collectNestedDetails :: "marked_line list \<Rightarrow> string list" where
  "collectNestedDetails [] = []"
| "collectNestedDetails ((l, visible) # ls) =
     (if visible \<and> starts_item l then []
      else if \<not> visible then collectNestedDetails ls
      else if is_indented l then trim_string l # collectNestedDetails ls
      else if trim_string l \<noteq> '''' then []
      else collectNestedDetails ls)"

record list_item =
  li_date :: string
  li_kind :: item_kind
  li_text :: string
  li_nestedDetails :: "string list"
  li_checked :: "bool option"
  li_sourcePath :: string
  li_position :: nat

text \<open>The items of the lines of a section; \<open>pos\<close> is the number of the first line, from 1.\<close>

fun items_from :: "item_kind \<Rightarrow> string \<Rightarrow> string \<Rightarrow> nat \<Rightarrow> marked_line list \<Rightarrow> list_item list" where
  "items_from kind date path pos [] = []"
| "items_from kind date path pos ((l, visible) # ls) =
     (case (if visible then parseListItem l kind else None) of
        None \<Rightarrow> items_from kind date path (pos + 1) ls
      | Some (t, checked) \<Rightarrow>
          \<lparr>li_date = date, li_kind = kind, li_text = t, li_nestedDetails = collectNestedDetails ls, li_checked = checked,
           li_sourcePath = path, li_position = pos\<rparr> # items_from kind date path (pos + 1) ls)"

definition extractListItems :: "string \<Rightarrow> string \<Rightarrow> item_kind \<Rightarrow> string \<Rightarrow> string \<Rightarrow> list_item list" where
  "extractListItems content heading kind date path =
     (let ls = split_lines content in
      case sectionBounds ls heading of
        None \<Rightarrow> []
      | Some (a, b) \<Rightarrow> items_from kind date path (a + 1) (js_slice a b (marked ls)))"

definition extractInboxItems :: "string \<Rightarrow> string \<Rightarrow> string \<Rightarrow> list_item list" where
  "extractInboxItems content date path =
     js_sort (\<lambda>l r. int (li_position l) - int (li_position r))
       (extractListItems content ''Follow-ups'' Followup_kind date path @ extractListItems content ''Notes'' Note_kind date path)"

definition extractWorklogItems :: "string \<Rightarrow> string \<Rightarrow> string \<Rightarrow> list_item list" where
  "extractWorklogItems content date path = extractListItems content ''Worklog'' Worklog_kind date path"

section \<open>Appending an item\<close>

datatype section_heading = Followups_section | Notes_section | Worklog_section

definition heading_text :: "section_heading \<Rightarrow> string" where
  "heading_text h = (case h of Followups_section \<Rightarrow> ''Follow-ups'' | Notes_section \<Rightarrow> ''Notes'' | Worklog_section \<Rightarrow> ''Worklog'')"

definition normalizeItemText :: "string \<Rightarrow> notes_error + string" where
  "normalizeItemText t =
     (if trim_string t = '''' then Inl (invalidSelector ''Note item text must not be empty.'') else Inr (trim_string t))"

definition item_marker :: "section_heading \<Rightarrow> string" where
  "item_marker h = (if h = Followups_section then ''- [ ] '' else ''- '')"

text \<open>\<open>/^- \[ \]\s*$/\<close> and \<open>/^-\s*$/\<close>\<close>

definition blank_item :: "section_heading \<Rightarrow> string \<Rightarrow> bool" where
  "blank_item h l =
     (let m = (if h = Followups_section then ''- [ ]'' else ''-'') in starts_with m l \<and> list_all is_js_space (drop (length m) l))"

text \<open>The lines with the bullet in place of the first blank item of the section, or at its end.\<close>

definition insert_bullet :: "section_heading \<Rightarrow> string \<Rightarrow> nat \<Rightarrow> nat \<Rightarrow> string list \<Rightarrow> string list" where
  "insert_bullet h bullet a b ls =
     (case find_index (\<lambda>l. snd l \<and> blank_item h (fst l)) (js_slice a b (marked ls)) of
        Some i \<Rightarrow> ls[a + i := bullet]
      | None \<Rightarrow>
          (let n = a + length (dropWhile (\<lambda>l. trim_string l = '''') (rev (js_slice a b ls)))
           in take n ls @ [bullet] @ drop n ls))"

definition appendSectionItem :: "string \<Rightarrow> section_heading \<Rightarrow> string \<Rightarrow> notes_error + string" where
  "appendSectionItem content h t =
     (let crlf = str_includes content [CHR 0x0D, CHR 0x0A];
          newline = (if crlf then [CHR 0x0D, CHR 0x0A] else [CHR 0x0A])
      in try_bind (normalizeItemText t) (\<lambda>normalizedText.
        let bullet = item_marker h @ join_with (newline @ ''  '') (split_lines normalizedText);
            ls = (if crlf then split_crlf [] content else split_on (CHR 0x0A) [] content)
        in case sectionBounds ls (heading_text h) of
            None \<Rightarrow>
              (let pre = (if content = '''' then '''' else if ends_with newline content then newline else newline @ newline)
               in Inr (content @ pre @ ''## '' @ heading_text h @ newline @ newline @ bullet @ newline))
          | Some (a, b) \<Rightarrow> Inr (join_with newline (insert_bullet h bullet a b ls))))"

definition section_of :: "item_kind \<Rightarrow> section_heading" where
  "section_of kind = (if kind = Followup_kind then Followups_section else Notes_section)"

definition newInboxNote :: "item_kind \<Rightarrow> string \<Rightarrow> notes_error + string" where
  "newInboxNote kind t =
     appendSectionItem (join_with [CHR 0x0A] [''## Follow-ups'', '''', ''- [ ]'', '''', ''## Notes'', '''', ''-'', ''''])
       (section_of kind) t"

text \<open>The dash of the title is outside the code points of strings here; it is the argument \<open>dash\<close>.\<close>

definition newWorklogRecord :: "string \<Rightarrow> string \<Rightarrow> string \<Rightarrow> notes_error + string" where
  "newWorklogRecord dash date t =
     try_bind (requireIsoDate date) (\<lambda>d.
     try_bind (normalizeItemText t) (\<lambda>normalized.
       Inr (join_with [CHR 0x0A]
         [''---'', ''type: record'', ''date: '' @ d, ''---'', ''# Record '' @ dash @ '' '' @ date, '''', ''## Worklog'', '''',
          ''- '' @ join_with (CHR 0x0A # ''  '') (split_on (CHR 0x0A) [] normalized), ''''])))"


section \<open>Visibility of parts of a document\<close>


definition marked_from :: "fence option \<Rightarrow> string list \<Rightarrow> marked_line list" where
  "marked_from fence ls = zip ls (visible_from fence ls)"

lemma length_visible [simp]: "length (visible_from fence ls) = length ls"
  by (induction fence ls rule: visible_from.induct) simp_all

lemma marked_simps [simp]:
  "marked_from fence [] = []"
  "marked_from fence (l # ls) = (l, fst (fence_step fence l)) # marked_from (snd (fence_step fence l)) ls"
  by (simp_all add: marked_from_def)



lemma length_marked [simp]: "length (marked_from fence ls) = length ls" "length (marked ls) = length ls"
  by (simp_all add: marked_from_def marked_def visibleMarkdownLines_def)




text \<open>A line that starts with a dash opens no fence; a line of spaces closes none.\<close>

lemma dash_step [simp]: "fence_step None (CHR ''-'' # l) = (True, None)"
  by (simp add: fence_step_def opening_fence_def fence_run_def)




section \<open>The lines of a section\<close>



lemma find_index_le: "(case find_index p xs of None \<Rightarrow> length xs | Some i \<Rightarrow> i) \<le> length xs"
  using find_index_Some [of p xs] by (auto split: option.split)




section \<open>A bullet in the lines of a section\<close>

definition item_key :: "list_item \<Rightarrow> string \<times> string list \<times> bool option" where
  "item_key i = (li_text i, li_nestedDetails i, li_checked i)"

definition item_keys :: "item_kind \<Rightarrow> marked_line list \<Rightarrow> (string \<times> string list \<times> bool option) list" where
  "item_keys kind m = map item_key (items_from kind '''' '''' 0 m)"

lemma item_keys_any: "map item_key (items_from kind date path pos m) = item_keys kind m"
proof -
  have "map item_key (items_from kind date path pos m) = map item_key (items_from kind d p q m)" for d p q
    by (induction kind date path pos m arbitrary: q rule: items_from.induct) (auto simp: item_key_def split: option.split)
  then show ?thesis
    by (simp add: item_keys_def)
qed

lemma item_keys_simps [simp]:
  "item_keys kind [] = []"
  "item_keys kind ((l, v) # ls) =
     (case (if v then parseListItem l kind else None) of
        None \<Rightarrow> item_keys kind ls | Some (t, checked) \<Rightarrow> (t, collectNestedDetails ls, checked) # item_keys kind ls)"
  using item_keys_any by (auto simp: item_keys_def item_key_def split: option.split)































section \<open>An appended item is read back\<close>

definition LF :: string where "LF = [CHR 0x0A]"








lemma strip_cr_snoc [simp]: "strip_cr (l @ [CHR 0x0D]) = l"
  by (simp add: strip_cr_def)






definition section_keys :: "string \<Rightarrow> string \<Rightarrow> item_kind \<Rightarrow> (string \<times> string list \<times> bool option) list" where
  "section_keys content heading kind = map item_key (extractListItems content heading kind '''' '''')"


lemma extract_keys: "map item_key (extractListItems content heading kind date path) = section_keys content heading kind"
  by (simp add: section_keys_def extractListItems_def item_keys_any Let_def split: option.split)










text \<open>The note that the first capture of a day starts from.\<close>

definition inbox_template :: "string list" where
  "inbox_template = [''## Follow-ups'', '''', ''- [ ]'', '''', ''## Notes'', '''', ''-'', '''']"


text \<open>
  Three ways in which an appended item is not read back: a document with both kinds of line end,
  where the section is not found and a second one is added behind it; a text with a code fence,
  which hides what follows it; a note that looks like a check box.
\<close>

definition appended :: "string \<Rightarrow> section_heading \<Rightarrow> string \<Rightarrow> string" where
  "appended content h t = (case appendSectionItem content h t of Inl _ \<Rightarrow> '''' | Inr c \<Rightarrow> c)"

lemma mixed_line_ends_lose_item:
  "section_keys (appended (join_with LF [''## Notes'', '''', ''- a'' @ [CHR 0x0D], '''']) Notes_section ''b'') ''Notes'' Note_kind =
     [(''a'', [], None)]"
  by code_simp

lemma fence_in_text_hides_items:
  "section_keys (appended (join_with LF inbox_template) Followups_section (''x'' @ LF @ [CHR 0x60, CHR 0x60, CHR 0x60]))
     ''Notes'' Note_kind = [] \<and>
   section_keys (appended (appended (join_with LF inbox_template) Followups_section (''x'' @ LF @ [CHR 0x60, CHR 0x60, CHR 0x60]))
     Notes_section ''lost'') ''Notes'' Note_kind = []"
  by code_simp

lemma check_box_note_not_read:
  "section_keys (appended (join_with LF inbox_template) Notes_section ''[x] done'') ''Notes'' Note_kind = []"
  by code_simp

end
