(* ===== verification/Notes_Schema.thy ===== *)
theory Notes_Schema
  imports Notes_Markdown
begin

text \<open>
  The arguments of the notes tool (\<open>extensions/notes/contract.ts\<close>): the strict variants, one per
  collection and group of actions, the flat schema derived from them, and the check of a call against
  its variant. A schema keeps its type, its bounds and whether it is optional; the descriptions, which
  decide nothing, are left out. The schema library is the argument \<open>errors\<close>.
\<close>

section \<open>Parameters\<close>

datatype notes_action = Index | List | Read | Search | Resolve | Write | Edit | Delete | Record

definition NOTES_ACTIONS :: "notes_action list" where
  "NOTES_ACTIONS = [Index, List, Read, Search, Resolve, Write, Edit, Delete, Record]"

definition action_name :: "notes_action \<Rightarrow> string" where
  "action_name a =
     (case a of Index \<Rightarrow> ''index'' | List \<Rightarrow> ''list'' | Read \<Rightarrow> ''read'' | Search \<Rightarrow> ''search'' | Resolve \<Rightarrow> ''resolve''
      | Write \<Rightarrow> ''write'' | Edit \<Rightarrow> ''edit'' | Delete \<Rightarrow> ''delete'' | Record \<Rightarrow> ''record'')"

datatype notes_place = Store | Of_collection collection

definition NOTES_COLLECTIONS :: "notes_place list" where
  "NOTES_COLLECTIONS = [Store, Of_collection Inbox, Of_collection Projects, Of_collection Worklog, Of_collection Wiki]"

definition place_name :: "notes_place \<Rightarrow> string" where
  "place_name p = (case p of Store \<Rightarrow> ''store'' | Of_collection c \<Rightarrow> collection_name c)"

datatype collection_order = Newest | Chronological

definition order_name :: "collection_order \<Rightarrow> string" where
  "order_name r = (case r of Newest \<Rightarrow> ''newest'' | Chronological \<Rightarrow> ''chronological'')"

definition kind_name :: "item_kind \<Rightarrow> string" where
  "kind_name k = (case k of Note_kind \<Rightarrow> ''note'' | Followup_kind \<Rightarrow> ''followup'' | Worklog_kind \<Rightarrow> ''worklog'')"

text \<open>A revision is missing, \<open>null\<close> (\<open>Some None\<close>) or a string.\<close>

record notes_params =
  pm_collection :: "notes_place option"
  pm_action :: notes_action
  pm_kind :: "item_kind option"
  pm_date :: "string option"
  pm_selector :: "string option"
  pm_order :: "collection_order option"
  pm_cursor :: "string option"
  pm_target :: "string option"
  pm_text :: "string option"
  pm_path :: "string option"
  pm_prefix :: "string option"
  pm_query :: "string option"
  pm_limit :: "nat option"
  pm_reference :: "string option"
  pm_content :: "string option"
  pm_revision :: "string option option"
  pm_edits :: "exact_edit list option"
  pm_append :: "string option"

text \<open>The arguments as the object that is checked: the properties that are not missing.\<close>

definition edit_json :: "exact_edit \<Rightarrow> jsval" where
  "edit_json e = JObj [(''oldText'', JStr (ee_oldText e)), (''newText'', JStr (ee_newText e))]"

definition given :: "string \<Rightarrow> ('a \<Rightarrow> jsval) \<Rightarrow> 'a option \<Rightarrow> (string \<times> jsval) list" where
  "given k f v = (case v of None \<Rightarrow> [] | Some a \<Rightarrow> [(k, f a)])"

definition params_json :: "notes_params \<Rightarrow> (string \<times> jsval) list" where
  "params_json p =
     given ''collection'' (\<lambda>c. JStr (place_name c)) (pm_collection p) @ [(''action'', JStr (action_name (pm_action p)))] @
     given ''kind'' (\<lambda>k. JStr (kind_name k)) (pm_kind p) @ given ''date'' JStr (pm_date p) @
     given ''selector'' JStr (pm_selector p) @ given ''order'' (\<lambda>r. JStr (order_name r)) (pm_order p) @
     given ''cursor'' JStr (pm_cursor p) @ given ''target'' JStr (pm_target p) @ given ''text'' JStr (pm_text p) @
     given ''path'' JStr (pm_path p) @ given ''prefix'' JStr (pm_prefix p) @ given ''query'' JStr (pm_query p) @
     given ''limit'' (\<lambda>n. js_num (int n)) (pm_limit p) @ given ''reference'' JStr (pm_reference p) @
     given ''content'' JStr (pm_content p) @
     given ''revision'' (\<lambda>r. case r of None \<Rightarrow> JNull | Some s \<Rightarrow> JStr s) (pm_revision p) @
     given ''edits'' (\<lambda>es. JArr (map edit_json es)) (pm_edits p) @ given ''append'' JStr (pm_append p)"

section \<open>Schemas\<close>

text \<open>
  The type of a field: a string, an integer, one of some strings, a string of bounded length or null,
  an array of edits whose texts are bounded; and the keywords that bound it.
\<close>

datatype field_type = String_type | Integer_type | One_of "string list" | String_or_null nat | Edit_array nat

record field_schema =
  fs_type :: field_type
  fs_maxLength :: "nat option"
  fs_minimum :: "nat option"
  fs_maximum :: "nat option"
  fs_maxItems :: "nat option"
  fs_optional :: bool

type_synonym object_schema = "(string \<times> field_schema) list"

definition plain_field :: "field_type \<Rightarrow> field_schema" where
  "plain_field t = \<lparr>fs_type = t, fs_maxLength = None, fs_minimum = None, fs_maximum = None, fs_maxItems = None, fs_optional = False\<rparr>"

definition string_field :: "nat \<Rightarrow> field_schema" where
  "string_field n = (plain_field String_type)\<lparr>fs_maxLength := Some n\<rparr>"

definition optional :: "field_schema \<Rightarrow> field_schema" where
  "optional f = f\<lparr>fs_optional := True\<rparr>"

definition MAX_EDIT_ITEMS :: nat where "MAX_EDIT_ITEMS = 8"
definition MAX_EDIT_TEXT_LENGTH :: nat where "MAX_EDIT_TEXT_LENGTH = 8192"
definition MAX_APPEND_LENGTH :: nat where "MAX_APPEND_LENGTH = 131072"
definition MAX_DETAIL_ITEMS :: nat where "MAX_DETAIL_ITEMS = 200"

definition collectionParameter :: "notes_place \<Rightarrow> field_schema" where
  "collectionParameter p = plain_field (One_of [place_name p])"

definition limit_field :: "nat \<Rightarrow> field_schema" where
  "limit_field n = optional ((plain_field Integer_type)\<lparr>fs_minimum := Some 1, fs_maximum := Some n\<rparr>)"

definition collectionLimitParameter :: field_schema where
  "collectionLimitParameter = limit_field MAX_COLLECTION_LIMIT"

definition continuationCursor :: field_schema where
  "continuationCursor = optional (string_field MAX_LIST_CURSOR_LENGTH)"

definition revisionPrecondition :: field_schema where
  "revisionPrecondition = plain_field (String_or_null MAX_REVISION_LENGTH)"

definition action_field :: "notes_action list \<Rightarrow> field_schema" where
  "action_field as = plain_field (One_of (map action_name as))"

definition NOTES_STORE_ACTIONS :: "notes_action list" where
  "NOTES_STORE_ACTIONS = filter (\<lambda>a. a \<noteq> Record) NOTES_ACTIONS"

section \<open>The variants\<close>

definition NOTES_VARIANTS :: "object_schema list" where
  "NOTES_VARIANTS =
     [[(''collection'', optional (collectionParameter Store)),
       (''action'', action_field NOTES_STORE_ACTIONS),
       (''path'', optional (string_field 1024)),
       (''prefix'', optional (string_field 1024)),
       (''query'', optional (string_field MAX_SEARCH_QUERY_LENGTH)),
       (''limit'', limit_field MAX_DETAIL_ITEMS),
       (''cursor'', optional (string_field MAX_LIST_CURSOR_LENGTH)),
       (''reference'', optional (string_field 256)),
       (''content'', optional (string_field MAX_NOTE_BYTES)),
       (''revision'', optional (plain_field (String_or_null MAX_REVISION_LENGTH))),
       (''edits'', optional ((plain_field (Edit_array MAX_EDIT_TEXT_LENGTH))\<lparr>fs_maxItems := Some MAX_EDIT_ITEMS\<rparr>)),
       (''append'', optional (string_field MAX_APPEND_LENGTH))],
      [(''collection'', collectionParameter (Of_collection Inbox)),
       (''action'', action_field [Read]),
       (''date'', optional (string_field 10)),
       (''limit'', collectionLimitParameter),
       (''cursor'', continuationCursor)],
      [(''collection'', collectionParameter (Of_collection Inbox)),
       (''action'', action_field [Write]),
       (''kind'', plain_field (One_of [kind_name Note_kind, kind_name Followup_kind])),
       (''text'', string_field MAX_APPEND_LENGTH)],
      [(''collection'', collectionParameter (Of_collection Projects)),
       (''action'', action_field [List]),
       (''limit'', collectionLimitParameter),
       (''cursor'', continuationCursor)],
      [(''collection'', collectionParameter (Of_collection Projects)),
       (''action'', action_field [Read]),
       (''target'', string_field 1015)],
      [(''collection'', collectionParameter (Of_collection Projects)),
       (''action'', action_field [Write]),
       (''target'', string_field 1015),
       (''content'', string_field MAX_NOTE_BYTES),
       (''revision'', revisionPrecondition)],
      [(''collection'', collectionParameter (Of_collection Worklog)),
       (''action'', action_field [Read]),
       (''selector'', optional (string_field 32)),
       (''order'', optional (plain_field (One_of (map order_name [Newest, Chronological])))),
       (''limit'', collectionLimitParameter),
       (''cursor'', continuationCursor)],
      [(''collection'', collectionParameter (Of_collection Worklog)),
       (''action'', action_field [Record]),
       (''text'', string_field MAX_APPEND_LENGTH)],
      [(''collection'', collectionParameter (Of_collection Wiki)),
       (''action'', action_field [Read]),
       (''target'', optional (string_field 1018)),
       (''limit'', collectionLimitParameter),
       (''cursor'', continuationCursor)],
      [(''collection'', collectionParameter (Of_collection Wiki)),
       (''action'', action_field [Write]),
       (''target'', string_field 1018),
       (''content'', string_field MAX_NOTE_BYTES),
       (''revision'', revisionPrecondition)]]"

record notes_variant =
  va_label :: string
  va_collection :: string
  va_actions :: "string list"
  va_schema :: object_schema

text \<open>The strings of a field: a constant, or the values of an enumeration.\<close>

definition field_names :: "object_schema \<Rightarrow> string \<Rightarrow> string list" where
  "field_names s k =
     (case map_of s k of None \<Rightarrow> [] | Some f \<Rightarrow> (case fs_type f of One_of vs \<Rightarrow> vs | _ \<Rightarrow> []))"

definition variant_of :: "object_schema \<Rightarrow> notes_variant" where
  "variant_of s =
     (let c = (case field_names s ''collection'' of v # _ \<Rightarrow> v | [] \<Rightarrow> ''store''); as = field_names s ''action''
      in \<lparr>va_label = (case as of [a] \<Rightarrow> c @ '' '' @ a | _ \<Rightarrow> c), va_collection = c, va_actions = as, va_schema = s\<rparr>)"

definition NOTES_VARIANT_LIST :: "notes_variant list" where
  "NOTES_VARIANT_LIST = map variant_of NOTES_VARIANTS"

section \<open>The flat schema\<close>

definition loosest :: "('a \<Rightarrow> 'a \<Rightarrow> 'a) \<Rightarrow> 'a option \<Rightarrow> 'a option \<Rightarrow> 'a option" where
  "loosest f merged v = (case (merged, v) of (Some a, Some b) \<Rightarrow> Some (f a b) | _ \<Rightarrow> merged)"

definition merge_bounds :: "field_schema \<Rightarrow> field_schema \<Rightarrow> field_schema" where
  "merge_bounds merged f =
     merged\<lparr>fs_maxLength := loosest (\<lambda>a b. if a < b then b else a) (fs_maxLength merged) (fs_maxLength f),
       fs_maximum := loosest (\<lambda>a b. if a < b then b else a) (fs_maximum merged) (fs_maximum f),
       fs_maxItems := loosest (\<lambda>a b. if a < b then b else a) (fs_maxItems merged) (fs_maxItems f),
       fs_minimum := loosest (\<lambda>a b. if b < a then b else a) (fs_minimum merged) (fs_minimum f)\<rparr>"

text \<open>The merged schema of a field, never optional here: \<open>Type.Optional\<close> is put around it.\<close>

definition mergedField :: "field_schema list \<Rightarrow> field_schema" where
  "mergedField uses = fold (\<lambda>f merged. merge_bounds merged f) (tl uses) ((hd uses)\<lparr>fs_optional := False\<rparr>)"

definition add_use :: "string \<times> field_schema \<Rightarrow> (string, field_schema list) jsmap \<Rightarrow> (string, field_schema list) jsmap" where
  "add_use f acc =
     (if fst f = ''collection'' \<or> fst f = ''action'' then acc
      else jm_set (fst f) ((case jm_get acc (fst f) of None \<Rightarrow> [] | Some us \<Rightarrow> us) @ [snd f]) acc)"

definition flattenNotesVariants :: object_schema where
  "flattenNotesVariants =
     [(''collection'', optional (plain_field (One_of (map place_name NOTES_COLLECTIONS)))),
      (''action'', action_field NOTES_ACTIONS)] @
     map (\<lambda>(k, us). (k, optional (mergedField us)))
       (fold (\<lambda>v acc. fold add_use (va_schema v) acc) NOTES_VARIANT_LIST [])"

section \<open>The check of a call\<close>

datatype schema_problem =
    Boolean_problem
  | Required_problem "string list"
  | Additional_problem "string list"
  | Other_problem string string

definition formatVariantError :: "schema_problem \<Rightarrow> string option" where
  "formatVariantError e =
     (case e of
        Boolean_problem \<Rightarrow> None
      | Required_problem ks \<Rightarrow> Some (''missing '' @ join_with '', '' ks)
      | Additional_problem ks \<Rightarrow> Some (''unsupported '' @ join_with '', '' ks)
      | Other_problem path message \<Rightarrow>
          Some ((if drop 1 path = '''' then ''arguments'' else drop 1 path) @ '' '' @ message))"

type_synonym schema_errors = "object_schema \<Rightarrow> (string \<times> jsval) list \<Rightarrow> schema_problem list"

definition parseNotesParams :: "schema_errors \<Rightarrow> notes_params \<Rightarrow> notes_error + notes_params" where
  "parseNotesParams errors p =
     (let c = (case pm_collection p of None \<Rightarrow> ''store'' | Some q \<Rightarrow> place_name q);
          variants = filter (\<lambda>v. va_collection v = c) NOTES_VARIANT_LIST
      in case find (\<lambda>v. action_name (pm_action p) \<in> set (va_actions v)) variants of
          None \<Rightarrow>
            Inl (Plain_error (''notes '' @ c @ '' does not support action '' @ action_name (pm_action p) @ ''; use one of: '' @
              join_with '', '' (concat (map va_actions variants))))
        | Some v \<Rightarrow>
            (let problems = List.map_filter formatVariantError (errors (va_schema v) (params_json p))
             in if problems = [] then Inr p
                else Inl (Plain_error (''Invalid notes '' @ va_label v @ '' arguments: '' @ join_with ''; '' problems))))"

section \<open>The flat schema admits what the variants admit\<close>

text \<open>
  \<open>ok f v\<close> stands for the check of a value against a field. An object is accepted when every required
  property is there and every property is a field whose check it passes.
\<close>

definition accepts :: "(field_schema \<Rightarrow> jsval \<Rightarrow> bool) \<Rightarrow> object_schema \<Rightarrow> (string \<times> jsval) list \<Rightarrow> bool" where
  "accepts ok s ps \<longleftrightarrow>
     (\<forall>(k, f)\<in>set s. fs_optional f \<or> k \<in> fst ` set ps) \<and>
     (\<forall>(k, v)\<in>set ps. case map_of s k of None \<Rightarrow> False | Some f \<Rightarrow> ok f v)"

definition looser_type :: "field_type \<Rightarrow> field_type \<Rightarrow> bool" where
  "looser_type s t = (case (s, t) of (One_of vs, One_of ws) \<Rightarrow> set vs \<subseteq> set ws | _ \<Rightarrow> s = t)"

definition looser_bound :: "(nat \<Rightarrow> nat \<Rightarrow> bool) \<Rightarrow> nat option \<Rightarrow> nat option \<Rightarrow> bool" where
  "looser_bound le a b = (case b of None \<Rightarrow> True | Some y \<Rightarrow> (case a of None \<Rightarrow> False | Some x \<Rightarrow> le x y))"

text \<open>\<open>g\<close> asks for no more than \<open>f\<close>: the same type or more strings, and each bound as wide or absent.\<close>

definition looser :: "field_schema \<Rightarrow> field_schema \<Rightarrow> bool" where
  "looser f g \<longleftrightarrow> looser_type (fs_type f) (fs_type g) \<and>
     looser_bound (\<le>) (fs_maxLength f) (fs_maxLength g) \<and> looser_bound (\<le>) (fs_maximum f) (fs_maximum g) \<and>
     looser_bound (\<le>) (fs_maxItems f) (fs_maxItems g) \<and> looser_bound (\<ge>) (fs_minimum f) (fs_minimum g)"

lemmas schema_defs =
  variant_of_def field_names_def collectionParameter_def action_field_def plain_field_def string_field_def optional_def
  limit_field_def collectionLimitParameter_def continuationCursor_def revisionPrecondition_def place_name_def
  collection_name_def action_name_def kind_name_def order_name_def NOTES_ACTIONS_def NOTES_STORE_ACTIONS_def

lemmas limit_defs =
  MAX_EDIT_ITEMS_def MAX_EDIT_TEXT_LENGTH_def MAX_APPEND_LENGTH_def MAX_DETAIL_ITEMS_def MAX_COLLECTION_LIMIT_def
  MAX_LIST_CURSOR_LENGTH_def MAX_NOTE_BYTES_def MAX_REVISION_LENGTH_def MAX_SEARCH_QUERY_LENGTH_def

lemma variant_list:
  "map (\<lambda>v. (va_label v, va_collection v, va_actions v)) NOTES_VARIANT_LIST =
     [(''store'', ''store'', map action_name NOTES_STORE_ACTIONS),
      (''inbox read'', ''inbox'', [''read'']), (''inbox write'', ''inbox'', [''write'']),
      (''projects list'', ''projects'', [''list'']), (''projects read'', ''projects'', [''read'']),
      (''projects write'', ''projects'', [''write'']), (''worklog read'', ''worklog'', [''read'']),
      (''worklog record'', ''worklog'', [''record'']), (''wiki read'', ''wiki'', [''read'']),
      (''wiki write'', ''wiki'', [''write''])]"
  by (simp add: NOTES_VARIANT_LIST_def NOTES_VARIANTS_def Let_def schema_defs)

lemma flat_fields:
  "flattenNotesVariants =
     [(''collection'', optional (plain_field (One_of [''store'', ''inbox'', ''projects'', ''worklog'', ''wiki'']))),
      (''action'', action_field NOTES_ACTIONS),
      (''path'', optional (string_field 1024)),
      (''prefix'', optional (string_field 1024)),
      (''query'', optional (string_field 1000)),
      (''limit'', limit_field 200),
      (''cursor'', optional (string_field 16384)),
      (''reference'', optional (string_field 256)),
      (''content'', optional (string_field 1048576)),
      (''revision'', optional (plain_field (String_or_null 256))),
      (''edits'', optional ((plain_field (Edit_array 8192))\<lparr>fs_maxItems := Some 8\<rparr>)),
      (''append'', optional (string_field 131072)),
      (''date'', optional (string_field 10)),
      (''kind'', optional (plain_field (One_of [''note'', ''followup'']))),
      (''text'', optional (string_field 131072)),
      (''target'', optional (string_field 1018)),
      (''selector'', optional (string_field 32)),
      (''order'', optional (plain_field (One_of [''newest'', ''chronological''])))]"
  by (simp add: flattenNotesVariants_def NOTES_VARIANT_LIST_def NOTES_VARIANTS_def Let_def add_use_def jm_get_def mergedField_def merge_bounds_def
      loosest_def NOTES_COLLECTIONS_def schema_defs limit_defs)

lemma flat_looser:
  assumes "v \<in> set NOTES_VARIANT_LIST" and "map_of (va_schema v) k = Some f"
  shows "\<exists>g. map_of flattenNotesVariants k = Some g \<and> looser f g"
proof -
  have "list_all (\<lambda>s. list_all (\<lambda>(k, f). case map_of flattenNotesVariants k of None \<Rightarrow> False | Some g \<Rightarrow> looser f g) s) NOTES_VARIANTS"
    unfolding flat_fields
    by (simp add: NOTES_VARIANTS_def schema_defs limit_defs looser_def looser_type_def looser_bound_def)
  moreover have "va_schema v \<in> set NOTES_VARIANTS"
    using assms(1) by (auto simp: NOTES_VARIANT_LIST_def variant_of_def Let_def)
  moreover have "(k, f) \<in> set (va_schema v)"
    using assms(2) by (rule map_of_SomeD)
  ultimately have "case map_of flattenNotesVariants k of None \<Rightarrow> False | Some g \<Rightarrow> looser f g"
    unfolding list_all_iff by fast
  then show ?thesis
    by (auto split: option.splits)
qed

lemma variant_action_required:
  assumes "v \<in> set NOTES_VARIANT_LIST"
  shows "\<exists>f. (''action'', f) \<in> set (va_schema v) \<and> \<not> fs_optional f"
proof -
  have "list_all (\<lambda>s. list_ex (\<lambda>(k, f). k = ''action'' \<and> \<not> fs_optional f) s) NOTES_VARIANTS"
    by (simp add: NOTES_VARIANTS_def action_field_def plain_field_def)
  moreover have "va_schema v \<in> set NOTES_VARIANTS"
    using assms by (auto simp: NOTES_VARIANT_LIST_def variant_of_def Let_def)
  ultimately show ?thesis
    unfolding list_all_iff list_ex_iff by fast
qed

text \<open>
  What a model may send under the flat schema is at least what the variants take: an object that a
  variant accepts, the flat schema accepts too, whatever the check of single fields is, as long as a
  field that asks for less passes whatever passed before.
\<close>

theorem flat_schema_admits_variants:
  assumes loosening: "\<And>f g x. ok f x \<Longrightarrow> looser f g \<Longrightarrow> ok g x"
    and "v \<in> set NOTES_VARIANT_LIST" and acc: "accepts ok (va_schema v) ps"
  shows "accepts ok flattenNotesVariants ps"
  unfolding accepts_def
proof (intro conjI ballI)
  fix kf
  assume "kf \<in> set flattenNotesVariants"
  then have "fs_optional (snd kf) \<or> fst kf = ''action''"
    unfolding flat_fields by (auto simp: optional_def limit_field_def)
  moreover have "''action'' \<in> fst ` set ps"
    using variant_action_required [OF assms(2)] acc unfolding accepts_def by fast
  ultimately show "case kf of (k, f) \<Rightarrow> fs_optional f \<or> k \<in> fst ` set ps"
    by (cases kf) auto
next
  fix kx
  assume "kx \<in> set ps"
  then obtain f where f: "map_of (va_schema v) (fst kx) = Some f" "ok f (snd kx)"
    using acc by (fastforce simp: accepts_def split: option.splits)
  then obtain g where "map_of flattenNotesVariants (fst kx) = Some g" "looser f g"
    using flat_looser [OF assms(2)] by blast
  then show "case kx of (k, x) \<Rightarrow> (case map_of flattenNotesVariants k of None \<Rightarrow> False | Some f \<Rightarrow> ok f x)"
    using loosening f by (cases kx) auto
qed

text \<open>A check of strings: the length and the values of an enumeration.\<close>

definition string_ok :: "field_schema \<Rightarrow> jsval \<Rightarrow> bool" where
  "string_ok f x =
     (case x of
        JStr s \<Rightarrow>
          (case fs_maxLength f of None \<Rightarrow> True | Some n \<Rightarrow> length s \<le> n) \<and>
          (case fs_type f of One_of vs \<Rightarrow> s \<in> set vs | _ \<Rightarrow> True)
      | _ \<Rightarrow> False)"

lemma string_ok_loosening: "string_ok f x \<Longrightarrow> looser f g \<Longrightarrow> string_ok g x"
  by (cases x; cases "fs_type f"; cases "fs_type g")
    (auto simp: string_ok_def looser_def looser_type_def looser_bound_def split: option.splits)

theorem flat_schema_admits_variants_witness:
  "accepts string_ok flattenNotesVariants
     [(''collection'', JStr ''inbox''), (''action'', JStr ''read''), (''date'', JStr ''2026-01-05'')]"
proof (rule flat_schema_admits_variants)
  show "variant_of (NOTES_VARIANTS ! 1) \<in> set NOTES_VARIANT_LIST"
    by (simp add: NOTES_VARIANT_LIST_def NOTES_VARIANTS_def)
  show "accepts string_ok (va_schema (variant_of (NOTES_VARIANTS ! 1)))
     [(''collection'', JStr ''inbox''), (''action'', JStr ''read''), (''date'', JStr ''2026-01-05'')]"
    by (simp add: NOTES_VARIANTS_def accepts_def string_ok_def schema_defs Let_def)
qed (rule string_ok_loosening)

section \<open>What a checked call is\<close>

text \<open>The pairs of a collection and an action that the variants take.\<close>

definition supported :: "notes_place \<Rightarrow> notes_action \<Rightarrow> bool" where
  "supported c a =
     (case c of
        Store \<Rightarrow> a \<noteq> Record
      | Of_collection Inbox \<Rightarrow> a = Read \<or> a = Write
      | Of_collection Projects \<Rightarrow> a = List \<or> a = Read \<or> a = Write
      | Of_collection Worklog \<Rightarrow> a = Read \<or> a = Record
      | Of_collection Wiki \<Rightarrow> a = Read \<or> a = Write)"

definition place_of :: "notes_params \<Rightarrow> notes_place" where
  "place_of p = (case pm_collection p of None \<Rightarrow> Store | Some q \<Rightarrow> q)"

lemma variant_names:
  "(\<exists>v\<in>set NOTES_VARIANT_LIST. va_collection v = place_name c \<and> action_name a \<in> set (va_actions v)) \<longleftrightarrow> supported c a"
proof -
  have "(\<exists>v\<in>set NOTES_VARIANT_LIST. va_collection v = place_name c \<and> action_name a \<in> set (va_actions v)) \<longleftrightarrow>
      (\<exists>t\<in>set (map (\<lambda>v. (va_label v, va_collection v, va_actions v)) NOTES_VARIANT_LIST).
        fst (snd t) = place_name c \<and> action_name a \<in> set (snd (snd t)))"
    by auto
  also have "\<dots> \<longleftrightarrow> supported c a"
    unfolding variant_list
    by (cases c; cases a; (simp add: supported_def place_name_def action_name_def NOTES_STORE_ACTIONS_def NOTES_ACTIONS_def;
        simp split: collection.split add: collection_name_def)?)
  finally show ?thesis .
qed

lemma parsed_params: "parseNotesParams errors p = Inr q \<Longrightarrow> q = p \<and> supported (place_of p) (pm_action p)"
proof -
  assume a: "parseNotesParams errors p = Inr q"
  let ?vs = "filter (\<lambda>v. va_collection v = place_name (place_of p)) NOTES_VARIANT_LIST"
  have name: "(case pm_collection p of None \<Rightarrow> ''store'' | Some q \<Rightarrow> place_name q) = place_name (place_of p)"
    by (simp add: place_of_def place_name_def split: option.split)
  obtain v where v: "find (\<lambda>v. action_name (pm_action p) \<in> set (va_actions v)) ?vs = Some v" "q = p"
    using a unfolding parseNotesParams_def Let_def name by (auto split: option.splits if_splits)
  then have "v \<in> set ?vs" "action_name (pm_action p) \<in> set (va_actions v)"
    unfolding find_Some_iff by (metis nth_mem)+
  then show ?thesis
    using v(2) variant_names [of "place_of p" "pm_action p"] by auto
qed

end
