(* ===== verification/Notes_Validation.thy ===== *)
theory Notes_Validation
  imports Notes_Domain File_System
begin

text \<open>
  The guards of the notes tool (\<open>extensions/notes/contract.ts\<close>): the paths it accepts, the validation
  of what a provider returns (untyped values), and exact edits.
\<close>

section \<open>Paths in the store\<close>

definition pathIsAbsolute :: "string \<Rightarrow> bool" where
  "pathIsAbsolute p =
     (starts_with ''/'' p \<or>
      (case p of
         c # d # e # _ \<Rightarrow>
           (let n = (of_char c :: nat) in (65 \<le> n \<and> n \<le> 90 \<or> 97 \<le> n \<and> n \<le> 122) \<and> d = CHR '':'' \<and> e = CHR ''/'')
       | _ \<Rightarrow> False))"

definition normalizePosixPath :: "string \<Rightarrow> string" where
  "normalizePosixPath p = join_with ''/'' (normalize_components [] (split_on (CHR ''/'') [] p))"

definition isInvalidStorePath :: "string \<Rightarrow> bool" where
  "isInvalidStorePath p =
     (length p = 0 \<or> length p > 1024 \<or> pathIsAbsolute p \<or> starts_with ''@'' p \<or> CHR '':'' \<in> set p \<or> list_ex is_control p)"

definition escapesStore :: "string list \<Rightarrow> string \<Rightarrow> bool" where
  "escapesStore rawSegments normalized =
     (''..'' \<in> set rawSegments \<or> normalized = ''..'' \<or> starts_with ''../'' normalized \<or>
      list_ex (starts_with ''.'') (split_on (CHR ''/'') [] normalized))"

definition isMarkdownPath :: "string \<Rightarrow> string \<Rightarrow> bool" where
  "isMarkdownPath p normalized = (\<not> ends_with ''/'' p \<and> ends_with ''.md'' (toLowerCase normalized))"

definition normalizeStorePath :: "string \<Rightarrow> bool \<Rightarrow> bool \<Rightarrow> notes_error + string" where
  "normalizeStorePath input requireMarkdown allowReferencePrefix =
     (let stripped = slashes (if allowReferencePrefix \<and> starts_with ''@'' input then drop 1 input else input);
          normalized = normalizePosixPath stripped
      in if isInvalidStorePath stripped then Inl (Provider_error Invalid_path (''Invalid note path: '' @ input))
         else if escapesStore (split_on (CHR ''/'') [] stripped) normalized
           then Inl (Provider_error Path_escape (''Note path escapes the store: '' @ input))
         else if requireMarkdown \<and> \<not> isMarkdownPath stripped normalized
           then Inl (Provider_error Not_a_note (''Note path must end in .md: '' @ input))
         else Inr (if ends_with ''/'' stripped \<and> \<not> ends_with ''/'' normalized then normalized @ ''/'' else normalized))"

definition normalizePrefix :: "string \<Rightarrow> notes_error + string" where
  "normalizePrefix pre =
     (let stripped = slashes (if starts_with ''@'' pre then drop 1 pre else pre) in
      if starts_with ''@'' stripped then Inl (Provider_error Invalid_path (''Invalid note path: '' @ pre))
      else if stripped = '''' \<or> stripped = ''.'' \<or> stripped = ''./'' then Inr ''''
      else normalizeStorePath pre False True)"

section \<open>Sizes and revisions\<close>

definition noteSizeError :: "string \<Rightarrow> notes_error" where
  "noteSizeError subject = Provider_error Resource_limit (subject @ '' exceeds '' @ show_nat MAX_NOTE_BYTES @ '' bytes.'')"

definition assertNoteSize :: "string \<Rightarrow> notes_error + unit" where
  "assertNoteSize content = (if byte_length content > MAX_NOTE_BYTES then Inl (noteSizeError ''Note content'') else Inr ())"

definition providerContractError :: "string \<Rightarrow> notes_error" where
  "providerContractError message = Provider_error Invalid_provider message"

definition validateRevision :: "string \<Rightarrow> notes_code \<Rightarrow> notes_error + unit" where
  "validateRevision revision fault =
     (if length revision = 0 \<or> length revision > MAX_REVISION_LENGTH \<or> list_ex is_control revision
      then Inl (Provider_error fault ''Invalid note revision.'') else Inr ())"

section \<open>Validation of what a provider returns\<close>

text \<open>The properties of an object; an array has none of those asked for.\<close>

definition object_fields :: "jsval \<Rightarrow> (string \<times> jsval) list option" where
  "object_fields v = (case v of JObj ps \<Rightarrow> Some ps | JArr _ \<Rightarrow> Some [] | _ \<Rightarrow> None)"

definition validateOptionalMetadata :: "(string \<times> jsval) list \<Rightarrow> notes_error + (int option \<times> jsnumber option)" where
  "validateOptionalMetadata ps =
     try_bind
       (case js_prop ps ''size'' of
          JUndefined \<Rightarrow> Inr None
        | JNum n \<Rightarrow>
            if isSafeInteger n \<and> js_int n \<ge> 0 then Inr (Some (js_int n))
            else Inl (providerContractError ''Notes provider returned an invalid note size.'')
        | _ \<Rightarrow> Inl (providerContractError ''Notes provider returned an invalid note size.''))
       (\<lambda>size.
     try_bind
       (case js_prop ps ''modifiedAt'' of
          JUndefined \<Rightarrow> Inr None
        | JNum (Finite q) \<Rightarrow> Inr (Some (Finite q))
        | _ \<Rightarrow> Inl (providerContractError ''Notes provider returned an invalid modification time.''))
       (\<lambda>modifiedAt. Inr (size, modifiedAt)))"

definition validateDocument :: "jsval \<Rightarrow> string option \<Rightarrow> notes_error + note_document" where
  "validateDocument note expectedPath =
     (case object_fields note of
        None \<Rightarrow> Inl (providerContractError ''Notes provider returned an invalid document.'')
      | Some ps \<Rightarrow>
          (case (js_prop ps ''path'', js_prop ps ''content'', js_prop ps ''revision'') of
             (JStr p, JStr content, JStr revision) \<Rightarrow>
               try_bind (normalizeStorePath p True False) (\<lambda>path.
                 if path \<noteq> p then Inl (providerContractError ''Notes provider returned a noncanonical document path.'')
                 else if expectedPath \<noteq> None \<and> expectedPath \<noteq> Some path
                   then Inl (providerContractError ''Notes provider returned a document for the wrong path.'')
                 else try_bind (validateRevision revision Invalid_provider) (\<lambda>_.
                   try_bind (assertNoteSize content) (\<lambda>_.
                   try_bind (validateOptionalMetadata ps) (\<lambda>(size, modifiedAt).
                   Inr \<lparr>nd_path = path, nd_content = content, nd_revision = revision, nd_size = size, nd_modifiedAt = modifiedAt\<rparr>))))
           | _ \<Rightarrow> Inl (providerContractError ''Notes provider returned an invalid document.'')))"

definition validateOptionalRevision :: "jsval \<Rightarrow> notes_error + string option" where
  "validateOptionalRevision v =
     (case v of
        JUndefined \<Rightarrow> Inr None
      | JStr r \<Rightarrow> try_bind (validateRevision r Invalid_provider) (\<lambda>_. Inr (Some r))
      | _ \<Rightarrow> Inl (providerContractError ''Notes provider returned an invalid revision.''))"

definition validateEntry :: "string list \<Rightarrow> jsval \<Rightarrow> notes_error + note_entry" where
  "validateEntry seen entry =
     (case object_fields entry of
        None \<Rightarrow> Inl (providerContractError ''Notes provider returned an invalid note entry.'')
      | Some ps \<Rightarrow>
          (case js_prop ps ''path'' of
             JStr p \<Rightarrow>
               try_bind (normalizeStorePath p True False) (\<lambda>path.
                 if path \<noteq> p \<or> path \<in> set seen
                 then Inl (providerContractError ''Notes provider returned duplicate or noncanonical note entries.'')
                 else try_bind (validateOptionalRevision (js_prop ps ''revision'')) (\<lambda>revision.
                   try_bind (validateOptionalMetadata ps) (\<lambda>(size, modifiedAt).
                   Inr \<lparr>ne_path = path, ne_revision = revision, ne_size = size, ne_modifiedAt = modifiedAt\<rparr>)))
           | _ \<Rightarrow> Inl (providerContractError ''Notes provider returned an invalid note entry.'')))"

fun validate_entries_from :: "string list \<Rightarrow> jsval list \<Rightarrow> notes_error + note_entry list" where
  "validate_entries_from seen [] = Inr []"
| "validate_entries_from seen (v # vs) =
     try_bind (validateEntry seen v) (\<lambda>e. try_bind (validate_entries_from (ne_path e # seen) vs) (\<lambda>es. Inr (e # es)))"

definition validateEntries :: "jsval list \<Rightarrow> notes_error + note_entry list" where
  "validateEntries vs =
     (if length vs > MAX_NOTE_COUNT then Inl (providerContractError ''Notes provider returned too many entries.'')
      else validate_entries_from [] vs)"

definition validateOptionalText :: "jsval \<Rightarrow> nat \<Rightarrow> string \<Rightarrow> bool \<Rightarrow> notes_error + string option" where
  "validateOptionalText v limit label byteLimit =
     (case v of
        JUndefined \<Rightarrow> Inr None
      | JStr s \<Rightarrow>
          if (if byteLimit then byte_length s else length s) > limit
          then Inl (providerContractError (''Notes provider returned an oversized '' @ label @ ''.'')) else Inr (Some s)
      | _ \<Rightarrow> Inl (providerContractError (''Notes provider returned an invalid '' @ label @ ''.'')))"

definition validateListResult :: "jsval \<Rightarrow> nat \<Rightarrow> notes_error + (note_entry list \<times> string option)" where
  "validateListResult v limit =
     (case v of
        JArr vs \<Rightarrow>
          try_bind (validateEntries vs) (\<lambda>entries.
            if length entries > limit
            then Inl (providerContractError ''Notes provider returned more list entries than requested.'') else Inr (entries, None))
      | JObj ps \<Rightarrow>
          (case js_prop ps ''entries'' of
             JArr vs \<Rightarrow>
               try_bind (validateEntries vs) (\<lambda>entries.
                 if length entries > limit
                 then Inl (providerContractError ''Notes provider returned more list entries than requested.'')
                 else try_bind (validateOptionalText (js_prop ps ''nextCursor'') MAX_LIST_CURSOR_LENGTH ''list cursor'' False) (\<lambda>cursor.
                   if cursor = Some '''' \<or> (cursor \<noteq> None \<and> length entries = 0)
                   then Inl (providerContractError ''Notes provider returned a non-advancing list cursor.'') else Inr (entries, cursor)))
           | _ \<Rightarrow> Inl (providerContractError ''Notes provider returned an invalid list result.''))
      | _ \<Rightarrow> Inl (providerContractError ''Notes provider returned an invalid list result.''))"

definition validateOptionalScore :: "jsval \<Rightarrow> notes_error + jsnumber option" where
  "validateOptionalScore v =
     (case v of
        JUndefined \<Rightarrow> Inr None
      | JNum (Finite q) \<Rightarrow> Inr (Some (Finite q))
      | _ \<Rightarrow> Inl (providerContractError ''Notes provider returned an invalid search score.''))"

definition validateSearchResult :: "jsval \<Rightarrow> notes_error + search_result" where
  "validateSearchResult v =
     (case object_fields v of
        None \<Rightarrow> Inl (providerContractError ''Notes provider returned an invalid search result.'')
      | Some ps \<Rightarrow>
          (case js_prop ps ''path'' of
             JStr p \<Rightarrow>
               try_bind (normalizeStorePath p True False) (\<lambda>path.
                 if path \<noteq> p then Inl (providerContractError ''Notes provider returned a noncanonical search-result path.'')
                 else try_bind (validateOptionalRevision (js_prop ps ''revision'')) (\<lambda>revision.
                   try_bind (validateOptionalMetadata ps) (\<lambda>(size, modifiedAt).
                   try_bind (validateOptionalText (js_prop ps ''title'') 256 ''search title'' False) (\<lambda>title.
                   try_bind (validateOptionalText (js_prop ps ''snippet'') 2048 ''search snippet'' True) (\<lambda>snippet.
                   try_bind (validateOptionalScore (js_prop ps ''score'')) (\<lambda>score.
                   Inr \<lparr>se_path = path, se_revision = revision, se_size = size, se_modifiedAt = modifiedAt, se_title = title,
                        se_snippet = snippet, se_score = score\<rparr>))))))
           | _ \<Rightarrow> Inl (providerContractError ''Notes provider returned an invalid search result.'')))"

definition validateSearchResults :: "jsval \<Rightarrow> notes_error + search_result list" where
  "validateSearchResults v =
     (case v of
        JArr vs \<Rightarrow>
          if length vs > MAX_SEARCH_RESULTS then Inl (providerContractError ''Notes provider returned too many search results.'')
          else map_try validateSearchResult vs
      | _ \<Rightarrow> Inl (providerContractError ''Notes provider returned too many search results.''))"

definition validateIndex :: "jsval \<Rightarrow> notes_error + (string \<times> note_entry list option)" where
  "validateIndex v =
     (case object_fields v of
        None \<Rightarrow> Inl (providerContractError ''Notes provider returned an invalid index.'')
      | Some ps \<Rightarrow>
          (case js_prop ps ''text'' of
             JStr t \<Rightarrow>
               if byte_length t > MAX_INDEX_BYTES then Inl (providerContractError ''Notes provider returned an oversized index.'')
               else (case js_prop ps ''entries'' of
                   JUndefined \<Rightarrow> Inr (t, None)
                 | JArr vs \<Rightarrow>
                     if length vs > MAX_INDEX_ENTRIES
                     then Inl (providerContractError ''Notes provider returned too many index entries.'')
                     else try_bind (validateEntries vs) (\<lambda>es. Inr (t, Some es))
                 | _ \<Rightarrow> Inl (providerContractError ''Notes provider returned too many index entries.''))
           | _ \<Rightarrow> Inl (providerContractError ''Notes provider returned an invalid index.'')))"

definition validateMutation :: "jsval \<Rightarrow> string \<Rightarrow> notes_error + (string \<times> string option)" where
  "validateMutation v expectedPath =
     (case object_fields v of
        None \<Rightarrow> Inl (providerContractError ''Notes provider returned an invalid mutation result.'')
      | Some ps \<Rightarrow>
          (case js_prop ps ''path'' of
             JStr p \<Rightarrow>
               try_bind (normalizeStorePath p True False) (\<lambda>path.
                 if path \<noteq> p then Inl (providerContractError ''Notes provider returned a noncanonical mutation path.'')
                 else if path \<noteq> expectedPath
                   then Inl (providerContractError ''Notes provider returned a mutation for the wrong path.'')
                 else try_bind (validateOptionalRevision (js_prop ps ''revision'')) (\<lambda>revision. Inr (path, revision)))
           | _ \<Rightarrow> Inl (providerContractError ''Notes provider returned an invalid mutation result.'')))"

section \<open>Exact edits\<close>

text \<open>\<open>indexOf(text, from)\<close>\<close>

definition index_from :: "string \<Rightarrow> string \<Rightarrow> nat \<Rightarrow> nat option" where
  "index_from p s i = map_option (\<lambda>k. i + k) (index_of p (drop i s))"

fun apply_edits_from :: "string \<Rightarrow> nat \<Rightarrow> exact_edit list \<Rightarrow> notes_error + (string \<times> nat)" where
  "apply_edits_from current bytes [] = Inr (current, bytes)"
| "apply_edits_from current bytes (e # es) =
     (if ee_oldText e = '''' then Inl (Provider_error Missing_edit ''Exact edit text must not be empty.'')
      else case index_of (ee_oldText e) current of
          None \<Rightarrow> Inl (Provider_error Missing_edit ''Exact edit text was not found.'')
        | Some first \<Rightarrow>
            if index_from (ee_oldText e) current (first + 1) \<noteq> None
            then Inl (Provider_error Ambiguous_edit ''Exact edit text matched more than once.'')
            else (let replacementBytes = bytes - byte_length (ee_oldText e) + byte_length (ee_newText e) in
              if replacementBytes > MAX_NOTE_BYTES then Inl (noteSizeError ''Edited note'')
              else apply_edits_from (take first current @ ee_newText e @ drop (first + length (ee_oldText e)) current)
                     replacementBytes es))"

definition applyExactEdits :: "string \<Rightarrow> exact_edit list \<Rightarrow> string option \<Rightarrow> notes_error + string" where
  "applyExactEdits original edits tail_text =
     try_bind (assertNoteSize original) (\<lambda>_.
       let payloadBytes = byte_length (case tail_text of None \<Rightarrow> '''' | Some a \<Rightarrow> a) +
             sum_list (map (\<lambda>e. byte_length (ee_oldText e) + byte_length (ee_newText e)) edits)
       in if payloadBytes > MAX_NOTE_BYTES then Inl (noteSizeError ''Exact-edit payload'')
          else try_bind (apply_edits_from original (byte_length original) edits) (\<lambda>(current, bytes).
            case tail_text of
              None \<Rightarrow> Inr current
            | Some a \<Rightarrow>
                if bytes + byte_length a > MAX_NOTE_BYTES then Inl (noteSizeError ''Edited note'') else Inr (current @ a)))"


section \<open>Canonical paths\<close>

text \<open>A path of the store in the form that validation demands.\<close>

definition canonical_path :: "string \<Rightarrow> bool" where
  "canonical_path p \<longleftrightarrow>
     0 < length p \<and> length p \<le> 1024 \<and> \<not> starts_with ''@'' p \<and> CHR '':'' \<notin> set p \<and> CHR 0x5C \<notin> set p \<and> \<not> list_ex is_control p \<and>
     list_all (\<lambda>s. s \<noteq> '''' \<and> \<not> starts_with ''.'' s) (split_on (CHR ''/'') [] p) \<and> ends_with ''.md'' (toLowerCase p)"

lemma slashes_id: "CHR 0x5C \<notin> set p \<Longrightarrow> slashes p = p"
  by (auto simp: slashes_def intro!: map_idI)

lemma slashes_no: "CHR 0x5C \<notin> set (slashes p)"
  by (auto simp: slashes_def)

lemma normalize_plain_segments:
  "list_all (\<lambda>s. s \<noteq> '''' \<and> \<not> starts_with ''.'' s) cs \<Longrightarrow> normalize_components acc cs = acc @ cs"
  by (induction acc cs rule: normalize_components.induct) (auto simp: starts_with_def)

lemma normalizePosix_id:
  "list_all (\<lambda>s. s \<noteq> '''' \<and> \<not> starts_with ''.'' s) (split_on (CHR ''/'') [] p) \<Longrightarrow> normalizePosixPath p = p"
  using join_split [of "CHR ''/''" "[]" p] by (simp add: normalizePosixPath_def normalize_plain_segments)

lemma first_segment: "hd (split_on sep acc s) = acc @ takeWhile (\<lambda>c. c \<noteq> sep) s"
  by (induction s arbitrary: acc) auto

lemma canonical_first:
  assumes "canonical_path p"
  shows "takeWhile (\<lambda>c. c \<noteq> CHR ''/'') p \<noteq> ''''" "\<not> starts_with ''.'' (takeWhile (\<lambda>c. c \<noteq> CHR ''/'') p)"
proof -
  have "hd (split_on (CHR ''/'') [] p) \<in> set (split_on (CHR ''/'') [] p)"
    by simp
  then have "hd (split_on (CHR ''/'') [] p) \<noteq> '''' \<and> \<not> starts_with ''.'' (hd (split_on (CHR ''/'') [] p))"
    using assms unfolding canonical_path_def list_all_iff by blast
  then show "takeWhile (\<lambda>c. c \<noteq> CHR ''/'') p \<noteq> ''''" "\<not> starts_with ''.'' (takeWhile (\<lambda>c. c \<noteq> CHR ''/'') p)"
    by (simp_all add: first_segment)
qed

lemma canonical_not_absolute: "canonical_path p \<Longrightarrow> \<not> pathIsAbsolute p"
proof -
  assume p: "canonical_path p"
  have "\<not> starts_with ''/'' p"
    using canonical_first(1) [OF p] by (cases p) (auto simp: starts_with_def)
  moreover have "CHR '':'' \<notin> set p"
    using p by (simp add: canonical_path_def)
  ultimately show ?thesis
    by (auto simp: pathIsAbsolute_def Let_def split: list.split)
qed

lemma last_segment: "split_on sep acc (s @ [sep]) = split_on sep acc s @ ['''']"
  by (induction s arbitrary: acc) auto

lemma canonical_normalizes:
  assumes "canonical_path p"
  shows "normalizeStorePath p True False = Inr p"
proof -
  have "normalizePosixPath p = p"
    using assms by (intro normalizePosix_id) (simp add: canonical_path_def)
  moreover have "\<not> ends_with ''/'' p"
  proof
    assume "ends_with ''/'' p"
    then obtain t where "p = t @ [CHR ''/'']"
      by (auto simp: ends_with_iff)
    then show False
      using assms by (auto simp: canonical_path_def last_segment)
  qed
  moreover have "\<not> escapesStore (split_on (CHR ''/'') [] p) p"
  proof -
    have "p \<noteq> ''..''" "\<not> starts_with ''../'' p"
      using canonical_first(2) [OF assms] by (auto simp: starts_with_iff)
    then show ?thesis
      using assms by (auto simp: escapesStore_def canonical_path_def list_all_iff list_ex_iff starts_with_def)
  qed
  moreover have "\<not> isInvalidStorePath p"
    using assms canonical_not_absolute [OF assms] by (auto simp: isInvalidStorePath_def canonical_path_def)
  ultimately show ?thesis
    using assms by (simp add: normalizeStorePath_def slashes_id isMarkdownPath_def canonical_path_def)
qed

text \<open>The normalised form of a path has no empty component and none that starts with a dot.\<close>

lemma components_subset: "set (normalize_components acc cs) \<subseteq> set acc \<union> {c \<in> set cs. c \<noteq> ''''}"
proof (induction acc cs rule: normalize_components.induct)
  case (2 acc c cs)
  then show ?case
    using set_take_subset [of "length acc - 1" acc] by (cases "c = ''..''") (auto simp: butlast_conv_take)
qed simp

lemma split_chars: "s \<in> set (split_on sep acc p) \<Longrightarrow> set s \<subseteq> set acc \<union> set p"
  by (induction p arbitrary: acc) (fastforce split: if_splits)+

lemma join_chars: "set (join_with sep ls) \<subseteq> set sep \<union> (\<Union>l\<in>set ls. set l)"
  by (induction sep ls rule: join_with.induct) auto

lemma normalize_length: "length (join_with ''/'' (normalize_components acc cs)) \<le> length (join_with ''/'' (acc @ cs))"
proof -
  have drop_mid: "length (join_with ''/'' (a @ b)) \<le> length (join_with ''/'' (a @ [c] @ b))" for a b :: "string list" and c
  proof (induction "''/''" a rule: join_with.induct)
    case 1
    then show ?case by (cases b) auto
  next
    case (2 d)
    then show ?case by (cases b) auto
  qed auto
  show ?thesis
  proof (induction acc cs rule: normalize_components.induct)
    case (2 acc c cs)
    show ?case
    proof (cases "c = ''..''")
      case True
      have "length (join_with ''/'' (butlast acc @ cs)) \<le> length (join_with ''/'' (acc @ [c] @ cs))"
      proof (cases "acc = []")
        case False
        then have "butlast acc @ [last acc] @ cs = acc @ cs"
          by simp
        then have "length (join_with ''/'' (butlast acc @ cs)) \<le> length (join_with ''/'' (acc @ cs))"
          using drop_mid [of "butlast acc" cs "last acc"] by (simp only:)
        then show ?thesis
          using drop_mid [of acc cs c] by (rule le_trans)
      qed (use drop_mid [of "[]" cs c] in simp)
      then show ?thesis
        using 2(2) True by simp
    next
      case False
      then show ?thesis
        using 2(1) 2(3) drop_mid [of acc cs c] by (auto intro: le_trans)
    qed
  qed simp
qed


lemma normalized_canonical:
  assumes "normalizeStorePath p True allow = Inr q" and "\<not> starts_with ''@'' q"
  shows "canonical_path q"
proof -
  let ?s = "slashes (if allow \<and> starts_with ''@'' p then drop 1 p else p)"
  let ?cs = "normalize_components [] (split_on (CHR ''/'') [] ?s)"
  have ok: "\<not> isInvalidStorePath ?s" "\<not> escapesStore (split_on (CHR ''/'') [] ?s) (normalizePosixPath ?s)"
    "isMarkdownPath ?s (normalizePosixPath ?s)" and q: "q = normalizePosixPath ?s"
    using assms(1) by (auto simp: normalizeStorePath_def Let_def isMarkdownPath_def split: if_splits)
  have parts: "list_all (\<lambda>s. CHR ''/'' \<notin> set s) (split_on (CHR ''/'') [] ?s)"
    by (rule split_parts) simp
  have cs: "set ?cs \<subseteq> {c \<in> set (split_on (CHR ''/'') [] ?s). c \<noteq> ''''}"
    using components_subset [of "[]"] by auto
  have md: "ends_with ''.md'' (toLowerCase q)"
    using ok(3) q by (simp add: isMarkdownPath_def)
  then have nonempty: "?cs \<noteq> []"
    using q by (auto simp: normalizePosixPath_def toLowerCase_def ends_with_def)
  have "split_on (CHR ''/'') [] (join_with ''/'' ?cs) = ?cs"
    using nonempty cs parts by (intro split_join) (auto simp: list_all_iff)
  then have segments: "split_on (CHR ''/'') [] q = ?cs"
    by (simp add: q normalizePosixPath_def)
  have "length q \<le> length ?s"
    using normalize_length [of "[]" "split_on (CHR ''/'') [] ?s"] join_split [of "CHR ''/''" "[]" ?s]
    by (simp add: q normalizePosixPath_def)
  then have "length q \<le> 1024"
    using ok(1) by (simp add: isInvalidStorePath_def)
  moreover have "0 < length q"
    using md by (auto simp: toLowerCase_def ends_with_def)
  moreover have chars: "set q \<subseteq> set ?s \<union> set ''/''"
  proof -
    have "set l \<subseteq> set ?s" if "l \<in> set ?cs" for l
    proof -
      have "l \<in> set (split_on (CHR ''/'') [] ?s)"
        using that cs by blast
      from split_chars [OF this] show ?thesis by simp
    qed
    then have "(\<Union>l\<in>set ?cs. set l) \<subseteq> set ?s"
      by blast
    then show ?thesis
      using join_chars [of "''/''" ?cs] unfolding q normalizePosixPath_def by blast
  qed
  have "CHR '':'' \<notin> set ?s" "\<not> list_ex is_control ?s" "CHR 0x5C \<notin> set ?s"
    using ok(1) slashes_no by (auto simp: isInvalidStorePath_def)
  then have "CHR '':'' \<notin> set q" "\<not> list_ex is_control q" "CHR 0x5C \<notin> set q"
    using chars by (auto simp: list_ex_iff is_control_def)
  moreover have "list_all (\<lambda>s. s \<noteq> '''' \<and> \<not> starts_with ''.'' s) (split_on (CHR ''/'') [] q)"
    using ok(2) cs segments q by (auto simp: escapesStore_def list_all_iff list_ex_iff)
  ultimately show ?thesis
    using assms(2) md by (simp add: canonical_path_def)
qed

text \<open>
  The paths a provider may return are exactly the canonical ones: relative, of at most 1024
  characters, with components that are not empty and do not start with a dot, without colon,
  backslash or control character, ending in \<open>.md\<close>. Such a path is left as it is.
\<close>

theorem validated_path_canonical: "normalizeStorePath p True False = Inr p \<longleftrightarrow> canonical_path p"
proof
  assume n: "normalizeStorePath p True False = Inr p"
  then have "\<not> isInvalidStorePath (slashes p)"
    by (auto simp: normalizeStorePath_def Let_def split: if_splits)
  then have "\<not> starts_with ''@'' p"
    by (cases p) (auto simp: isInvalidStorePath_def starts_with_def slashes_def)
  then show "canonical_path p"
    by (rule normalized_canonical [OF n])
qed (rule canonical_normalizes)

text \<open>A target of a project or of the wiki gives a canonical path below its root.\<close>

lemma collection_target_parts:
  assumes "normalizeCollectionTarget target l allowEmpty = Inr t" and "t \<noteq> ''''"
  shows "list_all (\<lambda>s. s \<noteq> '''' \<and> \<not> starts_with ''.'' s) (split_on (CHR ''/'') [] t)"
    "CHR '':'' \<notin> set t" "CHR 0x5C \<notin> set t" "\<not> list_ex is_control t"
proof -
  let ?n = "slashes (case target of None \<Rightarrow> '''' | Some t \<Rightarrow> t)"
  have t: "t = ?n" and e: "\<not> list_ex (\<lambda>s. s = '''' \<or> s = ''..'' \<or> starts_with ''.'' s) (if ?n = '''' then [] else split_on (CHR ''/'') [] ?n)"
    and c: "\<not> (CHR '':'' \<in> set ?n \<or> list_ex is_control ?n)"
    using assms(1) unfolding normalizeCollectionTarget_def Let_def by (simp_all split: if_splits)
  show "list_all (\<lambda>s. s \<noteq> '''' \<and> \<not> starts_with ''.'' s) (split_on (CHR ''/'') [] t)"
    using e assms(2) unfolding t [symmetric] by (simp add: list_ex_iff list_all_iff)
  show "CHR '':'' \<notin> set t" "CHR 0x5C \<notin> set t" "\<not> list_ex is_control t"
    using c slashes_no t by metis+
qed

lemma lower_append: "toLowerCase (a @ b) = toLowerCase a @ toLowerCase b"
  by (simp add: toLowerCase_def)

lemma ends_with_append: "ends_with w b \<Longrightarrow> ends_with w (a @ b)"
  by (auto simp: ends_with_iff)

lemma below_root_canonical:
  assumes "list_all (\<lambda>s. s \<noteq> '''' \<and> \<not> starts_with ''.'' s) (split_on (CHR ''/'') [] t)"
    and "CHR '':'' \<notin> set t" "CHR 0x5C \<notin> set t" "\<not> list_ex is_control t" and "ends_with ''.md'' (toLowerCase t)"
    and root: "root_name = ''projects'' \<or> root_name = ''wiki''" and "length (root_name @ ''/'' @ t) \<le> 1024"
  shows "canonical_path (root_name @ ''/'' @ t)"
proof -
  have "split_on (CHR ''/'') [] (root_name @ CHR ''/'' # t) = root_name # split_on (CHR ''/'') [] t"
    using root by (subst split_on_next) auto
  moreover have "root_name \<noteq> ''''" "\<not> starts_with ''.'' root_name" "\<not> starts_with ''@'' (root_name @ ''/'' @ t)" "CHR '':'' \<notin> set root_name"
    "CHR 0x5C \<notin> set root_name" "\<not> list_ex is_control root_name" "\<not> is_control (CHR ''/'')"
    using root by (auto simp: starts_with_def is_control_def)
  moreover have "ends_with ''.md'' (toLowerCase (root_name @ ''/'' @ t))"
    unfolding lower_append by (intro ends_with_append assms(5))
  ultimately show ?thesis
    using assms by (simp add: canonical_path_def)
qed

theorem targets_canonical:
  "(projectTarget target = Inr (t, p) \<longrightarrow> p = ''projects/'' @ t \<and> canonical_path p) \<and>
   (wikiTarget target = Inr (w, q, True) \<longrightarrow> q = ''wiki/'' @ w \<and> canonical_path q)"
proof (intro conjI impI)
  assume "projectTarget target = Inr (t, p)"
  then have n: "normalizeCollectionTarget target Project_label False = Inr t" "ends_with ''.md'' (toLowerCase t)"
    "p = ''projects/'' @ t" "length p \<le> 1024"
    by (auto simp: projectTarget_def try_bind_Inr_iff requireCollectionPathLength_def split: if_splits)
  then have "t \<noteq> ''''"
    by (auto simp: toLowerCase_def ends_with_def)
  from collection_target_parts [OF n(1) this] show "p = ''projects/'' @ t" "canonical_path p"
    using n below_root_canonical [of t "''projects''"] by simp_all
next
  assume "wikiTarget target = Inr (w, q, True)"
  then have n: "normalizeCollectionTarget target Wiki_label True = Inr w" "ends_with ''.md'' (toLowerCase w)"
    "q = ''wiki/'' @ w" "length q \<le> 1024"
    by (auto simp: wikiTarget_def try_bind_Inr_iff requireCollectionPathLength_def Let_def split: if_splits)
  then have "w \<noteq> ''''"
    by (auto simp: toLowerCase_def ends_with_def)
  from collection_target_parts [OF n(1) this] show "q = ''wiki/'' @ w" "canonical_path q"
    using n below_root_canonical [of w "''wiki''"] by simp_all
qed


theorem targets_canonical_witness:
  "projectTarget (Some ''platform/roadmap.md'') = Inr (''platform/roadmap.md'', ''projects/platform/roadmap.md'') \<and>
   canonical_path ''projects/platform/roadmap.md'' \<and>
   wikiTarget (Some ''guides/setup.md'') = Inr (''guides/setup.md'', ''wiki/guides/setup.md'', True) \<and>
   canonical_path ''wiki/guides/setup.md''"
proof -
  have "projectTarget (Some ''platform/roadmap.md'') = Inr (''platform/roadmap.md'', ''projects/platform/roadmap.md'')"
    "wikiTarget (Some ''guides/setup.md'') = Inr (''guides/setup.md'', ''wiki/guides/setup.md'', True)"
    by code_simp+
  then show ?thesis
    using targets_canonical [of "Some ''platform/roadmap.md''" "''platform/roadmap.md''" "''projects/platform/roadmap.md''"
        "''guides/setup.md''" "''wiki/guides/setup.md''"]
      targets_canonical [of "Some ''guides/setup.md''" "''platform/roadmap.md''" "''projects/platform/roadmap.md''"
        "''guides/setup.md''" "''wiki/guides/setup.md''"] by simp
qed

section \<open>Exact edits replace the one occurrence\<close>

definition only_at :: "string \<Rightarrow> string \<Rightarrow> string \<Rightarrow> string \<Rightarrow> bool" where
  "only_at p s a b \<longleftrightarrow> s = a @ p @ b \<and> (\<forall>a' b'. s = a' @ p @ b' \<longrightarrow> a' = a)"

lemma index_of_first: "index_of p (a @ p @ b) = Some i \<Longrightarrow> i \<le> length a"
proof (induction a arbitrary: i)
  case Nil
  have "starts_with p (p @ b)"
    by (simp add: starts_with_iff)
  with Nil show ?case
    by (cases "p @ b") (auto split: if_splits)
next
  case (Cons c a)
  then show ?case
    by (auto split: if_splits)
qed

lemma index_of_found: "\<exists>i. index_of p (a @ p @ b) = Some i"
  using index_of_None [of p "a @ p @ b"] by (cases "index_of p (a @ p @ b)") auto

lemma only_at_index:
  assumes "p \<noteq> ''''"
  shows "(\<exists>b. only_at p s (take i s) b) \<and> i \<le> length s \<longleftrightarrow> index_of p s = Some i \<and> index_from p s (i + 1) = None"
proof
  assume l: "(\<exists>b. only_at p s (take i s) b) \<and> i \<le> length s"
  then obtain b where b: "s = take i s @ p @ b" "\<And>a' b'. s = a' @ p @ b' \<Longrightarrow> a' = take i s"
    unfolding only_at_def by metis
  obtain k where k: "index_of p s = Some k"
    using index_of_found [of p "take i s" b] b(1) by metis
  obtain t where t: "s = take k s @ p @ t" "k + length p \<le> length s"
    using index_of_Some [OF k] by blast
  have "take k s = take i s"
    using b(2) [OF t(1)] by simp
  then have "k = i"
    using l t(2) by (metis add_leD1 length_take min.absorb2)
  moreover have "index_from p s (i + 1) = None"
  proof (rule ccontr)
    assume "index_from p s (i + 1) \<noteq> None"
    then obtain j where "index_of p (drop (i + 1) s) = Some j"
      by (auto simp: index_from_def)
    then obtain u where u: "drop (i + 1) s = take j (drop (i + 1) s) @ p @ u" "j + length p \<le> length (drop (i + 1) s)"
      using index_of_Some by blast
    then have "s = (take (i + 1) s @ take j (drop (i + 1) s)) @ p @ u"
      by (metis append.assoc append_take_drop_id)
    then have "take (i + 1) s @ take j (drop (i + 1) s) = take i s"
      by (rule b(2))
    then have "length (take (i + 1) s @ take j (drop (i + 1) s)) = length (take i s)"
      by (rule arg_cong)
    moreover have "i + 1 \<le> length s"
      using u(2) assms by (cases p) auto
    ultimately show False
      by simp
  qed
  ultimately show "index_of p s = Some i \<and> index_from p s (i + 1) = None"
    using k by simp
next
  assume r: "index_of p s = Some i \<and> index_from p s (i + 1) = None"
  then obtain t where t: "s = take i s @ p @ t" "i + length p \<le> length s"
    using index_of_Some by blast
  have "a' = take i s" if "s = a' @ p @ b'" for a' b'
  proof -
    have "i \<le> length a'"
      using index_of_first [of p a' b' i] r that by simp
    moreover have "\<not> i < length a'"
    proof
      assume "i < length a'"
      then have "drop (i + 1) s = drop (i + 1) a' @ p @ b'"
        using that by simp
      then show False
        using index_of_found [of p "drop (i + 1) a'" b'] r by (auto simp: index_from_def)
    qed
    ultimately show ?thesis
      using that by simp
  qed
  then show "(\<exists>b. only_at p s (take i s) b) \<and> i \<le> length s"
    using t unfolding only_at_def by auto
qed

text \<open>Each edit replaces the only occurrence of its text, and no intermediate note is too large.\<close>

fun edits_chain :: "exact_edit list \<Rightarrow> string \<Rightarrow> string \<Rightarrow> bool" where
  "edits_chain [] s r \<longleftrightarrow> r = s"
| "edits_chain (e # es) s r \<longleftrightarrow>
     ee_oldText e \<noteq> '''' \<and>
     (\<exists>a b. only_at (ee_oldText e) s a b \<and> byte_length (a @ ee_newText e @ b) \<le> MAX_NOTE_BYTES \<and>
        edits_chain es (a @ ee_newText e @ b) r)"

lemma apply_edits_chain:
  "n = byte_length s \<Longrightarrow> apply_edits_from s n es = Inr (r, m) \<longleftrightarrow> m = byte_length r \<and> edits_chain es s r"
proof (induction es arbitrary: s n)
  case Nil
  then show ?case by auto
next
  case (Cons e es)
  let ?p = "ee_oldText e"
  show ?case
  proof (cases "?p \<noteq> '''' \<and> (\<exists>i. index_of ?p s = Some i \<and> index_from ?p s (i + 1) = None)")
    case True
    then obtain i where p: "?p \<noteq> ''''" and i: "index_of ?p s = Some i" "index_from ?p s (i + 1) = None"
      by blast
    then obtain b where b: "only_at ?p s (take i s) b"
      using only_at_index [OF p] by blast
    then have s: "s = take i s @ ?p @ b"
      unfolding only_at_def by blast
    let ?next = "take i s @ ee_newText e @ b"
    have drop_eq: "drop (i + length ?p) s = b"
      using index_of_Some [OF i(1)] s by (metis add_leD1 append_eq_conv_conj drop_drop length_take min.absorb2 add.commute)
    have bytes: "n - byte_length ?p + byte_length (ee_newText e) = byte_length ?next"
      using Cons.prems arg_cong [OF s, of byte_length] by simp
    have unique: "only_at ?p s a b' \<longleftrightarrow> a = take i s \<and> b' = b" for a b'
      using b s unfolding only_at_def by (metis append_same_eq same_append_eq)
    have "apply_edits_from s n (e # es) =
        (if byte_length ?next > MAX_NOTE_BYTES then Inl (noteSizeError ''Edited note'')
         else apply_edits_from ?next (byte_length ?next) es)"
      using p i drop_eq bytes by (simp add: Let_def add_ac)
    then show ?thesis
      using Cons.IH [of "byte_length ?next" ?next] p by (auto simp: unique)
  next
    case False
    have "\<not> edits_chain (e # es) s r"
    proof
      assume c: "edits_chain (e # es) s r"
      then obtain a b where a: "?p \<noteq> ''''" "only_at ?p s a b"
        by auto
      have split: "s = a @ ?p @ b"
        using a(2) unfolding only_at_def by (rule conjunct1)
      have eq: "take (length a) s = a" "length a \<le> length s"
        unfolding split by simp_all
      have "\<exists>b. only_at ?p s (take (length a) s) b"
        unfolding eq(1) using a(2) by (rule exI)
      then have "index_of ?p s = Some (length a) \<and> index_from ?p s (length a + 1) = None"
        using only_at_index [OF a(1), of s "length a"] eq(2) by simp
      then show False
        using False a(1) by simp
    qed
    moreover have "\<exists>err. apply_edits_from s n (e # es) = Inl err"
      using False by (cases "index_of ?p s") auto
    ultimately show ?thesis by auto
  qed
qed

definition payload_bytes :: "exact_edit list \<Rightarrow> string option \<Rightarrow> nat" where
  "payload_bytes edits tail_text =
     byte_length (case tail_text of None \<Rightarrow> '''' | Some a \<Rightarrow> a) +
     sum_list (map (\<lambda>e. byte_length (ee_oldText e) + byte_length (ee_newText e)) edits)"

text \<open>C32: 
  An edit is accepted exactly when the note and the payload are within the limit and each edit in
  turn finds its text exactly once, overlapping occurrences included, and leaves a note within the
  limit; the answer is the note with these replacements, followed by the appended text.
\<close>

theorem exact_edits_spec:
  "applyExactEdits original edits tail_text = Inr r \<longleftrightarrow>
     byte_length original \<le> MAX_NOTE_BYTES \<and> payload_bytes edits tail_text \<le> MAX_NOTE_BYTES \<and>
     (\<exists>s. edits_chain edits original s \<and>
        (case tail_text of None \<Rightarrow> r = s | Some a \<Rightarrow> r = s @ a \<and> byte_length r \<le> MAX_NOTE_BYTES))"
proof (cases "byte_length original \<le> MAX_NOTE_BYTES \<and> payload_bytes edits tail_text \<le> MAX_NOTE_BYTES")
  case True
  have chain: "apply_edits_from original (byte_length original) edits = Inr (t, m) \<longleftrightarrow>
      m = byte_length t \<and> edits_chain edits original t" for t m
    by (rule apply_edits_chain) simp
  have eq: "applyExactEdits original edits tail_text =
      try_bind (apply_edits_from original (byte_length original) edits) (\<lambda>(s, n).
        case tail_text of None \<Rightarrow> Inr s | Some a \<Rightarrow>
          if n + byte_length a > MAX_NOTE_BYTES then Inl (noteSizeError ''Edited note'') else Inr (s @ a))"
    using True by (cases tail_text) (auto simp: applyExactEdits_def assertNoteSize_def payload_bytes_def Let_def)
  show ?thesis
  proof (cases "apply_edits_from original (byte_length original) edits")
    case (Inl err)
    then have "\<not> edits_chain edits original s" for s
      using chain [of s "byte_length s"] by simp
    then show ?thesis
      using Inl by (simp add: eq)
  next
    case (Inr p)
    then obtain t where t: "apply_edits_from original (byte_length original) edits = Inr (t, byte_length t)"
      using chain by (cases p) auto
    have only: "edits_chain edits original s \<longleftrightarrow> s = t" for s
      using chain [of s "byte_length s"] t by auto
    show ?thesis
      unfolding eq t only using True by (cases tail_text) auto
  qed
next
  case False
  then show ?thesis
    by (auto simp: applyExactEdits_def assertNoteSize_def payload_bytes_def try_bind_Inr_iff Let_def split: if_splits)
qed

end
