(* ===== verification/Notes_Contract.thy ===== *)
theory Notes_Contract
  imports Notes_Schema Notes_Validation Effects
begin

text \<open>
  The actions of the notes tool (\<open>extensions/notes/contract.ts\<close>) over a provider. A provider is a
  record of actions on its own state; what they return is untyped and is validated before use. An
  action of the tool is an action on that state.
\<close>

section \<open>Providers and the environment\<close>

text \<open>
  \<open>np_list\<close> takes a prefix, a limit and a cursor; \<open>np_write\<close> a path, a content and the revision it
  expects (\<open>None\<close> for \<open>null\<close>); \<open>np_resolve\<close> may be missing.
\<close>

record 's notes_provider =
  np_index :: "('s, notes_error, jsval) act"
  np_list :: "string option \<Rightarrow> nat \<Rightarrow> string option \<Rightarrow> ('s, notes_error, jsval) act"
  np_read :: "string \<Rightarrow> ('s, notes_error, jsval) act"
  np_search :: "string \<Rightarrow> nat \<Rightarrow> ('s, notes_error, jsval) act"
  np_resolve :: "(string \<Rightarrow> ('s, notes_error, jsval) act) option"
  np_write :: "string \<Rightarrow> string \<Rightarrow> string option \<Rightarrow> ('s, notes_error, jsval) act"
  np_delete :: "string \<Rightarrow> string \<Rightarrow> ('s, notes_error, jsval) act"

text \<open>What \<open>truncateHead\<close> answers.\<close>

record clipped =
  ct_truncated :: bool
  ct_content :: string
  ct_outputBytes :: nat
  ct_totalBytes :: nat

text \<open>
  What comes from outside the repository: how numbers are printed, \<open>localeCompare\<close>, \<open>truncateHead\<close> and
  \<open>formatSize\<close> of the agent library, the schema library; the local time of the call; and the dash,
  which is outside the code points of strings here.
\<close>

record notes_env =
  nv_num :: "jsnumber \<Rightarrow> string"
  nv_collate :: "string \<Rightarrow> string \<Rightarrow> int"
  nv_clip :: "string \<Rightarrow> clipped"
  nv_size :: "nat \<Rightarrow> string"
  nv_errors :: schema_errors
  nv_now :: local_time
  nv_dash :: string

definition MAX_COLLECTION_DOCUMENTS_PER_READ :: nat where "MAX_COLLECTION_DOCUMENTS_PER_READ = 32"
definition MAX_PROVIDER_LIST_PAGES :: nat where "MAX_PROVIDER_LIST_PAGES = 100"

section \<open>Results\<close>

record notes_details =
  nt_action :: notes_action
  nt_collection :: "collection option"
  nt_path :: "string option"
  nt_revision :: "string option"
  nt_notes :: "jsval list option"
  nt_results :: "jsval list option"
  nt_items :: "jsval list option"
  nt_nextCursor :: "string option"
  nt_truncated :: bool

definition action_details :: "notes_params \<Rightarrow> collection option \<Rightarrow> notes_details" where
  "action_details p c =
     \<lparr>nt_action = pm_action p, nt_collection = c, nt_path = None, nt_revision = None, nt_notes = None, nt_results = None,
      nt_items = None, nt_nextCursor = None, nt_truncated = False\<rparr>"

definition bounded_list :: "jsval list option \<Rightarrow> jsval list option" where
  "bounded_list l = map_option (take MAX_DETAIL_ITEMS) l"

definition list_too_long :: "jsval list option \<Rightarrow> bool" where
  "list_too_long l = (case l of None \<Rightarrow> False | Some xs \<Rightarrow> length xs > MAX_DETAIL_ITEMS)"

definition boundDetails :: "notes_details \<Rightarrow> notes_details" where
  "boundDetails d =
     d\<lparr>nt_notes := bounded_list (nt_notes d), nt_results := bounded_list (nt_results d), nt_items := bounded_list (nt_items d),
       nt_truncated := nt_truncated d \<or> list_too_long (nt_notes d) \<or> list_too_long (nt_results d) \<or> list_too_long (nt_items d)\<rparr>"

type_synonym notes_result = "string \<times> notes_details"

definition newline :: string where "newline = [CHR 0x0A]"

definition result_of :: "notes_env \<Rightarrow> string \<Rightarrow> notes_details \<Rightarrow> notes_result" where
  "result_of env t d =
     (let c = nv_clip env t; b = boundDetails d in
      (if ct_truncated c
       then ct_content c @ newline @ newline @ ''[Output truncated: '' @ nv_size env (ct_outputBytes c) @ '' of '' @
              nv_size env (ct_totalBytes c) @ ''.]''
       else ct_content c,
       if ct_truncated c then b\<lparr>nt_truncated := True\<rparr> else b))"

section \<open>Values in JSON\<close>

definition num_field :: "string \<Rightarrow> jsnumber option \<Rightarrow> (string \<times> jsval) list" where
  "num_field k v = given k JNum v"

definition metadata_json :: "int option \<Rightarrow> jsnumber option \<Rightarrow> (string \<times> jsval) list" where
  "metadata_json bytes modifiedAt = given ''size'' js_num bytes @ num_field ''modifiedAt'' modifiedAt"

definition entry_fields :: "note_entry \<Rightarrow> (string \<times> jsval) list" where
  "entry_fields e =
     (''path'', JStr (ne_path e)) # given ''revision'' JStr (ne_revision e) @ metadata_json (ne_size e) (ne_modifiedAt e)"

definition entry_json :: "note_entry \<Rightarrow> jsval" where
  "entry_json e = JObj (entry_fields e)"

definition search_json :: "search_result \<Rightarrow> jsval" where
  "search_json r =
     JObj ((''path'', JStr (se_path r)) # given ''revision'' JStr (se_revision r) @ metadata_json (se_size r) (se_modifiedAt r) @
       given ''title'' JStr (se_title r) @ given ''snippet'' JStr (se_snippet r) @ num_field ''score'' (se_score r))"

definition worklog_json :: "list_item \<Rightarrow> (string \<times> jsval) list" where
  "worklog_json i =
     [(''date'', JStr (li_date i)), (''text'', JStr (li_text i)), (''nestedDetails'', JArr (map JStr (li_nestedDetails i))),
      (''sourcePath'', JStr (li_sourcePath i)), (''position'', js_num (int (li_position i)))]"

definition item_json :: "list_item \<Rightarrow> jsval" where
  "item_json i =
     JObj (if li_kind i = Worklog_kind then worklog_json i
           else worklog_json i @ (''kind'', JStr (kind_name (li_kind i))) # given ''checked'' JBool (li_checked i))"

definition project_json :: "project_item \<Rightarrow> jsval" where
  "project_json i = JObj ((''target'', JStr (pi_target i)) # entry_fields (pi_entry i))"

fun child_json :: "wiki_child \<Rightarrow> jsval" where
  "child_json (Folder_child t p) = JObj [(''kind'', JStr ''folder''), (''target'', JStr t), (''path'', JStr p)]"
| "child_json (File_child t e) = JObj ((''kind'', JStr ''file'') # (''target'', JStr t) # entry_fields e)"

definition json_bytes :: "notes_env \<Rightarrow> jsval \<Rightarrow> nat" where
  "json_bytes env v = byte_length (stringify (nv_num env) v)"

text \<open>\<open>JSON.stringify(v, null, 2)\<close>\<close>

definition pretty_block :: "string \<Rightarrow> char \<Rightarrow> char \<Rightarrow> string list \<Rightarrow> string" where
  "pretty_block indent a b parts =
     (if parts = [] then [a, b]
      else a # newline @ indent @ ''  '' @ join_with ('','' @ newline @ indent @ ''  '') parts @ newline @ indent @ [b])"

fun pretty :: "(jsnumber \<Rightarrow> string) \<Rightarrow> string \<Rightarrow> jsval \<Rightarrow> string" where
  "pretty num indent (JArr vs) =
     pretty_block indent (CHR ''['') (CHR '']'')
       (map (\<lambda>v. if v = JUndefined then ''null'' else pretty num (indent @ ''  '') v) vs)"
| "pretty num indent (JObj ps) =
     pretty_block indent (CHR ''{'') (CHR ''}'')
       (map (\<lambda>(k, v). json_string k @ '': '' @ pretty num (indent @ ''  '') v) (filter (\<lambda>(k, v). v \<noteq> JUndefined) ps))"
| "pretty num indent v = stringify num v"

definition collectionText :: "notes_env \<Rightarrow> string \<Rightarrow> jsval list \<Rightarrow> string option \<Rightarrow> string" where
  "collectionText env label items nextCursor =
     label @ '' results:'' @ newline @
     pretty (nv_num env) '''' (JObj ((''items'', JArr items) # given ''nextCursor'' JStr nextCursor))"

definition collectionResult :: "notes_env \<Rightarrow> notes_params \<Rightarrow> collection \<Rightarrow> string \<Rightarrow> jsval list \<times> string option \<Rightarrow> notes_result" where
  "collectionResult env p c label envelope =
     result_of env (collectionText env label (fst envelope) (snd envelope))
       ((action_details p (Some c))\<lparr>nt_items := Some (fst envelope), nt_nextCursor := snd envelope\<rparr>)"

definition formatDocument :: "string \<Rightarrow> string \<Rightarrow> string \<Rightarrow> string" where
  "formatDocument path revision content =
     ''[Note path='' @ json_string path @ '' revision='' @ json_string revision @ '']'' @ newline @ content"

definition formatList :: "note_entry list \<Rightarrow> string option \<Rightarrow> string option \<Rightarrow> string" where
  "formatList notes pre nextCursor =
     join_with newline
       ((''Found '' @ show_nat (length notes) @ '' note(s)'' @
          (case pre of Some p \<Rightarrow> if p \<noteq> '''' then '' under '' @ p else '''' | None \<Rightarrow> '''') @ '':'') #
        map (\<lambda>e. ''- '' @ ne_path e @ (case ne_size e of None \<Rightarrow> '''' | Some n \<Rightarrow> '' ('' @ show_int n @ ''B)'')) notes @
        (case nextCursor of None \<Rightarrow> [] | Some c \<Rightarrow> [''Continuation cursor: '' @ c]))"

definition formatSearch :: "notes_env \<Rightarrow> search_result list \<Rightarrow> string" where
  "formatSearch env rs =
     (if rs = [] then ''No matching notes.''
      else join_with newline (map (\<lambda>(i, r).
        show_nat (i + 1) @ ''. '' @ se_path r @
        (if truthy (se_title r) then '' '' @ nv_dash env @ '' '' @ the (se_title r) else '''') @
        (if truthy (se_snippet r) then newline @ ''  '' @ the (se_snippet r) else '''')) (enumerate 0 rs)))"

section \<open>Guards of the arguments\<close>

definition requirePath :: "notes_params \<Rightarrow> notes_error + string" where
  "requirePath p =
     (case pm_path p of
        None \<Rightarrow> Inl (Plain_error (''notes '' @ action_name (pm_action p) @ '' requires path''))
      | Some s \<Rightarrow>
          if s = '''' then Inl (Plain_error (''notes '' @ action_name (pm_action p) @ '' requires path''))
          else normalizeStorePath s True True)"

definition requireSearchQuery :: "notes_params \<Rightarrow> notes_error + string" where
  "requireSearchQuery p =
     (case pm_query p of
        None \<Rightarrow> Inl (Plain_error ''notes search requires query'')
      | Some q \<Rightarrow>
          if q = '''' \<or> trim_string q = '''' then Inl (Plain_error ''notes search requires query'')
          else if length q > MAX_SEARCH_QUERY_LENGTH
            then Inl (Provider_error Resource_limit
                   (''Notes search query exceeds '' @ show_nat MAX_SEARCH_QUERY_LENGTH @ '' characters.''))
          else Inr q)"

definition requireReference :: "notes_params \<Rightarrow> notes_error + string" where
  "requireReference p =
     (case pm_reference p of
        None \<Rightarrow> Inl (Plain_error ''notes resolve requires reference'')
      | Some r \<Rightarrow>
          if r = '''' then Inl (Plain_error ''notes resolve requires reference'')
          else if length r > 256 \<or> list_ex is_control r then Inl (Provider_error Invalid_path ''Invalid note reference.'')
          else Inr r)"

definition requireWriteRevision :: "notes_params \<Rightarrow> notes_error + string option" where
  "requireWriteRevision p =
     (case pm_revision p of
        None \<Rightarrow> Inl (Plain_error ''notes write requires revision; use null only when creating a note'')
      | Some None \<Rightarrow> Inr None
      | Some (Some r) \<Rightarrow> try_bind (validateRevision r Invalid_revision) (\<lambda>_. Inr (Some r)))"

definition requireExistingRevision :: "notes_params \<Rightarrow> notes_error + string" where
  "requireExistingRevision p =
     (case pm_revision p of
        Some (Some r) \<Rightarrow> try_bind (validateRevision r Invalid_revision) (\<lambda>_. Inr r)
      | _ \<Rightarrow> Inl (Plain_error (''notes '' @ action_name (pm_action p) @ '' requires the revision returned by read'')))"

definition conflict :: "string \<Rightarrow> notes_error" where
  "conflict p = Provider_error Conflict (''Note changed since it was read: '' @ p)"

definition requireInboxKind :: "item_kind option \<Rightarrow> notes_error + item_kind" where
  "requireInboxKind k =
     (case k of
        Some Note_kind \<Rightarrow> Inr Note_kind
      | Some Followup_kind \<Rightarrow> Inr Followup_kind
      | _ \<Rightarrow> Inl (Plain_error ''notes inbox write requires kind note or followup''))"

definition requireItemText :: "string option \<Rightarrow> string \<Rightarrow> notes_error + string" where
  "requireItemText t operation =
     (case t of
        None \<Rightarrow> Inl (Plain_error (operation @ '' requires text''))
      | Some s \<Rightarrow> if trim_string s = '''' then Inl (Plain_error (operation @ '' requires text'')) else Inr s)"

definition collectionLimit :: "nat option \<Rightarrow> nat" where
  "collectionLimit limit = min (case limit of None \<Rightarrow> DEFAULT_COLLECTION_LIMIT | Some n \<Rightarrow> n) MAX_COLLECTION_LIMIT"

definition invalidCollectionAction :: "notes_place \<Rightarrow> notes_action \<Rightarrow> notes_error" where
  "invalidCollectionAction c a = Plain_error (''notes '' @ place_name c @ '' does not support action '' @ action_name a)"

definition wikiChildCursorKey :: "wiki_child \<Rightarrow> string" where
  "wikiChildCursorKey c = (if child_is_folder c then ''folder'' else ''file'') @ '':'' @ child_target c"

definition invalidCollectionCursor :: notes_error where
  "invalidCollectionCursor =
     Provider_error Invalid_path ''Notes continuation cursor no longer matches the collection inventory.''"

section \<open>Calls of the provider\<close>

definition checked :: "('s, notes_error, jsval) act \<Rightarrow> (jsval \<Rightarrow> notes_error + 'a) \<Rightarrow> ('s, notes_error, 'a) act" where
  "checked call validate = act_bind call (\<lambda>v. act_lift (validate v))"

definition readOptionalDocument :: "'s notes_provider \<Rightarrow> string \<Rightarrow> ('s, notes_error, note_document option) act" where
  "readOptionalDocument pr path =
     act_catch (act_bind (checked (np_read pr path) (\<lambda>v. validateDocument v (Some path))) (\<lambda>d. act_ret (Some d)))
       (\<lambda>e. case e of Provider_error Not_found _ \<Rightarrow> act_ret None | _ \<Rightarrow> act_throw e)"

fun add_listed :: "note_entry list \<Rightarrow> note_entry list \<Rightarrow> notes_error + note_entry list" where
  "add_listed entries [] = Inr entries"
| "add_listed entries (e # es) =
     (if ne_path e \<in> ne_path ` set entries
      then Inl (providerContractError ''Notes provider returned a duplicate paginated list entry.'')
      else add_listed (entries @ [e]) es)"

text \<open>The pages from a cursor on; the first argument counts the pages that may still be asked for.\<close>

fun list_pages :: "'s notes_provider \<Rightarrow> string \<Rightarrow> nat \<Rightarrow> note_entry list \<Rightarrow> string option \<Rightarrow> ('s, notes_error, note_entry list) act" where
  "list_pages pr pre 0 entries cursor =
     act_throw (Provider_error Resource_limit
       (''Collection inventory exceeds '' @ show_nat MAX_PROVIDER_LIST_PAGES @ '' provider pages.''))"
| "list_pages pr pre (Suc pages) entries cursor =
     (let pageLimit = min 1000 (MAX_NOTE_COUNT - length entries) in
      if pageLimit = 0
      then act_throw (Provider_error Resource_limit
             (''Collection inventory exceeds '' @ show_nat MAX_NOTE_COUNT @ '' notes.''))
      else act_bind (checked (np_list pr (Some pre) pageLimit cursor) (\<lambda>v. validateListResult v pageLimit)) (\<lambda>(listed, next).
        act_bind (act_lift (add_listed entries listed)) (\<lambda>entries.
          if next \<noteq> None \<and> next = cursor
          then act_throw (providerContractError ''Notes provider returned a non-advancing list cursor.'')
          else if next = None then act_ret entries
          else list_pages pr pre pages entries next)))"

definition listComplete :: "'s notes_provider \<Rightarrow> string \<Rightarrow> ('s, notes_error, note_entry list) act" where
  "listComplete pr pre = list_pages pr pre MAX_PROVIDER_LIST_PAGES [] None"

definition canonicalPaths ::
  "notes_env \<Rightarrow> 's notes_provider \<Rightarrow> string \<Rightarrow> (string \<Rightarrow> string option) \<Rightarrow> collection_order \<Rightarrow> ('s, notes_error, string list) act" where
  "canonicalPaths env pr pre date_of order =
     act_bind (listComplete pr pre) (\<lambda>entries.
       let paths = js_sort (nv_collate env) (map ne_path (filter (\<lambda>e. date_of (ne_path e) \<noteq> None) entries))
       in act_ret (if order = Newest then rev paths else paths))"

section \<open>The store\<close>

definition documentResult ::
  "notes_env \<Rightarrow> notes_params \<Rightarrow> jsval \<Rightarrow> string option \<Rightarrow> collection option \<Rightarrow> notes_error + notes_result" where
  "documentResult env p candidate expectedPath c =
     try_bind (validateDocument candidate expectedPath) (\<lambda>note.
       Inr (result_of env (formatDocument (nd_path note) (nd_revision note) (nd_content note))
         ((action_details p c)\<lparr>nt_path := Some (nd_path note), nt_revision := Some (nd_revision note)\<rparr>)))"

definition readDocumentAction ::
  "notes_env \<Rightarrow> 's notes_provider \<Rightarrow> notes_params \<Rightarrow> string \<Rightarrow> collection option \<Rightarrow> ('s, notes_error, notes_result) act" where
  "readDocumentAction env pr p path c = checked (np_read pr path) (\<lambda>v. documentResult env p v (Some path) c)"

definition mutation_details :: "notes_params \<Rightarrow> collection option \<Rightarrow> string \<Rightarrow> string option \<Rightarrow> notes_details" where
  "mutation_details p c path revision = (action_details p c)\<lparr>nt_path := Some path, nt_revision := revision\<rparr>"

definition writeDocumentAction ::
  "notes_env \<Rightarrow> 's notes_provider \<Rightarrow> notes_params \<Rightarrow> string \<Rightarrow> collection option \<Rightarrow> ('s, notes_error, notes_result) act" where
  "writeDocumentAction env pr p path c =
     (case pm_content p of
        None \<Rightarrow>
          act_throw (Plain_error ((case c of None \<Rightarrow> ''notes write'' | Some k \<Rightarrow> ''notes '' @ collection_name k @ '' write'') @
            '' requires content''))
      | Some content \<Rightarrow>
          act_bind (act_lift (assertNoteSize content)) (\<lambda>_.
          act_bind (act_lift (requireWriteRevision p)) (\<lambda>revision.
          act_bind (checked (np_write pr path content revision) (\<lambda>v. validateMutation v path)) (\<lambda>(path, revision).
          act_ret (result_of env (''Wrote '' @ path) (mutation_details p c path revision))))))"

definition indexAction :: "notes_env \<Rightarrow> 's notes_provider \<Rightarrow> notes_params \<Rightarrow> ('s, notes_error, notes_result) act" where
  "indexAction env pr p =
     act_bind (checked (np_index pr) validateIndex) (\<lambda>(t, entries).
       act_ret (result_of env t ((action_details p None)\<lparr>nt_notes := map_option (map entry_json) entries\<rparr>)))"

definition listAction :: "notes_env \<Rightarrow> 's notes_provider \<Rightarrow> notes_params \<Rightarrow> ('s, notes_error, notes_result) act" where
  "listAction env pr p =
     act_bind (act_lift (case pm_prefix p of None \<Rightarrow> Inr None | Some s \<Rightarrow> try_bind (normalizePrefix s) (\<lambda>t. Inr (Some t)))) (\<lambda>pre.
       let limit = min (case pm_limit p of None \<Rightarrow> MAX_DETAIL_ITEMS | Some n \<Rightarrow> n) MAX_DETAIL_ITEMS in
       act_bind (checked (np_list pr pre limit (pm_cursor p)) (\<lambda>v. validateListResult v limit)) (\<lambda>(entries, next).
         act_ret (result_of env (formatList entries pre next)
           ((action_details p None)\<lparr>nt_notes := Some (map entry_json entries), nt_nextCursor := next, nt_truncated := next \<noteq> None\<rparr>))))"

definition readAction :: "notes_env \<Rightarrow> 's notes_provider \<Rightarrow> notes_params \<Rightarrow> ('s, notes_error, notes_result) act" where
  "readAction env pr p = act_bind (act_lift (requirePath p)) (\<lambda>path. readDocumentAction env pr p path None)"

definition searchAction :: "notes_env \<Rightarrow> 's notes_provider \<Rightarrow> notes_params \<Rightarrow> ('s, notes_error, notes_result) act" where
  "searchAction env pr p =
     act_bind (act_lift (requireSearchQuery p)) (\<lambda>query.
       let limit = min (case pm_limit p of None \<Rightarrow> MAX_SEARCH_RESULTS | Some n \<Rightarrow> n) MAX_SEARCH_RESULTS in
       act_bind (checked (np_search pr query limit) validateSearchResults) (\<lambda>candidates.
         act_ret (result_of env (formatSearch env (take limit candidates))
           ((action_details p None)\<lparr>nt_results := Some (map search_json (take limit candidates)),
              nt_truncated := length candidates > limit\<rparr>))))"

definition resolveAction :: "notes_env \<Rightarrow> 's notes_provider \<Rightarrow> notes_params \<Rightarrow> ('s, notes_error, notes_result) act" where
  "resolveAction env pr p =
     (case np_resolve pr of
        None \<Rightarrow> act_throw (Provider_error Unsupported_reference ''The configured notes provider does not support references.'')
      | Some resolve \<Rightarrow>
          act_bind (act_lift (requireReference p)) (\<lambda>reference.
            checked (resolve reference) (\<lambda>v. documentResult env p v None None)))"

definition writeAction :: "notes_env \<Rightarrow> 's notes_provider \<Rightarrow> notes_params \<Rightarrow> ('s, notes_error, notes_result) act" where
  "writeAction env pr p = act_bind (act_lift (requirePath p)) (\<lambda>path. writeDocumentAction env pr p path None)"

definition editAction :: "notes_env \<Rightarrow> 's notes_provider \<Rightarrow> notes_params \<Rightarrow> ('s, notes_error, notes_result) act" where
  "editAction env pr p =
     act_bind (act_lift (requirePath p)) (\<lambda>path.
       if (pm_edits p = None \<or> pm_edits p = Some []) \<and> pm_append p = None
       then act_throw (Plain_error ''notes edit requires edits or append'')
       else
         act_bind (act_lift (requireExistingRevision p)) (\<lambda>revision.
         act_bind (checked (np_read pr path) (\<lambda>v. validateDocument v (Some path))) (\<lambda>note.
           if nd_revision note \<noteq> revision then act_throw (conflict path)
           else
             act_bind (act_lift (applyExactEdits (nd_content note) (case pm_edits p of None \<Rightarrow> [] | Some es \<Rightarrow> es) (pm_append p)))
               (\<lambda>content.
             act_bind (checked (np_write pr path content (Some revision)) (\<lambda>v. validateMutation v path)) (\<lambda>(path, revision).
             act_ret (result_of env (''Edited '' @ path) (mutation_details p None path revision)))))))"

definition deleteAction :: "notes_env \<Rightarrow> 's notes_provider \<Rightarrow> notes_params \<Rightarrow> ('s, notes_error, notes_result) act" where
  "deleteAction env pr p =
     act_bind (act_lift (requirePath p)) (\<lambda>path.
     act_bind (act_lift (requireExistingRevision p)) (\<lambda>revision.
     act_bind (checked (np_delete pr path revision) (\<lambda>v. validateMutation v path)) (\<lambda>(path, _).
     act_ret (result_of env (''Deleted '' @ path) (mutation_details p None path None)))))"

section \<open>The inbox\<close>

definition inboxResult :: "notes_env \<Rightarrow> notes_params \<Rightarrow> list_item list \<times> string option \<Rightarrow> notes_result" where
  "inboxResult env p envelope = collectionResult env p Inbox ''Inbox'' (map item_json (fst envelope), snd envelope)"

definition item_bytes :: "notes_env \<Rightarrow> list_item \<Rightarrow> nat" where
  "item_bytes env i = json_bytes env (item_json i)"

definition inbox_items :: "string \<Rightarrow> string \<Rightarrow> note_document option \<Rightarrow> list_item list" where
  "inbox_items date path note = (case note of None \<Rightarrow> [] | Some d \<Rightarrow> extractInboxItems (nd_content d) date path)"

definition datedInboxRead ::
  "notes_env \<Rightarrow> 's notes_provider \<Rightarrow> notes_params \<Rightarrow> string \<Rightarrow> ('s, notes_error, notes_result) act" where
  "datedInboxRead env pr p date =
     act_bind (act_lift (decodeCursor (pm_cursor p) Inbox date)) (\<lambda>cursor.
     act_bind (act_lift (inboxPath date)) (\<lambda>path.
     act_bind (readOptionalDocument pr path) (\<lambda>note.
     act_bind (act_lift (page (item_bytes env) (inbox_items date path note) (collectionLimit (pm_limit p)) (cp_offset cursor)
         (\<lambda>next. encodeCursor (nv_num env) Inbox date next None))) (\<lambda>envelope.
     act_ret (inboxResult env p envelope)))))"

definition earliestItemFromPath ::
  "'s notes_provider \<Rightarrow> string \<Rightarrow> cursor_position \<Rightarrow> ('s, notes_error, list_item option) act" where
  "earliestItemFromPath pr path cursor =
     (case inboxDateFromPath path of
        None \<Rightarrow> act_ret None
      | Some date \<Rightarrow>
          act_bind (readOptionalDocument pr path) (\<lambda>note.
            let items = inbox_items date path note;
                i = (if Some path = cp_location cursor then cp_offset cursor else 0)
            in act_ret (if i < length items then Some (items ! i) else None)))"

fun earliest_from ::
  "notes_env \<Rightarrow> 's notes_provider \<Rightarrow> cursor_position \<Rightarrow> bool \<Rightarrow> nat \<Rightarrow> string list \<Rightarrow>
     ('s, notes_error, list_item list \<times> string option) act" where
  "earliest_from env pr cursor started scanned [] =
     (if \<not> started \<and> cp_location cursor \<noteq> None then act_throw invalidCollectionCursor else act_ret ([], None))"
| "earliest_from env pr cursor started scanned (path # paths) =
     (if \<not> started \<and> Some path \<noteq> cp_location cursor then earliest_from env pr cursor False scanned paths
      else if scanned = MAX_COLLECTION_DOCUMENTS_PER_READ
        then act_ret ([], Some (encodeCursor (nv_num env) Inbox ''earliest'' 0 (Some path)))
      else
        act_bind (earliestItemFromPath pr path cursor) (\<lambda>item.
          case item of
            None \<Rightarrow> earliest_from env pr cursor True (scanned + 1) paths
          | Some i \<Rightarrow>
              act_lift (page (item_bytes env) [i] 1 0 (\<lambda>next. encodeCursor (nv_num env) Inbox ''earliest'' next (Some path)))))"

definition earliestInboxRead :: "notes_env \<Rightarrow> 's notes_provider \<Rightarrow> notes_params \<Rightarrow> ('s, notes_error, notes_result) act" where
  "earliestInboxRead env pr p =
     act_bind (act_lift (decodeCursor (pm_cursor p) Inbox ''earliest'')) (\<lambda>cursor.
     act_bind (canonicalPaths env pr ''inbox/'' inboxDateFromPath Chronological) (\<lambda>paths.
     act_bind (earliest_from env pr cursor (cp_location cursor = None) 0 paths) (\<lambda>envelope.
     act_ret (inboxResult env p envelope))))"

definition inboxReadAction :: "notes_env \<Rightarrow> 's notes_provider \<Rightarrow> notes_params \<Rightarrow> ('s, notes_error, notes_result) act" where
  "inboxReadAction env pr p =
     (case pm_date p of
        Some d \<Rightarrow> act_bind (act_lift (requireIsoDate d)) (\<lambda>date. datedInboxRead env pr p date)
      | None \<Rightarrow> earliestInboxRead env pr p)"

text \<open>The write of both captures: the note as it is, or a new one, with the revision it was read at.\<close>

definition capture ::
  "notes_env \<Rightarrow> 's notes_provider \<Rightarrow> notes_params \<Rightarrow> collection \<Rightarrow> string \<Rightarrow> (string \<Rightarrow> notes_error + string) \<Rightarrow>
     (notes_error + string) \<Rightarrow> string \<Rightarrow> ('s, notes_error, notes_result) act" where
  "capture env pr p c path amend fresh message =
     act_bind (readOptionalDocument pr path) (\<lambda>current.
     act_bind (act_lift (case current of None \<Rightarrow> fresh | Some d \<Rightarrow> amend (nd_content d))) (\<lambda>content.
     act_bind (act_lift (assertNoteSize content)) (\<lambda>_.
     act_bind (checked (np_write pr path content (map_option nd_revision current)) (\<lambda>v. validateMutation v path)) (\<lambda>(_, revision).
     act_ret (result_of env (message @ path) (mutation_details p (Some c) path revision))))))"

definition inboxWriteAction :: "notes_env \<Rightarrow> 's notes_provider \<Rightarrow> notes_params \<Rightarrow> ('s, notes_error, notes_result) act" where
  "inboxWriteAction env pr p =
     act_bind (act_lift (requireInboxKind (pm_kind p))) (\<lambda>kind.
     act_bind (act_lift (requireItemText (pm_text p) ''Inbox write'')) (\<lambda>t.
     act_bind (act_lift (inboxPath (localDate (nv_now env)))) (\<lambda>path.
     capture env pr p Inbox path (\<lambda>content. appendSectionItem content (section_of kind) t) (newInboxNote kind t)
       (''Recorded Inbox '' @ kind_name kind @ '' in ''))))"

section \<open>Projects\<close>

definition projectsListAction :: "notes_env \<Rightarrow> 's notes_provider \<Rightarrow> notes_params \<Rightarrow> ('s, notes_error, notes_result) act" where
  "projectsListAction env pr p =
     act_bind (listComplete pr ''projects/'') (\<lambda>entries.
     let items = projectItems (nv_collate env) entries in
     act_bind (act_lift (decodeCursor (pm_cursor p) Projects ''all'')) (\<lambda>cursor.
       case (case cp_location cursor of None \<Rightarrow> Some (cp_offset cursor) | Some l \<Rightarrow> find_index (\<lambda>i. pi_target i = l) items) of
         None \<Rightarrow> act_throw invalidCollectionCursor
       | Some offset \<Rightarrow>
           act_bind (act_lift (page (\<lambda>i. json_bytes env (project_json i)) items (collectionLimit (pm_limit p)) offset
               (\<lambda>next. encodeCursor (nv_num env) Projects ''all'' 0 (Some (pi_target (items ! next)))))) (\<lambda>envelope.
           act_ret (collectionResult env p Projects ''Projects'' (map project_json (fst envelope), snd envelope)))))"

definition projectsReadAction :: "notes_env \<Rightarrow> 's notes_provider \<Rightarrow> notes_params \<Rightarrow> ('s, notes_error, notes_result) act" where
  "projectsReadAction env pr p =
     act_bind (act_lift (projectTarget (pm_target p))) (\<lambda>(_, path). readDocumentAction env pr p path (Some Projects))"

definition projectsWriteAction :: "notes_env \<Rightarrow> 's notes_provider \<Rightarrow> notes_params \<Rightarrow> ('s, notes_error, notes_result) act" where
  "projectsWriteAction env pr p =
     act_bind (act_lift (projectTarget (pm_target p))) (\<lambda>(_, path). writeDocumentAction env pr p path (Some Projects))"

section \<open>The worklog\<close>

definition worklogItemsFromPath :: "'s notes_provider \<Rightarrow> string \<Rightarrow> ('s, notes_error, list_item list) act" where
  "worklogItemsFromPath pr path =
     (case recordDateFromPath path of
        None \<Rightarrow> act_ret []
      | Some date \<Rightarrow>
          act_bind (readOptionalDocument pr path) (\<lambda>note.
            act_ret (case note of None \<Rightarrow> [] | Some d \<Rightarrow> extractWorklogItems (nd_content d) date path)))"

text \<open>The loop from an index on; the answer has the items, their bytes and the index it stopped at.\<close>

fun take_worklog_from ::
  "notes_env \<Rightarrow> nat \<Rightarrow> nat \<Rightarrow> nat \<Rightarrow> list_item list \<Rightarrow> list_item list \<Rightarrow> nat \<Rightarrow> notes_error + (list_item list \<times> nat \<times> nat option)" where
  "take_worklog_from env limit byteLimit index [] items bytes = Inr (items, bytes, None)"
| "take_worklog_from env limit byteLimit index (v # vs) items bytes =
     (if item_bytes env v > MAX_COLLECTION_RESULT_BYTES
      then Inl (Provider_error Resource_limit ''One Worklog item exceeds the result byte limit.'')
      else if length items = limit \<or> bytes + item_bytes env v > byteLimit then Inr (items, bytes, Some index)
      else take_worklog_from env limit byteLimit (index + 1) vs (items @ [v]) (bytes + item_bytes env v))"

definition takeWorklogItems ::
  "notes_env \<Rightarrow> list_item list \<Rightarrow> nat \<Rightarrow> nat \<Rightarrow> nat \<Rightarrow> notes_error + (list_item list \<times> nat \<times> nat option)" where
  "takeWorklogItems env vs start limit byteLimit = take_worklog_from env limit byteLimit start (drop start vs) [] 0"

fun collect_worklog ::
  "notes_env \<Rightarrow> 's notes_provider \<Rightarrow> cursor_position \<Rightarrow> string \<Rightarrow> nat \<Rightarrow> bool \<Rightarrow> nat \<Rightarrow> list_item list \<Rightarrow> nat \<Rightarrow> string list \<Rightarrow>
     ('s, notes_error, list_item list \<times> string option) act" where
  "collect_worklog env pr cursor scope limit started scanned items itemBytes [] =
     (if \<not> started \<and> cp_location cursor \<noteq> None then act_throw invalidCollectionCursor else act_ret (items, None))"
| "collect_worklog env pr cursor scope limit started scanned items itemBytes (path # paths) =
     (if \<not> started \<and> Some path \<noteq> cp_location cursor
      then collect_worklog env pr cursor scope limit False scanned items itemBytes paths
      else if scanned = MAX_COLLECTION_DOCUMENTS_PER_READ
        then act_ret (items, Some (encodeCursor (nv_num env) Worklog scope 0 (Some path)))
      else
        act_bind (worklogItemsFromPath pr path) (\<lambda>pathItems.
        act_bind (act_lift (takeWorklogItems env pathItems (if Some path = cp_location cursor then cp_offset cursor else 0)
            (limit - length items) (MAX_COLLECTION_RESULT_BYTES - itemBytes))) (\<lambda>(taken, bytes, nextIndex).
          case nextIndex of
            Some index \<Rightarrow> act_ret (items @ taken, Some (encodeCursor (nv_num env) Worklog scope index (Some path)))
          | None \<Rightarrow> collect_worklog env pr cursor scope limit True (scanned + 1) (items @ taken) (itemBytes + bytes) paths)))"

definition collectWorklogPage ::
  "notes_env \<Rightarrow> 's notes_provider \<Rightarrow> string list \<Rightarrow> cursor_position \<Rightarrow> string \<Rightarrow> nat \<Rightarrow>
     ('s, notes_error, list_item list \<times> string option) act" where
  "collectWorklogPage env pr paths cursor scope limit =
     collect_worklog env pr cursor scope limit (cp_location cursor = None) 0 [] 0 paths"

definition worklogReadAction :: "notes_env \<Rightarrow> 's notes_provider \<Rightarrow> notes_params \<Rightarrow> ('s, notes_error, notes_result) act" where
  "worklogReadAction env pr p =
     (let today = localDate (nv_now env); order = (case pm_order p of None \<Rightarrow> Newest | Some r \<Rightarrow> r) in
      act_bind (act_lift (worklogSelection (pm_selector p) today)) (\<lambda>selection.
      act_bind (if ws_scope selection = today \<or> match_iso_date (ws_scope selection) \<noteq> None
                then act_bind (act_lift (recordPath (ws_scope selection))) (\<lambda>path. act_ret [path])
                else canonicalPaths env pr ''records/'' recordDateFromPath order) (\<lambda>paths.
      let selectedPaths = filter (\<lambda>path. case recordDateFromPath path of None \<Rightarrow> False | Some d \<Rightarrow> ws_matches selection d) paths;
          scope = ws_scope selection @ '':'' @ order_name order in
      act_bind (act_lift (decodeCursor (pm_cursor p) Worklog scope)) (\<lambda>cursor.
      act_bind (collectWorklogPage env pr selectedPaths cursor scope (collectionLimit (pm_limit p))) (\<lambda>envelope.
      act_ret (collectionResult env p Worklog ''Worklog'' (map item_json (fst envelope), snd envelope)))))))"

definition worklogRecordAction :: "notes_env \<Rightarrow> 's notes_provider \<Rightarrow> notes_params \<Rightarrow> ('s, notes_error, notes_result) act" where
  "worklogRecordAction env pr p =
     act_bind (act_lift (requireItemText (pm_text p) ''Worklog record'')) (\<lambda>t.
     let date = localDate (nv_now env) in
     act_bind (act_lift (recordPath date)) (\<lambda>path.
     capture env pr p Worklog path (\<lambda>content. appendSectionItem content Worklog_section t) (newWorklogRecord (nv_dash env) date t)
       ''Recorded Worklog item in ''))"

section \<open>The wiki\<close>

definition wikiReadAction :: "notes_env \<Rightarrow> 's notes_provider \<Rightarrow> notes_params \<Rightarrow> ('s, notes_error, notes_result) act" where
  "wikiReadAction env pr p =
     act_bind (act_lift (wikiTarget (pm_target p))) (\<lambda>(target, path, is_file).
       if is_file then readDocumentAction env pr p path (Some Wiki)
       else
         act_bind (listComplete pr path) (\<lambda>entries.
         let children = wikiChildren (nv_collate env) entries target; scope = (if target = '''' then ''/'' else target) in
         act_bind (act_lift (decodeCursor (pm_cursor p) Wiki scope)) (\<lambda>cursor.
           case (case cp_location cursor of
                   None \<Rightarrow> Some (cp_offset cursor) | Some l \<Rightarrow> find_index (\<lambda>c. wikiChildCursorKey c = l) children) of
             None \<Rightarrow> act_throw invalidCollectionCursor
           | Some offset \<Rightarrow>
               act_bind (act_lift (page (\<lambda>c. json_bytes env (child_json c)) children (collectionLimit (pm_limit p)) offset
                   (\<lambda>next. encodeCursor (nv_num env) Wiki scope 0 (Some (wikiChildCursorKey (children ! next)))))) (\<lambda>envelope.
               act_ret (collectionResult env p Wiki ''Wiki'' (map child_json (fst envelope), snd envelope))))))"

definition wikiWriteAction :: "notes_env \<Rightarrow> 's notes_provider \<Rightarrow> notes_params \<Rightarrow> ('s, notes_error, notes_result) act" where
  "wikiWriteAction env pr p =
     act_bind (act_lift (wikiTarget (pm_target p))) (\<lambda>(_, path, is_file).
       if \<not> is_file then act_throw (Plain_error ''notes wiki write requires a Markdown file target'')
       else writeDocumentAction env pr p path (Some Wiki))"

section \<open>Dispatch\<close>

definition executeInboxAction :: "notes_env \<Rightarrow> 's notes_provider \<Rightarrow> notes_params \<Rightarrow> ('s, notes_error, notes_result) act" where
  "executeInboxAction env pr p =
     (case pm_action p of
        Read \<Rightarrow> inboxReadAction env pr p
      | Write \<Rightarrow> inboxWriteAction env pr p
      | a \<Rightarrow> act_throw (invalidCollectionAction (Of_collection Inbox) a))"

definition executeProjectsAction :: "notes_env \<Rightarrow> 's notes_provider \<Rightarrow> notes_params \<Rightarrow> ('s, notes_error, notes_result) act" where
  "executeProjectsAction env pr p =
     (case pm_action p of
        List \<Rightarrow> projectsListAction env pr p
      | Read \<Rightarrow> projectsReadAction env pr p
      | Write \<Rightarrow> projectsWriteAction env pr p
      | a \<Rightarrow> act_throw (invalidCollectionAction (Of_collection Projects) a))"

definition executeWorklogAction :: "notes_env \<Rightarrow> 's notes_provider \<Rightarrow> notes_params \<Rightarrow> ('s, notes_error, notes_result) act" where
  "executeWorklogAction env pr p =
     (case pm_action p of
        Read \<Rightarrow> worklogReadAction env pr p
      | Record \<Rightarrow> worklogRecordAction env pr p
      | a \<Rightarrow> act_throw (invalidCollectionAction (Of_collection Worklog) a))"

definition executeWikiAction :: "notes_env \<Rightarrow> 's notes_provider \<Rightarrow> notes_params \<Rightarrow> ('s, notes_error, notes_result) act" where
  "executeWikiAction env pr p =
     (case pm_action p of
        Read \<Rightarrow> wikiReadAction env pr p
      | Write \<Rightarrow> wikiWriteAction env pr p
      | a \<Rightarrow> act_throw (invalidCollectionAction (Of_collection Wiki) a))"

definition executeCollectionAction ::
  "notes_env \<Rightarrow> 's notes_provider \<Rightarrow> collection \<Rightarrow> notes_params \<Rightarrow> ('s, notes_error, notes_result) act" where
  "executeCollectionAction env pr c p =
     (case c of
        Inbox \<Rightarrow> executeInboxAction env pr p
      | Projects \<Rightarrow> executeProjectsAction env pr p
      | Worklog \<Rightarrow> executeWorklogAction env pr p
      | Wiki \<Rightarrow> executeWikiAction env pr p)"

definition executeNotesAction :: "notes_env \<Rightarrow> 's notes_provider \<Rightarrow> notes_params \<Rightarrow> ('s, notes_error, notes_result) act" where
  "executeNotesAction env pr input =
     act_bind (act_lift (parseNotesParams (nv_errors env) input)) (\<lambda>p.
       case (case pm_collection p of None \<Rightarrow> Store | Some q \<Rightarrow> q) of
         Of_collection c \<Rightarrow> executeCollectionAction env pr c p
       | Store \<Rightarrow>
           (case pm_action p of
              Record \<Rightarrow> act_throw (invalidCollectionAction Store Record)
            | Index \<Rightarrow> indexAction env pr p
            | List \<Rightarrow> listAction env pr p
            | Read \<Rightarrow> readAction env pr p
            | Search \<Rightarrow> searchAction env pr p
            | Resolve \<Rightarrow> resolveAction env pr p
            | Write \<Rightarrow> writeAction env pr p
            | Edit \<Rightarrow> editAction env pr p
            | Delete \<Rightarrow> deleteAction env pr p))"

end
