(* ===== verification/Notes_Memory.thy ===== *)
theory Notes_Memory
  imports Notes_Contract
begin

text \<open>
  A provider in memory, as \<open>extensions/notes/domain.ts\<close> documents one, and the arguments the concrete
  examples of the notes theories use.
\<close>

section \<open>The provider\<close>

text \<open>
  A provider as \<open>domain.ts\<close> documents one, for the concrete inputs below: a note is its content and a
  version, which its revision prints; a write or delete needs the current revision, \<open>null\<close> a missing note.
\<close>

type_synonym memory = "(string, string \<times> nat) jsmap"

definition memory_revision :: "string \<Rightarrow> memory \<Rightarrow> string option" where
  "memory_revision path s = map_option (\<lambda>(_, n). show_nat n) (jm_get s path)"

definition memory_guard :: "string \<Rightarrow> string option \<Rightarrow> (memory, notes_error, jsval) act \<Rightarrow> (memory, notes_error, jsval) act" where
  "memory_guard path expected m s =
     (if memory_revision path s = expected then m s else act_throw (Provider_error Conflict ''Note changed.'') s)"

definition memory_write :: "string \<Rightarrow> string \<Rightarrow> (memory, notes_error, jsval) act" where
  "memory_write path content s =
     (let n = (case jm_get s path of None \<Rightarrow> 0 | Some (_, k) \<Rightarrow> k + 1)
      in (Inr (JObj [(''path'', JStr path), (''revision'', JStr (show_nat n))]), jm_set path (content, n) s))"

definition memory_read :: "string \<Rightarrow> (memory, notes_error, jsval) act" where
  "memory_read path s =
     (case jm_get s path of
        None \<Rightarrow> act_throw (Provider_error Not_found ''Note not found.'') s
      | Some (content, n) \<Rightarrow>
          (Inr (JObj [(''path'', JStr path), (''content'', JStr content), (''revision'', JStr (show_nat n))]), s))"

definition memory_entry :: "string \<Rightarrow> jsval" where
  "memory_entry path = JObj [(''path'', JStr path)]"

definition memory_list :: "string option \<Rightarrow> nat \<Rightarrow> string option \<Rightarrow> (memory, notes_error, jsval) act" where
  "memory_list pre n cursor s =
     (Inr (JArr (map memory_entry (take n (filter (starts_with (case pre of None \<Rightarrow> '''' | Some q \<Rightarrow> q)) (jm_keys s))))), s)"

definition memory_provider :: "memory notes_provider" where
  "memory_provider =
     \<lparr>np_index = act_ret (JObj [(''text'', JStr '''')]),
      np_list = memory_list,
      np_read = memory_read,
      np_search = (\<lambda>q n. act_ret (JArr [])),
      np_resolve = None,
      np_write = (\<lambda>path content expected. memory_guard path expected (memory_write path content)),
      np_delete = (\<lambda>path expected. memory_guard path (Some expected)
        (\<lambda>s. (Inr (JObj [(''path'', JStr path)]), jm_delete path s)))\<rparr>"

definition sample_env :: notes_env where
  "sample_env =
     \<lparr>nv_num = (\<lambda>n. show_int (js_int n)), nv_collate = (\<lambda>a b. if a < b then - 1 else if a = b then 0 else 1),
      nv_clip = (\<lambda>t. \<lparr>ct_truncated = False, ct_content = t, ct_outputBytes = length t, ct_totalBytes = length t\<rparr>),
      nv_size = show_nat, nv_errors = (\<lambda>_ _. []), nv_now = \<lparr>lt_year = 2026, lt_month = 0, lt_day = 5\<rparr>, nv_dash = ''-''\<rparr>"

definition sample_params :: "notes_action \<Rightarrow> notes_params" where
  "sample_params a =
     \<lparr>pm_collection = None, pm_action = a, pm_kind = None, pm_date = None, pm_selector = None, pm_order = None, pm_cursor = None,
      pm_target = None, pm_text = None, pm_path = None, pm_prefix = None, pm_query = None, pm_limit = None, pm_reference = None,
      pm_content = None, pm_revision = None, pm_edits = None, pm_append = None\<rparr>"


end
