(* ===== verification/Notes_Guards.thy ===== *)
theory Notes_Guards
  imports Notes_Memory
begin

text \<open>
  What the notes tool may do to a provider: a call changes at most one note, the one its arguments
  name, by at most one mutation, whose revision precondition is the one the caller gave; a read
  changes nothing; and a call whose arguments were checked never ends in an unsupported action.
\<close>

section \<open>The note an action may change\<close>

text \<open>\<open>Inr (Some p)\<close> is the note at \<open>p\<close>, \<open>Inr None\<close> no note.\<close>

definition mutated_path :: "notes_env \<Rightarrow> notes_params \<Rightarrow> notes_error + string option" where
  "mutated_path env p =
     (let one = (\<lambda>r. try_bind r (\<lambda>path. Inr (Some path))) in
      case place_of p of
        Store \<Rightarrow> if pm_action p \<in> {Write, Edit, Delete} then one (requirePath p) else Inr None
      | Of_collection Inbox \<Rightarrow> if pm_action p = Write then one (inboxPath (localDate (nv_now env))) else Inr None
      | Of_collection Worklog \<Rightarrow> if pm_action p = Record then one (recordPath (localDate (nv_now env))) else Inr None
      | Of_collection Projects \<Rightarrow>
          if pm_action p = Write then try_bind (projectTarget (pm_target p)) (\<lambda>(_, path). Inr (Some path)) else Inr None
      | Of_collection Wiki \<Rightarrow>
          if pm_action p = Write then try_bind (wikiTarget (pm_target p)) (\<lambda>(_, path, _). Inr (Some path)) else Inr None)"

text \<open>A provider whose reads leave a view of its state alone, and whose mutations of other notes do.\<close>

definition reads_keep :: "('s \<Rightarrow> 'v) \<Rightarrow> 's notes_provider \<Rightarrow> bool" where
  "reads_keep view pr \<longleftrightarrow>
     keeps view (np_index pr) \<and> (\<forall>a n c. keeps view (np_list pr a n c)) \<and> (\<forall>a. keeps view (np_read pr a)) \<and>
     (\<forall>q n. keeps view (np_search pr q n)) \<and> (\<forall>f r. np_resolve pr = Some f \<longrightarrow> keeps view (f r))"

definition mutations_keep :: "(string \<Rightarrow> bool) \<Rightarrow> ('s \<Rightarrow> 'v) \<Rightarrow> 's notes_provider \<Rightarrow> bool" where
  "mutations_keep other view pr \<longleftrightarrow>
     (\<forall>path content r. other path \<longrightarrow> keeps view (np_write pr path content r)) \<and>
     (\<forall>path r. other path \<longrightarrow> keeps view (np_delete pr path r))"

lemma keeps_checked [keeps_intros]: "keeps v m \<Longrightarrow> keeps v (checked m f)"
  unfolding checked_def by (intro keeps_intros)

lemma keeps_lift_bind: "(\<And>a. r = Inr a \<Longrightarrow> keeps v (f a)) \<Longrightarrow> keeps v (act_bind (act_lift r) f)"
  unfolding keeps_def act_bind_def act_lift_def by (cases r) auto

lemma keeps_option [keeps_intros]: "keeps v m \<Longrightarrow> (\<And>a. keeps v (f a)) \<Longrightarrow> keeps v (case x of None \<Rightarrow> m | Some a \<Rightarrow> f a)"
  by (cases x) simp_all

lemma keeps_prod [keeps_intros]: "(\<And>a b. keeps v (f a b)) \<Longrightarrow> keeps v (case x of (a, b) \<Rightarrow> f a b)"
  by (cases x) simp

lemma keeps_provider:
  assumes "reads_keep view pr"
  shows "keeps view (np_index pr)" "keeps view (np_list pr a n c)" "keeps view (np_read pr path)" "keeps view (np_search pr q n)"
  using assms by (simp_all add: reads_keep_def)

lemma keeps_read_document:
  assumes "reads_keep view pr"
  shows "keeps view (readOptionalDocument pr path)"
proof -
  note [keeps_intros] = keeps_provider [OF assms]
  have "keeps view (case e of Provider_error Not_found _ \<Rightarrow> act_ret None | _ \<Rightarrow> act_throw e)" for e
    by (cases e; cases "case e of Provider_error c _ \<Rightarrow> c = Not_found | _ \<Rightarrow> False")
      (auto intro!: keeps_intros split: notes_code.split)
  then show ?thesis
    unfolding readOptionalDocument_def by (intro keeps_intros)
qed

lemma keeps_list_pages:
  assumes "reads_keep view pr"
  shows "keeps view (list_pages pr pre n entries cursor)"
proof (induction n arbitrary: entries cursor)
  case (Suc n)
  note [keeps_intros] = keeps_provider [OF assms] Suc
  show ?case
    unfolding list_pages.simps Let_def by (intro keeps_intros)
qed (simp add: keeps_throw)

lemma keeps_canonical:
  assumes "reads_keep view pr"
  shows "keeps view (listComplete pr pre)" "keeps view (canonicalPaths env pr pre date_of order)"
  unfolding canonicalPaths_def listComplete_def Let_def
  by (intro keeps_intros keeps_list_pages assms)+

lemma keeps_earliest:
  assumes "reads_keep view pr"
  shows "keeps view (earliest_from env pr cursor started scanned paths)"
proof (induction paths arbitrary: started scanned)
  case Nil
  show ?case by (auto intro: keeps_intros)
next
  case (Cons path paths)
  note [keeps_intros] = keeps_read_document [OF assms] Cons
  show ?case
    unfolding earliest_from.simps earliestItemFromPath_def Let_def by (intro keeps_intros)
qed

lemma keeps_worklog:
  assumes "reads_keep view pr"
  shows "keeps view (collect_worklog env pr cursor scope limit started scanned items bytes paths)"
proof (induction paths arbitrary: started scanned items bytes)
  case Nil
  show ?case by (auto intro: keeps_intros)
next
  case (Cons path paths)
  note [keeps_intros] = keeps_read_document [OF assms] Cons
  show ?case
    unfolding collect_worklog.simps worklogItemsFromPath_def Let_def by (intro keeps_intros)
qed

lemma keeps_write_document:
  assumes "mutations_keep other view pr" and "other path"
  shows "keeps view (writeDocumentAction env pr p path c)"
proof -
  have [keeps_intros]: "keeps view (np_write pr path content r)" for content r
    using assms by (simp add: mutations_keep_def)
  show ?thesis
    unfolding writeDocumentAction_def by (intro keeps_intros)
qed

lemma keeps_capture:
  assumes "reads_keep view pr" and "mutations_keep other view pr" and "other path"
  shows "keeps view (capture env pr p c path amend fresh message)"
proof -
  have [keeps_intros]: "keeps view (np_write pr path content r)" for content r
    using assms by (simp add: mutations_keep_def)
  note [keeps_intros] = keeps_read_document [OF assms(1)]
  show ?thesis
    unfolding capture_def by (intro keeps_intros)
qed

section \<open>A call changes at most the note it names\<close>

lemma keeps_read_actions:
  assumes "reads_keep view pr"
  shows "keeps view (indexAction env pr p)" "keeps view (listAction env pr p)" "keeps view (readAction env pr p)"
    "keeps view (searchAction env pr p)" "keeps view (resolveAction env pr p)" "keeps view (inboxReadAction env pr p)"
    "keeps view (projectsListAction env pr p)" "keeps view (projectsReadAction env pr p)"
    "keeps view (worklogReadAction env pr p)" "keeps view (wikiReadAction env pr p)"
proof -
  note [keeps_intros] = keeps_provider [OF assms] keeps_read_document [OF assms] keeps_canonical [OF assms]
    keeps_earliest [OF assms] keeps_worklog [OF assms]
  have [keeps_intros]: "keeps view (readDocumentAction env pr p path c)" for path c
    unfolding readDocumentAction_def by (intro keeps_intros)
  show "keeps view (indexAction env pr p)" "keeps view (listAction env pr p)" "keeps view (readAction env pr p)"
    "keeps view (searchAction env pr p)"
    unfolding indexAction_def listAction_def readAction_def searchAction_def Let_def by (intro keeps_intros)+
  show "keeps view (resolveAction env pr p)"
    using assms unfolding resolveAction_def reads_keep_def
    by (cases "np_resolve pr") (auto intro!: keeps_intros)
  have [keeps_intros]: "keeps view (datedInboxRead env pr p date)" "keeps view (earliestInboxRead env pr p)" for date
    unfolding datedInboxRead_def earliestInboxRead_def by (intro keeps_intros)+
  show "keeps view (inboxReadAction env pr p)" "keeps view (projectsListAction env pr p)"
    "keeps view (projectsReadAction env pr p)" "keeps view (wikiReadAction env pr p)"
    unfolding inboxReadAction_def projectsListAction_def projectsReadAction_def wikiReadAction_def Let_def
    by (intro keeps_intros)+
  show "keeps view (worklogReadAction env pr p)"
    unfolding worklogReadAction_def collectWorklogPage_def Let_def by (intro keeps_intros)
qed

lemma keeps_mutations:
  assumes "reads_keep view pr" and m: "mutations_keep other view pr"
    and target: "\<And>path. mutated_path env p = Inr (Some path) \<Longrightarrow> other path"
  shows "place_of p = Store \<Longrightarrow> pm_action p = Write \<Longrightarrow> keeps view (writeAction env pr p)"
    "place_of p = Store \<Longrightarrow> pm_action p = Edit \<Longrightarrow> keeps view (editAction env pr p)"
    "place_of p = Store \<Longrightarrow> pm_action p = Delete \<Longrightarrow> keeps view (deleteAction env pr p)"
    "place_of p = Of_collection Inbox \<Longrightarrow> pm_action p = Write \<Longrightarrow> keeps view (inboxWriteAction env pr p)"
    "place_of p = Of_collection Worklog \<Longrightarrow> pm_action p = Record \<Longrightarrow> keeps view (worklogRecordAction env pr p)"
    "place_of p = Of_collection Projects \<Longrightarrow> pm_action p = Write \<Longrightarrow> keeps view (projectsWriteAction env pr p)"
    "place_of p = Of_collection Wiki \<Longrightarrow> pm_action p = Write \<Longrightarrow> keeps view (wikiWriteAction env pr p)"
proof -
  note [keeps_intros] = keeps_provider [OF assms(1)] keeps_write_document [OF m] keeps_capture [OF assms(1) m]
  have mk: "other path \<Longrightarrow> keeps view (np_write pr path content r)" "other path \<Longrightarrow> keeps view (np_delete pr path r')"
    for path content r r'
    using m by (simp_all add: mutations_keep_def)
  note t = target [unfolded mutated_path_def Let_def]
  show "keeps view (writeAction env pr p)" if "place_of p = Store" "pm_action p = Write"
    unfolding writeAction_def by (rule keeps_lift_bind) (auto intro!: keeps_intros t simp: that)
  show "keeps view (editAction env pr p)" if "place_of p = Store" "pm_action p = Edit"
    unfolding editAction_def by (rule keeps_lift_bind) (intro keeps_intros mk t, simp add: that)
  show "keeps view (deleteAction env pr p)" if "place_of p = Store" "pm_action p = Delete"
    unfolding deleteAction_def by (rule keeps_lift_bind) (intro keeps_intros mk t, simp add: that)
  show "keeps view (inboxWriteAction env pr p)" if "place_of p = Of_collection Inbox" "pm_action p = Write"
    unfolding inboxWriteAction_def by (intro keeps_lift_bind keeps_intros t) (simp add: that)
  show "keeps view (worklogRecordAction env pr p)" if "place_of p = Of_collection Worklog" "pm_action p = Record"
    unfolding worklogRecordAction_def Let_def by (intro keeps_lift_bind keeps_intros t) (simp add: that)
  show "keeps view (projectsWriteAction env pr p)" if "place_of p = Of_collection Projects" "pm_action p = Write"
    unfolding projectsWriteAction_def by (rule keeps_lift_bind) (auto intro!: keeps_intros t simp: that)
  show "keeps view (wikiWriteAction env pr p)" if "place_of p = Of_collection Wiki" "pm_action p = Write"
    unfolding wikiWriteAction_def by (rule keeps_lift_bind) (auto intro!: keeps_intros t simp: that)
qed

text \<open>C28: 
  A view of the provider's state that reads leave alone, and that the mutations of the note the call
  names leave alone, is the same after the call, whether it returns or throws. With the view of one
  note, every other note is untouched; with the whole state, so is a call that reads.
\<close>

theorem only_named_note_changes:
  assumes "reads_keep view pr" and "mutations_keep other view pr"
    and "\<And>path. mutated_path env p = Inr (Some path) \<Longrightarrow> other path"
  shows "view (snd (executeNotesAction env pr p s)) = view s"
proof -
  have "keeps view (executeNotesAction env pr p)"
    unfolding executeNotesAction_def
  proof (rule keeps_lift_bind, goal_cases)
    case (1 q)
    then have q: "q = p"
      using parsed_params by blast
    note m = keeps_mutations [OF assms(1,2,3)]
    show ?case
      using m keeps_read_actions [OF assms(1)] unfolding q place_of_def [symmetric]
      by (auto simp: executeCollectionAction_def executeInboxAction_def executeProjectsAction_def executeWorklogAction_def
          executeWikiAction_def intro: keeps_throw split: notes_place.split collection.split notes_action.split)
  qed
  then show ?thesis
    by (simp add: keeps_def)
qed

section \<open>An example\<close>

lemma memory_reads_keep: "reads_keep view memory_provider"
  by (auto simp: reads_keep_def memory_provider_def keeps_def act_ret_def act_throw_def memory_list_def memory_read_def split: option.split)

lemma memory_mutations_keep: "mutations_keep (\<lambda>path. path \<noteq> q) (\<lambda>s. jm_get s q) memory_provider"
  by (auto simp: mutations_keep_def memory_provider_def keeps_def memory_guard_def memory_write_def act_throw_def Let_def
      jm_get_set jm_get_delete)

theorem only_named_note_changes_witness:
  "jm_get (snd (executeNotesAction sample_env memory_provider
      ((sample_params Write)\<lparr>pm_path := Some ''b.md'', pm_content := Some ''new'', pm_revision := Some None\<rparr>)
      [(''a.md'', ''old'', 0)])) ''a.md'' = Some (''old'', 0)"
proof -
  have "mutated_path sample_env ((sample_params Write)\<lparr>pm_path := Some ''b.md'', pm_content := Some ''new'', pm_revision := Some None\<rparr>)
      = Inr (Some ''b.md'')"
    by code_simp
  then show ?thesis
    using only_named_note_changes [where view = "\<lambda>s. jm_get s ''a.md''" and other = "\<lambda>path. path \<noteq> ''a.md''",
        OF memory_reads_keep memory_mutations_keep, of sample_env
        "(sample_params Write)\<lparr>pm_path := Some ''b.md'', pm_content := Some ''new'', pm_revision := Some None\<rparr>" "[(''a.md'', ''old'', 0)]"]
    by (simp add: jm_get_def)
qed

section \<open>At most one mutation, with the caller's precondition\<close>

datatype mutation_call = Write_call string string "string option" | Delete_call string string

definition logged :: "('s, 'e, 'a) act \<Rightarrow> ('s \<times> mutation_call list, 'e, 'a) act" where
  "logged m x = (fst (m (fst x)), (snd (m (fst x)), snd x))"

definition logged_call :: "mutation_call \<Rightarrow> ('s, 'e, 'a) act \<Rightarrow> ('s \<times> mutation_call list, 'e, 'a) act" where
  "logged_call c m x = logged m (fst x, snd x @ [c])"

text \<open>The provider that also notes the mutations asked of it.\<close>

definition logging :: "'s notes_provider \<Rightarrow> ('s \<times> mutation_call list) notes_provider" where
  "logging pr =
     \<lparr>np_index = logged (np_index pr), np_list = (\<lambda>a n c. logged (np_list pr a n c)), np_read = (\<lambda>a. logged (np_read pr a)),
      np_search = (\<lambda>q n. logged (np_search pr q n)), np_resolve = map_option (\<lambda>f r. logged (f r)) (np_resolve pr),
      np_write = (\<lambda>path content r. logged_call (Write_call path content r) (np_write pr path content r)),
      np_delete = (\<lambda>path r. logged_call (Delete_call path r) (np_delete pr path r))\<rparr>"

lemma logging_reads_keep: "reads_keep snd (logging pr)"
  by (auto simp: reads_keep_def logging_def logged_def keeps_def)

definition one_call :: "(mutation_call \<Rightarrow> bool) \<Rightarrow> ('s \<times> mutation_call list, 'e, 'a) act \<Rightarrow> bool" where
  "one_call A m \<longleftrightarrow> (\<forall>x. snd (snd (m x)) = snd x \<or> (\<exists>c. snd (snd (m x)) = snd x @ [c] \<and> A c))"

lemma one_keeps: "keeps snd m \<Longrightarrow> one_call A m"
  by (simp add: one_call_def keeps_def)

lemma one_before: "keeps snd m \<Longrightarrow> (\<And>a. one_call A (f a)) \<Longrightarrow> one_call A (act_bind m f)"
  unfolding one_call_def keeps_def act_bind_def by (auto split: prod.split sum.split) (metis snd_conv)+

lemma one_if: "one_call A m \<Longrightarrow> one_call A n \<Longrightarrow> one_call A (if b then m else n)"
  by simp

lemma one_lift: "(\<And>a. r = Inr a \<Longrightarrow> one_call A (f a)) \<Longrightarrow> one_call A (act_bind (act_lift r) f)"
  unfolding one_call_def act_bind_def act_lift_def by (cases r) auto

lemma one_after: "one_call A m \<Longrightarrow> (\<And>a. keeps snd (f a)) \<Longrightarrow> one_call A (act_bind m f)"
  unfolding one_call_def keeps_def act_bind_def by (auto split: prod.split sum.split) (metis snd_conv)+

lemma one_write: "A (Write_call path content r) \<Longrightarrow> one_call A (checked (np_write (logging pr) path content r) f)"
  unfolding checked_def by (rule one_after) (auto simp: logging_def one_call_def logged_call_def logged_def intro: keeps_lift)

lemma one_delete: "A (Delete_call path r) \<Longrightarrow> one_call A (checked (np_delete (logging pr) path r) f)"
  unfolding checked_def by (rule one_after) (auto simp: logging_def one_call_def logged_call_def logged_def intro: keeps_lift)

text \<open>The mutations a call may ask for.\<close>

fun mutation_allowed :: "notes_env \<Rightarrow> notes_params \<Rightarrow> mutation_call \<Rightarrow> bool" where
  "mutation_allowed env p (Write_call path content r) \<longleftrightarrow>
     mutated_path env p = Inr (Some path) \<and> byte_length content \<le> MAX_NOTE_BYTES \<and>
     (place_of p \<noteq> Of_collection Inbox \<and> place_of p \<noteq> Of_collection Worklog \<longrightarrow> pm_revision p = Some r) \<and>
     (pm_action p = Edit \<longrightarrow> r \<noteq> None) \<and>
     (pm_action p \<noteq> Edit \<and> place_of p \<noteq> Of_collection Inbox \<and> place_of p \<noteq> Of_collection Worklog \<longrightarrow> pm_content p = Some content)"
| "mutation_allowed env p (Delete_call path r) \<longleftrightarrow>
     place_of p = Store \<and> pm_action p = Delete \<and> mutated_path env p = Inr (Some path) \<and> pm_revision p = Some (Some r)"

lemma size_asserted: "assertNoteSize c = Inr u \<Longrightarrow> byte_length c \<le> MAX_NOTE_BYTES"
  by (auto simp: assertNoteSize_def split: if_splits)

lemma write_revision: "requireWriteRevision p = Inr r \<Longrightarrow> pm_revision p = Some r"
  by (auto simp: requireWriteRevision_def try_bind_Inr_iff split: option.splits)

lemma existing_revision: "requireExistingRevision p = Inr r \<Longrightarrow> pm_revision p = Some (Some r)"
  by (auto simp: requireExistingRevision_def try_bind_Inr_iff split: option.splits)

lemma one_write_document:
  assumes "\<And>content r. byte_length content \<le> MAX_NOTE_BYTES \<Longrightarrow> pm_content p = Some content \<Longrightarrow> pm_revision p = Some r \<Longrightarrow>
    A (Write_call path content r)"
  shows "one_call A (writeDocumentAction env (logging pr) p path c)"
proof (cases "pm_content p")
  case (Some content)
  have "one_call A (act_bind (checked (np_write (logging pr) path content r) (\<lambda>v. validateMutation v path))
      (\<lambda>(path, revision). act_ret (result_of env (''Wrote '' @ path) (mutation_details p c path revision))))"
    if "requireWriteRevision p = Inr r" "assertNoteSize content = Inr u" for r u
    by (rule one_after, rule one_write) (use assms Some that size_asserted write_revision in \<open>auto intro: keeps_ret\<close>)
  then show ?thesis
    unfolding writeDocumentAction_def Some option.case by (intro one_lift)
qed (simp add: writeDocumentAction_def one_keeps keeps_throw)

lemma one_capture:
  assumes "\<And>content r. byte_length content \<le> MAX_NOTE_BYTES \<Longrightarrow> A (Write_call path content r)"
  shows "one_call A (capture env (logging pr) p c path amend fresh message)"
proof -
  have w: "one_call A (act_bind (checked (np_write (logging pr) path content r) (\<lambda>v. validateMutation v path))
      (\<lambda>(_, revision). act_ret (result_of env (message @ path) (mutation_details p (Some c) path revision))))"
    if "assertNoteSize content = Inr u" for content r u
    by (rule one_after, rule one_write) (use assms that size_asserted in \<open>auto intro: keeps_ret\<close>)
  show ?thesis
    unfolding capture_def by (intro one_before one_lift keeps_read_document logging_reads_keep w)
qed

lemma edits_chain_bound: "edits_chain es s r \<Longrightarrow> byte_length s \<le> MAX_NOTE_BYTES \<Longrightarrow> byte_length r \<le> MAX_NOTE_BYTES"
  by (induction es arbitrary: s) (auto simp del: byte_length_append)

lemma edited_size: "applyExactEdits s es t = Inr r \<Longrightarrow> byte_length r \<le> MAX_NOTE_BYTES"
  unfolding exact_edits_spec by (auto split: option.splits dest: edits_chain_bound)

lemma one_edit:
  assumes "place_of p = Store" and "pm_action p = Edit"
  shows "one_call (mutation_allowed env p) (editAction env (logging pr) p)"
proof -
  note read = keeps_checked [OF keeps_provider(3) [OF logging_reads_keep]]
  have w: "one_call (mutation_allowed env p) (act_bind (checked (np_write (logging pr) path content (Some r)) (\<lambda>v. validateMutation v path))
      (\<lambda>(path, revision). act_ret (result_of env (''Edited '' @ path) (mutation_details p None path revision))))"
    if "requirePath p = Inr path" "requireExistingRevision p = Inr r" "applyExactEdits old es t = Inr content" for path r old es t content
    by (rule one_after, rule one_write)
      (use that assms existing_revision edited_size in \<open>auto simp: mutated_path_def intro: keeps_ret\<close>)
  have e: "one_call (mutation_allowed env p)
      (if nd_revision doc \<noteq> r then act_throw (conflict path)
       else act_bind (act_lift (applyExactEdits (nd_content doc) (case pm_edits p of None \<Rightarrow> [] | Some es \<Rightarrow> es) (pm_append p))) (\<lambda>content.
         act_bind (checked (np_write (logging pr) path content (Some r)) (\<lambda>v. validateMutation v path))
         (\<lambda>(path, revision). act_ret (result_of env (''Edited '' @ path) (mutation_details p None path revision)))))"
    if "requirePath p = Inr path" "requireExistingRevision p = Inr r" for path r doc
    by (rule one_if, rule one_keeps [OF keeps_throw], rule one_lift, rule w [OF that])
  have f: "one_call (mutation_allowed env p)
      (if (pm_edits p = None \<or> pm_edits p = Some []) \<and> pm_append p = None
       then act_throw (Plain_error ''notes edit requires edits or append'')
       else act_bind (act_lift (requireExistingRevision p)) (\<lambda>revision.
         act_bind (checked (np_read (logging pr) path) (\<lambda>v. validateDocument v (Some path))) (\<lambda>note.
           if nd_revision note \<noteq> revision then act_throw (conflict path)
           else act_bind (act_lift (applyExactEdits (nd_content note) (case pm_edits p of None \<Rightarrow> [] | Some es \<Rightarrow> es) (pm_append p)))
             (\<lambda>content.
               act_bind (checked (np_write (logging pr) path content (Some revision)) (\<lambda>v. validateMutation v path))
               (\<lambda>(path, revision). act_ret (result_of env (''Edited '' @ path) (mutation_details p None path revision)))))))"
    if "requirePath p = Inr path" for path
    by (rule one_if, rule one_keeps [OF keeps_throw], rule one_lift, rule one_before [OF read], rule e [OF that])
  show ?thesis
    unfolding editAction_def by (rule one_lift, rule f)
qed

lemma one_mutations:
  "place_of p = Store \<Longrightarrow> pm_action p = Write \<Longrightarrow> one_call (mutation_allowed env p) (writeAction env (logging pr) p)"
  "place_of p = Store \<Longrightarrow> pm_action p = Delete \<Longrightarrow> one_call (mutation_allowed env p) (deleteAction env (logging pr) p)"
  "place_of p = Of_collection Inbox \<Longrightarrow> pm_action p = Write \<Longrightarrow> one_call (mutation_allowed env p) (inboxWriteAction env (logging pr) p)"
  "place_of p = Of_collection Worklog \<Longrightarrow> pm_action p = Record \<Longrightarrow> one_call (mutation_allowed env p) (worklogRecordAction env (logging pr) p)"
  "place_of p = Of_collection Projects \<Longrightarrow> pm_action p = Write \<Longrightarrow> one_call (mutation_allowed env p) (projectsWriteAction env (logging pr) p)"
  "place_of p = Of_collection Wiki \<Longrightarrow> pm_action p = Write \<Longrightarrow> one_call (mutation_allowed env p) (wikiWriteAction env (logging pr) p)"
  unfolding writeAction_def deleteAction_def inboxWriteAction_def worklogRecordAction_def projectsWriteAction_def wikiWriteAction_def Let_def
  by (intro one_lift one_after one_delete; auto intro!: one_write_document one_capture one_keeps [OF keeps_throw] keeps_ret
      simp: mutated_path_def existing_revision)+

text \<open>C27: 
  Whatever a call does, it asks the provider for at most one mutation: of the note its arguments name,
  with a content within the size limit and under the revision the caller gave (an edit never
  creates a note); a call of the inbox or the worklog is the capture of today.
\<close>

theorem at_most_one_mutation:
  "\<exists>calls. snd (snd (executeNotesAction env (logging pr) p (s, before))) = before @ calls \<and>
     (calls = [] \<or> (\<exists>c. calls = [c] \<and> mutation_allowed env p c))"
proof -
  have "one_call (mutation_allowed env p) (executeNotesAction env (logging pr) p)"
    unfolding executeNotesAction_def
  proof (rule one_lift, goal_cases)
    case (1 q)
    then have q: "q = p"
      using parsed_params by blast
    note r = keeps_read_actions [OF logging_reads_keep, THEN one_keeps]
    show ?case
      unfolding q place_of_def [symmetric]
      using r one_mutations one_edit
      by (auto simp: executeCollectionAction_def executeInboxAction_def executeProjectsAction_def executeWorklogAction_def
          executeWikiAction_def intro: one_keeps [OF keeps_throw] split: notes_place.split collection.split notes_action.split
          simp del: mutation_allowed.simps)
  qed
  then have "snd (snd (executeNotesAction env (logging pr) p (s, before))) = before \<or>
      (\<exists>c. snd (snd (executeNotesAction env (logging pr) p (s, before))) = before @ [c] \<and> mutation_allowed env p c)"
    unfolding one_call_def by (metis snd_conv)
  then show ?thesis
    by (metis append_Nil2)
qed

end
