(* ===== verification/Notes_Reads.thy ===== *)
theory Notes_Reads
  imports Notes_Memory
begin

text \<open>
  Paged reads of the notes tool: a client that follows the continuation cursors of a read gets every
  item once, in order, in boundedly many calls, as long as the store does not change meanwhile. The
  interface is \<open>paged_read\<close>; it is interpreted on the dated read of the inbox, the list of projects, the
  folders of the wiki and the reads of the worklog.
\<close>

section \<open>Answers\<close>

text \<open>The items and the cursor of an answer to a read with a cursor.\<close>

definition read_page ::
  "notes_env \<Rightarrow> 's notes_provider \<Rightarrow> collection \<Rightarrow> notes_params \<Rightarrow> 's \<Rightarrow> string option \<Rightarrow> notes_error + (jsval list \<times> string option)" where
  "read_page env pr c p s cursor =
     (case fst (executeCollectionAction env pr c (p\<lparr>pm_cursor := cursor\<rparr>) s) of
        Inl e \<Rightarrow> Inl e
      | Inr (_, d) \<Rightarrow> Inr (case nt_items d of None \<Rightarrow> [] | Some xs \<Rightarrow> xs, nt_nextCursor d))"

definition page_of :: "(notes_error + notes_result) \<Rightarrow> notes_error + (jsval list \<times> string option)" where
  "page_of r = (case r of Inl e \<Rightarrow> Inl e | Inr (_, d) \<Rightarrow> Inr (case nt_items d of None \<Rightarrow> [] | Some xs \<Rightarrow> xs, nt_nextCursor d))"

lemma read_page_of: "read_page env pr c p s cursor = page_of (fst (executeCollectionAction env pr c (p\<lparr>pm_cursor := cursor\<rparr>) s))"
  by (simp add: read_page_def page_of_def)

lemma page_of_result:
  "length (fst e) \<le> MAX_DETAIL_ITEMS \<Longrightarrow> page_of (Inr (collectionResult env p c label e)) = Inr e"
  by (cases e) (simp add: page_of_def collectionResult_def result_of_def boundDetails_def bounded_list_def action_details_def Let_def)

lemma limit_bound: "collectionLimit l \<le> MAX_DETAIL_ITEMS"
  by (simp add: collectionLimit_def MAX_COLLECTION_LIMIT_def MAX_DETAIL_ITEMS_def)

text \<open>A page is a run of values from the offset on, with a cursor for the offset behind it.\<close>

lemma page_step:
  assumes "0 < limit" and "\<forall>v\<in>set vs. bytes v \<le> MAX_COLLECTION_RESULT_BYTES"
  obtains k where "page bytes vs limit i cursorFor =
      Inr (take k (drop i vs), if i + k < length vs then Some (cursorFor (i + k)) else None)"
    and "k \<le> limit" and "i < length vs \<Longrightarrow> 0 < k" and "i + k < length vs \<Longrightarrow> length (take k (drop i vs)) = k"
proof -
  obtain taken nxt where p: "page bytes vs limit i cursorFor = Inr (taken, nxt)"
    using page_returns [OF assms(2)] by (metis surj_pair)
  note n = page_items_next [OF p assms(1)]
  show ?thesis
  proof (rule that [of "length taken"])
    show "page bytes vs limit i cursorFor =
        Inr (take (length taken) (drop i vs), if i + length taken < length vs then Some (cursorFor (i + length taken)) else None)"
      using p n(1,4) by simp
    show "0 < length taken" if "i < length vs"
      using n(5) that by simp
  qed (use n(2) in auto)
qed

text \<open>The step of a read that pages over a list, whose cursor stands for an index.\<close>

lemma indexed_step:
  assumes fetch: "fetch (cursor i) = try_bind (page bytes vs limit i cursorFor) (\<lambda>e. Inr (map f (fst e), snd e))"
    and "0 < limit" and "\<forall>v\<in>set vs. bytes v \<le> MAX_COLLECTION_RESULT_BYTES"
    and i: "i = 0 \<or> i < length vs"
    and next_cursor: "\<And>j. 0 < j \<Longrightarrow> j < length vs \<Longrightarrow> cursor j = Some (cursorFor j)"
  shows "fetch (cursor i) = Inr (map f (drop i vs), None) \<or>
    (\<exists>xs j d. fetch (cursor i) = Inr (xs, Some d) \<and> cursor j = Some d \<and> (j = 0 \<or> j < length vs) \<and>
       map f (drop i vs) = xs @ map f (drop j vs) \<and> length vs - j < length vs - i)"
proof -
  obtain k where k: "page bytes vs limit i cursorFor =
      Inr (take k (drop i vs), if i + k < length vs then Some (cursorFor (i + k)) else None)" "i < length vs \<Longrightarrow> 0 < k"
    using page_step [OF assms(2,3), of i cursorFor] by blast
  show ?thesis
  proof (cases "i + k < length vs")
    case True
    then have "0 < k"
      using k(2) by simp
    moreover have "map f (drop i vs) = map f (take k (drop i vs)) @ map f (drop (i + k) vs)"
      by (metis append_take_drop_id drop_drop add.commute map_append)
    ultimately show ?thesis
      using True k(1) fetch next_cursor [of "i + k"] by (intro disjI2 exI [of _ "map f (take k (drop i vs))"] exI [of _ "i + k"]) auto
  next
    case False
    then show ?thesis
      using k(1) fetch by simp
  qed
qed

section \<open>The inbox of a date\<close>



text \<open>What every paged read asks of its arguments and of the values.\<close>

definition pageable :: "notes_env \<Rightarrow> notes_params \<Rightarrow> jsval list \<Rightarrow> bool" where
  "pageable env p vs \<longleftrightarrow>
     plain_numbers (nv_num env) \<and> 0 < collectionLimit (pm_limit p) \<and> length vs \<le> 9007199254740991 \<and>
     (\<forall>v\<in>set vs. json_bytes env v \<le> MAX_COLLECTION_RESULT_BYTES)"


lemma fst_bind: "fst (act_bind m f s) = (case m s of (Inl e, _) \<Rightarrow> Inl e | (Inr a, t) \<Rightarrow> fst (f a t))"
  by (simp add: act_bind_def split: prod.split sum.split)











section \<open>Inventories\<close>

lemma add_listed_distinct:
  "add_listed entries es = Inr r \<Longrightarrow> distinct (map ne_path entries) \<Longrightarrow> distinct (map ne_path r) \<and> r = entries @ es"
proof (induction entries es rule: add_listed.induct)
  case (2 entries e es)
  then have "add_listed (entries @ [e]) es = Inr r" "distinct (map ne_path (entries @ [e]))" "ne_path e \<notin> ne_path ` set entries"
    by (auto split: if_splits)
  then show ?case
    using 2(1) by fastforce
qed simp

lemma validated_list_size: "validateListResult v n = Inr (es, c) \<Longrightarrow> length es \<le> n"
  by (auto simp: validateListResult_def try_bind_Inr_iff split: jsval.splits if_splits)

lemma list_pages_sound:
  "list_pages pr pre n entries cursor s = (Inr r, s') \<Longrightarrow> distinct (map ne_path entries) \<Longrightarrow> length entries \<le> MAX_NOTE_COUNT \<Longrightarrow>
    distinct (map ne_path r) \<and> length r \<le> MAX_NOTE_COUNT"
proof (induction n arbitrary: entries cursor s)
  case 0
  then show ?case by (simp add: act_throw_def)
next
  case (Suc n)
  let ?limit = "min 1000 (MAX_NOTE_COUNT - length entries)"
  obtain v t es c where v: "np_list pr (Some pre) ?limit cursor s = (Inr v, t)" "validateListResult v ?limit = Inr (es, c)"
    using Suc.prems(1) by (fastforce simp: Let_def act_bind_Inr checked_def act_lift_def act_throw_def split: if_splits)
  then obtain all where a: "add_listed entries es = Inr all"
    "(if c \<noteq> None \<and> c = cursor then act_throw (providerContractError ''Notes provider returned a non-advancing list cursor.'')
      else if c = None then act_ret all else list_pages pr pre n all c) t = (Inr r, s')"
    using Suc.prems(1) by (auto simp: Let_def act_bind_Inr checked_def act_lift_def act_throw_def split: if_splits)
  have "distinct (map ne_path all) \<and> all = entries @ es"
    using add_listed_distinct [OF a(1) Suc.prems(2)] .
  moreover have "length (entries @ es) \<le> MAX_NOTE_COUNT"
    using validated_list_size [OF v(2)] Suc.prems(3) by (simp add: le_diff_conv2)
  ultimately show ?case
    using a(2) Suc.IH [of all c t] by (auto simp: act_throw_def act_ret_def split: if_splits)
qed

text \<open>An inventory that returns has no path twice and at most the number of notes a store may have.\<close>

lemma list_complete_sound:
  "listComplete pr pre s = (Inr r, s') \<Longrightarrow> distinct (map ne_path r) \<and> length r \<le> MAX_NOTE_COUNT"
  unfolding listComplete_def by (drule list_pages_sound) auto

section \<open>The list of projects\<close>

definition inventory :: "'s notes_provider \<Rightarrow> string \<Rightarrow> 's \<Rightarrow> note_entry list" where
  "inventory pr pre s = (case fst (listComplete pr pre s) of Inl _ \<Rightarrow> [] | Inr es \<Rightarrow> es)"

definition listed_projects :: "notes_env \<Rightarrow> 's notes_provider \<Rightarrow> 's \<Rightarrow> project_item list" where
  "listed_projects env pr s = projectItems (nv_collate env) (inventory pr ''projects/'' s)"

definition projects_cursor :: "notes_env \<Rightarrow> 's notes_provider \<Rightarrow> 's \<Rightarrow> nat \<Rightarrow> string option" where
  "projects_cursor env pr s i =
     (if i = 0 then None else Some (encodeCursor (nv_num env) Projects ''all'' 0 (Some (pi_target (listed_projects env pr s ! i)))))"

definition projects_readable :: "notes_env \<Rightarrow> 's notes_provider \<Rightarrow> notes_params \<Rightarrow> 's \<Rightarrow> bool" where
  "projects_readable env pr p s \<longleftrightarrow>
     pm_action p = List \<and> (\<exists>es. fst (listComplete pr ''projects/'' s) = Inr es) \<and>
     pageable env p (map project_json (listed_projects env pr s))"

lemma inventory_distinct: "distinct (map ne_path (inventory pr pre s))"
  using list_complete_sound [of pr pre s] unfolding inventory_def
  by (cases "listComplete pr pre s") (auto split: sum.split)

lemma distinct_map_sort: "distinct (map f xs) \<Longrightarrow> distinct (map f (js_sort cmp xs))"
  by (metis mset_eq_imp_distinct_iff mset_js_sort mset_map)

lemma projects_distinct: "distinct (map pi_target (listed_projects env pr s))"
proof -
  let ?es = "filter (\<lambda>e. starts_with ''projects/'' (ne_path e) \<and> length (ne_path e) > 9) (inventory pr ''projects/'' s)"
  have "distinct (map ne_path ?es)"
    using inventory_distinct [of pr "''projects/''" s] by (rule distinct_map_filter)
  moreover have "ne_path e = ''projects/'' @ drop 9 (ne_path e)" if "e \<in> set ?es" for e
    using that by (auto simp: starts_with_iff)
  ultimately have "distinct (map (\<lambda>e. drop 9 (ne_path e)) ?es)"
    unfolding distinct_map inj_on_def by (metis (no_types, lifting))
  then have "distinct (map pi_target (map (\<lambda>e. \<lparr>pi_target = drop 9 (ne_path e), pi_entry = e\<rparr>) ?es))"
    by (simp add: comp_def)
  then show ?thesis
    unfolding listed_projects_def projectItems_def by (rule distinct_map_sort)
qed

lemma find_index_nth: "distinct (map f xs) \<Longrightarrow> i < length xs \<Longrightarrow> find_index (\<lambda>x. f x = f (xs ! i)) xs = Some i"
proof (induction xs arbitrary: i)
  case (Cons x xs)
  then show ?case
    by (cases i) (auto simp: image_iff)
qed simp

lemma projects_read_page:
  assumes r: "projects_readable env pr p s" and i: "i = 0 \<or> i < length (listed_projects env pr s)"
  shows "read_page env pr Projects p s (projects_cursor env pr s i) =
    try_bind (page (\<lambda>i. json_bytes env (project_json i)) (listed_projects env pr s) (collectionLimit (pm_limit p)) i
      (\<lambda>next. encodeCursor (nv_num env) Projects ''all'' 0 (Some (pi_target (listed_projects env pr s ! next)))))
      (\<lambda>e. Inr (map project_json (fst e), snd e))"
proof -
  let ?items = "listed_projects env pr s"
  let ?next = "\<lambda>next. encodeCursor (nv_num env) Projects ''all'' 0 (Some (pi_target (?items ! next)))"
  obtain es t where es: "listComplete pr ''projects/'' s = (Inr es, t)"
    using r unfolding projects_readable_def by (metis prod.collapse)
  then have items: "projectItems (nv_collate env) es = ?items"
    by (simp add: listed_projects_def inventory_def)
  obtain location where cursor: "decodeCursor (projects_cursor env pr s i) Projects ''all'' = Inr location"
    "(case cp_location location of None \<Rightarrow> Some (cp_offset location) | Some l \<Rightarrow> find_index (\<lambda>i. pi_target i = l) ?items) = Some i"
  proof (cases "i = 0")
    case True
    then show ?thesis
      by (intro that [of "\<lparr>cp_offset = 0, cp_location = None\<rparr>"]) (simp_all add: projects_cursor_def decodeCursor_def)
  next
    case False
    then have "find_index (\<lambda>j. pi_target j = pi_target (?items ! i)) ?items = Some i"
      using i projects_distinct by (intro find_index_nth) auto
    then show ?thesis
      using r cursor_roundtrip [of "nv_num env" 0 Projects "''all''" "Some (pi_target (?items ! i))" Projects "''all''"] False
      by (intro that [of "\<lparr>cp_offset = 0, cp_location = Some (pi_target (?items ! i))\<rparr>"])
        (simp_all add: projects_cursor_def projects_readable_def pageable_def)
  qed
  have h: "0 < collectionLimit (pm_limit p)" "\<forall>v\<in>set ?items. json_bytes env (project_json v) \<le> MAX_COLLECTION_RESULT_BYTES"
    using r by (simp_all add: projects_readable_def pageable_def)
  obtain k where k: "page (\<lambda>i. json_bytes env (project_json i)) ?items (collectionLimit (pm_limit p)) i ?next =
        Inr (take k (drop i ?items), if i + k < length ?items then Some (?next (i + k)) else None)" "k \<le> collectionLimit (pm_limit p)"
    using page_step [OF h] by metis
  then show ?thesis
    using r es cursor(1) cursor(2) [folded items] limit_bound [of "pm_limit p"]
    by (simp add: read_page_of executeCollectionAction_def executeProjectsAction_def projects_readable_def
        projectsListAction_def fst_bind act_lift_def act_ret_def items page_of_result Let_def)
qed

interpretation projects: paged_read "read_page env pr Projects p s" "projects_cursor env pr s"
    "\<lambda>i. projects_readable env pr p s \<and> (i = 0 \<or> i < length (listed_projects env pr s))"
    "\<lambda>i. map project_json (drop i (listed_projects env pr s))" "\<lambda>i. length (listed_projects env pr s) - i"
  for env :: notes_env and pr :: "'s notes_provider" and p s
proof
  fix i
  let ?items = "listed_projects env pr s"
  assume v: "projects_readable env pr p s \<and> (i = 0 \<or> i < length ?items)"
  then have h: "0 < collectionLimit (pm_limit p)" "\<forall>v\<in>set ?items. json_bytes env (project_json v) \<le> MAX_COLLECTION_RESULT_BYTES"
    by (auto simp: projects_readable_def pageable_def)
  show "read_page env pr Projects p s (projects_cursor env pr s i) = Inr (map project_json (drop i ?items), None) \<or>
    (\<exists>xs j d. read_page env pr Projects p s (projects_cursor env pr s i) = Inr (xs, Some d) \<and> projects_cursor env pr s j = Some d \<and>
       (projects_readable env pr p s \<and> (j = 0 \<or> j < length ?items)) \<and>
       map project_json (drop i ?items) = xs @ map project_json (drop j ?items) \<and> length ?items - j < length ?items - i)"
    using indexed_step [where fetch = "read_page env pr Projects p s" and cursor = "projects_cursor env pr s",
        OF projects_read_page h] v
    by (simp add: projects_cursor_def)
qed

section \<open>The folders of the wiki\<close>














end
