(* ===== verification/Git_Cleanup.thy ===== *)
theory Git_Cleanup
  imports Js_Strings Effects
begin

text \<open>
  The cleanup of merged branches and worktrees (\<open>extensions/dev-tools/cleanup-core.ts\<close>): the options, the
  worktrees git lists, the plan with a disposition for each target, and its application. Git is the
  argument: a function from a directory, arguments and a state to a result and the next state.
\<close>

section \<open>Git and the file system\<close>

text \<open>A status is \<open>None\<close> when the process was killed.\<close>

record git_result =
  gr_status :: "int option"
  gr_stdout :: string
  gr_stderr :: string

record 's git_env =
  ge_git :: "string \<Rightarrow> string list \<Rightarrow> 's \<Rightarrow> git_result \<times> 's"
  ge_exists :: "string \<Rightarrow> 's \<Rightarrow> bool"
  ge_relative :: "string \<Rightarrow> string \<Rightarrow> string"

definition gitSync :: "'s git_env \<Rightarrow> string \<Rightarrow> string list \<Rightarrow> ('s, string, git_result) act" where
  "gitSync env cwd args s = (case ge_git env cwd args s of (r, s) \<Rightarrow> (Inr r, s))"

definition git_ok :: "git_result \<Rightarrow> bool" where
  "git_ok r = (gr_status r = Some 0)"

definition gitOutput :: "'s git_env \<Rightarrow> string \<Rightarrow> string list \<Rightarrow> ('s, string, string) act" where
  "gitOutput env cwd args =
     act_bind (gitSync env cwd args) (\<lambda>r. act_ret (if git_ok r then trim_string (gr_stdout r) else ''''))"

definition git_succeeds :: "'s git_env \<Rightarrow> string \<Rightarrow> string list \<Rightarrow> ('s, string, bool) act" where
  "git_succeeds env cwd args = act_bind (gitSync env cwd args) (\<lambda>r. act_ret (git_ok r))"

section \<open>Options\<close>

record cleanup_options =
  co_apply :: bool
  co_force :: bool
  co_fetch :: bool
  co_baseRef :: "string option"
  co_repoPath :: "string option"

definition valueAfter :: "string list \<Rightarrow> string \<Rightarrow> string option" where
  "valueAfter tokens flag =
     (case find_index (\<lambda>t. t = flag) tokens of
        None \<Rightarrow> None
      | Some i \<Rightarrow> if i + 1 < length tokens then Some (tokens ! (i + 1)) else None)"

definition valueAfterPrefix :: "string list \<Rightarrow> string \<Rightarrow> string option" where
  "valueAfterPrefix tokens pre = map_option (drop (length pre)) (find (starts_with pre) tokens)"

definition or_else :: "'a option \<Rightarrow> 'a option \<Rightarrow> 'a option" where
  "or_else a b = (case a of None \<Rightarrow> b | Some x \<Rightarrow> Some x)"

definition positionalRepoPath :: "string list \<Rightarrow> string option" where
  "positionalRepoPath tokens =
     find (\<lambda>t. t \<notin> {''apply'', ''--apply'', ''force'', ''--force'', ''--no-fetch''} \<and> \<not> starts_with ''--base='' t \<and>
         \<not> starts_with ''--repo='' t \<and> \<not> starts_with ''--'' t \<and>
         Some t \<noteq> valueAfter tokens ''--base'' \<and> Some t \<noteq> valueAfter tokens ''--repo'')
       tokens"

definition parseCleanupArgs :: "string option \<Rightarrow> cleanup_options" where
  "parseCleanupArgs args =
     (let tokens = js_words (case args of None \<Rightarrow> '''' | Some s \<Rightarrow> s) in
      \<lparr>co_apply = ''apply'' \<in> set tokens \<or> ''--apply'' \<in> set tokens,
       co_force = ''--force'' \<in> set tokens \<or> ''force'' \<in> set tokens,
       co_fetch = (''--no-fetch'' \<notin> set tokens),
       co_baseRef = or_else (valueAfter tokens ''--base'') (valueAfterPrefix tokens ''--base=''),
       co_repoPath =
         or_else (or_else (valueAfter tokens ''--repo'') (valueAfterPrefix tokens ''--repo='')) (positionalRepoPath tokens)\<rparr>)"

section \<open>Worktrees\<close>

record worktree_entry =
  we_path :: string
  we_head :: "string option"
  we_branch :: "string option"

text \<open>\<open>detached\<close> of an entry is that it has no branch.\<close>

definition we_detached :: "worktree_entry \<Rightarrow> bool" where
  "we_detached e = (\<not> truthy (we_branch e))"

definition close_entry :: "worktree_entry option \<Rightarrow> worktree_entry list" where
  "close_entry current = (case current of None \<Rightarrow> [] | Some e \<Rightarrow> if we_path e = '''' then [] else [e])"

definition strip_heads :: "string \<Rightarrow> string" where
  "strip_heads v = (if starts_with ''refs/heads/'' v then drop 11 v else v)"

text \<open>One line: the entries it completes, and the entry that is open after it.\<close>

definition porcelain_line :: "worktree_entry option \<Rightarrow> string \<Rightarrow> worktree_entry list \<times> worktree_entry option" where
  "porcelain_line current line =
     (if trim_string line = '''' then (close_entry current, None)
      else (let parts = split_on (CHR '' '') [] line; key = hd parts; v = join_with '' '' (tl parts) in
        if key = ''worktree'' then (close_entry current, Some \<lparr>we_path = v, we_head = None, we_branch = None\<rparr>)
        else if key = ''HEAD'' then ([], map_option (\<lambda>e. e\<lparr>we_head := Some v\<rparr>) current)
        else if key = ''branch'' then ([], map_option (\<lambda>e. e\<lparr>we_branch := Some (strip_heads v)\<rparr>) current)
        else ([], current)))"

fun porcelain_lines :: "worktree_entry option \<Rightarrow> string list \<Rightarrow> worktree_entry list" where
  "porcelain_lines current [] = close_entry current"
| "porcelain_lines current (l # ls) =
     (case porcelain_line current l of (es, current) \<Rightarrow> es @ porcelain_lines current ls)"

definition parseWorktreePorcelain :: "string \<Rightarrow> worktree_entry list" where
  "parseWorktreePorcelain stdout = porcelain_lines None (split_on (CHR 0x0A) [] stdout)"

section \<open>Targets and the plan\<close>

datatype cleanup_disposition = Safe | NeedsForce | Skipped
datatype cleanup_kind = Worktree_target | Branch_target
datatype merge_state = Merged | RemoteGone | NotMerged
datatype delete_mode = Safe_delete | Force_delete

record cleanup_target =
  ct_kind :: cleanup_kind
  ct_branch :: string
  ct_path :: "string option"
  ct_disposition :: cleanup_disposition
  ct_proof :: "string list"
  ct_reason :: "string option"
  ct_deleteMode :: "delete_mode option"

record cleanup_plan =
  cp_repoRoot :: string
  cp_baseRef :: string
  cp_currentBranch :: "string option"
  cp_protectedBranches :: "string list"
  cp_targets :: "cleanup_target list"
  cp_warnings :: "string list"

definition PROTECTED_BRANCHES :: "string list" where
  "PROTECTED_BRANCHES = [''main'', ''master'', ''develop'', ''dev'', ''prod'', ''production'']"

definition isProtectedBranch :: "string \<Rightarrow> bool" where
  "isProtectedBranch b = (b \<in> set PROTECTED_BRANCHES \<or> starts_with ''release/'' b)"

definition samePath :: "'s git_env \<Rightarrow> string \<Rightarrow> string \<Rightarrow> bool" where
  "samePath env a b = (ge_relative env a b = '''')"

definition localBranchExists :: "'s git_env \<Rightarrow> string \<Rightarrow> string \<Rightarrow> ('s, string, bool) act" where
  "localBranchExists env repo b = git_succeeds env repo [''show-ref'', ''--verify'', ''--quiet'', ''refs/heads/'' @ b]"

definition remoteBranchExists :: "'s git_env \<Rightarrow> string \<Rightarrow> string \<Rightarrow> ('s, string, bool) act" where
  "remoteBranchExists env repo b = git_succeeds env repo [''show-ref'', ''--verify'', ''--quiet'', ''refs/remotes/origin/'' @ b]"

definition isAncestor :: "'s git_env \<Rightarrow> string \<Rightarrow> string \<Rightarrow> string \<Rightarrow> ('s, string, bool) act" where
  "isAncestor env cwd maybeAncestor descendant =
     git_succeeds env cwd [''merge-base'', ''--is-ancestor'', maybeAncestor, descendant]"

definition isDirty :: "'s git_env \<Rightarrow> string \<Rightarrow> ('s, string, bool) act" where
  "isDirty env cwd = act_bind (gitOutput env cwd [''status'', ''--porcelain'']) (\<lambda>out. act_ret (trim_string out \<noteq> ''''))"

definition mergeState :: "bool \<Rightarrow> bool \<Rightarrow> bool \<Rightarrow> merge_state" where
  "mergeState branchMerged headMerged remoteGone =
     (if branchMerged \<or> headMerged then Merged else if remoteGone then RemoteGone else NotMerged)"

definition skipped_target :: "cleanup_kind \<Rightarrow> string \<Rightarrow> string option \<Rightarrow> string \<Rightarrow> string list \<Rightarrow> cleanup_target" where
  "skipped_target kind branch path reason evidence =
     \<lparr>ct_kind = kind, ct_branch = branch, ct_path = path, ct_disposition = Skipped, ct_proof = evidence, ct_reason = Some reason,
      ct_deleteMode = None\<rparr>"

text \<open>The target of a branch once the answers of git are known.\<close>

definition merged_target ::
  "string \<Rightarrow> string \<Rightarrow> string option \<Rightarrow> cleanup_kind \<Rightarrow> bool \<Rightarrow> bool \<Rightarrow> bool \<Rightarrow> cleanup_target" where
  "merged_target baseRef branch path kind branchMerged headMerged remoteGone =
     (let evidence = (if branchMerged then [''refs/heads/'' @ branch @ '' is ancestor of '' @ baseRef] else []) @
            (if headMerged \<and> truthy path then [''worktree HEAD is ancestor of '' @ baseRef] else []) @
            (if remoteGone then [''remote branch is gone after fetch --prune''] else [])
      in case mergeState branchMerged headMerged remoteGone of
          Merged \<Rightarrow>
            \<lparr>ct_kind = kind, ct_branch = branch, ct_path = path, ct_disposition = Safe, ct_proof = evidence, ct_reason = None,
             ct_deleteMode = Some Safe_delete\<rparr>
        | RemoteGone \<Rightarrow>
            \<lparr>ct_kind = kind, ct_branch = branch, ct_path = path, ct_disposition = NeedsForce, ct_proof = evidence,
             ct_reason = Some (''remote branch is gone, but local commits are not ancestors of the base ref '' @
               ''(common after squash merge)''),
             ct_deleteMode = Some Force_delete\<rparr>
        | NotMerged \<Rightarrow> skipped_target kind branch path (''not proven merged into '' @ baseRef) evidence)"

definition classifyTarget ::
  "'s git_env \<Rightarrow> string \<Rightarrow> string \<Rightarrow> string \<Rightarrow> string option \<Rightarrow> cleanup_kind \<Rightarrow> ('s, string, cleanup_target) act" where
  "classifyTarget env repoRoot baseRef branch path kind =
     (if isProtectedBranch branch then act_ret (skipped_target kind branch path ''protected branch'' [])
      else
        act_bind (if truthy path then isDirty env (the path) else act_ret False) (\<lambda>dirty.
        if dirty then act_ret (skipped_target kind branch path ''worktree has uncommitted changes'' [])
        else
          act_bind (isAncestor env repoRoot (''refs/heads/'' @ branch) baseRef) (\<lambda>branchMerged.
          act_bind (if truthy path then isAncestor env (the path) ''HEAD'' baseRef else act_ret branchMerged) (\<lambda>headMerged.
          act_bind (remoteBranchExists env repoRoot branch) (\<lambda>remote.
          act_ret (merged_target baseRef branch path kind branchMerged headMerged (\<not> remote)))))))"

section \<open>Building the plan\<close>

definition resolveRepoRoot :: "'s git_env \<Rightarrow> string \<Rightarrow> ('s, string, string) act" where
  "resolveRepoRoot env cwd =
     act_bind (gitOutput env cwd [''rev-parse'', ''--show-toplevel'']) (\<lambda>repo.
       if repo = '''' then act_throw (cwd @ '' is not inside a git repository'') else act_ret repo)"

definition resolveDefaultBaseRef :: "'s git_env \<Rightarrow> string \<Rightarrow> ('s, string, string) act" where
  "resolveDefaultBaseRef env repo =
     act_bind (gitOutput env repo [''symbolic-ref'', ''--quiet'', ''--short'', ''refs/remotes/origin/HEAD'']) (\<lambda>h.
       act_ret (if h = '''' then ''origin/main'' else h))"

definition listLocalBranches :: "'s git_env \<Rightarrow> string \<Rightarrow> ('s, string, string list) act" where
  "listLocalBranches env repo =
     act_bind (gitOutput env repo [''for-each-ref'', ''--format=%(refname:short)'', ''refs/heads'']) (\<lambda>out.
       act_ret (filter (\<lambda>l. l \<noteq> '''') (map trim_string (split_on (CHR 0x0A) [] out))))"

definition firstLine :: "string \<Rightarrow> string" where
  "firstLine t =
     (case find (\<lambda>l. trim_string l \<noteq> '''') (split_on (CHR 0x0A) [] t) of None \<Rightarrow> ''unknown error'' | Some l \<Rightarrow> trim_string l)"

definition fetch_warnings :: "'s git_env \<Rightarrow> string \<Rightarrow> ('s, string, string list) act" where
  "fetch_warnings env repo =
     act_bind (gitSync env repo [''fetch'', ''--prune'', ''origin'']) (\<lambda>r.
       act_ret (if git_ok r then []
         else [''git fetch --prune origin failed: '' @ firstLine (if gr_stderr r = '''' then gr_stdout r else gr_stderr r)]))"

fun worktree_targets ::
  "'s git_env \<Rightarrow> string \<Rightarrow> string \<Rightarrow> worktree_entry list \<Rightarrow> ('s, string, cleanup_target list) act" where
  "worktree_targets env repo baseRef [] = act_ret []"
| "worktree_targets env repo baseRef (e # es) =
     (if samePath env (we_path e) repo then worktree_targets env repo baseRef es
      else
        act_bind
          (if \<not> truthy (we_branch e)
           then act_ret (skipped_target Worktree_target ''(detached)'' (Some (we_path e)) ''detached worktree'' [])
           else classifyTarget env repo baseRef (the (we_branch e)) (Some (we_path e)) Worktree_target) (\<lambda>t.
        act_bind (worktree_targets env repo baseRef es) (\<lambda>ts. act_ret (t # ts))))"

fun branch_targets ::
  "'s git_env \<Rightarrow> string \<Rightarrow> string \<Rightarrow> string set \<Rightarrow> string option \<Rightarrow> string list \<Rightarrow> ('s, string, cleanup_target list) act" where
  "branch_targets env repo baseRef active current [] = act_ret []"
| "branch_targets env repo baseRef active current (b # bs) =
     (if b \<in> active \<or> Some b = current then branch_targets env repo baseRef active current bs
      else
        act_bind (classifyTarget env repo baseRef b None Branch_target) (\<lambda>t.
        act_bind (branch_targets env repo baseRef active current bs) (\<lambda>ts.
          act_ret (if ct_disposition t \<noteq> Skipped \<or> ct_reason t \<noteq> Some ''protected branch'' then t # ts else ts))))"

definition active_branches :: "worktree_entry list \<Rightarrow> string set" where
  "active_branches es = the ` set (filter truthy (map we_branch es))"

definition buildCleanupPlan :: "'s git_env \<Rightarrow> string \<Rightarrow> cleanup_options \<Rightarrow> ('s, string, cleanup_plan) act" where
  "buildCleanupPlan env cwd opts =
     act_bind (resolveRepoRoot env (case co_repoPath opts of None \<Rightarrow> cwd | Some p \<Rightarrow> p)) (\<lambda>repo.
     act_bind (case co_baseRef opts of None \<Rightarrow> resolveDefaultBaseRef env repo | Some b \<Rightarrow> act_ret b) (\<lambda>baseRef.
     act_bind (gitOutput env repo [''branch'', ''--show-current'']) (\<lambda>shown.
     let current = (if shown = '''' then None else Some shown) in
     act_bind (if co_fetch opts then fetch_warnings env repo else act_ret []) (\<lambda>warnings.
     act_bind (gitOutput env repo [''worktree'', ''list'', ''--porcelain'']) (\<lambda>listing.
     let worktrees = parseWorktreePorcelain listing in
     act_bind (worktree_targets env repo baseRef worktrees) (\<lambda>ws.
     act_bind (listLocalBranches env repo) (\<lambda>branches.
     act_bind (branch_targets env repo baseRef (active_branches worktrees) current branches) (\<lambda>bs.
     act_ret \<lparr>cp_repoRoot = repo, cp_baseRef = baseRef, cp_currentBranch = current,
       cp_protectedBranches = PROTECTED_BRANCHES, cp_targets = ws @ bs, cp_warnings = warnings\<rparr>))))))))"

section \<open>Applying the plan\<close>

definition deleteFlagForDisposition :: "cleanup_disposition \<Rightarrow> string" where
  "deleteFlagForDisposition d = (case d of Safe \<Rightarrow> ''-d'' | NeedsForce \<Rightarrow> ''-D'' | Skipped \<Rightarrow> ''-D'')"

definition removable :: "cleanup_plan \<Rightarrow> cleanup_options \<Rightarrow> cleanup_target list" where
  "removable plan opts =
     filter (\<lambda>t. ct_disposition t = Safe \<or> (co_force opts \<and> ct_disposition t = NeedsForce)) (cp_targets plan)"

definition failure_output :: "git_result \<Rightarrow> string" where
  "failure_output r = (if gr_stderr r = '''' then gr_stdout r else gr_stderr r)"

fun remove_worktrees :: "'s git_env \<Rightarrow> string \<Rightarrow> cleanup_target list \<Rightarrow> ('s, string, string list) act" where
  "remove_worktrees env repo [] = act_ret []"
| "remove_worktrees env repo (t # ts) =
     (if \<not> truthy (ct_path t) then remove_worktrees env repo ts
      else
        act_bind (act_get (ge_exists env (the (ct_path t)))) (\<lambda>there.
        if \<not> there then remove_worktrees env repo ts
        else
          act_bind (gitSync env repo [''worktree'', ''remove'', the (ct_path t)]) (\<lambda>r.
          if \<not> git_ok r
          then act_throw (''failed to remove worktree '' @ the (ct_path t) @ '': '' @ failure_output r)
          else
            act_bind (remove_worktrees env repo ts) (\<lambda>actions.
            act_ret ((''removed worktree '' @ the (ct_path t)) # actions)))))"

fun delete_branches :: "'s git_env \<Rightarrow> string \<Rightarrow> string list \<Rightarrow> cleanup_target list \<Rightarrow> ('s, string, string list) act" where
  "delete_branches env repo deleted [] = act_ret []"
| "delete_branches env repo deleted (t # ts) =
     (if ct_branch t \<in> set deleted then delete_branches env repo deleted ts
      else
        act_bind (localBranchExists env repo (ct_branch t)) (\<lambda>there.
        if \<not> there then delete_branches env repo deleted ts
        else
          act_bind (gitSync env repo [''branch'', deleteFlagForDisposition (ct_disposition t), ct_branch t]) (\<lambda>r.
          if \<not> git_ok r
          then act_throw (''failed to delete branch '' @ ct_branch t @ '': '' @ failure_output r)
          else
            act_bind (delete_branches env repo (ct_branch t # deleted) ts) (\<lambda>actions.
            act_ret ((''deleted branch '' @ ct_branch t) # actions)))))"

definition applyCleanupPlan :: "'s git_env \<Rightarrow> cleanup_plan \<Rightarrow> cleanup_options \<Rightarrow> ('s, string, string list) act" where
  "applyCleanupPlan env plan opts =
     (if \<not> co_apply opts then act_ret []
      else
        act_bind (remove_worktrees env (cp_repoRoot plan) (filter (\<lambda>t. ct_kind t = Worktree_target) (removable plan opts))) (\<lambda>a.
        act_bind (delete_branches env (cp_repoRoot plan) [] (removable plan opts)) (\<lambda>b.
        act_ret (a @ b))))"

section \<open>Showing the plan\<close>

definition formatTargetLocation :: "cleanup_target \<Rightarrow> string" where
  "formatTargetLocation t =
     (case ct_kind t of
        Worktree_target \<Rightarrow> ''worktree '' @ (case ct_path t of None \<Rightarrow> ''undefined'' | Some p \<Rightarrow> p)
      | Branch_target \<Rightarrow> ''branch '' @ ct_branch t)"

definition target_lines :: "cleanup_target \<Rightarrow> string list" where
  "target_lines t =
     [''- '' @ formatTargetLocation t, ''  branch: '' @ ct_branch t] @
     (if truthy (ct_reason t) then [''  reason: '' @ the (ct_reason t)] else []) @ map (\<lambda>p. ''  proof: '' @ p) (ct_proof t)"

definition section_text :: "string \<Rightarrow> cleanup_target list \<Rightarrow> string list" where
  "section_text title ts = (title @ '':'') # (if ts = [] then [''- none''] else concat (map target_lines ts)) @ ['''']"

definition formatCleanupPlan :: "cleanup_plan \<Rightarrow> bool \<Rightarrow> string" where
  "formatCleanupPlan plan applied =
     (let of_kind = (\<lambda>d. filter (\<lambda>t. ct_disposition t = d) (cp_targets plan)) in
      trim_end (join_with [CHR 0x0A]
        ([(if applied then ''Cleanup applied'' else ''Cleanup plan'') @ '' for '' @ cp_repoRoot plan, ''base: '' @ cp_baseRef plan] @
         (if truthy (cp_currentBranch plan) then [''current branch: '' @ the (cp_currentBranch plan)] else []) @ [''''] @
         section_text (if applied then ''Removed'' else ''Safe'') (of_kind Safe) @ section_text ''Needs --force'' (of_kind NeedsForce) @
         section_text ''Skipped'' (of_kind Skipped) @
         (if cp_warnings plan = [] then [] else [''Warnings:''] @ map (\<lambda>w. ''- '' @ w) (cp_warnings plan) @ ['''']) @
         (if applied then []
          else [''Run `/cleanup apply` to remove safe targets. Run `/cleanup apply --force` to also remove targets whose remote '' @
            ''branch is gone but whose commits are not ancestors of the base ref.'']))))"

section \<open>The listing of worktrees is read back\<close>

definition entry_lines :: "worktree_entry \<Rightarrow> string list" where
  "entry_lines e =
     (''worktree '' @ we_path e) # (case we_head e of None \<Rightarrow> [] | Some h \<Rightarrow> [''HEAD '' @ h]) @
     (case we_branch e of None \<Rightarrow> [''detached''] | Some b \<Rightarrow> [''branch refs/heads/'' @ b]) @ ['''']"

definition porcelain :: "worktree_entry list \<Rightarrow> string" where
  "porcelain es = join_with [CHR 0x0A] (concat (map entry_lines es) @ [''''])"

text \<open>What git lists: absolute paths, and no line break inside a value.\<close>

definition plain_entry :: "worktree_entry \<Rightarrow> bool" where
  "plain_entry e \<longleftrightarrow> we_path e \<noteq> '''' \<and> CHR 0x0A \<notin> set (we_path e) \<and>
     (\<forall>h. we_head e = Some h \<longrightarrow> CHR 0x0A \<notin> set h) \<and> (\<forall>b. we_branch e = Some b \<longrightarrow> CHR 0x0A \<notin> set b)"

lemma trim_nonempty: "\<not> is_js_space c \<Longrightarrow> trim_string (c # s) \<noteq> ''''"
proof
  assume c: "\<not> is_js_space c" and "trim_string (c # s) = ''''"
  then have "dropWhile is_js_space (rev s @ [c]) = []"
    by (simp add: trim_string_def)
  then show False
    using c by (simp add: dropWhile_eq_Nil_conv)
qed

lemma keyed_line:
  assumes "CHR '' '' \<notin> set key"
  shows "hd (split_on (CHR '' '') [] (key @ CHR '' '' # v)) = key" "join_with '' '' (tl (split_on (CHR '' '') [] (key @ CHR '' '' # v))) = v"
  using join_split [of "CHR '' ''" "[]" v] by (simp_all add: split_on_next [OF assms])

lemma line_trim: "key \<noteq> '''' \<Longrightarrow> \<not> is_js_space (hd key) \<Longrightarrow> trim_string (key @ v) \<noteq> ''''"
  using trim_nonempty by (cases key) auto

lemma letter_not_space: "\<not> is_js_space (CHR ''w'')" "\<not> is_js_space (CHR ''H'')" "\<not> is_js_space (CHR ''b'')" "\<not> is_js_space (CHR ''d'')"
  by (simp_all add: is_js_space_def)

lemma porcelain_line_keys:
  "porcelain_line cur (''worktree '' @ v) = (close_entry cur, Some \<lparr>we_path = v, we_head = None, we_branch = None\<rparr>)"
  "porcelain_line cur (''HEAD '' @ v) = ([], map_option (\<lambda>e. e\<lparr>we_head := Some v\<rparr>) cur)"
  "porcelain_line cur (''branch refs/heads/'' @ v) = ([], map_option (\<lambda>e. e\<lparr>we_branch := Some v\<rparr>) cur)"
  "porcelain_line cur ''detached'' = ([], cur)" "porcelain_line cur '''' = (close_entry cur, None)"
proof -
  have t: "trim_string (''worktree '' @ v) \<noteq> ''''" "trim_string (''HEAD '' @ v) \<noteq> ''''" "trim_string (''branch refs/heads/'' @ v) \<noteq> ''''"
    "trim_string ''detached'' \<noteq> ''''"
    using line_trim [of "''worktree ''" v] line_trim [of "''HEAD ''" v] line_trim [of "''branch refs/heads/''" v] line_trim [of "''detached''" "''''"]
    by (simp_all add: letter_not_space)
  show "porcelain_line cur (''worktree '' @ v) = (close_entry cur, Some \<lparr>we_path = v, we_head = None, we_branch = None\<rparr>)"
    using t(1) keyed_line [of "''worktree''" v] unfolding porcelain_line_def Let_def by simp
  show "porcelain_line cur (''HEAD '' @ v) = ([], map_option (\<lambda>e. e\<lparr>we_head := Some v\<rparr>) cur)"
    using t(2) keyed_line [of "''HEAD''" v] unfolding porcelain_line_def Let_def by simp
  show "porcelain_line cur (''branch refs/heads/'' @ v) = ([], map_option (\<lambda>e. e\<lparr>we_branch := Some v\<rparr>) cur)"
    using t(3) keyed_line [of "''branch''" "''refs/heads/'' @ v"] unfolding porcelain_line_def Let_def
    by (simp add: strip_heads_def starts_with_iff)
  show "porcelain_line cur ''detached'' = ([], cur)"
    using t(4) unfolding porcelain_line_def Let_def by simp
  show "porcelain_line cur '''' = (close_entry cur, None)"
    by (simp add: porcelain_line_def trim_string_def)
qed

lemma porcelain_entry:
  "we_path e \<noteq> '''' \<Longrightarrow> porcelain_lines None (entry_lines e @ ls) = e # porcelain_lines None ls"
  by (cases e; cases "we_head e"; cases "we_branch e")
    (auto simp: entry_lines_def porcelain_line_keys [simplified] close_entry_def)

text \<open>C36: The worktrees that git lists are read back, with their branches and heads.\<close>

theorem porcelain_roundtrip:
  assumes "list_all plain_entry es"
  shows "parseWorktreePorcelain (porcelain es) = es"
proof -
  have "list_all (\<lambda>l. CHR 0x0A \<notin> set l) (entry_lines e)" if "plain_entry e" for e
    using that by (auto simp: entry_lines_def plain_entry_def split: option.splits)
  then have "list_all (\<lambda>l. CHR 0x0A \<notin> set l) (concat (map entry_lines es) @ [''''])"
    using assms by (induction es) auto
  then have "split_on (CHR 0x0A) [] (porcelain es) = concat (map entry_lines es) @ ['''']"
    unfolding porcelain_def by (intro split_join) (simp_all add: list_all_iff)
  moreover have "porcelain_lines None (concat (map entry_lines es) @ ['''']) = es"
    using assms by (induction es) (simp_all add: porcelain_entry plain_entry_def porcelain_line_keys close_entry_def)
  ultimately show ?thesis
    by (simp add: parseWorktreePorcelain_def)
qed

theorem porcelain_roundtrip_witness:
  "parseWorktreePorcelain (porcelain [\<lparr>we_path = ''/r'', we_head = Some ''a1'', we_branch = Some ''main''\<rparr>,
     \<lparr>we_path = ''/r x'', we_head = Some ''b2'', we_branch = None\<rparr>]) =
     [\<lparr>we_path = ''/r'', we_head = Some ''a1'', we_branch = Some ''main''\<rparr>, \<lparr>we_path = ''/r x'', we_head = Some ''b2'', we_branch = None\<rparr>]"
  by (rule porcelain_roundtrip) (simp add: plain_entry_def)

section \<open>The command\<close>

definition run_cleanup :: "'s git_env \<Rightarrow> string \<Rightarrow> string option \<Rightarrow> ('s, string, cleanup_plan \<times> string list) act" where
  "run_cleanup env cwd args =
     (let opts = parseCleanupArgs args in
      act_bind (buildCleanupPlan env cwd opts) (\<lambda>plan.
      act_bind (applyCleanupPlan env plan opts) (\<lambda>actions. act_ret (plan, actions))))"

section \<open>What the evidence of a target is\<close>

text \<open>The calls that only ask, and git that does not change the repository when asked.\<close>

definition is_query :: "string list \<Rightarrow> bool" where
  "is_query args \<longleftrightarrow>
     args \<noteq> [] \<and> (hd args \<in> {''rev-parse'', ''symbolic-ref'', ''show-ref'', ''merge-base'', ''status'', ''for-each-ref''} \<or>
       args = [''branch'', ''--show-current''] \<or> args = [''worktree'', ''list'', ''--porcelain''])"

definition quiet :: "'s git_env \<Rightarrow> bool" where
  "quiet env \<longleftrightarrow> (\<forall>cwd args s. is_query args \<longrightarrow> snd (ge_git env cwd args s) = s)"

definition says :: "'s git_env \<Rightarrow> 's \<Rightarrow> string \<Rightarrow> string list \<Rightarrow> bool" where
  "says env s cwd args = git_ok (fst (ge_git env cwd args s))"

definition output_at :: "'s git_env \<Rightarrow> 's \<Rightarrow> string \<Rightarrow> string list \<Rightarrow> string" where
  "output_at env s cwd args = (if says env s cwd args then trim_string (gr_stdout (fst (ge_git env cwd args s))) else '''')"

lemma gitSync_query: "quiet env \<Longrightarrow> is_query args \<Longrightarrow> gitSync env cwd args s = (Inr (fst (ge_git env cwd args s)), s)"
  by (simp add: gitSync_def quiet_def split: prod.split) (metis fst_conv snd_conv)

lemma git_succeeds_query: "quiet env \<Longrightarrow> is_query args \<Longrightarrow> git_succeeds env cwd args s = (Inr (says env s cwd args), s)"
  by (simp add: git_succeeds_def act_bind_def gitSync_query act_ret_def says_def)

lemma gitOutput_query: "quiet env \<Longrightarrow> is_query args \<Longrightarrow> gitOutput env cwd args s = (Inr (output_at env s cwd args), s)"
  by (simp add: gitOutput_def act_bind_def gitSync_query act_ret_def says_def output_at_def)

definition ancestor_at :: "'s git_env \<Rightarrow> 's \<Rightarrow> string \<Rightarrow> string \<Rightarrow> string \<Rightarrow> bool" where
  "ancestor_at env s cwd a b = says env s cwd [''merge-base'', ''--is-ancestor'', a, b]"

definition clean_at :: "'s git_env \<Rightarrow> 's \<Rightarrow> string \<Rightarrow> bool" where
  "clean_at env s p \<longleftrightarrow> trim_string (output_at env s p [''status'', ''--porcelain'']) = ''''"

definition remote_at :: "'s git_env \<Rightarrow> 's \<Rightarrow> string \<Rightarrow> string \<Rightarrow> bool" where
  "remote_at env s repo b = says env s repo [''show-ref'', ''--verify'', ''--quiet'', ''refs/remotes/origin/'' @ b]"

text \<open>What a target that may be removed rests on.\<close>

definition evident :: "'s git_env \<Rightarrow> 's \<Rightarrow> string \<Rightarrow> string \<Rightarrow> cleanup_target \<Rightarrow> bool" where
  "evident env s repo baseRef t \<longleftrightarrow>
     (let merged = ancestor_at env s repo (''refs/heads/'' @ ct_branch t) baseRef;
          head = (if truthy (ct_path t) then ancestor_at env s (the (ct_path t)) ''HEAD'' baseRef else merged) in
      \<not> isProtectedBranch (ct_branch t) \<and> (truthy (ct_path t) \<longrightarrow> clean_at env s (the (ct_path t))) \<and>
      (ct_disposition t = Safe \<longrightarrow> merged \<or> head) \<and>
      (ct_disposition t = NeedsForce \<longrightarrow> \<not> merged \<and> \<not> head \<and> \<not> remote_at env s repo (ct_branch t)))"

lemma merged_target_fields [simp]:
  "ct_branch (merged_target baseRef b p k m h r) = b" "ct_path (merged_target baseRef b p k m h r) = p"
  "ct_kind (merged_target baseRef b p k m h r) = k"
  "ct_disposition (merged_target baseRef b p k m h r) = (if m \<or> h then Safe else if r then NeedsForce else Skipped)"
  by (simp_all add: merged_target_def Let_def mergeState_def skipped_target_def)

lemma skipped_fields [simp]:
  "ct_disposition (skipped_target k b p r ps) = Skipped" "ct_kind (skipped_target k b p r ps) = k"
  "ct_branch (skipped_target k b p r ps) = b" "ct_path (skipped_target k b p r ps) = p"
  by (simp_all add: skipped_target_def)

lemma classify_evident:
  assumes "quiet env"
  shows "\<exists>t. classifyTarget env repo baseRef b p k s = (Inr t, s) \<and> ct_kind t = k \<and> ct_branch t = b \<and> ct_path t = p \<and>
    (ct_disposition t \<noteq> Skipped \<longrightarrow> evident env s repo baseRef t)"
proof -
  have q: "is_query [''show-ref'', ''--verify'', ''--quiet'', r]" "is_query [''merge-base'', ''--is-ancestor'', x, y]"
    "is_query [''status'', ''--porcelain'']" for r x y
    by (simp_all add: is_query_def)
  show ?thesis
    by (auto simp: classifyTarget_def act_bind_def act_ret_def isDirty_def isAncestor_def remoteBranchExists_def
        gitOutput_query [OF assms q(3)] git_succeeds_query [OF assms q(1)] git_succeeds_query [OF assms q(2)]
        evident_def ancestor_at_def clean_at_def remote_at_def Let_def)
qed

lemma worktree_targets_evident:
  assumes "quiet env"
  shows "\<exists>ts. worktree_targets env repo baseRef es s = (Inr ts, s) \<and>
    (\<forall>t\<in>set ts. ct_kind t = Worktree_target \<and> (ct_disposition t \<noteq> Skipped \<longrightarrow> evident env s repo baseRef t) \<and>
       (\<exists>e\<in>set es. ct_path t = Some (we_path e) \<and> \<not> samePath env (we_path e) repo))"
proof (induction es)
  case Nil
  show ?case by (simp add: act_ret_def)
next
  case (Cons e es)
  obtain ts where ts: "worktree_targets env repo baseRef es s = (Inr ts, s)"
    "\<forall>t\<in>set ts. ct_kind t = Worktree_target \<and> (ct_disposition t \<noteq> Skipped \<longrightarrow> evident env s repo baseRef t) \<and>
       (\<exists>e\<in>set es. ct_path t = Some (we_path e) \<and> \<not> samePath env (we_path e) repo)"
    using Cons by blast
  obtain t where t: "classifyTarget env repo baseRef (the (we_branch e)) (Some (we_path e)) Worktree_target s = (Inr t, s)"
    "ct_kind t = Worktree_target" "ct_path t = Some (we_path e)" "ct_disposition t \<noteq> Skipped \<longrightarrow> evident env s repo baseRef t"
    using classify_evident [OF assms] by metis
  show ?case
  proof (cases "samePath env (we_path e) repo")
    case True
    then show ?thesis
      using ts by auto
  next
    case False
    then show ?thesis
      using ts t by (cases "truthy (we_branch e)") (auto simp: act_bind_def act_ret_def)
  qed
qed

lemma branch_targets_evident:
  assumes "quiet env"
  shows "\<exists>ts. branch_targets env repo baseRef active current bs s = (Inr ts, s) \<and>
    (\<forall>t\<in>set ts. ct_kind t = Branch_target \<and> (ct_disposition t \<noteq> Skipped \<longrightarrow> evident env s repo baseRef t) \<and>
       ct_path t = None \<and> ct_branch t \<notin> active \<and> Some (ct_branch t) \<noteq> current \<and> ct_branch t \<in> set bs)"
proof (induction bs)
  case Nil
  show ?case by (simp add: act_ret_def)
next
  case (Cons b bs)
  obtain ts where ts: "branch_targets env repo baseRef active current bs s = (Inr ts, s)"
    "\<forall>t\<in>set ts. ct_kind t = Branch_target \<and> (ct_disposition t \<noteq> Skipped \<longrightarrow> evident env s repo baseRef t) \<and>
       ct_path t = None \<and> ct_branch t \<notin> active \<and> Some (ct_branch t) \<noteq> current \<and> ct_branch t \<in> set bs"
    using Cons by blast
  obtain t where t: "classifyTarget env repo baseRef b None Branch_target s = (Inr t, s)"
    "ct_kind t = Branch_target" "ct_branch t = b" "ct_path t = None" "ct_disposition t \<noteq> Skipped \<longrightarrow> evident env s repo baseRef t"
    using classify_evident [OF assms] by metis
  show ?case
    using ts t by (cases "b \<in> active \<or> Some b = current") (auto simp: act_bind_def act_ret_def)
qed

text \<open>C35: 
  When asking git changes nothing, every target of a plan that may be removed has its evidence in the
  repository as the plan leaves it: the branch is not protected, a worktree is another than the one
  worked in and showed no changes, a safe target is an ancestor of the base, and one that needs force
  is not and has no branch of that name at origin. A branch without a worktree is neither the current
  one nor checked out anywhere.
\<close>

theorem plan_evidence:
  assumes "quiet env" and "buildCleanupPlan env cwd opts s = (Inr plan, s')" and "t \<in> set (cp_targets plan)"
    and "ct_disposition t \<noteq> Skipped"
  shows "evident env s' (cp_repoRoot plan) (cp_baseRef plan) t \<and>
    (ct_kind t = Worktree_target \<longrightarrow> (\<exists>p. ct_path t = Some p \<and> \<not> samePath env p (cp_repoRoot plan))) \<and>
    (ct_kind t = Branch_target \<longrightarrow> ct_path t = None \<and> Some (ct_branch t) \<noteq> cp_currentBranch plan \<and>
       ct_branch t \<notin> active_branches (parseWorktreePorcelain (output_at env s' (cp_repoRoot plan) [''worktree'', ''list'', ''--porcelain''])))"
proof -
  have q: "is_query [''worktree'', ''list'', ''--porcelain'']" "is_query [''for-each-ref'', x, y]" for x y
    by (simp_all add: is_query_def)
  obtain repo baseRef current warnings listing ws branches bs t1 t2 t3 t4 where
    built: "gitOutput env repo [''worktree'', ''list'', ''--porcelain''] t1 = (Inr listing, t2)"
      "worktree_targets env repo baseRef (parseWorktreePorcelain listing) t2 = (Inr ws, t3)"
      "listLocalBranches env repo t3 = (Inr branches, t4)"
      "branch_targets env repo baseRef (active_branches (parseWorktreePorcelain listing)) current branches t4 = (Inr bs, s')"
    and plan: "plan = \<lparr>cp_repoRoot = repo, cp_baseRef = baseRef, cp_currentBranch = current,
      cp_protectedBranches = PROTECTED_BRANCHES, cp_targets = ws @ bs, cp_warnings = warnings\<rparr>"
    using assms(2) unfolding buildCleanupPlan_def Let_def act_bind_Inr act_ret_def by fastforce
  have l: "t2 = t1" "listing = output_at env t1 repo [''worktree'', ''list'', ''--porcelain'']"
    using built(1) gitOutput_query [OF assms(1) q(1)] by auto
  have w: "t3 = t2" "\<forall>t\<in>set ws. ct_kind t = Worktree_target \<and> (ct_disposition t \<noteq> Skipped \<longrightarrow> evident env t2 repo baseRef t) \<and>
       (\<exists>e\<in>set (parseWorktreePorcelain listing). ct_path t = Some (we_path e) \<and> \<not> samePath env (we_path e) repo)"
    using built(2) worktree_targets_evident [OF assms(1), of repo baseRef "parseWorktreePorcelain listing" t2] by auto
  have "t4 = t3"
    using built(3) gitOutput_query [OF assms(1) q(2)] by (simp add: listLocalBranches_def act_bind_def act_ret_def)
  moreover have "s' = t4 \<and> (\<forall>t\<in>set bs. ct_kind t = Branch_target \<and> (ct_disposition t \<noteq> Skipped \<longrightarrow> evident env t4 repo baseRef t) \<and>
       ct_path t = None \<and> ct_branch t \<notin> active_branches (parseWorktreePorcelain listing) \<and> Some (ct_branch t) \<noteq> current)"
    using built(4) branch_targets_evident [OF assms(1), of repo baseRef "active_branches (parseWorktreePorcelain listing)" current branches t4]
    by auto
  ultimately show ?thesis
    using assms(3,4) w l unfolding plan by (auto split: cleanup_kind.splits)
qed

section \<open>What git is asked to remove\<close>

text \<open>Git that also notes the calls made to it.\<close>

definition recording :: "'s git_env \<Rightarrow> ('s \<times> (string \<times> string list) list) git_env" where
  "recording env =
     \<lparr>ge_git = (\<lambda>cwd args x. case ge_git env cwd args (fst x) of (r, s) \<Rightarrow> (r, (s, snd x @ [(cwd, args)]))),
      ge_exists = (\<lambda>p x. ge_exists env p (fst x)), ge_relative = ge_relative env\<rparr>"

definition removal_allowed :: "'s git_env \<Rightarrow> cleanup_options \<Rightarrow> string \<Rightarrow> string list \<Rightarrow> bool" where
  "removal_allowed env opts cwd args \<longleftrightarrow> co_apply opts \<and>
     ((\<exists>p. args = [''worktree'', ''remove'', p] \<and> \<not> samePath env p cwd) \<or>
      (\<exists>flag b. args = [''branch'', flag, b] \<and> \<not> isProtectedBranch b \<and> (flag = ''-d'' \<or> flag = ''-D'' \<and> co_force opts)))"

definition call_allowed :: "'s git_env \<Rightarrow> cleanup_options \<Rightarrow> string \<times> string list \<Rightarrow> bool" where
  "call_allowed env opts c \<longleftrightarrow>
     is_query (snd c) \<or> (co_fetch opts \<and> snd c = [''fetch'', ''--prune'', ''origin'']) \<or> removal_allowed env opts (fst c) (snd c)"

definition calls_ok :: "'s git_env \<Rightarrow> cleanup_options \<Rightarrow> 's \<times> (string \<times> string list) list \<Rightarrow> bool" where
  "calls_ok env opts x \<longleftrightarrow> list_all (call_allowed env opts) (snd x)"

lemma stays_call: "call_allowed env opts (cwd, args) \<Longrightarrow> stays (calls_ok env opts) (gitSync (recording env) cwd args)"
  by (auto simp: stays_def gitSync_def recording_def calls_ok_def split: prod.split)

lemma stays_query [stays_intros]:
  assumes "is_query args"
  shows "stays (calls_ok env opts) (git_succeeds (recording env) cwd args)"
    "stays (calls_ok env opts) (gitOutput (recording env) cwd args)"
  unfolding git_succeeds_def gitOutput_def
  by (intro stays_intros stays_call, simp add: call_allowed_def assms)+

lemma queries [stays_intros]:
  "is_query [''show-ref'', a, b, c]" "is_query [''merge-base'', a, b, c]" "is_query [''status'', a]" "is_query [''rev-parse'', a]"
  "is_query [''symbolic-ref'', a, b, c]" "is_query [''for-each-ref'', a, b]" "is_query [''branch'', ''--show-current'']"
  "is_query [''worktree'', ''list'', ''--porcelain'']"
  by (simp_all add: is_query_def)

lemma stays_classify [stays_intros]: "stays (calls_ok env opts) (classifyTarget (recording env) repo baseRef b p k)"
  unfolding classifyTarget_def isDirty_def isAncestor_def remoteBranchExists_def by (intro stays_intros)

lemma stays_worktrees [stays_intros]: "stays (calls_ok env opts) (worktree_targets (recording env) repo baseRef es)"
  by (induction es) (auto intro!: stays_intros)

lemma stays_branches [stays_intros]: "stays (calls_ok env opts) (branch_targets (recording env) repo baseRef active current bs)"
  by (induction bs) (auto intro!: stays_intros)

lemma stays_build: "stays (calls_ok env opts) (buildCleanupPlan (recording env) cwd opts)"
proof -
  have f: "stays (calls_ok env opts) (fetch_warnings (recording env) repo)" if "co_fetch opts" for repo
    unfolding fetch_warnings_def by (intro stays_intros stays_call) (simp add: call_allowed_def that)
  have o1: "stays (calls_ok env opts) (case co_baseRef opts of None \<Rightarrow> resolveDefaultBaseRef (recording env) repo | Some b \<Rightarrow> act_ret b)" for repo
    by (cases "co_baseRef opts") (auto simp: resolveDefaultBaseRef_def intro!: stays_intros)
  show ?thesis
    unfolding buildCleanupPlan_def resolveRepoRoot_def listLocalBranches_def Let_def by (intro stays_intros f o1)
qed

text \<open>The targets of a plan, whatever git answers.\<close>

definition sound_target :: "'s git_env \<Rightarrow> string \<Rightarrow> cleanup_target \<Rightarrow> bool" where
  "sound_target env repo t \<longleftrightarrow> (ct_disposition t \<noteq> Skipped \<longrightarrow> \<not> isProtectedBranch (ct_branch t)) \<and>
     (ct_kind t = Worktree_target \<longrightarrow> (\<exists>p. ct_path t = Some p \<and> \<not> samePath env p repo))"

definition gives :: "('a \<Rightarrow> bool) \<Rightarrow> ('s, 'e, 'a) act \<Rightarrow> bool" where
  "gives R m \<longleftrightarrow> (\<forall>s a s'. m s = (Inr a, s') \<longrightarrow> R a)"

lemma gives_ret: "R a \<Longrightarrow> gives R (act_ret a)"
  by (simp add: gives_def act_ret_def)

lemma gives_bind: "gives Q m \<Longrightarrow> (\<And>a. Q a \<Longrightarrow> gives R (f a)) \<Longrightarrow> gives R (act_bind m f)"
  unfolding gives_def act_bind_Inr by blast

lemma gives_any: "gives (\<lambda>_. True) m"
  by (simp add: gives_def)

lemma gives_classify:
  "gives (\<lambda>t. ct_kind t = k \<and> ct_path t = p \<and> (ct_disposition t \<noteq> Skipped \<longrightarrow> \<not> isProtectedBranch (ct_branch t)))
     (classifyTarget env repo baseRef b p k)"
  unfolding classifyTarget_def
  by (auto intro!: gives_ret gives_bind [OF gives_any])

lemma gives_worktrees: "gives (list_all (sound_target env repo)) (worktree_targets env repo baseRef es)"
proof (induction es)
  case (Cons e es)
  have step: "gives (sound_target env repo) (if \<not> truthy (we_branch e)
      then act_ret (skipped_target Worktree_target ''(detached)'' (Some (we_path e)) ''detached worktree'' [])
      else classifyTarget env repo baseRef (the (we_branch e)) (Some (we_path e)) Worktree_target)" if "\<not> samePath env (we_path e) repo"
    using gives_classify [of Worktree_target "Some (we_path e)" env repo baseRef "the (we_branch e)"] that
    by (auto simp: sound_target_def gives_def act_ret_def)
  show ?case
  proof (cases "samePath env (we_path e) repo")
    case False
    show ?thesis
      unfolding worktree_targets.simps if_not_P [OF False]
      by (rule gives_bind [OF step [OF False]], rule gives_bind [OF Cons], rule gives_ret) simp
  qed (simp add: Cons)
qed (simp add: gives_ret)

lemma gives_branches: "gives (list_all (sound_target env repo)) (branch_targets env repo' baseRef active current bs)"
proof (induction bs)
  case (Cons b bs)
  have "gives (sound_target env repo) (classifyTarget env repo' baseRef b None Branch_target)"
    using gives_classify [of Branch_target None env repo' baseRef b] by (auto simp: sound_target_def gives_def)
  then show ?case
    using Cons by (auto intro!: gives_bind [where R = "list_all (sound_target env repo)"] gives_ret)
qed (simp add: gives_ret)

lemma gives_build: "gives (\<lambda>plan. list_all (sound_target env (cp_repoRoot plan)) (cp_targets plan)) (buildCleanupPlan env cwd opts)"
  unfolding buildCleanupPlan_def Let_def
  by (intro gives_bind [OF gives_any] gives_bind [OF gives_worktrees] gives_bind [OF gives_branches] gives_ret) simp

lemma stays_remove:
  "co_apply opts \<Longrightarrow> \<forall>t\<in>set ts. ct_kind t = Worktree_target \<and> sound_target env repo t \<Longrightarrow>
    stays (calls_ok env opts) (remove_worktrees (recording env) repo ts)"
proof (induction ts)
  case (Cons t ts)
  then have "\<exists>p. ct_path t = Some p \<and> \<not> samePath env p repo"
    by (simp add: sound_target_def)
  then have "call_allowed env opts (repo, [''worktree'', ''remove'', the (ct_path t)])"
    using Cons.prems by (auto simp: call_allowed_def removal_allowed_def)
  then show ?case
    using Cons by (auto intro!: stays_intros stays_call)
qed (auto intro: stays_intros)

lemma stays_delete:
  "co_apply opts \<Longrightarrow> \<forall>t\<in>set ts. (ct_disposition t = Safe \<or> co_force opts \<and> ct_disposition t = NeedsForce) \<and> sound_target env repo t \<Longrightarrow>
    stays (calls_ok env opts) (delete_branches (recording env) repo deleted ts)"
proof (induction ts arbitrary: deleted)
  case (Cons t ts)
  then have "call_allowed env opts (repo, [''branch'', deleteFlagForDisposition (ct_disposition t), ct_branch t])"
    by (auto simp: call_allowed_def removal_allowed_def deleteFlagForDisposition_def sound_target_def)
  then show ?case
    using Cons by (auto intro!: stays_intros stays_call simp: localBranchExists_def)
qed (auto intro: stays_intros)

lemma stays_apply:
  assumes "list_all (sound_target env (cp_repoRoot plan)) (cp_targets plan)"
  shows "stays (calls_ok env opts) (applyCleanupPlan (recording env) plan opts)"
proof (cases "co_apply opts")
  case True
  have "sound_target env (cp_repoRoot plan) t" if "t \<in> set (removable plan opts)" for t
    using assms that by (auto simp: removable_def list_all_iff)
  moreover have "ct_disposition t = Safe \<or> co_force opts \<and> ct_disposition t = NeedsForce" if "t \<in> set (removable plan opts)" for t
    using that by (auto simp: removable_def)
  ultimately show ?thesis
    unfolding applyCleanupPlan_def using True
    by (auto intro!: stays_intros stays_remove stays_delete)
qed (simp add: applyCleanupPlan_def stays_ret)

lemma stays_bind_gives: "stays Q m \<Longrightarrow> gives R m \<Longrightarrow> (\<And>a. R a \<Longrightarrow> stays Q (f a)) \<Longrightarrow> stays Q (act_bind m f)"
  unfolding stays_def gives_def act_bind_def by (auto split: prod.split sum.split) (metis snd_conv)+

lemma sound_recording: "sound_target (recording env) = sound_target env"
  by (simp add: fun_eq_iff sound_target_def samePath_def recording_def)

text \<open>C34: 
  Whatever git answers, a cleanup asks it, apart from questions and the fetch, only for removals that
  its options ask for: nothing without \<open>apply\<close>, no worktree that is the one worked in, no protected
  branch, and no forced deletion without \<open>force\<close>.
\<close>

theorem cleanup_calls_allowed:
  "list_all (call_allowed env (parseCleanupArgs args)) (snd (snd (run_cleanup (recording env) cwd args (s, []))))"
proof -
  have "stays (calls_ok env (parseCleanupArgs args)) (run_cleanup (recording env) cwd args)"
    unfolding run_cleanup_def Let_def
    using stays_apply
    by (intro stays_bind_gives [OF stays_build gives_build] stays_bind stays_ret) (auto simp: sound_recording)
  then show ?thesis
    unfolding stays_def by (auto simp: calls_ok_def dest: spec [of _ "(s, [])"])
qed

section \<open>What the plan gets wrong\<close>

text \<open>
  A repository whose branch \<open>work\<close> was never pushed: its commits are on no other branch, and there is
  no branch of that name at origin because there never was one. The plan says that the remote branch
  is gone, and with \<open>force\<close> the branch is deleted.
\<close>

definition local_git :: "string list \<Rightarrow> git_result" where
  "local_git args =
     (let ok = (\<lambda>out. \<lparr>gr_status = Some 0, gr_stdout = out, gr_stderr = ''''\<rparr>); no = \<lparr>gr_status = Some 1, gr_stdout = '''', gr_stderr = ''''\<rparr> in
      if args = [''rev-parse'', ''--show-toplevel''] then ok ''/r''
      else if args = [''branch'', ''--show-current''] then ok ''main''
      else if args = [''worktree'', ''list'', ''--porcelain''] then ok (porcelain [\<lparr>we_path = ''/r'', we_head = None, we_branch = Some ''main''\<rparr>])
      else if take 1 args = [''for-each-ref''] then ok (''main'' @ [CHR 0x0A] @ ''work'' @ [CHR 0x0A] @ ''base'')
      else if args = [''show-ref'', ''--verify'', ''--quiet'', ''refs/heads/work''] then ok ''''
      else if args = [''show-ref'', ''--verify'', ''--quiet'', ''refs/heads/base''] then ok ''''
      else if args = [''merge-base'', ''--is-ancestor'', ''refs/heads/base'', ''base''] then ok ''''
      else if take 1 args = [''branch''] then ok ''''
      else no)"

definition local_env :: "(string list) list git_env" where
  "local_env =
     \<lparr>ge_git = (\<lambda>cwd args s. (local_git args, if take 1 args = [''branch''] \<and> length args = 3 then s @ [args] else s)),
      ge_exists = (\<lambda>_ _. True), ge_relative = (\<lambda>a b. if a = b then '''' else b)\<rparr>"

lemma unpushed_branch_deleted:
  "run_cleanup local_env ''/r'' (Some ''apply --force --no-fetch --base origin/main'') [] =
     (Inr (\<lparr>cp_repoRoot = ''/r'', cp_baseRef = ''origin/main'', cp_currentBranch = Some ''main'', cp_protectedBranches = PROTECTED_BRANCHES,
        cp_targets =
          [merged_target ''origin/main'' ''work'' None Branch_target False False True,
           merged_target ''origin/main'' ''base'' None Branch_target False False True], cp_warnings = []\<rparr>,
        [''deleted branch work'', ''deleted branch base'']),
      [[''branch'', ''-D'', ''work''], [''branch'', ''-D'', ''base'']])"
  by code_simp

text \<open>A base that is a local branch is offered as a safe target, as it is its own ancestor.\<close>

lemma base_branch_deleted:
  "snd (run_cleanup local_env ''/r'' (Some ''apply --no-fetch --base base'') []) = [[''branch'', ''-d'', ''base'']]"
  by code_simp

text \<open>A value of an option counts as a flag: the base \<open>force\<close> turns force on.\<close>

lemma option_value_is_flag: "co_force (parseCleanupArgs (Some ''apply --base force''))"
  by code_simp

lemma local_quiet: "quiet local_env"
proof -
  have "take 1 args \<noteq> [''branch''] \<or> length args \<noteq> 3" if "is_query args" for args
    using that by (cases args) (auto simp: is_query_def)
  then show ?thesis
    by (auto simp: quiet_def local_env_def)
qed

theorem plan_evidence_witness:
  "evident local_env [] ''/r'' ''origin/main'' (merged_target ''origin/main'' ''work'' None Branch_target False False True) \<and>
   ''work'' \<notin> active_branches (parseWorktreePorcelain (output_at local_env [] ''/r'' [''worktree'', ''list'', ''--porcelain'']))"
proof -
  have "buildCleanupPlan local_env ''/r'' (parseCleanupArgs (Some ''--no-fetch --base origin/main'')) [] =
     (Inr \<lparr>cp_repoRoot = ''/r'', cp_baseRef = ''origin/main'', cp_currentBranch = Some ''main'', cp_protectedBranches = PROTECTED_BRANCHES,
        cp_targets =
          [merged_target ''origin/main'' ''work'' None Branch_target False False True,
           merged_target ''origin/main'' ''base'' None Branch_target False False True], cp_warnings = []\<rparr>, [])"
    by code_simp
  from plan_evidence [OF local_quiet this, of "merged_target ''origin/main'' ''work'' None Branch_target False False True"]
  show ?thesis by simp
qed

end
