(* ===== verification/Git_Closeout.thy ===== *)
theory Git_Closeout
  imports Git_Cleanup Json
begin

text \<open>
  Closing out a merged pull request (\<open>extensions/dev-tools/closeout.ts\<close>, with the URLs of
  \<open>_shared/github.ts\<close> and the calls of \<open>_shared/exec.ts\<close>): find the pull request and its repository,
  check that it is merged and that its head and base are as expected, update the base branch, remove the
  head's worktree and its branch. Commands go through \<open>xe_exec\<close>; the lock, the resolution of symbolic
  links and the parser of URLs come from the platform.
\<close>

section \<open>Commands\<close>

record exec_result =
  er_stdout :: string
  er_stderr :: string
  er_code :: int
  er_killed :: bool

text \<open>A \<open>CloseoutError\<close>: its message, and whether its cause is a lock that is held.\<close>

datatype closeout_error = Closeout_error string bool

text \<open>The outcome of one attempt to lock: \<open>Some busy\<close> an error.\<close>

record 's exec_env =
  xe_exec :: "string \<Rightarrow> string list \<Rightarrow> string \<Rightarrow> ('s, string, exec_result) act"
  xe_exists :: "string \<Rightarrow> 's \<Rightarrow> bool"
  xe_realpath :: "string \<Rightarrow> string option"
  xe_resolve :: "string \<Rightarrow> string \<Rightarrow> string"
  xe_relative :: "string \<Rightarrow> string \<Rightarrow> string"
  xe_url :: "string \<Rightarrow> (string \<times> string \<times> string) option"
  xe_lock :: "string \<Rightarrow> 's \<Rightarrow> bool option \<times> 's"
  xe_unlock :: "string \<Rightarrow> 's \<Rightarrow> 's"

definition closeoutFailure :: "string \<Rightarrow> closeout_error" where
  "closeoutFailure message = Closeout_error message False"

definition rendered :: "string \<Rightarrow> string list \<Rightarrow> string" where
  "rendered command args = join_with '' '' (command # args)"

definition exec_output :: "exec_result \<Rightarrow> string" where
  "exec_output r = (if er_stderr r = '''' then er_stdout r else er_stderr r)"

text \<open>What becomes of a result; \<open>strict\<close> is \<open>failOnNonZero\<close>.\<close>

definition exec_outcome :: "string \<Rightarrow> string list \<Rightarrow> bool \<Rightarrow> exec_result \<Rightarrow> closeout_error + exec_result" where
  "exec_outcome command args strict r =
     (if er_killed r then Inl (closeoutFailure (rendered command args @ '' was terminated: '' @ exec_output r))
      else if \<not> strict \<or> er_code r = 0 then Inr r
      else Inl (closeoutFailure (rendered command args @ '' exited '' @ show_int (er_code r) @ '': '' @ exec_output r)))"

definition run_command :: "'s exec_env \<Rightarrow> string \<Rightarrow> string list \<Rightarrow> string \<Rightarrow> bool \<Rightarrow> ('s, closeout_error, exec_result) act" where
  "run_command env command args cwd strict =
     act_bind (act_map_error (\<lambda>_. closeoutFailure (rendered command args @ '' failed.'')) (xe_exec env command args cwd))
       (\<lambda>r. act_lift (exec_outcome command args strict r))"

definition gitText :: "'s exec_env \<Rightarrow> string \<Rightarrow> string list \<Rightarrow> ('s, closeout_error, string) act" where
  "gitText env cwd args = act_bind (run_command env ''git'' args cwd True) (\<lambda>r. act_ret (trim_string (er_stdout r)))"

definition gitExit :: "'s exec_env \<Rightarrow> string \<Rightarrow> string list \<Rightarrow> ('s, closeout_error, int) act" where
  "gitExit env cwd args = act_bind (run_command env ''git'' args cwd False) (\<lambda>r. act_ret (er_code r))"

definition ensure :: "bool \<Rightarrow> string \<Rightarrow> ('s, closeout_error, unit) act" where
  "ensure condition message = (if condition then act_ret () else act_throw (closeoutFailure message))"

section \<open>Pull requests\<close>

definition is_alnum :: "char \<Rightarrow> bool" where
  "is_alnum c = (let n = (of_char c :: nat) in (48 \<le> n \<and> n \<le> 57) \<or> (65 \<le> n \<and> n \<le> 90) \<or> (97 \<le> n \<and> n \<le> 122))"

definition github_name :: "string \<Rightarrow> bool" where
  "github_name s =
     (s \<noteq> '''' \<and> length s \<le> 100 \<and> is_alnum (hd s) \<and> is_alnum (last s) \<and>
      list_all (\<lambda>c. is_alnum c \<or> c = CHR ''.'' \<or> c = CHR ''_'' \<or> c = CHR ''-'') s)"

text \<open>\<open>/^[1-9][0-9]{0,9}$/\<close>\<close>

definition pr_number :: "string \<Rightarrow> bool" where
  "pr_number s = (s \<noteq> '''' \<and> length s \<le> 10 \<and> list_all is_digit s \<and> hd s \<noteq> CHR ''0'')"

record pr_reference =
  pq_owner :: string
  pq_repo :: string
  pq_number :: int
  pq_url :: string

definition cut_at :: "char \<Rightarrow> string \<Rightarrow> (string \<times> string) option" where
  "cut_at c s =
     (case dropWhile (\<lambda>d. d \<noteq> c) s of [] \<Rightarrow> None | _ # rest \<Rightarrow> Some (takeWhile (\<lambda>d. d \<noteq> c) s, rest))"

definition parseGitHubPullRequestUrl :: "string \<Rightarrow> pr_reference option" where
  "parseGitHubPullRequestUrl v =
     (if \<not> starts_with ''https://github.com/'' v then None
      else opt_bind (cut_at (CHR ''/'') (drop 19 v)) (\<lambda>(owner, rest).
           opt_bind (cut_at (CHR ''/'') rest) (\<lambda>(repo, rest).
           if \<not> starts_with ''pull/'' rest then None
           else let number = takeWhile is_digit (drop 5 rest); tail = dropWhile is_digit (drop 5 rest) in
             if github_name owner \<and> github_name repo \<and> pr_number number \<and>
                (tail = '''' \<or> hd tail \<in> {CHR ''/'', CHR ''?'', CHR ''#''}) \<and> no_terminator tail
             then Some \<lparr>pq_owner = owner, pq_repo = repo, pq_number = digits_value number,
                    pq_url = ''https://github.com/'' @ owner @ ''/'' @ repo @ ''/pull/'' @ number\<rparr>
             else None)))"

definition reference_error :: closeout_error where
  "reference_error = closeoutFailure ''Expected a PR number or GitHub PR URL.''"

definition normalizePullRequestReference :: "string \<Rightarrow> closeout_error + string" where
  "normalizePullRequestReference v =
     (if pr_number v then Inr v
      else case parseGitHubPullRequestUrl v of Some r \<Rightarrow> Inr (pq_url r) | None \<Rightarrow> Inl reference_error)"

record closeout_request =
  cr_pr :: "string option"
  cr_repoPath :: "string option"

fun closeout_args :: "closeout_request \<Rightarrow> string list \<Rightarrow> closeout_error + closeout_request" where
  "closeout_args q [] = Inr q"
| "closeout_args q (t # ts) =
     (if t = ''--repo'' then
        (case ts of
           [] \<Rightarrow> Inl (closeoutFailure ''--repo requires a path.'')
         | v # vs \<Rightarrow>
             if starts_with ''--'' v then Inl (closeoutFailure ''--repo requires a path.'')
             else closeout_args (q\<lparr>cr_repoPath := Some v\<rparr>) vs)
      else if starts_with ''--repo='' t then
        (if drop 7 t = '''' then Inl (closeoutFailure ''--repo requires a path.'')
         else closeout_args (q\<lparr>cr_repoPath := Some (drop 7 t)\<rparr>) ts)
      else if starts_with ''--'' t then Inl (closeoutFailure (''Unknown closeout option: '' @ t))
      else if truthy (cr_pr q) then Inl (closeoutFailure ''Closeout accepts one PR number or GitHub PR URL.'')
      else try_bind (normalizePullRequestReference t) (\<lambda>r. closeout_args (q\<lparr>cr_pr := Some r\<rparr>) ts))"

definition parseCloseoutArgs :: "string option \<Rightarrow> closeout_error + closeout_request" where
  "parseCloseoutArgs args =
     closeout_args \<lparr>cr_pr = None, cr_repoPath = None\<rparr> (js_words (case args of None \<Rightarrow> '''' | Some s \<Rightarrow> s))"

text \<open>A pull request as \<open>gh\<close> shows it.\<close>

record pull_request =
  pr_state :: string
  pr_mergedAt :: "string option"
  pr_mergeCommit :: "string option"
  pr_url :: string
  pr_headRefName :: string
  pr_headRefOid :: string
  pr_baseRefName :: string
  pr_isCrossRepository :: bool

definition null_or :: "(jsval \<Rightarrow> 'a option) \<Rightarrow> jsval \<Rightarrow> 'a option option" where
  "null_or dec v = (if v = JNull then Some None else map_option Some (dec v))"

definition as_boolean :: "jsval \<Rightarrow> bool option" where
  "as_boolean v = (case v of JBool b \<Rightarrow> Some b | _ \<Rightarrow> None)"

definition decode_pull_request :: "jsval \<Rightarrow> pull_request option" where
  "decode_pull_request v =
     opt_bind (as_object v) (\<lambda>ps.
     opt_bind (field as_string ''state'' ps) (\<lambda>st.
     opt_bind (field (null_or as_string) ''mergedAt'' ps) (\<lambda>mergedAt.
     opt_bind (field (null_or (\<lambda>c. opt_bind (as_object c) (field as_string ''oid''))) ''mergeCommit'' ps) (\<lambda>mergeCommit.
     opt_bind (field as_string ''url'' ps) (\<lambda>url.
     opt_bind (field as_string ''headRefName'' ps) (\<lambda>headName.
     opt_bind (field as_string ''headRefOid'' ps) (\<lambda>headOid.
     opt_bind (field as_string ''baseRefName'' ps) (\<lambda>baseName.
     opt_bind (field as_boolean ''isCrossRepository'' ps) (\<lambda>cross.
     Some \<lparr>pr_state = st, pr_mergedAt = mergedAt, pr_mergeCommit = mergeCommit, pr_url = url, pr_headRefName = headName,
       pr_headRefOid = headOid, pr_baseRefName = baseName, pr_isCrossRepository = cross\<rparr>)))))))))"

definition decodePullRequest :: "string \<Rightarrow> closeout_error + pull_request" where
  "decodePullRequest raw =
     (case parse_json (if raw = '''' then ''{}'' else raw) of
        None \<Rightarrow> Inl (closeoutFailure ''GitHub returned invalid pull request JSON.'')
      | Some v \<Rightarrow>
          (case decode_pull_request v of
             None \<Rightarrow> Inl (closeoutFailure ''GitHub returned incomplete pull request metadata.'')
           | Some pr \<Rightarrow> Inr pr))"

definition view_args :: "string \<Rightarrow> string \<Rightarrow> string list" where
  "view_args requested repository =
     [''pr'', ''view'', requested, ''--repo'', ''github.com/'' @ repository, ''--json'',
      ''state,mergedAt,mergeCommit,url,headRefName,headRefOid,baseRefName,isCrossRepository'']"

definition loadPullRequest :: "'s exec_env \<Rightarrow> string \<Rightarrow> string \<Rightarrow> string \<Rightarrow> ('s, closeout_error, pull_request) act" where
  "loadPullRequest env cwd requested repository =
     act_bind (run_command env ''gh'' (view_args requested repository) cwd True) (\<lambda>r. act_lift (decodePullRequest (er_stdout r)))"

section \<open>Remotes\<close>

record git_remote =
  rm_host :: string
  rm_repository :: string
  rm_resolvesSshAlias :: bool

definition normalizeRepositoryPath :: "string \<Rightarrow> string option" where
  "normalizeRepositoryPath v =
     (let p = (if starts_with ''/'' v then drop 1 v else v);
          path = (if ends_with ''.git'' p then take (length p - 4) p else p)
      in case split_on (CHR ''/'') [] path of
          [a, b] \<Rightarrow> if a \<noteq> '''' \<and> b \<noteq> '''' then Some (toLowerCase path) else None
        | _ \<Rightarrow> None)"

text \<open>\<open>/^(?:[^@]+@)?([^:/]+):(.+)$/\<close>: with a user if that matches, else without.\<close>

definition scp_host :: "string \<Rightarrow> (string \<times> string) option" where
  "scp_host s =
     (let host = takeWhile (\<lambda>c. c \<noteq> CHR '':'' \<and> c \<noteq> CHR ''/'') s in
      case dropWhile (\<lambda>c. c \<noteq> CHR '':'' \<and> c \<noteq> CHR ''/'') s of
        c # rest \<Rightarrow> if c = CHR '':'' \<and> host \<noteq> '''' \<and> rest \<noteq> '''' \<and> no_terminator rest then Some (host, rest) else None
      | [] \<Rightarrow> None)"

definition match_scp :: "string \<Rightarrow> (string \<times> string) option" where
  "match_scp s =
     or_else (case cut_at (CHR ''@'') s of Some (user, rest) \<Rightarrow> if user = '''' then None else scp_host rest | None \<Rightarrow> None) (scp_host s)"

definition parseGitRemoteRepository :: "'s exec_env \<Rightarrow> string \<Rightarrow> git_remote option" where
  "parseGitRemoteRepository env v =
     (let trimmed = trim_string v in
      if str_includes trimmed ''://'' then
        opt_bind (xe_url env trimmed) (\<lambda>(protocol, host, path).
        opt_bind (normalizeRepositoryPath path) (\<lambda>repository.
        Some \<lparr>rm_host = toLowerCase host, rm_repository = repository,
          rm_resolvesSshAlias = (toLowerCase protocol = ''ssh:'' \<or> toLowerCase protocol = ''git+ssh:'')\<rparr>))
      else
        opt_bind (match_scp trimmed) (\<lambda>(host, path).
        opt_bind (normalizeRepositoryPath path) (\<lambda>repository.
        Some \<lparr>rm_host = toLowerCase host, rm_repository = repository, rm_resolvesSshAlias = True\<rparr>)))"

definition hostname_line :: "string \<Rightarrow> string option" where
  "hostname_line l = (case js_words l of [k, v] \<Rightarrow> if toLowerCase k = ''hostname'' then Some v else None | _ \<Rightarrow> None)"

definition sshConfigHostname :: "string \<Rightarrow> string option" where
  "sshConfigHostname raw =
     (case find truthy (map hostname_line (split_on (CHR 0x0A) [] raw)) of
        Some (Some h) \<Rightarrow> Some (toLowerCase h)
      | _ \<Rightarrow> None)"

definition githubRepositoryFromRemote :: "'s exec_env \<Rightarrow> string \<Rightarrow> string \<Rightarrow> ('s, closeout_error, string option) act" where
  "githubRepositoryFromRemote env cwd v =
     (case parseGitRemoteRepository env v of
        None \<Rightarrow> act_ret None
      | Some r \<Rightarrow>
          if rm_host r = ''github.com'' then act_ret (Some (rm_repository r))
          else if \<not> rm_resolvesSshAlias r then act_ret None
          else
            act_bind (run_command env ''ssh'' [''-G'', ''--'', rm_host r] cwd False) (\<lambda>result.
            act_ret (if er_code result = 0 \<and> sshConfigHostname (er_stdout result) = Some ''github.com''
                     then Some (rm_repository r) else None)))"

record remote_candidate =
  rc_name :: string
  rc_repository :: string
  rc_urls :: "string list"

definition nonempty_lines :: "string \<Rightarrow> string list" where
  "nonempty_lines s = filter (\<lambda>l. l \<noteq> '''') (split_on (CHR 0x0A) [] s)"

fun url_candidates ::
  "'s exec_env \<Rightarrow> string \<Rightarrow> string \<Rightarrow> string list \<Rightarrow> string list \<Rightarrow> ('s, closeout_error, remote_candidate list) act" where
  "url_candidates env cwd name urls [] = act_ret []"
| "url_candidates env cwd name urls (u # us) =
     act_bind (githubRepositoryFromRemote env cwd u) (\<lambda>repository.
     act_bind (url_candidates env cwd name urls us) (\<lambda>cs.
     act_ret (if truthy repository then \<lparr>rc_name = name, rc_repository = the repository, rc_urls = urls\<rparr> # cs else cs)))"

fun remote_candidates :: "'s exec_env \<Rightarrow> string \<Rightarrow> string list \<Rightarrow> ('s, closeout_error, remote_candidate list) act" where
  "remote_candidates env cwd [] = act_ret []"
| "remote_candidates env cwd (name # names) =
     act_bind (gitText env cwd [''remote'', ''get-url'', ''--all'', name]) (\<lambda>out.
     let urls = fold set_add (nonempty_lines out) [] in
     act_bind (ensure (urls \<noteq> []) (''Remote '' @ name @ '' has no effective fetch URL.'')) (\<lambda>_.
     act_bind (url_candidates env cwd name urls urls) (\<lambda>cs.
     act_bind (remote_candidates env cwd names) (\<lambda>rest. act_ret (cs @ rest)))))"

definition remote_rank :: "string \<Rightarrow> int" where
  "remote_rank name = (if name = ''origin'' then 0 else if name = ''github'' then 1 else 2)"

definition compare_remotes :: "remote_candidate \<Rightarrow> remote_candidate \<Rightarrow> int" where
  "compare_remotes l r =
     (if remote_rank (rc_name l) \<noteq> remote_rank (rc_name r) then remote_rank (rc_name l) - remote_rank (rc_name r)
      else if rc_name l < rc_name r then - 1 else if rc_name l > rc_name r then 1 else 0)"

definition selectGitHubRemote ::
  "'s exec_env \<Rightarrow> string \<Rightarrow> string option \<Rightarrow> ('s, closeout_error, string \<times> string) act" where
  "selectGitHubRemote env cwd requested =
     act_bind (gitText env cwd [''remote'']) (\<lambda>out.
     act_bind (remote_candidates env cwd (nonempty_lines out)) (\<lambda>candidates.
     let matches = (if truthy requested then filter (\<lambda>c. rc_repository c = the requested) candidates else candidates) in
     act_bind (ensure (matches \<noteq> [])
       (if truthy requested
        then ''No configured GitHub fetch remote matches '' @ the requested @ ''. Configure a matching remote before closeout.''
        else ''No configured GitHub fetch remote found. Configure a GitHub remote before closeout.'')) (\<lambda>_.
     act_bind (ensure (length (fold set_add (map rc_repository matches) []) = 1)
       ''Multiple GitHub repositories are configured. Pass an explicit GitHub PR URL to select one.'') (\<lambda>_.
     let selected = hd (js_sort compare_remotes matches) in
     act_bind (ensure (length (rc_urls selected) = 1)
       (''Remote '' @ rc_name selected @ '' has multiple distinct effective fetch URLs. Configure one fetch URL before closeout.'')) (\<lambda>_.
     act_bind (gitExit env cwd [''check-ref-format'', ''refs/remotes/'' @ rc_name selected @ ''/closeout-check'']) (\<lambda>code.
     act_bind (ensure (code = 0)
       (''Remote '' @ rc_name selected @ '' has an invalid tracking namespace. Rename it before closeout.'')) (\<lambda>_.
     act_ret (rc_name selected, rc_repository selected))))))))"

section \<open>Worktrees and branches\<close>

definition canonicalPath :: "'s exec_env \<Rightarrow> string \<Rightarrow> string" where
  "canonicalPath env p = (case xe_realpath env p of Some q \<Rightarrow> q | None \<Rightarrow> xe_resolve env '''' p)"

definition path_inside :: "'s exec_env \<Rightarrow> string \<Rightarrow> string \<Rightarrow> bool" where
  "path_inside env repo candidate =
     (let p = xe_relative env (canonicalPath env repo) (canonicalPath env candidate)
      in p = '''' \<or> (\<not> starts_with ''..'' p \<and> \<not> starts_with ''/'' p))"

definition same_canonical :: "'s exec_env \<Rightarrow> string \<Rightarrow> string \<Rightarrow> bool" where
  "same_canonical env a b = (canonicalPath env a = canonicalPath env b)"

definition findWorktree :: "worktree_entry list \<Rightarrow> string \<Rightarrow> worktree_entry option" where
  "findWorktree worktrees branch = find (\<lambda>e. we_branch e = Some branch) worktrees"

definition status_args :: "string list" where "status_args = [''status'', ''--porcelain'']"

definition verifyWorktree :: "'s exec_env \<Rightarrow> worktree_entry \<Rightarrow> string \<Rightarrow> string \<Rightarrow> ('s, closeout_error, unit) act" where
  "verifyWorktree env w expectedBranch label =
     act_bind (act_get (xe_exists env (we_path w))) (\<lambda>there.
     act_bind (ensure there (label @ '' worktree is missing: '' @ we_path w)) (\<lambda>_.
     act_bind (gitText env (we_path w) [''branch'', ''--show-current'']) (\<lambda>branch.
     act_bind (ensure (branch = expectedBranch)
       (label @ '' worktree is not on branch '' @ expectedBranch @ '': '' @ we_path w)) (\<lambda>_.
     act_bind (gitText env (we_path w) status_args) (\<lambda>status.
     ensure (status = '''') (label @ '' worktree has uncommitted changes: '' @ we_path w))))))"

definition head_args :: "string \<Rightarrow> string list" where
  "head_args branch = [''rev-parse'', ''refs/heads/'' @ branch @ ''^{commit}'']"

definition verifyLocalHead :: "'s exec_env \<Rightarrow> string \<Rightarrow> string \<Rightarrow> string \<Rightarrow> ('s, closeout_error, unit) act" where
  "verifyLocalHead env cwd branch expectedOid =
     act_bind (gitText env cwd (head_args branch)) (\<lambda>oid.
     ensure (oid = expectedOid) (''Local branch '' @ branch @ '' does not match the merged PR head.''))"

section \<open>Retries and the lock\<close>

text \<open>\<open>Effect.retry\<close> with a count: another attempt after each error that is worth one.\<close>

fun retry_act :: "nat \<Rightarrow> ('e \<Rightarrow> bool) \<Rightarrow> ('s, 'e, 'a) act \<Rightarrow> ('s, 'e, 'a) act" where
  "retry_act 0 again m = m"
| "retry_act (Suc n) again m = act_catch m (\<lambda>e. if again e then retry_act n again m else act_throw e)"

definition LOCK_RETRIES :: nat where "LOCK_RETRIES = 480"

definition isCloseoutLockBusy :: "closeout_error \<Rightarrow> bool" where
  "isCloseoutLockBusy e = (case e of Closeout_error _ busy \<Rightarrow> busy)"

definition lock_attempt :: "'s exec_env \<Rightarrow> string \<Rightarrow> ('s, closeout_error, unit) act" where
  "lock_attempt env dir s =
     (case xe_lock env dir s of
        (None, s) \<Rightarrow> (Inr (), s)
      | (Some busy, s) \<Rightarrow> (Inl (Closeout_error (''Could not acquire closeout lock for '' @ dir @ ''.'') busy), s))"

definition acquireCloseoutLock :: "'s exec_env \<Rightarrow> string \<Rightarrow> ('s, closeout_error, unit) act" where
  "acquireCloseoutLock env dir =
     act_map_error (\<lambda>e. if isCloseoutLockBusy e
         then closeoutFailure (''Timed out waiting for another closeout in '' @ dir @ '' after 120 seconds.'') else e)
       (retry_act LOCK_RETRIES isCloseoutLockBusy (lock_attempt env dir))"

definition release_lock :: "'s exec_env \<Rightarrow> string \<Rightarrow> ('s, closeout_error, unit) act" where
  "release_lock env dir s = (Inr (), xe_unlock env dir s)"

definition index_lock_tail :: "string \<Rightarrow> bool" where
  "index_lock_tail s =
     (let l = takeWhile (\<lambda>c. c \<noteq> CHR 0x0A) s
      in str_includes l (''/index.lock'' @ [CHR 0x27] @ '': file exists.'') \<or>
         str_includes l (CHR 0x5C # ''index.lock'' @ [CHR 0x27] @ '': file exists.''))"

fun index_lock_in :: "string \<Rightarrow> bool" where
  "index_lock_in [] = False"
| "index_lock_in (c # cs) =
     ((starts_with (''unable to create '' @ [CHR 0x27]) (c # cs) \<and> index_lock_tail (drop 18 (c # cs))) \<or> index_lock_in cs)"

definition isIndexLockBusy :: "closeout_error \<Rightarrow> bool" where
  "isIndexLockBusy e = (case e of Closeout_error message _ \<Rightarrow> index_lock_in (toLowerCase message))"

section \<open>The workflow\<close>

definition act_when :: "bool \<Rightarrow> ('s, 'e, unit) act \<Rightarrow> ('s, 'e, unit) act" where
  "act_when b m = (if b then m else act_ret ())"

text \<open>A git command that must exit with 0, and whether a ref exists.\<close>

definition must_exit :: "'s exec_env \<Rightarrow> string \<Rightarrow> string list \<Rightarrow> string \<Rightarrow> ('s, closeout_error, unit) act" where
  "must_exit env cwd args message = act_bind (gitExit env cwd args) (\<lambda>code. ensure (code = 0) message)"

definition show_ref_args :: "string \<Rightarrow> string list" where
  "show_ref_args ref = [''show-ref'', ''--verify'', ''--quiet'', ref]"

definition ancestor_args :: "string \<Rightarrow> string \<Rightarrow> string list" where
  "ancestor_args a b = [''merge-base'', ''--is-ancestor'', a, b]"

definition requested_repository :: "pr_reference \<Rightarrow> string" where
  "requested_repository r = toLowerCase (pq_owner r @ ''/'' @ pq_repo r)"

record resolved_pr =
  rp_pr :: pull_request
  rp_url :: pr_reference
  rp_root :: string
  rp_remote :: "string \<times> string"

definition requested_number :: "string option \<Rightarrow> int option" where
  "requested_number requested =
     (case opt_bind requested parseGitHubPullRequestUrl of
        Some r \<Rightarrow> Some (pq_number r)
      | None \<Rightarrow> map_option digits_value requested)"

definition resolvePullRequest :: "'s exec_env \<Rightarrow> string \<Rightarrow> string option \<Rightarrow> ('s, closeout_error, resolved_pr) act" where
  "resolvePullRequest env cwd raw =
     act_bind (case raw of None \<Rightarrow> act_ret None | Some v \<Rightarrow> act_lift (map_sum id Some (normalizePullRequestReference v))) (\<lambda>requested.
     act_bind (gitText env cwd [''rev-parse'', ''--show-toplevel'']) (\<lambda>root.
     act_bind (selectGitHubRemote env root (map_option requested_repository (opt_bind requested parseGitHubPullRequestUrl))) (\<lambda>remote.
     act_bind (case requested of Some r \<Rightarrow> act_ret r | None \<Rightarrow> gitText env cwd [''branch'', ''--show-current'']) (\<lambda>reference.
     act_bind (ensure (reference \<noteq> '''') ''Cannot resolve a PR from a detached checkout. Pass a PR number or GitHub PR URL.'') (\<lambda>_.
     act_bind (loadPullRequest env cwd reference (snd remote)) (\<lambda>pr.
     case parseGitHubPullRequestUrl (pr_url pr) of
       None \<Rightarrow> act_throw (closeoutFailure ''GitHub returned an invalid pull request URL.'')
     | Some url \<Rightarrow>
         act_bind (ensure (requested_repository url = snd remote)
           (''GitHub returned a pull request outside the selected repository '' @ snd remote @ ''.'')) (\<lambda>_.
         act_bind (ensure (requested_number requested = None \<or> requested_number requested = Some (pq_number url))
           (''GitHub returned a different pull request than requested ('' @ show_int (the (requested_number requested)) @ '').'')) (\<lambda>_.
         act_ret \<lparr>rp_pr = pr, rp_url = url, rp_root = root, rp_remote = remote\<rparr>))))))))"

text \<open>The checks on the pull request itself.\<close>

definition require_closable :: "pull_request \<Rightarrow> ('s, closeout_error, unit) act" where
  "require_closable pr =
     act_bind (ensure (pr_state pr = ''MERGED'' \<and> truthy (pr_mergedAt pr) \<and> truthy (pr_mergeCommit pr))
       (''Pull request '' @ pr_url pr @ '' is not merged.'')) (\<lambda>_.
     act_bind (ensure (\<not> pr_isCrossRepository pr) ''Closeout does not delete local branches for fork pull requests.'') (\<lambda>_.
     act_bind (ensure (pr_headRefName pr \<noteq> pr_baseRefName pr) ''The PR head branch matches its base branch.'') (\<lambda>_.
     ensure (\<not> isProtectedBranch (pr_headRefName pr)) (''Refusing to delete protected branch '' @ pr_headRefName pr @ ''.''))))"

definition head_verified :: "'s exec_env \<Rightarrow> pull_request \<Rightarrow> worktree_entry \<Rightarrow> ('s, closeout_error, unit) act" where
  "head_verified env pr w = verifyWorktree env w (pr_headRefName pr) ''PR head''"

definition base_verified :: "'s exec_env \<Rightarrow> pull_request \<Rightarrow> worktree_entry \<Rightarrow> ('s, closeout_error, unit) act" where
  "base_verified env pr w = verifyWorktree env w (pr_baseRefName pr) ''Base branch''"

definition require_removable ::
  "'s exec_env \<Rightarrow> string \<Rightarrow> pull_request \<Rightarrow> worktree_entry list \<Rightarrow> worktree_entry \<Rightarrow> ('s, closeout_error, unit) act" where
  "require_removable env cwd pr worktrees w =
     act_bind (ensure (worktrees = [] \<or> \<not> same_canonical env (we_path w) (we_path (hd worktrees)))
       (''Refusing to remove the repository'' @ [CHR 0x27] @ ''s primary worktree: '' @ we_path w)) (\<lambda>_.
     act_bind (ensure (\<not> path_inside env (we_path w) cwd)
       (''Refusing to remove the worktree that contains the current Pi working directory: '' @ we_path w)) (\<lambda>_.
     head_verified env pr w))"

definition head_ref :: "pull_request \<Rightarrow> string" where "head_ref pr = ''refs/heads/'' @ pr_headRefName pr"

definition base_ref :: "pull_request \<Rightarrow> string" where "base_ref pr = ''refs/heads/'' @ pr_baseRefName pr"

definition remote_base_ref :: "string \<Rightarrow> pull_request \<Rightarrow> string" where
  "remote_base_ref remote pr = ''refs/remotes/'' @ remote @ ''/'' @ pr_baseRefName pr"

definition fetch_args :: "string \<times> string \<Rightarrow> string list" where
  "fetch_args remote =
     [''fetch'', ''--prune'', ''--no-tags'', ''https://github.com/'' @ snd remote @ ''.git'',
      ''+refs/heads/*:refs/remotes/'' @ fst remote @ ''/*'']"

text \<open>The base branch must be able to fast-forward to a remote branch that holds the merged commit.\<close>

definition require_fast_forward ::
  "'s exec_env \<Rightarrow> string \<Rightarrow> string \<Rightarrow> pull_request \<Rightarrow> ('s, closeout_error, unit) act" where
  "require_fast_forward env cwd remote pr =
     (let shown = remote @ ''/'' @ pr_baseRefName pr in
      act_bind (must_exit env cwd (show_ref_args (base_ref pr)) (''Local base branch '' @ pr_baseRefName pr @ '' is missing.'')) (\<lambda>_.
      act_bind (must_exit env cwd (show_ref_args (remote_base_ref remote pr)) (''Remote base branch '' @ shown @ '' is missing after fetch.'')) (\<lambda>_.
      act_bind (must_exit env cwd (ancestor_args (base_ref pr) (remote_base_ref remote pr))
        (''Local base branch '' @ pr_baseRefName pr @ '' cannot fast-forward to '' @ shown @ ''.'')) (\<lambda>_.
      must_exit env cwd (ancestor_args (the (pr_mergeCommit pr)) (remote_base_ref remote pr))
        (''The merged PR commit is not present on '' @ shown @ ''.'')))))"

definition merge_args :: "string \<Rightarrow> pull_request \<Rightarrow> string list" where
  "merge_args remote pr = [''merge'', ''--ff-only'', remote_base_ref remote pr]"

definition fast_forward :: "'s exec_env \<Rightarrow> string \<Rightarrow> pull_request \<Rightarrow> worktree_entry \<Rightarrow> ('s, closeout_error, unit) act" where
  "fast_forward env remote pr base =
     act_map_error (\<lambda>e. case e of Closeout_error message _ \<Rightarrow>
         if isIndexLockBusy e
         then closeoutFailure (''Timed out waiting for the Git index lock after 120 seconds. '' @ message) else e)
       (retry_act LOCK_RETRIES isIndexLockBusy
         (act_bind (base_verified env pr base) (\<lambda>_.
          act_bind (run_command env ''git'' (merge_args remote pr) (we_path base) True) (\<lambda>_. act_ret ()))))"

definition remove_args :: "worktree_entry \<Rightarrow> string list" where
  "remove_args w = [''worktree'', ''remove'', we_path w]"

definition delete_args :: "pull_request \<Rightarrow> string list" where
  "delete_args pr = [''update-ref'', ''-d'', head_ref pr, pr_headRefOid pr]"

record closeout_result =
  co_prNumber :: int
  co_prUrl :: string
  co_baseBranch :: string
  co_baseOid :: string
  co_headBranch :: string
  co_removedWorktree :: "string option"
  co_deletedBranch :: bool

definition on_head :: "worktree_entry option \<Rightarrow> (worktree_entry \<Rightarrow> ('s, 'e, unit) act) \<Rightarrow> ('s, 'e, unit) act" where
  "on_head head m = (case head of None \<Rightarrow> act_ret () | Some w \<Rightarrow> m w)"

text \<open>What is done with the lock held.\<close>

definition closeout_locked :: "'s exec_env \<Rightarrow> string \<Rightarrow> resolved_pr \<Rightarrow> ('s, closeout_error, closeout_result) act" where
  "closeout_locked env cwd rp =
     (let pr = rp_pr rp; remote = fst (rp_remote rp) in
      act_bind (gitText env (rp_root rp) [''worktree'', ''list'', ''--porcelain'']) (\<lambda>listing.
      let worktrees = parseWorktreePorcelain listing;
          found = findWorktree worktrees (pr_baseRefName pr);
          base = the found;
          head = findWorktree worktrees (pr_headRefName pr)
      in
      act_bind (ensure (found \<noteq> None) (''Base branch '' @ pr_baseRefName pr @ '' has no local worktree.'')) (\<lambda>_.
      act_bind (on_head head (require_removable env cwd pr worktrees)) (\<lambda>_.
      act_bind (base_verified env pr base) (\<lambda>_.
      act_bind (gitExit env (we_path base) (show_ref_args (head_ref pr))) (\<lambda>code.
      let local_head = (code = 0) in
      act_bind (act_when (head \<noteq> None) (ensure local_head (''Local branch '' @ pr_headRefName pr @ '' is missing.''))) (\<lambda>_.
      act_bind (act_when local_head (verifyLocalHead env (we_path base) (pr_headRefName pr) (pr_headRefOid pr))) (\<lambda>_.
      act_bind (run_command env ''git'' (fetch_args (rp_remote rp)) (we_path base) True) (\<lambda>_.
      act_bind (require_fast_forward env (we_path base) remote pr) (\<lambda>_.
      act_bind (on_head head (head_verified env pr)) (\<lambda>_.
      act_bind (act_when local_head (verifyLocalHead env (we_path base) (pr_headRefName pr) (pr_headRefOid pr))) (\<lambda>_.
      act_bind (fast_forward env remote pr base) (\<lambda>_.
      act_bind (gitText env (we_path base) [''rev-parse'', ''HEAD'']) (\<lambda>baseOid.
      act_bind (on_head head (\<lambda>w. act_bind (run_command env ''git'' (remove_args w) (we_path base) True) (\<lambda>_. act_ret ()))) (\<lambda>_.
      act_bind (act_when local_head (act_bind (run_command env ''git'' (delete_args pr) (we_path base) True) (\<lambda>_. act_ret ()))) (\<lambda>_.
      act_ret \<lparr>co_prNumber = pq_number (rp_url rp), co_prUrl = pq_url (rp_url rp), co_baseBranch = pr_baseRefName pr,
        co_baseOid = baseOid, co_headBranch = pr_headRefName pr, co_removedWorktree = map_option we_path head,
        co_deletedBranch = local_head\<rparr>))))))))))))))))"

definition closeoutWorkflow :: "'s exec_env \<Rightarrow> string \<Rightarrow> closeout_request \<Rightarrow> ('s, closeout_error, closeout_result) act" where
  "closeoutWorkflow env cwd q =
     act_bind (resolvePullRequest env (if truthy (cr_repoPath q) then xe_resolve env cwd (the (cr_repoPath q)) else cwd) (cr_pr q)) (\<lambda>rp.
     act_bind (require_closable (rp_pr rp)) (\<lambda>_.
     act_bind (gitText env (rp_root rp) [''rev-parse'', ''--path-format=absolute'', ''--git-common-dir'']) (\<lambda>commonDir.
     act_bind (acquireCloseoutLock env commonDir) (\<lambda>_.
     act_finally (closeout_locked env cwd rp) (release_lock env commonDir)))))"

definition formatCloseoutResult :: "closeout_result \<Rightarrow> string" where
  "formatCloseoutResult r =
     join_with [CHR 0x0A]
       [''Closed out '' @ co_prUrl r @ ''.'',
        ''Fast-forwarded '' @ co_baseBranch r @ '' to '' @ take 12 (co_baseOid r) @ ''.'',
        (case co_removedWorktree r of
           Some p \<Rightarrow> if p = '''' then ''The head worktree was already absent.'' else ''Removed worktree '' @ p @ ''.''
         | None \<Rightarrow> ''The head worktree was already absent.''),
        (if co_deletedBranch r then ''Deleted local branch '' @ co_headBranch r @ ''.''
         else ''Local branch '' @ co_headBranch r @ '' was already absent.'')]"

section \<open>The log of the commands\<close>

text \<open>
  A platform that also notes the commands that were run and their results, the newest first; those
  that could not be run are not noted.
\<close>

type_synonym call = "string \<times> string list \<times> string \<times> exec_result"

definition noting :: "'s exec_env \<Rightarrow> ('s \<times> call list) exec_env" where
  "noting env =
     \<lparr>xe_exec = (\<lambda>command args cwd x. case xe_exec env command args cwd (fst x) of
          (Inl e, s) \<Rightarrow> (Inl e, (s, snd x))
        | (Inr r, s) \<Rightarrow> (Inr r, (s, (command, args, cwd, r) # snd x))),
      xe_exists = (\<lambda>p x. xe_exists env p (fst x)), xe_realpath = xe_realpath env, xe_resolve = xe_resolve env,
      xe_relative = xe_relative env, xe_url = xe_url env,
      xe_lock = (\<lambda>dir x. case xe_lock env dir (fst x) of (r, s) \<Rightarrow> (r, (s, snd x))),
      xe_unlock = (\<lambda>dir x. (xe_unlock env dir (fst x), snd x))\<rparr>"

text \<open>Commands that only ask.\<close>

definition asks :: "string \<Rightarrow> string list \<Rightarrow> bool" where
  "asks command args \<longleftrightarrow>
     command = ''gh'' \<and> take 2 args = [''pr'', ''view''] \<or> command = ''ssh'' \<and> take 1 args = [''-G''] \<or>
     command = ''git'' \<and>
       (args = [''remote''] \<or> take 2 args = [''remote'', ''get-url''] \<or> args = [''branch'', ''--show-current''] \<or>
        args = [''worktree'', ''list'', ''--porcelain''] \<or>
        args \<noteq> [] \<and> hd args \<in> {''rev-parse'', ''check-ref-format'', ''show-ref'', ''merge-base'', ''status''})"

text \<open>The evidence that the log holds.\<close>

definition answered :: "call set \<Rightarrow> string \<Rightarrow> string list \<Rightarrow> string \<Rightarrow> bool" where
  "answered L cwd args out \<longleftrightarrow> (\<exists>r. (''git'', args, cwd, r) \<in> L \<and> trim_string (er_stdout r) = out)"

definition succeeded :: "call set \<Rightarrow> string \<Rightarrow> string list \<Rightarrow> bool" where
  "succeeded L cwd args \<longleftrightarrow> (\<exists>r. (''git'', args, cwd, r) \<in> L \<and> er_code r = 0)"

definition closable :: "pull_request \<Rightarrow> bool" where
  "closable pr \<longleftrightarrow> pr_state pr = ''MERGED'' \<and> truthy (pr_mergedAt pr) \<and> truthy (pr_mergeCommit pr) \<and>
     \<not> pr_isCrossRepository pr \<and> pr_headRefName pr \<noteq> pr_baseRefName pr \<and> \<not> isProtectedBranch (pr_headRefName pr)"

text \<open>
  The repository that the closeout is about: its root is what git names as the top of the directory
  asked for, and the remote is one of that root whose only fetch URL stands for this repository on
  GitHub, by its host or by what ssh resolves its host to.
\<close>

definition lookup_directory :: "'s exec_env \<Rightarrow> string \<Rightarrow> closeout_request \<Rightarrow> string" where
  "lookup_directory env cwd q =
     (case cr_repoPath q of Some p \<Rightarrow> if p = '''' then cwd else xe_resolve env cwd p | None \<Rightarrow> cwd)"

definition on_github :: "'s exec_env \<Rightarrow> call set \<Rightarrow> string \<Rightarrow> string \<Rightarrow> string \<Rightarrow> bool" where
  "on_github env L wd url repository \<longleftrightarrow>
     (\<exists>r. parseGitRemoteRepository env url = Some r \<and> rm_repository r = repository \<and>
        (rm_host r = ''github.com'' \<or>
         rm_resolvesSshAlias r \<and>
           (\<exists>x. (''ssh'', [''-G'', ''--'', rm_host r], wd, x) \<in> L \<and> er_code x = 0 \<and>
              sshConfigHostname (er_stdout x) = Some ''github.com'')))"

definition configured :: "'s exec_env \<Rightarrow> call set \<Rightarrow> string \<Rightarrow> string \<Rightarrow> string \<Rightarrow> bool" where
  "configured env L topdir remote repository \<longleftrightarrow>
     (\<exists>names urls url. answered L topdir [''remote''] names \<and> remote \<in> set (nonempty_lines names) \<and>
        answered L topdir [''remote'', ''get-url'', ''--all'', remote] urls \<and> set (nonempty_lines urls) = {url} \<and>
        on_github env L topdir url repository)"

text \<open>The URL of the pull request with this number in this repository, whatever follows it.\<close>

definition names_pull :: "string \<Rightarrow> string \<Rightarrow> int \<Rightarrow> bool" where
  "names_pull url repository n \<longleftrightarrow>
     (\<exists>owner repo number rest. url = ''https://github.com/'' @ owner @ ''/'' @ repo @ ''/pull/'' @ number @ rest \<and>
        CHR ''/'' \<notin> set owner \<and> CHR ''/'' \<notin> set repo \<and> toLowerCase (owner @ ''/'' @ repo) = repository \<and>
        pr_number number \<and> digits_value number = n \<and> (rest = '''' \<or> \<not> is_digit (hd rest)))"

text \<open>
  The pull request is the one asked for: a number in this repository, a URL of this repository, or,
  when nothing is asked for, whatever GitHub shows for the branch that git names in the directory.
\<close>

definition asked_for :: "'s exec_env \<Rightarrow> string \<Rightarrow> closeout_request \<Rightarrow> call set \<Rightarrow> string \<Rightarrow> string \<Rightarrow> int \<Rightarrow> bool" where
  "asked_for env cwd q L reference repository n \<longleftrightarrow>
     (case cr_pr q of
        None \<Rightarrow> reference \<noteq> '''' \<and> answered L (lookup_directory env cwd q) [''branch'', ''--show-current''] reference
      | Some v \<Rightarrow> pr_number v \<and> reference = v \<and> digits_value v = n \<or> names_pull v repository n \<and> names_pull reference repository n)"

text \<open>GitHub has shown this pull request, of this repository, when asked for it there.\<close>

definition shown ::
  "'s exec_env \<Rightarrow> string \<Rightarrow> closeout_request \<Rightarrow> call set \<Rightarrow> string \<Rightarrow> string \<Rightarrow> string \<Rightarrow> pull_request \<Rightarrow> bool" where
  "shown env cwd q L topdir remote repository pr \<longleftrightarrow>
     answered L (lookup_directory env cwd q) [''rev-parse'', ''--show-toplevel''] topdir \<and>
     configured env L topdir remote repository \<and>
     (\<exists>reference n r. (''gh'', view_args reference repository, lookup_directory env cwd q, r) \<in> L \<and> er_code r = 0 \<and>
        decodePullRequest (er_stdout r) = Inr pr \<and> names_pull (pr_url pr) repository n \<and>
        asked_for env cwd q L reference repository n)"

text \<open>The worktree of a branch in git's listing of the repository.\<close>

definition listed :: "call set \<Rightarrow> string \<Rightarrow> worktree_entry list \<Rightarrow> bool" where
  "listed L topdir worktrees \<longleftrightarrow>
     (\<exists>listing. answered L topdir [''worktree'', ''list'', ''--porcelain''] listing \<and> worktrees = parseWorktreePorcelain listing)"

definition worktree_on :: "call set \<Rightarrow> string \<Rightarrow> string \<Rightarrow> string \<Rightarrow> bool" where
  "worktree_on L topdir branch wd \<longleftrightarrow>
     (\<exists>worktrees w. listed L topdir worktrees \<and> w \<in> set worktrees \<and> we_branch w = Some branch \<and> we_path w = wd) \<and>
     answered L wd [''branch'', ''--show-current''] branch \<and> answered L wd status_args ''''"

definition integrated :: "call set \<Rightarrow> string \<Rightarrow> string \<Rightarrow> pull_request \<Rightarrow> bool" where
  "integrated L cwd remote pr \<longleftrightarrow>
     succeeded L cwd (ancestor_args (the (pr_mergeCommit pr)) (remote_base_ref remote pr)) \<and> succeeded L cwd (merge_args remote pr)"

text \<open>A worktree that may go: listed on the head branch, not the primary one, not around \<open>cwd\<close>, clean.\<close>

definition removable_worktree :: "'s exec_env \<Rightarrow> string \<Rightarrow> call set \<Rightarrow> string \<Rightarrow> pull_request \<Rightarrow> worktree_entry \<Rightarrow> bool" where
  "removable_worktree env cwd L topdir pr w \<longleftrightarrow>
     worktree_on L topdir (pr_headRefName pr) (we_path w) \<and>
     (\<exists>worktrees. listed L topdir worktrees \<and> w \<in> set worktrees \<and> \<not> same_canonical env (we_path w) (we_path (hd worktrees))) \<and>
     \<not> path_inside env (we_path w) cwd"

text \<open>
  What a command that changes the repository in \<open>wd\<close> needs in the log before it. All of it is about one
  pull request of one repository, and \<open>wd\<close> is the worktree of that pull request's base branch.
\<close>

definition change_justified ::
  "'s exec_env \<Rightarrow> string \<Rightarrow> call set \<Rightarrow> string list \<Rightarrow> string \<Rightarrow> string \<Rightarrow> string \<times> string \<Rightarrow> pull_request \<Rightarrow> bool" where
  "change_justified env cwd L args wd topdir remote pr \<longleftrightarrow>
     worktree_on L topdir (pr_baseRefName pr) wd \<and>
     (args = fetch_args remote \<or>
      args = merge_args (fst remote) pr \<and> succeeded L wd (ancestor_args (base_ref pr) (remote_base_ref (fst remote) pr)) \<and>
        succeeded L wd (ancestor_args (the (pr_mergeCommit pr)) (remote_base_ref (fst remote) pr)) \<or>
      integrated L wd (fst remote) pr \<and> answered L wd (head_args (pr_headRefName pr)) (pr_headRefOid pr) \<and>
        (args = delete_args pr \<or> (\<exists>w. args = remove_args w \<and> removable_worktree env cwd L topdir pr w)))"

definition known :: "'s exec_env \<Rightarrow> string \<Rightarrow> closeout_request \<Rightarrow> string \<Rightarrow> string \<times> string \<Rightarrow> pull_request \<Rightarrow> call set \<Rightarrow> bool" where
  "known env cwd q topdir remote pr L \<longleftrightarrow> closable pr \<and> shown env cwd q L topdir (fst remote) (snd remote) pr"

definition call_justified :: "'s exec_env \<Rightarrow> string \<Rightarrow> closeout_request \<Rightarrow> call set \<Rightarrow> string \<Rightarrow> string list \<Rightarrow> string \<Rightarrow> bool" where
  "call_justified env cwd q L command args wd \<longleftrightarrow>
     asks command args \<or>
     command = ''git'' \<and> (\<exists>topdir remote pr. known env cwd q topdir remote pr L \<and> change_justified env cwd L args wd topdir remote pr)"

fun log_ok :: "'s exec_env \<Rightarrow> string \<Rightarrow> closeout_request \<Rightarrow> call list \<Rightarrow> bool" where
  "log_ok env cwd q [] = True"
| "log_ok env cwd q ((command, args, wd, r) # es) = (call_justified env cwd q (set es) command args wd \<and> log_ok env cwd q es)"

section \<open>A logic for the log\<close>

text \<open>
  Facts that stay true as the log grows, the assertion that one holds of a log that is in order, and
  the judgement that from it an action leaves the log in order, however it ends; \<open>achieves\<close> adds what
  is known when it returns.
\<close>

definition grows :: "(call set \<Rightarrow> bool) \<Rightarrow> bool" where
  "grows P \<longleftrightarrow> (\<forall>L c. P L \<longrightarrow> P (insert c L))"

definition logged :: "'s exec_env \<Rightarrow> string \<Rightarrow> closeout_request \<Rightarrow> (call set \<Rightarrow> bool) \<Rightarrow> 's \<times> call list \<Rightarrow> bool" where
  "logged env cwd q P x \<longleftrightarrow> log_ok env cwd q (snd x) \<and> P (set (snd x))"

definition safe :: "'s exec_env \<Rightarrow> string \<Rightarrow> closeout_request \<Rightarrow> (call set \<Rightarrow> bool) \<Rightarrow> ('s \<times> call list, 'e, 'a) act \<Rightarrow> bool" where
  "safe env cwd q P m \<longleftrightarrow> (\<forall>x r y. logged env cwd q P x \<longrightarrow> m x = (r, y) \<longrightarrow> log_ok env cwd q (snd y))"

definition achieves ::
  "'s exec_env \<Rightarrow> string \<Rightarrow> closeout_request \<Rightarrow> (call set \<Rightarrow> bool) \<Rightarrow> ('s \<times> call list, 'e, 'a) act \<Rightarrow> ('a \<Rightarrow> call set \<Rightarrow> bool) \<Rightarrow> bool" where
  "achieves env cwd q P m R \<longleftrightarrow>
     (\<forall>x a y. logged env cwd q P x \<longrightarrow> m x = (Inr a, y) \<longrightarrow> logged env cwd q (R a) y) \<and>
     (\<forall>x e y. logged env cwd q P x \<longrightarrow> m x = (Inl e, y) \<longrightarrow> logged env cwd q P y)"

named_theorems grows_intros \<open>facts that stay true as the log grows\<close>

lemma grows_conj [grows_intros]: "grows P \<Longrightarrow> grows Q \<Longrightarrow> grows (\<lambda>L. P L \<and> Q L)"
  and grows_const [grows_intros]: "grows (\<lambda>L. b)"
  and grows_imp [grows_intros]: "grows Q \<Longrightarrow> grows (\<lambda>L. b \<longrightarrow> Q L)"
  by (simp_all add: grows_def)

lemma grows_call [grows_intros]: "grows ((\<in>) c)"
  by (simp add: grows_def)

lemma grows_answered [grows_intros]: "grows (\<lambda>L. answered L wd args out)"
  and grows_succeeded [grows_intros]: "grows (\<lambda>L. succeeded L wd args)"
  and grows_ex [grows_intros]: "(\<And>x. grows (Q x)) \<Longrightarrow> grows (\<lambda>L. \<exists>x. Q x L)"
  and grows_all [grows_intros]: "(\<And>x. grows (Q x)) \<Longrightarrow> grows (\<lambda>L. \<forall>x. Q x L)"
  and grows_or [grows_intros]: "grows P \<Longrightarrow> grows R \<Longrightarrow> grows (\<lambda>L. P L \<or> R L)"
  and grows_ball [grows_intros]: "(\<And>x. grows (Q x)) \<Longrightarrow> grows (\<lambda>L. \<forall>x\<in>A. Q x L)"
  and grows_bex [grows_intros]: "(\<And>x. grows (Q x)) \<Longrightarrow> grows (\<lambda>L. \<exists>x\<in>A. Q x L)"
  unfolding grows_def answered_def succeeded_def by blast+

lemma grows_github [grows_intros]: "grows (\<lambda>L. on_github env L wd u repository)"
  unfolding on_github_def by (intro grows_intros)

lemma grows_configured [grows_intros]: "grows (\<lambda>L. configured env L topdir remote repository)"
  unfolding configured_def by (intro grows_intros)

lemma grows_asked [grows_intros]: "grows (\<lambda>L. asked_for env cwd q L reference repository n)"
  unfolding asked_for_def by (cases "cr_pr q") (simp_all add: grows_intros)

lemma grows_known [grows_intros]: "grows (\<lambda>L. known env cwd q topdir remote pr L)"
  unfolding known_def shown_def by (intro grows_intros)

lemma grows_listed [grows_intros]: "grows (\<lambda>L. listed L topdir worktrees)"
  unfolding listed_def by (intro grows_intros)

lemma grows_worktree [grows_intros]: "grows (\<lambda>L. worktree_on L topdir branch wd)"
  unfolding worktree_on_def by (intro grows_intros)

lemma logged_weaken: "logged env cwd q P x \<Longrightarrow> (\<And>L. P L \<Longrightarrow> Q L) \<Longrightarrow> logged env cwd q Q x"
  by (simp add: logged_def)

lemma act_bind_run_eq: "act_bind m f x = (r, y) \<longleftrightarrow>
    (\<exists>e. m x = (Inl e, y) \<and> r = Inl e) \<or> (\<exists>a z. m x = (Inr a, z) \<and> f a z = (r, y))"
  by (auto simp: act_bind_def split: prod.splits sum.splits)

lemma safe_achieves: "achieves env cwd q P m R \<Longrightarrow> safe env cwd q P m"
  unfolding safe_def achieves_def logged_def by (metis obj_sumE)

lemma safe_stays: "stays (logged env cwd q P) m \<Longrightarrow> safe env cwd q P m"
  unfolding safe_def by (auto simp: logged_def dest: staysD)

lemma achieves_stays: "stays (logged env cwd q P) m \<Longrightarrow> achieves env cwd q P m (\<lambda>_. P)"
  unfolding achieves_def by (blast dest: staysD)

lemma safe_bind:
  "achieves env cwd q P m R \<Longrightarrow> (\<And>a. safe env cwd q (R a) (f a)) \<Longrightarrow> safe env cwd q P (act_bind m f)"
  unfolding safe_def achieves_def act_bind_run_eq logged_def by blast

lemma achieves_bind:
  assumes "achieves env cwd q P m R" "\<And>a. achieves env cwd q (R a) (f a) S" "\<And>a L. R a L \<Longrightarrow> P L"
  shows "achieves env cwd q P (act_bind m f) S"
proof -
  have "logged env cwd q P x" if "logged env cwd q (R a) x" for a x
    using that by (auto simp: logged_def intro: assms(3))
  then show ?thesis
    using assms(1,2) unfolding achieves_def act_bind_Inr act_bind_Inl by blast
qed

lemma achieves_ret: "achieves env cwd q P (act_ret a) (\<lambda>b L. b = a \<and> P L)"
  by (simp add: achieves_def act_ret_def logged_def)

lemma achieves_post: "achieves env cwd q P m R \<Longrightarrow> (\<And>a L. R a L \<Longrightarrow> S a L) \<Longrightarrow> achieves env cwd q P m S"
  unfolding achieves_def logged_def by blast

lemma achieves_ensure: "achieves env cwd q P (ensure b message) (\<lambda>_ L. P L \<and> b)"
  by (simp add: achieves_def ensure_def act_ret_def act_throw_def logged_def)

lemma achieves_throw: "achieves env cwd q P (act_throw e) R"
  by (simp add: achieves_def act_throw_def)

lemma achieves_catch:
  "achieves env cwd q P m R \<Longrightarrow> (\<And>e. achieves env cwd q P (h e) R) \<Longrightarrow> achieves env cwd q P (act_catch m h) R"
  unfolding achieves_def act_catch_Inr act_catch_Inl by blast

lemma achieves_retry: "achieves env cwd q P m R \<Longrightarrow> achieves env cwd q P (retry_act n again m) R"
  by (induction n) (simp_all add: achieves_catch achieves_throw)

lemma achieves_map_error: "achieves env cwd q P m R \<Longrightarrow> achieves env cwd q P (act_map_error g m) R"
  unfolding achieves_def act_map_error_Inr act_map_error_Inl by blast

text \<open>Running a command that is justified.\<close>

lemma run_noting:
  "run_command (noting env) command args wd strict (s, es) =
     (case xe_exec env command args wd s of
        (Inl e, s') \<Rightarrow> (Inl (closeoutFailure (rendered command args @ '' failed.'')), (s', es))
      | (Inr r, s') \<Rightarrow> (exec_outcome command args strict r, (s', (command, args, wd, r) # es)))"
  by (auto simp: run_command_def noting_def act_bind_def act_map_error_def act_catch_def act_throw_def act_lift_def
      split: prod.split sum.split)

lemma exec_outcome_Inr: "exec_outcome command args strict r = Inr r' \<Longrightarrow> r' = r \<and> (strict \<longrightarrow> er_code r = 0)"
  by (auto simp: exec_outcome_def split: if_splits)

lemma achieves_run:
  assumes "grows P" "\<And>L. P L \<Longrightarrow> call_justified env cwd q L command args wd"
  shows "achieves env cwd q P (run_command (noting env) command args wd strict)
    (\<lambda>r L. P L \<and> (command, args, wd, r) \<in> L \<and> (strict \<longrightarrow> er_code r = 0))"
  using assms
  by (auto simp: achieves_def logged_def run_noting grows_def dest: exec_outcome_Inr split: prod.split sum.split)

lemma stays_run:
  assumes "grows P" "\<And>L. P L \<Longrightarrow> call_justified env cwd q L command args wd"
  shows "stays (logged env cwd q P) (run_command (noting env) command args wd strict)"
  using assms by (auto simp: stays_def logged_def run_noting grows_def split: prod.split sum.split)

lemma achieves_text:
  assumes "grows P" "\<And>L. P L \<Longrightarrow> call_justified env cwd q L ''git'' args wd"
  shows "achieves env cwd q P (gitText (noting env) wd args) (\<lambda>out L. P L \<and> answered L wd args out)"
  unfolding gitText_def
  by (rule achieves_bind [OF achieves_run [OF assms]]) (auto intro!: achieves_post [OF achieves_ret] simp: answered_def)

lemma achieves_exit:
  assumes "grows P" "\<And>L. P L \<Longrightarrow> call_justified env cwd q L ''git'' args wd"
  shows "achieves env cwd q P (gitExit (noting env) wd args) (\<lambda>code L. P L \<and> (code = 0 \<longrightarrow> succeeded L wd args))"
  unfolding gitExit_def
  by (rule achieves_bind [OF achieves_run [OF assms]]) (auto intro!: achieves_post [OF achieves_ret] simp: succeeded_def)

lemma achieves_must_exit:
  assumes "grows P" "\<And>L. P L \<Longrightarrow> call_justified env cwd q L ''git'' args wd"
  shows "achieves env cwd q P (must_exit (noting env) wd args message) (\<lambda>_ L. P L \<and> succeeded L wd args)"
  unfolding must_exit_def
  by (rule achieves_bind [OF achieves_exit [OF assms]]) (auto intro!: achieves_post [OF achieves_ensure])

section \<open>Every step of a closeout is justified\<close>

lemma asks_justified: "asks command args \<Longrightarrow> call_justified env cwd q L command args wd"
  by (simp add: call_justified_def)

lemma asks_calls [simp]:
  "asks ''git'' [''remote'']" "asks ''git'' (''rev-parse'' # a)" "asks ''git'' (''show-ref'' # a)" "asks ''git'' (''merge-base'' # a)"
  "asks ''git'' (''status'' # a)" "asks ''git'' (''check-ref-format'' # a)" "asks ''git'' [''branch'', ''--show-current'']"
  "asks ''git'' (''remote'' # ''get-url'' # a)" "asks ''git'' [''worktree'', ''list'', ''--porcelain'']"
  "asks ''ssh'' (''-G'' # a)" "asks ''gh'' (''pr'' # ''view'' # a)"
  by (simp_all add: asks_def)

lemmas asking = achieves_text [OF _ asks_justified] achieves_exit [OF _ asks_justified] achieves_must_exit [OF _ asks_justified]

lemma achieves_verify:
  assumes "grows P"
  shows "achieves env cwd q P (verifyWorktree (noting env) w branch label)
    (\<lambda>_ L. P L \<and> answered L (we_path w) [''branch'', ''--show-current''] branch \<and> answered L (we_path w) status_args '''')"
  unfolding verifyWorktree_def
  apply (rule achieves_bind, rule achieves_stays [OF stays_get])
   apply (rule achieves_bind, rule achieves_ensure)
    apply (rule achieves_bind, rule asking)
      apply (intro grows_intros assms)
     apply simp
  apply (rule achieves_bind, rule achieves_ensure)
    apply (rule achieves_bind, rule asking)
      apply (intro grows_intros assms)
     apply (simp add: status_args_def)
  apply (rule achieves_post [OF achieves_ensure])
  apply auto
  done

lemmas ensure_then = achieves_bind [OF achieves_ensure]

lemma stays_ensure [stays_intros]: "stays Q (ensure b message)"
  by (simp add: ensure_def stays_intros)

text \<open>An assertion that the commands that ask leave true; \<open>runs_stay\<close> is the same for all commands.\<close>

definition asks_stay :: "'s exec_env \<Rightarrow> ('s \<Rightarrow> bool) \<Rightarrow> bool" where
  "asks_stay env Q \<longleftrightarrow> (\<forall>command args wd strict. asks command args \<longrightarrow> stays Q (run_command env command args wd strict))"

definition runs_stay :: "'s exec_env \<Rightarrow> ('s \<Rightarrow> bool) \<Rightarrow> bool" where
  "runs_stay env Q \<longleftrightarrow> (\<forall>command args wd strict. stays Q (run_command env command args wd strict))"

lemma runs_asks: "runs_stay env Q \<Longrightarrow> asks_stay env Q"
  by (simp add: runs_stay_def asks_stay_def)

lemma noting_asks [stays_intros]: "grows P \<Longrightarrow> asks_stay (noting env) (logged env cwd q P)"
  by (simp add: asks_stay_def stays_run asks_justified)

lemma stays_ask [stays_intros]: "asks_stay env Q \<Longrightarrow> asks command args \<Longrightarrow> stays Q (run_command env command args wd strict)"
  by (simp add: asks_stay_def)

lemma stays_ask_git [stays_intros]:
  assumes "asks_stay env Q" "asks ''git'' args"
  shows "stays Q (gitText env wd args)" "stays Q (gitExit env wd args)"
  unfolding gitText_def gitExit_def by (intro stays_intros assms)+

lemma stays_repository [stays_intros]: "asks_stay env Q \<Longrightarrow> stays Q (githubRepositoryFromRemote env wd u)"
  unfolding githubRepositoryFromRemote_def by (auto intro!: stays_intros split: option.split)

lemma stays_urls [stays_intros]: "asks_stay env Q \<Longrightarrow> stays Q (url_candidates env wd name urls us)"
  by (induction us) (auto intro!: stays_intros)

lemma stays_candidates [stays_intros]: "asks_stay env Q \<Longrightarrow> stays Q (remote_candidates env wd names)"
  by (induction names) (auto simp: Let_def intro!: stays_intros)

lemma stays_remote [stays_intros]: "asks_stay env Q \<Longrightarrow> stays Q (selectGitHubRemote env wd requested)"
  unfolding selectGitHubRemote_def Let_def by (intro stays_intros; simp)

lemma stays_reference [stays_intros]:
  "asks_stay env Q \<Longrightarrow> stays Q (case q of Some r \<Rightarrow> act_ret r | None \<Rightarrow> gitText env wd [''branch'', ''--show-current''])"
  by (auto intro!: stays_intros split: option.split)

lemma stays_raw [stays_intros]:
  "stays Q (case raw of None \<Rightarrow> act_ret None | Some v \<Rightarrow> act_lift (map_sum id Some (normalizePullRequestReference v)))"
  by (auto intro!: stays_intros split: option.split)

text \<open>What the parser of a URL accepts, and that it accepts the URL it gives.\<close>

lemma cut_at_Some:
  assumes "cut_at c s = Some (a, b)"
  shows "s = a @ c # b \<and> c \<notin> set a"
proof (cases "dropWhile (\<lambda>d. d \<noteq> c) s")
  case Nil
  then show ?thesis
    using assms unfolding cut_at_def by (simp only: list.case option.distinct)
next
  case (Cons x rest)
  then have ab: "takeWhile (\<lambda>d. d \<noteq> c) s = a" "rest = b"
    using assms unfolding cut_at_def by (simp_all only: list.case option.inject prod.inject)
  have "x = c"
    using hd_dropWhile [of "\<lambda>d. d \<noteq> c" s] unfolding Cons by simp
  then have "s = a @ c # b"
    using takeWhile_dropWhile_id [of "\<lambda>d. d \<noteq> c" s] unfolding Cons ab by simp
  moreover have "c \<notin> set a"
    unfolding ab(1) [symmetric] by (auto dest: set_takeWhileD)
  ultimately show ?thesis ..
qed

lemma cut_at_append: "c \<notin> set a \<Longrightarrow> cut_at c (a @ c # b) = Some (a, b)"
proof -
  assume c: "c \<notin> set a"
  have "dropWhile (\<lambda>d. d \<noteq> c) (a @ c # b) = c # b"
    using c by (induction a) auto
  moreover have "takeWhile (\<lambda>d. d \<noteq> c) (a @ c # b) = a"
    using c by (induction a) auto
  ultimately show ?thesis
    by (simp add: cut_at_def)
qed

definition pull_url :: "string \<Rightarrow> string \<Rightarrow> string \<Rightarrow> string" where
  "pull_url owner repo number = ''https://github.com/'' @ owner @ ''/'' @ repo @ ''/pull/'' @ number"

lemma opt_bind_SomeD: "opt_bind m f = Some r \<longleftrightarrow> (\<exists>a. m = Some a \<and> f a = Some r)"
  by (cases m) (simp_all add: opt_bind_def)

lemma digits_split: "list_all is_digit n \<Longrightarrow> rest = '''' \<or> \<not> is_digit (hd rest) \<Longrightarrow>
    takeWhile is_digit (n @ rest) = n \<and> dropWhile is_digit (n @ rest) = rest"
  by (cases rest) (auto simp: takeWhile_append2 list_all_iff)

lemma parse_parts:
  assumes "starts_with ''https://github.com/'' v" "cut_at (CHR ''/'') (drop 19 v) = Some (owner, rest)"
    "cut_at (CHR ''/'') rest = Some (repo, ''pull/'' @ u)"
  shows "parseGitHubPullRequestUrl v =
    (if github_name owner \<and> github_name repo \<and> pr_number (takeWhile is_digit u) \<and>
        (dropWhile is_digit u = '''' \<or> hd (dropWhile is_digit u) \<in> {CHR ''/'', CHR ''?'', CHR ''#''}) \<and>
        no_terminator (dropWhile is_digit u)
     then Some \<lparr>pq_owner = owner, pq_repo = repo, pq_number = digits_value (takeWhile is_digit u),
       pq_url = pull_url owner repo (takeWhile is_digit u)\<rparr>
     else None)"
proof -
  have "starts_with ''pull/'' (''pull/'' @ u)" "drop 5 (''pull/'' @ u) = u"
    by (simp_all add: starts_with_def)
  then show ?thesis
    unfolding parseGitHubPullRequestUrl_def pull_url_def
    by (simp only: assms opt_bind_def option.case prod.case Let_def not_True_eq_False if_False)
qed

lemma parse_url_Some:
  assumes "parseGitHubPullRequestUrl v = Some r"
  obtains number rest where "v = pull_url (pq_owner r) (pq_repo r) number @ rest" "pq_url r = pull_url (pq_owner r) (pq_repo r) number"
    "CHR ''/'' \<notin> set (pq_owner r)" "CHR ''/'' \<notin> set (pq_repo r)" "github_name (pq_owner r)" "github_name (pq_repo r)"
    "pr_number number" "pq_number r = digits_value number" "rest = '''' \<or> \<not> is_digit (hd rest)"
proof -
  obtain t where t: "v = ''https://github.com/'' @ t"
    using assms by (auto simp: parseGitHubPullRequestUrl_def starts_with_iff split: if_splits)
  obtain owner rest where owner: "cut_at (CHR ''/'') t = Some (owner, rest)"
    using assms by (auto simp: parseGitHubPullRequestUrl_def t starts_with_def opt_bind_SomeD split: if_splits)
  obtain repo rest' where repo: "cut_at (CHR ''/'') rest = Some (repo, rest')"
    using assms by (auto simp: parseGitHubPullRequestUrl_def t starts_with_def opt_bind_SomeD owner split: if_splits)
  obtain u where u: "rest' = ''pull/'' @ u"
    using assms by (auto simp: parseGitHubPullRequestUrl_def t starts_with_iff opt_bind_SomeD owner repo split: if_splits)
  have start: "starts_with ''https://github.com/'' v" "cut_at (CHR ''/'') (drop 19 v) = Some (owner, rest)"
    using owner by (simp_all add: t starts_with_def)
  have ok: "github_name owner \<and> github_name repo \<and> pr_number (takeWhile is_digit u)"
    and r: "r = \<lparr>pq_owner = owner, pq_repo = repo, pq_number = digits_value (takeWhile is_digit u),
      pq_url = pull_url owner repo (takeWhile is_digit u)\<rparr>"
    using assms unfolding parse_parts [OF start repo [unfolded u]] by (simp_all split: if_split_asm)
  have "v = pull_url owner repo (takeWhile is_digit u) @ dropWhile is_digit u"
    using cut_at_Some [OF owner] cut_at_Some [OF repo] by (simp add: t u pull_url_def)
  moreover have "dropWhile is_digit u = '''' \<or> \<not> is_digit (hd (dropWhile is_digit u))"
    using hd_dropWhile by blast
  ultimately show thesis
    using cut_at_Some [OF owner] cut_at_Some [OF repo] ok
    by (intro that) (simp_all add: r del: dropWhile_eq_Nil_conv)
qed

lemma parse_url_again:
  assumes "parseGitHubPullRequestUrl v = Some r"
  shows "parseGitHubPullRequestUrl (pq_url r) = Some r"
proof -
  from assms obtain number rest where number: "pq_url r = pull_url (pq_owner r) (pq_repo r) number"
    and slash: "CHR ''/'' \<notin> set (pq_owner r)" "CHR ''/'' \<notin> set (pq_repo r)"
    and names: "github_name (pq_owner r)" "github_name (pq_repo r)" "pr_number number" "pq_number r = digits_value number"
    by (rule parse_url_Some)
  have digits: "takeWhile is_digit number = number" "dropWhile is_digit number = ''''"
    using names(3) digits_split [of number "''''"] by (simp_all add: pr_number_def)
  have url: "pq_url r = ''https://github.com/'' @ pq_owner r @ CHR ''/'' # pq_repo r @ CHR ''/'' # ''pull/'' @ number"
    unfolding number pull_url_def by simp
  have cut: "cut_at (CHR ''/'') (drop 19 (pq_url r)) = Some (pq_owner r, pq_repo r @ CHR ''/'' # ''pull/'' @ number)"
    unfolding url using cut_at_append [OF slash(1)] by simp
  have start: "starts_with ''https://github.com/'' (pq_url r)"
    unfolding url by (simp add: starts_with_def)
  show ?thesis
    unfolding parse_parts [OF start cut cut_at_append [OF slash(2)]] digits
    using names number by (cases r) (simp add: no_terminator_def)
qed

lemma names_pull_parsed:
  assumes "parseGitHubPullRequestUrl v = Some r"
  shows "names_pull v (requested_repository r) (pq_number r)" "names_pull (pq_url r) (requested_repository r) (pq_number r)"
proof -
  have "names_pull v (requested_repository r) (pq_number r)" if "parseGitHubPullRequestUrl v = Some r" for v
  proof -
    from that obtain number rest where "v = pull_url (pq_owner r) (pq_repo r) number @ rest"
      "CHR ''/'' \<notin> set (pq_owner r)" "CHR ''/'' \<notin> set (pq_repo r)" "pr_number number" "pq_number r = digits_value number"
      "rest = '''' \<or> \<not> is_digit (hd rest)"
      by (rule parse_url_Some)
    then show ?thesis
      unfolding names_pull_def requested_repository_def pull_url_def
      by (intro exI [of _ "pq_owner r"] exI [of _ "pq_repo r"] exI [of _ number] exI [of _ rest]) simp
  qed
  then show "names_pull v (requested_repository r) (pq_number r)" "names_pull (pq_url r) (requested_repository r) (pq_number r)"
    using assms parse_url_again by blast+
qed

text \<open>The remote that is selected is configured for the repository that is selected.\<close>

lemma achieves_repository:
  assumes "grows P"
  shows "achieves env cwd q P (githubRepositoryFromRemote (noting env) wd u)
    (\<lambda>r L. P L \<and> (truthy r \<longrightarrow> on_github env L wd u (the r)))"
proof -
  have url: "parseGitRemoteRepository (noting env) = parseGitRemoteRepository env"
  proof -
    have "xe_url (noting env) = xe_url env"
      by (simp add: noting_def)
    then show ?thesis
      unfolding parseGitRemoteRepository_def [abs_def] by (simp only: refl)
  qed
  have ret: "achieves env cwd q P (act_ret r :: (_, closeout_error, _) act) (\<lambda>r L. Q L \<and> (truthy r \<longrightarrow> on_github env L wd u (the r)))"
    if "\<And>L. P L \<Longrightarrow> Q L \<and> (truthy r \<longrightarrow> on_github env L wd u (the r))" for P Q and r :: "string option"
    by (rule achieves_post [OF achieves_ret]) (use that in auto)
  have none: "achieves env cwd q P (act_ret None :: (_, closeout_error, _) act) (\<lambda>r L. P L \<and> (truthy r \<longrightarrow> on_github env L wd u (the r)))"
    by (rule ret) (simp add: truthy_def)
  show ?thesis
  proof (cases "parseGitRemoteRepository env u")
    case None
    then show ?thesis
      by (simp add: githubRepositoryFromRemote_def url none)
  next
    case (Some r)
    have host: "achieves env cwd q P (act_ret (Some (rm_repository r)) :: (_, closeout_error, _) act) (\<lambda>r L. P L \<and> (truthy r \<longrightarrow> on_github env L wd u (the r)))"
      if "rm_host r = ''github.com''"
      by (rule ret) (use that in \<open>simp add: on_github_def Some\<close>)
    have through_ssh: "achieves env cwd q P
        (act_bind (run_command (noting env) ''ssh'' [''-G'', ''--'', rm_host r] wd False) (\<lambda>result.
          act_ret (if er_code result = 0 \<and> sshConfigHostname (er_stdout result) = Some ''github.com''
                   then Some (rm_repository r) else None)))
        (\<lambda>r L. P L \<and> (truthy r \<longrightarrow> on_github env L wd u (the r)))"
      if "rm_resolvesSshAlias r"
      apply (rule achieves_bind [OF achieves_run [OF assms asks_justified]])
        apply simp
       apply (rule ret)
       apply (use that in \<open>auto simp: on_github_def Some truthy_def\<close>)
      done
    show ?thesis
      using host through_ssh none by (simp add: githubRepositoryFromRemote_def url Some)
  qed
qed

definition candidate_of :: "'s exec_env \<Rightarrow> call set \<Rightarrow> string \<Rightarrow> remote_candidate \<Rightarrow> bool" where
  "candidate_of env L wd c \<longleftrightarrow>
     (\<exists>out. answered L wd [''remote'', ''get-url'', ''--all'', rc_name c] out \<and> set (rc_urls c) = set (nonempty_lines out)) \<and>
     (\<exists>u\<in>set (rc_urls c). on_github env L wd u (rc_repository c))"

lemma grows_candidate [grows_intros]: "grows (\<lambda>L. candidate_of env L wd c)"
  unfolding candidate_of_def by (intro grows_intros)

lemma achieves_urls:
  assumes "grows P" "set us \<subseteq> set urls"
    "\<And>L. P L \<Longrightarrow> \<exists>out. answered L wd [''remote'', ''get-url'', ''--all'', name] out \<and> set urls = set (nonempty_lines out)"
  shows "achieves env cwd q P (url_candidates (noting env) wd name urls us)
    (\<lambda>cs L. P L \<and> (\<forall>c\<in>set cs. rc_name c = name \<and> candidate_of env L wd c))"
  using assms
proof (induction us arbitrary: P)
  case Nil
  then show ?case
    by (auto intro!: achieves_post [OF achieves_ret])
next
  case (Cons u us)
  let ?P = "\<lambda>r L. P L \<and> (truthy r \<longrightarrow> on_github env L wd u (the r))"
  have rest: "achieves env cwd q (?P r) (url_candidates (noting env) wd name urls us)
      (\<lambda>cs L. ?P r L \<and> (\<forall>c\<in>set cs. rc_name c = name \<and> candidate_of env L wd c))" for r :: "string option"
    by (rule Cons.IH) (use Cons.prems in \<open>auto intro!: grows_intros\<close>)
  show ?case
    unfolding url_candidates.simps
    apply (rule achieves_bind [OF achieves_repository [OF Cons.prems(1)]])
     apply (rule achieves_bind [OF rest])
      apply (rule achieves_post [OF achieves_ret])
      apply (use Cons.prems in \<open>auto simp: candidate_of_def\<close>)
    done
qed

lemma set_fold_add [simp]: "set (fold set_add xs ys) = set xs \<union> set ys"
  by (induction xs arbitrary: ys) auto

lemma achieves_candidates:
  assumes "grows P"
  shows "achieves env cwd q P (remote_candidates (noting env) wd names)
    (\<lambda>cs L. P L \<and> (\<forall>c\<in>set cs. rc_name c \<in> set names \<and> candidate_of env L wd c))"
  using assms
proof (induction names arbitrary: P)
  case Nil
  then show ?case
    by (auto intro!: achieves_post [OF achieves_ret])
next
  case (Cons name names)
  let ?urls = "\<lambda>out. fold set_add (nonempty_lines out) []"
  let ?P = "\<lambda>out L. (P L \<and> answered L wd [''remote'', ''get-url'', ''--all'', name] out) \<and> ?urls out \<noteq> []"
  let ?Q = "\<lambda>out cs L. ?P out L \<and> (\<forall>c\<in>set cs. rc_name c = name \<and> candidate_of env L wd c)"
  have urls: "achieves env cwd q (?P out) (url_candidates (noting env) wd name (?urls out) (?urls out)) (?Q out)" for out
    by (rule achieves_urls) (use Cons.prems in \<open>auto intro!: grows_intros\<close>)
  have rest: "achieves env cwd q (?Q out cs) (remote_candidates (noting env) wd names)
      (\<lambda>ds L. ?Q out cs L \<and> (\<forall>c\<in>set ds. rc_name c \<in> set names \<and> candidate_of env L wd c))" for out cs
    by (rule Cons.IH) (intro grows_intros Cons.prems)
  show ?case
    unfolding remote_candidates.simps Let_def
    apply (rule achieves_bind [OF asking(1) [OF Cons.prems]], simp)
     apply (rule ensure_then)
      apply (rule achieves_bind [OF urls])
       apply (rule achieves_bind [OF rest])
        apply (rule achieves_post [OF achieves_ret])
        apply auto
    done
qed

lemma achieves_remote:
  assumes "grows P"
  shows "achieves env cwd q P (selectGitHubRemote (noting env) wd requested)
    (\<lambda>r L. P L \<and> configured env L wd (fst r) (snd r) \<and> (truthy requested \<longrightarrow> snd r = the requested))"
proof -
  let ?names = "\<lambda>out L. P L \<and> answered L wd [''remote''] out"
  let ?found = "\<lambda>out cs L. ?names out L \<and>
    (\<forall>c\<in>set cs. rc_name c \<in> set (nonempty_lines out) \<and> candidate_of env L wd c)"
  have candidates: "achieves env cwd q (?names out) (remote_candidates (noting env) wd (nonempty_lines out)) (?found out)" for out
    by (rule achieves_candidates) (intro grows_intros assms)
  have chosen: "configured env L wd (rc_name c) (rc_repository c)"
    if found: "?found out cs L" and c: "c \<in> set cs" and one: "length (rc_urls c) = 1" for out cs c L
  proof -
    obtain u where u: "rc_urls c = [u]"
      using one by (cases "rc_urls c") auto
    have c: "candidate_of env L wd c" "rc_name c \<in> set (nonempty_lines out)" "answered L wd [''remote''] out"
      using found c by auto
    then show ?thesis
      unfolding configured_def candidate_of_def u by auto
  qed
  have sorted: "hd (js_sort compare_remotes xs) \<in> set xs" if "xs \<noteq> []" for xs
    using that by (metis hd_in_set set_empty set_js_sort)
  let ?matches = "\<lambda>cs. if truthy requested then filter (\<lambda>c. rc_repository c = the requested) cs else cs"
  have last: "achieves env cwd q Q
      (act_ret (rc_name (hd (js_sort compare_remotes (?matches cs))), rc_repository (hd (js_sort compare_remotes (?matches cs)))))
      (\<lambda>r L. P L \<and> configured env L wd (fst r) (snd r) \<and> (truthy requested \<longrightarrow> snd r = the requested))"
    if "\<And>L. Q L \<Longrightarrow> ?found out cs L \<and> ?matches cs \<noteq> [] \<and> length (rc_urls (hd (js_sort compare_remotes (?matches cs)))) = 1"
    for out cs Q
  proof (rule achieves_post [OF achieves_ret], elim conjE, drule that, elim conjE, intro conjI impI)
    fix a L
    let ?c = "hd (js_sort compare_remotes (?matches cs))"
    assume a: "a = (rc_name ?c, rc_repository ?c)" and P: "P L" "answered L wd [''remote''] out"
      "\<forall>c\<in>set cs. rc_name c \<in> set (nonempty_lines out) \<and> candidate_of env L wd c"
      and m: "?matches cs \<noteq> []" "length (rc_urls ?c) = 1"
    have c: "?c \<in> set (?matches cs)"
      by (rule sorted [OF m(1)])
    then have in_cs: "?c \<in> set cs"
      by (simp split: if_splits)
    show "P L"
      by (rule P(1))
    show "configured env L wd (fst a) (snd a)"
      unfolding a fst_conv snd_conv by (rule chosen [OF _ in_cs m(2), where out = out]) (use P in blast)
    show "snd a = the requested" if "truthy requested"
      using c that by (simp add: a)
  qed
  show ?thesis
    unfolding selectGitHubRemote_def Let_def
    apply (rule achieves_bind [OF asking(1) [OF assms]], simp)
     apply (rule achieves_bind [OF candidates])
      apply (rule ensure_then)
       apply (rule ensure_then)
        apply (rule ensure_then)
         apply (rule achieves_bind [OF asking(2)], intro grows_intros assms, simp)
          apply (rule ensure_then)
           apply (rule last)
           apply blast
          apply simp_all
    done
qed

text \<open>What is resolved is a pull request that GitHub has shown.\<close>

definition requested_as :: "string option \<Rightarrow> string option \<Rightarrow> bool" where
  "requested_as raw requested \<longleftrightarrow>
     (case raw of None \<Rightarrow> requested = None
      | Some v \<Rightarrow> (\<exists>reference. requested = Some reference \<and> normalizePullRequestReference v = Inr reference))"

lemma grows_option [grows_intros]:
  "grows N \<Longrightarrow> (\<And>x. grows (S x)) \<Longrightarrow> grows (\<lambda>L. case v of None \<Rightarrow> N L | Some x \<Rightarrow> S x L)"
  by (cases v) simp_all

lemma achieves_raw:
  "achieves env cwd q P (case raw of None \<Rightarrow> act_ret None | Some v \<Rightarrow> act_lift (map_sum id Some (normalizePullRequestReference v)))
    (\<lambda>requested L. P L \<and> requested_as raw requested)"
  by (cases raw; cases "normalizePullRequestReference (the raw)")
    (auto simp: achieves_def act_ret_def act_lift_def requested_as_def logged_def)

lemma achieves_reference:
  assumes "grows P"
  shows "achieves env cwd q P (case requested of Some r \<Rightarrow> act_ret r | None \<Rightarrow> gitText (noting env) wd [''branch'', ''--show-current''])
    (\<lambda>reference L. P L \<and>
       (case requested of Some r \<Rightarrow> reference = r | None \<Rightarrow> answered L wd [''branch'', ''--show-current''] reference))"
  by (cases requested) (auto intro!: achieves_post [OF achieves_ret] asking(1) [OF assms])

lemma achieves_load:
  assumes "grows P"
  shows "achieves env cwd q P (loadPullRequest (noting env) wd reference repository)
    (\<lambda>pr L. P L \<and> (\<exists>r. (''gh'', view_args reference repository, wd, r) \<in> L \<and> er_code r = 0 \<and>
       decodePullRequest (er_stdout r) = Inr pr))"
proof -
  have "achieves env cwd q (\<lambda>L. P L \<and> (''gh'', view_args reference repository, wd, r) \<in> L \<and> (True \<longrightarrow> er_code r = 0))
      (act_lift (decodePullRequest (er_stdout r))) (\<lambda>pr L. P L \<and> (\<exists>r. (''gh'', view_args reference repository, wd, r) \<in> L \<and>
        er_code r = 0 \<and> decodePullRequest (er_stdout r) = Inr pr))" for r
    by (auto simp: achieves_def act_lift_def logged_def)
  then show ?thesis
    unfolding loadPullRequest_def
    by (intro achieves_bind [OF achieves_run [OF assms asks_justified]]) (simp_all add: view_args_def)
qed

lemma normalised_asked:
  assumes "requested_as (cr_pr q) requested" "requested_number requested = None \<or> requested_number requested = Some n"
    "truthy (map_option requested_repository (opt_bind requested parseGitHubPullRequestUrl)) \<longrightarrow>
       repository = the (map_option requested_repository (opt_bind requested parseGitHubPullRequestUrl))"
    "case requested of Some r \<Rightarrow> reference = r
     | None \<Rightarrow> answered L (lookup_directory env cwd q) [''branch'', ''--show-current''] reference"
    "reference \<noteq> ''''"
  shows "asked_for env cwd q L reference repository n"
proof (cases "cr_pr q")
  case None
  then show ?thesis
    using assms by (simp add: requested_as_def asked_for_def)
next
  case (Some v)
  then obtain ref where ref: "requested = Some ref" "normalizePullRequestReference v = Inr ref" "reference = ref"
    using assms(1,4) by (auto simp: requested_as_def)
  show ?thesis
  proof (cases "pr_number v")
    case True
    then have "list_all is_digit v" "ref = v"
      using ref(2) by (simp_all add: pr_number_def normalizePullRequestReference_def)
    moreover from this(1) have "parseGitHubPullRequestUrl v = None"
      by (auto simp: parseGitHubPullRequestUrl_def starts_with_iff is_digit_def)
    ultimately show ?thesis
      using True assms(2) ref(3) by (simp add: asked_for_def Some ref(1) requested_number_def opt_bind_def)
  next
    case False
    then obtain r where r: "parseGitHubPullRequestUrl v = Some r" "ref = pq_url r"
      using ref(2) by (auto simp: normalizePullRequestReference_def split: option.splits)
    have again: "opt_bind requested parseGitHubPullRequestUrl = Some r"
      using parse_url_again [OF r(1)] by (simp add: ref(1) r(2) opt_bind_def)
    have "requested_repository r \<noteq> ''''"
      by (simp add: requested_repository_def toLowerCase_def)
    then have "repository = requested_repository r" "n = pq_number r"
      using assms(2,3) unfolding again by (simp_all add: truthy_def requested_number_def again)
    then show ?thesis
      using names_pull_parsed [OF r(1)] by (simp add: asked_for_def Some ref(3) r(2))
  qed
qed

lemma achieves_resolve:
  "achieves env cwd q (\<lambda>_. True) (resolvePullRequest (noting env) (lookup_directory env cwd q) (cr_pr q))
    (\<lambda>rp L. shown env cwd q L (rp_root rp) (fst (rp_remote rp)) (snd (rp_remote rp)) (rp_pr rp))"
proof -
  let ?dir = "lookup_directory env cwd q"
  let ?url = "\<lambda>requested. map_option requested_repository (opt_bind requested parseGitHubPullRequestUrl)"
  let ?known = "\<lambda>requested topdir remote reference pr L.
    requested_as (cr_pr q) requested \<and> answered L ?dir [''rev-parse'', ''--show-toplevel''] topdir \<and>
    (configured env L topdir (fst remote) (snd remote) \<and> (truthy (?url requested) \<longrightarrow> snd remote = the (?url requested))) \<and>
    (case requested of Some r \<Rightarrow> reference = r | None \<Rightarrow> answered L ?dir [''branch'', ''--show-current''] reference) \<and>
    reference \<noteq> '''' \<and> (\<exists>r. (''gh'', view_args reference (snd remote), ?dir, r) \<in> L \<and> er_code r = 0 \<and>
       decodePullRequest (er_stdout r) = Inr pr)"
  have seen: "shown env cwd q L topdir (fst remote) (snd remote) pr"
    if k: "?known requested topdir remote reference pr L" and u: "parseGitHubPullRequestUrl (pr_url pr) = Some u"
      "requested_repository u = snd remote" "requested_number requested = None \<or> requested_number requested = Some (pq_number u)"
    for requested topdir remote reference pr u L
  proof -
    have "asked_for env cwd q L reference (snd remote) (pq_number u)"
      using k u(3) by (intro normalised_asked [of q requested]) simp_all
    moreover have "names_pull (pr_url pr) (snd remote) (pq_number u)"
      using names_pull_parsed(1) [OF u(1)] by (simp add: u(2))
    ultimately show ?thesis
      using k unfolding shown_def by blast
  qed
  have last: "achieves env cwd q Q
      (case parseGitHubPullRequestUrl (pr_url pr) of
         None \<Rightarrow> act_throw (closeoutFailure ''GitHub returned an invalid pull request URL.'')
       | Some url \<Rightarrow>
           act_bind (ensure (requested_repository url = snd remote)
             (''GitHub returned a pull request outside the selected repository '' @ snd remote @ ''.'')) (\<lambda>_.
           act_bind (ensure (requested_number requested = None \<or> requested_number requested = Some (pq_number url))
             (''GitHub returned a different pull request than requested ('' @ show_int (the (requested_number requested)) @ '').'')) (\<lambda>_.
           act_ret \<lparr>rp_pr = pr, rp_url = url, rp_root = topdir, rp_remote = remote\<rparr>)))
      (\<lambda>rp L. shown env cwd q L (rp_root rp) (fst (rp_remote rp)) (snd (rp_remote rp)) (rp_pr rp))"
    if Q: "\<And>L. Q L \<Longrightarrow> ?known requested topdir remote reference pr L" for requested topdir remote reference pr Q
  proof (cases "parseGitHubPullRequestUrl (pr_url pr)")
    case None
    then show ?thesis
      by (simp add: achieves_throw)
  next
    case (Some u)
    show ?thesis
      unfolding Some option.case
      apply (rule achieves_bind [OF achieves_ensure])
       apply (rule achieves_bind [OF achieves_ensure])
        apply (rule achieves_post [OF achieves_ret])
        apply (elim conjE, drule Q, hypsubst, simp only: resolved_pr.simps, rule seen [OF _ Some], assumption+)
       apply simp_all
      done
  qed
  show ?thesis
    unfolding resolvePullRequest_def
    apply (rule achieves_bind [OF achieves_raw])
     apply (rule achieves_bind [OF asking(1)], intro grows_intros, simp)
      apply (rule achieves_bind [OF achieves_remote], intro grows_intros)
       apply (rule achieves_bind [OF achieves_reference], intro grows_intros)
        apply (rule achieves_bind [OF achieves_ensure])
         apply (rule achieves_bind [OF achieves_load])
           apply (intro grows_intros)
          apply (rule last, blast)
         apply simp_all
    done
qed

lemma achieves_closable:
  "achieves env cwd q P (require_closable pr) (\<lambda>_ L. P L \<and> closable pr)"
  unfolding require_closable_def
  by (rule ensure_then, rule ensure_then, rule ensure_then, rule achieves_post [OF achieves_ensure]) (auto simp: closable_def)

lemma achieves_head_oid:
  assumes "grows P"
  shows "achieves env cwd q P (verifyLocalHead (noting env) wd branch oid) (\<lambda>_ L. P L \<and> answered L wd (head_args branch) oid)"
  unfolding verifyLocalHead_def
  by (rule achieves_bind [OF asking(1)], rule assms) (auto simp: head_args_def intro!: achieves_post [OF achieves_ensure])

lemma same_noting [simp]: "same_canonical (noting env) = same_canonical env" "path_inside (noting env) = path_inside env"
proof -
  have "canonicalPath (noting env) = canonicalPath env" "xe_relative (noting env) = xe_relative env"
    by (simp_all add: fun_eq_iff canonicalPath_def noting_def cong: option.case_cong)
  then show "same_canonical (noting env) = same_canonical env" "path_inside (noting env) = path_inside env"
    by (simp_all add: fun_eq_iff same_canonical_def path_inside_def)
qed

definition forwarded :: "call set \<Rightarrow> string \<Rightarrow> string \<Rightarrow> pull_request \<Rightarrow> bool" where
  "forwarded L wd remote pr \<longleftrightarrow>
     succeeded L wd (ancestor_args (base_ref pr) (remote_base_ref remote pr)) \<and>
     succeeded L wd (ancestor_args (the (pr_mergeCommit pr)) (remote_base_ref remote pr))"

lemma asks_ref [simp]: "asks ''git'' (show_ref_args r)" "asks ''git'' (ancestor_args a b)"
  by (simp_all add: show_ref_args_def ancestor_args_def)

lemma grows_forwarded [grows_intros]: "grows (\<lambda>L. forwarded L wd remote pr)"
  unfolding forwarded_def by (intro grows_intros)

lemma achieves_forwardable:
  assumes "grows P"
  shows "achieves env cwd q P (require_fast_forward (noting env) wd remote pr) (\<lambda>_ L. P L \<and> forwarded L wd remote pr)"
  unfolding require_fast_forward_def Let_def
  apply (rule achieves_bind [OF asking(3)], rule assms, simp)
   apply (rule achieves_bind [OF asking(3)], intro grows_intros assms, simp)
    apply (rule achieves_bind [OF asking(3)], intro grows_intros assms, simp)
     apply (rule achieves_post [OF asking(3)], intro grows_intros assms)
  by (auto simp: forwarded_def)

lemma achieves_forward:
  assumes "grows P"
    "\<And>L. P L \<Longrightarrow> known env cwd q topdir remote pr L \<and> worktree_on L topdir (pr_baseRefName pr) (we_path base) \<and>
       forwarded L (we_path base) (fst remote) pr"
  shows "achieves env cwd q P (fast_forward (noting env) (fst remote) pr base)
    (\<lambda>_ L. P L \<and> succeeded L (we_path base) (merge_args (fst remote) pr))"
proof -
  let ?wd = "we_path base"
  have j: "call_justified env cwd q L ''git'' (merge_args (fst remote) pr) ?wd"
    if "P L \<and> answered L ?wd [''branch'', ''--show-current''] (pr_baseRefName pr) \<and> answered L ?wd status_args ''''" for L
    using assms(2) [of L] that unfolding call_justified_def change_justified_def forwarded_def by blast
  have "achieves env cwd q P (act_bind (base_verified (noting env) pr base) (\<lambda>_.
      act_bind (run_command (noting env) ''git'' (merge_args (fst remote) pr) ?wd True) (\<lambda>_. act_ret ())))
    (\<lambda>_ L. P L \<and> succeeded L ?wd (merge_args (fst remote) pr))"
    unfolding base_verified_def
    apply (rule achieves_bind [OF achieves_verify [OF assms(1)]])
     apply (rule achieves_bind [OF achieves_run])
        apply (intro grows_intros assms(1))
       apply (erule j)
      apply (rule achieves_post [OF achieves_ret])
      apply (auto simp: succeeded_def)
    done
  then show ?thesis
    unfolding fast_forward_def by (intro achieves_map_error achieves_retry)
qed

text \<open>A change that is justified.\<close>

lemma change_step:
  assumes "grows P" "\<And>L. P L \<Longrightarrow> known env cwd q topdir remote pr L \<and> change_justified env cwd L args wd topdir remote pr"
  shows "achieves env cwd q P (act_bind (run_command (noting env) ''git'' args wd True) (\<lambda>_. act_ret ())) (\<lambda>_. P)"
proof -
  have "call_justified env cwd q L ''git'' args wd" if "P L" for L
    using assms(2) [OF that] unfolding call_justified_def by blast
  then show ?thesis
    by (intro achieves_bind [OF achieves_run [OF assms(1)]] achieves_post [OF achieves_ret]) simp_all
qed

lemma achieves_when:
  "achieves env cwd q P m (\<lambda>_ L. P L \<and> Q L) \<Longrightarrow> achieves env cwd q P (act_when b m) (\<lambda>_ L. P L \<and> (b \<longrightarrow> Q L))"
  by (auto simp: act_when_def intro!: achieves_post [OF achieves_ret])

lemma grows_head [grows_intros]: "(\<And>w. grows (Q w)) \<Longrightarrow> grows (\<lambda>L. \<forall>w. head = Some w \<longrightarrow> Q w L)"
  by (simp add: grows_def)

lemma grows_removable [grows_intros]: "grows (\<lambda>L. removable_worktree env cwd L topdir pr w)"
  unfolding removable_worktree_def by (intro grows_intros)

lemma achieves_on_head:
  assumes "\<And>w. head = Some w \<Longrightarrow> achieves env cwd q P (m w) (\<lambda>_ L. P L \<and> Q w L)"
  shows "achieves env cwd q P (on_head head m) (\<lambda>_ L. P L \<and> (\<forall>w. head = Some w \<longrightarrow> Q w L))"
  unfolding on_head_def by (cases head) (auto intro: assms achieves_post [OF achieves_ret])

lemma findWorktree_Some: "findWorktree ws b = Some w \<Longrightarrow> w \<in> set ws \<and> we_branch w = Some b"
  by (auto simp: findWorktree_def find_Some_iff)

lemma worktree_verified:
  assumes "listed L topdir ws" "findWorktree ws branch = Some w" "answered L (we_path w) [''branch'', ''--show-current''] branch"
    "answered L (we_path w) status_args ''''"
  shows "worktree_on L topdir branch (we_path w)"
  using assms findWorktree_Some unfolding worktree_on_def by blast

lemma achieves_removable:
  assumes "grows P" "\<And>L. P L \<Longrightarrow> listed L topdir worktrees" "findWorktree worktrees (pr_headRefName pr) = Some w"
  shows "achieves env cwd q P (require_removable (noting env) cwd pr worktrees w)
    (\<lambda>_ L. P L \<and> removable_worktree env cwd L topdir pr w)"
proof -
  have "removable_worktree env cwd L topdir pr w"
    if "P L" "worktrees = [] \<or> \<not> same_canonical env (we_path w) (we_path (hd worktrees))" "\<not> path_inside env (we_path w) cwd"
      "answered L (we_path w) [''branch'', ''--show-current''] (pr_headRefName pr)" "answered L (we_path w) status_args ''''" for L
    using that assms(2) worktree_verified [OF _ assms(3)] findWorktree_Some [OF assms(3)]
    unfolding removable_worktree_def by (metis empty_iff list.set(1))
  then show ?thesis
    unfolding require_removable_def head_verified_def
    by (intro ensure_then achieves_post [OF achieves_verify] grows_intros assms(1)) auto
qed

lemma achieves_base:
  assumes "grows P" "\<And>L. P L \<Longrightarrow> listed L topdir worktrees \<and> findWorktree worktrees (pr_baseRefName pr) = Some base"
  shows "achieves env cwd q P (base_verified (noting env) pr base)
    (\<lambda>_ L. P L \<and> worktree_on L topdir (pr_baseRefName pr) (we_path base))"
  unfolding base_verified_def
  by (rule achieves_post [OF achieves_verify [OF assms(1)]]) (use assms(2) worktree_verified in blast)

lemma safe_removals:
  assumes "grows P"
    "\<And>L. P L \<Longrightarrow> known env cwd q topdir remote pr L \<and> worktree_on L topdir (pr_baseRefName pr) wd \<and> integrated L wd (fst remote) pr"
    "\<And>L. P L \<Longrightarrow> local_head \<Longrightarrow> answered L wd (head_args (pr_headRefName pr)) (pr_headRefOid pr)"
    "\<And>L w. P L \<Longrightarrow> head = Some w \<Longrightarrow> local_head \<and> removable_worktree env cwd L topdir pr w"
  shows "safe env cwd q P
    (act_bind (gitText (noting env) wd [''rev-parse'', ''HEAD'']) (\<lambda>oid.
     act_bind (on_head head (\<lambda>w. act_bind (run_command (noting env) ''git'' (remove_args w) wd True) (\<lambda>_. act_ret ()))) (\<lambda>_.
     act_bind (act_when local_head (act_bind (run_command (noting env) ''git'' (delete_args pr) wd True) (\<lambda>_. act_ret ()))) (\<lambda>_.
     act_ret (result oid)))))"
proof -
  have remove: "achieves env cwd q P (on_head head (\<lambda>w. act_bind (run_command (noting env) ''git'' (remove_args w) wd True) (\<lambda>_. act_ret ())))
      (\<lambda>_. P)"
  proof (cases head)
    case (Some w)
    then have "known env cwd q topdir remote pr L \<and> change_justified env cwd L (remove_args w) wd topdir remote pr" if "P L" for L
      using assms(2-4) that unfolding change_justified_def by blast
    then show ?thesis
      using Some by (simp add: on_head_def change_step [OF assms(1), where pr = pr and remote = remote and topdir = topdir])
  qed (simp add: on_head_def achieves_post [OF achieves_ret])
  have delete: "achieves env cwd q P (act_when local_head (act_bind (run_command (noting env) ''git'' (delete_args pr) wd True) (\<lambda>_. act_ret ())))
      (\<lambda>_. P)"
  proof (cases local_head)
    case True
    then have "known env cwd q topdir remote pr L \<and> change_justified env cwd L (delete_args pr) wd topdir remote pr" if "P L" for L
      using assms(2,3) that unfolding change_justified_def by blast
    then show ?thesis
      using True by (simp add: act_when_def change_step [OF assms(1), where pr = pr and remote = remote and topdir = topdir])
  qed (simp add: act_when_def achieves_post [OF achieves_ret])
  have oid: "achieves env cwd q P (gitText (noting env) wd [''rev-parse'', ''HEAD'']) (\<lambda>_. P)"
    by (rule achieves_post [OF asking(1) [OF assms(1)]]) auto
  show ?thesis
    by (rule safe_bind [OF oid], rule safe_bind [OF remove], rule safe_bind [OF delete], rule safe_stays [OF stays_ret])
qed

lemma safe_locked:
  "safe env cwd q (known env cwd q (rp_root rp) (rp_remote rp) (rp_pr rp)) (closeout_locked (noting env) cwd rp)"
proof -
  let ?pr = "rp_pr rp" and ?top = "rp_root rp" and ?remote = "rp_remote rp"
  have fetched: "call_justified env cwd q L ''git'' (fetch_args ?remote) wd"
    if "known env cwd q ?top ?remote ?pr L \<and> worktree_on L ?top (pr_baseRefName ?pr) wd" for L wd
    using that unfolding call_justified_def change_justified_def by blast
  have listing: "achieves env cwd q (known env cwd q ?top ?remote ?pr) (gitText (noting env) ?top [''worktree'', ''list'', ''--porcelain''])
      (\<lambda>out L. known env cwd q ?top ?remote ?pr L \<and> listed L ?top (parseWorktreePorcelain out))"
    by (rule achieves_post [OF asking(1)]) (auto simp: listed_def intro: grows_intros)
  show ?thesis
    unfolding closeout_locked_def Let_def head_verified_def
    apply (rule safe_bind, rule listing)
    apply (rule safe_bind, rule achieves_ensure)
    apply (rule safe_bind, rule achieves_on_head, rule achieves_removable, intro grows_intros, blast, assumption)
    apply (rule safe_bind, rule achieves_base [where topdir = ?top], intro grows_intros, force)
    apply (rule safe_bind, rule asking(2), intro grows_intros, simp)
    apply (rule safe_bind, rule achieves_when, rule achieves_ensure)
    apply (rule safe_bind, rule achieves_when, rule achieves_head_oid, intro grows_intros)
    apply (rule safe_bind, rule achieves_run, intro grows_intros, rule fetched, blast)
    apply (rule safe_bind, rule achieves_forwardable, intro grows_intros)
    apply (rule safe_bind, rule achieves_on_head, rule achieves_verify, intro grows_intros)
    apply (rule safe_bind, rule achieves_when, rule achieves_head_oid, intro grows_intros)
    apply (rule safe_bind, rule achieves_forward [where topdir = ?top], intro grows_intros, blast)
    apply (rule safe_removals [where topdir = ?top and remote = ?remote], intro grows_intros)
      apply (unfold integrated_def forwarded_def)
      apply blast
     apply blast
    apply blast
    done
qed

lemma stays_lock: "stays (logged env cwd q P) (acquireCloseoutLock (noting env) dir)"
proof -
  have "stays (logged env cwd q P) (lock_attempt (noting env) dir)"
    by (auto simp: stays_def lock_attempt_def noting_def logged_def split: prod.split option.split)
  then have "stays (logged env cwd q P) (retry_act n again (lock_attempt (noting env) dir))" for n again
    by (induction n) (auto intro!: stays_intros)
  then show ?thesis
    unfolding acquireCloseoutLock_def by (intro stays_intros)
qed

lemma safe_finally_release: "safe env cwd q P m \<Longrightarrow> safe env cwd q P (act_finally m (release_lock (noting env) dir))"
  by (auto simp: safe_def act_finally_def release_lock_def noting_def split: prod.splits sum.splits)

text \<open>C5: 
  Whatever the commands answer and wherever it stops, a closeout runs, apart from commands that ask,
  only changes that the commands before them justify. All of them are about one pull request, which
  GitHub has shown to be merged when asked for it in one repository, whose URL names that repository and
  the number asked for, which is not from a fork and whose head is not protected; the repository is the one
  that the only fetch URL of a configured remote stands for, and each change is run in its clean worktree
  of the base branch, as git lists it. It fetches from that repository, merges only what is a fast-forward
  that holds the merge commit, and deletes the branch only at the commit that was merged and after that
  merge; the worktree it removes is listed on the head branch, not the primary one, not around the working
  directory, and clean.
\<close>

theorem closeout_changes_justified:
  "log_ok env cwd q (snd (snd (closeoutWorkflow (noting env) cwd q (s, []))))"
proof -
  have directory: "(if truthy (cr_repoPath q) then xe_resolve (noting env) cwd (the (cr_repoPath q)) else cwd) = lookup_directory env cwd q"
    by (simp add: lookup_directory_def truthy_def noting_def split: option.split)
  let ?seen = "\<lambda>rp L. shown env cwd q L (rp_root rp) (fst (rp_remote rp)) (snd (rp_remote rp)) (rp_pr rp)"
  let ?known = "\<lambda>rp. known env cwd q (rp_root rp) (rp_remote rp) (rp_pr rp)"
  have closable: "achieves env cwd q (?seen rp) (require_closable (rp_pr rp)) (\<lambda>_. ?known rp)" for rp
    by (rule achieves_post [OF achieves_closable]) (auto simp: known_def)
  have common: "achieves env cwd q (?known rp)
      (gitText (noting env) (rp_root rp) [''rev-parse'', ''--path-format=absolute'', ''--git-common-dir'']) (\<lambda>_. ?known rp)" for rp
    by (rule achieves_post [OF asking(1) [OF grows_known]]) auto
  have "safe env cwd q (\<lambda>_. True) (closeoutWorkflow (noting env) cwd q)"
    unfolding closeoutWorkflow_def directory
    by (rule safe_bind [OF achieves_resolve], rule safe_bind [OF closable], rule safe_bind [OF common],
        rule safe_bind [OF achieves_stays [OF stays_lock]], rule safe_finally_release, rule safe_locked)
  then show ?thesis
    unfolding safe_def logged_def by (metis log_ok.simps(1) prod.collapse snd_conv)
qed

section \<open>The lock\<close>

text \<open>
  A platform that also notes the lock that is held, and whether only the holder released it and every
  command that changes the repository ran with it.
\<close>

definition locking :: "'s exec_env \<Rightarrow> ('s \<times> string option \<times> bool) exec_env" where
  "locking env =
     \<lparr>xe_exec = (\<lambda>command args cwd x. case xe_exec env command args cwd (fst x) of
          (r, s) \<Rightarrow> (r, (s, fst (snd x), snd (snd x) \<and> (asks command args \<or> fst (snd x) \<noteq> None)))),
      xe_exists = (\<lambda>p x. xe_exists env p (fst x)), xe_realpath = xe_realpath env, xe_resolve = xe_resolve env,
      xe_relative = xe_relative env, xe_url = xe_url env,
      xe_lock = (\<lambda>dir x. case xe_lock env dir (fst x) of
          (None, s) \<Rightarrow> (None, (s, Some dir, snd (snd x) \<and> fst (snd x) = None)) | (Some b, s) \<Rightarrow> (Some b, (s, snd x))),
      xe_unlock = (\<lambda>dir x. (xe_unlock env dir (fst x), None, snd (snd x) \<and> fst (snd x) = Some dir))\<rparr>"

definition held :: "string option \<Rightarrow> 's \<times> string option \<times> bool \<Rightarrow> bool" where
  "held lock x \<longleftrightarrow> snd x = (lock, True)"

lemma run_locking:
  "stays Q (run_command env command args wd strict) \<longleftrightarrow>
     (\<forall>x. Q x \<longrightarrow> Q (snd (xe_exec env command args wd x)))"
proof -
  have "snd (run_command env command args wd strict x) = snd (xe_exec env command args wd x)" for x
    by (simp add: run_command_def act_bind_def act_map_error_def act_catch_def act_throw_def act_lift_def
        split: prod.split sum.split)
  then show ?thesis
    by (simp add: stays_def)
qed

lemma locking_asks: "asks_stay (locking env) (held lock)"
  by (auto simp: asks_stay_def run_locking locking_def held_def split: prod.split)

lemma locking_runs: "runs_stay (locking env) (held (Some dir))"
  by (auto simp: runs_stay_def run_locking locking_def held_def split: prod.split)

lemma stays_load [stays_intros]: "asks_stay env Q \<Longrightarrow> stays Q (loadPullRequest env wd requested repository)"
  unfolding loadPullRequest_def by (intro stays_intros) (simp_all add: view_args_def)

lemma stays_resolve: "asks_stay env Q \<Longrightarrow> stays Q (resolvePullRequest env wd raw)"
  unfolding resolvePullRequest_def by (auto intro!: stays_intros split: option.split)

lemma stays_retry [stays_intros]: "stays Q m \<Longrightarrow> stays Q (retry_act n again m)"
  by (induction n) (auto intro!: stays_intros)

lemma stays_when [stays_intros]: "stays Q m \<Longrightarrow> stays Q (act_when b m)"
  and stays_on_head [stays_intros]: "(\<And>w. stays Q (f w)) \<Longrightarrow> stays Q (on_head head f)"
  by (auto simp: act_when_def on_head_def intro: stays_intros split: option.split)

lemma stays_verify [stays_intros]: "asks_stay env Q \<Longrightarrow> stays Q (verifyWorktree env w b label)"
  unfolding verifyWorktree_def status_args_def by (intro stays_intros; simp)

lemma stays_any_run: "runs_stay env Q \<Longrightarrow> stays Q (run_command env command args wd strict)"
  by (simp add: runs_stay_def)

lemmas all_stay = stays_bind stays_ret stays_get stays_throw stays_ensure stays_when stays_on_head stays_retry stays_map_error stays_any_run

lemma stays_locked: "runs_stay env Q \<Longrightarrow> stays Q (closeout_locked env cwd rp)"
  unfolding closeout_locked_def Let_def base_verified_def head_verified_def require_removable_def fast_forward_def
    require_fast_forward_def must_exit_def verifyLocalHead_def gitText_def gitExit_def verifyWorktree_def
  by (intro all_stay)

lemma acquire_locking:
  "acquireCloseoutLock (locking env) dir x = (r, y) \<Longrightarrow> held None x \<Longrightarrow> held (case r of Inl _ \<Rightarrow> None | Inr _ \<Rightarrow> Some dir) y"
proof -
  let ?attempt = "lock_attempt (locking env) dir"
  have once: "held (case r of Inl _ \<Rightarrow> None | Inr _ \<Rightarrow> Some dir) y" if "?attempt x = (r, y)" "held None x" for x r y
    using that by (auto simp: lock_attempt_def locking_def held_def split: prod.splits option.splits)
  have retry: "held (case r of Inl _ \<Rightarrow> None | Inr _ \<Rightarrow> Some dir) y"
    if "retry_act n again ?attempt x = (r, y)" "held None x" for n again x r y
    using that
  proof (induction n arbitrary: x)
    case (Suc n)
    obtain r' y' where m: "?attempt x = (r', y')"
      by (meson surj_pair)
    show ?case
      using Suc.prems once [OF m Suc.prems(2)] m
      by (cases r') (auto simp: act_catch_def act_throw_def split: if_splits intro: Suc.IH)
  qed (simp add: once)
  show "acquireCloseoutLock (locking env) dir x = (r, y) \<Longrightarrow> held None x \<Longrightarrow> held (case r of Inl _ \<Rightarrow> None | Inr _ \<Rightarrow> Some dir) y"
    unfolding acquireCloseoutLock_def
    by (cases r) (auto simp: act_map_error_Inl act_map_error_Inr dest!: retry)
qed

text \<open>C33: 
  However a closeout ends, it holds no lock afterwards; it released only the lock it had taken, and no
  command that changes the repository ran without that lock.
\<close>

theorem closeout_lock_discipline:
  "snd (snd (closeoutWorkflow (locking env) cwd q (s, None, True))) = (None, True)"
proof -
  have under: "held None (snd (act_finally (closeout_locked (locking env) cwd rp) (release_lock (locking env) dir) x))"
    if x: "held (Some dir) x" for rp dir x
  proof -
    obtain r y where m: "closeout_locked (locking env) cwd rp x = (r, y)"
      by (meson surj_pair)
    have "held (Some dir) y"
      by (rule staysD [OF stays_locked [OF locking_runs] m x])
    then show ?thesis
      by (simp add: act_finally_def m release_lock_def) (simp add: locking_def held_def)
  qed
  have rest: "stays (held None) (act_bind (acquireCloseoutLock (locking env) dir)
      (\<lambda>_. act_finally (closeout_locked (locking env) cwd rp) (release_lock (locking env) dir)))" for rp dir
    unfolding stays_def act_bind_def
    by (clarsimp split: prod.split sum.split, intro conjI allI impI; drule (1) acquire_locking; auto intro!: under [where dir = dir])
  have closable: "stays (held None) (require_closable pr)" for pr
    unfolding require_closable_def by (intro stays_intros)
  have "stays (held None) (closeoutWorkflow (locking env) cwd q)"
    unfolding closeoutWorkflow_def
    by (rule stays_bind [OF stays_resolve [OF locking_asks]], rule stays_bind [OF closable],
        rule stays_bind [OF stays_ask_git(1) [OF locking_asks]], simp, rule rest)
  then have "held None (snd (closeoutWorkflow (locking env) cwd q (s, None, True)))"
    by (rule staysD [OF _ surjective_pairing]) (simp add: held_def)
  then show ?thesis
    by (simp add: held_def)
qed

section \<open>A closeout that succeeds\<close>

text \<open>
  A repository with its base branch in \<open>/base\<close> and the merged head branch in \<open>/work\<close>: what each command
  prints, and its code.
\<close>

definition sample_view :: string where
  "sample_view =
     ''{\"state\":\"MERGED\",\"mergedAt\":\"x\",\"mergeCommit\":{\"oid\":\"m1\"},\"url\":\"https://github.com/o/r/pull/7\",\"headRefName\":\"fix\",\"headRefOid\":\"h1\",\"baseRefName\":\"trunk\",\"isCrossRepository\":false}''"

definition sample_listing :: string where
  "sample_listing = join_with [CHR 0x0A]
     [''worktree /base'', ''HEAD b1'', ''branch refs/heads/trunk'', '''', ''worktree /work'', ''HEAD h1'', ''branch refs/heads/fix'', '''']"

definition sample_answer :: "string \<Rightarrow> string list \<Rightarrow> string \<Rightarrow> string" where
  "sample_answer command args cwd =
     (if command = ''gh'' then sample_view
      else if args = [''remote''] then ''origin''
      else if take 2 args = [''remote'', ''get-url''] then ''git@github.com:o/r.git''
      else if args = [''worktree'', ''list'', ''--porcelain''] then sample_listing
      else if args = [''branch'', ''--show-current''] then if cwd = ''/base'' then ''trunk'' else ''fix''
      else if args = head_args ''fix'' then ''h1''
      else if args = [''rev-parse'', ''HEAD''] then ''m1''
      else if hd args = ''rev-parse'' then ''/base''
      else '''')"

definition relative_below :: "string \<Rightarrow> string \<Rightarrow> string" where
  "relative_below a b =
     (if a = b then '''' else if starts_with (a @ ''/'') b then drop (length a + 1) b else ''../'' @ drop 1 b)"

definition sample_exec :: "unit exec_env" where
  "sample_exec =
     \<lparr>xe_exec = (\<lambda>command args cwd s.
        (Inr \<lparr>er_stdout = sample_answer command args cwd, er_stderr = '''', er_code = 0, er_killed = False\<rparr>, s)),
      xe_exists = (\<lambda>_ _. True), xe_realpath = Some, xe_resolve = (\<lambda>_ p. p), xe_relative = relative_below,
      xe_url = (\<lambda>_. None), xe_lock = (\<lambda>_ s. (None, s)), xe_unlock = (\<lambda>_ s. s)\<rparr>"

lemma sample_decoded: "decodePullRequest sample_view = Inr
    \<lparr>pr_state = ''MERGED'', pr_mergedAt = Some ''x'', pr_mergeCommit = Some ''m1'', pr_url = ''https://github.com/o/r/pull/7'',
      pr_headRefName = ''fix'', pr_headRefOid = ''h1'', pr_baseRefName = ''trunk'', pr_isCrossRepository = False\<rparr>"
  by code_simp

lemma closeout_succeeds:
  "case closeoutWorkflow (noting sample_exec) ''/base'' \<lparr>cr_pr = Some ''7'', cr_repoPath = None\<rparr> ((), []) of
     (r, _, es) \<Rightarrow>
       r = Inr \<lparr>co_prNumber = 7, co_prUrl = ''https://github.com/o/r/pull/7'', co_baseBranch = ''trunk'', co_baseOid = ''m1'',
             co_headBranch = ''fix'', co_removedWorktree = Some ''/work'', co_deletedBranch = True\<rparr> \<and>
       map (\<lambda>(_, args, _). args) (take 2 es) =
         [[''update-ref'', ''-d'', ''refs/heads/fix'', ''h1''], [''worktree'', ''remove'', ''/work'']]"
  by code_simp

text \<open>
  A directory may have a name that begins with two dots. The relative path to it then does too, so it
  counts as outside, and the worktree that contains it passes the check that protects the working
  directory.
\<close>

lemma dotted_directory_missed:
  "path_inside sample_exec ''/work'' ''/work/cache''" "\<not> path_inside sample_exec ''/work'' ''/work/..cache''"
  by code_simp+

end
