(* ===== verification/Framing.thy ===== *)
theory Framing
  imports Prelude
begin

text \<open>
  Readers of a stream that comes in chunks. A reader keeps what it has not used yet, appends each chunk
  to it and drains the result; the locale \<open>framing\<close> is what makes the messages it delivers independent
  of where the chunks were cut.
\<close>

fun feed :: "('b list \<Rightarrow> 'm list \<times> 'b list) \<Rightarrow> 'b list \<Rightarrow> 'b list list \<Rightarrow> 'm list \<times> 'b list" where
  "feed drain kept [] = ([], kept)"
| "feed drain kept (c # cs) =
     (case drain (kept @ c) of (ms, r) \<Rightarrow> (case feed drain r cs of (ms', r') \<Rightarrow> (ms @ ms', r')))"

locale framing =
  fixes drain :: "'b list \<Rightarrow> 'm list \<times> 'b list"
  assumes drain_Nil: "drain [] = ([], [])"
    and drain_append: "drain (x @ y) = (case drain x of (ms, r) \<Rightarrow> (case drain (r @ y) of (ms', r') \<Rightarrow> (ms @ ms', r')))"
begin

lemma drained_twice: "drain x = (ms, r) \<Longrightarrow> drain r = ([], r)"
  using drain_append [of x "[]"] by (cases "drain r") simp

lemma feed_kept: "drain kept = ([], kept) \<Longrightarrow> feed drain kept cs = drain (kept @ concat cs)"
proof (induction cs arbitrary: kept)
  case (Cons c cs)
  obtain ms r where d: "drain (kept @ c) = (ms, r)"
    by fastforce
  then show ?case
    using Cons.IH [OF drained_twice [OF d]] drain_append [of "kept @ c" "concat cs"] by simp
qed simp

lemma feed_concat: "feed drain [] cs = drain (concat cs)"
  by (simp add: feed_kept drain_Nil)

lemma same_stream: "concat cs = concat ds \<Longrightarrow> feed drain [] cs = feed drain [] ds"
  by (simp add: feed_concat)

end

end
