(* ===== verification/Lsp_Transport.thy ===== *)
theory Lsp_Transport
  imports Framing Js_Strings Json
begin

text \<open>
  The frames between the tools and a language server (\<open>extensions/dev-tools/lsp-transport.ts\<close>): a header
  with the length of the body, an empty line and the body. Buffers are lists of bytes; how a buffer
  reads as UTF-8 (\<open>utf8\<close>) and how a number prints (\<open>num\<close>) are parameters.
\<close>

definition crlf :: string where "crlf = [CHR 0x0D, CHR 0x0A]"

definition HEADER_SEPARATOR :: "nat list" where "HEADER_SEPARATOR = [13, 10, 13, 10]"

definition frame_header :: "nat \<Rightarrow> string" where
  "frame_header n = ''Content-Length: '' @ show_nat n"

definition ascii_bytes :: "string \<Rightarrow> nat list" where "ascii_bytes s = map of_char s"

definition serializeMessage :: "(jsnumber \<Rightarrow> string) \<Rightarrow> jsval \<Rightarrow> nat list" where
  "serializeMessage num msg =
     (let body = stringify num msg in ascii_bytes (frame_header (byte_length body) @ crlf @ crlf) @ utf8_encode body)"

text \<open>\<open>split("\r\n")\<close>, \<open>toString("ascii")\<close> and \<open>parseInt(s, 10)\<close> with \<open>None\<close> for \<open>NaN\<close>.\<close>

fun split_crlf :: "string \<Rightarrow> string \<Rightarrow> string list" where
  "split_crlf acc [] = [acc]"
| "split_crlf acc [c] = [acc @ [c]]"
| "split_crlf acc (c # d # cs) = (if [c, d] = crlf then acc # split_crlf [] cs else split_crlf (acc @ [c]) (d # cs))"

definition ascii_text :: "nat list \<Rightarrow> string" where "ascii_text bs = map (\<lambda>b. char_of (b mod 128)) bs"

definition parse_int :: "string \<Rightarrow> int option" where
  "parse_int s =
     (let t = dropWhile is_js_space s;
          ds = takeWhile is_digit (if t \<noteq> [] \<and> hd t \<in> {CHR ''-'', CHR ''+''} then tl t else t)
      in if ds = [] then None else Some (if hd t = CHR ''-'' then - digits_value ds else digits_value ds))"

fun content_length_line :: "string list \<Rightarrow> int option" where
  "content_length_line [] = None"
| "content_length_line (l # ls) =
     (if \<not> starts_with ''content-length:'' (toLowerCase l) then content_length_line ls
      else case parse_int (trim_string (drop 15 l)) of None \<Rightarrow> None | Some v \<Rightarrow> if v < 0 then None else Some v)"

definition parseContentLength :: "string \<Rightarrow> int option" where
  "parseContentLength header = content_length_line (split_crlf [] header)"

text \<open>A body that is no JSON, or that the receiver throws on, is dropped.\<close>

definition frame_message :: "(nat list \<Rightarrow> string) \<Rightarrow> nat list \<Rightarrow> jsval list" where
  "frame_message utf8 body = (case parse_json (utf8 body) of Some v \<Rightarrow> [v] | None \<Rightarrow> [])"

lemma separator_shortens: "index_of HEADER_SEPARATOR buf = Some e \<Longrightarrow> e + 4 \<le> length buf"
  by (drule index_of_Some) (auto simp: HEADER_SEPARATOR_def)

function drain :: "(nat list \<Rightarrow> string) \<Rightarrow> nat list \<Rightarrow> jsval list \<times> nat list" where
  "drain utf8 buf =
     (case index_of HEADER_SEPARATOR buf of
        None \<Rightarrow> ([], buf)
      | Some e \<Rightarrow>
          (case parseContentLength (ascii_text (take e buf)) of
             None \<Rightarrow> drain utf8 (drop (e + 4) buf)
           | Some n \<Rightarrow>
               if int (length buf) < int (e + 4) + n then ([], buf)
               else
                 (case drain utf8 (drop (e + 4 + nat n) buf) of
                    (ms, r) \<Rightarrow> (frame_message utf8 (take (nat n) (drop (e + 4) buf)) @ ms, r))))"
  by pat_completeness auto
termination
  by (relation "measure (\<lambda>(_, buf). length buf)") (auto dest!: separator_shortens)

declare drain.simps [simp del]

text \<open>One call of \<open>push\<close>: the messages it delivers and the buffer it keeps.\<close>

definition push :: "(nat list \<Rightarrow> string) \<Rightarrow> nat list \<Rightarrow> nat list \<Rightarrow> jsval list \<times> nat list" where
  "push utf8 buf chunk = drain utf8 (buf @ chunk)"

section \<open>Chunks\<close>

lemma index_of_append: "index_of p x = Some i \<Longrightarrow> index_of p (x @ y) = Some i"
proof (induction p x arbitrary: i rule: index_of.induct)
  case (1 p)
  then show ?case
    by (cases y) (auto simp: starts_with_def split: if_splits)
next
  case (2 p c cs)
  have len: "length p \<le> length (c # cs)"
    using index_of_Some [OF 2(2)] by auto
  have same: "starts_with p ((c # cs) @ y) = starts_with p (c # cs)"
    using len by (simp only: starts_with_def take_append) simp
  show ?case
    using 2 same by (auto split: if_splits)
qed

lemma drain_cases:
  "index_of HEADER_SEPARATOR x = None \<Longrightarrow> drain utf8 x = ([], x)"
  "index_of HEADER_SEPARATOR x = Some e \<Longrightarrow> parseContentLength (ascii_text (take e x)) = None \<Longrightarrow>
    drain utf8 x = drain utf8 (drop (e + 4) x)"
  "index_of HEADER_SEPARATOR x = Some e \<Longrightarrow> parseContentLength (ascii_text (take e x)) = Some n \<Longrightarrow>
    drain utf8 x = (if int (length x) < int (e + 4) + n then ([], x)
      else (case drain utf8 (drop (e + 4 + nat n) x) of
        (ms, r) \<Rightarrow> (frame_message utf8 (take (nat n) (drop (e + 4) x)) @ ms, r)))"
  by (subst drain.simps, simp)+

lemma content_length_nonneg: "content_length_line ls = Some n \<Longrightarrow> 0 \<le> n"
  by (induction ls) (auto split: if_splits option.splits)

lemma drain_append:
  "drain utf8 (x @ y) = (case drain utf8 x of (ms, r) \<Rightarrow> (case drain utf8 (r @ y) of (ms', r') \<Rightarrow> (ms @ ms', r')))"
proof (induction utf8 x rule: drain.induct)
  case (1 utf8 x)
  show ?case
  proof (cases "index_of HEADER_SEPARATOR x")
    case None
    then show ?thesis
      by (simp add: drain_cases)
  next
    case (Some e)
    have e: "e + 4 \<le> length x"
      by (rule separator_shortens [OF Some])
    have xy: "index_of HEADER_SEPARATOR (x @ y) = Some e" "take e (x @ y) = take e x" "drop (e + 4) (x @ y) = drop (e + 4) x @ y"
      using e by (simp_all add: index_of_append [OF Some])
    show ?thesis
    proof (cases "parseContentLength (ascii_text (take e x))")
      case None
      have "drain utf8 (x @ y) = drain utf8 (drop (e + 4) x @ y)"
        using drain_cases(2) [OF xy(1), of utf8] None unfolding xy(2,3) by blast
      then show ?thesis
        using 1(1) [OF Some None] drain_cases(2) [OF Some None, of utf8] by simp
    next
      case n: (Some n)
      then have "0 \<le> n"
        by (simp add: parseContentLength_def content_length_nonneg)
      show ?thesis
      proof (cases "int (length x) < int (e + 4) + n")
        case True
        then show ?thesis
          using Some n by (simp add: drain_cases(3))
      next
        case False
        then have fits: "e + 4 + nat n \<le> length x"
          using \<open>0 \<le> n\<close> by linarith
        have more: "drop (e + 4 + nat n) (x @ y) = drop (e + 4 + nat n) x @ y"
          "take (nat n) (drop (e + 4) (x @ y)) = take (nat n) (drop (e + 4) x)" "\<not> int (length (x @ y)) < int (e + 4) + n"
          using fits False by auto
        have "drain utf8 (x @ y) = (case drain utf8 (drop (e + 4 + nat n) x @ y) of
            (ms, r) \<Rightarrow> (frame_message utf8 (take (nat n) (drop (e + 4) x)) @ ms, r))"
          using drain_cases(3) [OF xy(1), of n utf8] n unfolding xy(2) more(1,2) if_not_P [OF more(3)] by blast
        then show ?thesis
          using 1(2) [OF Some n False] drain_cases(3) [OF Some n, of utf8] False by (simp split: prod.split)
      qed
    qed
  qed
qed

interpretation lsp: framing "drain utf8" for utf8
proof
  show "drain utf8 [] = ([], [])"
    by (simp add: drain_cases HEADER_SEPARATOR_def)
  show "drain utf8 (x @ y) = (case drain utf8 x of (ms, r) \<Rightarrow> (case drain utf8 (r @ y) of (ms', r') \<Rightarrow> (ms @ ms', r')))" for x y
    by (rule drain_append)
qed

section \<open>Frames\<close>

lemma separator_first: "c \<notin> set h \<Longrightarrow> index_of (c # p) (h @ (c # p) @ t) = Some (length h)"
proof (induction h)
  case Nil
  have "starts_with (c # p) ((c # p) @ t)"
    by (auto simp: starts_with_iff)
  then show ?case
    by (simp add: starts_with_def)
next
  case (Cons d h)
  then show ?case
    by (auto simp: starts_with_def)
qed

lemma ascii_text_bytes: "list_all (\<lambda>c. (of_char c :: nat) < 128) s \<Longrightarrow> ascii_text (ascii_bytes s) = s"
  by (induction s) (simp_all add: ascii_text_def ascii_bytes_def)

lemma digit_small: "is_digit c \<Longrightarrow> (of_char c :: nat) < 128 \<and> c \<noteq> CHR 0x0D \<and> \<not> is_js_space c \<and> c \<noteq> CHR ''-'' \<and> c \<noteq> CHR ''+''"
  by (auto simp: is_digit_def is_js_space_def)

lemma header_small: "list_all (\<lambda>c. (of_char c :: nat) < 128 \<and> c \<noteq> CHR 0x0D) (frame_header n)"
  using show_nat_digits [of n] digit_small by (auto simp: frame_header_def list_all_iff)

lemma header_split_plain: "CHR 0x0D \<notin> set s \<Longrightarrow> split_crlf acc s = [acc @ s]"
  by (induction acc s rule: split_crlf.induct) (auto simp: crlf_def)

lemma trim_digits: "list_all (\<lambda>c. \<not> is_js_space c) s \<Longrightarrow> trim_string (CHR '' '' # s) = s"
proof -
  assume s: "list_all (\<lambda>c. \<not> is_js_space c) s"
  have keep: "dropWhile is_js_space t = t" if "set t = set s" for t
    using s that by (cases t) (auto simp: list_all_iff)
  have "is_js_space (CHR '' '')"
    by (simp add: is_js_space_def)
  then show ?thesis
    by (simp add: trim_string_def keep)
qed

lemma parse_int_show: "parse_int (show_nat n) = Some (int n)"
proof -
  have d: "\<forall>c\<in>set (show_nat n). is_digit c"
    by (rule show_nat_digits)
  have tw: "takeWhile is_digit (show_nat n) = show_nat n"
    using d by (simp add: takeWhile_eq_all_conv)
  have "is_digit (hd (show_nat n))"
    using d by (cases "show_nat n") simp_all
  moreover have "dropWhile is_js_space (show_nat n) = show_nat n"
    using d digit_small by (cases "show_nat n") auto
  ultimately show ?thesis
    using digit_small [of "hd (show_nat n)"] by (simp add: parse_int_def Let_def digits_value_show_nat tw)
qed

lemma parse_header: "parseContentLength (frame_header n) = Some (int n)"
proof -
  have cr: "CHR 0x0D \<notin> set (frame_header n)"
    using header_small [of n] by (auto simp: list_all_iff)
  have "toLowerCase ''Content-Length: '' = ''content-length: ''"
    by code_simp
  then have "starts_with ''content-length:'' (toLowerCase (frame_header n))"
    by (simp add: frame_header_def toLowerCase_def starts_with_def)
  moreover have "list_all (\<lambda>c. \<not> is_js_space c) (show_nat n)"
    using show_nat_digits [of n] digit_small by (auto simp: list_all_iff)
  then have "trim_string (drop 15 (frame_header n)) = show_nat n"
    by (simp add: frame_header_def trim_digits)
  ultimately show ?thesis
    by (simp add: parseContentLength_def header_split_plain [OF cr] parse_int_show)
qed

lemma char_13: "(of_char c :: nat) = 13 \<longleftrightarrow> c = CHR 0x0D"
  using of_char_eq_iff [of c "CHR 0x0D", where 'a = nat] by simp

definition frame_of :: "string \<Rightarrow> nat list" where
  "frame_of body = ascii_bytes (frame_header (byte_length body) @ crlf @ crlf) @ utf8_encode body"

lemma drain_frame_of:
  assumes "drain utf8 rest = (ms, r)"
  shows "drain utf8 (frame_of body @ rest) = (frame_message utf8 (utf8_encode body) @ ms, r)"
proof -
  let ?body = "utf8_encode body" and ?h = "ascii_bytes (frame_header (byte_length body))"
  let ?all = "?h @ HEADER_SEPARATOR @ ?body @ rest"
  have split: "frame_of body @ rest = ?all"
    by (simp add: frame_of_def ascii_bytes_def crlf_def HEADER_SEPARATOR_def)
  have "13 \<notin> set ?h"
    using header_small [of "byte_length body"] char_13 unfolding ascii_bytes_def list_all_iff set_map image_iff by metis
  then have i: "index_of HEADER_SEPARATOR ?all = Some (length ?h)"
    unfolding HEADER_SEPARATOR_def by (rule separator_first)
  have "ascii_text ?h = frame_header (byte_length body)"
    using header_small [of "byte_length body"] by (intro ascii_text_bytes) (auto simp: list_all_iff)
  then have c: "parseContentLength (ascii_text (take (length ?h) ?all)) = Some (int (length ?body))"
    by (simp add: parse_header length_utf8)
  have sep: "length HEADER_SEPARATOR = 4"
    by (simp add: HEADER_SEPARATOR_def)
  have "drop (length ?h + 4) ?all = ?body @ rest" "drop (length ?h + 4 + length ?body) ?all = rest"
    using sep by simp_all
  moreover have "\<not> int (length ?all) < int (length ?h + 4) + int (length ?body)"
    using sep by simp
  ultimately show ?thesis
    unfolding split drain_cases(3) [OF i c] by (simp add: assms)
qed

lemma serialize_frame: "serializeMessage num v = frame_of (stringify num v)"
  by (simp add: serializeMessage_def frame_of_def Let_def)

text \<open>A body that is no JSON is skipped; what follows it is read as if it had not been there.\<close>

lemma malformed_frame_skipped:
  assumes "parse_json (utf8 (utf8_encode body)) = None"
  shows "drain utf8 (frame_of body @ rest) = drain utf8 rest"
  using drain_frame_of [of utf8 rest _ _ body] assms by (cases "drain utf8 rest") (simp add: frame_message_def)

text \<open>C37: 
  However the bytes of a sequence of messages are cut into chunks, the reader delivers exactly these
  messages in their order and keeps nothing.
\<close>

theorem frames_read_back:
  assumes "\<And>s. utf8 (utf8_encode s) = s" "plain_numbers num" "list_all plain_json msgs"
    and "concat chunks = concat (map (serializeMessage num) msgs)"
  shows "feed (drain utf8) [] chunks = (msgs, [])"
proof -
  have "drain utf8 (concat (map (serializeMessage num) msgs)) = (msgs, [])"
    using assms(3)
  proof (induction msgs)
    case (Cons v vs)
    then show ?case
      using drain_frame_of [of utf8 "concat (map (serializeMessage num) vs)" vs "[]" "stringify num v"]
      by (simp add: serialize_frame [of num v] frame_message_def assms(1) parse_stringify [OF assms(2)])
  qed (simp add: lsp.drain_Nil)
  then show ?thesis
    by (simp add: lsp.feed_concat assms(4))
qed

text \<open>Two messages whose bytes come in two chunks, cut inside the first header.\<close>

definition sample_utf8 :: "nat list \<Rightarrow> string" where
  "sample_utf8 bs = (case utf8_decode bs of Some s \<Rightarrow> s | None \<Rightarrow> '''')"

definition sample_num :: "jsnumber \<Rightarrow> string" where "sample_num n = show_int (js_int n)"

definition sample_bytes :: "nat list" where
  "sample_bytes = concat (map (serializeMessage sample_num) [JObj [(''id'', js_num 1)], JObj [(''method'', JStr ''exit'')]])"

theorem frames_read_back_witness:
  "feed (drain sample_utf8) [] [take 5 sample_bytes, drop 5 sample_bytes] =
     ([JObj [(''id'', js_num 1)], JObj [(''method'', JStr ''exit'')]], [])"
proof (rule frames_read_back [where num = sample_num])
  show "sample_utf8 (utf8_encode s) = s" for s
    by (simp add: sample_utf8_def utf8_roundtrip)
  show "plain_numbers sample_num"
    by (simp add: plain_numbers_def sample_num_def)
  have "\<bar>1\<bar> < safe_limit"
    by (simp add: safe_limit_def)
  then show "list_all plain_json [JObj [(''id'', js_num 1)], JObj [(''method'', JStr ''exit'')]]"
    by (auto simp: js_num_def)
  show "concat [take 5 sample_bytes, drop 5 sample_bytes] = concat (map (serializeMessage sample_num)
      [JObj [(''id'', js_num 1)], JObj [(''method'', JStr ''exit'')]])"
    by (simp only: sample_bytes_def concat.simps append_Nil2 append_take_drop_id)
qed

end
