(* ===== verification/Lsp_Backend.thy ===== *)
theory Lsp_Backend
  imports Js_Strings
begin

text \<open>
  The life of one language server (\<open>extensions/dev-tools/backend.ts\<close>): starting it on demand, the requests
  that wait for an answer, its end by failure or shutdown. What the server and the process host do are
  events; code between two of them is one step. A \<open>Deferred\<close> is a number into the list of outcomes,
  a process bears the number of the scope that owns it, and the caches of documents and diagnostics are a
  parameter.
\<close>

section \<open>State\<close>

datatype backend_error_kind =
  Unavailable_error | ShuttingDown_error | Lookup_error | Startup_error | Cancelled_error | Initialize_error |
  Request_error | ProcessExit_error | Shutdown_error | Document_error

record backend_error =
  er_kind :: backend_error_kind
  er_message :: string

definition backendError :: "backend_error_kind \<Rightarrow> string \<Rightarrow> backend_error" where
  "backendError kind message = \<lparr>er_kind = kind, er_message = message\<rparr>"

definition backendErrorFromCause :: "backend_error_kind \<Rightarrow> string \<Rightarrow> string \<Rightarrow> backend_error" where
  "backendErrorFromCause kind prefix detail = backendError kind (take 4000 (prefix @ '': '' @ detail))"

record lsp_message =
  lm_id :: "nat option"
  lm_method :: "string option"
  lm_params :: jsval
  lm_error :: "(string \<times> string) option"
  lm_result :: jsval

datatype outcome = Settled | Answered lsp_message | Failed backend_error

record resource =
  rs_scope :: "nat option"
  rs_process :: "nat option"
  rs_listeners :: bool
  rs_stderr :: string

definition emptyResource :: resource where
  "emptyResource = \<lparr>rs_scope = None, rs_process = None, rs_listeners = False, rs_stderr = ''''\<rparr>"

datatype lifecycle =
  Idle nat
| Unavailable nat string
| Starting nat nat resource
| Running nat resource
| Stopping nat nat resource "nat option"

record pending =
  pd_deferred :: nat
  pd_generation :: nat

record backend_config =
  cf_name :: string
  cf_binaryName :: string
  cf_launchCommand :: string
  cf_extension :: "string option"
  cf_dash :: string
  cf_initialize :: "string option \<Rightarrow> jsval"

record 'c backend =
  be_lifecycle :: lifecycle
  be_nextId :: nat
  be_pending :: "(nat, pending) jsmap"
  be_root :: "string option"
  be_semantic :: bool
  be_lastRequest :: "(string \<times> nat) option"
  be_startupFailure :: "string option"
  be_semanticFailure :: "(string \<times> string) option"
  be_caches :: 'c
  be_deferreds :: "outcome option list"
  be_scopes :: nat
  be_open :: "nat list"
  be_sent :: "(nat \<times> jsval) list"
  be_destroyed :: "nat list"

text \<open>What the caches do: \<open>resetCaches\<close>, and the diagnostics a server publishes.\<close>

record 'c cache_ops =
  co_reset :: "'c \<Rightarrow> 'c"
  co_publish :: "jsval \<Rightarrow> 'c \<Rightarrow> 'c"

definition initial_backend :: "'c \<Rightarrow> 'c backend" where
  "initial_backend c =
     \<lparr>be_lifecycle = Idle 0, be_nextId = 1, be_pending = [], be_root = None, be_semantic = False, be_lastRequest = None,
      be_startupFailure = None, be_semanticFailure = None, be_caches = c, be_deferreds = [], be_scopes = 0, be_open = [],
      be_sent = [], be_destroyed = []\<rparr>"

section \<open>Deferreds and pending requests\<close>

definition new_deferred :: "'c backend \<Rightarrow> nat \<times> 'c backend" where
  "new_deferred b = (length (be_deferreds b), b\<lparr>be_deferreds := be_deferreds b @ [None]\<rparr>)"

definition settle :: "nat \<Rightarrow> outcome \<Rightarrow> 'c backend \<Rightarrow> 'c backend" where
  "settle d r b =
     (if d < length (be_deferreds b) \<and> be_deferreds b ! d = None then b\<lparr>be_deferreds := (be_deferreds b)[d := Some r]\<rparr> else b)"

definition addPending :: "nat \<Rightarrow> nat \<Rightarrow> nat \<Rightarrow> 'c backend \<Rightarrow> 'c backend" where
  "addPending i d generation b =
     b\<lparr>be_pending := jm_set i \<lparr>pd_deferred = d, pd_generation = generation\<rparr> (be_pending b)\<rparr>"

definition takePending :: "nat \<Rightarrow> nat option \<Rightarrow> 'c backend \<Rightarrow> pending option \<times> 'c backend" where
  "takePending i generation b =
     (case jm_get (be_pending b) i of
        None \<Rightarrow> (None, b)
      | Some p \<Rightarrow>
          if generation \<noteq> None \<and> generation \<noteq> Some (pd_generation p) then (None, b)
          else (Some p, b\<lparr>be_pending := jm_delete i (be_pending b)\<rparr>))"

definition completePending :: "nat \<Rightarrow> nat option \<Rightarrow> outcome \<Rightarrow> 'c backend \<Rightarrow> 'c backend" where
  "completePending i generation r b =
     (case takePending i generation b of (None, b) \<Rightarrow> b | (Some p, b) \<Rightarrow> settle (pd_deferred p) r b)"

definition failAllPending :: "backend_error \<Rightarrow> nat option \<Rightarrow> 'c backend \<Rightarrow> 'c backend" where
  "failAllPending e generation b =
     fold (\<lambda>(i, p) b. if generation \<noteq> None \<and> generation \<noteq> Some (pd_generation p) then b
         else settle (pd_deferred p) (Failed e) (b\<lparr>be_pending := jm_delete i (be_pending b)\<rparr>))
       (be_pending b) b"

section \<open>Talking to the server\<close>

definition live :: "lifecycle \<Rightarrow> (nat \<times> resource) option" where
  "live l = (case l of Starting g _ r \<Rightarrow> Some (g, r) | Running g r \<Rightarrow> Some (g, r) | _ \<Rightarrow> None)"

definition sendLsp :: "jsval \<Rightarrow> nat option \<Rightarrow> 'c backend \<Rightarrow> 'c backend" where
  "sendLsp message generation b =
     (case live (be_lifecycle b) of
        None \<Rightarrow> b
      | Some (g, r) \<Rightarrow>
          if generation \<noteq> None \<and> generation \<noteq> Some g then b
          else (case rs_process r of
              None \<Rightarrow> b
            | Some p \<Rightarrow> if p \<in> set (be_destroyed b) then b else b\<lparr>be_sent := be_sent b @ [(p, message)]\<rparr>))"

definition request_message :: "nat \<Rightarrow> string \<Rightarrow> jsval \<Rightarrow> jsval" where
  "request_message i method params =
     JObj [(''jsonrpc'', JStr ''2.0''), (''id'', JNum (Finite (of_nat i))), (''method'', JStr method), (''params'', params)]"

definition notification :: "string \<Rightarrow> jsval \<Rightarrow> jsval" where
  "notification method params = JObj [(''jsonrpc'', JStr ''2.0''), (''method'', JStr method), (''params'', params)]"

definition compactStatusDetail :: "string \<Rightarrow> string" where
  "compactStatusDetail v =
     (let normalized = join_with '' '' (js_words v)
      in if length normalized \<le> 256 then normalized else take 253 normalized @ ''...'')"

definition recordSemanticResult :: "string \<Rightarrow> nat \<Rightarrow> 'c backend \<Rightarrow> 'c backend" where
  "recordSemanticResult method itemCount b =
     b\<lparr>be_semantic := True, be_semanticFailure := None, be_lastRequest := Some (method, itemCount)\<rparr>"

definition recordSemanticFailure :: "string \<Rightarrow> string \<Rightarrow> 'c backend \<Rightarrow> 'c backend" where
  "recordSemanticFailure method detail b =
     b\<lparr>be_semantic := False, be_semanticFailure := Some (method, compactStatusDetail detail), be_lastRequest := Some (method, 0)\<rparr>"

definition resetSemanticState :: "'c backend \<Rightarrow> 'c backend" where
  "resetSemanticState b = b\<lparr>be_semantic := False, be_lastRequest := None, be_semanticFailure := None\<rparr>"

definition resetCaches :: "'c cache_ops \<Rightarrow> 'c backend \<Rightarrow> 'c backend" where
  "resetCaches ops b = b\<lparr>be_caches := co_reset ops (be_caches b)\<rparr>"

section \<open>Starting\<close>

text \<open>Code that waits: for a lookup, a process, an answer, the end of a scope, or a request.\<close>

record cleanup =
  cl_resource :: resource
  cl_stopping :: "(nat \<times> nat \<times> string option) option"
  cl_reset :: bool

datatype fiber =
  Start_lookup nat nat
| Start_spawn nat nat resource
| Start_init nat nat resource nat
| Cleanup cleanup
| Request string nat

text \<open>\<open>cl_stopping\<close> is the \<open>done\<close> and generation a clean-up announces, and why the server is unavailable.\<close>

definition cancelled :: "backend_config \<Rightarrow> backend_error" where
  "cancelled cfg = backendError Cancelled_error (cf_name cfg @ '' LSP startup cancelled'')"

definition is_starting :: "nat \<Rightarrow> 'c backend \<Rightarrow> bool" where
  "is_starting generation b = (case be_lifecycle b of Starting g _ _ \<Rightarrow> g = generation | _ \<Rightarrow> False)"

definition failStartup ::
  "'c cache_ops \<Rightarrow> nat \<Rightarrow> nat \<Rightarrow> resource \<Rightarrow> backend_error \<Rightarrow> 'c backend \<Rightarrow> 'c backend \<times> fiber list" where
  "failStartup ops generation ready owned e b =
     (let b = b\<lparr>be_semantic := False, be_startupFailure := Some (compactStatusDetail (er_message e))\<rparr>;
          (stopping, b) =
            (case be_lifecycle b of
               Starting g _ r \<Rightarrow>
                 if g = generation then
                   let (d, b) = new_deferred b in
                   (Some (d, generation + 1, if er_kind e = Unavailable_error then Some (er_message e) else None),
                    resetCaches ops (b\<lparr>be_lifecycle := Stopping (generation + 1) d r (Some ready)\<rparr>))
                 else (None, b)
             | _ \<Rightarrow> (None, b));
          b = settle ready (Failed e) (failAllPending e (Some generation) b)
      in (b, [Cleanup \<lparr>cl_resource = owned, cl_stopping = stopping, cl_reset = False\<rparr>]))"

definition begin_spawn ::
  "backend_config \<Rightarrow> 'c cache_ops \<Rightarrow> nat \<Rightarrow> nat \<Rightarrow> 'c backend \<Rightarrow> 'c backend \<times> fiber list" where
  "begin_spawn cfg ops generation ready b =
     (case be_lifecycle b of
        Starting g rd r \<Rightarrow>
          if g = generation then
            let s = be_scopes b; b = b\<lparr>be_scopes := s + 1, be_open := s # be_open b\<rparr> in
            (b\<lparr>be_lifecycle := Starting g rd (r\<lparr>rs_scope := Some s\<rparr>)\<rparr>,
             [Start_spawn generation ready (emptyResource\<lparr>rs_scope := Some s\<rparr>)])
          else failStartup ops generation ready emptyResource (cancelled cfg) b
      | _ \<Rightarrow> failStartup ops generation ready emptyResource (cancelled cfg) b)"

datatype start_answer = Started | Waits nat | Refused backend_error | Begins nat

definition ensureStarted ::
  "backend_config \<Rightarrow> 'c cache_ops \<Rightarrow> 'c backend \<Rightarrow> start_answer \<times> 'c backend \<times> fiber list" where
  "ensureStarted cfg ops b =
     (case be_lifecycle b of
        Running _ _ \<Rightarrow> (Started, b, [])
      | Starting _ ready _ \<Rightarrow> (Waits ready, b, [])
      | Stopping _ _ _ _ \<Rightarrow> (Refused (backendError ShuttingDown_error (cf_name cfg @ '' LSP is shutting down'')), b, [])
      | Unavailable _ message \<Rightarrow> (Refused (backendError Unavailable_error message), b, [])
      | Idle g \<Rightarrow>
          let (ready, b) = new_deferred (resetSemanticState b);
              b = b\<lparr>be_lifecycle := Starting (g + 1) ready emptyResource\<rparr>;
              (b, fs) = (if cf_launchCommand cfg = cf_binaryName cfg then (b, [Start_lookup (g + 1) ready])
                else begin_spawn cfg ops (g + 1) ready b)
          in (Begins ready, b, fs))"

datatype lookup_answer = Found | Not_installed | Lookup_failed string

definition looked_up ::
  "backend_config \<Rightarrow> 'c cache_ops \<Rightarrow> nat \<Rightarrow> nat \<Rightarrow> lookup_answer \<Rightarrow> 'c backend \<Rightarrow> 'c backend \<times> fiber list" where
  "looked_up cfg ops generation ready answer b =
     (case answer of
        Found \<Rightarrow> begin_spawn cfg ops generation ready b
      | Not_installed \<Rightarrow>
          failStartup ops generation ready emptyResource
            (backendError Unavailable_error
              (cf_name cfg @ '' language server ('' @ cf_binaryName cfg @ '') is not installed '' @ cf_dash cfg @ '' .'' @
               (case cf_extension cfg of None \<Rightarrow> cf_name cfg | Some x \<Rightarrow> x) @ '' language intelligence unavailable'')) b
      | Lookup_failed cause \<Rightarrow>
          failStartup ops generation ready emptyResource
            (backendErrorFromCause Lookup_error (cf_name cfg @ '' language server lookup failed'') cause) b)"

datatype spawn_answer = Spawned | Spawn_failed string | Attach_failed string | Write_failed string

definition install :: "nat \<Rightarrow> (resource \<Rightarrow> resource) \<Rightarrow> 'c backend \<Rightarrow> 'c backend" where
  "install generation patch b =
     (case be_lifecycle b of
        Starting g rd r \<Rightarrow> if g = generation then b\<lparr>be_lifecycle := Starting g rd (patch r)\<rparr> else b
      | _ \<Rightarrow> b)"

definition initialize_server ::
  "backend_config \<Rightarrow> nat \<Rightarrow> bool \<Rightarrow> 'c backend \<Rightarrow> nat \<times> 'c backend" where
  "initialize_server cfg generation written b =
     (let i = be_nextId b; (d, b) = new_deferred (b\<lparr>be_nextId := i + 1\<rparr>); b = addPending i d generation b
      in (d, if written then sendLsp (request_message i ''initialize'' (cf_initialize cfg (be_root b))) (Some generation) b else b))"

definition spawned ::
  "backend_config \<Rightarrow> 'c cache_ops \<Rightarrow> nat \<Rightarrow> nat \<Rightarrow> resource \<Rightarrow> spawn_answer \<Rightarrow> 'c backend \<Rightarrow> 'c backend \<times> fiber list" where
  "spawned cfg ops generation ready owned answer b =
     (case answer of
        Spawn_failed cause \<Rightarrow>
          failStartup ops generation ready owned
            (backendErrorFromCause Startup_error (cf_name cfg @ '' language server failed to start'') cause) b
      | _ \<Rightarrow>
          let p = rs_scope owned; owned = owned\<lparr>rs_process := p\<rparr> in
          if \<not> is_starting generation b then failStartup ops generation ready owned (cancelled cfg) b
          else
            let b = install generation (\<lambda>r. r\<lparr>rs_process := p\<rparr>) b in
            (case answer of
               Attach_failed cause \<Rightarrow>
                 failStartup ops generation ready owned
                   (backendErrorFromCause Startup_error (cf_name cfg @ '' language server listener setup failed'') cause) b
             | _ \<Rightarrow>
                 let owned = owned\<lparr>rs_listeners := True\<rparr>;
                     b = install generation (\<lambda>r. r\<lparr>rs_listeners := True\<rparr>) b
                 in (case answer of
                       Write_failed cause \<Rightarrow>
                         let (d, b) = initialize_server cfg generation False b in
                         failStartup ops generation ready owned
                           (backendErrorFromCause Initialize_error (cf_name cfg @ '' LSP initialize write failed'') cause) b
                     | _ \<Rightarrow>
                         let (d, b) = initialize_server cfg generation True b in (b, [Start_init generation ready owned d]))))"

definition initialized ::
  "backend_config \<Rightarrow> 'c cache_ops \<Rightarrow> nat \<Rightarrow> nat \<Rightarrow> resource \<Rightarrow> outcome \<Rightarrow> 'c backend \<Rightarrow> 'c backend \<times> fiber list" where
  "initialized cfg ops generation ready owned r b =
     (case r of
        Failed e \<Rightarrow> failStartup ops generation ready owned e b
      | _ \<Rightarrow>
          if \<not> is_starting generation b then failStartup ops generation ready owned (cancelled cfg) b
          else
            let b = sendLsp (notification ''initialized'' (JObj [])) (Some generation) b in
            (case be_lifecycle b of
               Starting g rd res \<Rightarrow>
                 (settle ready Settled (b\<lparr>be_lifecycle := Running generation res, be_startupFailure := None\<rparr>), [])
             | _ \<Rightarrow> (b, [])))"

section \<open>Failing, exiting and shutting down\<close>

definition failAndReset :: "'c cache_ops \<Rightarrow> nat \<Rightarrow> backend_error \<Rightarrow> 'c backend \<Rightarrow> 'c backend \<times> fiber list" where
  "failAndReset ops generation e b =
     (let b = b\<lparr>be_semantic := False\<rparr>;
          b = (case be_lifecycle b of
              Starting _ _ _ \<Rightarrow> b\<lparr>be_startupFailure := Some (compactStatusDetail (er_message e))\<rparr> | _ \<Rightarrow> b)
      in case live (be_lifecycle b) of
          None \<Rightarrow> (b, [])
        | Some (g, r) \<Rightarrow>
            if g \<noteq> generation then (b, [])
            else
              let (d, b) = new_deferred b;
                  startup = (case be_lifecycle b of Starting _ rd _ \<Rightarrow> Some rd | _ \<Rightarrow> None);
                  b = resetCaches ops (b\<lparr>be_lifecycle := Stopping (generation + 1) d r startup\<rparr>);
                  b = failAllPending e (Some generation) b;
                  b = (case startup of Some rd \<Rightarrow> settle rd (Failed e) b | None \<Rightarrow> b)
              in (b, [Cleanup \<lparr>cl_resource = r, cl_stopping = Some (d, generation + 1, None), cl_reset = False\<rparr>]))"

definition exit_message :: "backend_config \<Rightarrow> string option \<Rightarrow> int option \<Rightarrow> string \<Rightarrow> string" where
  "exit_message cfg signal code stderr =
     cf_name cfg @ '' LSP exited'' @
     (if truthy signal then '' by '' @ the signal else case code of None \<Rightarrow> '''' | Some c \<Rightarrow> '' with code '' @ show_int c) @
     (if stderr = '''' then '''' else '': '' @ stderr)"

definition onProcessExit ::
  "backend_config \<Rightarrow> 'c cache_ops \<Rightarrow> nat \<Rightarrow> int option \<Rightarrow> string option \<Rightarrow> 'c backend \<Rightarrow> 'c backend \<times> fiber list" where
  "onProcessExit cfg ops generation code signal b =
     (case live (be_lifecycle b) of
        Some (g, r) \<Rightarrow>
          if g = generation
          then failAndReset ops generation
                 (backendError ProcessExit_error (exit_message cfg signal code (trim_string (rs_stderr r)))) b
          else (b, [])
      | None \<Rightarrow> (b, []))"

definition onProcessError ::
  "backend_config \<Rightarrow> 'c cache_ops \<Rightarrow> nat \<Rightarrow> string \<Rightarrow> 'c backend \<Rightarrow> 'c backend \<times> fiber list" where
  "onProcessError cfg ops generation cause b =
     failAndReset ops generation (backendErrorFromCause ProcessExit_error (cf_name cfg @ '' LSP process failed'') cause) b"

definition appendStderr :: "nat \<Rightarrow> string \<Rightarrow> 'c backend \<Rightarrow> 'c backend" where
  "appendStderr generation chunk b =
     (let add = (\<lambda>r. let t = rs_stderr r @ chunk in r\<lparr>rs_stderr := drop (length t - 4000) t\<rparr>)
      in case be_lifecycle b of
          Starting g rd r \<Rightarrow> if g = generation then b\<lparr>be_lifecycle := Starting g rd (add r)\<rparr> else b
        | Running g r \<Rightarrow> if g = generation then b\<lparr>be_lifecycle := Running g (add r)\<rparr> else b
        | _ \<Rightarrow> b)"

definition shutdown_messages :: "resource \<Rightarrow> 'c backend \<Rightarrow> 'c backend" where
  "shutdown_messages r b =
     (case rs_process r of
        None \<Rightarrow> b
      | Some p \<Rightarrow>
          if p \<in> set (be_destroyed b) then b
          else b\<lparr>be_nextId := be_nextId b + 1,
              be_sent := be_sent b @ [(p, request_message (be_nextId b) ''shutdown'' JNull), (p, notification ''exit'' JNull)]\<rparr>)"

datatype shutdown_answer = Already_down | Awaits nat | Shuts_down nat

definition shutdown :: "backend_config \<Rightarrow> 'c backend \<Rightarrow> shutdown_answer \<times> 'c backend \<times> fiber list" where
  "shutdown cfg b =
     (case be_lifecycle b of
        Idle _ \<Rightarrow> (Already_down, b, [])
      | Unavailable _ _ \<Rightarrow> (Already_down, b, [])
      | Stopping _ d _ _ \<Rightarrow> (Awaits d, b, [])
      | Starting g rd r \<Rightarrow>
          let (d, b) = new_deferred b;
              b = settle rd (Failed (cancelled cfg)) (b\<lparr>be_lifecycle := Stopping (g + 1) d r (Some rd)\<rparr>);
              b = failAllPending (backendError Shutdown_error (cf_name cfg @ '' LSP shutdown'')) None b
          in (Shuts_down d, b, [Cleanup \<lparr>cl_resource = r, cl_stopping = Some (d, g + 1, None), cl_reset = True\<rparr>])
      | Running g r \<Rightarrow>
          let (d, b) = new_deferred b;
              b = shutdown_messages r (b\<lparr>be_lifecycle := Stopping (g + 1) d r None\<rparr>);
              b = failAllPending (backendError Shutdown_error (cf_name cfg @ '' LSP shutdown'')) None b
          in (Shuts_down d, b, [Cleanup \<lparr>cl_resource = r, cl_stopping = Some (d, g + 1, None), cl_reset = True\<rparr>]))"

text \<open>The scope has closed: its process is gone, and the clean-up announces its end.\<close>

definition cleaned_up :: "'c cache_ops \<Rightarrow> cleanup \<Rightarrow> 'c backend \<Rightarrow> 'c backend" where
  "cleaned_up ops c b =
     (let b = (case rs_scope (cl_resource c) of None \<Rightarrow> b | Some s \<Rightarrow> b\<lparr>be_open := removeAll s (be_open b)\<rparr>);
          b = (if cl_reset c then resetSemanticState (resetCaches ops b) else b)
      in case cl_stopping c of
          None \<Rightarrow> b
        | Some (d, g, unavailable) \<Rightarrow>
            let b = (case be_lifecycle b of
                Stopping _ d' _ _ \<Rightarrow>
                  if d' = d
                  then b\<lparr>be_lifecycle := (case unavailable of Some m \<Rightarrow> Unavailable g m | None \<Rightarrow> Idle g)\<rparr>
                  else b
              | _ \<Rightarrow> b)
            in settle d Settled b)"

section \<open>Requests and messages\<close>

datatype request_answer = Not_running backend_error | Not_written backend_error | Sent nat

definition lspRequest ::
  "backend_config \<Rightarrow> string \<Rightarrow> jsval \<Rightarrow> string option \<Rightarrow> 'c backend \<Rightarrow> request_answer \<times> 'c backend \<times> fiber list" where
  "lspRequest cfg method params failure b =
     (case be_lifecycle b of
        Running g r \<Rightarrow>
          let i = be_nextId b; (d, b) = new_deferred (b\<lparr>be_nextId := i + 1\<rparr>); b = addPending i d g b in
          (case failure of
             None \<Rightarrow> (Sent d, sendLsp (request_message i method params) (Some g) b, [Request method d])
           | Some cause \<Rightarrow>
               let e = backendErrorFromCause Request_error (cf_name cfg @ '' LSP request write failed'') cause in
               (Not_written e, recordSemanticFailure method (er_message e) (completePending i (Some g) (Failed e) b), []))
      | _ \<Rightarrow> (Not_running (backendError Request_error (cf_name cfg @ '' LSP is not running'')), b, []))"

definition onLspMessage :: "backend_config \<Rightarrow> 'c cache_ops \<Rightarrow> lsp_message \<Rightarrow> nat \<Rightarrow> 'c backend \<Rightarrow> 'c backend" where
  "onLspMessage cfg ops m generation b =
     (case live (be_lifecycle b) of
        None \<Rightarrow> b
      | Some (g, r) \<Rightarrow>
          if g \<noteq> generation then b
          else if lm_method m = Some ''textDocument/publishDiagnostics''
            then b\<lparr>be_caches := co_publish ops (lm_params m) (be_caches b)\<rparr>
          else (case lm_id m of
              None \<Rightarrow> b
            | Some i \<Rightarrow>
                (case lm_error m of
                   Some (code, message) \<Rightarrow>
                     completePending i (Some generation) (Failed (backendError Request_error
                       (cf_name cfg @ '' LSP request failed ('' @ code @ ''): '' @ message))) b
                 | None \<Rightarrow> completePending i (Some generation) (Answered m) b)))"

definition request_timeout :: "nat \<Rightarrow> backend_error \<Rightarrow> nat \<Rightarrow> 'c backend \<Rightarrow> 'c backend" where
  "request_timeout i e generation b = completePending i (Some generation) (Failed e) b"

definition request_done :: "string \<Rightarrow> outcome \<Rightarrow> 'c backend \<Rightarrow> 'c backend" where
  "request_done method r b = (case r of Failed e \<Rightarrow> recordSemanticFailure method (er_message e) b | _ \<Rightarrow> b)"

section \<open>Steps\<close>

text \<open>What the code that waits does when its turn comes; \<open>None\<close> if there is nothing for it yet.\<close>

datatype host_answer = Looked_up lookup_answer | Host_spawned spawn_answer | Ready

definition resume ::
  "backend_config \<Rightarrow> 'c cache_ops \<Rightarrow> fiber \<Rightarrow> host_answer \<Rightarrow> 'c backend \<Rightarrow> ('c backend \<times> fiber list) option" where
  "resume cfg ops f a b =
     (case (f, a) of
        (Start_lookup g rd, Looked_up l) \<Rightarrow> Some (looked_up cfg ops g rd l b)
      | (Start_spawn g rd owned, Host_spawned l) \<Rightarrow> Some (spawned cfg ops g rd owned l b)
      | (Start_init g rd owned d, Ready) \<Rightarrow> map_option (\<lambda>r. initialized cfg ops g rd owned r b) (be_deferreds b ! d)
      | (Cleanup c, Ready) \<Rightarrow> Some (cleaned_up ops c b, [])
      | (Request method d, Ready) \<Rightarrow> map_option (\<lambda>r. (request_done method r b, [])) (be_deferreds b ! d)
      | _ \<Rightarrow> None)"

type_synonym 'c system = "'c backend \<times> fiber list"

inductive step :: "backend_config \<Rightarrow> 'c cache_ops \<Rightarrow> 'c system \<Rightarrow> 'c system \<Rightarrow> bool" for cfg ops where
  start: "ensureStarted cfg ops b = (a, b', fs') \<Longrightarrow> step cfg ops (b, fs) (b', fs @ fs')"
| resumed: "resume cfg ops f a b = Some (b', fs') \<Longrightarrow> step cfg ops (b, xs @ f # ys) (b', xs @ fs' @ ys)"
| request: "lspRequest cfg method params failure b = (a, b', fs') \<Longrightarrow> step cfg ops (b, fs) (b', fs @ fs')"
| message: "step cfg ops (b, fs) (onLspMessage cfg ops m g b, fs)"
| timeout: "step cfg ops (b, fs) (request_timeout i e g b, fs)"
| exited: "onProcessExit cfg ops g code signal b = (b', fs') \<Longrightarrow> step cfg ops (b, fs) (b', fs @ fs')"
| errored: "onProcessError cfg ops g cause b = (b', fs') \<Longrightarrow> step cfg ops (b, fs) (b', fs @ fs')"
| stderr: "step cfg ops (b, fs) (appendStderr g chunk b, fs)"
| shut: "shutdown cfg b = (a, b', fs') \<Longrightarrow> step cfg ops (b, fs) (b', fs @ fs')"
| notify: "step cfg ops (b, fs) (sendLsp msg None b, fs)"
| semantic: "step cfg ops (b, fs) (recordSemanticResult method n b, fs)"
| caches: "step cfg ops (b, fs) (b\<lparr>be_caches := c\<rparr>, fs)"
| rooted: "step cfg ops (b, fs) (b\<lparr>be_root := r\<rparr>, fs)"
| broken: "step cfg ops (b, fs) (b\<lparr>be_destroyed := p # be_destroyed b\<rparr>, fs)"

definition reachable :: "backend_config \<Rightarrow> 'c cache_ops \<Rightarrow> 'c system \<Rightarrow> bool" where
  "reachable cfg ops x \<longleftrightarrow> (\<exists>c. (step cfg ops)\<^sup>*\<^sup>* (initial_backend c, []) x)"

end
