(* ===== verification/Lsp_Lifecycle.thy ===== *)
theory Lsp_Lifecycle
  imports Lsp_Backend
begin

text \<open>
  Why a language server's requests and starts always end: an invariant of the steps of \<open>Lsp_Backend\<close>, kept by
  each of its operations, and what follows in the states a backend can reach.
\<close>

section \<open>The invariant\<close>

text \<open>
  Who is to settle which deferred (\<open>roles\<close>, \<open>waiting_requests\<close>), what the code that waits may still do
  (\<open>fiber_sound\<close>), that something is on its way when the server starts or stops (\<open>progressing\<close>), and that
  every open scope is known to somebody.
\<close>

definition open_at :: "outcome option list \<Rightarrow> nat \<Rightarrow> bool" where
  "open_at ds d \<longleftrightarrow> d < length ds \<and> ds ! d = None"

definition closed_at :: "outcome option list \<Rightarrow> nat \<Rightarrow> bool" where
  "closed_at ds d \<longleftrightarrow> d < length ds \<and> ds ! d \<noteq> None"

fun generation_of :: "lifecycle \<Rightarrow> nat" where
  "generation_of (Idle g) = g"
| "generation_of (Unavailable g m) = g"
| "generation_of (Starting g rd r) = g"
| "generation_of (Running g r) = g"
| "generation_of (Stopping g d r st) = g"

fun roles :: "lifecycle \<Rightarrow> nat set" where
  "roles (Starting g rd r) = {rd}"
| "roles (Stopping g d r st) = {d}"
| "roles _ = {}"

fun scope_of :: "lifecycle \<Rightarrow> nat option" where
  "scope_of (Starting g rd r) = rs_scope r"
| "scope_of (Running g r) = rs_scope r"
| "scope_of (Stopping g d r st) = rs_scope r"
| "scope_of _ = None"

definition waiting_requests :: "(nat, pending) jsmap \<Rightarrow> nat set" where
  "waiting_requests ps = pd_deferred ` snd ` set ps"

definition pending_sound :: "lifecycle \<Rightarrow> nat \<Rightarrow> (nat, pending) jsmap \<Rightarrow> bool" where
  "pending_sound l n ps \<longleftrightarrow> jm_ok ps \<and> distinct (map (pd_deferred \<circ> snd) ps) \<and>
     (\<forall>(i, p)\<in>set ps. i < n \<and> map_option fst (live l) = Some (pd_generation p))"

definition deferreds_sound :: "lifecycle \<Rightarrow> (nat, pending) jsmap \<Rightarrow> outcome option list \<Rightarrow> bool" where
  "deferreds_sound l ps ds \<longleftrightarrow> {d. open_at ds d} = roles l \<union> waiting_requests ps \<and> roles l \<inter> waiting_requests ps = {}"

definition start_sound :: "lifecycle \<Rightarrow> outcome option list \<Rightarrow> nat \<Rightarrow> nat \<Rightarrow> nat option \<Rightarrow> bool" where
  "start_sound l ds g rd s \<longleftrightarrow> g \<le> generation_of l \<and>
     (case l of Starting g' rd' r \<Rightarrow> if g' = g then rd' = rd \<and> rs_scope r = s else closed_at ds rd | _ \<Rightarrow> closed_at ds rd)"

fun fiber_sound :: "lifecycle \<Rightarrow> outcome option list \<Rightarrow> fiber \<Rightarrow> bool" where
  "fiber_sound l ds (Start_lookup g rd) = start_sound l ds g rd None"
| "fiber_sound l ds (Start_spawn g rd owned) = start_sound l ds g rd (rs_scope owned)"
| "fiber_sound l ds (Start_init g rd owned d) = (start_sound l ds g rd (rs_scope owned) \<and> d < length ds)"
| "fiber_sound l ds (Cleanup c) =
     (case cl_stopping c of
        None \<Rightarrow> True
      | Some (d, g, u) \<Rightarrow>
          (case l of
             Stopping g' d' r st \<Rightarrow> if d' = d then g' = g \<and> d < length ds \<and> rs_scope r = rs_scope (cl_resource c) else closed_at ds d
           | _ \<Rightarrow> closed_at ds d))"
| "fiber_sound l ds (Request m d) = (d < length ds)"

fun starts :: "fiber \<Rightarrow> (nat \<times> nat) option" where
  "starts (Start_lookup g rd) = Some (g, rd)"
| "starts (Start_spawn g rd owned) = Some (g, rd)"
| "starts (Start_init g rd owned d) = Some (g, rd)"
| "starts _ = None"

fun ends :: "fiber \<Rightarrow> nat option" where
  "ends (Cleanup c) = map_option fst (cl_stopping c)"
| "ends _ = None"

fun owns :: "fiber \<Rightarrow> nat option" where
  "owns (Start_spawn g rd owned) = rs_scope owned"
| "owns (Start_init g rd owned d) = rs_scope owned"
| "owns (Cleanup c) = rs_scope (cl_resource c)"
| "owns _ = None"

definition progressing :: "lifecycle \<Rightarrow> fiber set \<Rightarrow> bool" where
  "progressing l F \<longleftrightarrow>
     (case l of
        Starting g rd r \<Rightarrow> \<exists>f\<in>F. starts f = Some (g, rd)
      | Stopping g d r st \<Rightarrow> \<exists>f\<in>F. ends f = Some d
      | _ \<Rightarrow> True)"

definition scopes_known :: "lifecycle \<Rightarrow> nat list \<Rightarrow> fiber set \<Rightarrow> bool" where
  "scopes_known l open_scopes F \<longleftrightarrow> Some ` set open_scopes \<subseteq> insert (scope_of l) (owns ` F)"

definition sound :: "'c backend \<Rightarrow> fiber set \<Rightarrow> bool" where
  "sound b F \<longleftrightarrow>
     pending_sound (be_lifecycle b) (be_nextId b) (be_pending b) \<and>
     deferreds_sound (be_lifecycle b) (be_pending b) (be_deferreds b) \<and>
     (\<forall>f\<in>F. fiber_sound (be_lifecycle b) (be_deferreds b) f) \<and>
     progressing (be_lifecycle b) F \<and> scopes_known (be_lifecycle b) (be_open b) F"

subsection \<open>Fibers while the lifecycle moves on\<close>

definition later :: "outcome option list \<Rightarrow> outcome option list \<Rightarrow> bool" where
  "later ds ds' \<longleftrightarrow> length ds \<le> length ds' \<and> (\<forall>d. closed_at ds d \<longrightarrow> closed_at ds' d)"

text \<open>The moves of the lifecycle that leave the waiting code in order.\<close>

definition moves :: "lifecycle \<Rightarrow> outcome option list \<Rightarrow> lifecycle \<Rightarrow> outcome option list \<Rightarrow> bool" where
  "moves l ds l' ds' \<longleftrightarrow> later ds ds' \<and> generation_of l \<le> generation_of l' \<and>
     (case l' of
        Starting g rd r \<Rightarrow> generation_of l < g \<or> (\<exists>r'. l = Starting g rd r' \<and> rs_scope r = rs_scope r')
      | Stopping g d r st \<Rightarrow> length ds \<le> d \<or> (\<exists>r' st'. l = Stopping g d r' st' \<and> rs_scope r = rs_scope r')
      | _ \<Rightarrow> True) \<and>
     (case l of
        Starting g rd r \<Rightarrow> (\<exists>r'. l' = Starting g rd r') \<or> closed_at ds' rd
      | Stopping g d r st \<Rightarrow> (\<exists>r' st'. l' = Stopping g d r' st') \<or> closed_at ds' d
      | _ \<Rightarrow> True)"

lemma laterD: "later ds ds' \<Longrightarrow> closed_at ds d \<Longrightarrow> closed_at ds' d"
  by (simp add: later_def)

lemma start_moves:
  assumes "start_sound l ds g rd s" "moves l ds l' ds'"
  shows "start_sound l' ds' g rd s"
  using assms unfolding start_sound_def moves_def
  by (cases l; cases l') (auto split: if_splits dest: laterD)

lemma fiber_moves:
  assumes "fiber_sound l ds f" "moves l ds l' ds'"
  shows "fiber_sound l' ds' f"
proof (cases f)
  case (Cleanup c)
  show ?thesis
  proof (cases "cl_stopping c")
    case (Some x)
    obtain d g u where x: "x = (d, g, u)"
      by (metis prod.exhaust)
    have old: "closed_at ds d \<Longrightarrow> d < length ds"
      by (simp add: closed_at_def)
    show ?thesis
      using assms Some x old unfolding Cleanup moves_def
      by (cases l; cases l') (auto split: if_splits dest: laterD simp: later_def)
  qed (simp add: Cleanup)
next
  case (Request m d)
  then show ?thesis
    using assms by (auto simp: moves_def later_def)
next
  case (Start_init g rd owned d)
  then show ?thesis
    using assms start_moves [of l ds g rd "rs_scope owned" l' ds'] by (auto simp: moves_def later_def)
qed (use assms start_moves in auto)

subsection \<open>Settling\<close>

lemma open_or_closed: "d < length ds \<Longrightarrow> open_at ds d \<longleftrightarrow> \<not> closed_at ds d"
  by (auto simp: open_at_def closed_at_def)

lemma later_refl [simp]: "later ds ds"
  by (simp add: later_def)

lemma later_trans: "later ds ds' \<Longrightarrow> later ds' ds'' \<Longrightarrow> later ds ds''"
  by (auto simp: later_def)

lemma later_update [simp]: "later ds (ds[d := Some r])"
  by (cases "d < length ds") (auto simp: later_def closed_at_def nth_list_update not_less)

lemma later_new [simp]: "later ds (ds @ [r])"
  by (auto simp: later_def closed_at_def nth_append)

lemma open_update: "{x. open_at (ds[d := Some r]) x} = {x. open_at ds x} - {d}"
  by (cases "d < length ds") (auto simp: open_at_def nth_list_update not_less split: if_splits)

lemma open_new: "{x. open_at (ds @ [None]) x} = insert (length ds) {x. open_at ds x}"
  by (auto simp: open_at_def nth_append)

lemma settle_deferreds:
  "\<exists>ds. settle d r b = b\<lparr>be_deferreds := ds\<rparr> \<and> length ds = length (be_deferreds b) \<and> later (be_deferreds b) ds \<and>
    {x. open_at ds x} = {x. open_at (be_deferreds b) x} - {d} \<and> (d < length ds \<longrightarrow> closed_at ds d)"
proof (cases "open_at (be_deferreds b) d")
  case True
  then show ?thesis
    by (intro exI [of _ "(be_deferreds b)[d := Some r]"])
      (use open_update [of "be_deferreds b" d r] in \<open>simp add: settle_def open_at_def closed_at_def\<close>)
next
  case False
  then show ?thesis
    by (intro exI [of _ "be_deferreds b"]) (auto simp: settle_def open_at_def closed_at_def)
qed

definition taken :: "nat option \<Rightarrow> (nat, pending) jsmap \<Rightarrow> (nat, pending) jsmap" where
  "taken generation ps = filter (\<lambda>(i, p). generation = None \<or> generation = Some (pd_generation p)) ps"

lemma failAll_fold:
  assumes "jm_ok (be_pending b)" "set xs \<subseteq> set (be_pending b)" "distinct (map fst xs)"
  shows "\<exists>ds. fold (\<lambda>(i, p) b. if generation \<noteq> None \<and> generation \<noteq> Some (pd_generation p) then b
         else settle (pd_deferred p) (Failed e) (b\<lparr>be_pending := jm_delete i (be_pending b)\<rparr>)) xs b =
      b\<lparr>be_pending := filter (\<lambda>x. x \<notin> set (taken generation xs)) (be_pending b), be_deferreds := ds\<rparr> \<and>
    length ds = length (be_deferreds b) \<and> later (be_deferreds b) ds \<and>
    {x. open_at ds x} = {x. open_at (be_deferreds b) x} - waiting_requests (taken generation xs)"
  using assms
proof (induction xs arbitrary: b)
  case Nil
  then show ?case
    by (intro exI [of _ "be_deferreds b"]) (simp add: taken_def waiting_requests_def)
next
  case (Cons x xs)
  obtain i p where x: "x = (i, p)"
    by fastforce
  show ?case
  proof (cases "generation = None \<or> generation = Some (pd_generation p)")
    case False
    then show ?thesis
      using Cons.IH [of b] Cons.prems by (auto simp: x taken_def)
  next
    case True
    let ?b = "b\<lparr>be_pending := jm_delete i (be_pending b)\<rparr>"
    obtain ds where s: "settle (pd_deferred p) (Failed e) ?b = ?b\<lparr>be_deferreds := ds\<rparr>" "length ds = length (be_deferreds b)"
      "later (be_deferreds b) ds" "{x. open_at ds x} = {x. open_at (be_deferreds b) x} - {pd_deferred p}"
      using settle_deferreds [of "pd_deferred p" "Failed e" ?b] by auto
    have del: "jm_delete i (be_pending b) = filter (\<lambda>y. y \<noteq> x) (be_pending b)"
      unfolding jm_delete_def using Cons.prems(1,2)
      by (intro filter_cong) (auto simp: x jm_ok_def dest: eq_key_imp_eq_value)
    have ok: "jm_ok (jm_delete i (be_pending b))" "set xs \<subseteq> set (jm_delete i (be_pending b))" "distinct (map fst xs)"
      using Cons.prems jm_ok_delete by (force simp: x set_jm_delete)+
    obtain ds' where r: "fold (\<lambda>(i, p) b. if generation \<noteq> None \<and> generation \<noteq> Some (pd_generation p) then b
           else settle (pd_deferred p) (Failed e) (b\<lparr>be_pending := jm_delete i (be_pending b)\<rparr>)) xs (?b\<lparr>be_deferreds := ds\<rparr>) =
        ?b\<lparr>be_deferreds := ds, be_pending := filter (\<lambda>y. y \<notin> set (taken generation xs)) (jm_delete i (be_pending b)), be_deferreds := ds'\<rparr>"
      "length ds' = length ds" "later ds ds'" "{y. open_at ds' y} = {y. open_at ds y} - waiting_requests (taken generation xs)"
      using Cons.IH [of "?b\<lparr>be_deferreds := ds\<rparr>"] ok by auto
    have t: "taken generation (x # xs) = x # taken generation xs"
      using True by (simp add: taken_def x)
    have pend: "filter (\<lambda>y. y \<notin> set (taken generation xs)) (jm_delete i (be_pending b)) =
        filter (\<lambda>y. y \<notin> set (taken generation (x # xs))) (be_pending b)"
      unfolding del t filter_filter by (rule filter_cong) auto
    have wait: "waiting_requests (taken generation (x # xs)) = insert (pd_deferred p) (waiting_requests (taken generation xs))"
      unfolding t by (simp add: waiting_requests_def x)
    have "fold (\<lambda>(i, p) b. if generation \<noteq> None \<and> generation \<noteq> Some (pd_generation p) then b
           else settle (pd_deferred p) (Failed e) (b\<lparr>be_pending := jm_delete i (be_pending b)\<rparr>)) (x # xs) b =
        b\<lparr>be_pending := filter (\<lambda>y. y \<notin> set (taken generation (x # xs))) (be_pending b), be_deferreds := ds'\<rparr>"
      using True r(1) s(1) unfolding pend by (auto simp: x)
    moreover have "{y. open_at ds' y} = {y. open_at (be_deferreds b) y} - waiting_requests (taken generation (x # xs))"
      unfolding r(4) s(4) wait by blast
    ultimately show ?thesis
      using r(2,3) s(2,3) later_trans by (intro exI [of _ ds']) metis
  qed
qed

lemma failAllPending_effect:
  assumes "jm_ok (be_pending b)"
  shows "\<exists>ds. failAllPending e generation b =
      b\<lparr>be_pending := filter (\<lambda>x. x \<notin> set (taken generation (be_pending b))) (be_pending b), be_deferreds := ds\<rparr> \<and>
    length ds = length (be_deferreds b) \<and> later (be_deferreds b) ds \<and>
    {x. open_at ds x} = {x. open_at (be_deferreds b) x} - waiting_requests (taken generation (be_pending b))"
  unfolding failAllPending_def using assms by (intro failAll_fold) (simp_all add: jm_ok_def)

subsection \<open>Moves that keep it\<close>

lemma moves_same: "later ds ds' \<Longrightarrow> moves l ds l ds'"
  by (cases l) (simp_all add: moves_def)

lemma sound_move:
  assumes "sound b F" "moves (be_lifecycle b) (be_deferreds b) (be_lifecycle b') (be_deferreds b')"
    "pending_sound (be_lifecycle b') (be_nextId b') (be_pending b')"
    "deferreds_sound (be_lifecycle b') (be_pending b') (be_deferreds b')"
    "progressing (be_lifecycle b') F'" "scopes_known (be_lifecycle b') (be_open b') F'"
    "\<And>f. f \<in> F' \<Longrightarrow> f \<in> F \<or> fiber_sound (be_lifecycle b') (be_deferreds b') f"
  shows "sound b' F'"
  using assms fiber_moves unfolding sound_def by blast

lemma soundD:
  assumes "sound b F"
  shows "pending_sound (be_lifecycle b) (be_nextId b) (be_pending b)"
    "deferreds_sound (be_lifecycle b) (be_pending b) (be_deferreds b)"
    "f \<in> F \<Longrightarrow> fiber_sound (be_lifecycle b) (be_deferreds b) f"
    "progressing (be_lifecycle b) F" "scopes_known (be_lifecycle b) (be_open b) F"
  using assms unfolding sound_def by blast+

text \<open>Changes that the invariant does not see.\<close>

lemma sound_other [simp]:
  "sound (b\<lparr>be_semantic := x1\<rparr>) F = sound b F" "sound (b\<lparr>be_startupFailure := x2\<rparr>) F = sound b F"
  "sound (b\<lparr>be_root := x3\<rparr>) F = sound b F" "sound (b\<lparr>be_lastRequest := x4\<rparr>) F = sound b F"
  "sound (b\<lparr>be_semanticFailure := x5\<rparr>) F = sound b F" "sound (b\<lparr>be_caches := c\<rparr>) F = sound b F"
  "sound (b\<lparr>be_sent := x6\<rparr>) F = sound b F" "sound (b\<lparr>be_destroyed := x7\<rparr>) F = sound b F"
  "sound (b\<lparr>be_scopes := x8\<rparr>) F = sound b F"
  by (simp_all add: sound_def)

lemma sendLsp_sent: "\<exists>s. sendLsp m g b = b\<lparr>be_sent := s\<rparr>"
proof -
  have "\<exists>s. b = b\<lparr>be_sent := s\<rparr>"
    by (rule exI [of _ "be_sent b"]) simp
  then show ?thesis
    by (auto simp: sendLsp_def split: option.split)
qed

lemma sendLsp_fields [simp]:
  "be_lifecycle (sendLsp m g b) = be_lifecycle b" "be_pending (sendLsp m g b) = be_pending b"
  "be_deferreds (sendLsp m g b) = be_deferreds b" "be_nextId (sendLsp m g b) = be_nextId b" "be_open (sendLsp m g b) = be_open b"
  using sendLsp_sent [of m g b] by auto

lemma sound_sendLsp [simp]: "sound (sendLsp m g b) F = sound b F"
  by (simp add: sound_def)

lemma sound_records [simp]:
  "sound (resetSemanticState b) F = sound b F" "sound (resetCaches ops b) F = sound b F"
  "sound (recordSemanticFailure method detail b) F = sound b F" "sound (recordSemanticResult method k b) F = sound b F"
  by (simp_all add: resetSemanticState_def resetCaches_def recordSemanticFailure_def recordSemanticResult_def)

subsection \<open>Pending requests\<close>

lemma waiting_delete:
  assumes "jm_ok ps" "distinct (map (pd_deferred \<circ> snd) ps)" "T \<subseteq> set ps"
  shows "waiting_requests (filter (\<lambda>x. x \<notin> T) ps) = waiting_requests ps - pd_deferred ` snd ` T"
proof -
  have "inj_on (pd_deferred \<circ> snd) (set ps)"
    using assms(2) by (simp add: distinct_map)
  then have "(pd_deferred \<circ> snd) ` (set ps - T) = (pd_deferred \<circ> snd) ` set ps - (pd_deferred \<circ> snd) ` T"
    using assms(3) by (rule inj_on_image_set_diff [OF _ Diff_subset])
  moreover have "set (filter (\<lambda>x. x \<notin> T) ps) = set ps - T"
    by auto
  ultimately show ?thesis
    unfolding waiting_requests_def image_comp by simp
qed

lemma pending_filter: "pending_sound l n ps \<Longrightarrow> pending_sound l n (filter P ps)"
  by (auto simp: pending_sound_def jm_ok_def distinct_map inj_on_def)

text \<open>Failing the requests of a generation keeps the pending requests and the deferreds in step.\<close>

lemma failAll_core:
  assumes "pending_sound l n (be_pending b)" "deferreds_sound l (be_pending b) (be_deferreds b)"
  obtains ps ds where "failAllPending e generation b = b\<lparr>be_pending := ps, be_deferreds := ds\<rparr>" "later (be_deferreds b) ds"
    "pending_sound l n ps" "deferreds_sound l ps ds"
proof -
  let ?T = "taken generation (be_pending b)"
  have ok: "jm_ok (be_pending b)" and dist: "distinct (map (pd_deferred \<circ> snd) (be_pending b))"
    using assms(1) by (simp_all add: pending_sound_def)
  obtain ds where ds: "failAllPending e generation b = b\<lparr>be_pending := filter (\<lambda>x. x \<notin> set ?T) (be_pending b), be_deferreds := ds\<rparr>"
    "later (be_deferreds b) ds" "{x. open_at ds x} = {x. open_at (be_deferreds b) x} - waiting_requests ?T"
    using failAllPending_effect [OF ok, of e generation] by blast
  have "set ?T \<subseteq> set (be_pending b)"
    by (auto simp: taken_def)
  then have w: "waiting_requests (filter (\<lambda>x. x \<notin> set ?T) (be_pending b)) = waiting_requests (be_pending b) - waiting_requests ?T"
    "waiting_requests ?T \<subseteq> waiting_requests (be_pending b)"
    using waiting_delete [OF ok dist] by (auto simp: waiting_requests_def)
  then have "deferreds_sound l (filter (\<lambda>x. x \<notin> set ?T) (be_pending b)) ds"
    using assms(2) unfolding deferreds_sound_def ds(3) by blast
  then show ?thesis
    using that ds(1,2) pending_filter [OF assms(1)] by blast
qed

text \<open>When they are all of that generation, none is left and none waits.\<close>

lemma failAll_none:
  assumes "jm_ok (be_pending b)" "taken generation (be_pending b) = be_pending b"
  obtains ds where "failAllPending e generation b = b\<lparr>be_pending := [], be_deferreds := ds\<rparr>" "later (be_deferreds b) ds"
    "length ds = length (be_deferreds b)" "{x. open_at ds x} = {x. open_at (be_deferreds b) x} - waiting_requests (be_pending b)"
proof -
  have "filter (\<lambda>x. x \<notin> set (be_pending b)) (be_pending b) = []"
    by (simp add: filter_empty_conv)
  then show ?thesis
    using failAllPending_effect [OF assms(1), of e generation] that unfolding assms(2) by auto
qed

lemma taken_live: "pending_sound l n ps \<Longrightarrow> map_option fst (live l) = Some g \<Longrightarrow> taken (Some g) ps = ps"
  by (auto simp: taken_def pending_sound_def filter_id_conv)

lemma taken_None [simp]: "taken None ps = ps"
  by (simp add: taken_def)

lemma pending_Nil [simp]: "pending_sound l n []"
  by (simp add: pending_sound_def jm_ok_def)

lemma completePending_cases:
  "completePending i generation r b = b \<or>
   (\<exists>p. jm_get (be_pending b) i = Some p \<and>
      completePending i generation r b = settle (pd_deferred p) r (b\<lparr>be_pending := jm_delete i (be_pending b)\<rparr>))"
  by (cases "jm_get (be_pending b) i") (simp_all add: completePending_def takePending_def)

lemma sound_complete:
  assumes "sound b F"
  shows "sound (completePending i generation r b) F"
proof -
  let ?ps = "be_pending b"
  consider "completePending i generation r b = b"
    | p where "jm_get ?ps i = Some p" "completePending i generation r b = settle (pd_deferred p) r (b\<lparr>be_pending := jm_delete i ?ps\<rparr>)"
    using completePending_cases by blast
  then show ?thesis
  proof cases
    case 2
    note P = soundD(1) [OF assms]
    have ok: "jm_ok ?ps" and dist: "distinct (map (pd_deferred \<circ> snd) ?ps)"
      using P by (simp_all add: pending_sound_def)
    have "(i, p) \<in> set ?ps"
      using 2(1) by (simp add: jm_get_in)
    have del: "jm_delete i ?ps = filter (\<lambda>x. x \<notin> {(i, p)}) ?ps"
      unfolding jm_delete_def using ok \<open>(i, p) \<in> set ?ps\<close>
      by (intro filter_cong) (auto simp: jm_ok_def dest: eq_key_imp_eq_value)
    have w: "waiting_requests (jm_delete i ?ps) = waiting_requests ?ps - {pd_deferred p}"
      unfolding del using waiting_delete [OF ok dist, of "{(i, p)}"] \<open>(i, p) \<in> set ?ps\<close> by simp
    have mem: "pd_deferred p \<in> waiting_requests ?ps"
      using \<open>(i, p) \<in> set ?ps\<close> by (force simp: waiting_requests_def)
    obtain ds where ds: "settle (pd_deferred p) r (b\<lparr>be_pending := jm_delete i ?ps\<rparr>) = b\<lparr>be_pending := jm_delete i ?ps, be_deferreds := ds\<rparr>"
      "later (be_deferreds b) ds" "{x. open_at ds x} = {x. open_at (be_deferreds b) x} - {pd_deferred p}"
      using settle_deferreds [of "pd_deferred p" r "b\<lparr>be_pending := jm_delete i ?ps\<rparr>"] by auto
    have "deferreds_sound (be_lifecycle b) (jm_delete i ?ps) ds"
      using soundD(2) [OF assms] mem unfolding deferreds_sound_def ds(3) w by blast
    then show ?thesis
      unfolding 2(2) ds(1) using assms soundD(4,5) [OF assms] pending_filter [OF P] ds(2)
      by (intro sound_move [OF assms]) (simp_all add: moves_same jm_delete_def)
  qed (simp add: assms)
qed

subsection \<open>A new request\<close>

lemma open_bound: "deferreds_sound l ps ds \<Longrightarrow> d \<in> roles l \<union> waiting_requests ps \<Longrightarrow> d < length ds"
  unfolding deferreds_sound_def open_at_def by blast

definition with_request :: "nat \<Rightarrow> 'c backend \<Rightarrow> 'c backend" where
  "with_request g b =
     b\<lparr>be_nextId := be_nextId b + 1, be_deferreds := be_deferreds b @ [None],
       be_pending := be_pending b @ [(be_nextId b, \<lparr>pd_deferred = length (be_deferreds b), pd_generation = g\<rparr>)]\<rparr>"

lemma request_added:
  assumes "sound b F"
  shows "addPending (be_nextId b) (length (be_deferreds b)) g
      (b\<lparr>be_nextId := be_nextId b + 1, be_deferreds := be_deferreds b @ [None]\<rparr>) = with_request g b"
proof -
  have "jm_get (be_pending b) (be_nextId b) = None"
    using soundD(1) [OF assms] unfolding pending_sound_def by (cases "jm_get (be_pending b) (be_nextId b)") (auto dest: jm_get_in)
  then show ?thesis
    by (simp add: addPending_def with_request_def jm_set_append)
qed

lemma sound_with_request:
  assumes "sound b F" "live (be_lifecycle b) = Some (g, r)"
  shows "sound (with_request g b) F"
proof -
  let ?l = "be_lifecycle b" and ?ps = "be_pending b" and ?ds = "be_deferreds b"
  let ?p = "(be_nextId b, \<lparr>pd_deferred = length ?ds, pd_generation = g\<rparr>)"
  note P = soundD(1) [OF assms(1)] and D = soundD(2) [OF assms(1)]
  have fresh: "length ?ds \<notin> roles ?l \<union> waiting_requests ?ps"
    using open_bound [OF D] by blast
  have "be_nextId b \<notin> set (map fst ?ps)"
    using P by (auto simp: pending_sound_def)
  moreover have "length ?ds \<notin> (pd_deferred \<circ> snd) ` set ?ps"
    using fresh by (simp add: waiting_requests_def image_comp)
  ultimately have "pending_sound ?l (be_nextId b + 1) (?ps @ [?p])"
    using P assms(2) by (auto simp: pending_sound_def jm_ok_def)
  moreover have "waiting_requests (?ps @ [?p]) = insert (length ?ds) (waiting_requests ?ps)"
    by (simp add: waiting_requests_def)
  then have "deferreds_sound ?l (?ps @ [?p]) (?ds @ [None])"
    using D fresh unfolding deferreds_sound_def open_new by auto
  ultimately show ?thesis
    using soundD(4,5) [OF assms(1)] by (intro sound_move [OF assms(1)]) (simp_all add: with_request_def moves_same)
qed

lemma sound_lspRequest:
  assumes "sound b F" "lspRequest cfg method params failure b = (a, b', fs')"
  shows "sound b' (F \<union> set fs')"
proof (cases "be_lifecycle b")
  case (Running g r)
  then have s: "sound (with_request g b) F"
    by (intro sound_with_request [OF assms(1)]) (simp add: live_def)
  have added: "addPending (be_nextId b) (length (be_deferreds b)) g
      (b\<lparr>be_nextId := Suc (be_nextId b), be_deferreds := be_deferreds b @ [None]\<rparr>) = with_request g b"
    using request_added [OF assms(1)] by simp
  have "sound (with_request g b) (insert (Request method (length (be_deferreds b))) F)"
    using s by (auto simp: sound_def with_request_def progressing_def scopes_known_def Running)
  then show ?thesis
    using assms(2) s Running
    by (auto simp: lspRequest_def new_deferred_def Let_def added sound_complete split: option.splits)
next
  case (Idle g)
  then show ?thesis using assms by (simp add: lspRequest_def)
next
  case (Unavailable g m)
  then show ?thesis using assms by (simp add: lspRequest_def)
next
  case (Starting g rd r)
  then show ?thesis using assms by (simp add: lspRequest_def)
next
  case (Stopping g d r st)
  then show ?thesis using assms by (simp add: lspRequest_def)
qed

subsection \<open>Failing to start\<close>

lemma settle_closed: "\<not> open_at (be_deferreds b) d \<Longrightarrow> settle d r b = b"
  by (auto simp: settle_def open_at_def)

lemma sound_replace:
  assumes "sound b (insert f F)" "fiber_sound (be_lifecycle b) (be_deferreds b) f'" "owns f' = owns f"
    "\<And>g rd r. be_lifecycle b = Starting g rd r \<Longrightarrow> starts f \<noteq> Some (g, rd)"
    "\<And>g d r st. be_lifecycle b = Stopping g d r st \<Longrightarrow> ends f \<noteq> Some d"
  shows "sound b (insert f' F)"
proof -
  have "progressing (be_lifecycle b) (insert f' F)"
    using soundD(4) [OF assms(1)] assms(4,5) by (auto simp: progressing_def split: lifecycle.splits)
  moreover have "scopes_known (be_lifecycle b) (be_open b) (insert f' F)"
    using soundD(5) [OF assms(1)] assms(3) by (simp add: scopes_known_def)
  ultimately show ?thesis
    using assms(1,2) unfolding sound_def by blast
qed

text \<open>The lifecycle enters \<open>Stopping\<close> with all its requests failed and, if it was starting, its start.\<close>

lemma sound_stop:
  assumes s: "sound b G"
    and d: "d = length (be_deferreds b)"
    and b1: "be_lifecycle b1 = Stopping (generation_of (be_lifecycle b) + 1) d r st" "be_nextId b \<le> be_nextId b1" "be_open b1 = be_open b"
      "be_pending b1 = []" "later (be_deferreds b @ [None]) (be_deferreds b1)"
      "{x. open_at (be_deferreds b1) x} = {d}"
    and r: "rs_scope r = scope_of (be_lifecycle b)" "\<And>g d r st. be_lifecycle b \<noteq> Stopping g d r st"
    and c: "rs_scope (cl_resource c) = rs_scope r" "cl_stopping c = Some (d, generation_of (be_lifecycle b) + 1, u)"
    and F': "F' \<subseteq> G" "owns ` G \<subseteq> insert (rs_scope r) (insert None (owns ` F'))"
  shows "sound b1 (insert (Cleanup c) F')"
proof (rule sound_move [OF s])
  let ?l = "be_lifecycle b"
  have len: "length (be_deferreds b1) > d"
    using b1(5) d by (simp add: later_def)
  have later: "later (be_deferreds b) (be_deferreds b1)"
    using later_trans [OF later_new b1(5)] .
  have rd: "closed_at (be_deferreds b1) x" if "x \<in> roles ?l" for x
  proof -
    have "x < d"
      using open_bound [OF soundD(2) [OF s]] that d by blast
    then show ?thesis
      using b1(6) len open_or_closed [of x "be_deferreds b1"] by auto
  qed
  show "moves ?l (be_deferreds b) (be_lifecycle b1) (be_deferreds b1)"
    using later rd r d unfolding b1(1) moves_def by (cases ?l) auto
  show "pending_sound (be_lifecycle b1) (be_nextId b1) (be_pending b1)"
    by (simp add: b1(4))
  show "deferreds_sound (be_lifecycle b1) (be_pending b1) (be_deferreds b1)"
    by (simp add: b1 deferreds_sound_def waiting_requests_def)
  show "progressing (be_lifecycle b1) (insert (Cleanup c) F')"
    by (simp add: b1(1) progressing_def c)
  have "Some ` set (be_open b) \<subseteq> insert (rs_scope r) (owns ` F')"
  proof
    fix y
    assume y: "y \<in> Some ` set (be_open b)"
    have "y = rs_scope r \<or> y \<in> owns ` G"
      using subsetD [OF soundD(5) [OF s, unfolded scopes_known_def] y] by (simp add: r(1))
    then have "y \<in> insert (rs_scope r) (insert None (owns ` F'))"
      using subsetD [OF F'(2), of y] by (elim disjE) simp_all
    then show "y \<in> insert (rs_scope r) (owns ` F')"
      using y by auto
  qed
  then have "Some ` set (be_open b) \<subseteq> insert (rs_scope r) (owns ` insert (Cleanup c) F')"
    by (rule subset_trans) auto
  then show "scopes_known (be_lifecycle b1) (be_open b1) (insert (Cleanup c) F')"
    unfolding scopes_known_def b1(1,3) scope_of.simps .
  show "f' \<in> G \<or> fiber_sound (be_lifecycle b1) (be_deferreds b1) f'" if "f' \<in> insert (Cleanup c) F'" for f'
  proof (cases "f' = Cleanup c")
    case True
    then show ?thesis
      using len by (simp add: b1(1) c)
  qed (use that F'(1) in blast)
qed

lemma open_insert_fresh:
  assumes "deferreds_sound l ps ds"
  shows "{x. open_at (ds @ [None]) x} - waiting_requests ps = insert (length ds) (roles l)"
proof -
  have "length ds \<notin> waiting_requests ps"
    using open_bound [OF assms, of "length ds"] by blast
  then show ?thesis
    using assms unfolding open_new deferreds_sound_def by blast
qed

lemma new_deferred_eq: "new_deferred b = (length (be_deferreds b), b\<lparr>be_deferreds := be_deferreds b @ [None]\<rparr>)"
  by (simp add: new_deferred_def)

lemma resetCaches_fields [simp]:
  "be_lifecycle (resetCaches ops b) = be_lifecycle b" "be_pending (resetCaches ops b) = be_pending b"
  "be_deferreds (resetCaches ops b) = be_deferreds b" "be_nextId (resetCaches ops b) = be_nextId b"
  "be_open (resetCaches ops b) = be_open b"
  by (simp_all add: resetCaches_def)

lemma starts_not: "starts f = Some x \<Longrightarrow> ends f = None"
  by (cases f) auto

lemma fiber_start: "fiber_sound l ds f \<Longrightarrow> starts f = Some (g, rd) \<Longrightarrow> start_sound l ds g rd (owns f)"
  by (cases f) auto

lemma sound_failStartup:
  assumes s: "sound b (insert f F)" and start: "starts f = Some (g, rd)" "owns f = rs_scope owned"
    and r: "failStartup ops g rd owned e b = (b', fs')"
  shows "sound b' (set fs' \<union> F)"
proof -
  note f = start fiber_start [OF soundD(3) [OF s insertI1] start(1), unfolded start(2)]
  let ?b = "b\<lparr>be_semantic := False, be_startupFailure := Some (compactStatusDetail (er_message e))\<rparr>"
  note D = soundD(2) [OF s] and P = soundD(1) [OF s]
  show ?thesis
  proof (cases "\<exists>res. be_lifecycle b = Starting g rd res")
    case True
    then obtain res where l: "be_lifecycle b = Starting g rd res"
      by blast
    have scope: "rs_scope res = rs_scope owned"
      using f(3) by (simp add: start_sound_def l)
    let ?d = "length (be_deferreds b)"
    let ?b1 = "resetCaches ops (?b\<lparr>be_deferreds := be_deferreds b @ [None], be_lifecycle := Stopping (g + 1) ?d res (Some rd)\<rparr>)"
    have ok: "jm_ok (be_pending ?b1)" "taken (Some g) (be_pending ?b1) = be_pending ?b1"
      using P taken_live [OF P, of g] by (simp_all add: l live_def pending_sound_def)
    obtain ds where ds: "failAllPending e (Some g) ?b1 = ?b1\<lparr>be_pending := [], be_deferreds := ds\<rparr>" "later (be_deferreds b @ [None]) ds"
      "length ds = Suc ?d" "{x. open_at ds x} = insert ?d {rd}"
      using failAll_none [OF ok, of e] open_insert_fresh [OF D] by (force simp: l)
    obtain ds' where ds': "settle rd (Failed e) (?b1\<lparr>be_pending := [], be_deferreds := ds\<rparr>) = ?b1\<lparr>be_pending := [], be_deferreds := ds'\<rparr>"
      "later ds ds'" "{x. open_at ds' x} = insert ?d {rd} - {rd}"
      using settle_deferreds [of rd "Failed e" "?b1\<lparr>be_pending := [], be_deferreds := ds\<rparr>"] ds(4) by force
    have "rd \<noteq> ?d"
      using open_bound [OF D, of rd] by (simp add: l)
    then have o: "{x. open_at ds' x} = {?d}"
      using ds'(3) by blast
    let ?c = "\<lparr>cl_resource = owned, cl_stopping = Some (?d, g + 1, if er_kind e = Unavailable_error then Some (er_message e) else None),
        cl_reset = False\<rparr>"
    have res: "b' = ?b1\<lparr>be_pending := [], be_deferreds := ds'\<rparr>" "fs' = [Cleanup ?c]"
      using r ds(1) ds'(1) by (simp_all add: failStartup_def Let_def l new_deferred_eq)
    have "sound (?b1\<lparr>be_pending := [], be_deferreds := ds'\<rparr>) (insert (Cleanup ?c) F)"
      by (rule sound_stop [OF s, where d = ?d and F' = F and r = res and st = "Some rd"
            and u = "if er_kind e = Unavailable_error then Some (er_message e) else None"])
        (use l scope o f(2) later_trans [OF ds(2) ds'(2)] in \<open>auto simp: resetCaches_def\<close>)
    then show ?thesis
      by (simp add: res)
  next
    case False
    then have closed: "closed_at (be_deferreds b) rd" and other: "\<And>rd' r. be_lifecycle b \<noteq> Starting g rd' r"
      using f(3) by (auto simp: start_sound_def split: lifecycle.splits if_splits)
    obtain ps ds where ds: "failAllPending e (Some g) ?b = ?b\<lparr>be_pending := ps, be_deferreds := ds\<rparr>" "later (be_deferreds b) ds"
      "pending_sound (be_lifecycle b) (be_nextId b) ps" "deferreds_sound (be_lifecycle b) ps ds"
      by (rule failAll_core [of "be_lifecycle b" "be_nextId b" ?b e "Some g"]) (use P D in simp_all)
    have "\<not> open_at ds rd"
      using laterD [OF ds(2) closed] by (simp add: open_at_def closed_at_def)
    then have "settle rd (Failed e) (?b\<lparr>be_pending := ps, be_deferreds := ds\<rparr>) = ?b\<lparr>be_pending := ps, be_deferreds := ds\<rparr>"
      by (simp add: settle_closed)
    moreover have "failStartup ops g rd owned e b =
        (settle rd (Failed e) (failAllPending e (Some g) ?b), [Cleanup \<lparr>cl_resource = owned, cl_stopping = None, cl_reset = False\<rparr>])"
    proof (cases "be_lifecycle b")
      case (Starting g' rd' r)
      then have "g' \<noteq> g"
        using other by blast
      then show ?thesis
        by (simp add: failStartup_def Let_def Starting)
    qed (simp_all add: failStartup_def Let_def)
    ultimately have res: "b' = ?b\<lparr>be_pending := ps, be_deferreds := ds\<rparr>"
      "fs' = [Cleanup \<lparr>cl_resource = owned, cl_stopping = None, cl_reset = False\<rparr>]"
      using r ds(1) by simp_all
    have "sound b' (insert f F)"
      unfolding res using soundD(4,5) [OF s] ds(2-4) by (intro sound_move [OF s]) (simp_all add: moves_same)
    then show ?thesis
      unfolding res(2) list.set Un_insert_left Un_empty_left
      by (rule sound_replace [where f = f]) (use f(1,2) other starts_not [OF f(1)] in \<open>auto simp: res(1)\<close>)
  qed
qed


subsection \<open>Starting\<close>

lemma sound_advance:
  assumes "sound b (insert f F)" "fiber_sound (be_lifecycle b) (be_deferreds b) f'" "owns f' = owns f" "starts f' = starts f" "ends f' = ends f"
  shows "sound b (insert f' F)"
proof -
  have "progressing (be_lifecycle b) (insert f' F)"
    using soundD(4) [OF assms(1)] assms(4,5) by (auto simp: progressing_def split: lifecycle.splits)
  moreover have "scopes_known (be_lifecycle b) (be_open b) (insert f' F)"
    using soundD(5) [OF assms(1)] assms(3) by (simp add: scopes_known_def)
  ultimately show ?thesis
    using assms(1,2) unfolding sound_def by blast
qed

lemma fiber_resource:
  "fiber_sound (Starting g rd r) ds f \<Longrightarrow> map_option fst (starts f) \<noteq> Some g \<Longrightarrow> fiber_sound (Starting g rd r') ds f"
  by (cases f) (auto simp: start_sound_def split: option.splits)

lemma sound_begin_spawn:
  assumes s: "sound b (insert f F)" and f: "starts f = Some (g, rd)" "owns f = None"
    and one: "\<And>f'. f' \<in> F \<Longrightarrow> map_option fst (starts f') \<noteq> Some g"
    and r: "begin_spawn cfg ops g rd b = (b', fs')"
  shows "sound b' (set fs' \<union> F)"
proof (cases "is_starting g b")
  case True
  then obtain res where l: "be_lifecycle b = Starting g rd res" and none: "rs_scope res = None"
    using fiber_start [OF soundD(3) [OF s insertI1] f(1)]
    by (auto simp: is_starting_def start_sound_def f(2) split: lifecycle.splits)
  let ?s = "be_scopes b"
  let ?f = "Start_spawn g rd (emptyResource\<lparr>rs_scope := Some ?s\<rparr>)" and ?l = "Starting g rd (res\<lparr>rs_scope := Some ?s\<rparr>)"
  have res: "b' = b\<lparr>be_scopes := ?s + 1, be_open := ?s # be_open b, be_lifecycle := ?l\<rparr>" "fs' = [?f]"
    using r by (simp_all add: begin_spawn_def l Let_def)
  have "pending_sound ?l n ps = pending_sound (be_lifecycle b) n ps" for n ps
    by (simp add: pending_sound_def live_def l)
  moreover have "deferreds_sound ?l ps ds = deferreds_sound (be_lifecycle b) ps ds" for ps ds
    by (simp add: deferreds_sound_def l)
  moreover have "fiber_sound ?l (be_deferreds b) f'" if "f' \<in> F" for f'
    using soundD(3) [OF s, of f'] one [OF that] that fiber_resource unfolding l by blast
  moreover have "scopes_known ?l (?s # be_open b) (insert ?f F)"
    using soundD(5) [OF s] by (auto simp: scopes_known_def l none f(2))
  ultimately show ?thesis
    using s unfolding res by (auto simp: sound_def progressing_def start_sound_def)
next
  case False
  then have "begin_spawn cfg ops g rd b = failStartup ops g rd emptyResource (cancelled cfg) b"
    by (auto simp: begin_spawn_def is_starting_def split: lifecycle.splits)
  then show ?thesis
    using r f(2) by (intro sound_failStartup [OF s f(1), where owned = emptyResource]) (simp_all add: emptyResource_def)
qed

lemma sound_looked_up:
  assumes "sound b (insert (Start_lookup g rd) F)" "\<And>f'. f' \<in> F \<Longrightarrow> map_option fst (starts f') \<noteq> Some g"
    "looked_up cfg ops g rd answer b = (b', fs')"
  shows "sound b' (set fs' \<union> F)"
proof (cases answer)
  case Found
  then show ?thesis
    using assms(2,3) by (intro sound_begin_spawn [OF assms(1)]) (simp_all add: looked_up_def)
next
  case Not_installed
  then show ?thesis
    using assms(3) by (intro sound_failStartup [OF assms(1), where owned = emptyResource]) (simp_all add: looked_up_def emptyResource_def)
next
  case (Lookup_failed cause)
  then show ?thesis
    using assms(3) by (intro sound_failStartup [OF assms(1), where owned = emptyResource]) (simp_all add: looked_up_def emptyResource_def)
qed

lemma sound_start:
  assumes s: "sound b F" and one: "\<And>f'. f' \<in> F \<Longrightarrow> map_option fst (starts f') \<noteq> Some (generation_of (be_lifecycle b) + 1)"
    and r: "ensureStarted cfg ops b = (a, b', fs')"
  shows "sound b' (set fs' \<union> F)"
proof (cases "be_lifecycle b")
  case (Idle g)
  let ?d = "length (be_deferreds b)"
  let ?l = "Starting (g + 1) ?d emptyResource"
  let ?b = "resetSemanticState b\<lparr>be_deferreds := be_deferreds b @ [None], be_lifecycle := ?l\<rparr>" and ?f = "Start_lookup (g + 1) ?d"
  have fields [simp]: "be_pending (resetSemanticState b) = be_pending b" "be_deferreds (resetSemanticState b) = be_deferreds b"
    "be_nextId (resetSemanticState b) = be_nextId b" "be_open (resetSemanticState b) = be_open b"
    by (simp_all add: resetSemanticState_def)
  have "be_pending b = []"
    using soundD(1) [OF s] by (cases "be_pending b") (auto simp: pending_sound_def live_def Idle)
  moreover have "deferreds_sound ?l [] (be_deferreds b @ [None])"
    using soundD(2) [OF s] open_new [of "be_deferreds b"]
    by (simp add: deferreds_sound_def Idle waiting_requests_def \<open>be_pending b = []\<close>)
  moreover have "moves (be_lifecycle b) (be_deferreds b) ?l (be_deferreds b @ [None])"
    by (simp add: moves_def Idle)
  moreover have "scopes_known ?l (be_open b) (insert ?f F)"
    using soundD(5) [OF s] by (auto simp: scopes_known_def Idle emptyResource_def)
  ultimately have started: "sound ?b (insert ?f F)"
    by (intro sound_move [OF s]) (auto simp: progressing_def start_sound_def emptyResource_def)
  show ?thesis
  proof (cases "cf_launchCommand cfg = cf_binaryName cfg")
    case True
    then show ?thesis
      using r started by (auto simp: ensureStarted_def Idle new_deferred_eq Let_def)
  next
    case False
    then have "begin_spawn cfg ops (g + 1) ?d ?b = (b', fs')"
      using r by (simp add: ensureStarted_def Idle new_deferred_eq Let_def split: prod.splits)
    then show ?thesis
      using sound_begin_spawn [OF started] one by (simp add: Idle)
  qed
qed (use s r in \<open>simp_all add: ensureStarted_def\<close>)


lemma sound_install:
  assumes "sound b F" "\<And>r. rs_scope (patch r) = rs_scope r"
  shows "sound (install g patch b) F"
proof (cases "be_lifecycle b")
  case (Starting g' rd r)
  let ?l = "Starting g' rd (patch r)"
  have "pending_sound ?l n ps = pending_sound (be_lifecycle b) n ps" for n ps
    by (simp add: pending_sound_def live_def Starting)
  moreover have "deferreds_sound ?l ps ds = deferreds_sound (be_lifecycle b) ps ds" for ps ds
    by (simp add: deferreds_sound_def Starting)
  moreover have "moves (be_lifecycle b) ds ?l ds" for ds
    by (simp add: moves_def Starting assms(2))
  moreover have "progressing ?l F" "scopes_known ?l (be_open b) F"
    using soundD(4,5) [OF assms(1)] by (simp_all add: progressing_def scopes_known_def Starting assms(2))
  ultimately have "sound (b\<lparr>be_lifecycle := ?l\<rparr>) F"
    using soundD(1,2) [OF assms(1)] by (intro sound_move [OF assms(1)]) simp_all
  then show ?thesis
    using assms(1) by (auto simp: install_def Starting)
qed (use assms in \<open>simp_all add: install_def\<close>)

lemma install_fields [simp]:
  "be_deferreds (install g patch b) = be_deferreds b" "is_starting g (install g patch b) = is_starting g b"
  by (auto simp: install_def is_starting_def split: lifecycle.split)

lemma sound_initialize_server:
  assumes s: "sound b F" and g: "is_starting g b" and r: "initialize_server cfg g written b = (d, b')"
  shows "sound b' F" "d < length (be_deferreds b')"
    "is_starting g b'" "\<exists>x. be_deferreds b' = be_deferreds b @ x"
proof -
  obtain rd res where l: "be_lifecycle b = Starting g rd res"
    using g by (auto simp: is_starting_def split: lifecycle.splits)
  have "sound (with_request g b) F"
    by (rule sound_with_request [OF s]) (simp add: l live_def)
  moreover have "addPending (be_nextId b) (length (be_deferreds b)) g
      (b\<lparr>be_nextId := Suc (be_nextId b), be_deferreds := be_deferreds b @ [None]\<rparr>) = with_request g b"
    using request_added [OF s] by simp
  ultimately show "sound b' F" "d < length (be_deferreds b')" "is_starting g b'" "\<exists>x. be_deferreds b' = be_deferreds b @ x"
    using r by (auto simp: initialize_server_def new_deferred_def Let_def with_request_def is_starting_def l)
qed

lemma sound_spawned:
  assumes s: "sound b (insert (Start_spawn g rd owned) F)" and r: "spawned cfg ops g rd owned answer b = (b', fs')"
  shows "sound b' (set fs' \<union> F)"
proof -
  let ?f = "Start_spawn g rd owned" and ?p = "rs_scope owned"
  let ?b = "install g (\<lambda>r. r\<lparr>rs_process := ?p\<rparr>) b"
  let ?b' = "install g (\<lambda>r. r\<lparr>rs_listeners := True\<rparr>) ?b"
  have installed: "sound ?b (insert ?f F)" "sound ?b' (insert ?f F)"
    using s by (simp_all add: sound_install)
  show ?thesis
  proof (cases "(\<exists>c. answer = Spawn_failed c) \<or> \<not> is_starting g b")
    case True
    then obtain o1 e where "failStartup ops g rd o1 e b = (b', fs')" "rs_scope o1 = rs_scope owned"
      using r by (cases answer) (auto simp: spawned_def Let_def)
    then show ?thesis
      by (intro sound_failStartup [OF s]) simp_all
  next
    case False
    then consider c where "answer = Attach_failed c" | c where "answer = Write_failed c" | "answer = Spawned"
      by (cases answer) auto
    then show ?thesis
    proof cases
      case 1
      then have "failStartup ops g rd (owned\<lparr>rs_process := ?p\<rparr>)
          (backendErrorFromCause Startup_error (cf_name cfg @ '' language server listener setup failed'') c) ?b = (b', fs')"
        using r False by (simp add: spawned_def Let_def)
      then show ?thesis
        by (intro sound_failStartup [OF installed(1)]) simp_all
    next
      case 2
      obtain d b1 where i: "initialize_server cfg g False ?b' = (d, b1)"
        by fastforce
      have "failStartup ops g rd (owned\<lparr>rs_process := ?p, rs_listeners := True\<rparr>)
          (backendErrorFromCause Initialize_error (cf_name cfg @ '' LSP initialize write failed'') c) b1 = (b', fs')"
        using r False 2 i by (simp add: spawned_def Let_def)
      then show ?thesis
        using sound_initialize_server(1) [OF installed(2) _ i] False by (intro sound_failStartup [where f = ?f]) simp_all
    next
      case 3
      obtain d b1 where i: "initialize_server cfg g True ?b' = (d, b1)"
        by fastforce
      let ?f' = "Start_init g rd (owned\<lparr>rs_process := ?p, rs_listeners := True\<rparr>) d"
      have res: "b' = b1" "fs' = [?f']"
        using r False 3 i by (simp_all add: spawned_def Let_def)
      have b1: "sound b1 (insert ?f F)" "d < length (be_deferreds b1)"
        using sound_initialize_server(1,2) [OF installed(2) _ i] False by simp_all
      then have "sound b1 (insert ?f' F)"
        using soundD(3) [OF b1(1), of ?f] by (intro sound_advance [OF b1(1)]) simp_all
      then show ?thesis
        by (simp add: res)
    qed
  qed
qed


lemma sound_initialized:
  assumes s: "sound b (insert (Start_init g rd owned d) F)" and r: "initialized cfg ops g rd owned answer b = (b', fs')"
  shows "sound b' (set fs' \<union> F)"
proof (cases "(\<exists>e. answer = Failed e) \<or> \<not> is_starting g b")
  case True
  then obtain e where "failStartup ops g rd owned e b = (b', fs')"
    using r by (cases answer) (auto simp: initialized_def)
  then show ?thesis
    by (intro sound_failStartup [OF s]) simp_all
next
  case False
  let ?m = "notification ''initialized'' (JObj [])"
  obtain res where l: "be_lifecycle b = Starting g rd res" and scope: "rs_scope res = rs_scope owned"
    using False fiber_start [OF soundD(3) [OF s insertI1], of g rd]
    by (auto simp: is_starting_def start_sound_def split: lifecycle.splits)
  let ?b = "sendLsp ?m (Some g) b\<lparr>be_lifecycle := Running g res, be_startupFailure := None\<rparr>"
  obtain ds where ds: "settle rd Settled ?b = ?b\<lparr>be_deferreds := ds\<rparr>" "length ds = length (be_deferreds b)" "later (be_deferreds b) ds"
      "{x. open_at ds x} = {x. open_at (be_deferreds b) x} - {rd}" "rd < length ds \<longrightarrow> closed_at ds rd"
    using settle_deferreds [of rd Settled ?b] by auto
  have rd: "rd < length ds"
    using open_bound [OF soundD(2) [OF s], of rd] by (simp add: l ds(2))
  have res: "b' = ?b\<lparr>be_deferreds := ds\<rparr>" "fs' = []"
    using r False ds(1) by (auto simp: initialized_def l Let_def split: outcome.splits)
  have "moves (be_lifecycle b) (be_deferreds b) (Running g res) ds"
    using ds(3,5) rd by (simp add: moves_def l)
  moreover have "pending_sound (Running g res) (be_nextId b) (be_pending b)"
    using soundD(1) [OF s] by (simp add: pending_sound_def live_def l)
  moreover have "deferreds_sound (Running g res) (be_pending b) ds"
    using soundD(2) [OF s] unfolding deferreds_sound_def ds(4) by (auto simp: l)
  moreover have "scopes_known (Running g res) (be_open b) F"
    using soundD(5) [OF s] by (simp add: scopes_known_def l scope)
  ultimately show ?thesis
    unfolding res by (intro sound_move [OF s]) (simp_all add: progressing_def)
qed

subsection \<open>Stopping\<close>

lemma open_only:
  assumes "deferreds_sound l ps ds" "later (ds @ [None]) ds'"
    "{x. open_at ds' x} = {x. open_at (ds @ [None]) x} - waiting_requests ps - roles l"
  shows "{x. open_at ds' x} = {length ds}"
proof -
  have "length ds \<notin> roles l"
    using open_bound [OF assms(1), of "length ds"] by blast
  then show ?thesis
    unfolding assms(3) open_insert_fresh [OF assms(1)] by blast
qed

lemma sound_failAndReset:
  assumes s: "sound b F" and r: "failAndReset ops g e b = (b', fs')"
  shows "sound b' (set fs' \<union> F)"
proof -
  define b1 where "b1 = (case be_lifecycle b of
      Starting g' rd r \<Rightarrow> b\<lparr>be_semantic := False, be_startupFailure := Some (compactStatusDetail (er_message e))\<rparr>
    | _ \<Rightarrow> b\<lparr>be_semantic := False\<rparr>)"
  have same: "be_lifecycle b1 = be_lifecycle b" "be_pending b1 = be_pending b" "be_deferreds b1 = be_deferreds b"
    "be_nextId b1 = be_nextId b" "be_open b1 = be_open b"
    by (simp_all add: b1_def split: lifecycle.split)
  have s1: "sound b1 F"
    using s by (simp add: b1_def split: lifecycle.split)
  note P = soundD(1) [OF s1] and D = soundD(2) [OF s1]
  show ?thesis
  proof (cases "map_option fst (live (be_lifecycle b)) = Some g")
    case False
    then have "b' = b1" "fs' = []"
      using r by (auto simp: failAndReset_def b1_def Let_def live_def split: lifecycle.splits)
    then show ?thesis
      using s1 by simp
  next
    case True
    then obtain res where live: "live (be_lifecycle b1) = Some (g, res)"
      by (auto simp: same)
    then have scope: "rs_scope res = scope_of (be_lifecycle b1)" "generation_of (be_lifecycle b1) = g"
      "be_lifecycle b1 \<noteq> Stopping g' d r st" for g' d r st
      by (auto simp: live_def split: lifecycle.splits)
    let ?d = "length (be_deferreds b1)"
    let ?st = "case be_lifecycle b1 of Starting _ rd _ \<Rightarrow> Some rd | _ \<Rightarrow> None"
    let ?b2 = "resetCaches ops (b1\<lparr>be_deferreds := be_deferreds b1 @ [None], be_lifecycle := Stopping (g + 1) ?d res ?st\<rparr>)"
    have ok: "jm_ok (be_pending ?b2)" "taken (Some g) (be_pending ?b2) = be_pending ?b2"
      using P taken_live [OF P, of g] live by (simp_all add: pending_sound_def)
    obtain ds where ds: "failAllPending e (Some g) ?b2 = ?b2\<lparr>be_pending := [], be_deferreds := ds\<rparr>" "later (be_deferreds b1 @ [None]) ds"
      "{x. open_at ds x} = {x. open_at (be_deferreds b1 @ [None]) x} - waiting_requests (be_pending b1)"
      using failAll_none [OF ok, of e] by force
    let ?b3 = "?b2\<lparr>be_pending := [], be_deferreds := ds\<rparr>"
    define b4 where "b4 = (case ?st of Some rd \<Rightarrow> settle rd (Failed e) ?b3 | None \<Rightarrow> ?b3)"
    have roles: "roles (be_lifecycle b1) = (case ?st of Some rd \<Rightarrow> {rd} | None \<Rightarrow> {})"
      using live by (auto simp: live_def split: lifecycle.splits)
    have "\<exists>ds'. b4 = ?b3\<lparr>be_deferreds := ds'\<rparr> \<and> later ds ds' \<and> {x. open_at ds' x} = {x. open_at ds x} - roles (be_lifecycle b1)"
    proof (cases ?st)
      case None
      then show ?thesis
        unfolding b4_def roles by (intro exI [of _ ds]) simp
    next
      case (Some rd)
      then show ?thesis
        unfolding b4_def roles using settle_deferreds [of rd "Failed e" ?b3] by auto
    qed
    then obtain ds' where ds': "b4 = ?b3\<lparr>be_deferreds := ds'\<rparr>" "later (be_deferreds b1 @ [None]) ds'" "{x. open_at ds' x} = {?d}"
      using open_only [OF D] later_trans [OF ds(2)] unfolding ds(3) by blast
    let ?c = "\<lparr>cl_resource = res, cl_stopping = Some (?d, g + 1, None), cl_reset = False\<rparr>"
    have res: "b' = b4" "fs' = [Cleanup ?c]"
      using r live ds(1) by (simp_all add: failAndReset_def b1_def [symmetric] b4_def Let_def new_deferred_eq same live_def split: lifecycle.splits)
    have "sound b4 (insert (Cleanup ?c) F)"
      by (rule sound_stop [OF s1, where d = ?d and r = res and st = ?st and u = None])
        (use scope ds' in \<open>auto simp: resetCaches_def\<close>)
    then show ?thesis
      by (simp add: res)
  qed
qed


lemma shutdown_messages_fields:
  "\<exists>n s. shutdown_messages r b = b\<lparr>be_nextId := n, be_sent := s\<rparr> \<and> be_nextId b \<le> n"
proof -
  have "\<exists>n s. b = b\<lparr>be_nextId := n, be_sent := s\<rparr> \<and> be_nextId b \<le> n"
    by (intro exI [of _ "be_nextId b"] exI [of _ "be_sent b"]) simp
  then show ?thesis
    unfolding shutdown_messages_def by (cases "rs_process r") (auto intro: exI [of _ "Suc (be_nextId b)"])
qed

lemma sound_shutdown:
  assumes s: "sound b F" and r: "shutdown cfg b = (a, b', fs')"
  shows "sound b' (set fs' \<union> F)"
proof -
  let ?l = "be_lifecycle b" and ?d = "length (be_deferreds b)"
  let ?e = "backendError Shutdown_error (cf_name cfg @ '' LSP shutdown'')"
  note P = soundD(1) [OF s] and D = soundD(2) [OF s]
  have ok: "jm_ok (be_pending b)"
    using P by (simp add: pending_sound_def)
  have stopped: ?thesis
    if b1: "be_lifecycle b1 = Stopping (generation_of ?l + 1) ?d res st" "be_pending b1 = be_pending b" "be_open b1 = be_open b"
        "be_nextId b \<le> be_nextId b1" "later (be_deferreds b @ [None]) (be_deferreds b1)"
        "{x. open_at (be_deferreds b1) x} = {x. open_at (be_deferreds b @ [None]) x} - roles ?l"
      and l: "rs_scope res = scope_of ?l" "\<And>g d r st. ?l \<noteq> Stopping g d r st"
      and r': "b' = failAllPending ?e None b1" "fs' = [Cleanup \<lparr>cl_resource = res, cl_stopping = Some (?d, generation_of ?l + 1, None), cl_reset = True\<rparr>]"
    for b1 res st
  proof -
    obtain ds where ds: "b' = b1\<lparr>be_pending := [], be_deferreds := ds\<rparr>" "later (be_deferreds b @ [None]) ds"
      "{x. open_at ds x} = {x. open_at (be_deferreds b @ [None]) x} - roles ?l - waiting_requests (be_pending b)"
      using failAll_none [of b1 None ?e] ok later_trans [OF b1(5)] unfolding r'(1) b1(2,6) by (metis taken_None)
    have only: "{x. open_at ds x} = {?d}"
      by (rule open_only [OF D ds(2)]) (use ds(3) in blast)
    show ?thesis
      unfolding r'(2) list.set Un_insert_left Un_empty_left
      by (rule sound_stop [OF s, where d = ?d and r = res and st = st and u = None])
        (use b1 l ds only in auto)
  qed
  show ?thesis
  proof (cases ?l)
    case (Starting g rd res)
    let ?b = "b\<lparr>be_deferreds := be_deferreds b @ [None], be_lifecycle := Stopping (g + 1) ?d res (Some rd)\<rparr>"
    obtain ds where ds: "settle rd (Failed (cancelled cfg)) ?b = ?b\<lparr>be_deferreds := ds\<rparr>"
      "later (be_deferreds b @ [None]) ds" "{x. open_at ds x} = {x. open_at (be_deferreds b @ [None]) x} - {rd}"
      using settle_deferreds [of rd "Failed (cancelled cfg)" ?b] by auto
    show ?thesis
      by (rule stopped [of "?b\<lparr>be_deferreds := ds\<rparr>" res "Some rd"])
        (use r ds in \<open>simp_all add: shutdown_def Starting new_deferred_eq Let_def\<close>)
  next
    case (Running g res)
    let ?b = "b\<lparr>be_deferreds := be_deferreds b @ [None], be_lifecycle := Stopping (g + 1) ?d res None\<rparr>"
    obtain n ms where m: "shutdown_messages res ?b = ?b\<lparr>be_nextId := n, be_sent := ms\<rparr>" "be_nextId b \<le> n"
      using shutdown_messages_fields [of res ?b] by auto
    show ?thesis
      by (rule stopped [of "?b\<lparr>be_nextId := n, be_sent := ms\<rparr>" res None])
        (use r m in \<open>simp_all add: shutdown_def Running new_deferred_eq Let_def\<close>)
  qed (use s r in \<open>simp_all add: shutdown_def\<close>)
qed

lemma stopping_quiet:
  assumes "pending_sound l n ps" "live l = None"
  shows "ps = []"
  using assms by (cases ps) (auto simp: pending_sound_def)

lemma sound_cleaned_up:
  assumes s: "sound b (insert (Cleanup c) F)"
  shows "sound (cleaned_up ops c b) F"
proof -
  let ?l = "be_lifecycle b"
  define os where "os = (case rs_scope (cl_resource c) of None \<Rightarrow> be_open b | Some x \<Rightarrow> removeAll x (be_open b))"
  define b1 where "b1 = (let b1 = b\<lparr>be_open := os\<rparr> in if cl_reset c then resetSemanticState (resetCaches ops b1) else b1)"
  have same: "be_lifecycle b1 = ?l" "be_pending b1 = be_pending b" "be_deferreds b1 = be_deferreds b" "be_nextId b1 = be_nextId b"
    "be_open b1 = os"
    by (simp_all add: b1_def Let_def resetSemanticState_def resetCaches_def)
  have "(case rs_scope (cl_resource c) of None \<Rightarrow> b | Some x \<Rightarrow> b\<lparr>be_open := removeAll x (be_open b)\<rparr>) = b\<lparr>be_open := os\<rparr>"
    by (simp add: os_def split: option.split)
  then have clean: "cleaned_up ops c b = (case cl_stopping c of
        None \<Rightarrow> b1
      | Some (d, g, u) \<Rightarrow>
          settle d Settled (case be_lifecycle b1 of
                Stopping _ d' _ _ \<Rightarrow>
                  if d' = d then b1\<lparr>be_lifecycle := (case u of Some m \<Rightarrow> Unavailable g m | None \<Rightarrow> Idle g)\<rparr> else b1
              | _ \<Rightarrow> b1))"
    by (simp only: cleaned_up_def b1_def Let_def)
  have os: "Some ` set os \<subseteq> insert (scope_of ?l) (owns ` F)" "scope_of ?l = rs_scope (cl_resource c) \<Longrightarrow> Some ` set os \<subseteq> owns ` F"
    using soundD(5) [OF s] by (auto simp: scopes_known_def os_def split: option.splits)
  have other: "sound b1 F" if "ends (Cleanup c) = None \<or> (\<forall>g r st. ?l \<noteq> Stopping g (the (ends (Cleanup c))) r st)"
  proof (rule sound_move [OF s])
    show "progressing (be_lifecycle b1) F"
      using soundD(4) [OF s] that unfolding same by (auto simp: progressing_def split: lifecycle.splits)
  qed (use soundD(1,2) [OF s] os(1) in \<open>auto simp: same moves_same scopes_known_def\<close>)
  show ?thesis
  proof (cases "cl_stopping c")
    case None
    then show ?thesis
      using other by (simp add: clean)
  next
    case (Some x)
    obtain d g u where x: "x = (d, g, u)"
      by (metis prod.exhaust)
    have f: "fiber_sound ?l (be_deferreds b) (Cleanup c)"
      by (rule soundD(3) [OF s insertI1])
    show ?thesis
    proof (cases "\<exists>g' r st. ?l = Stopping g' d r st")
      case True
      then obtain r st where l: "?l = Stopping g d r st" and d: "d < length (be_deferreds b)" and scope: "rs_scope r = rs_scope (cl_resource c)"
        using f by (auto simp: Some x)
      let ?l' = "case u of Some m \<Rightarrow> Unavailable g m | None \<Rightarrow> Idle g"
      let ?b = "b1\<lparr>be_lifecycle := ?l'\<rparr>"
      obtain ds where ds: "settle d Settled ?b = ?b\<lparr>be_deferreds := ds\<rparr>" "later (be_deferreds b) ds"
        "{x. open_at ds x} = {x. open_at (be_deferreds b) x} - {d}" "closed_at ds d"
        using settle_deferreds [of d Settled ?b] d by (auto simp: same)
      have res: "cleaned_up ops c b = ?b\<lparr>be_deferreds := ds\<rparr>"
        using ds(1) by (simp add: clean Some x same l)
      have l': "generation_of ?l' = g" "roles ?l' = {}" "scope_of ?l' = None" "live ?l' = None"
          "moves ?l (be_deferreds b) ?l' ds" "progressing ?l' F"
        using ds(2,4) by (simp_all add: moves_def progressing_def live_def l split: option.split)
      have none: "be_pending b = []"
        using stopping_quiet [OF soundD(1) [OF s]] by (simp add: l live_def)
      have "deferreds_sound ?l' [] ds"
        using soundD(2) [OF s] by (simp add: deferreds_sound_def none waiting_requests_def l l'(2) ds(3))
      moreover have "scopes_known ?l' os F"
        using os(2) by (auto simp: scopes_known_def l'(3) l scope)
      ultimately show ?thesis
        unfolding res by (intro sound_move [OF s]) (simp_all add: same l'(5,6) none)
    next
      case False
      then have "closed_at (be_deferreds b) d"
        using f by (auto simp: Some x split: lifecycle.splits if_splits)
      then have "\<not> open_at (be_deferreds b1) d"
        by (simp add: same open_at_def closed_at_def)
      then have "cleaned_up ops c b = b1"
        using False by (auto simp: clean Some x same settle_closed split: lifecycle.split)
      then show ?thesis
        using other False by (simp add: Some x)
    qed
  qed
qed


subsection \<open>Messages\<close>

lemma sound_appendStderr:
  assumes s: "sound b F"
  shows "sound (appendStderr g chunk b) F"
proof -
  define add :: "resource \<Rightarrow> resource" where "add r = (let t = rs_stderr r @ chunk in r\<lparr>rs_stderr := drop (length t - 4000) t\<rparr>)" for r
  have add: "rs_scope (add r) = rs_scope r" for r
    by (simp add: add_def Let_def)
  have stderr: "appendStderr g chunk b = (case be_lifecycle b of
      Starting g' rd r \<Rightarrow> if g' = g then b\<lparr>be_lifecycle := Starting g' rd (add r)\<rparr> else b
    | Running g' r \<Rightarrow> if g' = g then b\<lparr>be_lifecycle := Running g' (add r)\<rparr> else b
    | _ \<Rightarrow> b)"
    unfolding appendStderr_def add_def Let_def ..
  show ?thesis
  proof (cases "be_lifecycle b")
    case (Starting g' rd r)
    have "appendStderr g chunk b = install g add b"
      by (simp add: stderr install_def Starting)
    then show ?thesis
      by (simp add: sound_install [OF s] add)
  next
    case (Running g' r)
    let ?l = "Running g' (add r)"
    have "pending_sound ?l n ps = pending_sound (be_lifecycle b) n ps" for n ps
      by (simp add: pending_sound_def live_def Running)
    moreover have "deferreds_sound ?l ps ds = deferreds_sound (be_lifecycle b) ps ds" for ps ds
      by (simp add: deferreds_sound_def Running)
    moreover have "moves (be_lifecycle b) ds ?l ds" for ds
      by (simp add: moves_def Running)
    moreover have "scopes_known ?l (be_open b) F"
      using soundD(5) [OF s] by (simp add: scopes_known_def Running add)
    ultimately have "sound (b\<lparr>be_lifecycle := ?l\<rparr>) F"
      using soundD(1,2) [OF s] by (intro sound_move [OF s]) (simp_all add: progressing_def)
    then show ?thesis
      using s by (auto simp: stderr Running)
  qed (use s in \<open>simp_all add: stderr\<close>)
qed

lemma sound_onLspMessage: "sound b F \<Longrightarrow> sound (onLspMessage cfg ops m g b) F"
  by (auto simp: onLspMessage_def sound_complete split: option.split)

subsection \<open>One start at a time\<close>

definition start_count :: "nat \<Rightarrow> fiber list \<Rightarrow> nat" where
  "start_count g fs = length (filter (\<lambda>f. map_option fst (starts f) = Some g) fs)"

lemma start_count_simps [simp]:
  "start_count g [] = 0" "start_count g (fs @ gs) = start_count g fs + start_count g gs"
  "start_count g (f # fs) = (if map_option fst (starts f) = Some g then 1 else 0) + start_count g fs"
  by (simp_all add: start_count_def)

lemma start_count_0: "start_count g fs = 0 \<longleftrightarrow> (\<forall>f\<in>set fs. map_option fst (starts f) \<noteq> Some g)"
  by (auto simp: start_count_def filter_empty_conv)

lemma failStartup_starts: "failStartup ops g rd owned e b = (b', fs') \<Longrightarrow> start_count h fs' = 0"
  by (auto simp: failStartup_def Let_def split: prod.splits)

lemma begin_spawn_starts: "begin_spawn cfg ops g rd b = (b', fs') \<Longrightarrow> start_count h fs' \<le> (if h = g then 1 else 0)"
  by (auto simp: begin_spawn_def Let_def dest!: failStartup_starts [where h = h] split: lifecycle.splits if_splits)

lemma failAndReset_starts: "failAndReset ops g e b = (b', fs') \<Longrightarrow> start_count h fs' = 0"
  by (auto simp: failAndReset_def Let_def split: prod.splits option.splits if_splits)

lemma shutdown_starts: "shutdown cfg b = (a, b', fs') \<Longrightarrow> start_count h fs' = 0"
  by (auto simp: shutdown_def Let_def split: prod.splits lifecycle.splits)

lemma lspRequest_starts: "lspRequest cfg method params failure b = (a, b', fs') \<Longrightarrow> start_count h fs' = 0"
  by (auto simp: lspRequest_def Let_def split: prod.splits lifecycle.splits option.splits)

lemma ensureStarted_starts:
  "ensureStarted cfg ops b = (a, b', fs') \<Longrightarrow> start_count h fs' \<le> (if h = generation_of (be_lifecycle b) + 1 then 1 else 0)"
  by (auto simp: ensureStarted_def Let_def dest!: begin_spawn_starts [where h = h] split: prod.splits lifecycle.splits if_splits)

lemma looked_up_starts: "looked_up cfg ops g rd answer b = (b', fs') \<Longrightarrow> start_count h fs' \<le> (if h = g then 1 else 0)"
  by (cases answer) (auto simp: looked_up_def dest!: begin_spawn_starts [where h = h] failStartup_starts [where h = h] split: if_splits)

lemma spawned_starts: "spawned cfg ops g rd owned answer b = (b', fs') \<Longrightarrow> start_count h fs' \<le> (if h = g then 1 else 0)"
  by (cases answer)
    (auto simp: spawned_def Let_def dest!: failStartup_starts [where h = h] split: prod.splits if_splits)

lemma initialized_starts: "initialized cfg ops g rd owned answer b = (b', fs') \<Longrightarrow> start_count h fs' = 0"
  by (cases answer)
    (auto simp: initialized_def Let_def dest!: failStartup_starts [where h = h] split: lifecycle.splits if_splits)

text \<open>The code that waits, resumed.\<close>

lemma sound_resume:
  assumes s: "sound b (insert f F)" and one: "\<And>g f'. map_option fst (starts f) = Some g \<Longrightarrow> f' \<in> F \<Longrightarrow> map_option fst (starts f') \<noteq> Some g"
    and r: "resume cfg ops f a b = Some (b', fs')"
  shows "sound b' (set fs' \<union> F)" "start_count h fs' \<le> start_count h [f]"
proof -
  have kept: "sound b F" if "starts f = None" "ends f = None" "owns f = None"
  proof (rule sound_move [OF s])
    show "progressing (be_lifecycle b) F"
      using soundD(4) [OF s] that by (auto simp: progressing_def split: lifecycle.splits)
  qed (use soundD(1,2,5) [OF s] that in \<open>auto simp: moves_same scopes_known_def\<close>)
  have "sound b' (set fs' \<union> F) \<and> start_count h fs' \<le> start_count h [f]"
  proof (cases f)
    case (Start_lookup g rd)
    then obtain l where "looked_up cfg ops g rd l b = (b', fs')"
      using r by (cases a) (simp_all add: resume_def)
    then show ?thesis
      using sound_looked_up [of b g rd F] s one [of g] looked_up_starts [of cfg ops g rd l b b' fs' h]
      by (auto simp: Start_lookup split: if_splits)
  next
    case (Start_spawn g rd owned)
    then obtain l where "spawned cfg ops g rd owned l b = (b', fs')"
      using r by (cases a) (simp_all add: resume_def)
    then show ?thesis
      using sound_spawned [of b g rd owned F] s spawned_starts [of cfg ops g rd owned l b b' fs' h]
      by (auto simp: Start_spawn split: if_splits)
  next
    case (Start_init g rd owned d)
    then obtain o1 where "initialized cfg ops g rd owned o1 b = (b', fs')"
      using r by (cases a) (auto simp: resume_def)
    then show ?thesis
      using sound_initialized [of b g rd owned d F] s initialized_starts [of cfg ops g rd owned o1 b b' fs' h]
      by (auto simp: Start_init)
  next
    case (Cleanup c)
    then have "b' = cleaned_up ops c b" "fs' = []"
      using r by (cases a; simp add: resume_def)+
    then show ?thesis
      using sound_cleaned_up [of b c F] s by (simp add: Cleanup)
  next
    case (Request m d)
    then obtain o1 where "b' = request_done m o1 b" "fs' = []"
      using r by (cases a) (auto simp: resume_def)
    then show ?thesis
      using kept by (simp add: Request request_done_def split: outcome.split)
  qed
  then show "sound b' (set fs' \<union> F)" "start_count h fs' \<le> start_count h [f]"
    by blast+
qed


section \<open>Reachable systems\<close>

definition system_sound :: "'c backend \<Rightarrow> fiber list \<Rightarrow> bool" where
  "system_sound b fs \<longleftrightarrow> sound b (set fs) \<and> (\<forall>g. start_count g fs \<le> 1)"

lemma system_extend:
  assumes "system_sound b fs" "sound b' (set fs' \<union> set fs)" "\<And>h. start_count h fs' = 0 \<or> start_count h fs = 0 \<and> start_count h fs' \<le> 1"
  shows "system_sound b' (fs @ fs')"
proof -
  have "start_count h (fs @ fs') \<le> 1" for h
    using assms(1) assms(3) [of h] by (auto simp: system_sound_def)
  then show ?thesis
    using assms(2) by (simp add: system_sound_def Un_commute)
qed

lemma starts_bounded: "fiber_sound l ds f \<Longrightarrow> starts f = Some (g, rd) \<Longrightarrow> g \<le> generation_of l"
  by (cases f) (auto simp: start_sound_def)

lemma system_resume:
  assumes s: "system_sound b (xs @ f # ys)" and r: "resume cfg ops f a b = Some (b', fs')"
  shows "system_sound b' (xs @ fs' @ ys)"
proof -
  let ?F = "set xs \<union> set ys"
  have snd: "sound b (insert f ?F)"
    using s by (simp add: system_sound_def)
  have one: "map_option fst (starts f') \<noteq> Some g" if "map_option fst (starts f) = Some g" "f' \<in> ?F" for g f'
  proof -
    have "start_count g (xs @ f # ys) \<le> 1"
      using s unfolding system_sound_def by blast
    then have "start_count g (xs @ ys) = 0"
      using that(1) by simp
    then show ?thesis
      using that(2) unfolding start_count_0 by simp
  qed
  have "start_count h (xs @ fs' @ ys) \<le> start_count h (xs @ f # ys)" for h
    using sound_resume(2) [OF snd one r, of h] by simp
  then have "start_count h (xs @ fs' @ ys) \<le> 1" for h
    using s le_trans unfolding system_sound_def by blast
  then show ?thesis
    using sound_resume(1) [OF snd one r] by (simp add: system_sound_def Un_ac)
qed

lemma system_step:
  assumes "step cfg ops x y" "system_sound (fst x) (snd x)"
  shows "system_sound (fst y) (snd y)"
  using assms
proof (induction rule: step.induct)
  case (start b a b' fs' fs)
  let ?g = "generation_of (be_lifecycle b) + 1"
  have s: "sound b (set fs)"
    using start.prems by (simp add: system_sound_def)
  have none: "map_option fst (starts f) \<noteq> Some ?g" if "f \<in> set fs" for f
    using starts_bounded [OF soundD(3) [OF s that]] by (cases "starts f") auto
  then have "start_count ?g fs = 0"
    by (simp add: start_count_0)
  then have "start_count h fs' = 0 \<or> start_count h fs = 0 \<and> start_count h fs' \<le> 1" for h
    using ensureStarted_starts [OF start.hyps, of h] by (cases "h = ?g") auto
  then show ?case
    using sound_start [OF s none start.hyps] start.prems by (simp add: system_extend)
next
  case (resumed f a b b' fs' xs ys)
  then show ?case
    by (simp add: system_resume)
next
  case (request meth params failure b a b' fs' fs)
  then have "sound b' (set fs' \<union> set fs)"
    using sound_lspRequest [OF _ request.hyps, of "set fs"] by (simp add: system_sound_def Un_commute)
  then show ?case
    using request.prems lspRequest_starts [OF request.hyps] by (simp add: system_extend)
next
  case (exited g code signal b b' fs' fs)
  have "sound b' (set fs' \<union> set fs) \<and> (\<forall>h. start_count h fs' = 0)"
    using exited sound_failAndReset [of b "set fs" ops] failAndReset_starts [of ops]
    by (auto simp: onProcessExit_def system_sound_def split: option.splits prod.splits if_splits)
  then show ?case
    using exited.prems by (simp add: system_extend)
next
  case (errored g cause b b' fs' fs)
  then have "sound b' (set fs' \<union> set fs)" "start_count h fs' = 0" for h
    using sound_failAndReset [of b "set fs" ops] failAndReset_starts [of ops] by (simp_all add: onProcessError_def system_sound_def)
  then show ?case
    using errored.prems by (simp add: system_extend)
next
  case (shut b a b' fs' fs)
  then have "sound b' (set fs' \<union> set fs)"
    using sound_shutdown [of b "set fs"] by (simp add: system_sound_def)
  then show ?case
    using shut.prems shutdown_starts [OF shut.hyps] by (simp add: system_extend)
qed (simp_all add: system_sound_def sound_onLspMessage request_timeout_def sound_complete sound_appendStderr)

lemma reachable_sound: "reachable cfg ops (b, fs) \<Longrightarrow> system_sound b fs"
proof -
  assume "reachable cfg ops (b, fs)"
  then obtain c where "(step cfg ops)\<^sup>*\<^sup>* (initial_backend c, []) (b, fs)"
    by (auto simp: reachable_def)
  then have "system_sound (fst (b, fs)) (snd (b, fs))"
  proof (induction rule: rtranclp_induct)
    case base
    then show ?case
      by (simp add: system_sound_def sound_def initial_backend_def pending_sound_def jm_ok_def deferreds_sound_def open_at_def
          waiting_requests_def progressing_def scopes_known_def)
  qed (rule system_step)
  then show ?thesis
    by simp
qed


section \<open>How a start goes on\<close>

lemma settle_length [simp]: "length (be_deferreds (settle d r b)) = length (be_deferreds b)"
  by (simp add: settle_def)

lemma settle_closes: "d < length (be_deferreds b) \<Longrightarrow> be_deferreds (settle d r b) ! d \<noteq> None"
  by (auto simp: settle_def)

lemma failAllPending_length [simp]: "length (be_deferreds (failAllPending e generation b)) = length (be_deferreds b)"
proof -
  have "length (be_deferreds (fold (\<lambda>(i, p) b. if generation \<noteq> None \<and> generation \<noteq> Some (pd_generation p) then b
      else settle (pd_deferred p) (Failed e) (b\<lparr>be_pending := jm_delete i (be_pending b)\<rparr>)) xs b)) = length (be_deferreds b)" for xs
    by (induction xs arbitrary: b) (auto split: prod.split)
  then show ?thesis
    by (simp add: failAllPending_def)
qed

lemma failStartup_settles:
  assumes "failStartup ops g rd owned e b = (b', fs')" "rd < length (be_deferreds b)"
  shows "be_deferreds b' ! rd \<noteq> None"
proof -
  obtain b1 where "b' = settle rd (Failed e) b1" "length (be_deferreds b) \<le> length (be_deferreds b1)"
    using assms(1) by (auto simp: failStartup_def Let_def new_deferred_def split: lifecycle.splits if_splits)
  then show ?thesis
    using assms(2) settle_closes [of rd b1] by simp
qed

text \<open>The three waits of a start, in their order.\<close>

fun start_stage :: "fiber \<Rightarrow> nat" where
  "start_stage (Start_lookup g rd) = 0"
| "start_stage (Start_spawn g rd owned) = 1"
| "start_stage (Start_init g rd owned d) = 2"
| "start_stage _ = 3"

definition goes_on :: "nat \<Rightarrow> nat \<Rightarrow> nat \<Rightarrow> 'c backend \<times> fiber list \<Rightarrow> bool" where
  "goes_on g rd k x \<longleftrightarrow> be_deferreds (fst x) ! rd \<noteq> None \<or> (\<exists>f. snd x = [f] \<and> starts f = Some (g, rd) \<and> k < start_stage f)"

lemma failStartup_goes_on: "rd < length (be_deferreds b) \<Longrightarrow> goes_on g rd k (failStartup ops g rd owned e b)"
  using failStartup_settles [of ops g rd owned e b] by (cases "failStartup ops g rd owned e b") (simp add: goes_on_def)

lemma begin_spawn_goes_on: "rd < length (be_deferreds b) \<Longrightarrow> goes_on g rd 0 (begin_spawn cfg ops g rd b)"
  by (cases "be_lifecycle b") (simp_all add: begin_spawn_def Let_def failStartup_goes_on, simp add: goes_on_def)

lemma initialize_server_length: "initialize_server cfg g w b = (d, b') \<Longrightarrow> length (be_deferreds b) \<le> length (be_deferreds b')"
  by (auto simp: initialize_server_def new_deferred_def addPending_def Let_def split: if_splits)

lemma spawned_goes_on:
  assumes "rd < length (be_deferreds b)"
  shows "goes_on g rd 1 (spawned cfg ops g rd owned answer b)"
proof (cases answer)
  case Spawned
  then show ?thesis
    using assms by (auto simp: spawned_def Let_def failStartup_goes_on split: prod.split, simp add: goes_on_def)
next
  case (Write_failed c)
  then show ?thesis
    using assms initialize_server_length
    by (auto simp: spawned_def Let_def failStartup_goes_on split: prod.split intro!: failStartup_goes_on dest!: initialize_server_length)
qed (use assms in \<open>simp_all add: spawned_def Let_def failStartup_goes_on\<close>)

lemma initialized_goes_on:
  assumes "rd < length (be_deferreds b)" "start_sound (be_lifecycle b) (be_deferreds b) g rd s"
  shows "goes_on g rd 2 (initialized cfg ops g rd owned r b)"
proof (cases "(\<exists>e. r = Failed e) \<or> \<not> is_starting g b")
  case True
  then show ?thesis
    using assms(1) by (cases r) (auto simp: initialized_def failStartup_goes_on)
next
  case False
  then obtain rd' res where "be_lifecycle b = Starting g rd' res"
    by (auto simp: is_starting_def split: lifecycle.splits)
  then show ?thesis
    using False assms
    by (cases r) (simp_all add: initialized_def Let_def goes_on_def settle_closes del: not_None_eq)
qed

lemma resume_goes_on:
  assumes "fiber_sound (be_lifecycle b) (be_deferreds b) f" "starts f = Some (g, rd)" "rd < length (be_deferreds b)"
    "resume cfg ops f a b = Some x"
  shows "goes_on g rd (start_stage f) x"
proof (cases f)
  case (Start_lookup g' rd')
  then obtain l where "x = looked_up cfg ops g rd l b"
    using assms(2,4) by (cases a) (auto simp: resume_def)
  then show ?thesis
    using assms(3) by (cases l) (simp_all add: looked_up_def Start_lookup begin_spawn_goes_on failStartup_goes_on)
next
  case (Start_spawn g' rd' owned)
  then obtain l where "x = spawned cfg ops g rd owned l b"
    using assms(2,4) by (cases a) (auto simp: resume_def)
  then show ?thesis
    using assms(3) spawned_goes_on [unfolded One_nat_def] by (simp add: Start_spawn)
next
  case (Start_init g' rd' owned d)
  then obtain r where "x = initialized cfg ops g rd owned r b"
    using assms(2,4) by (cases a) (auto simp: resume_def)
  then show ?thesis
    using assms initialized_goes_on [of rd b g "rs_scope owned"] by (simp add: Start_init)
qed (use assms(2) in simp_all)


definition down :: "lifecycle \<Rightarrow> bool" where
  "down l = (case l of Idle _ \<Rightarrow> True | Unavailable _ _ \<Rightarrow> True | _ \<Rightarrow> False)"

lemma reachable_facts:
  assumes "reachable cfg ops (b, fs)"
  shows "sound b (set fs)" "live (be_lifecycle b) = None \<Longrightarrow> be_pending b = []"
    "down (be_lifecycle b) \<Longrightarrow> d < length (be_deferreds b) \<Longrightarrow> be_deferreds b ! d \<noteq> None"
proof -
  show s: "sound b (set fs)"
    using reachable_sound [OF assms] by (simp add: system_sound_def)
  note P = soundD(1) [OF s] and D = soundD(2) [OF s]
  show "live (be_lifecycle b) = None \<Longrightarrow> be_pending b = []"
    by (rule stopping_quiet [OF P])
  assume down: "down (be_lifecycle b)" and d: "d < length (be_deferreds b)"
  then have "live (be_lifecycle b) = None" "roles (be_lifecycle b) = {}"
    by (auto simp: down_def live_def split: lifecycle.splits)
  then have "{d. open_at (be_deferreds b) d} = {}"
    using D stopping_quiet [OF P] by (simp add: deferreds_sound_def waiting_requests_def)
  then show "be_deferreds b ! d \<noteq> None"
    using d by (simp add: open_at_def)
qed

lemma reachable_step: "reachable cfg ops x \<Longrightarrow> step cfg ops x y \<Longrightarrow> reachable cfg ops y"
  unfolding reachable_def by (blast intro: rtranclp.rtrancl_into_rtrancl)

text \<open>A start that the lifecycle has left behind.\<close>

lemma stale_failStartup:
  assumes "sound b F" "g < generation_of (be_lifecycle b)" "closed_at (be_deferreds b) rd"
  shows "failStartup ops g rd owned e b =
    (b\<lparr>be_semantic := False, be_startupFailure := Some (compactStatusDetail (er_message e))\<rparr>,
     [Cleanup \<lparr>cl_resource = owned, cl_stopping = None, cl_reset = False\<rparr>])"
proof -
  let ?b = "b\<lparr>be_semantic := False, be_startupFailure := Some (compactStatusDetail (er_message e))\<rparr>"
  have P: "pending_sound (be_lifecycle b) (be_nextId b) (be_pending b)"
    by (rule soundD(1) [OF assms(1)])
  have "g \<noteq> pd_generation p" if "(i, p) \<in> set (be_pending b)" for i p
    using P that assms(2) by (auto simp: pending_sound_def live_def split: lifecycle.splits)
  then have "failAllPending e (Some g) ?b = ?b"
    using fold_invariant [of "be_pending b" "\<lambda>x. x \<in> set (be_pending b)" "\<lambda>x. x = ?b"] by (auto simp: failAllPending_def)
  moreover have "settle rd (Failed e) ?b = ?b"
    using assms(3) by (intro settle_closed) (simp add: closed_at_def open_at_def)
  ultimately show ?thesis
    using assms(2) by (cases "be_lifecycle b") (simp_all add: failStartup_def Let_def)
qed

lemma stale_resume:
  assumes "starts f = Some (g, rd)" "\<not> is_starting g b" "resume cfg ops f a b = Some x"
  shows "\<exists>owned e. x = failStartup ops g rd owned e b \<and> rs_scope owned = owns f"
proof -
  have spawn: "begin_spawn cfg ops g rd b = failStartup ops g rd emptyResource (cancelled cfg) b"
    using assms(2) by (auto simp: begin_spawn_def is_starting_def split: lifecycle.splits)
  have none: "rs_scope emptyResource = None"
    by (simp add: emptyResource_def)
  show ?thesis
  proof (cases f)
    case (Start_lookup g' rd')
    then obtain l where "x = looked_up cfg ops g rd l b"
      using assms(1,3) by (cases a) (auto simp: resume_def)
    then show ?thesis
      using none Start_lookup by (cases l) (auto simp: looked_up_def spawn)
  next
    case (Start_spawn g' rd' owned)
    then obtain l where x: "x = spawned cfg ops g rd owned l b"
      using assms(1,3) by (cases a) (auto simp: resume_def)
    have "rs_scope (owned\<lparr>rs_process := p\<rparr>) = rs_scope owned" for p
      by simp
    then show ?thesis
      using x Start_spawn assms(2) by (cases l) (auto simp: spawned_def Let_def)
  next
    case (Start_init g' rd' owned d)
    then obtain r where "x = initialized cfg ops g rd owned r b"
      using assms(1,3) by (cases a) (auto simp: resume_def)
    then show ?thesis
      using Start_init assms(2) by (cases r) (auto simp: initialized_def)
  qed (use assms(1) in simp_all)
qed

subsection \<open>Runs\<close>

datatype event = Do_start | Do_shutdown | Do_resume nat host_answer | Do_message lsp_message nat | Do_semantic string nat

fun act :: "backend_config \<Rightarrow> 'c cache_ops \<Rightarrow> event \<Rightarrow> 'c system \<Rightarrow> 'c system" where
  "act cfg ops Do_start (b, fs) = (case ensureStarted cfg ops b of (_, b', fs') \<Rightarrow> (b', fs @ fs'))"
| "act cfg ops Do_shutdown (b, fs) = (case shutdown cfg b of (_, b', fs') \<Rightarrow> (b', fs @ fs'))"
| "act cfg ops (Do_resume i a) (b, fs) =
     (if i < length fs then
        case resume cfg ops (fs ! i) a b of None \<Rightarrow> (b, fs) | Some (b', fs') \<Rightarrow> (b', take i fs @ fs' @ drop (Suc i) fs)
      else (b, fs))"
| "act cfg ops (Do_message m g) (b, fs) = (onLspMessage cfg ops m g b, fs)"
| "act cfg ops (Do_semantic method n) (b, fs) = (recordSemanticResult method n b, fs)"

lemma act_step: "act cfg ops e x = x \<or> step cfg ops x (act cfg ops e x)"
proof (cases x)
  case (Pair b fs)
  show ?thesis
  proof (cases e)
    case (Do_resume i a)
    show ?thesis
    proof (cases "i < length fs \<and> resume cfg ops (fs ! i) a b \<noteq> None")
      case True
      then obtain b' fs' where r: "resume cfg ops (fs ! i) a b = Some (b', fs')"
        by auto
      then have "step cfg ops (b, take i fs @ fs ! i # drop (Suc i) fs) (b', take i fs @ fs' @ drop (Suc i) fs)"
        by (rule step.resumed)
      then show ?thesis
        using True r by (simp add: Pair Do_resume id_take_nth_drop [symmetric])
    next
      case False
      then show ?thesis
        by (cases "resume cfg ops (fs ! i) a b") (auto simp: Pair Do_resume)
    qed
  qed (auto simp: Pair intro: step.intros split: prod.split)
qed

definition run :: "backend_config \<Rightarrow> 'c cache_ops \<Rightarrow> 'c \<Rightarrow> event list \<Rightarrow> 'c system" where
  "run cfg ops c es = fold (act cfg ops) es (initial_backend c, [])"

lemma run_reachable: "reachable cfg ops (run cfg ops c es)"
proof -
  have "reachable cfg ops x \<Longrightarrow> reachable cfg ops (fold (act cfg ops) es x)" for x
  proof (induction es arbitrary: x)
    case (Cons e es)
    then have "reachable cfg ops (act cfg ops e x)"
      using act_step [of cfg ops e x] reachable_step by metis
    then show ?case
      using Cons.IH by simp
  qed simp
  moreover have "reachable cfg ops (initial_backend c, [])"
    unfolding reachable_def by blast
  ultimately show ?thesis
    by (simp add: run_def)
qed


section \<open>Properties\<close>

definition demo_config :: backend_config where
  "demo_config = \<lparr>cf_name = ''ts'', cf_binaryName = ''tsserver'', cf_launchCommand = ''tsserver'', cf_extension = None,
     cf_dash = ''-'', cf_initialize = (\<lambda>r. JObj [])\<rparr>"

definition demo_caches :: "unit cache_ops" where
  "demo_caches = \<lparr>co_reset = id, co_publish = (\<lambda>v. id)\<rparr>"

abbreviation demo :: "event list \<Rightarrow> unit system" where
  "demo \<equiv> run demo_config demo_caches ()"

lemma backend_demo_reachable: "demo es = (b, fs) \<Longrightarrow> reachable demo_config demo_caches (b, fs)"
  by (metis run_reachable)

text \<open>C6: 
  Claim C0. In every reachable system the answers still owed are exactly those of the requests in the pending
  map and of the start or stop in progress. When the server is stopping no request is pending, and when it is
  down every answer has been given: no caller waits for ever on a server that is gone.
\<close>

theorem answers_accounted_for:
  assumes "reachable cfg ops (b, fs)"
  shows "{d. open_at (be_deferreds b) d} = roles (be_lifecycle b) \<union> waiting_requests (be_pending b) \<and>
    (live (be_lifecycle b) = None \<longrightarrow> be_pending b = []) \<and>
    (down (be_lifecycle b) \<longrightarrow> (\<forall>d < length (be_deferreds b). be_deferreds b ! d \<noteq> None))"
  using reachable_facts [OF assms] soundD(2) [OF reachable_facts(1) [OF assms]] by (simp add: deferreds_sound_def)

text \<open>C10: 
  Claim C0. A server that is stopping gets there: in every reachable system where it stops, so whatever has
  happened meanwhile, a clean-up is waiting whose turn leaves the server down, everybody who waited for the end
  told, no answer owed and the scope of the process closed.
\<close>

theorem stopping_ends:
  assumes "reachable cfg ops (b, fs)" "be_lifecycle b = Stopping g d r st"
  shows "\<exists>xs c ys b'. fs = xs @ Cleanup c # ys \<and> resume cfg ops (Cleanup c) Ready b = Some (b', []) \<and>
    reachable cfg ops (b', xs @ ys) \<and> down (be_lifecycle b') \<and> generation_of (be_lifecycle b') = g \<and>
    be_deferreds b' ! d = Some Settled \<and> be_pending b' = [] \<and> rs_scope r \<notin> Some ` set (be_open b')"
proof -
  note s = reachable_facts(1) [OF assms(1)]
  obtain f where f: "f \<in> set fs" "ends f = Some d"
    using soundD(4) [OF s] by (auto simp: progressing_def assms(2))
  obtain c u g' where c: "f = Cleanup c" "cl_stopping c = Some (d, g', u)"
    using f(2) by (cases f) auto
  obtain xs ys where fs: "fs = xs @ Cleanup c # ys"
    using f(1) split_list unfolding c(1) by fastforce
  have g: "g' = g" "rs_scope r = rs_scope (cl_resource c)"
    using soundD(3) [OF s f(1)] by (simp_all add: c assms(2))
  have d: "open_at (be_deferreds b) d"
    using soundD(2) [OF s] by (auto simp: deferreds_sound_def assms(2))
  let ?b = "cleaned_up ops c b"
  have res: "resume cfg ops (Cleanup c) Ready b = Some (?b, [])"
    by (simp add: resume_def)
  have reach: "reachable cfg ops (?b, xs @ ys)"
    using reachable_step [OF assms(1)] step.resumed [OF res, of xs ys] by (simp add: fs)
  have l: "be_lifecycle ?b = (case u of Some m \<Rightarrow> Unavailable g m | None \<Rightarrow> Idle g)"
    and "be_deferreds ?b ! d = Some Settled" "rs_scope r \<notin> Some ` set (be_open ?b)"
    using d by (auto simp: cleaned_up_def Let_def c(2) assms(2) g settle_def open_at_def resetSemanticState_def resetCaches_def
        split: option.splits)
  moreover have "be_pending ?b = []"
    by (rule reachable_facts(2) [OF reach]) (simp add: l live_def split: option.split)
  ultimately show ?thesis
    using fs res reach by (intro exI [of _ xs] exI [of _ c] exI [of _ ys] exI [of _ ?b]) (simp add: down_def split: option.split)
qed

text \<open>C38: 
  Claim C0. A start ends: in every reachable system where the server starts, code of that start is waiting, and
  whatever the host or the server answers it, its turn either tells those who wait for the start how it went or
  leaves it at a later one of its three waits.
\<close>

theorem start_goes_on:
  assumes "reachable cfg ops (b, fs)" "be_lifecycle b = Starting g rd r"
  shows "\<exists>f\<in>set fs. starts f = Some (g, rd) \<and> start_stage f \<le> 2 \<and>
    (\<forall>a b' fs'. resume cfg ops f a b = Some (b', fs') \<longrightarrow>
       be_deferreds b' ! rd \<noteq> None \<or> (\<exists>f'. fs' = [f'] \<and> starts f' = Some (g, rd) \<and> start_stage f < start_stage f'))"
proof -
  note s = reachable_facts(1) [OF assms(1)]
  obtain f where f: "f \<in> set fs" "starts f = Some (g, rd)"
    using soundD(4) [OF s] by (auto simp: progressing_def assms(2))
  have "start_stage f \<le> 2"
    using f(2) by (cases f) simp_all
  moreover have "rd < length (be_deferreds b)"
    using open_bound [OF soundD(2) [OF s], of rd] by (simp add: assms(2))
  ultimately show ?thesis
    using f resume_goes_on [OF soundD(3) [OF s f(1)] f(2)] unfolding goes_on_def by fastforce
qed

text \<open>C39: 
  Claim C0. No process is forgotten: in every reachable system each scope still open belongs to the server of
  the lifecycle or to code that is waiting; so once the server is down and no start or clean-up is under way,
  all of them are closed.
\<close>

theorem scopes_have_owners:
  assumes "reachable cfg ops (b, fs)"
  shows "(\<forall>s\<in>set (be_open b). scope_of (be_lifecycle b) = Some s \<or> (\<exists>f\<in>set fs. owns f = Some s)) \<and>
    (down (be_lifecycle b) \<and> (\<forall>f\<in>set fs. starts f = None \<and> ends f = None \<and> owns f = None) \<longrightarrow> be_open b = [])"
proof -
  have known: "Some ` set (be_open b) \<subseteq> insert (scope_of (be_lifecycle b)) (owns ` set fs)"
    using soundD(5) [OF reachable_facts(1) [OF assms]] by (simp add: scopes_known_def)
  have "scope_of (be_lifecycle b) = None" if "down (be_lifecycle b)"
    using that by (simp add: down_def split: lifecycle.splits)
  moreover have owned: "scope_of (be_lifecycle b) = Some s \<or> (\<exists>f\<in>set fs. owns f = Some s)" if "s \<in> set (be_open b)" for s
    using subsetD [OF known imageI [OF that]] by auto
  ultimately have "set (be_open b) = {}" if "down (be_lifecycle b)" "\<forall>f\<in>set fs. starts f = None \<and> ends f = None \<and> owns f = None"
    using that by fastforce
  then show ?thesis
    using owned by blast
qed

text \<open>C40: 
  Claim C0. What a start does that the lifecycle has left behind (a shutdown came in between, and perhaps a new
  start): it touches neither the lifecycle nor any request or answer and cleans up after itself; but it marks
  the server, which may be running, as failed.
\<close>

theorem stale_start_only_marks:
  assumes "reachable cfg ops (b, fs)" "f \<in> set fs" "starts f = Some (g, rd)" "g < generation_of (be_lifecycle b)"
    "resume cfg ops f a b = Some (b', fs')"
  shows "\<exists>m c. b' = b\<lparr>be_semantic := False, be_startupFailure := Some m\<rparr> \<and> fs' = [Cleanup c] \<and> cl_stopping c = None \<and>
    rs_scope (cl_resource c) = owns f"
proof -
  note s = reachable_facts(1) [OF assms(1)]
  have "\<not> is_starting g b"
    using assms(4) by (auto simp: is_starting_def split: lifecycle.splits)
  then obtain owned e where r: "failStartup ops g rd owned e b = (b', fs')" "rs_scope owned = owns f"
    using stale_resume [OF assms(3) _ assms(5)] by auto
  moreover have "closed_at (be_deferreds b) rd"
    using fiber_start [OF soundD(3) [OF s assms(2)] assms(3)] assms(4) by (auto simp: start_sound_def split: lifecycle.splits)
  ultimately show ?thesis
    using stale_failStartup [OF s assms(4)] by auto
qed


subsection \<open>Witnesses\<close>

text \<open>A start is cancelled while its lookup waits; a second start runs to the end, and then the first one wakes.\<close>

definition demo_restart :: "event list" where
  "demo_restart =
     [Do_start, Do_shutdown, Do_resume 1 Ready, Do_start, Do_resume 1 (Looked_up Found), Do_resume 1 (Host_spawned Spawned),
      Do_message \<lparr>lm_id = Some 1, lm_method = None, lm_params = JNull, lm_error = None, lm_result = JNull\<rparr> 3,
      Do_resume 1 Ready, Do_semantic ''hover'' 1]"


lemma demo_restarted:
  "map_option fst (live (be_lifecycle (fst (demo demo_restart)))) = Some 3 \<and> be_semantic (fst (demo demo_restart)) \<and>
   snd (demo demo_restart) = [Start_lookup 1 0]"
  by code_simp

lemma backend_demo_pairs: "reachable demo_config demo_caches (fst (demo es), snd (demo es))"
  by (rule backend_demo_reachable) simp

theorem answers_accounted_for_witness:
  "{d. open_at (be_deferreds (fst (demo [Do_start]))) d} = {0} \<and> be_pending (fst (demo [Do_start, Do_shutdown])) = []"
proof -
  have "be_lifecycle (fst (demo [Do_start])) = Starting 1 0 emptyResource \<and> be_pending (fst (demo [Do_start])) = [] \<and>
      live (be_lifecycle (fst (demo [Do_start, Do_shutdown]))) = None"
    by code_simp
  then show ?thesis
    using answers_accounted_for [OF backend_demo_pairs, of "[Do_start]"] answers_accounted_for [OF backend_demo_pairs, of "[Do_start, Do_shutdown]"]
    by (simp add: waiting_requests_def)
qed

theorem stopping_ends_witness:
  "\<exists>xs c ys b'. snd (demo [Do_start, Do_shutdown]) = xs @ Cleanup c # ys \<and> down (be_lifecycle b') \<and>
    be_deferreds b' ! 1 = Some Settled \<and> reachable demo_config demo_caches (b', xs @ ys)"
proof -
  have "be_lifecycle (fst (demo [Do_start, Do_shutdown])) = Stopping 2 1 emptyResource (Some 0)"
    by code_simp
  then show ?thesis
    using stopping_ends [OF backend_demo_pairs] by blast
qed

theorem start_goes_on_witness: "\<exists>f\<in>{Start_lookup 1 0}. starts f = Some (1, 0) \<and> start_stage f \<le> 2"
proof -
  have l: "be_lifecycle (fst (demo [Do_start])) = Starting 1 0 emptyResource" "snd (demo [Do_start]) = [Start_lookup 1 0]"
    by code_simp+
  show ?thesis
    using start_goes_on [OF backend_demo_pairs l(1)] unfolding l(2) by auto
qed

theorem scopes_have_owners_witness: "be_open (fst (demo [Do_start, Do_resume 0 (Looked_up Not_installed), Do_resume 0 Ready])) = []"
proof -
  let ?x = "demo [Do_start, Do_resume 0 (Looked_up Not_installed), Do_resume 0 Ready]"
  have "down (be_lifecycle (fst ?x)) \<and> snd ?x = []"
    by code_simp
  then show ?thesis
    using scopes_have_owners [OF backend_demo_pairs, of "[Do_start, Do_resume 0 (Looked_up Not_installed), Do_resume 0 Ready]"] by simp
qed

theorem stale_start_only_marks_witness:
  "be_semantic (fst (demo demo_restart)) \<and>
   (\<exists>b' fs'. resume demo_config demo_caches (Start_lookup 1 0) (Looked_up Found) (fst (demo demo_restart)) = Some (b', fs') \<and>
      be_lifecycle b' = be_lifecycle (fst (demo demo_restart)) \<and> \<not> be_semantic b' \<and> be_startupFailure b' \<noteq> None)"
proof -
  let ?b = "fst (demo demo_restart)"
  obtain x where x: "resume demo_config demo_caches (Start_lookup 1 0) (Looked_up Found) ?b = Some x"
    by (simp add: resume_def)
  have "1 < generation_of (be_lifecycle ?b)" "Start_lookup 1 0 \<in> set (snd (demo demo_restart))"
    using demo_restarted by (auto simp: live_def split: lifecycle.splits)
  then show ?thesis
    using stale_start_only_marks [OF backend_demo_pairs, of "Start_lookup 1 0" demo_restart 1 0 "Looked_up Found" "fst x" "snd x"]
      demo_restarted x by (cases x) auto
qed

end
